(* ===== verification/BT_Prelude.thy ===== *)
theory BT_Prelude
  imports Main "HOL-Library.Word"
begin

unbundle bit_operations_syntax

text \<open>
  Shared ground of the development: the machine integers of the Rust sources, the result type of
  fallible code (with panics as values of their own), the sequencing combinators that stand for the
  \<open>?\<close> operator and for \<open>for\<close> loops with early return, little-endian byte conversion and UTF-8
  validation of the standard library, and the generic lemmas every component uses.

  Conventions: \<open>usize\<close> is \<^typ>\<open>nat\<close> (a slice or \<open>Vec\<close> never holds more than
  \<open>isize::MAX\<close> elements, so lengths and offsets do not wrap); integers that are part of the wire
  format or of the instruction set keep their width as words; counters of type \<open>u64\<close> that only
  add up lengths are \<^typ>\<open>nat\<close>, each with a lemma that bounds it.
\<close>

section \<open>Machine integers\<close>

type_synonym u8 = "8 word"
type_synonym u16 = "16 word"
type_synonym u32 = "32 word"
type_synonym u64 = "64 word"
type_synonym usize = nat

text \<open>Casting a length to \<open>u32\<close> keeps the low 32 bits, as Rust's \<open>as u32\<close> does.\<close>

abbreviation as_u32 :: "usize \<Rightarrow> u32" where
  "as_u32 n \<equiv> word_of_nat n"

abbreviation as_usize :: "u32 \<Rightarrow> usize" where
  "as_usize w \<equiv> unat w"

definition usize_checked_add :: "usize \<Rightarrow> usize \<Rightarrow> usize option" where
  "usize_checked_add a b = (if a + b < 2 ^ 64 then Some (a + b) else None)"

definition u64_saturating :: "nat \<Rightarrow> nat" where
  "u64_saturating n = min n (2 ^ 64 - 1)"

lemma unat_as_u32 [simp]: "n < 2 ^ 32 \<Longrightarrow> unat (as_u32 n) = n"
  by (simp add: unat_of_nat take_bit_eq_mod)

lemma unat_u32_bound [simp]: "unat (w :: u32) < 4294967296"
  using unsigned_less [of w] by simp

section \<open>Results, panics and early return\<close>

text \<open>
  \<open>Ok\<close> and \<open>Err\<close> are Rust's \<open>Result\<close>; \<open>Panic\<close> is a Rust panic (an index out of bounds, a failed
  \<open>expect\<close>), kept apart so that its absence can be proved.
\<close>

datatype ('a, 'e) result = Ok 'a | Err 'e | Panic

primrec bind_result :: "('a, 'e) result \<Rightarrow> ('a \<Rightarrow> ('b, 'e) result) \<Rightarrow> ('b, 'e) result" where
  "bind_result (Ok x) f = f x"
| "bind_result (Err e) f = Err e"
| "bind_result Panic f = Panic"

primrec map_err :: "('e \<Rightarrow> 'f) \<Rightarrow> ('a, 'e) result \<Rightarrow> ('a, 'f) result" where
  "map_err g (Ok x) = Ok x"
| "map_err g (Err e) = Err (g e)"
| "map_err g Panic = Panic"

definition ensure :: "bool \<Rightarrow> 'e \<Rightarrow> (unit, 'e) result" where
  "ensure c e = (if c then Ok () else Err e)"

definition ok_or :: "'a option \<Rightarrow> 'e \<Rightarrow> ('a, 'e) result" where
  "ok_or x e = (case x of None \<Rightarrow> Err e | Some y \<Rightarrow> Ok y)"

definition expect :: "'a option \<Rightarrow> ('a, 'e) result" where
  "expect x = (case x of None \<Rightarrow> Panic | Some y \<Rightarrow> Ok y)"

text \<open>Indexing: \<open>xs.get(i)\<close> and \<open>xs[i]\<close>, the latter panicking out of range.\<close>

definition slice_get :: "'a list \<Rightarrow> usize \<Rightarrow> 'a option" where
  "slice_get xs i = (if i < length xs then Some (xs ! i) else None)"

definition slice_index :: "'a list \<Rightarrow> usize \<Rightarrow> ('a, 'e) result" where
  "slice_index xs i = (if i < length xs then Ok (xs ! i) else Panic)"

text \<open>A sequence of statements, each ending in \<open>?\<close>.\<close>

fun try_all :: "(unit, 'e) result list \<Rightarrow> (unit, 'e) result" where
  "try_all [] = Ok ()"
| "try_all (c # cs) = bind_result c (\<lambda>_. try_all cs)"

text \<open>A \<open>for\<close> loop that threads a state and may return early.\<close>

fun try_fold :: "('s \<Rightarrow> 'a \<Rightarrow> ('s, 'e) result) \<Rightarrow> 's \<Rightarrow> 'a list \<Rightarrow> ('s, 'e) result" where
  "try_fold f s [] = Ok s"
| "try_fold f s (x # xs) = bind_result (f s x) (\<lambda>s'. try_fold f s' xs)"

text \<open>A \<open>for\<close> loop that pushes one value per element and may return early.\<close>

fun try_map :: "('a \<Rightarrow> ('b, 'e) result) \<Rightarrow> 'a list \<Rightarrow> ('b list, 'e) result" where
  "try_map f [] = Ok []"
| "try_map f (x # xs) = bind_result (f x) (\<lambda>y. bind_result (try_map f xs) (\<lambda>ys. Ok (y # ys)))"

lemma bind_result_Ok_iff: "bind_result r f = Ok y \<longleftrightarrow> (\<exists>x. r = Ok x \<and> f x = Ok y)"
  by (cases r) auto

lemma bind_result_Err_iff:
  "bind_result r f = Err e \<longleftrightarrow> r = Err e \<or> (\<exists>x. r = Ok x \<and> f x = Err e)"
  by (cases r) auto

lemma bind_result_Panic_iff:
  "bind_result r f = Panic \<longleftrightarrow> r = Panic \<or> (\<exists>x. r = Ok x \<and> f x = Panic)"
  by (cases r) auto

lemmas bind_result_iffs = bind_result_Ok_iff bind_result_Err_iff bind_result_Panic_iff

lemma map_err_iffs [simp]:
  "map_err g r = Ok x \<longleftrightarrow> r = Ok x"
  "map_err g r = Err e' \<longleftrightarrow> (\<exists>e. r = Err e \<and> e' = g e)"
  "map_err g r = Panic \<longleftrightarrow> r = Panic"
  by (cases r; auto)+

lemma ensure_iffs [simp]:
  "ensure c e = Ok u \<longleftrightarrow> c"
  "ensure c e = Err e' \<longleftrightarrow> \<not> c \<and> e' = e"
  "ensure c e \<noteq> Panic"
  by (auto simp: ensure_def)

lemma ok_or_iffs [simp]:
  "ok_or x e = Ok y \<longleftrightarrow> x = Some y"
  "ok_or x e = Err e' \<longleftrightarrow> x = None \<and> e' = e"
  "ok_or x e \<noteq> Panic"
  by (auto simp: ok_or_def split: option.splits)

lemma expect_iffs [simp]:
  "expect x = Ok y \<longleftrightarrow> x = Some y"
  "expect x \<noteq> Err e"
  "expect x = Panic \<longleftrightarrow> x = None"
  by (auto simp: expect_def split: option.splits)

lemma slice_get_iffs [simp]:
  "slice_get xs i = Some x \<longleftrightarrow> i < length xs \<and> x = xs ! i"
  "slice_get xs i = None \<longleftrightarrow> length xs \<le> i"
  by (auto simp: slice_get_def)

lemma slice_index_iffs [simp]:
  "slice_index xs i = Ok x \<longleftrightarrow> i < length xs \<and> x = xs ! i"
  "slice_index xs i \<noteq> Err e"
  "slice_index xs i = Panic \<longleftrightarrow> length xs \<le> i"
  by (auto simp: slice_index_def)

lemma in_enumerate: "(pc, ins) \<in> set (enumerate 0 xs) \<longleftrightarrow> pc < length xs \<and> ins = xs ! pc"
  by (auto simp: in_set_enumerate_eq)

lemma all_enumerate:
  "(\<forall>at \<in> set (enumerate 0 xs). P at) \<longleftrightarrow> (\<forall>pc < length xs. P (pc, xs ! pc))"
  by (auto simp: in_enumerate)

lemma try_all_Ok_iff: "try_all cs = Ok () \<longleftrightarrow> (\<forall>c \<in> set cs. c = Ok ())"
  by (induction cs) (auto simp: bind_result_iffs)

lemma try_all_enumerate:
  "(\<And>i x. g (i, x) = Ok () \<longleftrightarrow> P x) \<Longrightarrow> try_all (map g (enumerate n xs)) = Ok () \<longleftrightarrow> (\<forall>x \<in> set xs. P x)"
  by (induction xs arbitrary: n) (auto simp: bind_result_iffs)

lemma try_all_append: "try_all (cs @ ds) = bind_result (try_all cs) (\<lambda>_. try_all ds)"
proof (induction cs)
  case (Cons c cs)
  then show ?case by (cases c) auto
qed simp

lemma try_all_Panic: "try_all cs = Panic \<Longrightarrow> Panic \<in> set cs"
  by (induction cs) (auto simp: bind_result_iffs)

lemma try_all_map_no_Panic: "(\<And>x. x \<in> set xs \<Longrightarrow> f x \<noteq> Panic) \<Longrightarrow> try_all (map f xs) \<noteq> Panic"
  by (fastforce dest: try_all_Panic)

text \<open>An early return is the first failing statement.\<close>

lemma try_all_Err_split:
  "try_all cs = Err e \<Longrightarrow> \<exists>us vs. cs = us @ Err e # vs \<and> (\<forall>c \<in> set us. c = Ok ())"
proof (induction cs)
  case (Cons c cs)
  show ?case
  proof (cases c)
    case (Ok u)
    with Cons obtain us vs where "cs = us @ Err e # vs" "\<forall>c \<in> set us. c = Ok ()"
      by auto
    with Ok have "c # cs = (c # us) @ Err e # vs \<and> (\<forall>c \<in> set (c # us). c = Ok ())"
      by simp
    then show ?thesis by blast
  next
    case (Err e')
    with Cons.prems have "c # cs = [] @ Err e # cs" by simp
    then show ?thesis by fastforce
  next
    case Panic
    with Cons.prems show ?thesis by simp
  qed
qed simp

lemma try_all_Err: "try_all cs = Err e \<Longrightarrow> Err e \<in> set cs"
  by (induction cs) (auto simp: bind_result_iffs)

lemma try_map_Ok_iff:
  "try_map f xs = Ok ys \<longleftrightarrow> list_all2 (\<lambda>x y. f x = Ok y) xs ys"
  by (induction xs arbitrary: ys) (auto simp: bind_result_iffs list_all2_Cons1)

lemma try_map_length: "try_map f xs = Ok ys \<Longrightarrow> length ys = length xs"
  by (auto simp: try_map_Ok_iff list_all2_lengthD)

lemma try_map_Panic: "try_map f xs = Panic \<Longrightarrow> \<exists>x \<in> set xs. f x = Panic"
  by (induction xs) (auto simp: bind_result_iffs)

lemma try_fold_append:
  "try_fold f s (xs @ ys) = bind_result (try_fold f s xs) (\<lambda>s'. try_fold f s' ys)"
proof (induction xs arbitrary: s)
  case (Cons x xs)
  then show ?case by (cases "f s x") auto
qed simp

text \<open>Loop rule: an invariant that each iteration keeps holds after the loop.\<close>

lemma try_fold_invariant:
  assumes "try_fold f s xs = Ok s'" and "I s"
    and "\<And>s x s'. I s \<Longrightarrow> x \<in> set xs \<Longrightarrow> f s x = Ok s' \<Longrightarrow> I s'"
  shows "I s'"
  using assms
proof (induction xs arbitrary: s)
  case (Cons x xs)
  from Cons.prems(1) obtain t where t: "f s x = Ok t" "try_fold f t xs = Ok s'"
    by (auto simp: bind_result_iffs)
  have "I t" by (rule Cons.prems(3) [OF Cons.prems(2) _ t(1)]) simp
  with t(2) show ?case by (rule Cons.IH) (rule Cons.prems(3), auto)
qed simp

lemma try_fold_no_Panic:
  assumes "I s"
    and "\<And>s x s'. I s \<Longrightarrow> x \<in> set xs \<Longrightarrow> f s x = Ok s' \<Longrightarrow> I s'"
    and "\<And>s x. I s \<Longrightarrow> x \<in> set xs \<Longrightarrow> f s x \<noteq> Panic"
  shows "try_fold f s xs \<noteq> Panic"
  using assms
proof (induction xs arbitrary: s)
  case (Cons x xs)
  show ?case
  proof (cases "f s x")
    case (Ok t)
    have "I t" by (rule Cons.prems(2) [OF Cons.prems(1) _ Ok]) simp
    then have "try_fold f t xs \<noteq> Panic"
      using Cons.IH [of t] Cons.prems(2,3) by (metis list.set_intros(2))
    with Ok show ?thesis by simp
  next
    case (Err e)
    then show ?thesis by simp
  next
    case Panic
    with Cons.prems(1,3) show ?thesis by auto
  qed
qed simp

text \<open>Total loop rule: if every iteration succeeds and keeps the invariant, the loop succeeds.\<close>

lemma try_fold_total:
  assumes "I s" and "\<And>s x. I s \<Longrightarrow> x \<in> set xs \<Longrightarrow> \<exists>s'. f s x = Ok s' \<and> I s'"
  shows "\<exists>s'. try_fold f s xs = Ok s' \<and> I s'"
  using assms
proof (induction xs arbitrary: s)
  case (Cons x xs)
  obtain t where t: "f s x = Ok t" "I t"
    using Cons.prems(2) [OF Cons.prems(1), of x] by auto
  have "\<exists>s'. try_fold f t xs = Ok s' \<and> I s'"
    by (rule Cons.IH [OF t(2)]) (use Cons.prems(2) in auto)
  with t(1) show ?case by auto
qed auto

text \<open>
  A loop over a pair of a state and a change flag that only ever rises: when the flag is still down
  at the end, no iteration changed the state.
\<close>

lemma try_fold_unchanged:
  assumes "\<And>s c x s' c'. x \<in> set xs \<Longrightarrow> f (s, c) x = Ok (s', c') \<Longrightarrow> (c \<longrightarrow> c') \<and> (\<not> c' \<longrightarrow> s' = s)"
    and "try_fold f (s, c) xs = Ok (s', c')"
  shows "(c \<longrightarrow> c') \<and> (\<not> c' \<longrightarrow> s' = s \<and> (\<forall>x \<in> set xs. f (s, False) x = Ok (s, False)))"
  using assms
proof (induction xs arbitrary: s c)
  case (Cons x xs)
  from Cons.prems(2) obtain t d where t: "f (s, c) x = Ok (t, d)" "try_fold f (t, d) xs = Ok (s', c')"
    by (auto simp: bind_result_iffs)
  have head: "(c \<longrightarrow> d) \<and> (\<not> d \<longrightarrow> t = s)"
    by (rule Cons.prems(1) [OF _ t(1)]) simp
  have "(d \<longrightarrow> c') \<and> (\<not> c' \<longrightarrow> s' = t \<and> (\<forall>x \<in> set xs. f (t, False) x = Ok (t, False)))"
    by (rule Cons.IH [OF _ t(2)]) (rule Cons.prems(1), simp_all)
  with head t(1) show ?case by auto
qed auto

end
