(* ===== verification/Leb128.thy ===== *)
theory Leb128
  imports BT_Prelude
begin

text \<open>
  Canonical unsigned LEB128 for \<open>u32\<close>: the writer \<open>write_u32\<close> (the same loop in
  \<^verbatim>\<open>lib.rs\<close>, \<^verbatim>\<open>isa.rs\<close> and \<^verbatim>\<open>program.rs\<close>) and the reader \<open>read_leb128\<close> of
  \<^verbatim>\<open>program.rs\<close>, with the second reader \<open>Cursor::leb128\<close> of \<^verbatim>\<open>isa.rs\<close>. The lemmas show that
  the two directions are mutually inverse: a written value reads back, and a sequence of bytes
  that reads as a value is the one the writer emits for it.
\<close>

section \<open>Writer and readers\<close>

lemma unat_drop_bit_7: "unat (drop_bit 7 (v :: u32)) = unat v div 128"
  by (simp only: unat_drop_bit_eq) (simp add: drop_bit_eq_div)

lemma drop_bit_7_less: "drop_bit 7 (v :: u32) \<noteq> 0 \<Longrightarrow> unat (drop_bit 7 v) < unat v"
  unfolding unat_eq_0 [symmetric] unat_drop_bit_7 by (metis div_less_dividend gr_zeroI div_0 one_less_numeral_iff semiring_norm(76))

text \<open>The loop of \<open>write_u32\<close>: seven bits at a time, the low group first.\<close>

function write_u32 :: "u32 \<Rightarrow> u8 list" where
  "write_u32 remaining =
     (let byte = (ucast (remaining AND 0x7f) :: u8);
          remaining' = drop_bit 7 remaining
      in if remaining' = 0 then [byte] else (byte OR 0x80) # write_u32 remaining')"
  by pat_completeness auto
termination
  by (relation "measure unat") (auto dest: drop_bit_7_less)

declare write_u32.simps [simp del]

datatype Leb128Error = Leb_UnexpectedEof | Leb_IntegerOverflow | Leb_NonCanonicalInteger

text \<open>
  The loop of \<open>read_leb128\<close>. The result is paired with the offset at which the reader stops,
  which the callers use to place an error.
\<close>

function read_leb128_loop ::
  "u8 list \<Rightarrow> usize \<Rightarrow> usize \<Rightarrow> u32 \<Rightarrow> nat \<Rightarrow> (u32, Leb128Error) result \<times> usize" where
  "read_leb128_loop bytes start offset res shift =
     (if \<not> offset < length bytes then (Err Leb_UnexpectedEof, offset)
      else let byte = bytes ! offset; offset' = offset + 1
      in if shift = 28 then
           (if byte AND 0x80 \<noteq> 0 \<or> byte > 0x0f then (Err Leb_IntegerOverflow, offset')
            else if byte = 0 then (Err Leb_NonCanonicalInteger, offset')
            else (Ok (res OR push_bit 28 (ucast byte)), offset'))
         else let res' = res OR push_bit shift (ucast (byte AND 0x7f))
         in if byte AND 0x80 = 0 then
              (if byte = 0 \<and> offset' - start > 1 then (Err Leb_NonCanonicalInteger, offset')
               else (Ok res', offset'))
            else read_leb128_loop bytes start offset' res' (shift + 7))"
  by pat_completeness auto
termination
  by (relation "measure (\<lambda>(bytes, start, offset, res, shift). length bytes - offset)") auto

declare read_leb128_loop.simps [simp del]

definition read_leb128 :: "u8 list \<Rightarrow> usize \<Rightarrow> (u32, Leb128Error) result \<times> usize" where
  "read_leb128 bytes offset = read_leb128_loop bytes offset offset 0 0"

section \<open>Seven-bit groups\<close>

lemma and_7f: "(v :: u32) AND 0x7f = take_bit 7 v"
  by (simp add: take_bit_eq_mask mask_eq_exp_minus_1)

lemma and_7f_u8: "(v :: u8) AND 0x7f = take_bit 7 v"
  by (simp add: take_bit_eq_mask mask_eq_exp_minus_1)

lemma and_80_u8: "(b :: u8) AND 0x80 = 0 \<longleftrightarrow> \<not> bit b 7"
  using and_exp_eq_0_iff_not_bit [of b 7] by simp

lemma bit_80_u8: "bit (0x80 :: u8) n \<longleftrightarrow> n = 7"
  using bit_exp_iff [where ?'a = u8, of 7 n] by auto

text \<open>The group emitted for \<open>v\<close>, without and with its continuation bit.\<close>

abbreviation group7 :: "u32 \<Rightarrow> u8" where
  "group7 v \<equiv> ucast (v AND 0x7f)"

lemma bit_group7: "bit (group7 v) n \<longleftrightarrow> n < 7 \<and> bit v n"
  by (auto simp: and_7f bit_simps)

lemma group7_no_continuation [simp]: "group7 v AND 0x80 = 0"
  by (simp only: and_80_u8 bit_group7) simp

lemma group7_continuation [simp]: "(group7 v OR 0x80) AND 0x80 \<noteq> 0"
  by (simp only: and_80_u8 bit_or_iff bit_80_u8) simp

lemma group7_payload [simp]: "(group7 v OR 0x80) AND 0x7f = group7 v"
  by (rule bit_eqI) (auto simp only: and_7f_u8 bit_take_bit_iff bit_or_iff bit_80_u8 bit_group7)

lemma group7_payload' [simp]: "group7 v AND 0x7f = group7 v"
  by (rule bit_eqI) (auto simp only: and_7f_u8 bit_take_bit_iff bit_group7)

lemma ucast_group7 [simp]: "(ucast (group7 v) :: u32) = take_bit 7 v"
  by (rule bit_eqI) (auto simp: bit_simps and_7f)

lemma take_drop_7: "take_bit 7 (v :: u32) OR push_bit 7 (drop_bit 7 v) = v"
proof (rule bit_word_eqI)
  fix n
  show "bit (take_bit 7 v OR push_bit 7 (drop_bit 7 v)) n = bit v n" if "n < LENGTH(32)"
    using that by (cases "n < 7") (auto simp: bit_simps)
qed

lemma push_take_drop_7:
  "push_bit s (take_bit 7 (v :: u32)) OR push_bit (s + 7) (drop_bit 7 v) = push_bit s v"
  by (metis take_drop_7 push_bit_or push_bit_push_bit add.commute)

lemma last_group: "drop_bit 7 (v :: u32) = 0 \<Longrightarrow> take_bit 7 v = v"
  using take_drop_7 [of v] by simp

lemma group7_eq_0: "drop_bit 7 v = 0 \<Longrightarrow> group7 v = 0 \<longleftrightarrow> v = 0"
  by (metis last_group ucast_group7 unsigned_0 and_zero_eq bit.conj_zero_left)

lemma unat_group7: "unat (group7 v) = unat v mod 128"
  by (simp only: and_7f unsigned_ucast_eq unsigned_take_bit_eq take_bit_take_bit)
    (simp add: take_bit_eq_mod)

section \<open>A written value reads back\<close>

text \<open>One iteration of the reader, with a byte present: the fifth group and the earlier ones.\<close>

lemma read_loop_28:
  "offset < length bytes \<Longrightarrow> read_leb128_loop bytes start offset res 28 =
    (if bytes ! offset AND 0x80 \<noteq> 0 \<or> bytes ! offset > 0x0f then (Err Leb_IntegerOverflow, Suc offset)
     else if bytes ! offset = 0 then (Err Leb_NonCanonicalInteger, Suc offset)
     else (Ok (res OR push_bit 28 (ucast (bytes ! offset))), Suc offset))"
  by (simp add: read_leb128_loop.simps [of bytes start offset] Let_def)

lemma read_loop_step:
  "offset < length bytes \<Longrightarrow> shift \<noteq> 28 \<Longrightarrow> read_leb128_loop bytes start offset res shift =
    (if bytes ! offset AND 0x80 = 0
     then if bytes ! offset = 0 \<and> Suc offset - start > 1
       then (Err Leb_NonCanonicalInteger, Suc offset)
       else (Ok (res OR push_bit shift (ucast (bytes ! offset AND 0x7f))), Suc offset)
     else read_leb128_loop bytes start (Suc offset)
       (res OR push_bit shift (ucast (bytes ! offset AND 0x7f))) (shift + 7))"
  by (simp add: read_leb128_loop.simps [of bytes start offset] Let_def)

lemma read_loop_continue:
  assumes "offset < length bytes" and "k \<le> 3" and "bytes ! offset AND 0x80 \<noteq> 0"
  shows "read_leb128_loop bytes start offset res (7 * k) =
    read_leb128_loop bytes start (Suc offset)
      (res OR push_bit (7 * k) (ucast (bytes ! offset AND 0x7f))) (7 * (k + 1))"
proof -
  have k: "7 * k \<noteq> 28" "7 * (k + 1) = 7 * k + 7" using assms(2) by auto
  show ?thesis
    unfolding read_loop_step [OF assms(1) k(1)] k(2) using assms(3) by (simp only: if_False)
qed

lemma read_loop_eof:
  "\<not> offset < length bytes \<Longrightarrow>
    read_leb128_loop bytes start offset res shift = (Err Leb_UnexpectedEof, offset)"
  by (simp add: read_leb128_loop.simps [of bytes start offset])

lemma drop_eq_Cons_nth: "drop n xs = y # ys \<Longrightarrow> n < length xs \<and> xs ! n = y \<and> drop (Suc n) xs = ys"
  by (metis drop_eq_Nil drop_Suc list.distinct(1) list.sel(3) not_le nth_via_drop tl_drop)

lemma power_group: "k \<le> 3 \<Longrightarrow> (2::nat) ^ (32 - 7 * k) = 2 ^ (32 - 7 * (k + 1)) * 128"
proof -
  assume "k \<le> 3"
  then have "32 - 7 * k = (32 - 7 * (k + 1)) + 7" by simp
  then have "(2::nat) ^ (32 - 7 * k) = 2 ^ (32 - 7 * (k + 1)) * 2 ^ 7"
    by (simp only: power_add)
  then show ?thesis by simp
qed

text \<open>
  The loop invariant: with \<open>7 * k\<close> bits already read, the value still to be read fits into the
  remaining bits, and a zero group is only allowed as the first one.
\<close>

lemma read_loop_write:
  assumes "drop offset bytes = write_u32 v @ rest"
    and "k \<le> 4" and "unat v < 2 ^ (32 - 7 * k)" and "v \<noteq> 0 \<or> offset = start \<and> k = 0"
  shows "read_leb128_loop bytes start offset res (7 * k) =
    (Ok (res OR push_bit (7 * k) v), offset + length (write_u32 v))"
  using assms
proof (induction v arbitrary: offset res k rule: write_u32.induct)
  case (1 v)
  show ?case
  proof (cases "drop_bit 7 v = 0")
    case True
    then have w: "write_u32 v = [group7 v]" by (simp add: write_u32.simps [of v])
    with "1.prems"(1) have o: "offset < length bytes" "bytes ! offset = group7 v"
      by (auto dest: drop_eq_Cons_nth)
    have b: "(ucast (group7 v) :: u32) = v" using last_group [OF True] by simp
    have z: "group7 v = 0 \<longleftrightarrow> v = 0" by (rule group7_eq_0 [OF True])
    show ?thesis
    proof (cases "k = 4")
      case True
      have "unat (group7 v) \<le> 15" using "1.prems"(3) True by (simp add: unat_group7)
      then have "\<not> group7 v > 15" by (simp add: word_less_nat_alt)
      moreover have "v \<noteq> 0" using "1.prems"(4) True by simp
      ultimately show ?thesis
        using o w b z True by (simp add: read_loop_28)
    next
      case False
      then show ?thesis
        using o w b z "1.prems"(4) by (auto simp: read_loop_step)
    qed
  next
    case False
    then have w: "write_u32 v = (group7 v OR 0x80) # write_u32 (drop_bit 7 v)"
      by (simp add: write_u32.simps [of v])
    with "1.prems"(1) have o: "offset < length bytes" "bytes ! offset = group7 v OR 0x80"
      and r: "drop (Suc offset) bytes = write_u32 (drop_bit 7 v) @ rest"
      by (auto dest: drop_eq_Cons_nth)
    have "128 \<le> unat v" using False by (simp add: unat_eq_0 [symmetric] unat_drop_bit_7 not_le)
    with "1.prems"(2,3) have k: "k \<le> 3" 
      by (cases "k = 4") auto
    from "1.prems"(3) have "unat (drop_bit 7 v) < 2 ^ (32 - 7 * (k + 1))"
      unfolding unat_drop_bit_7 power_group [OF k] by (rule less_mult_imp_div_less)
    with False r k have IH: "read_leb128_loop bytes start (Suc offset) (res OR push_bit (7 * k) (take_bit 7 v)) (7 * (k + 1)) =
        (Ok ((res OR push_bit (7 * k) (take_bit 7 v)) OR push_bit (7 * (k + 1)) (drop_bit 7 v)),
         Suc offset + length (write_u32 (drop_bit 7 v)))"
      by (intro "1.IH") auto
    have "read_leb128_loop bytes start offset res (7 * k) =
        read_leb128_loop bytes start (Suc offset) (res OR push_bit (7 * k) (take_bit 7 v)) (7 * (k + 1))"
      using read_loop_continue [OF o(1) k, of start res] by (simp only: o(2) group7_payload ucast_group7 group7_continuation simp_thms)
    moreover have "7 * (k + 1) = 7 * k + 7" by simp
    ultimately show ?thesis
      using IH push_take_drop_7 [of "7 * k" v] w by (simp only: or.assoc) simp
  qed
qed

lemma read_leb128_write:
  assumes "drop offset bytes = write_u32 v @ rest"
  shows "read_leb128 bytes offset = (Ok v, offset + length (write_u32 v))"
  using read_loop_write [of offset bytes v rest 0 offset 0] assms by (simp add: read_leb128_def)

section \<open>A sequence that reads is the one the writer emits\<close>

lemma bit_u8_bound: "bit (b :: u8) n \<Longrightarrow> n < 8"
  using bit_imp_le_length [of b n] by simp

lemma unat_ucast_u8: "unat (ucast (b :: u8) :: u32) = unat b"
  by (simp add: unsigned_ucast_eq unsigned_take_bit_eq take_bit_nat_eq_self
      less_le_trans [OF unsigned_less])

lemma last_byte:
  assumes "(b :: u8) AND 0x80 = 0"
  shows "drop_bit 7 (ucast b :: u32) = 0" "group7 (ucast b) = b" "b AND 0x7f = b" "unat b < 128"
proof -
  have n: "bit b n \<Longrightarrow> n < 7" for n
    using assms bit_u8_bound [of b n] by (cases "n = 7") (auto simp: and_80_u8)
  show g: "b AND 0x7f = b"
    using n by (intro bit_eqI) (auto simp only: and_7f_u8 bit_take_bit_iff)
  show "drop_bit 7 (ucast b :: u32) = 0"
    using n by (intro bit_eqI) (auto simp: bit_simps dest: n)
  have u: "bit (ucast b :: u32) m \<longleftrightarrow> bit b m" for m
    by (auto simp: bit_simps dest: bit_u8_bound)
  show "group7 (ucast b) = b"
    using n by (intro bit_eqI) (auto simp only: bit_group7 u)
  from g have "unat b = take_bit 7 (unat b)"
    by (metis and_7f_u8 unsigned_take_bit_eq)
  then show "unat b < 128" by (simp add: take_bit_eq_mod)
qed

lemma continued_byte:
  fixes b :: u8 and w :: u32
  assumes "b AND 0x80 \<noteq> 0" and "unat w < 2 ^ 25"
  defines "v \<equiv> ucast (b AND 0x7f) OR push_bit 7 w"
  shows "drop_bit 7 v = w" "group7 v OR 0x80 = b"
proof -
  have "take_bit 25 w = w"
    using assms(2) by (simp only: word_unat_eq_iff unsigned_take_bit_eq take_bit_nat_eq_self)
  then have w: "bit w n \<Longrightarrow> n < 25" for n
    by (metis bit_take_bit_iff)
  have b: "bit (ucast (b AND 0x7f) :: u32) n \<longleftrightarrow> n < 7 \<and> bit b n" for n
    by (auto simp: and_7f_u8 bit_simps)
  show "drop_bit 7 v = w"
    unfolding v_def
    by (intro bit_eqI) (auto simp: bit_drop_bit_eq bit_or_iff b bit_push_bit_iff dest: w)
  have "bit b 7" using assms(1) by (simp add: and_80_u8)
  moreover have "bit b n \<Longrightarrow> n = 7 \<or> n < 7" for n
    using bit_u8_bound [of b n] by auto
  ultimately show "group7 v OR 0x80 = b"
    unfolding v_def
    by (intro bit_eqI) (auto simp only: bit_or_iff bit_80_u8 bit_group7 b bit_push_bit_iff)
qed

lemma read_loop_canonical:
  assumes "read_leb128_loop bytes start offset res (7 * k) = (Ok v, offset')"
    and "start \<le> offset" and "k \<le> 4" and "k = 0 \<longleftrightarrow> offset = start"
  shows "\<exists>w. v = res OR push_bit (7 * k) w \<and> drop offset bytes = write_u32 w @ drop offset' bytes
    \<and> unat w < 2 ^ (32 - 7 * k) \<and> (w \<noteq> 0 \<or> k = 0)
    \<and> offset' = offset + length (write_u32 w)"
  using assms
proof (induction "length bytes - offset" arbitrary: offset res k rule: less_induct)
  case less
  then have o: "offset < length bytes"
    using read_loop_eof [of offset bytes start res "7 * k"] by fastforce
  let ?b = "bytes ! offset"
  have d: "drop offset bytes = ?b # drop (Suc offset) bytes"
    by (rule Cons_nth_drop_Suc [symmetric, OF o])
  show ?case
  proof (cases "?b AND 0x80 = 0")
    case True
    let ?w = "ucast ?b :: u32"
    note b = last_byte [OF True]
    have w: "write_u32 ?w = [?b]" using b(1,2) by (simp add: write_u32.simps [of ?w])
    have z: "?w = 0 \<longleftrightarrow> ?b = 0"
      by (metis b(2) unsigned_0 and_zero_eq bit.conj_zero_left)
    have "v = res OR push_bit (7 * k) ?w \<and> offset' = Suc offset \<and> (?b \<noteq> 0 \<or> k = 0) 
        \<and> (k = 4 \<longrightarrow> \<not> ?b > 0x0f)"
    proof (cases "k = 4")
      case True
      with less.prems o show ?thesis by (auto simp: read_loop_28 split: if_splits)
    next
      case False
      with less.prems o \<open>?b AND 0x80 = 0\<close> b(3) show ?thesis
        by (auto simp: read_loop_step split: if_splits)
    qed
    moreover have "unat ?w < 2 ^ (32 - 7 * k)" if f: "k = 4 \<longrightarrow> \<not> ?b > 0x0f"
    proof (cases "k = 4")
      case True
      with f show ?thesis by (simp add: word_less_nat_alt unat_ucast_u8)
    next
      case False
      with less.prems(3) have "(2::nat) ^ 7 \<le> 2 ^ (32 - 7 * k)"
        by (intro power_increasing) auto
      with b(4) show ?thesis by (simp add: unat_ucast_u8)
    qed
    ultimately show ?thesis using d w z by (intro exI [of _ ?w]) auto
  next
    case False
    with less.prems o have k: "k \<noteq> 4"
      by (auto simp: read_loop_28)
    with less.prems(3) have k3: "k \<le> 3" by simp
    let ?g = "ucast (?b AND 0x7f) :: u32"
    have "length bytes - Suc offset < length bytes - offset" using o by simp
    moreover have "read_leb128_loop bytes start (Suc offset) (res OR push_bit (7 * k) ?g) (7 * (k + 1)) =
        (Ok v, offset')"
      using read_loop_continue [OF o k3 False, of start res] less.prems(1) by (simp only:)
    moreover have "start \<le> Suc offset" "k + 1 \<le> 4" "k + 1 = 0 \<longleftrightarrow> Suc offset = start"
      using less.prems(2,3) k by auto
    ultimately have "\<exists>w. v = (res OR push_bit (7 * k) ?g) OR push_bit (7 * (k + 1)) w
        \<and> drop (Suc offset) bytes = write_u32 w @ drop offset' bytes
        \<and> unat w < 2 ^ (32 - 7 * (k + 1)) \<and> (w \<noteq> 0 \<or> k + 1 = 0)
        \<and> offset' = Suc offset + length (write_u32 w)"
      by (rule less.hyps)
    then obtain w where w:
      "v = (res OR push_bit (7 * k) ?g) OR push_bit (7 * (k + 1)) w"
      "drop (Suc offset) bytes = write_u32 w @ drop offset' bytes"
      "unat w < 2 ^ (32 - 7 * (k + 1))" "w \<noteq> 0"
      "offset' = Suc offset + length (write_u32 w)"
      by auto
    let ?v = "?g OR push_bit 7 w"
    have "(2::nat) ^ (32 - 7 * (k + 1)) \<le> 2 ^ 25" by (intro power_increasing) auto
    with w(3) have "unat w < 2 ^ 25" by (rule less_le_trans)
    note c = continued_byte [OF False this]
    have wv: "write_u32 ?v = ?b # write_u32 w"
      unfolding write_u32.simps [of ?v] Let_def using c w(4) by (simp only: if_False)
    have "?v \<noteq> 0" using c(1) w(4) drop_bit_of_0 by metis
    moreover have "unat ?v < 2 ^ (32 - 7 * k)"
    proof -
      have "unat ?v div 128 < 2 ^ (32 - 7 * (k + 1))"
        using w(3) by (simp only: unat_drop_bit_7 [symmetric] c(1))
      then show ?thesis
        by (simp only: power_group [OF k3] div_less_iff_less_mult zero_less_numeral)
    qed
    moreover have "v = res OR push_bit (7 * k) ?v"
      using w(1) by (simp add: push_bit_or or.assoc add.commute)
    ultimately show ?thesis using d wv w(2,5) by (intro exI [of _ ?v]) auto
  qed
qed

lemma read_leb128_canonical:
  assumes "read_leb128 bytes offset = (Ok v, offset')"
  shows "drop offset bytes = write_u32 v @ drop offset' bytes"
    and "offset' = offset + length (write_u32 v)"
  using read_loop_canonical [of bytes offset offset 0 0 v offset'] assms
  by (auto simp: read_leb128_def)

section \<open>Size\<close>

lemma write_u32_length: "unat v < 2 ^ (7 * Suc k) \<Longrightarrow> 0 < length (write_u32 v) \<and> length (write_u32 v) \<le> Suc k"
proof (induction k arbitrary: v)
  case 0
  then have "drop_bit 7 v = 0" by (simp add: word_unat_eq_iff unat_drop_bit_7)
  then show ?case by (subst (1 2) write_u32.simps) simp
next
  case (Suc k)
  have "unat (drop_bit 7 v) < 2 ^ (7 * Suc k)"
    using Suc.prems by (simp add: unat_drop_bit_7 less_mult_imp_div_less power_add mult.commute)
  from Suc.IH [OF this] show ?case by (subst (1 2) write_u32.simps) (simp add: Let_def)
qed

lemma write_u32_bounds: "0 < length (write_u32 v)" "length (write_u32 v) \<le> 5"
  using write_u32_length [of v 4] unat_u32_bound [of v] by (auto intro: less_trans)

end
