(* ===== verification/Isa.thy ===== *)
theory Isa
  imports Leb128
begin

text \<open>
  The instruction set of \<^verbatim>\<open>crates/bamts-bytecode/src/lib.rs\<close> and its append-only extension
  \<^verbatim>\<open>isa.rs\<close>: the operator enumerations with their wire tags, the 58 instructions, and the
  registers each one reads, writes and the program counters it can continue at. Field order is the
  order of the Rust struct variants, which is also the order of the operands on the wire.
\<close>

section \<open>Index types\<close>

text \<open>The transparent index wrappers of the \<open>index_type!\<close> macro.\<close>

type_synonym Register = u32
type_synonym ConstantId = u32
type_synonym FunctionId = u32
type_synonym Pc = u32

section \<open>Operator enumerations and their wire tags\<close>

text \<open>
  Every closed enumeration has a one-byte tag. The contract a wire tag obeys is the same for all of
  them: the tag of a value decodes to that value, and every tag that decodes was emitted for the
  value it decodes to.
\<close>

locale wire_tag =
  fixes to_u8 :: "'a \<Rightarrow> u8"
    and from_u8 :: "u8 \<Rightarrow> 'a option"
  assumes from_to: "from_u8 (to_u8 x) = Some x"
    and to_from: "from_u8 t = Some x \<Longrightarrow> to_u8 x = t"
begin

lemma to_u8_inject: "to_u8 x = to_u8 y \<longleftrightarrow> x = y"
  using from_to by (metis option.inject)

lemma from_u8_Some_iff: "from_u8 t = Some x \<longleftrightarrow> t = to_u8 x"
  using from_to to_from by blast

lemma from_u8_None_iff: "from_u8 t = None \<longleftrightarrow> t \<notin> range to_u8"
  using from_to to_from by (metis not_None_eq rangeE rangeI)

end

datatype UnaryOp =
    Void | TypeOf | Plus | Negate | BitwiseNot
  | LogicalNot

primrec unary_op_to_u8 :: "UnaryOp \<Rightarrow> u8" where
  "unary_op_to_u8 Void = 0"
| "unary_op_to_u8 TypeOf = 1"
| "unary_op_to_u8 Plus = 2"
| "unary_op_to_u8 Negate = 3"
| "unary_op_to_u8 BitwiseNot = 4"
| "unary_op_to_u8 LogicalNot = 5"

definition unary_op_from_u8 :: "u8 \<Rightarrow> UnaryOp option" where
  "unary_op_from_u8 tag =
     (if tag = 0 then Some Void
      else if tag = 1 then Some TypeOf
      else if tag = 2 then Some Plus
      else if tag = 3 then Some Negate
      else if tag = 4 then Some BitwiseNot
      else if tag = 5 then Some LogicalNot
      else None)"

interpretation unary_op_tag: wire_tag unary_op_to_u8 unary_op_from_u8
proof
  show "unary_op_from_u8 (unary_op_to_u8 x) = Some x" for x
    by (cases x) (simp_all add: unary_op_from_u8_def)
  show "unary_op_from_u8 t = Some x \<Longrightarrow> unary_op_to_u8 x = t" for t x
    by (auto simp: unary_op_from_u8_def split: if_splits)
qed

datatype BinaryOp =
    Add | Subtract | Multiply | Divide | Remainder
  | Exponent | BitAnd | BitOr | BitXor | ShiftLeft
  | ShiftRight | UnsignedShiftRight | Equal | NotEqual | StrictEqual
  | StrictNotEqual | LessThan | LessThanOrEqual | GreaterThan | GreaterThanOrEqual
  | InstanceOf | In

primrec binary_op_to_u8 :: "BinaryOp \<Rightarrow> u8" where
  "binary_op_to_u8 Add = 0"
| "binary_op_to_u8 Subtract = 1"
| "binary_op_to_u8 Multiply = 2"
| "binary_op_to_u8 Divide = 3"
| "binary_op_to_u8 Remainder = 4"
| "binary_op_to_u8 Exponent = 5"
| "binary_op_to_u8 BitAnd = 6"
| "binary_op_to_u8 BitOr = 7"
| "binary_op_to_u8 BitXor = 8"
| "binary_op_to_u8 ShiftLeft = 9"
| "binary_op_to_u8 ShiftRight = 10"
| "binary_op_to_u8 UnsignedShiftRight = 11"
| "binary_op_to_u8 Equal = 12"
| "binary_op_to_u8 NotEqual = 13"
| "binary_op_to_u8 StrictEqual = 14"
| "binary_op_to_u8 StrictNotEqual = 15"
| "binary_op_to_u8 LessThan = 16"
| "binary_op_to_u8 LessThanOrEqual = 17"
| "binary_op_to_u8 GreaterThan = 18"
| "binary_op_to_u8 GreaterThanOrEqual = 19"
| "binary_op_to_u8 InstanceOf = 20"
| "binary_op_to_u8 In = 21"

definition binary_op_from_u8 :: "u8 \<Rightarrow> BinaryOp option" where
  "binary_op_from_u8 tag =
     (if tag = 0 then Some Add
      else if tag = 1 then Some Subtract
      else if tag = 2 then Some Multiply
      else if tag = 3 then Some Divide
      else if tag = 4 then Some Remainder
      else if tag = 5 then Some Exponent
      else if tag = 6 then Some BitAnd
      else if tag = 7 then Some BitOr
      else if tag = 8 then Some BitXor
      else if tag = 9 then Some ShiftLeft
      else if tag = 10 then Some ShiftRight
      else if tag = 11 then Some UnsignedShiftRight
      else if tag = 12 then Some Equal
      else if tag = 13 then Some NotEqual
      else if tag = 14 then Some StrictEqual
      else if tag = 15 then Some StrictNotEqual
      else if tag = 16 then Some LessThan
      else if tag = 17 then Some LessThanOrEqual
      else if tag = 18 then Some GreaterThan
      else if tag = 19 then Some GreaterThanOrEqual
      else if tag = 20 then Some InstanceOf
      else if tag = 21 then Some In
      else None)"

interpretation binary_op_tag: wire_tag binary_op_to_u8 binary_op_from_u8
proof
  show "binary_op_from_u8 (binary_op_to_u8 x) = Some x" for x
    by (cases x) (simp_all add: binary_op_from_u8_def)
  show "binary_op_from_u8 t = Some x \<Longrightarrow> binary_op_to_u8 x = t" for t x
    by (auto simp: binary_op_from_u8_def split: if_splits)
qed

datatype IteratorKind =
    IteratorSync | IteratorAsync | IteratorKeys

primrec iterator_kind_to_u8 :: "IteratorKind \<Rightarrow> u8" where
  "iterator_kind_to_u8 IteratorSync = 0"
| "iterator_kind_to_u8 IteratorAsync = 1"
| "iterator_kind_to_u8 IteratorKeys = 2"

definition iterator_kind_from_u8 :: "u8 \<Rightarrow> IteratorKind option" where
  "iterator_kind_from_u8 tag =
     (if tag = 0 then Some IteratorSync
      else if tag = 1 then Some IteratorAsync
      else if tag = 2 then Some IteratorKeys
      else None)"

interpretation iterator_kind_tag: wire_tag iterator_kind_to_u8 iterator_kind_from_u8
proof
  show "iterator_kind_from_u8 (iterator_kind_to_u8 x) = Some x" for x
    by (cases x) (simp_all add: iterator_kind_from_u8_def)
  show "iterator_kind_from_u8 t = Some x \<Longrightarrow> iterator_kind_to_u8 x = t" for t x
    by (auto simp: iterator_kind_from_u8_def split: if_splits)
qed

datatype IteratorCloseMode =
    Propagate | PreserveAbrupt

primrec iterator_close_mode_to_u8 :: "IteratorCloseMode \<Rightarrow> u8" where
  "iterator_close_mode_to_u8 Propagate = 0"
| "iterator_close_mode_to_u8 PreserveAbrupt = 1"

definition iterator_close_mode_from_u8 :: "u8 \<Rightarrow> IteratorCloseMode option" where
  "iterator_close_mode_from_u8 tag =
     (if tag = 0 then Some Propagate
      else if tag = 1 then Some PreserveAbrupt
      else None)"

interpretation iterator_close_mode_tag: wire_tag iterator_close_mode_to_u8 iterator_close_mode_from_u8
proof
  show "iterator_close_mode_from_u8 (iterator_close_mode_to_u8 x) = Some x" for x
    by (cases x) (simp_all add: iterator_close_mode_from_u8_def)
  show "iterator_close_mode_from_u8 t = Some x \<Longrightarrow> iterator_close_mode_to_u8 x = t" for t x
    by (auto simp: iterator_close_mode_from_u8_def split: if_splits)
qed

datatype DisposeHint =
    DisposeSync | DisposeAsync

primrec dispose_hint_to_u8 :: "DisposeHint \<Rightarrow> u8" where
  "dispose_hint_to_u8 DisposeSync = 0"
| "dispose_hint_to_u8 DisposeAsync = 1"

definition dispose_hint_from_u8 :: "u8 \<Rightarrow> DisposeHint option" where
  "dispose_hint_from_u8 tag =
     (if tag = 0 then Some DisposeSync
      else if tag = 1 then Some DisposeAsync
      else None)"

interpretation dispose_hint_tag: wire_tag dispose_hint_to_u8 dispose_hint_from_u8
proof
  show "dispose_hint_from_u8 (dispose_hint_to_u8 x) = Some x" for x
    by (cases x) (simp_all add: dispose_hint_from_u8_def)
  show "dispose_hint_from_u8 t = Some x \<Longrightarrow> dispose_hint_to_u8 x = t" for t x
    by (auto simp: dispose_hint_from_u8_def split: if_splits)
qed

datatype AccessorKind =
    AccessorGetter | AccessorSetter

primrec accessor_kind_to_u8 :: "AccessorKind \<Rightarrow> u8" where
  "accessor_kind_to_u8 AccessorGetter = 0"
| "accessor_kind_to_u8 AccessorSetter = 1"

definition accessor_kind_from_u8 :: "u8 \<Rightarrow> AccessorKind option" where
  "accessor_kind_from_u8 tag =
     (if tag = 0 then Some AccessorGetter
      else if tag = 1 then Some AccessorSetter
      else None)"

interpretation accessor_kind_tag: wire_tag accessor_kind_to_u8 accessor_kind_from_u8
proof
  show "accessor_kind_from_u8 (accessor_kind_to_u8 x) = Some x" for x
    by (cases x) (simp_all add: accessor_kind_from_u8_def)
  show "accessor_kind_from_u8 t = Some x \<Longrightarrow> accessor_kind_to_u8 x = t" for t x
    by (auto simp: accessor_kind_from_u8_def split: if_splits)
qed

datatype DescriptorSlot =
    SlotValue | SlotGetter | SlotSetter

primrec descriptor_slot_to_u8 :: "DescriptorSlot \<Rightarrow> u8" where
  "descriptor_slot_to_u8 SlotValue = 0"
| "descriptor_slot_to_u8 SlotGetter = 1"
| "descriptor_slot_to_u8 SlotSetter = 2"

definition descriptor_slot_from_u8 :: "u8 \<Rightarrow> DescriptorSlot option" where
  "descriptor_slot_from_u8 tag =
     (if tag = 0 then Some SlotValue
      else if tag = 1 then Some SlotGetter
      else if tag = 2 then Some SlotSetter
      else None)"

interpretation descriptor_slot_tag: wire_tag descriptor_slot_to_u8 descriptor_slot_from_u8
proof
  show "descriptor_slot_from_u8 (descriptor_slot_to_u8 x) = Some x" for x
    by (cases x) (simp_all add: descriptor_slot_from_u8_def)
  show "descriptor_slot_from_u8 t = Some x \<Longrightarrow> descriptor_slot_to_u8 x = t" for t x
    by (auto simp: descriptor_slot_from_u8_def split: if_splits)
qed

section \<open>Instructions\<close>

text \<open>The production instruction algebra, one constructor per opcode.\<close>

datatype (plugins only: code size) Instruction =
    LoadConst Register ConstantId
  | Move Register Register
  | Unary Register UnaryOp Register
  | Binary Register BinaryOp Register Register
  | CreateObject Register
  | ToObject Register Register
  | LoadImportMeta Register
  | CreateArray Register
  | CreateCell Register
  | CreateClosure Register FunctionId Register
  | GetProperty Register Register Register
  | SetProperty Register Register Register
  | DeleteProperty Register Register Register
  | DefineAccessor Register Register Register AccessorKind
  | DefineDataProperty Register Register Register
  | LoadOwnDescriptorSlot Register Register Register DescriptorSlot
  | DefineOwnDescriptorSlot Register Register Register DescriptorSlot
  | WithHasBinding Register Register Register
  | Call Register Register Register Register
  | Construct Register Register Register
  | ConstructWithNewTarget Register Register Register Register
  | LoadGlobal Register ConstantId
  | StoreGlobal ConstantId Register
  | TypeOfGlobal Register ConstantId
  | LoadThis Register
  | LoadArguments Register
  | LoadNewTarget Register
  | ArrayPush Register Register
  | ArrayExtend Register Register
  | ObjectSpread Register Register
  | SetPrototype Register Register
  | CreatePrivateName Register ConstantId
  | CreateRegExp Register ConstantId ConstantId
  | GetIterator Register Register IteratorKind
  | IteratorNext Register Register Register
  | IteratorStep Register Register
  | IteratorResult Register Register Register
  | IteratorClose Register Register Register IteratorCloseMode
  | RequireCloseResult Register Register
  | DisposeCapture Register Register Register DisposeHint
  | SuppressError Register Register Register
  | Jump Pc
  | JumpIfTrue Register Pc
  | JumpIfFalse Register Pc
  | Return Register
  | Throw Register
  | Suspend Register Register Pc Register
  | Await Register Register Pc
  | Import Register ConstantId
  | ImportDynamic Register Register
  | Export ConstantId Register
  | GetSuper Register Register Register Register
  | SetSuper Register Register Register Register
  | ImportAttributes Register ConstantId Register
  | ImportDynamicAttributes Register Register Register
  | CopyDataProperties Register Register Register
  | GetTemplateObject Register Register Register
  | Halt

text \<open>The extension opcodes of \<^verbatim>\<open>isa.rs\<close>, a type of their own in the source.\<close>

datatype ExtInstruction =
    ExtGetSuper Register Register Register Register
  | ExtSetSuper Register Register Register Register
  | ExtImportAttributes Register ConstantId Register
  | ExtImportDynamicAttributes Register Register Register
  | ExtCopyDataProperties Register Register Register
  | ExtGetTemplateObject Register Register Register

primrec from_extension :: "ExtInstruction \<Rightarrow> Instruction" where
  "from_extension (ExtGetSuper dst home receiver key) = GetSuper dst home receiver key"
| "from_extension (ExtSetSuper home receiver key value) = SetSuper home receiver key value"
| "from_extension (ExtImportAttributes dst specifier attributes) = ImportAttributes dst specifier attributes"
| "from_extension (ExtImportDynamicAttributes dst specifier attributes) = ImportDynamicAttributes dst specifier attributes"
| "from_extension (ExtCopyDataProperties target source excluded) = CopyDataProperties target source excluded"
| "from_extension (ExtGetTemplateObject dst cooked raw) = GetTemplateObject dst cooked raw"

definition extension :: "Instruction \<Rightarrow> ExtInstruction option" where
  "extension i = (case i of
      GetSuper dst home receiver key \<Rightarrow> Some (ExtGetSuper dst home receiver key)
    | SetSuper home receiver key value \<Rightarrow> Some (ExtSetSuper home receiver key value)
    | ImportAttributes dst specifier attributes \<Rightarrow> Some (ExtImportAttributes dst specifier attributes)
    | ImportDynamicAttributes dst specifier attributes \<Rightarrow> Some (ExtImportDynamicAttributes dst specifier attributes)
    | CopyDataProperties target source excluded \<Rightarrow> Some (ExtCopyDataProperties target source excluded)
    | GetTemplateObject dst cooked raw \<Rightarrow> Some (ExtGetTemplateObject dst cooked raw)
    | _ \<Rightarrow> None)"

text \<open>Registers read before executing, in the order the visitor reports them.\<close>

primrec visit_reads :: "Instruction \<Rightarrow> Register list" where
  "visit_reads (LoadConst _ _) = []"
| "visit_reads (Move _ src) = [src]"
| "visit_reads (Unary _ _ operand) = [operand]"
| "visit_reads (Binary _ _ left right) = [left, right]"
| "visit_reads (CreateObject _) = []"
| "visit_reads (ToObject _ src) = [src]"
| "visit_reads (LoadImportMeta _) = []"
| "visit_reads (CreateArray _) = []"
| "visit_reads (CreateCell _) = []"
| "visit_reads (CreateClosure _ _ captures) = [captures]"
| "visit_reads (GetProperty _ object key) = [object, key]"
| "visit_reads (SetProperty object key value) = [object, key, value]"
| "visit_reads (DeleteProperty _ object key) = [object, key]"
| "visit_reads (DefineAccessor object key accessor _) = [object, key, accessor]"
| "visit_reads (DefineDataProperty object key value) = [object, key, value]"
| "visit_reads (LoadOwnDescriptorSlot _ object key _) = [object, key]"
| "visit_reads (DefineOwnDescriptorSlot object key src _) = [object, key, src]"
| "visit_reads (WithHasBinding _ object key) = [object, key]"
| "visit_reads (Call _ callee this_value arguments) = [callee, this_value, arguments]"
| "visit_reads (Construct _ callee arguments) = [callee, arguments]"
| "visit_reads (ConstructWithNewTarget _ callee new_target arguments) = [callee, new_target, arguments]"
| "visit_reads (LoadGlobal _ _) = []"
| "visit_reads (StoreGlobal _ value) = [value]"
| "visit_reads (TypeOfGlobal _ _) = []"
| "visit_reads (LoadThis _) = []"
| "visit_reads (LoadArguments _) = []"
| "visit_reads (LoadNewTarget _) = []"
| "visit_reads (ArrayPush array value) = [array, value]"
| "visit_reads (ArrayExtend array iterable) = [array, iterable]"
| "visit_reads (ObjectSpread target source) = [target, source]"
| "visit_reads (SetPrototype object prototype) = [object, prototype]"
| "visit_reads (CreatePrivateName _ _) = []"
| "visit_reads (CreateRegExp _ _ _) = []"
| "visit_reads (GetIterator _ src _) = [src]"
| "visit_reads (IteratorNext _ _ iterator) = [iterator]"
| "visit_reads (IteratorStep _ iterator) = [iterator]"
| "visit_reads (IteratorResult _ _ result) = [result]"
| "visit_reads (IteratorClose _ _ iterator _) = [iterator]"
| "visit_reads (RequireCloseResult result called) = [result, called]"
| "visit_reads (DisposeCapture _ _ src _) = [src]"
| "visit_reads (SuppressError _ error suppressed) = [error, suppressed]"
| "visit_reads (Jump _) = []"
| "visit_reads (JumpIfTrue condition _) = [condition]"
| "visit_reads (JumpIfFalse condition _) = [condition]"
| "visit_reads (Return value) = [value]"
| "visit_reads (Throw value) = [value]"
| "visit_reads (Suspend _ src _ _) = [src]"
| "visit_reads (Await _ src _) = [src]"
| "visit_reads (Import _ _) = []"
| "visit_reads (ImportDynamic _ specifier) = [specifier]"
| "visit_reads (Export _ src) = [src]"
| "visit_reads (GetSuper _ home receiver key) = [home, receiver, key]"
| "visit_reads (SetSuper home receiver key value) = [home, receiver, key, value]"
| "visit_reads (ImportAttributes _ _ attributes) = [attributes]"
| "visit_reads (ImportDynamicAttributes _ specifier attributes) = [specifier, attributes]"
| "visit_reads (CopyDataProperties target source excluded) = [target, source, excluded]"
| "visit_reads (GetTemplateObject _ cooked raw) = [cooked, raw]"
| "visit_reads Halt = []"

text \<open>Registers defined, in visiting order: zero, one or two.\<close>

primrec visit_writes :: "Instruction \<Rightarrow> Register list" where
  "visit_writes (LoadConst dst _) = [dst]"
| "visit_writes (Move dst _) = [dst]"
| "visit_writes (Unary dst _ _) = [dst]"
| "visit_writes (Binary dst _ _ _) = [dst]"
| "visit_writes (CreateObject dst) = [dst]"
| "visit_writes (ToObject dst _) = [dst]"
| "visit_writes (LoadImportMeta dst) = [dst]"
| "visit_writes (CreateArray dst) = [dst]"
| "visit_writes (CreateCell dst) = [dst]"
| "visit_writes (CreateClosure dst _ _) = [dst]"
| "visit_writes (GetProperty dst _ _) = [dst]"
| "visit_writes (SetProperty _ _ _) = []"
| "visit_writes (DeleteProperty dst _ _) = [dst]"
| "visit_writes (DefineAccessor _ _ _ _) = []"
| "visit_writes (DefineDataProperty _ _ _) = []"
| "visit_writes (LoadOwnDescriptorSlot dst _ _ _) = [dst]"
| "visit_writes (DefineOwnDescriptorSlot _ _ _ _) = []"
| "visit_writes (WithHasBinding dst _ _) = [dst]"
| "visit_writes (Call dst _ _ _) = [dst]"
| "visit_writes (Construct dst _ _) = [dst]"
| "visit_writes (ConstructWithNewTarget dst _ _ _) = [dst]"
| "visit_writes (LoadGlobal dst _) = [dst]"
| "visit_writes (StoreGlobal _ _) = []"
| "visit_writes (TypeOfGlobal dst _) = [dst]"
| "visit_writes (LoadThis dst) = [dst]"
| "visit_writes (LoadArguments dst) = [dst]"
| "visit_writes (LoadNewTarget dst) = [dst]"
| "visit_writes (ArrayPush _ _) = []"
| "visit_writes (ArrayExtend _ _) = []"
| "visit_writes (ObjectSpread _ _) = []"
| "visit_writes (SetPrototype _ _) = []"
| "visit_writes (CreatePrivateName dst _) = [dst]"
| "visit_writes (CreateRegExp dst _ _) = [dst]"
| "visit_writes (GetIterator dst _ _) = [dst]"
| "visit_writes (IteratorNext done value _) = [done, value]"
| "visit_writes (IteratorStep dst _) = [dst]"
| "visit_writes (IteratorResult done value _) = [done, value]"
| "visit_writes (IteratorClose result called _ _) = [result, called]"
| "visit_writes (RequireCloseResult _ _) = []"
| "visit_writes (DisposeCapture method kind _ _) = [method, kind]"
| "visit_writes (SuppressError dst _ _) = [dst]"
| "visit_writes (Jump _) = []"
| "visit_writes (JumpIfTrue _ _) = []"
| "visit_writes (JumpIfFalse _ _) = []"
| "visit_writes (Return _) = []"
| "visit_writes (Throw _) = []"
| "visit_writes (Suspend dst _ _ mode) = [dst, mode]"
| "visit_writes (Await dst _ _) = [dst]"
| "visit_writes (Import dst _) = [dst]"
| "visit_writes (ImportDynamic dst _) = [dst]"
| "visit_writes (Export _ _) = []"
| "visit_writes (GetSuper dst _ _ _) = [dst]"
| "visit_writes (SetSuper _ _ _ _) = []"
| "visit_writes (ImportAttributes dst _ _) = [dst]"
| "visit_writes (ImportDynamicAttributes dst _ _) = [dst]"
| "visit_writes (CopyDataProperties _ _ _) = []"
| "visit_writes (GetTemplateObject dst _ _) = [dst]"
| "visit_writes Halt = []"

text \<open>Normal-control successors; terminators have none.\<close>

primrec visit_successors :: "u32 \<Rightarrow> Instruction \<Rightarrow> Pc list" where
  "visit_successors pc (LoadConst _ _) = [pc + 1]"
| "visit_successors pc (Move _ _) = [pc + 1]"
| "visit_successors pc (Unary _ _ _) = [pc + 1]"
| "visit_successors pc (Binary _ _ _ _) = [pc + 1]"
| "visit_successors pc (CreateObject _) = [pc + 1]"
| "visit_successors pc (ToObject _ _) = [pc + 1]"
| "visit_successors pc (LoadImportMeta _) = [pc + 1]"
| "visit_successors pc (CreateArray _) = [pc + 1]"
| "visit_successors pc (CreateCell _) = [pc + 1]"
| "visit_successors pc (CreateClosure _ _ _) = [pc + 1]"
| "visit_successors pc (GetProperty _ _ _) = [pc + 1]"
| "visit_successors pc (SetProperty _ _ _) = [pc + 1]"
| "visit_successors pc (DeleteProperty _ _ _) = [pc + 1]"
| "visit_successors pc (DefineAccessor _ _ _ _) = [pc + 1]"
| "visit_successors pc (DefineDataProperty _ _ _) = [pc + 1]"
| "visit_successors pc (LoadOwnDescriptorSlot _ _ _ _) = [pc + 1]"
| "visit_successors pc (DefineOwnDescriptorSlot _ _ _ _) = [pc + 1]"
| "visit_successors pc (WithHasBinding _ _ _) = [pc + 1]"
| "visit_successors pc (Call _ _ _ _) = [pc + 1]"
| "visit_successors pc (Construct _ _ _) = [pc + 1]"
| "visit_successors pc (ConstructWithNewTarget _ _ _ _) = [pc + 1]"
| "visit_successors pc (LoadGlobal _ _) = [pc + 1]"
| "visit_successors pc (StoreGlobal _ _) = [pc + 1]"
| "visit_successors pc (TypeOfGlobal _ _) = [pc + 1]"
| "visit_successors pc (LoadThis _) = [pc + 1]"
| "visit_successors pc (LoadArguments _) = [pc + 1]"
| "visit_successors pc (LoadNewTarget _) = [pc + 1]"
| "visit_successors pc (ArrayPush _ _) = [pc + 1]"
| "visit_successors pc (ArrayExtend _ _) = [pc + 1]"
| "visit_successors pc (ObjectSpread _ _) = [pc + 1]"
| "visit_successors pc (SetPrototype _ _) = [pc + 1]"
| "visit_successors pc (CreatePrivateName _ _) = [pc + 1]"
| "visit_successors pc (CreateRegExp _ _ _) = [pc + 1]"
| "visit_successors pc (GetIterator _ _ _) = [pc + 1]"
| "visit_successors pc (IteratorNext _ _ _) = [pc + 1]"
| "visit_successors pc (IteratorStep _ _) = [pc + 1]"
| "visit_successors pc (IteratorResult _ _ _) = [pc + 1]"
| "visit_successors pc (IteratorClose _ _ _ _) = [pc + 1]"
| "visit_successors pc (RequireCloseResult _ _) = [pc + 1]"
| "visit_successors pc (DisposeCapture _ _ _ _) = [pc + 1]"
| "visit_successors pc (SuppressError _ _ _) = [pc + 1]"
| "visit_successors pc (Jump target) = [target]"
| "visit_successors pc (JumpIfTrue _ target) = [target, pc + 1]"
| "visit_successors pc (JumpIfFalse _ target) = [target, pc + 1]"
| "visit_successors pc (Return _) = []"
| "visit_successors pc (Throw _) = []"
| "visit_successors pc (Suspend _ _ resume _) = [resume]"
| "visit_successors pc (Await _ _ resume) = [resume]"
| "visit_successors pc (Import _ _) = [pc + 1]"
| "visit_successors pc (ImportDynamic _ _) = [pc + 1]"
| "visit_successors pc (Export _ _) = [pc + 1]"
| "visit_successors pc (GetSuper _ _ _ _) = [pc + 1]"
| "visit_successors pc (SetSuper _ _ _ _) = [pc + 1]"
| "visit_successors pc (ImportAttributes _ _ _) = [pc + 1]"
| "visit_successors pc (ImportDynamicAttributes _ _ _) = [pc + 1]"
| "visit_successors pc (CopyDataProperties _ _ _) = [pc + 1]"
| "visit_successors pc (GetTemplateObject _ _ _) = [pc + 1]"
| "visit_successors pc Halt = []"

text \<open>The per-opcode facts \<^verbatim>\<open>isa.rs\<close> reports for its own opcodes.\<close>

primrec ext_visit_reads :: "ExtInstruction \<Rightarrow> Register list" where
  "ext_visit_reads (ExtGetSuper _ home receiver key) = [home, receiver, key]"
| "ext_visit_reads (ExtSetSuper home receiver key value) = [home, receiver, key, value]"
| "ext_visit_reads (ExtImportAttributes _ _ attributes) = [attributes]"
| "ext_visit_reads (ExtImportDynamicAttributes _ specifier attributes) = [specifier, attributes]"
| "ext_visit_reads (ExtCopyDataProperties target source excluded) = [target, source, excluded]"
| "ext_visit_reads (ExtGetTemplateObject _ cooked raw) = [cooked, raw]"

primrec ext_visit_writes :: "ExtInstruction \<Rightarrow> Register list" where
  "ext_visit_writes (ExtGetSuper dst _ _ _) = [dst]"
| "ext_visit_writes (ExtSetSuper _ _ _ _) = []"
| "ext_visit_writes (ExtImportAttributes dst _ _) = [dst]"
| "ext_visit_writes (ExtImportDynamicAttributes dst _ _) = [dst]"
| "ext_visit_writes (ExtCopyDataProperties _ _ _) = []"
| "ext_visit_writes (ExtGetTemplateObject dst _ _) = [dst]"

definition ext_visit_successors :: "u32 \<Rightarrow> ExtInstruction \<Rightarrow> Pc list" where
  "ext_visit_successors pc i = [pc + 1]"

primrec wire_tag_of :: "ExtInstruction \<Rightarrow> u8" where
  "wire_tag_of (ExtGetSuper _ _ _ _) = 52"
| "wire_tag_of (ExtSetSuper _ _ _ _) = 53"
| "wire_tag_of (ExtImportAttributes _ _ _) = 54"
| "wire_tag_of (ExtImportDynamicAttributes _ _ _) = 55"
| "wire_tag_of (ExtCopyDataProperties _ _ _) = 56"
| "wire_tag_of (ExtGetTemplateObject _ _ _) = 57"

section \<open>The extension opcodes agree with the root algebra\<close>

lemma extension_from_extension: "extension (from_extension e) = Some e"
  by (cases e) (simp_all add: extension_def)

lemma extension_SomeD: "extension i = Some e \<Longrightarrow> i = from_extension e"
  by (cases i) (auto simp: extension_def)

lemma ext_visitors_agree:
  assumes "extension i = Some e"
  shows "ext_visit_reads e = visit_reads i" "ext_visit_writes e = visit_writes i"
    "ext_visit_successors pc e = visit_successors pc i"
  using extension_SomeD [OF assms] by (cases e; simp add: ext_visit_successors_def)+

lemma visit_writes_length: "length (visit_writes i) \<le> 2"
  by (cases i) simp_all

end
