(* ===== verification/Byte_Conv.thy ===== *)
theory Byte_Conv
  imports BT_Prelude
begin

text \<open>
  The standard-library conversions the codec uses: \<open>to_le_bytes\<close> and \<open>from_le_bytes\<close> of the integer
  types, and \<open>str::from_utf8\<close> as a check of well-formed UTF-8.
\<close>

section \<open>Little-endian bytes\<close>

definition to_le_bytes :: "nat \<Rightarrow> 'a::len word \<Rightarrow> u8 list" where
  "to_le_bytes n x = map (\<lambda>i. ucast (drop_bit (8 * i) x)) [0..<n]"

fun from_le_bytes :: "u8 list \<Rightarrow> 'a::len word" where
  "from_le_bytes [] = 0"
| "from_le_bytes (b # bs) = ucast b OR push_bit 8 (from_le_bytes bs)"

lemma length_to_le_bytes [simp]: "length (to_le_bytes n x) = n"
  by (simp add: to_le_bytes_def)

lemma bit_from_le_bytes:
  "bit (from_le_bytes bs :: 'a::len word) n \<longleftrightarrow>
    n < LENGTH('a) \<and> n div 8 < length bs \<and> bit (bs ! (n div 8)) (n mod 8)"
proof (induction bs arbitrary: n)
  case (Cons b bs)
  show ?case
  proof (cases "n < 8")
    case True
    then show ?thesis by (auto simp: bit_simps bit_or_iff bit_push_bit_iff)
  next
    case False
    then have d: "n div 8 = Suc ((n - 8) div 8)" and m: "n mod 8 = (n - 8) mod 8"
      by (simp_all add: le_div_geq le_mod_geq)
    from False have "\<not> bit b n" using bit_imp_le_length [of b n] by auto
    with False show ?thesis
      by (auto simp: bit_simps bit_or_iff bit_push_bit_iff Cons.IH d m)
  qed
qed simp

lemma from_le_bytes_to_le_bytes:
  "LENGTH('a) = 8 * n \<Longrightarrow> from_le_bytes (to_le_bytes n x) = (x :: 'a::len word)"
proof (rule bit_word_eqI)
  fix m
  assume n: "LENGTH('a) = 8 * n" and m: "m < LENGTH('a)"
  then have "m div 8 < n" by auto
  moreover have "8 * (m div 8) + m mod 8 = m" by simp
  ultimately show "bit (from_le_bytes (to_le_bytes n x) :: 'a word) m = bit x m"
    using m by (auto simp: bit_from_le_bytes to_le_bytes_def bit_simps)
qed

lemma to_le_bytes_from_le_bytes:
  assumes "LENGTH('a) = 8 * n" and "length bs = n"
  shows "to_le_bytes n (from_le_bytes bs :: 'a::len word) = bs"
proof (rule nth_equalityI)
  fix i
  assume "i < length (to_le_bytes n (from_le_bytes bs :: 'a word))"
  then have i: "i < n" by simp
  show "to_le_bytes n (from_le_bytes bs :: 'a word) ! i = bs ! i"
  proof (rule bit_word_eqI)
    fix m
    assume "m < LENGTH(8)"
    then have "m < 8" by simp
    then have "(8 * i + m) div 8 = i" "(8 * i + m) mod 8 = m" "8 * i + m < 8 * n"
      using i by auto
    with \<open>m < 8\<close> show "bit (to_le_bytes n (from_le_bytes bs :: 'a word) ! i) m = bit (bs ! i) m"
      using i assms
      by (simp add: to_le_bytes_def bit_simps bit_from_le_bytes)
  qed
qed (simp add: assms)

section \<open>UTF-8 validation\<close>

text \<open>
  \<open>str::from_utf8\<close> accepts exactly the well-formed byte sequences of the Unicode standard:
  no overlong forms, no surrogates, nothing above U+10FFFF.
\<close>

definition utf8_cont :: "u8 \<Rightarrow> bool" where
  "utf8_cont b \<longleftrightarrow> 0x80 \<le> b \<and> b \<le> 0xBF"

fun utf8_valid :: "u8 list \<Rightarrow> bool" where
  "utf8_valid [] = True"
| "utf8_valid (a # bs) =
    (if a < 0x80 then utf8_valid bs
     else case bs of
       [] \<Rightarrow> False
     | b # cs \<Rightarrow>
         (if 0xC2 \<le> a \<and> a \<le> 0xDF then utf8_cont b \<and> utf8_valid cs
          else case cs of
            [] \<Rightarrow> False
          | c # ds \<Rightarrow>
              (if 0xE0 \<le> a \<and> a \<le> 0xEF then
                 utf8_cont b \<and> utf8_cont c \<and> (a = 0xE0 \<longrightarrow> 0xA0 \<le> b) \<and> (a = 0xED \<longrightarrow> b \<le> 0x9F)
                 \<and> utf8_valid ds
               else case ds of
                 [] \<Rightarrow> False
               | d # es \<Rightarrow>
                   0xF0 \<le> a \<and> a \<le> 0xF4 \<and> utf8_cont b \<and> utf8_cont c \<and> utf8_cont d
                   \<and> (a = 0xF0 \<longrightarrow> 0x90 \<le> b) \<and> (a = 0xF4 \<longrightarrow> b \<le> 0x8F)
                   \<and> utf8_valid es)))"

lemma utf8_valid_ascii: "\<forall>b \<in> set bs. b < 0x80 \<Longrightarrow> utf8_valid bs"
  by (induction bs) auto

end
