(* ===== verification/Bytecode_Module.thy ===== *)
theory Bytecode_Module
  imports Isa Byte_Conv
begin

text \<open>
  The data of \<^verbatim>\<open>crates/bamts-bytecode/src/lib.rs\<close>: constants with their canonical forms,
  exception handlers, functions, modules and verification certificates, and the canonical encoder
  \<open>Module::encode\<close> with the functions it calls.
\<close>

section \<open>Structural limits\<close>

definition MAGIC :: "u8 list" where
  "MAGIC = [66, 77, 84, 66, 67, 0, 0, 1]"

definition FORMAT_VERSION :: u8 where
  "FORMAT_VERSION = 5"

definition MAX_REGISTERS :: u32 where "MAX_REGISTERS = 65536"
definition MAX_INSTRUCTIONS :: u32 where "MAX_INSTRUCTIONS = 1048576"
definition MAX_HANDLERS :: u32 where "MAX_HANDLERS = 65536"
definition MAX_CONSTANTS :: u32 where "MAX_CONSTANTS = 1048576"
definition MAX_FUNCTIONS :: u32 where "MAX_FUNCTIONS = 1048576"
definition MAX_BIGINT_BYTES :: u32 where "MAX_BIGINT_BYTES = 1048576"
definition MAX_VERIFIER_FACTS_WORDS :: nat where "MAX_VERIFIER_FACTS_WORDS = 8388608"

section \<open>Number bits\<close>

definition CANONICAL_NAN_BITS :: u64 where "CANONICAL_NAN_BITS = 0x7ff8000000000000"
definition EXPONENT_MASK :: u64 where "EXPONENT_MASK = 0x7ff0000000000000"
definition FRACTION_MASK :: u64 where "FRACTION_MASK = 0x000fffffffffffff"

type_synonym NumberBits = u64

definition is_nan :: "u64 \<Rightarrow> bool" where
  "is_nan bits \<longleftrightarrow> bits AND EXPONENT_MASK = EXPONENT_MASK \<and> bits AND FRACTION_MASK \<noteq> 0"

definition number_from_bits :: "u64 \<Rightarrow> NumberBits" where
  "number_from_bits bits = (if is_nan bits then CANONICAL_NAN_BITS else bits)"

definition number_from_wire :: "u64 \<Rightarrow> NumberBits option" where
  "number_from_wire bits = (if is_nan bits \<and> bits \<noteq> CANONICAL_NAN_BITS then None else Some bits)"

section \<open>BigInt literals\<close>

text \<open>Text is a list of UTF-8 bytes; \<open>b'-'\<close> is 45, the ASCII digits are 48 to 57.\<close>

definition is_ascii_digit :: "u8 \<Rightarrow> bool" where
  "is_ascii_digit b \<longleftrightarrow> 48 \<le> b \<and> b \<le> 57"

definition is_canonical_bigint :: "u8 list \<Rightarrow> bool" where
  "is_canonical_bigint bytes =
     (if bytes = [] then False
      else let negative = (hd bytes = 45);
               digits = (if negative then tl bytes else bytes)
      in if digits = [] \<or> \<not> list_all is_ascii_digit digits then False
         else if length digits > 1 \<and> hd digits = 48 then False
         else \<not> (negative \<and> digits = [48]))"

definition BigIntLiteral_new :: "u8 list \<Rightarrow> u8 list option" where
  "BigIntLiteral_new text = (if is_canonical_bigint text then Some text else None)"

section \<open>Constants, functions, modules\<close>

text \<open>An ECMAScript string is its sequence of UTF-16 code units.\<close>

type_synonym EcmaString = "u16 list"

datatype Constant =
    Number NumberBits
  | Int32 u32
  | StringConst EcmaString
  | Boolean bool
  | Null
  | Undefined
  | BigInt "u8 list"

definition is_string_constant :: "Constant \<Rightarrow> bool" where
  "is_string_constant c \<longleftrightarrow> (case c of StringConst _ \<Rightarrow> True | _ \<Rightarrow> False)"

record ExceptionHandler =
  eh_start :: Pc
  eh_end :: Pc
  eh_handler :: Pc
  eh_catch_register :: Register

record FunctionFlags =
  is_async :: bool
  is_generator :: bool
  is_constructable :: bool

definition flags_to_bits :: "FunctionFlags \<Rightarrow> u8" where
  "flags_to_bits f =
     (let bits = 0;
          bits = (if is_async f then bits OR 1 else bits);
          bits = (if is_generator f then bits OR 2 else bits)
      in (if is_constructable f then bits OR 4 else bits))"

definition flags_from_bits :: "u8 \<Rightarrow> FunctionFlags option" where
  "flags_from_bits bits =
     (if bits AND NOT 7 \<noteq> 0 then None
      else Some \<lparr>is_async = (bits AND 1 \<noteq> 0), is_generator = (bits AND 2 \<noteq> 0),
                 is_constructable = (bits AND 4 \<noteq> 0)\<rparr>)"

record Function =
  fn_name :: "ConstantId option"
  fn_capture_count :: u32
  fn_parameter_count :: u32
  fn_register_count :: u32
  fn_flags :: FunctionFlags
  fn_code :: "Instruction list"
  fn_handlers :: "ExceptionHandler list"

text \<open>Registers initialised on entry: captures, then parameters, with a saturating sum.\<close>

definition entry_initialized :: "Function \<Rightarrow> u32" where
  "entry_initialized f =
     word_of_nat (min (unat (fn_capture_count f) + unat (fn_parameter_count f)) (2 ^ 32 - 1))"

text \<open>
  A register bitset is its list of 64-bit words. A certificate holds one bitset per instruction.
  Decoded modules carry no certificates; the verifier attaches them, which is the typestate change
  from \<open>Module<Unverified>\<close> to \<open>Module<Verified>\<close>.
\<close>

type_synonym RegisterSet = "u64 list"

record Certificate =
  cert_register_count :: u32
  cert_facts :: "RegisterSet list"

record Module =
  m_constants :: "Constant list"
  m_functions :: "Function list"
  m_entry :: FunctionId
  m_certificates :: "Certificate list"

definition Module_new :: "Constant list \<Rightarrow> Function list \<Rightarrow> FunctionId \<Rightarrow> Module" where
  "Module_new constants functions entry =
     \<lparr>m_constants = constants, m_functions = functions, m_entry = entry, m_certificates = []\<rparr>"

section \<open>Encoding\<close>

definition write_string :: "EcmaString \<Rightarrow> u8 list" where
  "write_string value =
     write_u32 (as_u32 (length value)) @ concat (map (to_le_bytes 2) value)"

definition write_text :: "u8 list \<Rightarrow> u8 list" where
  "write_text value = write_u32 (as_u32 (length value)) @ value"

primrec encode_constant :: "Constant \<Rightarrow> u8 list" where
  "encode_constant (Number bits) = 0 # to_le_bytes 8 bits"
| "encode_constant (Int32 value) = 1 # to_le_bytes 4 value"
| "encode_constant (StringConst value) = 2 # write_string value"
| "encode_constant (Boolean b) = (if b then [4] else [3])"
| "encode_constant Null = [5]"
| "encode_constant Undefined = [6]"
| "encode_constant (BigInt value) = 7 # write_text value"

text \<open>The extension opcodes encode themselves: tag byte, then the operands in field order.\<close>

definition encode_extension :: "ExtInstruction \<Rightarrow> u8 list" where
  "encode_extension e = wire_tag_of e # (case e of
      ExtGetSuper dst home receiver key \<Rightarrow> write_u32 dst @ write_u32 home @ write_u32 receiver @ write_u32 key
    | ExtSetSuper home receiver key value \<Rightarrow> write_u32 home @ write_u32 receiver @ write_u32 key @ write_u32 value
    | ExtImportAttributes dst specifier attributes \<Rightarrow> write_u32 dst @ write_u32 specifier @ write_u32 attributes
    | ExtImportDynamicAttributes dst specifier attributes \<Rightarrow> write_u32 dst @ write_u32 specifier @ write_u32 attributes
    | ExtCopyDataProperties target source excluded \<Rightarrow> write_u32 target @ write_u32 source @ write_u32 excluded
    | ExtGetTemplateObject dst cooked raw \<Rightarrow> write_u32 dst @ write_u32 cooked @ write_u32 raw)"

text \<open>
  The opcodes of the root algebra; the extension opcodes are handled first in the source
  (\<open>instruction.extension()\<close>), and here in their own equations.
\<close>

primrec encode_instruction :: "Instruction \<Rightarrow> u8 list" where
  "encode_instruction (LoadConst dst constant) =
     0 # write_u32 dst @ write_u32 constant"
| "encode_instruction (Move dst src) =
     1 # write_u32 dst @ write_u32 src"
| "encode_instruction (Unary dst op operand) =
     2 # write_u32 dst @ [unary_op_to_u8 op] @ write_u32 operand"
| "encode_instruction (Binary dst op left right) =
     3 # write_u32 dst @ [binary_op_to_u8 op] @ write_u32 left @ write_u32 right"
| "encode_instruction (CreateObject dst) =
     4 # write_u32 dst"
| "encode_instruction (ToObject dst src) =
     42 # write_u32 dst @ write_u32 src"
| "encode_instruction (LoadImportMeta dst) =
     44 # write_u32 dst"
| "encode_instruction (CreateArray dst) =
     5 # write_u32 dst"
| "encode_instruction (CreateCell dst) =
     36 # write_u32 dst"
| "encode_instruction (CreateClosure dst function captures) =
     6 # write_u32 dst @ write_u32 function @ write_u32 captures"
| "encode_instruction (GetProperty dst object key) =
     7 # write_u32 dst @ write_u32 object @ write_u32 key"
| "encode_instruction (SetProperty object key value) =
     8 # write_u32 object @ write_u32 key @ write_u32 value"
| "encode_instruction (DeleteProperty dst object key) =
     9 # write_u32 dst @ write_u32 object @ write_u32 key"
| "encode_instruction (DefineAccessor object key accessor kind) =
     10 # write_u32 object @ write_u32 key @ write_u32 accessor @ [accessor_kind_to_u8 kind]"
| "encode_instruction (DefineDataProperty object key value) =
     48 # write_u32 object @ write_u32 key @ write_u32 value"
| "encode_instruction (LoadOwnDescriptorSlot dst object key slot) =
     49 # write_u32 dst @ write_u32 object @ write_u32 key @ [descriptor_slot_to_u8 slot]"
| "encode_instruction (DefineOwnDescriptorSlot object key src slot) =
     50 # write_u32 object @ write_u32 key @ write_u32 src @ [descriptor_slot_to_u8 slot]"
| "encode_instruction (WithHasBinding dst object key) =
     51 # write_u32 dst @ write_u32 object @ write_u32 key"
| "encode_instruction (Call dst callee this_value arguments) =
     11 # write_u32 dst @ write_u32 callee @ write_u32 this_value @ write_u32 arguments"
| "encode_instruction (Construct dst callee arguments) =
     12 # write_u32 dst @ write_u32 callee @ write_u32 arguments"
| "encode_instruction (ConstructWithNewTarget dst callee new_target arguments) =
     47 # write_u32 dst @ write_u32 callee @ write_u32 new_target @ write_u32 arguments"
| "encode_instruction (LoadGlobal dst name) =
     13 # write_u32 dst @ write_u32 name"
| "encode_instruction (StoreGlobal name value) =
     14 # write_u32 name @ write_u32 value"
| "encode_instruction (TypeOfGlobal dst name) =
     15 # write_u32 dst @ write_u32 name"
| "encode_instruction (LoadThis dst) =
     16 # write_u32 dst"
| "encode_instruction (LoadArguments dst) =
     17 # write_u32 dst"
| "encode_instruction (LoadNewTarget dst) =
     18 # write_u32 dst"
| "encode_instruction (ArrayPush array value) =
     19 # write_u32 array @ write_u32 value"
| "encode_instruction (ArrayExtend array iterable) =
     20 # write_u32 array @ write_u32 iterable"
| "encode_instruction (ObjectSpread target source) =
     21 # write_u32 target @ write_u32 source"
| "encode_instruction (SetPrototype object prototype) =
     22 # write_u32 object @ write_u32 prototype"
| "encode_instruction (CreatePrivateName dst description) =
     23 # write_u32 dst @ write_u32 description"
| "encode_instruction (CreateRegExp dst pattern flags) =
     24 # write_u32 dst @ write_u32 pattern @ write_u32 flags"
| "encode_instruction (GetIterator dst src kind) =
     25 # write_u32 dst @ write_u32 src @ [iterator_kind_to_u8 kind]"
| "encode_instruction (IteratorNext done value iterator) =
     26 # write_u32 done @ write_u32 value @ write_u32 iterator"
| "encode_instruction (IteratorStep dst iterator) =
     38 # write_u32 dst @ write_u32 iterator"
| "encode_instruction (IteratorResult done value result) =
     39 # write_u32 done @ write_u32 value @ write_u32 result"
| "encode_instruction (IteratorClose result called iterator mode) =
     40 # write_u32 result @ write_u32 called @ write_u32 iterator @ [iterator_close_mode_to_u8 mode]"
| "encode_instruction (RequireCloseResult result called) =
     41 # write_u32 result @ write_u32 called"
| "encode_instruction (DisposeCapture method kind src hint) =
     45 # write_u32 method @ write_u32 kind @ write_u32 src @ [dispose_hint_to_u8 hint]"
| "encode_instruction (SuppressError dst error suppressed) =
     46 # write_u32 dst @ write_u32 error @ write_u32 suppressed"
| "encode_instruction (Jump target) =
     27 # write_u32 target"
| "encode_instruction (JumpIfTrue condition target) =
     28 # write_u32 condition @ write_u32 target"
| "encode_instruction (JumpIfFalse condition target) =
     29 # write_u32 condition @ write_u32 target"
| "encode_instruction (Return value) =
     30 # write_u32 value"
| "encode_instruction (Throw value) =
     31 # write_u32 value"
| "encode_instruction (Suspend dst src resume mode) =
     32 # write_u32 dst @ write_u32 src @ write_u32 resume @ write_u32 mode"
| "encode_instruction (Await dst src resume) =
     37 # write_u32 dst @ write_u32 src @ write_u32 resume"
| "encode_instruction (Import dst specifier) =
     33 # write_u32 dst @ write_u32 specifier"
| "encode_instruction (ImportDynamic dst specifier) =
     43 # write_u32 dst @ write_u32 specifier"
| "encode_instruction (Export name src) =
     34 # write_u32 name @ write_u32 src"
| "encode_instruction (GetSuper dst home receiver key) =
     encode_extension (ExtGetSuper dst home receiver key)"
| "encode_instruction (SetSuper home receiver key value) =
     encode_extension (ExtSetSuper home receiver key value)"
| "encode_instruction (ImportAttributes dst specifier attributes) =
     encode_extension (ExtImportAttributes dst specifier attributes)"
| "encode_instruction (ImportDynamicAttributes dst specifier attributes) =
     encode_extension (ExtImportDynamicAttributes dst specifier attributes)"
| "encode_instruction (CopyDataProperties target source excluded) =
     encode_extension (ExtCopyDataProperties target source excluded)"
| "encode_instruction (GetTemplateObject dst cooked raw) =
     encode_extension (ExtGetTemplateObject dst cooked raw)"
| "encode_instruction Halt =
     [35]"

definition encode_handler :: "ExceptionHandler \<Rightarrow> u8 list" where
  "encode_handler h =
     write_u32 (eh_start h) @ write_u32 (eh_end h) @ write_u32 (eh_handler h) @
     write_u32 (eh_catch_register h)"

text \<open>The name is stored as its index plus one, zero for an anonymous function.\<close>

definition encode_name :: "ConstantId option \<Rightarrow> u32" where
  "encode_name name = (case name of None \<Rightarrow> 0 | Some c \<Rightarrow> c + 1)"

definition encode_function :: "Function \<Rightarrow> u8 list" where
  "encode_function f =
     write_u32 (encode_name (fn_name f)) @
     write_u32 (fn_capture_count f) @
     write_u32 (fn_parameter_count f) @
     write_u32 (fn_register_count f) @
     [flags_to_bits (fn_flags f)] @
     write_u32 (as_u32 (length (fn_code f))) @
     concat (map encode_instruction (fn_code f)) @
     write_u32 (as_u32 (length (fn_handlers f))) @
     concat (map encode_handler (fn_handlers f))"

definition encode_module :: "Module \<Rightarrow> u8 list" where
  "encode_module m =
     MAGIC @ [FORMAT_VERSION] @
     write_u32 (as_u32 (length (m_constants m))) @
     concat (map encode_constant (m_constants m)) @
     write_u32 (as_u32 (length (m_functions m))) @
     write_u32 (m_entry m) @
     concat (map encode_function (m_functions m))"

section \<open>Canonical forms\<close>

text \<open>
  \<open>NumberBits\<close> and \<open>BigIntLiteral\<close> have private fields, so only canonical values of them exist;
  this predicate is that type invariant.
\<close>

primrec wf_constant :: "Constant \<Rightarrow> bool" where
  "wf_constant (Number bits) = (is_nan bits \<longrightarrow> bits = CANONICAL_NAN_BITS)"
| "wf_constant (Int32 value) = True"
| "wf_constant (StringConst value) = True"
| "wf_constant (Boolean b) = True"
| "wf_constant Null = True"
| "wf_constant Undefined = True"
| "wf_constant (BigInt value) = is_canonical_bigint value"

lemma number_from_wire_Some_iff:
  "number_from_wire bits = Some n \<longleftrightarrow> n = bits \<and> (is_nan bits \<longrightarrow> bits = CANONICAL_NAN_BITS)"
  by (auto simp: number_from_wire_def)

lemma is_nan_canonical: "is_nan CANONICAL_NAN_BITS"
  by (simp add: is_nan_def CANONICAL_NAN_BITS_def EXPONENT_MASK_def FRACTION_MASK_def)

lemma number_from_bits_wf: "wf_constant (Number (number_from_bits bits))"
  by (simp add: number_from_bits_def)

lemma is_canonical_bigint_ascii: "is_canonical_bigint bytes \<Longrightarrow> \<forall>b \<in> set bytes. b < 0x80"
proof
  fix b assume c: "is_canonical_bigint bytes" and b: "b \<in> set bytes"
  then have "b = 45 \<or> is_ascii_digit b"
    by (cases bytes) (auto simp: is_canonical_bigint_def Let_def list_all_iff split: if_splits)
  then show "b < 0x80" by (auto simp: is_ascii_digit_def intro: le_less_trans)
qed

lemma low_three_bits:
  assumes "(t :: u8) AND NOT 7 = 0"
  shows "t = 0 \<or> t = 1 \<or> t = 2 \<or> t = 3 \<or> t = 4 \<or> t = 5 \<or> t = 6 \<or> t = 7"
proof -
  have "t = t AND 7" using assms
    by (metis bit.conj_disj_distrib bit.conj_one_right bit.disj_cancel_right or.right_neutral)
  also have "\<dots> = take_bit 3 t" by (simp add: take_bit_eq_mask mask_eq_exp_minus_1)
  finally have "unat t = take_bit 3 (unat t)" by (metis unsigned_take_bit_eq)
  then have "unat t < 8" by (simp add: take_bit_eq_mod)
  then have "unat t = 0 \<or> unat t = 1 \<or> unat t = 2 \<or> unat t = 3 \<or> unat t = 4 \<or> unat t = 5 \<or>
      unat t = 6 \<or> unat t = 7" by auto
  then show ?thesis by (simp add: word_unat_eq_iff)
qed

interpretation flags_tag: wire_tag flags_to_bits flags_from_bits
proof
  show "flags_from_bits (flags_to_bits x) = Some x" for x
    by (cases x) (simp add: flags_from_bits_def flags_to_bits_def)
  show "flags_to_bits x = t" if "flags_from_bits t = Some x" for t x
  proof -
    from that have t: "t AND NOT 7 = 0"
      and x: "x = \<lparr>is_async = (t AND 1 \<noteq> 0), is_generator = (t AND 2 \<noteq> 0),
                 is_constructable = (t AND 4 \<noteq> 0)\<rparr>"
      by (auto simp: flags_from_bits_def split: if_splits)
    from low_three_bits [OF t] x show ?thesis
      by (auto simp: flags_to_bits_def)
  qed
qed

end
