(* ===== verification/Register_Sets.thy ===== *)
theory Register_Sets
  imports Bytecode_Module
begin

text \<open>
  The register bitsets of the verifier (\<open>RegisterSet\<close> in \<^verbatim>\<open>crates/bamts-bytecode/src/lib.rs\<close>):
  a boxed slice of 64-bit words. The theory states the set interface the dataflow analysis relies
  on as a locale, proves there what the analysis needs of sequences of operations, and interprets
  it on the word-list implementation.
\<close>

section \<open>The interface\<close>

text \<open>
  \<open>elems\<close> is the abstraction to a set of register indices; \<open>wf n s\<close> says that \<open>s\<close> is a bitset for
  a register file of \<open>n\<close> registers. \<open>intersect\<close> returns the updated set and whether it changed.
\<close>

locale register_set =
  fixes elems :: "'s \<Rightarrow> nat set"
    and wf :: "u32 \<Rightarrow> 's \<Rightarrow> bool"
    and empty :: "u32 \<Rightarrow> 's"
    and full :: "u32 \<Rightarrow> 's"
    and contains :: "'s \<Rightarrow> Register \<Rightarrow> bool"
    and insert_reg :: "'s \<Rightarrow> Register \<Rightarrow> 's"
    and intersect :: "'s \<Rightarrow> 's \<Rightarrow> 's \<times> bool"
  assumes wf_elems: "wf n s \<Longrightarrow> elems s \<subseteq> {..<unat n}"
    and extensional: "wf n s \<Longrightarrow> wf n t \<Longrightarrow> elems s = elems t \<Longrightarrow> s = t"
    and wf_empty: "wf n (empty n)" and elems_empty: "elems (empty n) = {}"
    and wf_full: "wf n (full n)" and elems_full: "elems (full n) = {..<unat n}"
    and contains_iff: "wf n s \<Longrightarrow> contains s r \<longleftrightarrow> unat r \<in> elems s"
    and wf_insert: "wf n s \<Longrightarrow> r < n \<Longrightarrow> wf n (insert_reg s r)"
    and elems_insert: "wf n s \<Longrightarrow> r < n \<Longrightarrow> elems (insert_reg s r) = insert (unat r) (elems s)"
    and wf_intersect: "wf n s \<Longrightarrow> wf n t \<Longrightarrow> wf n (fst (intersect s t))"
    and elems_intersect: "wf n s \<Longrightarrow> wf n t \<Longrightarrow> elems (fst (intersect s t)) = elems s \<inter> elems t"
    and intersect_changed: "snd (intersect s t) \<longleftrightarrow> fst (intersect s t) \<noteq> s"
begin

lemma finite_elems: "wf n s \<Longrightarrow> finite (elems s)"
  using wf_elems finite_subset by blast

text \<open>The change flag is off exactly when the other set already contains this one.\<close>

lemma unchanged_iff: "wf n s \<Longrightarrow> wf n t \<Longrightarrow> \<not> snd (intersect s t) \<longleftrightarrow> elems s \<subseteq> elems t"
  by (metis elems_intersect extensional inf.absorb_iff1 inf.cobounded2 intersect_changed wf_intersect)

text \<open>A run of insertions.\<close>

lemma inserts:
  assumes "wf n s" and "\<forall>r \<in> set rs. r < n"
  shows "wf n (foldl insert_reg s rs) \<and> elems (foldl insert_reg s rs) = elems s \<union> unat ` set rs"
  using assms by (induction rs arbitrary: s) (auto simp: wf_insert elems_insert)

lemmas wf_inserts = inserts [THEN conjunct1]
  and elems_inserts = inserts [THEN conjunct2]

text \<open>A run of intersections.\<close>

lemma intersects:
  assumes "wf n s" and "\<forall>t \<in> set ts. wf n t"
  shows "wf n (foldl (\<lambda>c t. fst (intersect c t)) s ts) \<and>
    elems (foldl (\<lambda>c t. fst (intersect c t)) s ts) = elems s \<inter> \<Inter> (elems ` set ts)"
  using assms by (induction ts arbitrary: s) (auto simp: wf_intersect elems_intersect)

lemmas wf_intersects = intersects [THEN conjunct1]
  and elems_intersects = intersects [THEN conjunct2]

text \<open>The first \<open>k\<close> registers.\<close>

lemma prefix_set:
  assumes "k \<le> n"
  shows "unat ` set (map word_of_nat [0..<unat k] :: Register list) = {..<unat k}"
    and "\<forall>r \<in> set (map word_of_nat [0..<unat k] :: Register list). r < n"
proof -
  have small: "unat (word_of_nat i :: Register) = i" if "i < unat k" for i
    using less_trans [OF that unsigned_less [of k]] by (intro unat_as_u32) simp
  then show "unat ` set (map word_of_nat [0..<unat k] :: Register list) = {..<unat k}"
    by (auto simp: image_image)
  show "\<forall>r \<in> set (map word_of_nat [0..<unat k] :: Register list). r < n"
    using assms small by (auto simp: word_less_nat_alt word_le_nat_alt)
qed

lemma inserts_prefix:
  assumes "k \<le> n"
  shows "wf n (foldl insert_reg (empty n) (map word_of_nat [0..<unat k]))"
    and "elems (foldl insert_reg (empty n) (map word_of_nat [0..<unat k])) = {..<unat k}"
  using wf_inserts [OF wf_empty prefix_set(2) [OF assms]]
    elems_inserts [OF wf_empty prefix_set(2) [OF assms]] prefix_set(1) [OF assms]
  by (auto simp: elems_empty)

end

section \<open>The implementation\<close>

definition words_for :: "u32 \<Rightarrow> usize" where
  "words_for register_count = (unat register_count + 63) div 64"

definition rs_empty :: "u32 \<Rightarrow> RegisterSet" where
  "rs_empty register_count = replicate (words_for register_count) 0"

definition rs_full :: "u32 \<Rightarrow> RegisterSet" where
  "rs_full register_count =
     (let words_len = words_for register_count;
          words = replicate words_len (- 1);
          remainder = unat register_count mod 64
      in if remainder \<noteq> 0 \<and> words_len \<noteq> 0
         then words[words_len - 1 := push_bit remainder 1 - 1] else words)"

definition rs_contains :: "RegisterSet \<Rightarrow> Register \<Rightarrow> bool" where
  "rs_contains words register =
     (let index = unat register
      in index div 64 < length words \<and> words ! (index div 64) AND push_bit (index mod 64) 1 \<noteq> 0)"

definition rs_insert :: "RegisterSet \<Rightarrow> Register \<Rightarrow> RegisterSet" where
  "rs_insert words register =
     (let index = unat register
      in if index div 64 < length words
         then words[index div 64 := words ! (index div 64) OR push_bit (index mod 64) 1] else words)"

definition rs_insert_prefix :: "RegisterSet \<Rightarrow> u32 \<Rightarrow> RegisterSet" where
  "rs_insert_prefix words count = foldl rs_insert words (map word_of_nat [0..<unat count])"

fun rs_intersect :: "RegisterSet \<Rightarrow> RegisterSet \<Rightarrow> RegisterSet \<times> bool" where
  "rs_intersect (slot # slots) (other # others) =
     (let next = slot AND other;
          rest = rs_intersect slots others
      in if next \<noteq> slot then (next # fst rest, True) else (slot # fst rest, snd rest))"
| "rs_intersect slots others = (slots, False)"

section \<open>Interpretation\<close>

definition rs_set :: "RegisterSet \<Rightarrow> nat set" where
  "rs_set words = {i. i div 64 < length words \<and> bit (words ! (i div 64)) (i mod 64)}"

definition rs_wf :: "u32 \<Rightarrow> RegisterSet \<Rightarrow> bool" where
  "rs_wf n words \<longleftrightarrow> length words = words_for n \<and> rs_set words \<subseteq> {..<unat n}"

lemma bit_u64_bound: "bit (w :: u64) n \<Longrightarrow> n < 64"
  using bit_imp_le_length [of w n] by simp

lemma and_single_bit: "(w :: u64) AND 2 ^ k \<noteq> 0 \<longleftrightarrow> bit w k"
proof
  assume "bit w k"
  then have "bit (w AND 2 ^ k) k" by (simp add: bit_simps bit_u64_bound)
  then show "w AND 2 ^ k \<noteq> 0" by force
next
  assume "w AND 2 ^ k \<noteq> 0"
  then obtain n where "bit (w AND 2 ^ k) n" by (auto simp: bit_eq_iff)
  then show "bit w k" by (auto simp: bit_simps)
qed

lemma div_mod_64: "i div 64 = j div 64 \<Longrightarrow> i mod 64 = j mod 64 \<Longrightarrow> i = (j :: nat)"
  by (metis div_mult_mod_eq)

lemma words_for_bound: "i < unat n \<Longrightarrow> i div 64 < words_for n"
  by (simp add: words_for_def)

lemma rs_contains_iff: "rs_contains words r \<longleftrightarrow> unat r \<in> rs_set words"
  by (simp add: rs_contains_def rs_set_def and_single_bit Let_def)

lemma rs_set_ext:
  assumes "length s = length t" and "rs_set s = rs_set t"
  shows "s = t"
proof (rule nth_equalityI)
  fix k assume k: "k < length s"
  show "s ! k = t ! k"
  proof (rule bit_word_eqI)
    fix b assume b: "b < LENGTH(64)"
    have "64 * k + b \<in> rs_set s \<longleftrightarrow> 64 * k + b \<in> rs_set t" using assms(2) by simp
    with k b assms(1) show "bit (s ! k) b = bit (t ! k) b" by (simp add: rs_set_def)
  qed
qed (use assms in simp)

lemma length_rs_insert [simp]: "length (rs_insert words r) = length words"
  by (simp add: rs_insert_def Let_def)

lemma rs_set_insert:
  assumes "unat r div 64 < length words"
  shows "rs_set (rs_insert words r) = insert (unat r) (rs_set words)"
proof (rule set_eqI)
  fix i
  show "i \<in> rs_set (rs_insert words r) \<longleftrightarrow> i \<in> insert (unat r) (rs_set words)"
  proof (cases "i div 64 = unat r div 64")
    case True
    with assms show ?thesis
      by (auto simp: rs_set_def rs_insert_def Let_def bit_simps dest: div_mod_64)
  next
    case False
    then show ?thesis by (auto simp: rs_set_def rs_insert_def Let_def)
  qed
qed

lemma rs_set_empty: "rs_set (rs_empty n) = {}"
  by (auto simp: rs_set_def rs_empty_def)

lemma length_rs_full [simp]: "length (rs_full n) = words_for n"
  by (simp add: rs_full_def Let_def)

lemma bit_ones: "bit (- 1 :: u64) k \<longleftrightarrow> k < 64"
  by (simp add: bit_simps)

lemma bit_low_mask: "k < 64 \<Longrightarrow> bit (2 ^ k - 1 :: u64) j \<longleftrightarrow> j < k"
  using bit_mask_iff [of k j, where ?'a = u64] by (auto simp: mask_eq_exp_minus_1)

lemma below_iff_words:
  "i < unat n \<longleftrightarrow> i div 64 < words_for n \<and>
     (i div 64 = words_for n - 1 \<and> unat n mod 64 \<noteq> 0 \<longrightarrow> i mod 64 < unat n mod 64)"
proof -
  define a b c d where "a = unat n div 64" "b = unat n mod 64" "c = i div 64" "d = i mod 64"
  then have eqs: "unat n = 64 * a + b" "i = 64 * c + d" "b < 64" "d < 64" by simp_all
  have "words_for n = (if b = 0 then a else a + 1)"
    using eqs(1,3) by (auto simp: words_for_def div_nat_eqI)
  moreover have "64 * c + d < 64 * a + b \<longleftrightarrow> c < a \<or> c = a \<and> d < b"
    using eqs(3,4) by (cases c a rule: linorder_cases) auto
  ultimately show ?thesis
    unfolding a_b_c_d_def [symmetric] eqs(1,2) using eqs(3,4) by (auto simp: less_Suc_eq)
qed

lemma rs_set_full: "rs_set (rs_full n) = {..<unat n}"
proof (rule set_eqI)
  fix i
  show "i \<in> rs_set (rs_full n) \<longleftrightarrow> i \<in> {..<unat n}"
    unfolding rs_set_def lessThan_iff mem_Collect_eq length_rs_full below_iff_words [of i]
    by (auto simp: rs_full_def Let_def nth_list_update bit_ones bit_low_mask split: if_splits)
qed

lemma length_rs_intersect [simp]: "length (fst (rs_intersect s t)) = length s"
  by (induction s t rule: rs_intersect.induct) (auto simp: Let_def)

lemma rs_intersect_fst: "length s = length t \<Longrightarrow> fst (rs_intersect s t) = map2 (AND) s t"
  by (induction s t rule: rs_intersect.induct) (auto simp: Let_def)

lemma rs_intersect_changed: "snd (rs_intersect s t) \<longleftrightarrow> fst (rs_intersect s t) \<noteq> s"
  by (induction s t rule: rs_intersect.induct) (auto simp: Let_def)

lemma rs_set_intersect:
  "length s = length t \<Longrightarrow> rs_set (fst (rs_intersect s t)) = rs_set s \<inter> rs_set t"
  by (auto simp: rs_set_def rs_intersect_fst bit_simps)

interpretation rs: register_set rs_set rs_wf rs_empty rs_full rs_contains rs_insert rs_intersect
proof
  show "rs_wf n s \<Longrightarrow> rs_set s \<subseteq> {..<unat n}" for n s by (simp add: rs_wf_def)
  show "rs_wf n s \<Longrightarrow> rs_wf n t \<Longrightarrow> rs_set s = rs_set t \<Longrightarrow> s = t" for n s t
    by (rule rs_set_ext) (simp_all add: rs_wf_def)
  show "rs_wf n (rs_empty n)" for n by (simp add: rs_wf_def rs_set_empty) (simp add: rs_empty_def)
  show "rs_wf n (rs_full n)" for n by (simp add: rs_wf_def rs_set_full)
  show elems: "rs_set (rs_insert s r) = insert (unat r) (rs_set s)" if "rs_wf n s" "r < n" for n s r
    using that by (intro rs_set_insert) (simp add: rs_wf_def words_for_bound word_less_nat_alt)
  show "rs_wf n (rs_insert s r)" if "rs_wf n s" "r < n" for n s r
    using that elems [OF that] by (auto simp: rs_wf_def word_less_nat_alt)
  show "rs_wf n (fst (rs_intersect s t))" if "rs_wf n s" "rs_wf n t" for n s t
    using that by (auto simp: rs_wf_def rs_set_intersect)
  show "rs_set (fst (rs_intersect s t)) = rs_set s \<inter> rs_set t" if "rs_wf n s" "rs_wf n t" for n s t
    using that by (auto simp: rs_wf_def rs_set_intersect)
qed (auto simp: rs_set_empty rs_set_full rs_contains_iff rs_intersect_changed)

lemma rs_insert_prefix_empty:
  assumes "k \<le> n"
  shows "rs_wf n (rs_insert_prefix (rs_empty n) k)" "rs_set (rs_insert_prefix (rs_empty n) k) = {..<unat k}"
  using rs.inserts_prefix [OF assms] by (simp_all add: rs_insert_prefix_def)

section \<open>Progress of the intersection\<close>

text \<open>
  Whatever the two operands are, an intersection never sets a bit, and one that reports a change
  makes the words strictly smaller as numbers: the measure of the dataflow loop.
\<close>

definition rs_weight :: "RegisterSet \<Rightarrow> nat" where
  "rs_weight words = sum_list (map unat words)"

lemma unat_and_le: "unat (a AND b) \<le> unat (a :: u64)"
  by (simp add: unsigned_and_eq and_nat_def nat_le_iff AND_upper1)

lemma rs_intersect_weight:
  "rs_weight (fst (rs_intersect s t)) \<le> rs_weight s \<and>
   (snd (rs_intersect s t) \<longrightarrow> rs_weight (fst (rs_intersect s t)) < rs_weight s)"
proof (induction s t rule: rs_intersect.induct)
  case (1 slot slots other others)
  have "slot AND other \<noteq> slot \<Longrightarrow> unat (slot AND other) < unat slot"
    using unat_and_le [of slot other] by (simp add: le_neq_implies_less word_unat_eq_iff)
  with 1 show ?case by (auto simp: rs_weight_def Let_def)
qed auto

end
