(* ===== verification/Verify_Errors.thy ===== *)
theory Verify_Errors
  imports Bytecode_Module
begin

text \<open>
  The located errors of the module verifier (\<^verbatim>\<open>crates/bamts-bytecode/src/lib.rs\<close>), shared by
  its passes: the handler-table check, the instruction checks and the dataflow analysis.
\<close>

datatype (plugins only: code size) VerifyErrorKind =
    EmptyModule
  | VerifierWorkLimitExceeded nat nat
  | TooManyConstants usize
  | TooManyFunctions usize
  | EntryFunctionOutOfBounds u32 usize
  | EmptyFunction
  | TooManyInstructions usize
  | TooManyHandlers usize
  | RegisterCountOutOfBounds u32
  | ParameterCountExceedsRegisters u32 u32
  | EntryRegistersExceedRegisterCount u32 u32 u32
  | FunctionNameOutOfBounds u32
  | FunctionNameNotString ConstantId
  | RegisterOutOfBounds Register u32
  | AliasedIteratorCloseOutputs Register
  | AliasedIteratorNextOutputs Register
  | AliasedIteratorResultOutputs Register
  | AliasedDisposeCaptureOutputs Register
  | AliasedCopyDataProperties Register
  | ConstantOutOfBounds ConstantId usize
  | StringConstantExpected ConstantId
  | FunctionReferenceOutOfBounds FunctionId usize
  | JumpOutOfBounds u32 usize
  | InvalidHandlerBounds usize u32 u32 u32
  | HandlerCatchRegisterOutOfBounds usize Register u32
  | HandlersPartiallyOverlap usize usize
  | ReadBeforeWrite Register

record VerifyError =
  ve_function :: "FunctionId option"
  ve_instruction :: "Pc option"
  ve_kind :: VerifyErrorKind

definition module_error :: "VerifyErrorKind \<Rightarrow> VerifyError" where
  "module_error kind = \<lparr>ve_function = None, ve_instruction = None, ve_kind = kind\<rparr>"

definition function_error :: "usize \<Rightarrow> VerifyErrorKind \<Rightarrow> VerifyError" where
  "function_error fi kind = \<lparr>ve_function = Some (as_u32 fi), ve_instruction = None, ve_kind = kind\<rparr>"

definition instruction_error :: "usize \<Rightarrow> usize \<Rightarrow> VerifyErrorKind \<Rightarrow> VerifyError" where
  "instruction_error fi pc kind =
     \<lparr>ve_function = Some (as_u32 fi), ve_instruction = Some (as_u32 pc), ve_kind = kind\<rparr>"

lemma error_kinds [simp]:
  "ve_kind (module_error k) = k"
  "ve_kind (function_error fi k) = k"
  "ve_kind (instruction_error fi pc k) = k"
  by (simp_all add: module_error_def function_error_def instruction_error_def)

lemma errors_inject [simp]:
  "module_error k = module_error k' \<longleftrightarrow> k = k'"
  "function_error fi k = function_error fi k' \<longleftrightarrow> k = k'"
  "instruction_error fi pc k = instruction_error fi pc k' \<longleftrightarrow> k = k'"
  by (simp_all add: module_error_def function_error_def instruction_error_def)

lemma errors_distinct [simp]:
  "module_error k \<noteq> function_error fi k'"
  "module_error k \<noteq> instruction_error fi pc k'"
  "function_error fi k \<noteq> instruction_error fi' pc k'"
  by (simp_all add: module_error_def function_error_def instruction_error_def)

end
