(* ===== verification/Dataflow.thy ===== *)
theory Dataflow
  imports Register_Sets Verify_Errors
begin

text \<open>
  The definite-initialisation analysis of the module verifier (\<open>definite_initialization\<close> in
  \<^verbatim>\<open>crates/bamts-bytecode/src/lib.rs\<close>): a round-robin fixpoint iteration over one register
  bitset per instruction. The theory models the loop, proves that it terminates on every input and
  that on structurally valid functions it computes exactly the registers that are initialised on
  every control-flow path, exceptional edges included.
\<close>

section \<open>The analysis\<close>

text \<open>The fact after an instruction: its writes are inserted into a clone of the fact before it.\<close>

definition df_after :: "Instruction \<Rightarrow> RegisterSet \<Rightarrow> RegisterSet" where
  "df_after ins pre = foldl rs_insert pre (visit_writes ins)"

text \<open>\<open>changed |= facts[target].intersect(&contribution)\<close>, which panics on a bad index.\<close>

definition df_meet ::
    "RegisterSet \<Rightarrow> usize \<Rightarrow> RegisterSet list \<times> bool \<Rightarrow> (RegisterSet list \<times> bool, VerifyError) result" where
  "df_meet contribution target st = (case st of (facts, changed) \<Rightarrow>
     bind_result (slice_index facts target) (\<lambda>pre.
       Ok (facts[target := fst (rs_intersect pre contribution)],
           changed \<or> snd (rs_intersect pre contribution))))"

definition df_instruction ::
    "RegisterSet list \<times> bool \<Rightarrow> nat \<times> Instruction \<Rightarrow> (RegisterSet list \<times> bool, VerifyError) result" where
  "df_instruction st at = (case at of (pc, ins) \<Rightarrow>
     bind_result (slice_index (fst st) pc) (\<lambda>pre.
       try_fold (\<lambda>st successor. df_meet (df_after ins pre) (unat successor) st) st
         (visit_successors (as_u32 pc) ins)))"

definition df_contribution :: "u32 \<Rightarrow> RegisterSet list \<Rightarrow> ExceptionHandler \<Rightarrow> RegisterSet" where
  "df_contribution register_count protected_facts h =
     rs_insert (foldl (\<lambda>c pre. fst (rs_intersect c pre)) (rs_full register_count) protected_facts)
       (eh_catch_register h)"

definition df_handler ::
    "u32 \<Rightarrow> RegisterSet list \<times> bool \<Rightarrow> ExceptionHandler \<Rightarrow> (RegisterSet list \<times> bool, VerifyError) result" where
  "df_handler register_count st h =
     (let start = unat (eh_start h); stop = unat (eh_end h); facts = fst st
      in if start \<le> stop \<and> stop \<le> length facts
         then df_meet (df_contribution register_count (take (stop - start) (drop start facts)) h)
                (unat (eh_handler h)) st
         else Panic)"

text \<open>One round of the outer \<open>loop\<close>: all instructions in order, then all handlers.\<close>

definition df_pass :: "Function \<Rightarrow> RegisterSet list \<Rightarrow> (RegisterSet list \<times> bool, VerifyError) result" where
  "df_pass f facts =
     bind_result (try_fold df_instruction (facts, False) (enumerate 0 (fn_code f))) (\<lambda>st.
       try_fold (df_handler (fn_register_count f)) st (fn_handlers f))"

definition df_weight :: "RegisterSet list \<Rightarrow> nat" where
  "df_weight facts = sum_list (map rs_weight facts)"

subsection \<open>Termination of the outer loop\<close>

lemma df_weight_update:
  "i < length facts \<Longrightarrow> df_weight (facts[i := s]) = df_weight facts + rs_weight s - rs_weight (facts ! i)"
  by (simp add: df_weight_def map_update sum_list_update)

lemma rs_weight_le: "i < length facts \<Longrightarrow> rs_weight (facts ! i) \<le> df_weight facts"
  unfolding df_weight_def using elem_le_sum_list [of i "map rs_weight facts"] by simp

text \<open>The loop variant: the weight never grows, and a raised flag means it dropped below \<open>w\<close>.\<close>

definition lighter :: "nat \<Rightarrow> RegisterSet list \<times> bool \<Rightarrow> bool" where
  "lighter w st \<longleftrightarrow> df_weight (fst st) \<le> w \<and> (snd st \<longrightarrow> df_weight (fst st) < w)"

lemma df_meet_lighter:
  assumes "lighter w st" and "df_meet c t st = Ok st'"
  shows "lighter w st'"
proof -
  obtain facts changed where st: "st = (facts, changed)" by force
  from assms(2) have t: "t < length facts"
    and st': "st' = (facts[t := fst (rs_intersect (facts ! t) c)], changed \<or> snd (rs_intersect (facts ! t) c))"
    by (auto simp: df_meet_def st bind_result_iffs)
  show ?thesis
    using assms(1) rs_intersect_weight [of "facts ! t" c] rs_weight_le [OF t]
    by (auto simp: lighter_def st st' df_weight_update [OF t])
qed

lemma df_instruction_lighter:
  assumes "lighter w st" and "df_instruction st at = Ok st'"
  shows "lighter w st'"
proof -
  obtain pc ins where at: "at = (pc, ins)" by force
  from assms(2) obtain pre where
    "try_fold (\<lambda>st successor. df_meet (df_after ins pre) (unat successor) st) st
       (visit_successors (as_u32 pc) ins) = Ok st'"
    by (auto simp: df_instruction_def at bind_result_iffs)
  then show ?thesis by (rule try_fold_invariant) (use assms(1) df_meet_lighter in auto)
qed

lemma df_handler_lighter: "lighter w st \<Longrightarrow> df_handler n st h = Ok st' \<Longrightarrow> lighter w st'"
  by (auto simp: df_handler_def Let_def intro: df_meet_lighter split: if_splits)

lemma df_pass_lighter: "df_pass f facts = Ok st \<Longrightarrow> lighter (df_weight facts) st"
proof -
  assume "df_pass f facts = Ok st"
  then obtain st1 where st1: "try_fold df_instruction (facts, False) (enumerate 0 (fn_code f)) = Ok st1"
    and st: "try_fold (df_handler (fn_register_count f)) st1 (fn_handlers f) = Ok st"
    by (auto simp: df_pass_def bind_result_iffs)
  have "lighter (df_weight facts) (facts, False)" by (simp add: lighter_def)
  with st1 have "lighter (df_weight facts) st1"
    by (rule try_fold_invariant) (rule df_instruction_lighter)
  with st show ?thesis by (rule try_fold_invariant) (rule df_handler_lighter)
qed

function df_loop :: "Function \<Rightarrow> RegisterSet list \<Rightarrow> (RegisterSet list, VerifyError) result" where
  "df_loop f facts = (case df_pass f facts of
      Ok (facts', changed) \<Rightarrow> if changed then df_loop f facts' else Ok facts'
    | Err e \<Rightarrow> Err e
    | Panic \<Rightarrow> Panic)"
  by pat_completeness auto
termination
  by (relation "measure (\<lambda>(f, facts). df_weight facts)")
    (auto dest: df_pass_lighter simp: lighter_def)

declare df_loop.simps [simp del]

text \<open>The reads of one instruction: the first register that is not in the fact is reported.\<close>

definition df_check :: "usize \<Rightarrow> RegisterSet list \<Rightarrow> nat \<times> Instruction \<Rightarrow> (unit, VerifyError) result" where
  "df_check fi facts at = (case at of (pc, ins) \<Rightarrow>
     bind_result (slice_index facts pc) (\<lambda>pre.
       case find (\<lambda>register. \<not> rs_contains pre register) (visit_reads ins) of
         Some register \<Rightarrow> Err (instruction_error fi pc (ReadBeforeWrite register))
       | None \<Rightarrow> Ok ()))"

definition df_initial :: "Function \<Rightarrow> RegisterSet list" where
  "df_initial f =
     (let n = fn_register_count f
      in (replicate (length (fn_code f)) (rs_full n))
           [0 := rs_insert_prefix (rs_empty n) (entry_initialized f)])"

definition definite_initialization :: "usize \<Rightarrow> Function \<Rightarrow> (Certificate, VerifyError) result" where
  "definite_initialization fi f =
     (if fn_code f = [] then Panic else
      bind_result (df_loop f (df_initial f)) (\<lambda>facts.
      bind_result (try_all (map (df_check fi facts) (enumerate 0 (fn_code f)))) (\<lambda>_.
        Ok \<lparr>cert_register_count = fn_register_count f, cert_facts = facts\<rparr>)))"

section \<open>The control-flow paths it speaks about\<close>

text \<open>
  \<open>reaches f pc S\<close>: some path from the entry arrives at \<open>pc\<close> with exactly the registers \<open>S\<close>
  initialised. An instruction either completes, having written its outputs, or throws before it
  writes, and then control may enter any handler that protects it.
\<close>

inductive reaches :: "Function \<Rightarrow> nat \<Rightarrow> nat set \<Rightarrow> bool" for f :: Function where
  entry: "reaches f 0 {..<unat (entry_initialized f)}"
| completes: "reaches f pc S \<Longrightarrow> pc < length (fn_code f) \<Longrightarrow>
    q \<in> set (visit_successors (as_u32 pc) (fn_code f ! pc)) \<Longrightarrow>
    reaches f (unat q) (S \<union> unat ` set (visit_writes (fn_code f ! pc)))"
| throws: "reaches f pc S \<Longrightarrow> h \<in> set (fn_handlers f) \<Longrightarrow> unat (eh_start h) \<le> pc \<Longrightarrow>
    pc < unat (eh_end h) \<Longrightarrow> reaches f (unat (eh_handler h)) (insert (unat (eh_catch_register h)) S)"

text \<open>What the checks before the analysis establish.\<close>

definition df_operands_ok :: "Function \<Rightarrow> nat \<times> Instruction \<Rightarrow> bool" where
  "df_operands_ok f at = (case at of (pc, ins) \<Rightarrow>
     (\<forall>r \<in> set (visit_reads ins). r < fn_register_count f) \<and>
     (\<forall>r \<in> set (visit_writes ins). r < fn_register_count f) \<and>
     (\<forall>q \<in> set (visit_successors (as_u32 pc) ins). unat q < length (fn_code f)))"

definition df_handler_ok :: "Function \<Rightarrow> ExceptionHandler \<Rightarrow> bool" where
  "df_handler_ok f h \<longleftrightarrow> eh_start h < eh_end h \<and> unat (eh_end h) \<le> length (fn_code f) \<and>
     unat (eh_handler h) < length (fn_code f) \<and> eh_catch_register h < fn_register_count f"

definition df_valid :: "Function \<Rightarrow> bool" where
  "df_valid f \<longleftrightarrow> fn_code f \<noteq> [] \<and> entry_initialized f \<le> fn_register_count f \<and>
     list_all (df_operands_ok f) (enumerate 0 (fn_code f)) \<and> list_all (df_handler_ok f) (fn_handlers f)"

subsection \<open>Each iteration step\<close>

lemma df_validD:
  assumes "df_valid f"
  shows "fn_code f \<noteq> []" "entry_initialized f \<le> fn_register_count f"
    and "pc < length (fn_code f) \<Longrightarrow> df_operands_ok f (pc, fn_code f ! pc)"
    and "h \<in> set (fn_handlers f) \<Longrightarrow> df_handler_ok f h"
  using assms by (auto simp: df_valid_def list_all_iff in_enumerate)

text \<open>
  The invariant of the iteration: every missing register is missing on some path, and the entry
  fact stays below what the entry initialises.
\<close>

definition df_inv :: "Function \<Rightarrow> RegisterSet list \<Rightarrow> bool" where
  "df_inv f facts \<longleftrightarrow> length facts = length (fn_code f) \<and> facts \<noteq> [] \<and>
     (\<forall>s \<in> set facts. rs_wf (fn_register_count f) s) \<and>
     rs_set (facts ! 0) \<subseteq> {..<unat (entry_initialized f)} \<and>
     (\<forall>pc r. pc < length facts \<and> r < unat (fn_register_count f) \<and> r \<notin> rs_set (facts ! pc) \<longrightarrow>
        (\<exists>S. reaches f pc S \<and> r \<notin> S))"

text \<open>A contribution to a target is justified when each register it lacks is missing on a path.\<close>

definition justified :: "Function \<Rightarrow> nat \<Rightarrow> RegisterSet \<Rightarrow> bool" where
  "justified f target c \<longleftrightarrow> rs_wf (fn_register_count f) c \<and> target < length (fn_code f) \<and>
     (\<forall>r < unat (fn_register_count f). r \<notin> rs_set c \<longrightarrow> (\<exists>S. reaches f target S \<and> r \<notin> S))"

lemma df_invD:
  assumes "df_inv f facts"
  shows "length facts = length (fn_code f)"
    and "pc < length (fn_code f) \<Longrightarrow> rs_wf (fn_register_count f) (facts ! pc)"
    and "rs_set (facts ! 0) \<subseteq> {..<unat (entry_initialized f)}"
    and "pc < length (fn_code f) \<Longrightarrow> r < unat (fn_register_count f) \<Longrightarrow> r \<notin> rs_set (facts ! pc) \<Longrightarrow>
      \<exists>S. reaches f pc S \<and> r \<notin> S"
  using assms by (auto simp: df_inv_def)

lemma df_meet_inv:
  assumes inv: "df_inv f (fst st)" and c: "justified f t c"
  shows "\<exists>st'. df_meet c t st = Ok st' \<and> df_inv f (fst st')"
proof -
  obtain facts changed where st: "st = (facts, changed)" by force
  let ?n = "fn_register_count f"
  let ?s = "fst (rs_intersect (facts ! t) c)"
  note inv = inv [unfolded st fst_conv]
  from c have t: "t < length (fn_code f)" and wf_c: "rs_wf ?n c" by (auto simp: justified_def)
  note wf_t = df_invD(2) [OF inv t]
  have s: "rs_wf ?n ?s" "rs_set ?s = rs_set (facts ! t) \<inter> rs_set c"
    by (rule rs.wf_intersect [OF wf_t wf_c], rule rs.elems_intersect [OF wf_t wf_c])
  have "df_inv f (facts[t := ?s])"
    unfolding df_inv_def
  proof (intro conjI ballI allI impI)
    show "length (facts[t := ?s]) = length (fn_code f)" using df_invD(1) [OF inv] by simp
    show "facts[t := ?s] \<noteq> []" using inv by (simp add: df_inv_def)
    show "rs_set (facts[t := ?s] ! 0) \<subseteq> {..<unat (entry_initialized f)}"
      using df_invD(1,3) [OF inv] s(2) t by (cases "t = 0") auto
    show "rs_wf ?n s'" if "s' \<in> set (facts[t := ?s])" for s'
      using that set_update_subset_insert [of facts t ?s] inv s(1) by (auto simp: df_inv_def)
    show "\<exists>S. reaches f pc S \<and> r \<notin> S"
      if "pc < length (facts[t := ?s]) \<and> r < unat ?n \<and> r \<notin> rs_set (facts[t := ?s] ! pc)" for pc r
      using that df_invD(1) [OF inv] df_invD(4) [OF inv, of pc r] c s(2)
      by (cases "pc = t") (auto simp: justified_def)
  qed
  then show ?thesis using t df_invD(1) [OF inv] by (simp add: df_meet_def st slice_index_def)
qed

lemma df_after_spec:
  assumes "rs_wf (fn_register_count f) s" and "df_operands_ok f (pc, ins)"
  shows "rs_wf (fn_register_count f) (df_after ins s)"
    and "rs_set (df_after ins s) = rs_set s \<union> unat ` set (visit_writes ins)"
  using rs.wf_inserts [OF assms(1)] rs.elems_inserts [OF assms(1)] assms(2)
  by (auto simp: df_after_def df_operands_ok_def)

lemma df_after_justified:
  assumes valid: "df_valid f" and inv: "df_inv f facts" and pc: "pc < length (fn_code f)"
    and q: "q \<in> set (visit_successors (as_u32 pc) (fn_code f ! pc))"
  shows "justified f (unat q) (df_after (fn_code f ! pc) (facts ! pc))"
proof -
  note ops = df_validD(3) [OF valid pc]
  note after = df_after_spec [OF df_invD(2) [OF inv pc] ops]
  have "\<exists>S. reaches f (unat q) S \<and> r \<notin> S"
    if r: "r < unat (fn_register_count f)" "r \<notin> rs_set (df_after (fn_code f ! pc) (facts ! pc))" for r
  proof -
    from r(2) have miss: "r \<notin> rs_set (facts ! pc)" "r \<notin> unat ` set (visit_writes (fn_code f ! pc))"
      unfolding after(2) by auto
    from df_invD(4) [OF inv pc r(1) miss(1)] obtain S where "reaches f pc S" "r \<notin> S" by auto
    with miss(2) reaches.completes [OF _ pc q] show ?thesis by blast
  qed
  with after(1) ops q show ?thesis by (auto simp: justified_def df_operands_ok_def)
qed

lemma df_instruction_inv:
  assumes "df_valid f" and inv: "df_inv f (fst st)" and "at \<in> set (enumerate 0 (fn_code f))"
  shows "\<exists>st'. df_instruction st at = Ok st' \<and> df_inv f (fst st')"
proof -
  obtain pc where at: "at = (pc, fn_code f ! pc)" and pc: "pc < length (fn_code f)"
    using assms(3) by (metis in_enumerate prod.exhaust)
  have "\<exists>st'. try_fold (\<lambda>st q. df_meet (df_after (fn_code f ! pc) (fst st0 ! pc)) (unat q) st) st
      (visit_successors (as_u32 pc) (fn_code f ! pc)) = Ok st' \<and> df_inv f (fst st')"
    if "st0 = st" for st0
    by (rule try_fold_total [where I = "\<lambda>st. df_inv f (fst st)"])
      (use inv df_meet_inv df_after_justified [OF assms(1) _ pc] that in blast)+
  then show ?thesis
    using pc df_invD(1) [OF inv] by (simp add: df_instruction_def at slice_index_def)
qed

lemma protected_facts:
  assumes "df_inv f facts" and "df_handler_ok f h"
  shows "set (take (unat (eh_end h) - unat (eh_start h)) (drop (unat (eh_start h)) facts)) =
    (!) facts ` {unat (eh_start h)..<unat (eh_end h)}"
proof -
  have "unat (eh_start h) \<le> unat (eh_end h)" "unat (eh_end h) \<le> length facts"
    using assms df_invD(1) [OF assms(1)] by (auto simp: df_handler_ok_def word_less_nat_alt)
  then have "take (unat (eh_end h) - unat (eh_start h)) (drop (unat (eh_start h)) facts) =
      map ((!) facts) [unat (eh_start h)..<unat (eh_end h)]"
    by (intro nth_equalityI) simp_all
  then show ?thesis by simp
qed

lemma df_contribution_spec:
  assumes inv: "df_inv f facts" and h: "df_handler_ok f h"
    and c: "c = df_contribution (fn_register_count f)
      (take (unat (eh_end h) - unat (eh_start h)) (drop (unat (eh_start h)) facts)) h"
  shows "rs_wf (fn_register_count f) c"
    and "rs_set c = insert (unat (eh_catch_register h))
      ({..<unat (fn_register_count f)} \<inter> (\<Inter>pc \<in> {unat (eh_start h)..<unat (eh_end h)}. rs_set (facts ! pc)))"
proof -
  let ?n = "fn_register_count f"
  let ?ps = "take (unat (eh_end h) - unat (eh_start h)) (drop (unat (eh_start h)) facts)"
  let ?m = "foldl (\<lambda>c p. fst (rs_intersect c p)) (rs_full ?n) ?ps"
  have wf: "\<forall>s \<in> set ?ps. rs_wf ?n s"
    using inv by (auto simp: df_inv_def dest: in_set_takeD in_set_dropD)
  note meet = rs.wf_intersects [OF rs.wf_full wf] rs.elems_intersects [OF rs.wf_full wf]
  have r: "eh_catch_register h < ?n" using h by (simp add: df_handler_ok_def)
  from rs.wf_insert [OF meet(1) r] show "rs_wf ?n c" by (simp add: c df_contribution_def)
  from rs.elems_insert [OF meet(1) r] show "rs_set c = insert (unat (eh_catch_register h))
      ({..<unat ?n} \<inter> (\<Inter>pc \<in> {unat (eh_start h)..<unat (eh_end h)}. rs_set (facts ! pc)))"
    unfolding c df_contribution_def meet(2) protected_facts [OF inv h] rs.elems_full image_image .
qed

lemma df_handler_inv:
  assumes valid: "df_valid f" and inv: "df_inv f (fst st)" and h: "h \<in> set (fn_handlers f)"
  shows "\<exists>st'. df_handler (fn_register_count f) st h = Ok st' \<and> df_inv f (fst st')"
proof -
  note ok = df_validD(4) [OF valid h]
  let ?c = "df_contribution (fn_register_count f)
      (take (unat (eh_end h) - unat (eh_start h)) (drop (unat (eh_start h)) (fst st))) h"
  note c = df_contribution_spec [OF inv ok refl]
  have "\<exists>S. reaches f (unat (eh_handler h)) S \<and> r \<notin> S"
    if r: "r < unat (fn_register_count f)" "r \<notin> rs_set ?c" for r
  proof -
    from r obtain pc where pc: "unat (eh_start h) \<le> pc" "pc < unat (eh_end h)"
      and miss: "r \<notin> rs_set (fst st ! pc)" "r \<noteq> unat (eh_catch_register h)"
      unfolding c(2) by auto
    have "pc < length (fn_code f)" using pc(2) ok by (simp add: df_handler_ok_def)
    from df_invD(4) [OF inv this r(1) miss(1)] obtain S where "reaches f pc S" "r \<notin> S" by auto
    with miss(2) reaches.throws [OF _ h pc] show ?thesis by blast
  qed
  with c(1) ok have "justified f (unat (eh_handler h)) ?c" by (simp add: justified_def df_handler_ok_def)
  from df_meet_inv [OF inv this] show ?thesis
    using ok df_invD(1) [OF inv]
    by (simp add: df_handler_def Let_def df_handler_ok_def word_less_nat_alt)
qed

lemma df_pass_inv:
  assumes "df_valid f" and "df_inv f facts"
  shows "\<exists>st. df_pass f facts = Ok st \<and> df_inv f (fst st)"
proof -
  have "\<exists>st. try_fold df_instruction (facts, False) (enumerate 0 (fn_code f)) = Ok st \<and> df_inv f (fst st)"
    by (rule try_fold_total [where I = "\<lambda>st. df_inv f (fst st)"])
      (use assms df_instruction_inv in auto)
  then obtain st where st: "try_fold df_instruction (facts, False) (enumerate 0 (fn_code f)) = Ok st"
    and inv: "df_inv f (fst st)" by blast
  from inv have "\<exists>st'. try_fold (df_handler (fn_register_count f)) st (fn_handlers f) = Ok st' \<and>
      df_inv f (fst st')"
    by (rule try_fold_total [where I = "\<lambda>st. df_inv f (fst st)"]) (rule df_handler_inv [OF assms(1)])
  with st show ?thesis by (simp add: df_pass_def)
qed

subsection \<open>What a round without change establishes\<close>

definition df_closed :: "Function \<Rightarrow> RegisterSet list \<Rightarrow> bool" where
  "df_closed f facts \<longleftrightarrow>
     (\<forall>pc < length (fn_code f). \<forall>q \<in> set (visit_successors (as_u32 pc) (fn_code f ! pc)).
        rs_set (facts ! unat q) \<subseteq> rs_set (facts ! pc) \<union> unat ` set (visit_writes (fn_code f ! pc))) \<and>
     (\<forall>h \<in> set (fn_handlers f). \<forall>pc \<in> {unat (eh_start h)..<unat (eh_end h)}.
        rs_set (facts ! unat (eh_handler h)) \<subseteq> insert (unat (eh_catch_register h)) (rs_set (facts ! pc)))"

lemma df_meet_flag:
  "df_meet c t (facts, d) = Ok (facts', d') \<Longrightarrow> (d \<longrightarrow> d') \<and> (\<not> d' \<longrightarrow> facts' = facts)"
  by (auto simp: df_meet_def bind_result_iffs rs_intersect_changed)

lemma df_successors_flag:
  assumes "try_fold (\<lambda>st q. df_meet c (unat q) st) (facts, d) qs = Ok (facts', d')"
  shows "(d \<longrightarrow> d') \<and> (\<not> d' \<longrightarrow> facts' = facts \<and>
    (\<forall>q \<in> set qs. df_meet c (unat q) (facts, False) = Ok (facts, False)))"
  by (rule try_fold_unchanged [OF _ assms]) (rule df_meet_flag)

lemma df_instruction_flag:
  assumes "df_instruction (facts, d) at = Ok (facts', d')"
  shows "(d \<longrightarrow> d') \<and> (\<not> d' \<longrightarrow> facts' = facts)"
proof -
  obtain pc ins where at: "at = (pc, ins)" by force
  from assms have "try_fold (\<lambda>st q. df_meet (df_after ins (facts ! pc)) (unat q) st) (facts, d)
      (visit_successors (as_u32 pc) ins) = Ok (facts', d')"
    by (simp add: df_instruction_def at bind_result_iffs)
  from df_successors_flag [OF this] show ?thesis by blast
qed

lemma df_handler_flag:
  "df_handler n (facts, d) h = Ok (facts', d') \<Longrightarrow> (d \<longrightarrow> d') \<and> (\<not> d' \<longrightarrow> facts' = facts)"
  by (auto simp: df_handler_def Let_def dest: df_meet_flag split: if_splits)

lemma df_meet_still:
  assumes "df_meet c t (facts, False) = Ok (facts, False)"
    and "rs_wf n (facts ! t)" and "rs_wf n c"
  shows "rs_set (facts ! t) \<subseteq> rs_set c"
  using assms rs.unchanged_iff [OF assms(2,3)] by (auto simp: df_meet_def bind_result_iffs)

lemma df_pass_still:
  assumes "df_pass f facts = Ok (facts', False)"
  shows "facts' = facts"
    and "\<forall>at \<in> set (enumerate 0 (fn_code f)). df_instruction (facts, False) at = Ok (facts, False)"
    and "\<forall>h \<in> set (fn_handlers f). df_handler (fn_register_count f) (facts, False) h = Ok (facts, False)"
proof -
  obtain facts1 d where p: "try_fold df_instruction (facts, False) (enumerate 0 (fn_code f)) = Ok (facts1, d)"
    "try_fold (df_handler (fn_register_count f)) (facts1, d) (fn_handlers f) = Ok (facts', False)"
    using assms by (auto simp: df_pass_def bind_result_iffs)
  from try_fold_unchanged [OF df_handler_flag p(2)] try_fold_unchanged [OF df_instruction_flag p(1)]
  show "facts' = facts"
    and "\<forall>at \<in> set (enumerate 0 (fn_code f)). df_instruction (facts, False) at = Ok (facts, False)"
    and "\<forall>h \<in> set (fn_handlers f). df_handler (fn_register_count f) (facts, False) h = Ok (facts, False)"
    by auto
qed

lemma df_pass_closed:
  assumes valid: "df_valid f" and inv: "df_inv f facts" and pass: "df_pass f facts = Ok (facts', False)"
  shows "df_closed f facts"
  unfolding df_closed_def
proof (intro conjI allI impI ballI)
  fix pc q assume pc: "pc < length (fn_code f)"
    and q: "q \<in> set (visit_successors (as_u32 pc) (fn_code f ! pc))"
  let ?after = "df_after (fn_code f ! pc) (facts ! pc)"
  note ops = df_validD(3) [OF valid pc]
  note after = df_after_spec [OF df_invD(2) [OF inv pc] ops]
  from pc have "df_instruction (facts, False) (pc, fn_code f ! pc) = Ok (facts, False)"
    using df_pass_still(2) [OF pass] by (auto simp: in_enumerate)
  then have "try_fold (\<lambda>st q. df_meet ?after (unat q) st) (facts, False)
      (visit_successors (as_u32 pc) (fn_code f ! pc)) = Ok (facts, False)"
    by (simp add: df_instruction_def bind_result_iffs)
  from df_successors_flag [OF this] q
  have still: "df_meet ?after (unat q) (facts, False) = Ok (facts, False)" by blast
  have "unat q < length (fn_code f)" using ops q by (simp add: df_operands_ok_def)
  from df_meet_still [OF still df_invD(2) [OF inv this] after(1)]
  show "rs_set (facts ! unat q) \<subseteq> rs_set (facts ! pc) \<union> unat ` set (visit_writes (fn_code f ! pc))"
    unfolding after(2) .
next
  fix h pc assume h: "h \<in> set (fn_handlers f)" and pc: "pc \<in> {unat (eh_start h)..<unat (eh_end h)}"
  note ok = df_validD(4) [OF valid h]
  note c = df_contribution_spec [OF inv ok refl]
  have still: "df_meet (df_contribution (fn_register_count f)
      (take (unat (eh_end h) - unat (eh_start h)) (drop (unat (eh_start h)) facts)) h)
      (unat (eh_handler h)) (facts, False) = Ok (facts, False)"
    using df_pass_still(3) [OF pass] h by (auto simp: df_handler_def Let_def split: if_splits)
  have "unat (eh_handler h) < length (fn_code f)" using ok by (simp add: df_handler_ok_def)
  from df_meet_still [OF still df_invD(2) [OF inv this] c(1)] pc
  show "rs_set (facts ! unat (eh_handler h)) \<subseteq> insert (unat (eh_catch_register h)) (rs_set (facts ! pc))"
    unfolding c(2) by auto
qed

subsection \<open>The fixpoint is the meet over all paths\<close>

lemma df_closed_sound:
  assumes valid: "df_valid f" and inv: "df_inv f facts" and closed: "df_closed f facts"
    and "reaches f pc S"
  shows "pc < length (fn_code f) \<and> rs_set (facts ! pc) \<subseteq> S"
  using assms(4)
proof (induction rule: reaches.induct)
  case entry
  then show ?case using df_invD(3) [OF inv] df_validD(1) [OF valid] by simp
next
  case (completes pc S q)
  then show ?case
    using closed df_validD(3) [OF valid completes.hyps(2)]
    by (fastforce simp: df_closed_def df_operands_ok_def)
next
  case (throws pc S h)
  then show ?case
    using closed df_validD(4) [OF valid throws.hyps(2)]
    by (fastforce simp: df_closed_def df_handler_ok_def)
qed

lemma df_loop_closed:
  assumes "df_valid f" and "df_inv f facts"
  shows "\<exists>facts'. df_loop f facts = Ok facts' \<and> df_inv f facts' \<and> df_closed f facts'"
  using assms
proof (induction f facts rule: df_loop.induct)
  case (1 f facts)
  from df_pass_inv [OF 1(2,3)] obtain facts' d where p: "df_pass f facts = Ok (facts', d)"
    and inv: "df_inv f facts'" by force
  show ?case
  proof (cases d)
    case True
    with 1(1) [OF p refl] 1(2) inv p show ?thesis by (simp add: df_loop.simps [of f facts])
  next
    case False
    then have pass: "df_pass f facts = Ok (facts', False)" using p by simp
    then show ?thesis
      using df_pass_still(1) [OF pass] df_pass_closed [OF 1(2,3) pass] 1(3)
      by (simp add: df_loop.simps [of f facts])
  qed
qed

lemma df_initial_inv:
  assumes valid: "df_valid f"
  shows "df_inv f (df_initial f)"
proof -
  let ?n = "fn_register_count f"
  let ?e = "rs_insert_prefix (rs_empty ?n) (entry_initialized f)"
  note e = rs_insert_prefix_empty [OF df_validD(2) [OF valid]]
  have nth: "df_initial f ! pc = (if pc = 0 then ?e else rs_full ?n)" if "pc < length (fn_code f)" for pc
    using that by (cases pc) (simp_all add: df_initial_def Let_def nth_list_update)
  show ?thesis
    unfolding df_inv_def
  proof (intro conjI ballI allI impI)
    show len: "length (df_initial f) = length (fn_code f)" by (simp add: df_initial_def Let_def)
    then show "df_initial f \<noteq> []" using df_validD(1) [OF valid] by auto
    show "rs_wf ?n s" if "s \<in> set (df_initial f)" for s
      using that len nth e(1) rs.wf_full [of ?n] by (auto simp: in_set_conv_nth)
    show "rs_set (df_initial f ! 0) \<subseteq> {..<unat (entry_initialized f)}"
      using df_validD(1) [OF valid] nth [of 0] e(2) by simp
    show "\<exists>S. reaches f pc S \<and> r \<notin> S"
      if r: "pc < length (df_initial f) \<and> r < unat ?n \<and> r \<notin> rs_set (df_initial f ! pc)" for pc r
    proof -
      have "pc = 0" "r \<notin> {..<unat (entry_initialized f)}"
        using r nth [of pc] len e(2) rs.elems_full [of ?n] by (auto split: if_splits)
      with reaches.entry [of f] show ?thesis by blast
    qed
  qed
qed

lemma df_loop_exact:
  assumes valid: "df_valid f"
  shows "\<exists>facts. df_loop f (df_initial f) = Ok facts \<and> length facts = length (fn_code f) \<and>
    (\<forall>pc < length (fn_code f). rs_wf (fn_register_count f) (facts ! pc) \<and>
       rs_set (facts ! pc) = {r. r < unat (fn_register_count f) \<and> (\<forall>S. reaches f pc S \<longrightarrow> r \<in> S)})"
proof -
  from df_loop_closed [OF valid df_initial_inv [OF valid]] obtain facts where
    facts: "df_loop f (df_initial f) = Ok facts" and inv: "df_inv f facts" and closed: "df_closed f facts"
    by blast
  have "rs_set (facts ! pc) = {r. r < unat (fn_register_count f) \<and> (\<forall>S. reaches f pc S \<longrightarrow> r \<in> S)}"
    if pc: "pc < length (fn_code f)" for pc
    using df_closed_sound [OF valid inv closed, of pc] df_invD(4) [OF inv pc]
      rs.wf_elems [OF df_invD(2) [OF inv pc]] by blast
  with facts df_invD(1,2) [OF inv] show ?thesis by blast
qed

section \<open>Correctness of the whole analysis\<close>

text \<open>Every read on every path is of an initialised register.\<close>

definition reads_initialized :: "Function \<Rightarrow> bool" where
  "reads_initialized f \<longleftrightarrow>
     (\<forall>pc S. reaches f pc S \<longrightarrow> unat ` set (visit_reads (fn_code f ! pc)) \<subseteq> S)"

lemma df_check_spec:
  assumes "rs_wf n (facts ! pc)" and "pc < length facts"
  shows "df_check fi facts (pc, ins) = Ok () \<longleftrightarrow> unat ` set (visit_reads ins) \<subseteq> rs_set (facts ! pc)"
    and "df_check fi facts (pc, ins) = Err e \<Longrightarrow> \<exists>r \<in> set (visit_reads ins).
      e = instruction_error fi pc (ReadBeforeWrite r) \<and> unat r \<notin> rs_set (facts ! pc)"
    and "df_check fi facts (pc, ins) \<noteq> Panic"
  using assms rs.contains_iff [OF assms(1)]
  by (auto simp: df_check_def slice_index_def find_None_iff find_Some_iff image_subset_iff
      split: option.splits)

lemma reaches_bound: "df_valid f \<Longrightarrow> reaches f pc S \<Longrightarrow> pc < length (fn_code f)"
  using df_loop_closed df_initial_inv df_closed_sound by metis

lemma definite_initialization_Ok_iff:
  assumes valid: "df_valid f"
  shows "(\<exists>c. definite_initialization fi f = Ok c) \<longleftrightarrow> reads_initialized f"
proof -
  from df_loop_exact [OF valid] obtain facts where
    loop: "df_loop f (df_initial f) = Ok facts" and len: "length facts = length (fn_code f)"
    and wf: "\<And>pc. pc < length (fn_code f) \<Longrightarrow> rs_wf (fn_register_count f) (facts ! pc)"
    and exact: "\<And>pc. pc < length (fn_code f) \<Longrightarrow> rs_set (facts ! pc) =
      {r. r < unat (fn_register_count f) \<and> (\<forall>S. reaches f pc S \<longrightarrow> r \<in> S)}" by blast
  have "df_check fi facts (pc, fn_code f ! pc) = Ok () \<longleftrightarrow>
      (\<forall>S. reaches f pc S \<longrightarrow> unat ` set (visit_reads (fn_code f ! pc)) \<subseteq> S)"
    if pc: "pc < length (fn_code f)" for pc
    using df_check_spec(1) [OF wf [OF pc]] pc len exact [OF pc] df_validD(3) [OF valid pc]
    by (simp add: df_operands_ok_def word_less_nat_alt image_subset_iff) blast
  then have "try_all (map (df_check fi facts) (enumerate 0 (fn_code f))) = Ok () \<longleftrightarrow> reads_initialized f"
    using reaches_bound [OF valid]
    by (simp add: try_all_Ok_iff reads_initialized_def all_enumerate) metis
  then show ?thesis
    using loop df_validD(1) [OF valid] by (auto simp: definite_initialization_def bind_result_iffs)
qed

lemma definite_initialization_certificate:
  assumes valid: "df_valid f" and ok: "definite_initialization fi f = Ok c"
  shows "cert_register_count c = fn_register_count f" "length (cert_facts c) = length (fn_code f)"
    and "pc < length (fn_code f) \<Longrightarrow> rs_wf (fn_register_count f) (cert_facts c ! pc) \<and>
      rs_set (cert_facts c ! pc) = {r. r < unat (fn_register_count f) \<and> (\<forall>S. reaches f pc S \<longrightarrow> r \<in> S)}"
  using df_loop_exact [OF valid] ok
  by (auto simp: definite_initialization_def bind_result_iffs split: if_splits)

text \<open>A rejection names the first instruction, and a register that some path leaves unset there.\<close>

lemma definite_initialization_Err:
  assumes valid: "df_valid f" and err: "definite_initialization fi f = Err e"
  shows "\<exists>pc r S. pc < length (fn_code f) \<and> r \<in> set (visit_reads (fn_code f ! pc)) \<and>
    e = instruction_error fi pc (ReadBeforeWrite r) \<and> reaches f pc S \<and> unat r \<notin> S \<and>
    (\<forall>pc' < pc. \<forall>S. reaches f pc' S \<longrightarrow> unat ` set (visit_reads (fn_code f ! pc')) \<subseteq> S)"
proof -
  from df_loop_exact [OF valid] obtain facts where
    loop: "df_loop f (df_initial f) = Ok facts" and len: "length facts = length (fn_code f)"
    and wf: "\<And>pc. pc < length (fn_code f) \<Longrightarrow> rs_wf (fn_register_count f) (facts ! pc)"
    and exact: "\<And>pc. pc < length (fn_code f) \<Longrightarrow> rs_set (facts ! pc) =
      {r. r < unat (fn_register_count f) \<and> (\<forall>S. reaches f pc S \<longrightarrow> r \<in> S)}" by blast
  from err loop have "try_all (map (df_check fi facts) (enumerate 0 (fn_code f))) = Err e"
    by (auto simp: definite_initialization_def bind_result_iffs split: if_splits)
  from try_all_Err_split [OF this] obtain us vs where
    split: "map (df_check fi facts) (enumerate 0 (fn_code f)) = us @ Err e # vs"
    and us: "\<forall>c \<in> set us. c = Ok ()" by blast
  define pc where "pc = length us"
  from arg_cong [OF split, of length] have pc: "pc < length (fn_code f)" by (simp add: pc_def)
  have nth: "df_check fi facts (k, fn_code f ! k) = (us @ Err e # vs) ! k" if "k < length (fn_code f)" for k
    using arg_cong [OF split, of "\<lambda>xs. xs ! k"] that by (simp add: nth_enumerate_eq)
  from nth [OF pc] have "df_check fi facts (pc, fn_code f ! pc) = Err e" by (simp add: pc_def)
  from df_check_spec(2) [OF wf [OF pc] _ this] pc len obtain r where
    r: "r \<in> set (visit_reads (fn_code f ! pc))" "e = instruction_error fi pc (ReadBeforeWrite r)"
      "unat r \<notin> rs_set (facts ! pc)" by auto
  from r(1,3) exact [OF pc] df_validD(3) [OF valid pc] obtain S where S: "reaches f pc S" "unat r \<notin> S"
    by (auto simp: df_operands_ok_def word_less_nat_alt)
  have "unat ` set (visit_reads (fn_code f ! k)) \<subseteq> S'" if k: "k < pc" and S': "reaches f k S'" for k S'
  proof -
    from k pc have k': "k < length (fn_code f)" by simp
    from nth [OF k'] us k have "df_check fi facts (k, fn_code f ! k) = Ok ()"
      by (simp add: pc_def nth_append)
    with df_check_spec(1) [OF wf [OF k']] k' len exact [OF k'] S' show ?thesis by auto
  qed
  with pc r(1,2) S show ?thesis by blast
qed

lemma definite_initialization_no_Panic:
  assumes valid: "df_valid f"
  shows "definite_initialization fi f \<noteq> Panic"
proof -
  from df_loop_exact [OF valid] obtain facts where
    loop: "df_loop f (df_initial f) = Ok facts" and len: "length facts = length (fn_code f)"
    and wf: "\<And>pc. pc < length (fn_code f) \<Longrightarrow> rs_wf (fn_register_count f) (facts ! pc)" by blast
  have "try_all (map (df_check fi facts) (enumerate 0 (fn_code f))) \<noteq> Panic"
    by (rule try_all_map_no_Panic) (use df_check_spec(3) [OF wf] len in \<open>auto simp: in_enumerate\<close>)
  with loop df_validD(1) [OF valid] show ?thesis
    by (simp add: definite_initialization_def bind_result_iffs)
qed

end
