(* ===== verification/Handlers.thy ===== *)
theory Handlers
  imports Verify_Errors "HOL-Library.Product_Lexorder"
begin

text \<open>
  The exception-handler table check (\<open>verify_handlers\<close> in \<^verbatim>\<open>crates/bamts-bytecode/src/lib.rs\<close>):
  bounds of every entry, then a sort and a stack sweep that accept exactly the laminar families of
  protected ranges.
\<close>

section \<open>The check\<close>

definition verify_handler :: "usize \<Rightarrow> Function \<Rightarrow> nat \<times> ExceptionHandler \<Rightarrow> (unit, VerifyError) result" where
  "verify_handler fi f at = (case at of (index, handler) \<Rightarrow>
     if eh_start handler \<ge> eh_end handler
        \<or> unat (eh_end handler) > length (fn_code f)
        \<or> unat (eh_handler handler) \<ge> length (fn_code f)
     then Err (function_error fi
            (InvalidHandlerBounds index (eh_start handler) (eh_end handler) (eh_handler handler)))
     else if eh_catch_register handler \<ge> fn_register_count f
     then Err (function_error fi
            (HandlerCatchRegisterOutOfBounds index (eh_catch_register handler) (fn_register_count f)))
     else Ok ())"

text \<open>
  \<open>order.sort_by(..)\<close>: indices sorted by start ascending, then end descending. \<open>sort_by\<close> is
  stable, as \<^const>\<open>sort_key\<close> is.
\<close>

definition handler_key :: "ExceptionHandler list \<Rightarrow> usize \<Rightarrow> nat \<times> int" where
  "handler_key handlers i = (unat (eh_start (handlers ! i)), - int (unat (eh_end (handlers ! i))))"

definition handler_order :: "ExceptionHandler list \<Rightarrow> usize list" where
  "handler_order handlers = sort_key (handler_key handlers) [0..<length handlers]"

text \<open>
  The sweep. The stack \<open>open\<close> holds \<open>(end, index)\<close> of the ranges that enclose the current start,
  its top at the head of the list.
\<close>

fun handler_sweep ::
    "usize \<Rightarrow> ExceptionHandler list \<Rightarrow> (u32 \<times> usize) list \<Rightarrow> usize list \<Rightarrow> (unit, VerifyError) result" where
  "handler_sweep fi handlers open_ranges [] = Ok ()"
| "handler_sweep fi handlers open_ranges (index # order) =
     bind_result (slice_index handlers index) (\<lambda>range.
       let opened = dropWhile (\<lambda>(open_end, _). open_end \<le> eh_start range) open_ranges
       in case opened of
            [] \<Rightarrow> handler_sweep fi handlers [(eh_end range, index)] order
          | (parent_end, parent_index) # _ \<Rightarrow>
              if eh_end range > parent_end
              then Err (function_error fi
                     (if parent_index < index then HandlersPartiallyOverlap parent_index index
                      else HandlersPartiallyOverlap index parent_index))
              else handler_sweep fi handlers ((eh_end range, index) # opened) order)"

definition verify_handlers :: "usize \<Rightarrow> Function \<Rightarrow> (unit, VerifyError) result" where
  "verify_handlers fi f =
     bind_result (try_all (map (verify_handler fi f) (enumerate 0 (fn_handlers f)))) (\<lambda>_.
       handler_sweep fi (fn_handlers f) [] (handler_order (fn_handlers f)))"

section \<open>Specification\<close>

text \<open>Two half-open ranges that are disjoint or one inside the other.\<close>

definition nested :: "ExceptionHandler \<Rightarrow> ExceptionHandler \<Rightarrow> bool" where
  "nested outer inner \<longleftrightarrow> eh_start outer \<le> eh_start inner \<and> eh_end inner \<le> eh_end outer"

definition compatible :: "ExceptionHandler \<Rightarrow> ExceptionHandler \<Rightarrow> bool" where
  "compatible a b \<longleftrightarrow> eh_end a \<le> eh_start b \<or> eh_end b \<le> eh_start a \<or> nested a b \<or> nested b a"

definition laminar :: "ExceptionHandler list \<Rightarrow> bool" where
  "laminar handlers \<longleftrightarrow> (\<forall>a \<in> set handlers. \<forall>b \<in> set handlers. compatible a b)"

definition handler_in_bounds :: "Function \<Rightarrow> ExceptionHandler \<Rightarrow> bool" where
  "handler_in_bounds f h \<longleftrightarrow> eh_start h < eh_end h \<and> unat (eh_end h) \<le> length (fn_code f) \<and>
     unat (eh_handler h) < length (fn_code f) \<and> eh_catch_register h < fn_register_count f"

lemma compatible_sym: "compatible a b \<longleftrightarrow> compatible b a"
  by (auto simp: compatible_def)

lemma compatible_refl: "compatible a a"
  by (simp add: compatible_def nested_def)

text \<open>In a laminar table the ranges that protect one instruction form a chain.\<close>

lemma laminar_chain:
  assumes "laminar handlers" and "a \<in> set handlers" "b \<in> set handlers"
    and "eh_start a \<le> pc" "pc < eh_end a" "eh_start b \<le> pc" "pc < eh_end b"
  shows "nested a b \<or> nested b a"
proof -
  from assms(1-3) have "compatible a b" by (simp add: laminar_def)
  then show ?thesis using assms(4-7) by (auto simp: compatible_def)
qed

section \<open>The sweep decides laminarity\<close>

text \<open>The state of the sweep after the indices \<open>ds\<close>, before \<open>order\<close>.\<close>

definition sweep_inv :: "ExceptionHandler list \<Rightarrow> usize list \<Rightarrow> (u32 \<times> usize) list \<Rightarrow> usize list \<Rightarrow> bool" where
  "sweep_inv hs ds open_ranges order \<longleftrightarrow>
     (\<forall>(e, k) \<in> set open_ranges. k \<in> set ds \<and> e = eh_end (hs ! k)) \<and>
     sorted (map fst open_ranges) \<and>
     (\<forall>k \<in> set ds. \<forall>j \<in> set order. (eh_end (hs ! k), k) \<in> set open_ranges \<or> eh_end (hs ! k) \<le> eh_start (hs ! j)) \<and>
     sorted (map (handler_key hs) (ds @ order)) \<and> distinct (ds @ order)"

lemma handler_key_le:
  "handler_key hs k \<le> handler_key hs j \<longleftrightarrow>
     eh_start (hs ! k) < eh_start (hs ! j) \<or> eh_start (hs ! k) = eh_start (hs ! j) \<and> eh_end (hs ! j) \<le> eh_end (hs ! k)"
  by (auto simp: handler_key_def word_less_nat_alt word_le_def word_unat_eq_iff)

lemma sorted_dropWhile_filter:
  "sorted (map fst xs) \<Longrightarrow> dropWhile (\<lambda>(e, _). e \<le> s) xs = filter (\<lambda>(e, _). s < e) xs"
proof (induction xs)
  case (Cons x xs)
  then show ?case by (cases x) (auto simp: filter_id_conv intro!: filter_True [symmetric])
qed simp

lemma sweep_inv_step:
  assumes inv: "sweep_inv hs ds open_ranges (j # order)"
    and opened: "opened = dropWhile (\<lambda>(e, _). e \<le> eh_start (hs ! j)) open_ranges"
    and top: "\<forall>(e, k) \<in> set (take 1 opened). eh_end (hs ! j) \<le> e"
  shows "sweep_inv hs (ds @ [j]) ((eh_end (hs ! j), j) # opened) order"
    and "\<forall>k \<in> set ds. compatible (hs ! k) (hs ! j)"
proof -
  have sorted: "sorted (map fst open_ranges)" using inv by (simp add: sweep_inv_def)
  then have opened': "opened = filter (\<lambda>(e, _). eh_start (hs ! j) < e) open_ranges"
    by (simp add: opened sorted_dropWhile_filter)
  have sorted': "sorted (map fst opened)" using sorted by (simp add: opened' sorted_filter)
  have ends: "eh_end (hs ! j) \<le> e" if "(e, k) \<in> set opened" for e k
    using top sorted' that by (cases opened) (auto simp: image_iff intro: order_trans)
  have starts: "eh_start (hs ! k) \<le> eh_start (hs ! j)" if "k \<in> set ds" for k
    using inv that by (auto simp: sweep_inv_def sorted_append handler_key_le)
  have mono: "eh_start (hs ! j) \<le> eh_start (hs ! i)" if "i \<in> set order" for i
    using inv that by (auto simp: sweep_inv_def sorted_append handler_key_le)
  have cases_k: "(eh_end (hs ! k), k) \<in> set opened \<or> eh_end (hs ! k) \<le> eh_start (hs ! j)" if "k \<in> set ds" for k
    using inv that by (auto simp: sweep_inv_def opened')
  show "\<forall>k \<in> set ds. compatible (hs ! k) (hs ! j)"
    using cases_k ends starts by (fastforce simp: compatible_def nested_def)
  show "sweep_inv hs (ds @ [j]) ((eh_end (hs ! j), j) # opened) order"
    using inv sorted' ends cases_k mono
    by (fastforce simp: sweep_inv_def opened' intro: order_trans)
qed

lemma sweep_overlap:
  assumes inv: "sweep_inv hs ds open_ranges (j # order)"
    and opened: "dropWhile (\<lambda>(e, _). e \<le> eh_start (hs ! j)) open_ranges = (e, k) # rest"
    and past: "e < eh_end (hs ! j)"
  shows "k \<in> set ds" "k \<noteq> j" "\<not> compatible (hs ! k) (hs ! j)"
proof -
  have "(e, k) \<in> set open_ranges" using opened by (metis list.set_intros(1) set_dropWhileD)
  then have k: "k \<in> set ds" and e: "e = eh_end (hs ! k)" using inv by (auto simp: sweep_inv_def)
  then show "k \<in> set ds" "k \<noteq> j" using inv by (auto simp: sweep_inv_def)
  have "eh_start (hs ! j) < e" using hd_dropWhile [of "\<lambda>(e, _). e \<le> eh_start (hs ! j)" open_ranges] opened
    by simp
  moreover have "handler_key hs k \<le> handler_key hs j" using inv k by (auto simp: sweep_inv_def sorted_append)
  ultimately show "\<not> compatible (hs ! k) (hs ! j)"
    using past by (auto simp: handler_key_le compatible_def nested_def e)
qed

lemma handler_sweep_spec:
  assumes "sweep_inv hs ds open_ranges order" and "\<forall>i \<in> set order. i < length hs"
  shows "handler_sweep fi hs open_ranges order = Ok () \<and>
      sorted_wrt (\<lambda>k j. compatible (hs ! k) (hs ! j)) order \<and>
      (\<forall>k \<in> set ds. \<forall>j \<in> set order. compatible (hs ! k) (hs ! j)) \<or>
    (\<exists>k j. k \<in> set ds \<union> set order \<and> j \<in> set order \<and> k \<noteq> j \<and> \<not> compatible (hs ! k) (hs ! j) \<and>
       handler_sweep fi hs open_ranges order =
         Err (function_error fi (HandlersPartiallyOverlap (min k j) (max k j))))"
  using assms
proof (induction order arbitrary: ds open_ranges)
  case (Cons j order)
  let ?opened = "dropWhile (\<lambda>(e, _). e \<le> eh_start (hs ! j)) open_ranges"
  show ?case
  proof (cases "\<forall>(e, k) \<in> set (take 1 ?opened). eh_end (hs ! j) \<le> e")
    case True
    note step = sweep_inv_step [OF Cons.prems(1) refl True]
    have run: "handler_sweep fi hs open_ranges (j # order) = handler_sweep fi hs ((eh_end (hs ! j), j) # ?opened) order"
      using True Cons.prems(2) by (cases ?opened) (auto simp: slice_index_def Let_def simp del: dropWhile_eq_Nil_conv)
    have "\<forall>i \<in> set order. i < length hs" using Cons.prems(2) by simp
    from Cons.IH [OF step(1) this] show ?thesis
    proof (elim disjE exE conjE)
      assume "handler_sweep fi hs ((eh_end (hs ! j), j) # ?opened) order = Ok ()"
        "sorted_wrt (\<lambda>k j. compatible (hs ! k) (hs ! j)) order"
        "\<forall>k \<in> set (ds @ [j]). \<forall>i \<in> set order. compatible (hs ! k) (hs ! i)"
      with run step(2) show ?thesis by auto
    next
      fix k i assume "k \<in> set (ds @ [j]) \<union> set order" "i \<in> set order" "k \<noteq> i"
        "\<not> compatible (hs ! k) (hs ! i)"
        "handler_sweep fi hs ((eh_end (hs ! j), j) # ?opened) order =
           Err (function_error fi (HandlersPartiallyOverlap (min k i) (max k i)))"
      with run show ?thesis by (intro disjI2 exI [of _ k] exI [of _ i]) auto
    qed
  next
    case False
    then obtain e k rest where o: "?opened = (e, k) # rest" and past: "e < eh_end (hs ! j)"
      by (cases ?opened) auto
    note ov = sweep_overlap [OF Cons.prems(1) o past]
    have "handler_sweep fi hs open_ranges (j # order) =
        Err (function_error fi (HandlersPartiallyOverlap (min k j) (max k j)))"
      using o past ov(2) Cons.prems(2) by (auto simp: slice_index_def Let_def min_def max_def)
    with ov show ?thesis by auto
  qed
qed simp

lemma handler_order_props:
  "set (handler_order hs) = {..<length hs}" "distinct (handler_order hs)"
  "sorted (map (handler_key hs) (handler_order hs))"
  by (auto simp: handler_order_def)

lemma sorted_wrt_compatible_all:
  assumes "sorted_wrt (\<lambda>k j. compatible (hs ! k) (hs ! j)) xs" and "i \<in> set xs" "j \<in> set xs"
  shows "compatible (hs ! i) (hs ! j)"
  using assms by (induction xs) (auto simp: compatible_refl compatible_sym)

lemma handler_sweep_laminar:
  "handler_sweep fi hs [] (handler_order hs) = Ok () \<and> laminar hs \<or>
   (\<exists>l r. l < r \<and> r < length hs \<and> \<not> compatible (hs ! l) (hs ! r) \<and>
      handler_sweep fi hs [] (handler_order hs) = Err (function_error fi (HandlersPartiallyOverlap l r)))"
proof -
  have "sweep_inv hs [] [] (handler_order hs)"
    by (simp add: sweep_inv_def handler_order_props)
  from handler_sweep_spec [OF this, of fi]
  consider (ok) "handler_sweep fi hs [] (handler_order hs) = Ok ()"
      "sorted_wrt (\<lambda>k j. compatible (hs ! k) (hs ! j)) (handler_order hs)"
    | (err) k j where "k < length hs" "j < length hs" "k \<noteq> j" "\<not> compatible (hs ! k) (hs ! j)"
      "handler_sweep fi hs [] (handler_order hs) =
         Err (function_error fi (HandlersPartiallyOverlap (min k j) (max k j)))"
    by (auto simp: handler_order_props)
  then show ?thesis
  proof cases
    case ok
    from sorted_wrt_compatible_all [OF ok(2)] have "laminar hs"
      by (fastforce simp: laminar_def in_set_conv_nth handler_order_props)
    with ok(1) show ?thesis by simp
  next
    case err
    then have "min k j < max k j" "max k j < length hs" "\<not> compatible (hs ! min k j) (hs ! max k j)"
      by (auto simp: min_def max_def compatible_sym)
    with err(5) show ?thesis by blast
  qed
qed

lemma verify_handler_spec:
  "verify_handler fi f (i, h) = Ok () \<longleftrightarrow> handler_in_bounds f h"
  "verify_handler fi f (i, h) \<noteq> Panic"
  by (auto simp: verify_handler_def handler_in_bounds_def not_le not_less)

lemma verify_handlers_Ok_iff:
  "verify_handlers fi f = Ok () \<longleftrightarrow>
     (\<forall>h \<in> set (fn_handlers f). handler_in_bounds f h) \<and> laminar (fn_handlers f)"
proof -
  have "try_all (map (verify_handler fi f) (enumerate 0 (fn_handlers f))) = Ok () \<longleftrightarrow>
      (\<forall>h \<in> set (fn_handlers f). handler_in_bounds f h)"
    by (rule try_all_enumerate) (rule verify_handler_spec)
  then show ?thesis
    using handler_sweep_laminar [of fi "fn_handlers f"]
    by (auto simp: verify_handlers_def bind_result_iffs laminar_def)
qed

lemma verify_handlers_no_Panic: "verify_handlers fi f \<noteq> Panic"
proof -
  have "try_all (map (verify_handler fi f) (enumerate 0 (fn_handlers f))) \<noteq> Panic"
    by (rule try_all_map_no_Panic) (use verify_handler_spec(2) in auto)
  then show ?thesis
    using handler_sweep_laminar [of fi "fn_handlers f"]
    by (auto simp: verify_handlers_def bind_result_iffs)
qed

end
