(* ===== verification/Instruction_Checks.thy ===== *)
theory Instruction_Checks
  imports Verify_Errors
begin

text \<open>
  The per-instruction checks of the module verifier: \<open>verify_instruction\<close> with its operand checks
  (\<^verbatim>\<open>crates/bamts-bytecode/src/lib.rs\<close>) and the checks of the extension opcodes, which are a
  file of their own in the source (\<^verbatim>\<open>verifier.rs\<close>) with their own error type.
\<close>

section \<open>Extension opcodes (verifier.rs)\<close>

datatype Kind =
    Kind_RegisterOutOfBounds Register u32
  | Kind_JumpOutOfBounds u32 usize
  | Kind_ConstantOutOfBounds ConstantId usize
  | Kind_StringConstantExpected ConstantId
  | Kind_AliasedCopyDataProperties Register

record ExtError =
  xe_function :: "FunctionId option"
  xe_instruction :: "Pc option"
  xe_kind :: Kind

definition ext_instruction_error :: "usize \<Rightarrow> usize \<Rightarrow> Kind \<Rightarrow> ExtError" where
  "ext_instruction_error fi pc kind =
     \<lparr>xe_function = Some (as_u32 fi), xe_instruction = Some (as_u32 pc), xe_kind = kind\<rparr>"

definition ext_check_register :: "usize \<Rightarrow> usize \<Rightarrow> u32 \<Rightarrow> Register \<Rightarrow> (unit, ExtError) result" where
  "ext_check_register fi pc register_count register =
     (if register \<ge> register_count
      then Err (ext_instruction_error fi pc (Kind_RegisterOutOfBounds register register_count))
      else Ok ())"

definition ext_check_string_constant ::
    "usize \<Rightarrow> usize \<Rightarrow> Constant list \<Rightarrow> ConstantId \<Rightarrow> (unit, ExtError) result" where
  "ext_check_string_constant fi pc pool constant =
     (if unat constant \<ge> length pool
      then Err (ext_instruction_error fi pc (Kind_ConstantOutOfBounds constant (length pool)))
      else bind_result (slice_index pool (unat constant)) (\<lambda>c.
        if is_string_constant c then Ok ()
        else Err (ext_instruction_error fi pc (Kind_StringConstantExpected constant))))"

definition ext_verify_operands ::
    "usize \<Rightarrow> usize \<Rightarrow> ExtInstruction \<Rightarrow> u32 \<Rightarrow> Constant list \<Rightarrow> (unit, ExtError) result" where
  "ext_verify_operands fi pc e n pool =
     (let reg = ext_check_register fi pc n
      in case e of
        ExtGetSuper dst home receiver key \<Rightarrow> try_all [reg dst, reg home, reg receiver, reg key]
      | ExtSetSuper home receiver key value \<Rightarrow> try_all [reg home, reg receiver, reg key, reg value]
      | ExtImportAttributes dst specifier attributes \<Rightarrow>
          try_all [reg dst, ext_check_string_constant fi pc pool specifier, reg attributes]
      | ExtImportDynamicAttributes dst specifier attributes \<Rightarrow> try_all [reg dst, reg specifier, reg attributes]
      | ExtCopyDataProperties target source excluded \<Rightarrow>
          try_all [reg target, reg source, reg excluded,
            if target = source \<or> target = excluded
            then Err (ext_instruction_error fi pc (Kind_AliasedCopyDataProperties target)) else Ok ()]
      | ExtGetTemplateObject dst cooked raw \<Rightarrow> try_all [reg dst, reg cooked, reg raw])"

definition verify_extension ::
    "usize \<Rightarrow> usize \<Rightarrow> ExtInstruction \<Rightarrow> u32 \<Rightarrow> Constant list \<Rightarrow> usize \<Rightarrow> (unit, ExtError) result" where
  "verify_extension fi pc e n pool instruction_count =
     bind_result (ext_verify_operands fi pc e n pool) (\<lambda>_.
       try_all (map (\<lambda>successor. if unat successor \<ge> instruction_count
           then Err (ext_instruction_error fi pc (Kind_JumpOutOfBounds successor instruction_count))
           else Ok ())
         (ext_visit_successors (as_u32 pc) e)))"

text \<open>The mapping of an extension error into the root error type.\<close>

primrec lift_kind :: "Kind \<Rightarrow> VerifyErrorKind" where
  "lift_kind (Kind_RegisterOutOfBounds register register_count) = RegisterOutOfBounds register register_count"
| "lift_kind (Kind_JumpOutOfBounds target instruction_count) = JumpOutOfBounds target instruction_count"
| "lift_kind (Kind_ConstantOutOfBounds constant constant_count) = ConstantOutOfBounds constant constant_count"
| "lift_kind (Kind_StringConstantExpected constant) = StringConstantExpected constant"
| "lift_kind (Kind_AliasedCopyDataProperties register) = AliasedCopyDataProperties register"

definition lift_ext_error :: "ExtError \<Rightarrow> VerifyError" where
  "lift_ext_error e =
     \<lparr>ve_function = xe_function e, ve_instruction = xe_instruction e, ve_kind = lift_kind (xe_kind e)\<rparr>"

section \<open>The instruction checks (lib.rs)\<close>

definition verify_target :: "usize \<Rightarrow> usize \<Rightarrow> Pc \<Rightarrow> usize \<Rightarrow> (unit, VerifyError) result" where
  "verify_target fi pc target instruction_count =
     (if unat target \<ge> instruction_count
      then Err (instruction_error fi pc (JumpOutOfBounds target instruction_count)) else Ok ())"

definition check_register :: "usize \<Rightarrow> usize \<Rightarrow> Function \<Rightarrow> Register \<Rightarrow> (unit, VerifyError) result" where
  "check_register fi pc f register =
     (if register \<ge> fn_register_count f
      then Err (instruction_error fi pc (RegisterOutOfBounds register (fn_register_count f))) else Ok ())"

definition check_constant :: "Module \<Rightarrow> usize \<Rightarrow> usize \<Rightarrow> ConstantId \<Rightarrow> (unit, VerifyError) result" where
  "check_constant m fi pc constant =
     (if unat constant \<ge> length (m_constants m)
      then Err (instruction_error fi pc (ConstantOutOfBounds constant (length (m_constants m)))) else Ok ())"

definition check_string_constant :: "Module \<Rightarrow> usize \<Rightarrow> usize \<Rightarrow> ConstantId \<Rightarrow> (unit, VerifyError) result" where
  "check_string_constant m fi pc constant =
     bind_result (check_constant m fi pc constant) (\<lambda>_.
     bind_result (slice_index (m_constants m) (unat constant)) (\<lambda>c.
       if is_string_constant c then Ok ()
       else Err (instruction_error fi pc (StringConstantExpected constant))))"

text \<open>The \<open>match instruction\<close> of \<open>verify_instruction\<close>, one equation per opcode.\<close>

primrec verify_operands ::
    "Module \<Rightarrow> usize \<Rightarrow> Function \<Rightarrow> usize \<Rightarrow> Instruction \<Rightarrow> (unit, VerifyError) result" where
  "verify_operands m fi f pc (LoadConst dst constant) =
     try_all [check_register fi pc f dst, check_constant m fi pc constant]"
| "verify_operands m fi f pc (Move dst src) =
     try_all [check_register fi pc f dst, check_register fi pc f src]"
| "verify_operands m fi f pc (Unary dst _ operand) =
     try_all [check_register fi pc f dst, check_register fi pc f operand]"
| "verify_operands m fi f pc (Binary dst _ left right) =
     try_all [check_register fi pc f dst, check_register fi pc f left, check_register fi pc f right]"
| "verify_operands m fi f pc (CreateObject dst) =
     try_all [check_register fi pc f dst]"
| "verify_operands m fi f pc (ToObject dst src) =
     try_all [check_register fi pc f dst, check_register fi pc f src]"
| "verify_operands m fi f pc (LoadImportMeta dst) =
     try_all [check_register fi pc f dst]"
| "verify_operands m fi f pc (CreateArray dst) =
     try_all [check_register fi pc f dst]"
| "verify_operands m fi f pc (CreateCell dst) =
     try_all [check_register fi pc f dst]"
| "verify_operands m fi f pc (CreateClosure dst function captures) =
     try_all [check_register fi pc f dst,
        check_register fi pc f captures,
        ensure (unat function < length (m_functions m)) (instruction_error fi pc (FunctionReferenceOutOfBounds function (length (m_functions m))))]"
| "verify_operands m fi f pc (GetProperty dst object key) =
     try_all [check_register fi pc f dst, check_register fi pc f object, check_register fi pc f key]"
| "verify_operands m fi f pc (SetProperty object key value) =
     try_all [check_register fi pc f object, check_register fi pc f key, check_register fi pc f value]"
| "verify_operands m fi f pc (DeleteProperty dst object key) =
     try_all [check_register fi pc f dst, check_register fi pc f object, check_register fi pc f key]"
| "verify_operands m fi f pc (DefineAccessor object key accessor _) =
     try_all [check_register fi pc f object, check_register fi pc f key, check_register fi pc f accessor]"
| "verify_operands m fi f pc (DefineDataProperty object key value) =
     try_all [check_register fi pc f object, check_register fi pc f key, check_register fi pc f value]"
| "verify_operands m fi f pc (LoadOwnDescriptorSlot dst object key _) =
     try_all [check_register fi pc f dst, check_register fi pc f object, check_register fi pc f key]"
| "verify_operands m fi f pc (DefineOwnDescriptorSlot object key src _) =
     try_all [check_register fi pc f object, check_register fi pc f key, check_register fi pc f src]"
| "verify_operands m fi f pc (WithHasBinding dst object key) =
     try_all [check_register fi pc f dst, check_register fi pc f object, check_register fi pc f key]"
| "verify_operands m fi f pc (Call dst callee this_value arguments) =
     try_all [check_register fi pc f dst,
        check_register fi pc f callee,
        check_register fi pc f this_value,
        check_register fi pc f arguments]"
| "verify_operands m fi f pc (Construct dst callee arguments) =
     try_all [check_register fi pc f dst, check_register fi pc f callee, check_register fi pc f arguments]"
| "verify_operands m fi f pc (ConstructWithNewTarget dst callee new_target arguments) =
     try_all [check_register fi pc f dst,
        check_register fi pc f callee,
        check_register fi pc f new_target,
        check_register fi pc f arguments]"
| "verify_operands m fi f pc (LoadGlobal dst name) =
     try_all [check_register fi pc f dst, check_string_constant m fi pc name]"
| "verify_operands m fi f pc (StoreGlobal name value) =
     try_all [check_string_constant m fi pc name, check_register fi pc f value]"
| "verify_operands m fi f pc (TypeOfGlobal dst name) =
     try_all [check_register fi pc f dst, check_string_constant m fi pc name]"
| "verify_operands m fi f pc (LoadThis dst) =
     try_all [check_register fi pc f dst]"
| "verify_operands m fi f pc (LoadArguments dst) =
     try_all [check_register fi pc f dst]"
| "verify_operands m fi f pc (LoadNewTarget dst) =
     try_all [check_register fi pc f dst]"
| "verify_operands m fi f pc (ArrayPush array value) =
     try_all [check_register fi pc f array, check_register fi pc f value]"
| "verify_operands m fi f pc (ArrayExtend array iterable) =
     try_all [check_register fi pc f array, check_register fi pc f iterable]"
| "verify_operands m fi f pc (ObjectSpread target source) =
     try_all [check_register fi pc f target, check_register fi pc f source]"
| "verify_operands m fi f pc (SetPrototype object prototype) =
     try_all [check_register fi pc f object, check_register fi pc f prototype]"
| "verify_operands m fi f pc (CreatePrivateName dst description) =
     try_all [check_register fi pc f dst, check_string_constant m fi pc description]"
| "verify_operands m fi f pc (CreateRegExp dst pattern flags) =
     try_all [check_register fi pc f dst,
        check_string_constant m fi pc pattern,
        check_string_constant m fi pc flags]"
| "verify_operands m fi f pc (GetIterator dst src _) =
     try_all [check_register fi pc f dst, check_register fi pc f src]"
| "verify_operands m fi f pc (IteratorNext done value iterator) =
     try_all [check_register fi pc f done,
        check_register fi pc f value,
        check_register fi pc f iterator,
        ensure (done \<noteq> value) (instruction_error fi pc (AliasedIteratorNextOutputs done))]"
| "verify_operands m fi f pc (IteratorStep dst iterator) =
     try_all [check_register fi pc f dst, check_register fi pc f iterator]"
| "verify_operands m fi f pc (IteratorResult done value result) =
     try_all [check_register fi pc f done,
        check_register fi pc f value,
        check_register fi pc f result,
        ensure (done \<noteq> value) (instruction_error fi pc (AliasedIteratorResultOutputs done))]"
| "verify_operands m fi f pc (IteratorClose result called iterator _) =
     try_all [check_register fi pc f result,
        check_register fi pc f called,
        check_register fi pc f iterator,
        ensure (result \<noteq> called) (instruction_error fi pc (AliasedIteratorCloseOutputs result))]"
| "verify_operands m fi f pc (RequireCloseResult result called) =
     try_all [check_register fi pc f result, check_register fi pc f called]"
| "verify_operands m fi f pc (DisposeCapture method kind src _) =
     try_all [check_register fi pc f method,
        check_register fi pc f kind,
        check_register fi pc f src,
        ensure (method \<noteq> kind) (instruction_error fi pc (AliasedDisposeCaptureOutputs method))]"
| "verify_operands m fi f pc (SuppressError dst error suppressed) =
     try_all [check_register fi pc f dst, check_register fi pc f error, check_register fi pc f suppressed]"
| "verify_operands m fi f pc (Jump target) =
     try_all [verify_target fi pc target (length (fn_code f))]"
| "verify_operands m fi f pc (JumpIfTrue condition target) =
     try_all [check_register fi pc f condition, verify_target fi pc target (length (fn_code f))]"
| "verify_operands m fi f pc (JumpIfFalse condition target) =
     try_all [check_register fi pc f condition, verify_target fi pc target (length (fn_code f))]"
| "verify_operands m fi f pc (Return value) =
     try_all [check_register fi pc f value]"
| "verify_operands m fi f pc (Throw value) =
     try_all [check_register fi pc f value]"
| "verify_operands m fi f pc (Suspend dst src resume mode) =
     try_all [check_register fi pc f dst,
        check_register fi pc f src,
        check_register fi pc f mode,
        verify_target fi pc resume (length (fn_code f))]"
| "verify_operands m fi f pc (Await dst src resume) =
     try_all [check_register fi pc f dst,
        check_register fi pc f src,
        verify_target fi pc resume (length (fn_code f))]"
| "verify_operands m fi f pc (Import dst specifier) =
     try_all [check_register fi pc f dst, check_string_constant m fi pc specifier]"
| "verify_operands m fi f pc (ImportDynamic dst specifier) =
     try_all [check_register fi pc f dst, check_register fi pc f specifier]"
| "verify_operands m fi f pc (Export name src) =
     try_all [check_string_constant m fi pc name, check_register fi pc f src]"
| "verify_operands m fi f pc (GetSuper _ _ _ _) =
     try_all []"
| "verify_operands m fi f pc (SetSuper _ _ _ _) =
     try_all []"
| "verify_operands m fi f pc (ImportAttributes _ _ _) =
     try_all []"
| "verify_operands m fi f pc (ImportDynamicAttributes _ _ _) =
     try_all []"
| "verify_operands m fi f pc (CopyDataProperties _ _ _) =
     try_all []"
| "verify_operands m fi f pc (GetTemplateObject _ _ _) =
     try_all []"
| "verify_operands m fi f pc Halt =
     try_all []"

definition verify_instruction ::
    "Module \<Rightarrow> usize \<Rightarrow> Function \<Rightarrow> usize \<Rightarrow> Instruction \<Rightarrow> (unit, VerifyError) result" where
  "verify_instruction m fi f pc ins =
     bind_result (case extension ins of
         Some e \<Rightarrow> map_err lift_ext_error
           (verify_extension fi pc e (fn_register_count f) (m_constants m) (length (fn_code f)))
       | None \<Rightarrow> Ok ()) (\<lambda>_.
     bind_result (verify_operands m fi f pc ins) (\<lambda>_.
       try_all (map (\<lambda>successor. verify_target fi pc successor (length (fn_code f)))
         (visit_successors (as_u32 pc) ins))))"

section \<open>What an accepted instruction satisfies\<close>

text \<open>The pool references of an instruction, and its pairs of operands that must differ.\<close>

definition string_operands :: "Instruction \<Rightarrow> ConstantId list" where
  "string_operands ins = (case ins of
      LoadGlobal _ name \<Rightarrow> [name] | TypeOfGlobal _ name \<Rightarrow> [name] | StoreGlobal name _ \<Rightarrow> [name]
    | CreatePrivateName _ description \<Rightarrow> [description] | CreateRegExp _ pattern flags \<Rightarrow> [pattern, flags]
    | Import _ specifier \<Rightarrow> [specifier] | Export name _ \<Rightarrow> [name]
    | ImportAttributes _ specifier _ \<Rightarrow> [specifier] | _ \<Rightarrow> [])"

definition constant_operands :: "Instruction \<Rightarrow> ConstantId list" where
  "constant_operands ins = (case ins of LoadConst _ constant \<Rightarrow> [constant] | _ \<Rightarrow> string_operands ins)"

definition function_operands :: "Instruction \<Rightarrow> FunctionId list" where
  "function_operands ins = (case ins of CreateClosure _ reference _ \<Rightarrow> [reference] | _ \<Rightarrow> [])"

definition distinct_operands :: "Instruction \<Rightarrow> (Register \<times> Register) list" where
  "distinct_operands ins = (case ins of
      IteratorNext a b _ \<Rightarrow> [(a, b)] | IteratorResult a b _ \<Rightarrow> [(a, b)]
    | IteratorClose a b _ _ \<Rightarrow> [(a, b)] | DisposeCapture a b _ _ \<Rightarrow> [(a, b)]
    | CopyDataProperties target source excluded \<Rightarrow> [(target, source), (target, excluded)]
    | _ \<Rightarrow> [])"

definition instruction_ok :: "Module \<Rightarrow> Function \<Rightarrow> nat \<Rightarrow> Instruction \<Rightarrow> bool" where
  "instruction_ok m f pc ins \<longleftrightarrow>
     (\<forall>r \<in> set (visit_reads ins). r < fn_register_count f) \<and>
     (\<forall>r \<in> set (visit_writes ins). r < fn_register_count f) \<and>
     (\<forall>c \<in> set (constant_operands ins). unat c < length (m_constants m)) \<and>
     (\<forall>c \<in> set (string_operands ins). is_string_constant (m_constants m ! unat c)) \<and>
     (\<forall>g \<in> set (function_operands ins). unat g < length (m_functions m)) \<and>
     (\<forall>(a, b) \<in> set (distinct_operands ins). a \<noteq> b) \<and>
     (\<forall>q \<in> set (visit_successors (as_u32 pc) ins). unat q < length (fn_code f))"

lemma check_iffs [simp]:
  "check_register fi pc f r = Ok u \<longleftrightarrow> r < fn_register_count f"
  "check_constant m fi pc c = Ok u \<longleftrightarrow> unat c < length (m_constants m)"
  "check_string_constant m fi pc c = Ok u \<longleftrightarrow>
     unat c < length (m_constants m) \<and> is_string_constant (m_constants m ! unat c)"
  "verify_target fi pc t k = Ok u \<longleftrightarrow> unat t < k"
  "ext_check_register fi pc n r = Ok u \<longleftrightarrow> r < n"
  "ext_check_string_constant fi pc pool c = Ok u \<longleftrightarrow> unat c < length pool \<and> is_string_constant (pool ! unat c)"
  by (auto simp: check_register_def check_constant_def check_string_constant_def verify_target_def
      ext_check_register_def ext_check_string_constant_def bind_result_iffs)

lemma check_no_Panic [simp]:
  "check_register fi pc f r \<noteq> Panic"
  "check_constant m fi pc c \<noteq> Panic"
  "check_string_constant m fi pc c \<noteq> Panic"
  "verify_target fi pc t k \<noteq> Panic"
  "ext_check_register fi pc n r \<noteq> Panic"
  "ext_check_string_constant fi pc pool c \<noteq> Panic"
  by (auto simp: check_register_def check_constant_def check_string_constant_def verify_target_def
      ext_check_register_def ext_check_string_constant_def bind_result_iffs)

lemma verify_extension_Ok_iff:
  "verify_extension fi pc e (fn_register_count f) (m_constants m) (length (fn_code f)) = Ok () \<longleftrightarrow>
   instruction_ok m f pc (from_extension e)"
  by (cases e)
    (auto simp: verify_extension_def ext_verify_operands_def Let_def bind_result_iffs try_all_Ok_iff
      instruction_ok_def constant_operands_def string_operands_def function_operands_def
      distinct_operands_def ext_visit_successors_def split: if_splits)

lemma verify_extension_no_Panic: "verify_extension fi pc e n pool k \<noteq> Panic"
  by (cases e) (auto simp: verify_extension_def ext_verify_operands_def Let_def bind_result_iffs
      dest!: try_all_Panic split: if_splits)

lemma verify_operands_Ok:
  assumes "extension ins = None"
  shows "verify_operands m fi f pc ins = Ok () \<and>
      (\<forall>q \<in> set (visit_successors (as_u32 pc) ins). unat q < length (fn_code f)) \<longleftrightarrow> instruction_ok m f pc ins"
  using assms
  by (cases ins)
    (simp_all add: instruction_ok_def bind_result_iffs extension_def constant_operands_def
      string_operands_def function_operands_def distinct_operands_def conj_ac)

lemma verify_operands_no_Panic: "verify_operands m fi f pc ins \<noteq> Panic"
  by (cases ins) (simp_all add: bind_result_iffs)

lemma verify_operands_extension: "verify_operands m fi f pc (from_extension e) = Ok ()"
  by (cases e) simp_all

lemma verify_instruction_Ok_iff:
  "verify_instruction m fi f pc ins = Ok () \<longleftrightarrow> instruction_ok m f pc ins"
proof (cases "extension ins")
  case None
  with verify_operands_Ok [OF None, of m fi f pc] show ?thesis
    by (simp add: verify_instruction_def bind_result_iffs try_all_Ok_iff)
next
  case (Some e)
  then have ins: "ins = from_extension e" by (rule extension_SomeD)
  have "instruction_ok m f pc ins \<Longrightarrow> \<forall>q \<in> set (visit_successors (as_u32 pc) ins). unat q < length (fn_code f)"
    by (simp add: instruction_ok_def)
  with Some ins show ?thesis
    by (auto simp: verify_instruction_def bind_result_iffs try_all_Ok_iff verify_operands_extension
        verify_extension_Ok_iff)
qed

lemma verify_instruction_no_Panic: "verify_instruction m fi f pc ins \<noteq> Panic"
  using verify_extension_no_Panic verify_operands_no_Panic
  by (auto simp: verify_instruction_def bind_result_iffs try_all_map_no_Panic split: option.splits)

end
