(* ===== verification/Module_Decoder.thy ===== *)
theory Module_Decoder
  imports Bytecode_Module
begin

text \<open>
  The strict decoder of \<^verbatim>\<open>lib.rs\<close> (\<open>decode\<close>, \<open>Decoder\<close>) and the operand decoder of the
  extension opcodes in \<^verbatim>\<open>isa.rs\<close> (\<open>decode_from_tag\<close>, \<open>Cursor\<close>), as readers over explicit
  state: a reader takes the decoder and returns a value with the advanced decoder, or the first
  error with its offset.
\<close>

section \<open>Limits, errors, decoder state\<close>

record DecodeLimits =
  max_bytes :: usize
  max_constants :: u32
  max_functions :: u32
  max_capture_count :: u32
  max_parameter_count :: u32
  max_register_count :: u32
  max_instructions_per_function :: u32
  max_total_instructions :: nat
  max_handlers_per_function :: u32
  max_string_units :: u32
  max_bigint_bytes :: u32

definition DecodeLimits_default :: DecodeLimits where
  "DecodeLimits_default =
    \<lparr>max_bytes = 16 * 1024 * 1024,
     max_constants = MAX_CONSTANTS,
     max_functions = MAX_FUNCTIONS,
     max_capture_count = MAX_REGISTERS,
     max_parameter_count = MAX_REGISTERS,
     max_register_count = MAX_REGISTERS,
     max_instructions_per_function = MAX_INSTRUCTIONS,
     max_total_instructions = 2 ^ 24,
     max_handlers_per_function = MAX_HANDLERS,
     max_string_units = 1048576,
     max_bigint_bytes = MAX_BIGINT_BYTES\<rparr>"

datatype DecodeErrorKind =
    InputLimitExceeded usize usize
  | UnexpectedEof
  | BadMagic u8 u8
  | UnsupportedVersion u8
  | NonCanonicalInteger
  | IntegerOverflow
  | InvalidConstantTag u8
  | NonCanonicalNumber u64
  | InvalidUtf8
  | InvalidBigInt
  | InvalidFunctionFlags u8
  | InvalidUnaryOp u8
  | InvalidBinaryOp u8
  | InvalidIteratorKind u8
  | InvalidIteratorCloseMode u8
  | InvalidDisposeHint u8
  | InvalidAccessorKind u8
  | InvalidDescriptorSlot u8
  | InvalidOpcode u8
  | LimitExceeded string nat nat
  | TrailingBytes usize

record DecodeError =
  err_offset :: usize
  err_kind :: DecodeErrorKind

record Decoder =
  dec_bytes :: "u8 list"
  dec_offset :: usize
  dec_limits :: DecodeLimits
  dec_total_instructions :: nat

section \<open>Readers\<close>

text \<open>
  A reader over a state \<open>'s\<close>: the decoder itself, or the bare offset of the extension cursor. The
  combinators do not fix the error type, since the program decoder has its own.
\<close>

type_synonym ('s, 'a, 'e) fallible = "'s \<Rightarrow> ('a \<times> 's, 'e) result"
type_synonym ('s, 'a) reader = "('s, 'a, DecodeError) fallible"

definition rreturn :: "'a \<Rightarrow> ('s, 'a, 'e) fallible" where
  "rreturn x s = Ok (x, s)"

definition rbind :: "('s, 'a, 'e) fallible \<Rightarrow> ('a \<Rightarrow> ('s, 'b, 'e) fallible) \<Rightarrow> ('s, 'b, 'e) fallible" where
  "rbind m k s = bind_result (m s) (\<lambda>(x, s'). k x s')"

definition rerror :: "usize \<Rightarrow> DecodeErrorKind \<Rightarrow> ('s, 'a) reader" where
  "rerror at kind s = Err \<lparr>err_offset = at, err_kind = kind\<rparr>"

text \<open>A \<open>for _ in 0..n\<close> loop that pushes one decoded value per round.\<close>

fun rtimes :: "nat \<Rightarrow> ('s, 'a, 'e) fallible \<Rightarrow> ('s, 'a list, 'e) fallible" where
  "rtimes 0 m = rreturn []"
| "rtimes (Suc n) m = rbind m (\<lambda>x. rbind (rtimes n m) (\<lambda>xs. rreturn (x # xs)))"

text \<open>The primitive operations of \<open>Decoder\<close>.\<close>

definition position :: "(Decoder, usize) reader" where
  "position d = Ok (dec_offset d, d)"

definition read_limits :: "(Decoder, DecodeLimits) reader" where
  "read_limits d = Ok (dec_limits d, d)"

definition read_byte :: "(Decoder, u8) reader" where
  "read_byte d =
     (if dec_offset d < length (dec_bytes d)
      then Ok (dec_bytes d ! dec_offset d, d\<lparr>dec_offset := dec_offset d + 1\<rparr>)
      else Err \<lparr>err_offset = dec_offset d, err_kind = UnexpectedEof\<rparr>)"

definition read_slice :: "usize \<Rightarrow> (Decoder, u8 list) reader" where
  "read_slice n d =
     (case usize_checked_add (dec_offset d) n of
        None \<Rightarrow> Err \<lparr>err_offset = dec_offset d, err_kind = UnexpectedEof\<rparr>
      | Some e \<Rightarrow>
          if e \<le> length (dec_bytes d)
          then Ok (take n (drop (dec_offset d) (dec_bytes d)), d\<lparr>dec_offset := e\<rparr>)
          else Err \<lparr>err_offset = dec_offset d, err_kind = UnexpectedEof\<rparr>)"

definition leb128 :: "(Decoder, u32) reader" where
  "leb128 d =
     (case read_leb128 (dec_bytes d) (dec_offset d) of
        (Ok v, offset) \<Rightarrow> Ok (v, d\<lparr>dec_offset := offset\<rparr>)
      | (Err Leb_UnexpectedEof, offset) \<Rightarrow> Err \<lparr>err_offset = offset, err_kind = UnexpectedEof\<rparr>
      | (Err Leb_IntegerOverflow, _) \<Rightarrow>
          Err \<lparr>err_offset = dec_offset d, err_kind = IntegerOverflow\<rparr>
      | (Err Leb_NonCanonicalInteger, _) \<Rightarrow>
          Err \<lparr>err_offset = dec_offset d, err_kind = NonCanonicalInteger\<rparr>
      | (Panic, _) \<Rightarrow> Panic)"

definition bounded :: "string \<Rightarrow> u32 \<Rightarrow> (Decoder, u32) reader" where
  "bounded field limit =
     rbind position (\<lambda>at. rbind leb128 (\<lambda>actual.
       if actual > limit then rerror at (LimitExceeded field (unat limit) (unat actual))
       else rreturn actual))"

text \<open>
  The seven readers of one-byte enumeration tags (\<open>unary_op\<close>, \<open>binary_op\<close>, \<open>iterator_kind\<close>,
  \<open>iterator_close_mode\<close>, \<open>dispose_hint\<close>, \<open>accessor_kind\<close>, \<open>descriptor_slot\<close>) have one shape.
\<close>

definition read_tag :: "(u8 \<Rightarrow> 'a option) \<Rightarrow> (u8 \<Rightarrow> DecodeErrorKind) \<Rightarrow> (Decoder, 'a) reader" where
  "read_tag from_u8 invalid =
     rbind position (\<lambda>at. rbind read_byte (\<lambda>tag.
       case from_u8 tag of Some x \<Rightarrow> rreturn x | None \<Rightarrow> rerror at (invalid tag)))"

definition unary_op :: "(Decoder, UnaryOp) reader" where
  "unary_op = read_tag unary_op_from_u8 InvalidUnaryOp"
definition binary_op :: "(Decoder, BinaryOp) reader" where
  "binary_op = read_tag binary_op_from_u8 InvalidBinaryOp"
definition iterator_kind :: "(Decoder, IteratorKind) reader" where
  "iterator_kind = read_tag iterator_kind_from_u8 InvalidIteratorKind"
definition iterator_close_mode :: "(Decoder, IteratorCloseMode) reader" where
  "iterator_close_mode = read_tag iterator_close_mode_from_u8 InvalidIteratorCloseMode"
definition dispose_hint :: "(Decoder, DisposeHint) reader" where
  "dispose_hint = read_tag dispose_hint_from_u8 InvalidDisposeHint"
definition accessor_kind :: "(Decoder, AccessorKind) reader" where
  "accessor_kind = read_tag accessor_kind_from_u8 InvalidAccessorKind"
definition descriptor_slot :: "(Decoder, DescriptorSlot) reader" where
  "descriptor_slot = read_tag descriptor_slot_from_u8 InvalidDescriptorSlot"

section \<open>The extension cursor\<close>

text \<open>
  \<open>Cursor::leb128\<close> of \<^verbatim>\<open>isa.rs\<close>, a second copy of the reader that builds its own errors.
\<close>

function cursor_leb128_loop ::
  "u8 list \<Rightarrow> usize \<Rightarrow> u32 \<Rightarrow> nat \<Rightarrow> usize \<Rightarrow> (u32 \<times> usize, DecodeError) result" where
  "cursor_leb128_loop bytes start res shift offset =
     (if \<not> offset < length bytes then Err \<lparr>err_offset = offset, err_kind = UnexpectedEof\<rparr>
      else let byte = bytes ! offset; offset' = offset + 1
      in if shift = 28 then
           (if byte AND 0x80 \<noteq> 0 \<or> byte > 0x0f
            then Err \<lparr>err_offset = start, err_kind = IntegerOverflow\<rparr>
            else if byte = 0 then Err \<lparr>err_offset = start, err_kind = NonCanonicalInteger\<rparr>
            else Ok (res OR push_bit 28 (ucast byte), offset'))
         else let res' = res OR push_bit shift (ucast (byte AND 0x7f))
         in if byte AND 0x80 = 0 then
              (if byte = 0 \<and> offset' - start > 1
               then Err \<lparr>err_offset = start, err_kind = NonCanonicalInteger\<rparr>
               else Ok (res', offset'))
            else cursor_leb128_loop bytes start res' (shift + 7) offset')"
  by pat_completeness auto
termination
  by (relation "measure (\<lambda>(bytes, start, res, shift, offset). length bytes - offset)") auto

declare cursor_leb128_loop.simps [simp del]

definition cursor_leb128 :: "u8 list \<Rightarrow> (usize, u32) reader" where
  "cursor_leb128 bytes offset = cursor_leb128_loop bytes offset 0 0 offset"

definition FIRST_EXTENSION_TAG :: u8 where "FIRST_EXTENSION_TAG = 52"
definition EXTENSION_TAG_END :: u8 where "EXTENSION_TAG_END = 58"

text \<open>Operands of an extension opcode whose tag byte has been consumed.\<close>

definition decode_from_tag :: "u8 \<Rightarrow> u8 list \<Rightarrow> (usize, ExtInstruction) reader" where
  "decode_from_tag tag bytes offset =
     (let tag_at = offset - 1; leb = cursor_leb128 bytes in
      (if tag = 52 then
         rbind leb (\<lambda>dst. rbind leb (\<lambda>home. rbind leb (\<lambda>receiver. rbind
         leb (\<lambda>key. rreturn (ExtGetSuper dst home receiver key)))))
       else if tag = 53 then
         rbind leb (\<lambda>home. rbind leb (\<lambda>receiver. rbind leb (\<lambda>key. rbind
         leb (\<lambda>value. rreturn (ExtSetSuper home receiver key value)))))
       else if tag = 54 then
         rbind leb (\<lambda>dst. rbind leb (\<lambda>specifier. rbind leb (\<lambda>attributes.
         rreturn (ExtImportAttributes dst specifier attributes))))
       else if tag = 55 then
         rbind leb (\<lambda>dst. rbind leb (\<lambda>specifier. rbind leb (\<lambda>attributes.
         rreturn (ExtImportDynamicAttributes dst specifier attributes))))
       else if tag = 56 then
         rbind leb (\<lambda>target. rbind leb (\<lambda>source. rbind leb (\<lambda>excluded.
         rreturn (ExtCopyDataProperties target source excluded))))
       else if tag = 57 then
         rbind leb (\<lambda>dst. rbind leb (\<lambda>cooked. rbind leb (\<lambda>raw. rreturn
         (ExtGetTemplateObject dst cooked raw))))
       else rerror tag_at (InvalidOpcode tag)) offset)"

section \<open>Instructions\<close>

text \<open>
  \<open>Decoder::instruction\<close>: the opcode byte selects the operand readers; tags 52 to 57 go to the
  extension decoder, which reads from the same bytes at the current offset.
\<close>

definition extension_operands :: "u8 \<Rightarrow> (Decoder, Instruction) reader" where
  "extension_operands opcode d =
     bind_result (decode_from_tag opcode (dec_bytes d) (dec_offset d))
       (\<lambda>(e, offset). Ok (from_extension e, d\<lparr>dec_offset := offset\<rparr>))"

definition decode_instruction :: "(Decoder, Instruction) reader" where
  "decode_instruction =
     rbind position (\<lambda>opcode_at. rbind read_byte (\<lambda>opcode.
       if opcode = 0 then
         rbind leb128 (\<lambda>dst. rbind leb128 (\<lambda>constant. rreturn (LoadConst dst
         constant)))
       else if opcode = 1 then
         rbind leb128 (\<lambda>dst. rbind leb128 (\<lambda>src. rreturn (Move dst src)))
       else if opcode = 2 then
         rbind leb128 (\<lambda>dst. rbind unary_op (\<lambda>op. rbind leb128 (\<lambda>operand.
         rreturn (Unary dst op operand))))
       else if opcode = 3 then
         rbind leb128 (\<lambda>dst. rbind binary_op (\<lambda>op. rbind leb128 (\<lambda>left.
         rbind leb128 (\<lambda>right. rreturn (Binary dst op left right)))))
       else if opcode = 4 then
         rbind leb128 (\<lambda>dst. rreturn (CreateObject dst))
       else if opcode = 5 then
         rbind leb128 (\<lambda>dst. rreturn (CreateArray dst))
       else if opcode = 6 then
         rbind leb128 (\<lambda>dst. rbind leb128 (\<lambda>function. rbind leb128
         (\<lambda>captures. rreturn (CreateClosure dst function captures))))
       else if opcode = 7 then
         rbind leb128 (\<lambda>dst. rbind leb128 (\<lambda>object. rbind leb128 (\<lambda>key.
         rreturn (GetProperty dst object key))))
       else if opcode = 8 then
         rbind leb128 (\<lambda>object. rbind leb128 (\<lambda>key. rbind leb128 (\<lambda>value.
         rreturn (SetProperty object key value))))
       else if opcode = 9 then
         rbind leb128 (\<lambda>dst. rbind leb128 (\<lambda>object. rbind leb128 (\<lambda>key.
         rreturn (DeleteProperty dst object key))))
       else if opcode = 10 then
         rbind leb128 (\<lambda>object. rbind leb128 (\<lambda>key. rbind leb128
         (\<lambda>accessor. rbind accessor_kind (\<lambda>kind. rreturn (DefineAccessor object
         key accessor kind)))))
       else if opcode = 11 then
         rbind leb128 (\<lambda>dst. rbind leb128 (\<lambda>callee. rbind leb128
         (\<lambda>this_value. rbind leb128 (\<lambda>arguments. rreturn (Call dst callee
         this_value arguments)))))
       else if opcode = 12 then
         rbind leb128 (\<lambda>dst. rbind leb128 (\<lambda>callee. rbind leb128
         (\<lambda>arguments. rreturn (Construct dst callee arguments))))
       else if opcode = 13 then
         rbind leb128 (\<lambda>dst. rbind leb128 (\<lambda>name. rreturn (LoadGlobal dst name)))
       else if opcode = 14 then
         rbind leb128 (\<lambda>name. rbind leb128 (\<lambda>value. rreturn (StoreGlobal name
         value)))
       else if opcode = 15 then
         rbind leb128 (\<lambda>dst. rbind leb128 (\<lambda>name. rreturn (TypeOfGlobal dst
         name)))
       else if opcode = 16 then
         rbind leb128 (\<lambda>dst. rreturn (LoadThis dst))
       else if opcode = 17 then
         rbind leb128 (\<lambda>dst. rreturn (LoadArguments dst))
       else if opcode = 18 then
         rbind leb128 (\<lambda>dst. rreturn (LoadNewTarget dst))
       else if opcode = 19 then
         rbind leb128 (\<lambda>array. rbind leb128 (\<lambda>value. rreturn (ArrayPush array
         value)))
       else if opcode = 20 then
         rbind leb128 (\<lambda>array. rbind leb128 (\<lambda>iterable. rreturn (ArrayExtend array
         iterable)))
       else if opcode = 21 then
         rbind leb128 (\<lambda>target. rbind leb128 (\<lambda>source. rreturn (ObjectSpread
         target source)))
       else if opcode = 22 then
         rbind leb128 (\<lambda>object. rbind leb128 (\<lambda>prototype. rreturn (SetPrototype
         object prototype)))
       else if opcode = 23 then
         rbind leb128 (\<lambda>dst. rbind leb128 (\<lambda>description. rreturn
         (CreatePrivateName dst description)))
       else if opcode = 24 then
         rbind leb128 (\<lambda>dst. rbind leb128 (\<lambda>pattern. rbind leb128 (\<lambda>flags.
         rreturn (CreateRegExp dst pattern flags))))
       else if opcode = 25 then
         rbind leb128 (\<lambda>dst. rbind leb128 (\<lambda>src. rbind iterator_kind
         (\<lambda>kind. rreturn (GetIterator dst src kind))))
       else if opcode = 26 then
         rbind leb128 (\<lambda>done. rbind leb128 (\<lambda>value. rbind leb128
         (\<lambda>iterator. rreturn (IteratorNext done value iterator))))
       else if opcode = 27 then
         rbind leb128 (\<lambda>target. rreturn (Jump target))
       else if opcode = 28 then
         rbind leb128 (\<lambda>condition. rbind leb128 (\<lambda>target. rreturn (JumpIfTrue
         condition target)))
       else if opcode = 29 then
         rbind leb128 (\<lambda>condition. rbind leb128 (\<lambda>target. rreturn (JumpIfFalse
         condition target)))
       else if opcode = 30 then
         rbind leb128 (\<lambda>value. rreturn (Return value))
       else if opcode = 31 then
         rbind leb128 (\<lambda>value. rreturn (Throw value))
       else if opcode = 32 then
         rbind leb128 (\<lambda>dst. rbind leb128 (\<lambda>src. rbind leb128 (\<lambda>resume.
         rbind leb128 (\<lambda>mode. rreturn (Suspend dst src resume mode)))))
       else if opcode = 33 then
         rbind leb128 (\<lambda>dst. rbind leb128 (\<lambda>specifier. rreturn (Import dst
         specifier)))
       else if opcode = 34 then
         rbind leb128 (\<lambda>name. rbind leb128 (\<lambda>src. rreturn (Export name src)))
       else if opcode = 35 then
         rreturn Halt
       else if opcode = 36 then
         rbind leb128 (\<lambda>dst. rreturn (CreateCell dst))
       else if opcode = 37 then
         rbind leb128 (\<lambda>dst. rbind leb128 (\<lambda>src. rbind leb128 (\<lambda>resume.
         rreturn (Await dst src resume))))
       else if opcode = 38 then
         rbind leb128 (\<lambda>dst. rbind leb128 (\<lambda>iterator. rreturn (IteratorStep dst
         iterator)))
       else if opcode = 39 then
         rbind leb128 (\<lambda>done. rbind leb128 (\<lambda>value. rbind leb128 (\<lambda>result.
         rreturn (IteratorResult done value result))))
       else if opcode = 40 then
         rbind leb128 (\<lambda>result. rbind leb128 (\<lambda>called. rbind leb128
         (\<lambda>iterator. rbind iterator_close_mode (\<lambda>mode. rreturn (IteratorClose
         result called iterator mode)))))
       else if opcode = 41 then
         rbind leb128 (\<lambda>result. rbind leb128 (\<lambda>called. rreturn (RequireCloseResult
         result called)))
       else if opcode = 42 then
         rbind leb128 (\<lambda>dst. rbind leb128 (\<lambda>src. rreturn (ToObject dst src)))
       else if opcode = 43 then
         rbind leb128 (\<lambda>dst. rbind leb128 (\<lambda>specifier. rreturn (ImportDynamic dst
         specifier)))
       else if opcode = 44 then
         rbind leb128 (\<lambda>dst. rreturn (LoadImportMeta dst))
       else if opcode = 45 then
         rbind leb128 (\<lambda>method. rbind leb128 (\<lambda>kind. rbind leb128 (\<lambda>src.
         rbind dispose_hint (\<lambda>hint. rreturn (DisposeCapture method kind src hint)))))
       else if opcode = 46 then
         rbind leb128 (\<lambda>dst. rbind leb128 (\<lambda>error. rbind leb128
         (\<lambda>suppressed. rreturn (SuppressError dst error suppressed))))
       else if opcode = 47 then
         rbind leb128 (\<lambda>dst. rbind leb128 (\<lambda>callee. rbind leb128
         (\<lambda>new_target. rbind leb128 (\<lambda>arguments. rreturn (ConstructWithNewTarget
         dst callee new_target arguments)))))
       else if opcode = 48 then
         rbind leb128 (\<lambda>object. rbind leb128 (\<lambda>key. rbind leb128 (\<lambda>value.
         rreturn (DefineDataProperty object key value))))
       else if opcode = 49 then
         rbind leb128 (\<lambda>dst. rbind leb128 (\<lambda>object. rbind leb128 (\<lambda>key.
         rbind descriptor_slot (\<lambda>slot. rreturn (LoadOwnDescriptorSlot dst object key
         slot)))))
       else if opcode = 50 then
         rbind leb128 (\<lambda>object. rbind leb128 (\<lambda>key. rbind leb128 (\<lambda>src.
         rbind descriptor_slot (\<lambda>slot. rreturn (DefineOwnDescriptorSlot object key src
         slot)))))
       else if opcode = 51 then
         rbind leb128 (\<lambda>dst. rbind leb128 (\<lambda>object. rbind leb128 (\<lambda>key.
         rreturn (WithHasBinding dst object key))))
       else if FIRST_EXTENSION_TAG \<le> opcode \<and> opcode < EXTENSION_TAG_END then
         extension_operands opcode
       else rerror opcode_at (InvalidOpcode opcode)))"

section \<open>Constants, functions, modules\<close>

text \<open>\<open>EcmaString::from_le_bytes\<close>: \<open>chunks_exact(2)\<close> drops an odd last byte.\<close>

fun units_from_le_bytes :: "u8 list \<Rightarrow> u16 list" where
  "units_from_le_bytes (a # b # bs) = from_le_bytes [a, b] # units_from_le_bytes bs"
| "units_from_le_bytes _ = []"

text \<open>
  The number of units is a \<open>u32\<close>, so doubling it cannot overflow the 64-bit \<open>usize\<close>
  and the \<open>checked_mul\<close> error branch of the source is dead.
\<close>

definition decode_string :: "(Decoder, EcmaString) reader" where
  "decode_string =
     rbind read_limits (\<lambda>limits.
     rbind (bounded ''string unit count'' (max_string_units limits)) (\<lambda>unit_count.
     rbind (read_slice (unat unit_count * 2)) (\<lambda>bytes.
       rreturn (units_from_le_bytes bytes))))"

definition decode_text :: "(Decoder, u8 list) reader" where
  "decode_text =
     rbind read_limits (\<lambda>limits.
     rbind (bounded ''bigint byte length'' (max_bigint_bytes limits)) (\<lambda>length.
     rbind position (\<lambda>start.
     rbind (read_slice (unat length)) (\<lambda>bytes.
       if utf8_valid bytes then rreturn bytes else rerror start InvalidUtf8))))"

definition decode_constant :: "(Decoder, Constant) reader" where
  "decode_constant =
     rbind position (\<lambda>tag_at. rbind read_byte (\<lambda>tag.
       if tag = 0 then
         rbind position (\<lambda>number_at. rbind (read_slice 8) (\<lambda>bytes.
           let bits = from_le_bytes bytes in
           case number_from_wire bits of
             Some n \<Rightarrow> rreturn (Number n)
           | None \<Rightarrow> rerror number_at (NonCanonicalNumber bits)))
       else if tag = 1 then rbind (read_slice 4) (\<lambda>bytes. rreturn (Int32 (from_le_bytes bytes)))
       else if tag = 2 then rbind decode_string (\<lambda>s. rreturn (StringConst s))
       else if tag = 3 then rreturn (Boolean False)
       else if tag = 4 then rreturn (Boolean True)
       else if tag = 5 then rreturn Null
       else if tag = 6 then rreturn Undefined
       else if tag = 7 then
         rbind position (\<lambda>start. rbind decode_text (\<lambda>text.
           case BigIntLiteral_new text of
             Some n \<Rightarrow> rreturn (BigInt n)
           | None \<Rightarrow> rerror start InvalidBigInt))
       else rerror tag_at (InvalidConstantTag tag)))"

definition decode_handler :: "(Decoder, ExceptionHandler) reader" where
  "decode_handler =
     rbind leb128 (\<lambda>start. rbind leb128 (\<lambda>end_pc. rbind leb128 (\<lambda>handler. rbind leb128 (\<lambda>catch.
       rreturn \<lparr>eh_start = start, eh_end = end_pc, eh_handler = handler,
                eh_catch_register = catch\<rparr>))))"

text \<open>The running total of instructions, checked against its own ceiling.\<close>

definition count_instructions :: "usize \<Rightarrow> u32 \<Rightarrow> (Decoder, unit) reader" where
  "count_instructions at count d =
     (let total = dec_total_instructions d + unat count;
          limit = max_total_instructions (dec_limits d)
      in if total > limit
         then Err \<lparr>err_offset = at,
                   err_kind = LimitExceeded ''total instruction count'' limit total\<rparr>
         else Ok ((), d\<lparr>dec_total_instructions := total\<rparr>))"

definition decode_name :: "u32 \<Rightarrow> ConstantId option" where
  "decode_name encoded = (if encoded = 0 then None else Some (encoded - 1))"

definition decode_function :: "(Decoder, Function) reader" where
  "decode_function =
     rbind read_limits (\<lambda>limits.
     rbind leb128 (\<lambda>encoded.
     rbind (bounded ''capture count'' (max_capture_count limits)) (\<lambda>capture_count.
     rbind (bounded ''parameter count'' (max_parameter_count limits)) (\<lambda>parameter_count.
     rbind (bounded ''register count'' (max_register_count limits)) (\<lambda>register_count.
     rbind (read_tag flags_from_bits InvalidFunctionFlags) (\<lambda>flags.
     rbind position (\<lambda>instruction_at.
     rbind (bounded ''instruction count'' (max_instructions_per_function limits))
       (\<lambda>instruction_count.
     rbind (count_instructions instruction_at instruction_count) (\<lambda>_.
     rbind (rtimes (unat instruction_count) decode_instruction) (\<lambda>code.
     rbind (bounded ''handler count'' (max_handlers_per_function limits)) (\<lambda>handler_count.
     rbind (rtimes (unat handler_count) decode_handler) (\<lambda>handlers.
       rreturn \<lparr>fn_name = decode_name encoded,
                fn_capture_count = capture_count, fn_parameter_count = parameter_count,
                fn_register_count = register_count, fn_flags = flags,
                fn_code = code, fn_handlers = handlers\<rparr>))))))))))))"

fun expect_magic :: "u8 list \<Rightarrow> (Decoder, unit) reader" where
  "expect_magic [] = rreturn ()"
| "expect_magic (expected # rest) =
     rbind position (\<lambda>at. rbind read_byte (\<lambda>actual.
       if actual \<noteq> expected then rerror at (BadMagic expected actual) else expect_magic rest))"

definition decode_module :: "(Decoder, Module) reader" where
  "decode_module =
     rbind (expect_magic MAGIC) (\<lambda>_.
     rbind position (\<lambda>version_at.
     rbind read_byte (\<lambda>version.
     if version \<noteq> FORMAT_VERSION then rerror version_at (UnsupportedVersion version)
     else
     rbind read_limits (\<lambda>limits.
     rbind (bounded ''constant count'' (max_constants limits)) (\<lambda>constant_count.
     rbind (rtimes (unat constant_count) decode_constant) (\<lambda>constants.
     rbind (bounded ''function count'' (max_functions limits)) (\<lambda>function_count.
     rbind leb128 (\<lambda>entry.
     rbind (rtimes (unat function_count) decode_function) (\<lambda>functions.
       rreturn (Module_new constants functions entry))))))))))"

definition decode :: "u8 list \<Rightarrow> DecodeLimits \<Rightarrow> (Module, DecodeError) result" where
  "decode bytes limits =
     (if length bytes > max_bytes limits
      then Err \<lparr>err_offset = 0, err_kind = InputLimitExceeded (max_bytes limits) (length bytes)\<rparr>
      else bind_result
        (decode_module \<lparr>dec_bytes = bytes, dec_offset = 0, dec_limits = limits,
                        dec_total_instructions = 0\<rparr>)
        (\<lambda>(m, d).
          if dec_offset d \<noteq> length bytes
          then Err \<lparr>err_offset = dec_offset d,
                    err_kind = TrailingBytes (length bytes - dec_offset d)\<rparr>
          else Ok m))"

end
