(* ===== verification/Module_Codec.thy ===== *)
theory Module_Codec
  imports Module_Decoder
begin

text \<open>
  The wire format is canonical: \<open>decode\<close> accepts exactly the encodings of the modules that fit the
  limits, and returns the module that was encoded. Two judgements carry the proofs, one per
  direction: \<open>feeds\<close> (this reader, on these bytes, returns this value) and \<open>parses\<close> (whatever this
  reader accepts, the consumed bytes and the value satisfy a relation; whatever it rejects, the
  error lies inside the input; it never panics). The interface between a writer and its reader is
  the locale \<open>wire_codec\<close>, interpreted for every component of a module.
\<close>

section \<open>Two judgements on readers\<close>

definition remaining :: "Decoder \<Rightarrow> u8 list" where
  "remaining d = drop (dec_offset d) (dec_bytes d)"

definition consume :: "nat \<Rightarrow> nat \<Rightarrow> Decoder \<Rightarrow> Decoder" where
  "consume n k d = d\<lparr>dec_offset := dec_offset d + n,
     dec_total_instructions := dec_total_instructions d + k\<rparr>"

definition feeds :: "(Decoder, 'a) reader \<Rightarrow> Decoder \<Rightarrow> u8 list \<Rightarrow> 'a \<Rightarrow> nat \<Rightarrow> bool" where
  "feeds m d bs x k \<longleftrightarrow>
     (\<forall>rest. remaining d = bs @ rest \<longrightarrow> dec_offset d \<le> length (dec_bytes d)
        \<longrightarrow> length (dec_bytes d) < 2 ^ 64 \<longrightarrow> m d = Ok (x, consume (length bs) k d))"

definition parses ::
  "(Decoder, 'a) reader \<Rightarrow> Decoder \<Rightarrow> (u8 list \<Rightarrow> 'a \<Rightarrow> nat \<Rightarrow> bool) \<Rightarrow> bool" where
  "parses m d Q \<longleftrightarrow> (dec_offset d \<le> length (dec_bytes d) \<longrightarrow>
     (case m d of
        Ok (x, d') \<Rightarrow> (\<exists>bs k. remaining d = bs @ remaining d' \<and> d' = consume (length bs) k d
          \<and> dec_offset d' \<le> length (dec_bytes d) \<and> Q bs x k)
      | Err e \<Rightarrow> err_offset e \<le> length (dec_bytes d)
      | Panic \<Rightarrow> False))"

named_theorems feeding
named_theorems parsing

lemma consume_sel [simp]:
  "dec_bytes (consume n k d) = dec_bytes d" "dec_offset (consume n k d) = dec_offset d + n"
  "dec_limits (consume n k d) = dec_limits d"
  "dec_total_instructions (consume n k d) = dec_total_instructions d + k"
  by (simp_all add: consume_def)

lemma consume_consume [simp]: "consume n k (consume n' k' d) = consume (n' + n) (k' + k) d"
  by (simp add: consume_def algebra_simps)

lemma consume_0 [simp]: "consume 0 0 d = d"
  by (simp add: consume_def)

lemma remaining_consume: "remaining d = bs @ rest \<Longrightarrow> remaining (consume (length bs) k d) = rest"
  by (simp add: remaining_def) (metis add.commute append_eq_conv_conj drop_drop)

lemma remaining_le:
  "remaining d = bs @ rest \<Longrightarrow> dec_offset d \<le> length (dec_bytes d) \<Longrightarrow>
    dec_offset d + length bs \<le> length (dec_bytes d)"
  unfolding remaining_def by (metis length_append length_drop le_add1 le_diff_conv2 add.commute)

lemma feedsD:
  "feeds m d bs x k \<Longrightarrow> remaining d = bs @ rest \<Longrightarrow> dec_offset d \<le> length (dec_bytes d) \<Longrightarrow>
    length (dec_bytes d) < 2 ^ 64 \<Longrightarrow> m d = Ok (x, consume (length bs) k d)"
  by (auto simp: feeds_def)

lemma feeds_bind:
  assumes "feeds m d bs x k" and "feeds (f x) (consume (length bs) k d) bs' y k'"
  shows "feeds (rbind m f) d (bs @ bs') y (k + k')"
  unfolding feeds_def
proof (intro allI impI)
  fix rest
  assume r: "remaining d = (bs @ bs') @ rest" and l: "length (dec_bytes d) < 2 ^ 64"
    and o: "dec_offset d \<le> length (dec_bytes d)"
  from r have r': "remaining d = bs @ (bs' @ rest)" by simp
  from feedsD [OF assms(1) this o l] have 1: "m d = Ok (x, consume (length bs) k d)" .
  have "f x (consume (length bs) k d) = Ok (y, consume (length bs') k' (consume (length bs) k d))"
    using remaining_le [OF r' o] l by (intro feedsD [OF assms(2) remaining_consume [OF r']]) simp_all
  with 1 show "rbind m f d = Ok (y, consume (length (bs @ bs')) (k + k') d)"
    by (simp add: rbind_def)
qed

lemma feeds_bind_last:
  "feeds m d bs x k \<Longrightarrow> feeds (f x) (consume (length bs) k d) [] y k' \<Longrightarrow>
    feeds (rbind m f) d bs y (k + k')"
  using feeds_bind [of m d bs x k f "[]" y k'] by simp

lemma feeds_end:
  "feeds m d bs x 0 \<Longrightarrow> feeds (f x) (consume (length bs) 0 d) [] y 0 \<Longrightarrow> feeds (rbind m f) d bs y 0"
  using feeds_bind_last [of m d bs x 0 f y 0] by simp

lemma feeds_return [feeding]: "feeds (rreturn x) d [] x 0"
  by (simp add: feeds_def rreturn_def)

lemma feeds_cost: "feeds m d bs x k \<Longrightarrow> k = k' \<Longrightarrow> feeds m d bs x k'"
  by simp

lemma feeds_bind_position [feeding]:
  "feeds (f (dec_offset d)) d bs y k \<Longrightarrow> feeds (rbind position f) d bs y k"
  by (simp add: feeds_def rbind_def position_def)

lemma feeds_bind_limits [feeding]:
  "feeds (f (dec_limits d)) d bs y k \<Longrightarrow> feeds (rbind read_limits f) d bs y k"
  by (simp add: feeds_def rbind_def read_limits_def)

lemma feeds_byte: "feeds read_byte d [b] b 0"
  by (auto simp: feeds_def read_byte_def consume_def remaining_def dest!: drop_eq_Cons_nth)

lemma feeds_bind_byte [feeding]:
  "feeds (f b) (consume 1 0 d) bs y k \<Longrightarrow> feeds (rbind read_byte f) d (b # bs) y k"
  using feeds_bind [OF feeds_byte, of f b d bs y k] by simp

lemma feeds_leb128: "feeds leb128 d (write_u32 v) v 0"
  by (auto simp: feeds_def leb128_def remaining_def consume_def dest!: read_leb128_write)

lemma feeds_bind_leb128 [feeding]:
  "feeds (f v) (consume (length (write_u32 v)) 0 d) bs y k \<Longrightarrow>
    feeds (rbind leb128 f) d (write_u32 v @ bs) y k"
  using feeds_bind [OF feeds_leb128, of f v d bs y k] by simp

lemma feeds_end_leb128 [feeding]:
  "feeds (f v) (consume (length (write_u32 v)) 0 d) [] y k \<Longrightarrow>
    feeds (rbind leb128 f) d (write_u32 v) y k"
  using feeds_bind_leb128 [of f v d "[]" y k] by simp

lemma feeds_slice: "length bs = n \<Longrightarrow> feeds (read_slice n) d bs bs 0"
  using remaining_le [of d bs]
  by (auto simp: feeds_def read_slice_def usize_checked_add_def remaining_def consume_def)

lemma feeds_bounded: "v \<le> limit \<Longrightarrow> feeds (bounded field limit) d (write_u32 v) v 0"
  unfolding bounded_def
  using feeds_bind_last [OF feeds_leb128 [of d v], of
      "\<lambda>actual. if actual > limit then rerror (dec_offset d) (LimitExceeded field (unat limit) (unat actual))
       else rreturn actual" v 0]
  by (intro feeds_bind_position) (auto simp: feeds_return not_less [symmetric])

lemma feeds_bind_bounded:
  "feeds (f v) (consume (length (write_u32 v)) 0 d) bs y k \<Longrightarrow> v \<le> limit \<Longrightarrow>
    feeds (rbind (bounded field limit) f) d (write_u32 v @ bs) y k"
  using feeds_bind [OF feeds_bounded [of v limit field d], of f bs y k] by simp

lemma feeds_bind_slice:
  "length bs = n \<Longrightarrow> feeds (f bs) (consume n 0 d) bs' y k \<Longrightarrow>
    feeds (rbind (read_slice n) f) d (bs @ bs') y k"
  using feeds_bind [OF feeds_slice [of bs n d], of f bs' y k] by simp

lemma feeds_end_slice:
  "length bs = n \<Longrightarrow> feeds (f bs) (consume n 0 d) [] y k \<Longrightarrow> feeds (rbind (read_slice n) f) d bs y k"
  using feeds_bind_slice [of bs n f d "[]" y k] by simp

lemma feeds_count:
  "dec_total_instructions d + unat n \<le> max_total_instructions (dec_limits d) \<Longrightarrow>
    feeds (count_instructions at n) d [] () (unat n)"
  by (simp add: feeds_def count_instructions_def Let_def consume_def)

lemma feeds_if_False: "feeds m' d bs x k \<Longrightarrow> \<not> c \<Longrightarrow> feeds (if c then m else m') d bs x k"
  by simp

lemma feeds_bind_count:
  "feeds (f ()) (consume 0 (unat n) d) bs y k \<Longrightarrow>
    dec_total_instructions d + unat n \<le> max_total_instructions (dec_limits d) \<Longrightarrow>
    feeds (rbind (count_instructions at n) f) d bs y (unat n + k)"
  using feeds_bind [OF feeds_count [of d n at], of f bs y k] by simp

text \<open>The other direction.\<close>

lemma parsesI:
  assumes "\<And>x d'. dec_offset d \<le> length (dec_bytes d) \<Longrightarrow> m d = Ok (x, d') \<Longrightarrow>
      \<exists>bs k. remaining d = bs @ remaining d' \<and> d' = consume (length bs) k d
        \<and> dec_offset d' \<le> length (dec_bytes d) \<and> Q bs x k"
    and "\<And>e. dec_offset d \<le> length (dec_bytes d) \<Longrightarrow> m d = Err e \<Longrightarrow> err_offset e \<le> length (dec_bytes d)"
    and "dec_offset d \<le> length (dec_bytes d) \<Longrightarrow> m d \<noteq> Panic"
  shows "parses m d Q"
  using assms by (auto simp: parses_def split: result.splits)

lemma parsesE:
  assumes "parses m d Q" and "dec_offset d \<le> length (dec_bytes d)" and "m d = Ok (x, d')"
  obtains bs k where "remaining d = bs @ remaining d'" "d' = consume (length bs) k d"
    "dec_offset d' \<le> length (dec_bytes d)" "Q bs x k"
  using assms by (auto simp: parses_def)

lemma parses_weaken: "parses m d P \<Longrightarrow> (\<And>bs x k. P bs x k \<Longrightarrow> Q bs x k) \<Longrightarrow> parses m d Q"
  by (fastforce simp: parses_def split: result.splits)

lemma parses_bind:
  assumes m: "parses m d P"
    and f: "\<And>bs x k. P bs x k \<Longrightarrow>
      parses (f x) (consume (length bs) k d) (\<lambda>bs' y k'. Q (bs @ bs') y (k + k'))"
  shows "parses (rbind m f) d Q"
  unfolding parses_def
proof
  assume o: "dec_offset d \<le> length (dec_bytes d)"
  show "case rbind m f d of
      Ok (x, d') \<Rightarrow> (\<exists>bs k. remaining d = bs @ remaining d' \<and> d' = consume (length bs) k d
          \<and> dec_offset d' \<le> length (dec_bytes d) \<and> Q bs x k)
    | Err e \<Rightarrow> err_offset e \<le> length (dec_bytes d)
    | Panic \<Rightarrow> False"
  proof (cases "m d")
    case (Ok r)
    obtain x d1 where r: "r = (x, d1)" by (cases r)
    from parsesE [OF m o] Ok r obtain bs k where 1: "remaining d = bs @ remaining d1"
      "d1 = consume (length bs) k d" "dec_offset d1 \<le> length (dec_bytes d)" "P bs x k"
      by metis
    from f [OF 1(4)] 1(2) have "parses (f x) d1 (\<lambda>bs' y k'. Q (bs @ bs') y (k + k'))"
      by simp
    moreover have "dec_bytes d1 = dec_bytes d" using 1(2) by simp
    ultimately have "case f x d1 of
        Ok (y, d') \<Rightarrow> (\<exists>bs' k'. remaining d1 = bs' @ remaining d' \<and> d' = consume (length bs') k' d1
            \<and> dec_offset d' \<le> length (dec_bytes d) \<and> Q (bs @ bs') y (k + k'))
      | Err e \<Rightarrow> err_offset e \<le> length (dec_bytes d)
      | Panic \<Rightarrow> False"
      using 1(3) by (simp only: parses_def)
    then show ?thesis
      using Ok r 1(1,2)
      by (auto simp: rbind_def split: result.splits)
  next
    case (Err e)
    with m o show ?thesis by (auto simp: parses_def rbind_def)
  next
    case Panic
    with m o show ?thesis by (auto simp: parses_def)
  qed
qed

lemma parses_return [parsing]: "Q [] x 0 \<Longrightarrow> parses (rreturn x) d Q"
  by (auto simp: parses_def rreturn_def intro!: exI [of _ "[]"] exI [of _ 0])

lemma parses_error [parsing]:
  "(dec_offset d \<le> length (dec_bytes d) \<Longrightarrow> at \<le> length (dec_bytes d)) \<Longrightarrow> parses (rerror at e) d Q"
  by (simp add: parses_def rerror_def)

lemma parses_bind_position [parsing]:
  "parses (f (dec_offset d)) d Q \<Longrightarrow> parses (rbind position f) d Q"
  by (simp add: parses_def rbind_def position_def)

lemma parses_bind_limits [parsing]:
  "parses (f (dec_limits d)) d Q \<Longrightarrow> parses (rbind read_limits f) d Q"
  by (simp add: parses_def rbind_def read_limits_def)

lemma parses_byte: "parses read_byte d (\<lambda>bs x k. bs = [x] \<and> k = 0)"
  by (rule parsesI)
    (auto simp: read_byte_def remaining_def consume_def Cons_nth_drop_Suc split: if_splits)

lemma parses_bind_byte [parsing]:
  "(\<And>b. parses (f b) (consume 1 0 d) (\<lambda>bs x k. Q (b # bs) x k)) \<Longrightarrow> parses (rbind read_byte f) d Q"
  by (rule parses_bind [OF parses_byte]) auto

lemma parses_if [parsing]:
  "(c \<Longrightarrow> parses m d Q) \<Longrightarrow> (\<not> c \<Longrightarrow> parses m' d Q) \<Longrightarrow> parses (if c then m else m') d Q"
  by simp

lemma read_loop_offset:
  "read_leb128_loop bytes start offset res shift = (r, offset') \<Longrightarrow> offset \<le> length bytes \<Longrightarrow>
    offset' \<le> length bytes \<and> r \<noteq> Panic"
proof (induction "length bytes - offset" arbitrary: offset res shift rule: less_induct)
  case less
  show ?case
  proof (cases "offset < length bytes")
    case True
    then have "length bytes - Suc offset < length bytes - offset" by simp
    from less.hyps [OF this] less.prems True show ?thesis
      by (cases "shift = 28") (auto simp: read_loop_28 read_loop_step split: if_splits)
  next
    case False
    with less.prems show ?thesis by (auto simp: read_loop_eof)
  qed
qed

lemma parses_leb128: "parses leb128 d (\<lambda>bs v k. bs = write_u32 v \<and> k = 0)"
proof (rule parsesI)
  assume o: "dec_offset d \<le> length (dec_bytes d)"
  obtain r off where r: "read_leb128 (dec_bytes d) (dec_offset d) = (r, off)"
    by (cases "read_leb128 (dec_bytes d) (dec_offset d)")
  then have b: "off \<le> length (dec_bytes d)" "r \<noteq> Panic"
    using read_loop_offset o by (auto simp: read_leb128_def)
  show "leb128 d \<noteq> Panic"
    using r b(2) by (auto simp: leb128_def split: result.splits Leb128Error.splits)
  show "err_offset e \<le> length (dec_bytes d)" if "leb128 d = Err e" for e
    using that r b o by (auto simp: leb128_def split: result.splits Leb128Error.splits)
  fix x d'
  assume "leb128 d = Ok (x, d')"
  then have "r = Ok x" "d' = d\<lparr>dec_offset := off\<rparr>"
    using r by (auto simp: leb128_def split: result.splits Leb128Error.splits)
  with r read_leb128_canonical [of "dec_bytes d" "dec_offset d" x off] b
  show "\<exists>bs k. remaining d = bs @ remaining d' \<and> d' = consume (length bs) k d
        \<and> dec_offset d' \<le> length (dec_bytes d) \<and> bs = write_u32 x \<and> k = 0"
    by (simp add: remaining_def consume_def)
qed

lemma parses_bind_leb128 [parsing]:
  "(\<And>v. parses (f v) (consume (length (write_u32 v)) 0 d) (\<lambda>bs x k. Q (write_u32 v @ bs) x k)) \<Longrightarrow>
    parses (rbind leb128 f) d Q"
  by (rule parses_bind [OF parses_leb128]) auto

lemma parses_slice: "parses (read_slice n) d (\<lambda>bs x k. length bs = n \<and> x = bs \<and> k = 0)"
  by (rule parsesI)
    (auto simp: read_slice_def usize_checked_add_def remaining_def consume_def
      append_take_drop_id add.commute [of _ n] simp flip: drop_drop split: if_splits)

lemma parses_bounded:
  "parses (bounded field limit) d (\<lambda>bs v k. bs = write_u32 v \<and> k = 0 \<and> v \<le> limit)"
  unfolding bounded_def by (intro parsing) auto

lemma parses_bind_bounded [parsing]:
  "(\<And>v. v \<le> limit \<Longrightarrow>
      parses (f v) (consume (length (write_u32 v)) 0 d) (\<lambda>bs x k. Q (write_u32 v @ bs) x k)) \<Longrightarrow>
    parses (rbind (bounded field limit) f) d Q"
  by (rule parses_bind [OF parses_bounded]) auto

lemma parses_bind_slice [parsing]:
  "(\<And>bs. length bs = n \<Longrightarrow> parses (f bs) (consume n 0 d) (\<lambda>bs' x k. Q (bs @ bs') x k)) \<Longrightarrow>
    parses (rbind (read_slice n) f) d Q"
  by (rule parses_bind [OF parses_slice]) auto

lemma parses_count:
  assumes "dec_offset d \<le> length (dec_bytes d) \<Longrightarrow> at \<le> length (dec_bytes d)"
  shows "parses (count_instructions at n) d
    (\<lambda>bs x k. bs = [] \<and> k = unat n
      \<and> dec_total_instructions d + k \<le> max_total_instructions (dec_limits d))"
  using assms
  by (intro parsesI) (auto simp: count_instructions_def Let_def consume_def remaining_def split: if_splits)

section \<open>The contract between a writer and its reader\<close>

text \<open>
  \<open>fits\<close> is what the limits allow, \<open>cost\<close> what a value adds to the running total of instructions.
\<close>

locale wire_codec =
  fixes enc :: "'a \<Rightarrow> u8 list"
    and dec :: "(Decoder, 'a) reader"
    and fits :: "DecodeLimits \<Rightarrow> 'a \<Rightarrow> bool"
    and cost :: "'a \<Rightarrow> nat"
  assumes dec_enc: "fits (dec_limits d) x \<Longrightarrow>
      dec_total_instructions d + cost x \<le> max_total_instructions (dec_limits d) \<Longrightarrow>
      feeds dec d (enc x) x (cost x)"
    and enc_dec: "parses dec d (\<lambda>bs x k. bs = enc x \<and> k = cost x \<and> fits (dec_limits d) x
      \<and> (dec_total_instructions d \<le> max_total_instructions (dec_limits d) \<longrightarrow>
          dec_total_instructions d + k \<le> max_total_instructions (dec_limits d)))"
begin

lemma feeds_times:
  assumes "\<forall>x \<in> set xs. fits (dec_limits d) x"
    and "dec_total_instructions d + sum_list (map cost xs) \<le> max_total_instructions (dec_limits d)"
  shows "feeds (rtimes (length xs) dec) d (concat (map enc xs)) xs (sum_list (map cost xs))"
  using assms
proof (induction xs arbitrary: d)
  case Nil
  then show ?case by (simp add: feeds_return)
next
  case (Cons x xs)
  let ?d = "consume (length (enc x)) (cost x) d"
  let ?d' = "consume (length (concat (map enc xs))) (sum_list (map cost xs)) ?d"
  have "feeds dec d (enc x) x (cost x)" using Cons.prems by (intro dec_enc) auto
  moreover have "feeds (rtimes (length xs) dec) ?d (concat (map enc xs)) xs (sum_list (map cost xs))"
    using Cons.prems by (intro Cons.IH) auto
  then have "feeds (rbind (rtimes (length xs) dec) (\<lambda>xs. rreturn (x # xs))) ?d
      (concat (map enc xs)) (x # xs) (sum_list (map cost xs) + 0)"
    by (rule feeds_bind_last) (rule feeds_return)
  ultimately show ?case
    using feeds_bind by fastforce
qed

lemma feeds_bind_times:
  assumes "feeds (f xs) (consume (length (concat (map enc xs))) (sum_list (map cost xs)) d) bs y k"
    and "n = length xs" and "\<forall>x \<in> set xs. fits (dec_limits d) x"
    and "dec_total_instructions d + sum_list (map cost xs) \<le> max_total_instructions (dec_limits d)"
  shows "feeds (rbind (rtimes n dec) f) d (concat (map enc xs) @ bs) y (sum_list (map cost xs) + k)"
  using feeds_bind [OF feeds_times [OF assms(3,4)], of f bs y k] assms(1,2) by simp

lemma parses_times:
  "parses (rtimes n dec) d (\<lambda>bs xs k. length xs = n \<and> bs = concat (map enc xs)
    \<and> k = sum_list (map cost xs) \<and> (\<forall>x \<in> set xs. fits (dec_limits d) x)
    \<and> (dec_total_instructions d \<le> max_total_instructions (dec_limits d) \<longrightarrow>
        dec_total_instructions d + k \<le> max_total_instructions (dec_limits d)))"
proof (induction n arbitrary: d)
  case 0
  show ?case by (simp add: parses_return)
next
  case (Suc n)
  show ?case
    unfolding rtimes.simps
    by (rule parses_bind [OF enc_dec], rule parses_bind [OF Suc.IH], rule parses_return) auto
qed

lemma enc_prefix_free:
  assumes fits: "fits l x" "fits l y" "cost x \<le> max_total_instructions l" "cost y \<le> max_total_instructions l"
    and len: "length (enc x) < 2 ^ 64" "length (enc y) < 2 ^ 64"
    and eq: "enc x @ r = enc y @ s"
  shows "x = y \<and> r = s"
proof -
  let ?n = "max (length (enc x)) (length (enc y))"
  define bs where "bs = take ?n (enc x @ r)"
  define d where "d = \<lparr>dec_bytes = bs, dec_offset = 0, dec_limits = l, dec_total_instructions = 0\<rparr>"
  have rx: "remaining d = enc x @ take (?n - length (enc x)) r" by (simp add: remaining_def d_def bs_def)
  have ry: "remaining d = enc y @ take (?n - length (enc y)) s"
    by (simp add: remaining_def d_def bs_def eq)
  have size: "length (dec_bytes d) < 2 ^ 64" "dec_offset d \<le> length (dec_bytes d)"
    using len by (auto simp: d_def bs_def)
  have "feeds dec d (enc x) x (cost x)" "feeds dec d (enc y) y (cost y)"
    using fits by (auto intro!: dec_enc simp: d_def)
  from feedsD [OF this(1) rx size(2,1)] feedsD [OF this(2) ry size(2,1)] have "x = y" by simp
  with eq show ?thesis by simp
qed

end

section \<open>Tags and instructions\<close>

context wire_tag
begin

lemma feeds_tag: "feeds (read_tag from_u8 invalid) d [to_u8 x] x 0"
  unfolding read_tag_def
  by (rule feeds_bind_position, rule feeds_bind_byte) (simp add: from_to feeds_return)

lemma feeds_bind_tag:
  "feeds (f x) (consume 1 0 d) bs y k \<Longrightarrow>
    feeds (rbind (read_tag from_u8 invalid) f) d (to_u8 x # bs) y k"
  using feeds_bind [OF feeds_tag [of invalid d x], of f bs y k] by simp

lemma parses_tag: "parses (read_tag from_u8 invalid) d (\<lambda>bs x k. bs = [to_u8 x] \<and> k = 0)"
  unfolding read_tag_def
  by (rule parses_bind_position, rule parses_bind_byte)
    (auto split: option.split intro!: parses_return parses_error dest: to_from)

lemma parses_bind_tag:
  "(\<And>x. parses (f x) (consume 1 0 d) (\<lambda>bs y k. Q (to_u8 x # bs) y k)) \<Longrightarrow>
    parses (rbind (read_tag from_u8 invalid) f) d Q"
  by (rule parses_bind [OF parses_tag]) auto

end

lemmas feeds_bind_tags [feeding] =
  unary_op_tag.feeds_bind_tag [where invalid = InvalidUnaryOp, folded unary_op_def]
  binary_op_tag.feeds_bind_tag [where invalid = InvalidBinaryOp, folded binary_op_def]
  iterator_kind_tag.feeds_bind_tag [where invalid = InvalidIteratorKind, folded iterator_kind_def]
  iterator_close_mode_tag.feeds_bind_tag
    [where invalid = InvalidIteratorCloseMode, folded iterator_close_mode_def]
  dispose_hint_tag.feeds_bind_tag [where invalid = InvalidDisposeHint, folded dispose_hint_def]
  accessor_kind_tag.feeds_bind_tag [where invalid = InvalidAccessorKind, folded accessor_kind_def]
  descriptor_slot_tag.feeds_bind_tag
    [where invalid = InvalidDescriptorSlot, folded descriptor_slot_def]

lemmas parses_bind_tags [parsing] =
  unary_op_tag.parses_bind_tag [where invalid = InvalidUnaryOp, folded unary_op_def]
  binary_op_tag.parses_bind_tag [where invalid = InvalidBinaryOp, folded binary_op_def]
  iterator_kind_tag.parses_bind_tag [where invalid = InvalidIteratorKind, folded iterator_kind_def]
  iterator_close_mode_tag.parses_bind_tag
    [where invalid = InvalidIteratorCloseMode, folded iterator_close_mode_def]
  dispose_hint_tag.parses_bind_tag [where invalid = InvalidDisposeHint, folded dispose_hint_def]
  accessor_kind_tag.parses_bind_tag [where invalid = InvalidAccessorKind, folded accessor_kind_def]
  descriptor_slot_tag.parses_bind_tag
    [where invalid = InvalidDescriptorSlot, folded descriptor_slot_def]

text \<open>
  The cursor of the extension decoder reads the same integers as the root decoder, byte for byte
  and error for error.
\<close>

definition at_offset :: "(u8 list \<Rightarrow> (usize, 'a) reader) \<Rightarrow> (Decoder, 'a) reader" where
  "at_offset m d =
     bind_result (m (dec_bytes d) (dec_offset d)) (\<lambda>(x, offset). Ok (x, d\<lparr>dec_offset := offset\<rparr>))"

lemma at_offset_bind:
  "at_offset (\<lambda>bs. rbind (m bs) (\<lambda>x. k x bs)) = rbind (at_offset m) (\<lambda>x. at_offset (k x))"
proof
  fix d
  show "at_offset (\<lambda>bs. rbind (m bs) (\<lambda>x. k x bs)) d = rbind (at_offset m) (\<lambda>x. at_offset (k x)) d"
    by (cases "m (dec_bytes d) (dec_offset d)") (auto simp: at_offset_def rbind_def split: prod.splits)
qed

lemma at_offset_return: "at_offset (\<lambda>bs. rreturn x) = rreturn x"
  by (simp add: at_offset_def rreturn_def fun_eq_iff)

lemma cursor_loop_eq:
  "cursor_leb128_loop bytes start res shift offset =
     (case read_leb128_loop bytes start offset res shift of
        (Ok v, offset') \<Rightarrow> Ok (v, offset')
      | (Err Leb_UnexpectedEof, offset') \<Rightarrow> Err \<lparr>err_offset = offset', err_kind = UnexpectedEof\<rparr>
      | (Err Leb_IntegerOverflow, _) \<Rightarrow> Err \<lparr>err_offset = start, err_kind = IntegerOverflow\<rparr>
      | (Err Leb_NonCanonicalInteger, _) \<Rightarrow> Err \<lparr>err_offset = start, err_kind = NonCanonicalInteger\<rparr>
      | (Panic, _) \<Rightarrow> Panic)"
proof (induction "length bytes - offset" arbitrary: offset res shift rule: less_induct)
  case less
  show ?case
  proof (cases "offset < length bytes")
    case True
    then have "length bytes - Suc offset < length bytes - offset" by simp
    from less.hyps [OF this] True show ?thesis
      by (subst cursor_leb128_loop.simps, subst read_leb128_loop.simps) (simp add: Let_def)
  next
    case False
    then show ?thesis by (simp add: read_loop_eof cursor_leb128_loop.simps)
  qed
qed

lemma at_offset_cursor_leb128: "at_offset cursor_leb128 = leb128"
  by (rule ext) (simp add: at_offset_def cursor_leb128_def cursor_loop_eq leb128_def
      read_leb128_def split: prod.split result.split Leb128Error.split)

lemma extension_operands_alt:
  "extension_operands opcode = rbind (at_offset (decode_from_tag opcode)) (\<lambda>e. rreturn (from_extension e))"
proof
  fix d
  show "extension_operands opcode d =
      rbind (at_offset (decode_from_tag opcode)) (\<lambda>e. rreturn (from_extension e)) d"
    by (cases "decode_from_tag opcode (dec_bytes d) (dec_offset d)")
      (auto simp: extension_operands_def at_offset_def rbind_def rreturn_def split: prod.splits)
qed

lemma rbind_assoc: "rbind (rbind m f) g = rbind m (\<lambda>x. rbind (f x) g)"
proof
  fix s
  show "rbind (rbind m f) g s = rbind m (\<lambda>x. rbind (f x) g) s"
    by (cases "m s") (auto simp: rbind_def split: prod.splits)
qed

lemma rbind_return: "rbind (rreturn x) f = f x"
  by (simp add: rbind_def rreturn_def fun_eq_iff)

lemma decode_from_tag_tags:
  "decode_from_tag 52 = (\<lambda>bytes.
     rbind (cursor_leb128 bytes) (\<lambda>dst. rbind (cursor_leb128 bytes) (\<lambda>home. rbind
     (cursor_leb128 bytes) (\<lambda>receiver. rbind (cursor_leb128 bytes) (\<lambda>key. rreturn
     (ExtGetSuper dst home receiver key))))))"
  "decode_from_tag 53 = (\<lambda>bytes.
     rbind (cursor_leb128 bytes) (\<lambda>home. rbind (cursor_leb128 bytes) (\<lambda>receiver.
     rbind (cursor_leb128 bytes) (\<lambda>key. rbind (cursor_leb128 bytes) (\<lambda>value.
     rreturn (ExtSetSuper home receiver key value))))))"
  "decode_from_tag 54 = (\<lambda>bytes.
     rbind (cursor_leb128 bytes) (\<lambda>dst. rbind (cursor_leb128 bytes) (\<lambda>specifier.
     rbind (cursor_leb128 bytes) (\<lambda>attributes. rreturn (ExtImportAttributes dst specifier
     attributes)))))"
  "decode_from_tag 55 = (\<lambda>bytes.
     rbind (cursor_leb128 bytes) (\<lambda>dst. rbind (cursor_leb128 bytes) (\<lambda>specifier.
     rbind (cursor_leb128 bytes) (\<lambda>attributes. rreturn (ExtImportDynamicAttributes dst
     specifier attributes)))))"
  "decode_from_tag 56 = (\<lambda>bytes.
     rbind (cursor_leb128 bytes) (\<lambda>target. rbind (cursor_leb128 bytes) (\<lambda>source.
     rbind (cursor_leb128 bytes) (\<lambda>excluded. rreturn (ExtCopyDataProperties target source
     excluded)))))"
  "decode_from_tag 57 = (\<lambda>bytes.
     rbind (cursor_leb128 bytes) (\<lambda>dst. rbind (cursor_leb128 bytes) (\<lambda>cooked.
     rbind (cursor_leb128 bytes) (\<lambda>raw. rreturn (ExtGetTemplateObject dst cooked raw)))))"
  by (intro ext, simp add: decode_from_tag_def Let_def)+

lemma extension_operands_tags:
  "extension_operands 52 =
     rbind leb128 (\<lambda>dst. rbind leb128 (\<lambda>home. rbind leb128 (\<lambda>receiver.
     rbind leb128 (\<lambda>key. rreturn (GetSuper dst home receiver key)))))"
  "extension_operands 53 =
     rbind leb128 (\<lambda>home. rbind leb128 (\<lambda>receiver. rbind leb128 (\<lambda>key.
     rbind leb128 (\<lambda>value. rreturn (SetSuper home receiver key value)))))"
  "extension_operands 54 =
     rbind leb128 (\<lambda>dst. rbind leb128 (\<lambda>specifier. rbind leb128
     (\<lambda>attributes. rreturn (ImportAttributes dst specifier attributes))))"
  "extension_operands 55 =
     rbind leb128 (\<lambda>dst. rbind leb128 (\<lambda>specifier. rbind leb128
     (\<lambda>attributes. rreturn (ImportDynamicAttributes dst specifier attributes))))"
  "extension_operands 56 =
     rbind leb128 (\<lambda>target. rbind leb128 (\<lambda>source. rbind leb128
     (\<lambda>excluded. rreturn (CopyDataProperties target source excluded))))"
  "extension_operands 57 =
     rbind leb128 (\<lambda>dst. rbind leb128 (\<lambda>cooked. rbind leb128 (\<lambda>raw.
     rreturn (GetTemplateObject dst cooked raw))))"
  by (simp_all add: extension_operands_alt decode_from_tag_tags at_offset_bind at_offset_return
      at_offset_cursor_leb128 rbind_assoc rbind_return)

lemma extension_tag_cases:
  assumes "FIRST_EXTENSION_TAG \<le> t" and "t < EXTENSION_TAG_END"
  shows "t = 52 \<or> t = 53 \<or> t = 54 \<or> t = 55 \<or> t = 56 \<or> t = 57"
proof -
  have "52 \<le> unat t" "unat t < 58"
    using assms by (simp_all add: FIRST_EXTENSION_TAG_def EXTENSION_TAG_END_def word_le_nat_alt
        word_less_nat_alt)
  then have "unat t = 52 \<or> unat t = 53 \<or> unat t = 54 \<or> unat t = 55 \<or> unat t = 56 \<or> unat t = 57"
    by auto
  then show ?thesis by (simp add: word_unat_eq_iff)
qed

lemma parses_extension:
  assumes "FIRST_EXTENSION_TAG \<le> t" and "t < EXTENSION_TAG_END"
  shows "parses (extension_operands t) d (\<lambda>bs i k. t # bs = encode_instruction i \<and> k = 0)"
  using extension_tag_cases [OF assms]
  by (elim disjE; simp only: extension_operands_tags; intro parsing; simp add: encode_extension_def)

lemma feeds_instruction: "feeds decode_instruction d (encode_instruction i) i 0"
  unfolding decode_instruction_def
  by (cases i; simp only: encode_instruction.simps encode_extension_def wire_tag_of.simps
      ExtInstruction.case; rule feeds_bind_position, rule feeds_bind_byte;
      simp add: FIRST_EXTENSION_TAG_def EXTENSION_TAG_END_def extension_operands_tags;
      intro feeding)

lemma parses_instruction:
  "parses decode_instruction d (\<lambda>bs i k. bs = encode_instruction i \<and> k = 0)"
  unfolding decode_instruction_def
  by (rule parses_bind_position, rule parses_bind_byte; intro parses_if;
      (elim conjE, rule parses_extension, assumption, assumption)?; intro parsing; simp)

interpretation instruction_codec:
  wire_codec encode_instruction decode_instruction "\<lambda>_ _. True" "\<lambda>_. 0"
  by unfold_locales (auto intro: feeds_instruction parses_weaken [OF parses_instruction])

lemma encode_instruction_length: "length (encode_instruction i) \<le> 22"
proof -
  note b = write_u32_bounds(2)
  show ?thesis
    by (cases i) (auto simp: encode_extension_def intro!: order_trans [OF add_mono [OF b add_mono [OF b add_mono [OF b b]]]]
       order_trans [OF add_mono [OF b add_mono [OF b b]]]  order_trans [OF add_mono [OF b b]] order_trans [OF b])
qed

lemma encode_instruction_prefix_free:
  "encode_instruction i @ r = encode_instruction j @ s \<longleftrightarrow> i = j \<and> r = s"
proof -
  have "length (encode_instruction k) < 2 ^ 64" for k
    using encode_instruction_length [of k] by simp
  from instruction_codec.enc_prefix_free [of DecodeLimits_default i j, OF _ _ _ _ this this] show ?thesis by auto
qed

section \<open>Handlers, constants, functions\<close>

interpretation handler_codec:
  wire_codec encode_handler decode_handler "\<lambda>_ _. True" "\<lambda>_. 0"
proof
  show "feeds decode_handler d (encode_handler x) x 0" for d and x :: ExceptionHandler
    unfolding decode_handler_def encode_handler_def
    by (cases x) (simp, intro feeding)
  show "parses decode_handler d (\<lambda>bs x k. bs = encode_handler x \<and> k = 0 \<and> True
      \<and> (dec_total_instructions d \<le> max_total_instructions (dec_limits d) \<longrightarrow>
          dec_total_instructions d + k \<le> max_total_instructions (dec_limits d)))" for d
    unfolding decode_handler_def encode_handler_def by (intro parsing) simp
qed

text \<open>What the decode limits allow of one constant: its invariant and its length.\<close>

primrec fits_constant :: "DecodeLimits \<Rightarrow> Constant \<Rightarrow> bool" where
  "fits_constant l (Number bits) = wf_constant (Number bits)"
| "fits_constant l (Int32 value) = True"
| "fits_constant l (StringConst value) = (length value \<le> unat (max_string_units l))"
| "fits_constant l (Boolean b) = True"
| "fits_constant l Null = True"
| "fits_constant l Undefined = True"
| "fits_constant l (BigInt value) =
     (is_canonical_bigint value \<and> length value \<le> unat (max_bigint_bytes l))"

lemma units_from_le_bytes_concat: "units_from_le_bytes (concat (map (to_le_bytes 2) us)) = us"
proof (induction us)
  case (Cons u us)
  obtain a b where ab: "to_le_bytes 2 u = [a, b]"
    using length_to_le_bytes [of 2 u] by (metis (no_types) length_0_conv length_Suc_conv numeral_2_eq_2)
  have "from_le_bytes (to_le_bytes 2 u) = u" by (rule from_le_bytes_to_le_bytes) simp
  with ab Cons show ?case by simp
qed simp

lemma concat_units_from_le_bytes:
  "length bs = n * 2 \<Longrightarrow> concat (map (to_le_bytes 2) (units_from_le_bytes bs)) = bs
    \<and> length (units_from_le_bytes bs) = n"
proof (induction bs arbitrary: n rule: units_from_le_bytes.induct)
  case (1 a b bs)
  then obtain m where "n = Suc m" by (cases n) auto
  moreover have "to_le_bytes 2 (from_le_bytes [a, b] :: u16) = [a, b]"
    by (rule to_le_bytes_from_le_bytes) auto
  ultimately show ?case using 1 by simp
qed auto

lemma length_concat_units [simp]: "length (concat (map (to_le_bytes 2) us)) = length us * 2"
  by (induction us) auto

lemma as_u32_le:
  "n \<le> unat (limit :: u32) \<Longrightarrow> as_u32 n \<le> limit \<and> unat (as_u32 n) = n"
proof -
  assume n: "n \<le> unat limit"
  then have "n < 2 ^ 32" using le_less_trans [OF n unat_u32_bound] by simp
  with n show ?thesis by (simp add: word_le_nat_alt)
qed

lemma as_u32_unat [simp]: "as_u32 (unat (v :: u32)) = v"
  by simp

lemma feeds_string:
  assumes "length us \<le> unat (max_string_units (dec_limits d))"
  shows "feeds decode_string d (write_string us) us 0"
  unfolding decode_string_def write_string_def using as_u32_le [OF assms]
  by (intro feeds_bind_limits feeds_bind_bounded feeds_end_slice)
    (simp_all add: units_from_le_bytes_concat feeds_return)

lemma parses_string:
  "parses decode_string d (\<lambda>bs us k. bs = write_string us \<and> k = 0
    \<and> length us \<le> unat (max_string_units (dec_limits d)))"
  unfolding decode_string_def write_string_def
  by (intro parsing) (auto dest!: concat_units_from_le_bytes simp: word_le_nat_alt)

lemma feeds_text:
  assumes "is_canonical_bigint text" and "length text \<le> unat (max_bigint_bytes (dec_limits d))"
  shows "feeds decode_text d (write_text text) text 0"
  unfolding decode_text_def write_text_def
  using as_u32_le [OF assms(2)] utf8_valid_ascii [OF is_canonical_bigint_ascii [OF assms(1)]]
  by (intro feeds_bind_limits feeds_bind_bounded feeds_bind_position feeds_end_slice)
    (simp_all add: feeds_return)

lemma parses_text:
  "parses decode_text d (\<lambda>bs text k. bs = write_text text \<and> k = 0
    \<and> length text \<le> unat (max_bigint_bytes (dec_limits d)))"
  unfolding decode_text_def write_text_def
  by (intro parsing) (auto simp: word_le_nat_alt)

lemma feeds_constant:
  assumes "fits_constant (dec_limits d) c"
  shows "feeds decode_constant d (encode_constant c) c 0"
proof (cases c)
  case (Number bits)
  have "from_le_bytes (to_le_bytes 8 bits) = bits" by (rule from_le_bytes_to_le_bytes) simp
  with assms Number show ?thesis
    unfolding decode_constant_def
    by (simp, intro feeds_bind_position feeds_bind_byte)
      (auto intro!: feeds_bind_position feeds_end_slice feeds_return
        simp: number_from_wire_Some_iff [THEN iffD2])
next
  case (Int32 v)
  have "from_le_bytes (to_le_bytes 4 v) = v" by (rule from_le_bytes_to_le_bytes) simp
  with Int32 show ?thesis
    unfolding decode_constant_def
    by (simp, intro feeds_bind_position feeds_bind_byte)
      (auto intro!: feeds_end_slice feeds_return)
next
  case (StringConst us)
  with assms show ?thesis
    unfolding decode_constant_def
    by (simp, intro feeds_bind_position feeds_bind_byte)
      (auto intro!: feeds_end feeds_string feeds_return)
next
  case (BigInt t)
  with assms show ?thesis
    unfolding decode_constant_def
    by (simp, intro feeds_bind_position feeds_bind_byte)
      (auto intro!: feeds_bind_position feeds_end feeds_text
        feeds_return simp: BigIntLiteral_new_def)
qed (auto simp: decode_constant_def intro!: feeding)

lemma to_from_le_bytes_u64: "length bs = 8 \<Longrightarrow> to_le_bytes 8 (from_le_bytes bs :: u64) = bs"
  by (rule to_le_bytes_from_le_bytes) auto

lemma to_from_le_bytes_u32: "length bs = 4 \<Longrightarrow> to_le_bytes 4 (from_le_bytes bs :: u32) = bs"
  by (rule to_le_bytes_from_le_bytes) auto

lemma parses_constant:
  "parses decode_constant d (\<lambda>bs c k. bs = encode_constant c \<and> k = 0 \<and> fits_constant (dec_limits d) c)"
  unfolding decode_constant_def Let_def
  by (intro parses_bind_position parses_bind_byte parses_if;
      (rule parses_bind [OF parses_string] | rule parses_bind [OF parses_text])?;
      auto intro!: parsing split: option.split
        simp: number_from_wire_Some_iff BigIntLiteral_new_def to_from_le_bytes_u32)
    (metis to_from_le_bytes_u64)+

interpretation constant_codec: wire_codec encode_constant decode_constant fits_constant "\<lambda>_. 0"
  by unfold_locales (auto intro: feeds_constant parses_weaken [OF parses_constant])

text \<open>What the limits allow of one function; its cost is its number of instructions.\<close>

definition fits_function :: "DecodeLimits \<Rightarrow> Function \<Rightarrow> bool" where
  "fits_function l f \<longleftrightarrow>
     fn_name f \<noteq> Some (- 1)
     \<and> fn_capture_count f \<le> max_capture_count l
     \<and> fn_parameter_count f \<le> max_parameter_count l
     \<and> fn_register_count f \<le> max_register_count l
     \<and> length (fn_code f) \<le> unat (max_instructions_per_function l)
     \<and> length (fn_handlers f) \<le> unat (max_handlers_per_function l)"

abbreviation function_cost :: "Function \<Rightarrow> nat" where
  "function_cost f \<equiv> length (fn_code f)"

lemma decode_encode_name: "name \<noteq> Some (- 1) \<Longrightarrow> decode_name (encode_name name) = name"
  by (cases name) (auto simp: decode_name_def encode_name_def eq_neg_iff_add_eq_0)

lemma encode_decode_name: "encode_name (decode_name n) = n" "decode_name n \<noteq> Some (- 1)"
  by (auto simp: decode_name_def encode_name_def)

lemma feeds_function:
  assumes fits: "fits_function (dec_limits d) f"
    and total: "dec_total_instructions d + function_cost f \<le> max_total_instructions (dec_limits d)"
  shows "feeds decode_function d (encode_function f) f (function_cost f)"
proof -
  from fits have name: "decode_name (encode_name (fn_name f)) = fn_name f"
    by (intro decode_encode_name) (simp add: fits_function_def)
  from fits have code: "as_u32 (length (fn_code f)) \<le> max_instructions_per_function (dec_limits d)"
      "unat (as_u32 (length (fn_code f))) = length (fn_code f)"
    and handlers: "as_u32 (length (fn_handlers f)) \<le> max_handlers_per_function (dec_limits d)"
      "unat (as_u32 (length (fn_handlers f))) = length (fn_handlers f)"
    unfolding fits_function_def by (blast dest: as_u32_le)+
  have bytes: "encode_function f =
     write_u32 (encode_name (fn_name f)) @ write_u32 (fn_capture_count f) @
     write_u32 (fn_parameter_count f) @ write_u32 (fn_register_count f) @
     flags_to_bits (fn_flags f) # write_u32 (as_u32 (length (fn_code f))) @
     concat (map encode_instruction (fn_code f)) @ write_u32 (as_u32 (length (fn_handlers f))) @
     concat (map encode_handler (fn_handlers f)) @ []"
    by (simp add: encode_function_def)
  have ret: "feeds (rreturn \<lparr>fn_name = decode_name (encode_name (fn_name f)),
      fn_capture_count = fn_capture_count f, fn_parameter_count = fn_parameter_count f,
      fn_register_count = fn_register_count f, fn_flags = fn_flags f, fn_code = fn_code f,
      fn_handlers = fn_handlers f\<rparr>) d' [] f 0" for d'
    unfolding name by (cases f) (simp add: feeds_return)
  show ?thesis
    unfolding decode_function_def bytes
    by (rule feeds_cost, (rule feeds_bind_limits feeds_bind_leb128 feeds_bind_bounded
        flags_tag.feeds_bind_tag feeds_bind_position feeds_bind_count
        instruction_codec.feeds_bind_times handler_codec.feeds_bind_times ret)+)
      (use fits code handlers total in \<open>auto simp: fits_function_def\<close>)
qed

lemma parses_function:
  "parses decode_function d (\<lambda>bs f k. bs = encode_function f \<and> k = function_cost f
    \<and> fits_function (dec_limits d) f
    \<and> dec_total_instructions d + k \<le> max_total_instructions (dec_limits d))"
  unfolding decode_function_def
  by (intro parses_bind_limits parses_bind_leb128 parses_bind_bounded flags_tag.parses_bind_tag
      parses_bind_position parses_bind [OF parses_count] parses_bind [OF instruction_codec.parses_times]
      parses_bind [OF handler_codec.parses_times] parses_return)
    (auto simp: encode_function_def fits_function_def word_le_nat_alt encode_decode_name)

interpretation function_codec: wire_codec encode_function decode_function fits_function function_cost
  by unfold_locales (auto intro: feeds_function parses_weaken [OF parses_function])

section \<open>Modules\<close>

text \<open>The modules a decoder with limits \<open>l\<close> can return.\<close>

definition fits_module :: "DecodeLimits \<Rightarrow> Module \<Rightarrow> bool" where
  "fits_module l m \<longleftrightarrow>
     length (m_constants m) \<le> unat (max_constants l)
     \<and> length (m_functions m) \<le> unat (max_functions l)
     \<and> (\<forall>c \<in> set (m_constants m). fits_constant l c)
     \<and> (\<forall>f \<in> set (m_functions m). fits_function l f)
     \<and> sum_list (map function_cost (m_functions m)) \<le> max_total_instructions l
     \<and> m_certificates m = []"

lemma feeds_magic: "feeds (expect_magic bs) d bs () 0"
proof (induction bs arbitrary: d)
  case (Cons b bs)
  then show ?case by (auto intro!: feeds_bind_position feeds_bind_byte)
qed (simp add: feeds_return)

lemma parses_magic: "parses (expect_magic es) d (\<lambda>bs x k. bs = es \<and> k = 0)"
proof (induction es arbitrary: d)
  case (Cons b bs)
  then show ?case by (auto intro!: parsing intro: parses_weaken)
qed (simp add: parses_return)

lemma feeds_module:
  assumes fits: "fits_module (dec_limits d) m" and total: "dec_total_instructions d = 0"
  shows "feeds decode_module d (encode_module m) m (sum_list (map function_cost (m_functions m)))"
proof -
  from fits have ccount: "as_u32 (length (m_constants m)) \<le> max_constants (dec_limits d)"
      "unat (as_u32 (length (m_constants m))) = length (m_constants m)"
    and fcount: "as_u32 (length (m_functions m)) \<le> max_functions (dec_limits d)"
      "unat (as_u32 (length (m_functions m))) = length (m_functions m)"
    unfolding fits_module_def by (blast dest: as_u32_le)+
  have bytes: "encode_module m = MAGIC @ FORMAT_VERSION # write_u32 (as_u32 (length (m_constants m))) @
     concat (map encode_constant (m_constants m)) @ write_u32 (as_u32 (length (m_functions m))) @
     write_u32 (m_entry m) @ concat (map encode_function (m_functions m)) @ []"
    by (simp add: encode_module_def)
  have ret: "feeds (rreturn (Module_new (m_constants m) (m_functions m) (m_entry m))) d' [] m 0" for d'
    using fits by (cases m) (simp add: Module_new_def fits_module_def feeds_return)
  show ?thesis
    unfolding decode_module_def bytes
    by (rule feeds_cost, rule feeds_bind [OF feeds_magic],
        (rule feeds_bind_position feeds_bind_byte feeds_if_False feeds_bind_limits feeds_bind_leb128
          feeds_bind_bounded constant_codec.feeds_bind_times function_codec.feeds_bind_times ret)+)
      (use fits ccount fcount total in \<open>auto simp: fits_module_def\<close>)
qed

lemma parses_module:
  "parses decode_module d (\<lambda>bs m k. bs = encode_module m \<and> k = sum_list (map function_cost (m_functions m))
    \<and> (dec_total_instructions d = 0 \<longrightarrow> fits_module (dec_limits d) m))"
  unfolding decode_module_def
  by (intro parses_bind [OF parses_magic] parses_bind_position parses_bind_byte parses_if parses_error
      parses_bind_limits parses_bind_leb128 parses_bind_bounded
      parses_bind [OF constant_codec.parses_times] parses_bind [OF function_codec.parses_times] parses_return)
    (auto simp: encode_module_def fits_module_def word_le_nat_alt Module_new_def)

text \<open>
  The counter \<open>total_instructions\<close> is a \<open>u64\<close>: every counted instruction takes at least one byte of
  the input, so it never wraps.
\<close>

lemma encode_instruction_nonempty: "encode_instruction i \<noteq> []"
  by (cases i) (simp_all add: encode_extension_def)

lemma length_le_concat_encode: "length is \<le> length (concat (map encode_instruction is))"
proof (induction "is")
  case (Cons i "is")
  have "1 \<le> length (encode_instruction i)"
    using encode_instruction_nonempty [of i] by (cases "encode_instruction i") auto
  with Cons show ?case by simp
qed simp

lemma function_cost_le: "function_cost f \<le> length (encode_function f)"
  using length_le_concat_encode [of "fn_code f"] by (simp add: encode_function_def)

lemma total_cost_le: "sum_list (map function_cost fs) \<le> length (concat (map encode_function fs))"
  by (induction fs) (auto intro: add_mono function_cost_le)

section \<open>The whole decoder\<close>

lemma decode_encode:
  assumes "fits_module l m" and "length (encode_module m) \<le> max_bytes l" and "max_bytes l < 2 ^ 64"
  shows "decode (encode_module m) l = Ok m"
proof -
  let ?d = "\<lparr>dec_bytes = encode_module m, dec_offset = 0, dec_limits = l, dec_total_instructions = 0\<rparr>"
  have "feeds decode_module ?d (encode_module m) m (sum_list (map function_cost (m_functions m)))"
    using assms(1) by (intro feeds_module) simp_all
  then have "decode_module ?d =
      Ok (m, consume (length (encode_module m)) (sum_list (map function_cost (m_functions m))) ?d)"
    by (rule feedsD [where rest = "[]"]) (use assms(2,3) in \<open>simp_all add: remaining_def\<close>)
  with assms(2) show ?thesis by (simp add: decode_def)
qed

lemma decode_parses:
  assumes "decode_module \<lparr>dec_bytes = bs, dec_offset = 0, dec_limits = l, dec_total_instructions = 0\<rparr> =
      Ok (m, d')"
  shows "bs = encode_module m @ remaining d'" "dec_offset d' = length (encode_module m)"
    "fits_module l m"
  using assms parses_module [of "\<lparr>dec_bytes = bs, dec_offset = 0, dec_limits = l, dec_total_instructions = 0\<rparr>"]
  by (auto elim!: parsesE simp: remaining_def)

lemma decode_Ok:
  assumes "decode bs l = Ok m"
  shows "bs = encode_module m" "fits_module l m" "length bs \<le> max_bytes l"
proof -
  let ?d = "\<lparr>dec_bytes = bs, dec_offset = 0, dec_limits = l, dec_total_instructions = 0\<rparr>"
  from assms obtain d' where d: "decode_module ?d = Ok (m, d')" "dec_offset d' = length bs"
    and l: "length bs \<le> max_bytes l"
    by (auto simp: decode_def bind_result_iffs split: if_splits)
  from decode_parses [OF d(1)] d(2) show "bs = encode_module m" "fits_module l m"
    by (metis append_eq_conv_conj append.right_neutral take_all_iff order_refl)+
  show "length bs \<le> max_bytes l" by (rule l)
qed

text \<open>\<open>decode\<close> is the exact inverse of \<open>encode\<close> on the modules that fit the limits.\<close>

lemma decode_iff:
  assumes "max_bytes l < 2 ^ 64"
  shows "decode bs l = Ok m \<longleftrightarrow> bs = encode_module m \<and> fits_module l m \<and> length bs \<le> max_bytes l"
  using decode_Ok [of bs l m] decode_encode [of l m] assms by auto

lemma decode_safe: "decode bs l \<noteq> Panic \<and> (decode bs l = Err e \<longrightarrow> err_offset e \<le> length bs)"
proof -
  let ?d = "\<lparr>dec_bytes = bs, dec_offset = 0, dec_limits = l, dec_total_instructions = 0\<rparr>"
  show ?thesis
    using parses_module [of ?d]
    by (auto simp: decode_def parses_def bind_result_iffs split: if_splits result.splits)
qed

end
