(* ===== verification/Module_Verifier.thy ===== *)
theory Module_Verifier
  imports Dataflow Handlers Instruction_Checks Module_Codec
begin

text \<open>
  The module verifier (\<open>verify_module\<close>, \<open>verify_function\<close> in
  \<^verbatim>\<open>crates/bamts-bytecode/src/lib.rs\<close>), the only route from \<open>Module<Unverified>\<close> to
  \<open>Module<Verified>\<close>, its certificates, and the loading boundary \<open>decode_verified\<close>.
\<close>

section \<open>Functions\<close>

definition verify_function_name :: "Module \<Rightarrow> usize \<Rightarrow> Function \<Rightarrow> (unit, VerifyError) result" where
  "verify_function_name m fi f = (case fn_name f of
      None \<Rightarrow> Ok ()
    | Some name \<Rightarrow> (case slice_get (m_constants m) (unat name) of
        None \<Rightarrow> Err (function_error fi (FunctionNameOutOfBounds name))
      | Some constant \<Rightarrow>
          if \<not> is_string_constant constant
          then Err (function_error fi (FunctionNameNotString name)) else Ok ()))"

definition verify_function_header :: "usize \<Rightarrow> Function \<Rightarrow> (unit, VerifyError) result" where
  "verify_function_header fi f =
     (if fn_code f = [] then Err (function_error fi EmptyFunction)
      else if length (fn_code f) > unat MAX_INSTRUCTIONS
      then Err (function_error fi (TooManyInstructions (length (fn_code f))))
      else if length (fn_handlers f) > unat MAX_HANDLERS
      then Err (function_error fi (TooManyHandlers (length (fn_handlers f))))
      else if fn_register_count f > MAX_REGISTERS
      then Err (function_error fi (RegisterCountOutOfBounds (fn_register_count f)))
      else if fn_parameter_count f > fn_register_count f
      then Err (function_error fi
             (ParameterCountExceedsRegisters (fn_parameter_count f) (fn_register_count f)))
      else if unat (fn_capture_count f) + unat (fn_parameter_count f) > unat (fn_register_count f)
      then Err (function_error fi
             (EntryRegistersExceedRegisterCount (fn_capture_count f) (fn_parameter_count f) (fn_register_count f)))
      else Ok ())"

definition verify_function :: "Module \<Rightarrow> usize \<Rightarrow> Function \<Rightarrow> (Certificate, VerifyError) result" where
  "verify_function m fi f =
     bind_result (verify_function_header fi f) (\<lambda>_.
     bind_result (verify_function_name m fi f) (\<lambda>_.
     bind_result (verify_handlers fi f) (\<lambda>_.
     bind_result (try_all (map (\<lambda>(pc, ins). verify_instruction m fi f pc ins) (enumerate 0 (fn_code f)))) (\<lambda>_.
       definite_initialization fi f))))"

section \<open>Modules\<close>

definition function_facts_words :: "Function \<Rightarrow> nat" where
  "function_facts_words f = u64_saturating (length (fn_code f) * words_for (fn_register_count f))"

definition count_facts_words :: "nat \<Rightarrow> Function \<Rightarrow> (nat, VerifyError) result" where
  "count_facts_words total_words f =
     (let total_words = u64_saturating (total_words + function_facts_words f)
      in if total_words > MAX_VERIFIER_FACTS_WORDS
         then Err (module_error (VerifierWorkLimitExceeded total_words MAX_VERIFIER_FACTS_WORDS))
         else Ok total_words)"

definition verify_module :: "Module \<Rightarrow> (Module, VerifyError) result" where
  "verify_module m =
     (if m_functions m = [] then Err (module_error EmptyModule)
      else if length (m_constants m) > unat MAX_CONSTANTS
      then Err (module_error (TooManyConstants (length (m_constants m))))
      else if length (m_functions m) > unat MAX_FUNCTIONS
      then Err (module_error (TooManyFunctions (length (m_functions m))))
      else if unat (m_entry m) \<ge> length (m_functions m)
      then Err (module_error (EntryFunctionOutOfBounds (m_entry m) (length (m_functions m))))
      else bind_result (try_fold count_facts_words 0 (m_functions m)) (\<lambda>_.
        bind_result (try_map (\<lambda>(fi, f). verify_function m fi f) (enumerate 0 (m_functions m))) (\<lambda>certificates.
          Ok (m\<lparr>m_certificates := certificates\<rparr>))))"

definition certificate :: "Module \<Rightarrow> FunctionId \<Rightarrow> Certificate option" where
  "certificate m function = slice_get (m_certificates m) (unat function)"

definition instruction_count :: "Certificate \<Rightarrow> usize" where
  "instruction_count c = length (cert_facts c)"

definition initialized_before :: "Certificate \<Rightarrow> Pc \<Rightarrow> Register \<Rightarrow> bool option" where
  "initialized_before c pc register =
     (if register \<ge> cert_register_count c then None
      else map_option (\<lambda>facts. rs_contains facts register) (slice_get (cert_facts c) (unat pc)))"

datatype LoadError = Decode DecodeError | Verify VerifyError

definition decode_verified :: "u8 list \<Rightarrow> DecodeLimits \<Rightarrow> (Module, LoadError) result" where
  "decode_verified bytes limits =
     bind_result (map_err Decode (decode bytes limits)) (\<lambda>m. map_err Verify (verify_module m))"

section \<open>The structural specification\<close>

definition name_ok :: "Module \<Rightarrow> Function \<Rightarrow> bool" where
  "name_ok m f \<longleftrightarrow> (case fn_name f of None \<Rightarrow> True
     | Some c \<Rightarrow> unat c < length (m_constants m) \<and> is_string_constant (m_constants m ! unat c))"

definition header_ok :: "Function \<Rightarrow> bool" where
  "header_ok f \<longleftrightarrow> fn_code f \<noteq> [] \<and> length (fn_code f) \<le> 2 ^ 20 \<and> length (fn_handlers f) \<le> 2 ^ 16 \<and>
     unat (fn_register_count f) \<le> 2 ^ 16 \<and>
     unat (fn_capture_count f) + unat (fn_parameter_count f) \<le> unat (fn_register_count f)"

definition function_ok :: "Module \<Rightarrow> Function \<Rightarrow> bool" where
  "function_ok m f \<longleftrightarrow> header_ok f \<and> name_ok m f \<and>
     (\<forall>h \<in> set (fn_handlers f). handler_in_bounds f h) \<and> laminar (fn_handlers f) \<and>
     (\<forall>pc < length (fn_code f). instruction_ok m f pc (fn_code f ! pc)) \<and>
     reads_initialized f"

definition module_ok :: "Module \<Rightarrow> bool" where
  "module_ok m \<longleftrightarrow> length (m_constants m) \<le> 2 ^ 20 \<and> length (m_functions m) \<le> 2 ^ 20 \<and>
     unat (m_entry m) < length (m_functions m) \<and>
     (\<Sum>f \<leftarrow> m_functions m. length (fn_code f) * words_for (fn_register_count f)) \<le> 2 ^ 23 \<and>
     (\<forall>f \<in> set (m_functions m). function_ok m f)"

lemma verify_function_name_spec:
  "verify_function_name m fi f = Ok () \<longleftrightarrow> name_ok m f" "verify_function_name m fi f \<noteq> Panic"
  by (auto simp: verify_function_name_def name_ok_def split: option.splits if_splits)

lemma verify_function_header_spec:
  "verify_function_header fi f = Ok () \<longleftrightarrow> header_ok f" "verify_function_header fi f \<noteq> Panic"
  by (auto simp: verify_function_header_def header_ok_def MAX_INSTRUCTIONS_def MAX_HANDLERS_def
      MAX_REGISTERS_def word_less_nat_alt)

lemma header_ok_entry:
  assumes "header_ok f"
  shows "entry_initialized f \<le> fn_register_count f"
    and "unat (entry_initialized f) = unat (fn_capture_count f) + unat (fn_parameter_count f)"
proof -
  have "unat (fn_capture_count f) + unat (fn_parameter_count f) \<le> 2 ^ 16"
    using assms by (simp add: header_ok_def)
  then show "unat (entry_initialized f) = unat (fn_capture_count f) + unat (fn_parameter_count f)"
    by (simp add: entry_initialized_def min_def del: of_nat_add)
  then show "entry_initialized f \<le> fn_register_count f"
    using assms by (simp add: header_ok_def word_le_nat_alt)
qed

lemma checks_df_valid:
  assumes "header_ok f" and "\<forall>h \<in> set (fn_handlers f). handler_in_bounds f h"
    and "\<forall>pc < length (fn_code f). instruction_ok m f pc (fn_code f ! pc)"
  shows "df_valid f"
  using assms header_ok_entry(1) [OF assms(1)]
  by (auto simp: df_valid_def header_ok_def list_all_iff in_enumerate df_operands_ok_def instruction_ok_def
      df_handler_ok_def handler_in_bounds_def)

lemma function_ok_df_valid: "function_ok m f \<Longrightarrow> df_valid f"
  by (rule checks_df_valid) (auto simp: function_ok_def)

lemma verify_instructions_spec:
  "try_all (map (\<lambda>(pc, ins). verify_instruction m fi f pc ins) (enumerate 0 (fn_code f))) = Ok () \<longleftrightarrow>
     (\<forall>pc < length (fn_code f). instruction_ok m f pc (fn_code f ! pc))"
  "try_all (map (\<lambda>(pc, ins). verify_instruction m fi f pc ins) (enumerate 0 (fn_code f))) \<noteq> Panic"
  by (simp add: try_all_Ok_iff all_enumerate verify_instruction_Ok_iff,
      rule try_all_map_no_Panic, simp add: verify_instruction_no_Panic split: prod.split)

lemma verify_function_Ok_iff: "(\<exists>c. verify_function m fi f = Ok c) \<longleftrightarrow> function_ok m f"
proof -
  have "(\<exists>c. verify_function m fi f = Ok c) \<longleftrightarrow>
      header_ok f \<and> name_ok m f \<and> (\<forall>h \<in> set (fn_handlers f). handler_in_bounds f h) \<and> laminar (fn_handlers f) \<and>
      (\<forall>pc < length (fn_code f). instruction_ok m f pc (fn_code f ! pc)) \<and>
      (\<exists>c. definite_initialization fi f = Ok c)"
    by (auto simp: verify_function_def bind_result_iffs verify_function_header_spec verify_function_name_spec
        verify_handlers_Ok_iff verify_instructions_spec)
  then show ?thesis
    using definite_initialization_Ok_iff [of f fi] checks_df_valid [of f m] by (auto simp: function_ok_def)
qed

lemma verify_function_certificate:
  "verify_function m fi f = Ok c \<Longrightarrow> definite_initialization fi f = Ok c"
  by (auto simp: verify_function_def bind_result_iffs)

lemma verify_function_no_Panic: "verify_function m fi f \<noteq> Panic"
proof
  assume "verify_function m fi f = Panic"
  then have "header_ok f" "\<forall>h \<in> set (fn_handlers f). handler_in_bounds f h"
    "\<forall>pc < length (fn_code f). instruction_ok m f pc (fn_code f ! pc)" "definite_initialization fi f = Panic"
    by (auto simp: verify_function_def bind_result_iffs verify_function_header_spec verify_function_name_spec
        verify_handlers_Ok_iff verify_instructions_spec verify_handlers_no_Panic)
  with definite_initialization_no_Panic [OF checks_df_valid] show False by blast
qed

lemma count_facts_words_spec:
  assumes "t \<le> 2 ^ 23"
  shows "((\<exists>t'. try_fold count_facts_words t fs = Ok t') \<longleftrightarrow>
      t + (\<Sum>f \<leftarrow> fs. length (fn_code f) * words_for (fn_register_count f)) \<le> 2 ^ 23) \<and>
    try_fold count_facts_words t fs \<noteq> Panic"
  using assms
proof (induction fs arbitrary: t)
  case (Cons f fs)
  let ?w = "length (fn_code f) * words_for (fn_register_count f)"
  have step: "count_facts_words t f = (if t + ?w \<le> 2 ^ 23 then Ok (t + ?w) else
      Err (module_error (VerifierWorkLimitExceeded (u64_saturating (t + u64_saturating ?w)) (2 ^ 23))))"
    using Cons.prems
    by (auto simp: count_facts_words_def function_facts_words_def u64_saturating_def
        MAX_VERIFIER_FACTS_WORDS_def Let_def min_def)
  show ?case using Cons.IH [of "t + ?w"] by (auto simp: step add_ac)
qed simp

lemma verify_functions_spec:
  "(\<exists>cs. try_map (\<lambda>(fi, f). verify_function m fi f) (enumerate 0 (m_functions m)) = Ok cs) \<longleftrightarrow>
     (\<forall>f \<in> set (m_functions m). function_ok m f)"
proof
  assume "\<exists>cs. try_map (\<lambda>(fi, f). verify_function m fi f) (enumerate 0 (m_functions m)) = Ok cs"
  then obtain cs where
    "list_all2 (\<lambda>x c. (case x of (fi, f) \<Rightarrow> verify_function m fi f) = Ok c) (enumerate 0 (m_functions m)) cs"
    by (auto simp: try_map_Ok_iff)
  then have "function_ok m (m_functions m ! i)" if "i < length (m_functions m)" for i
    using that verify_function_Ok_iff [of m i "m_functions m ! i"]
    by (auto simp: list_all2_conv_all_nth nth_enumerate_eq)
  then show "\<forall>f \<in> set (m_functions m). function_ok m f" by (simp add: all_set_conv_all_nth)
next
  assume ok: "\<forall>f \<in> set (m_functions m). function_ok m f"
  have "\<forall>at \<in> set (enumerate 0 (m_functions m)). \<exists>c. (case at of (fi, f) \<Rightarrow> verify_function m fi f) = Ok c"
    using ok verify_function_Ok_iff by (simp add: all_enumerate)
  then obtain g where "\<forall>at \<in> set (enumerate 0 (m_functions m)). (case at of (fi, f) \<Rightarrow> verify_function m fi f) = Ok (g at)"
    by (metis (no_types))
  then have "try_map (\<lambda>(fi, f). verify_function m fi f) (enumerate 0 (m_functions m)) =
      Ok (map g (enumerate 0 (m_functions m)))"
    by (auto simp: try_map_Ok_iff list_all2_map2 list_all2_same)
  then show "\<exists>cs. try_map (\<lambda>(fi, f). verify_function m fi f) (enumerate 0 (m_functions m)) = Ok cs" by blast
qed

lemma verify_module_Ok_iff: "(\<exists>m'. verify_module m = Ok m') \<longleftrightarrow> module_ok m"
proof -
  have "(\<exists>m'. verify_module m = Ok m') \<longleftrightarrow>
      length (m_constants m) \<le> 2 ^ 20 \<and> length (m_functions m) \<le> 2 ^ 20 \<and>
      unat (m_entry m) < length (m_functions m) \<and>
      (\<exists>t. try_fold count_facts_words 0 (m_functions m) = Ok t) \<and>
      (\<exists>cs. try_map (\<lambda>(fi, f). verify_function m fi f) (enumerate 0 (m_functions m)) = Ok cs)"
    by (auto simp: verify_module_def bind_result_iffs MAX_CONSTANTS_def MAX_FUNCTIONS_def)
  then show ?thesis
    using count_facts_words_spec [of 0] by (simp add: module_ok_def verify_functions_spec)
qed

lemma verify_module_no_Panic: "verify_module m \<noteq> Panic"
proof
  assume "verify_module m = Panic"
  then have "try_map (\<lambda>(fi, f). verify_function m fi f) (enumerate 0 (m_functions m)) = Panic"
    using count_facts_words_spec [of 0]
    by (auto simp: verify_module_def bind_result_iffs split: if_splits)
  then show False by (auto dest!: try_map_Panic simp: verify_function_no_Panic)
qed

lemma verify_module_result:
  assumes "verify_module m = Ok m'"
  shows "m' = m\<lparr>m_certificates := m_certificates m'\<rparr>"
    and "length (m_certificates m') = length (m_functions m)"
    and "fi < length (m_functions m) \<Longrightarrow>
      definite_initialization fi (m_functions m ! fi) = Ok (m_certificates m' ! fi)"
proof -
  from assms obtain cs where m': "m' = m\<lparr>m_certificates := cs\<rparr>"
    and cs: "try_map (\<lambda>(fi, f). verify_function m fi f) (enumerate 0 (m_functions m)) = Ok cs"
    by (auto simp: verify_module_def bind_result_iffs split: if_splits)
  then show "m' = m\<lparr>m_certificates := m_certificates m'\<rparr>" by simp
  from cs m' show "length (m_certificates m') = length (m_functions m)"
    by (auto dest: try_map_length)
  assume "fi < length (m_functions m)"
  with cs m' have "verify_function m fi (m_functions m ! fi) = Ok (m_certificates m' ! fi)"
    by (auto simp: try_map_Ok_iff list_all2_conv_all_nth nth_enumerate_eq)
  then show "definite_initialization fi (m_functions m ! fi) = Ok (m_certificates m' ! fi)"
    by (rule verify_function_certificate)
qed

end
