(* ===== verification/Ecma_Strings.thy ===== *)
theory Ecma_Strings
  imports Bytecode_Module
begin

text \<open>
  ECMAScript strings (\<^verbatim>\<open>crates/bamts-bytecode/src/string.rs\<close>): exact sequences of UTF-16 code
  units, unpaired surrogates included, their code points, the conversions from and to Rust strings,
  and the builder. A Rust \<open>str\<close> is its list of Unicode scalar values; the three functions of the
  standard library the source calls (\<open>encode_utf16\<close>, \<open>from_utf16\<close>, \<open>from_utf16_lossy\<close>) are modelled
  by their definition over code units.
\<close>

section \<open>Surrogates and scalar values\<close>

definition is_high_surrogate :: "u16 \<Rightarrow> bool" where
  "is_high_surrogate u \<longleftrightarrow> u \<ge> 0xD800 \<and> u \<le> 0xDBFF"

definition is_low_surrogate :: "u16 \<Rightarrow> bool" where
  "is_low_surrogate u \<longleftrightarrow> u \<ge> 0xDC00 \<and> u \<le> 0xDFFF"

type_synonym rust_str = "u32 list"

definition is_scalar :: "u32 \<Rightarrow> bool" where
  "is_scalar c \<longleftrightarrow> c \<le> 0x10FFFF \<and> \<not> (0xD800 \<le> c \<and> c \<le> 0xDFFF)"

definition is_str :: "rust_str \<Rightarrow> bool" where
  "is_str s \<longleftrightarrow> list_all is_scalar s"

section \<open>The standard library's conversions\<close>

definition char_encode_utf16 :: "u32 \<Rightarrow> u16 list" where
  "char_encode_utf16 c =
     (if c \<le> 0xFFFF then [ucast c]
      else let s = c - 0x10000 in [0xD800 OR ucast (drop_bit 10 s), 0xDC00 OR (ucast s AND 0x3FF)])"

definition encode_utf16 :: "rust_str \<Rightarrow> u16 list" where
  "encode_utf16 s = concat (map char_encode_utf16 s)"

definition surrogate_pair :: "u16 \<Rightarrow> u16 \<Rightarrow> u32" where
  "surrogate_pair high low = (push_bit 10 (ucast high AND 0x3FF) OR (ucast low AND 0x3FF)) + 0x10000"

text \<open>\<open>char::decode_utf16\<close>: one entry per character, the lone surrogate where decoding fails.\<close>

fun decode_utf16 :: "u16 list \<Rightarrow> (u32 + u16) list" where
  "decode_utf16 [] = []"
| "decode_utf16 [u] =
     [if \<not> is_high_surrogate u \<and> \<not> is_low_surrogate u then Inl (ucast u) else Inr u]"
| "decode_utf16 (u # v # us) =
     (if \<not> is_high_surrogate u \<and> \<not> is_low_surrogate u then Inl (ucast u) # decode_utf16 (v # us)
      else if is_high_surrogate u \<and> is_low_surrogate v then Inl (surrogate_pair u v) # decode_utf16 us
      else Inr u # decode_utf16 (v # us))"

definition std_from_utf16 :: "u16 list \<Rightarrow> rust_str option" where
  "std_from_utf16 us =
     (if list_all isl (decode_utf16 us) then Some (map projl (decode_utf16 us)) else None)"

definition std_from_utf16_lossy :: "u16 list \<Rightarrow> rust_str" where
  "std_from_utf16_lossy us = map (case_sum id (\<lambda>_. 0xFFFD)) (decode_utf16 us)"

section \<open>EcmaString\<close>

definition ecma_encode :: "rust_str \<Rightarrow> EcmaString" where
  "ecma_encode value = encode_utf16 value"

definition unit_at :: "EcmaString \<Rightarrow> usize \<Rightarrow> u16 option" where
  "unit_at units offset = slice_get units offset"

definition slice_units :: "EcmaString \<Rightarrow> usize \<Rightarrow> usize \<Rightarrow> EcmaString option" where
  "slice_units units start stop =
     (if start \<le> stop \<and> stop \<le> length units then Some (take (stop - start) (drop start units)) else None)"

definition eq_ascii :: "EcmaString \<Rightarrow> u8 list \<Rightarrow> bool" where
  "eq_ascii units value \<longleftrightarrow> list_all (\<lambda>b. b < 0x80) value \<and> length units = length value \<and>
     list_all (\<lambda>(u, b). u = ucast b) (zip units value)"

text \<open>
  The iterator of \<open>code_points\<close>, run to its end: \<open>offset\<close> is its captured variable and the list is
  what is left of the string from there.
\<close>

fun code_points_from :: "usize \<Rightarrow> u16 list \<Rightarrow> (usize \<times> u32) list" where
  "code_points_from offset [] = []"
| "code_points_from offset [u] = [(offset, ucast u)]"
| "code_points_from offset (u # low # us) =
     (if is_high_surrogate u \<and> is_low_surrogate low
      then (offset, 0x10000 + push_bit 10 (ucast u - 0xD800) + (ucast low - 0xDC00)) #
           code_points_from (offset + 2) us
      else (offset, ucast u) # code_points_from (offset + 1) (low # us))"

definition code_points :: "EcmaString \<Rightarrow> (usize \<times> u32) list" where
  "code_points units = code_points_from 0 units"

text \<open>The \<open>while\<close> loop of \<open>first_ill_formed_offset\<close>, with the same reading of its list argument.\<close>

fun ill_formed_from :: "usize \<Rightarrow> u16 list \<Rightarrow> usize option" where
  "ill_formed_from offset [] = None"
| "ill_formed_from offset [u] =
     (if is_high_surrogate u then Some offset
      else if is_low_surrogate u then Some offset else None)"
| "ill_formed_from offset (u # next_unit # us) =
     (if is_high_surrogate u
      then if is_low_surrogate next_unit then ill_formed_from (offset + 2) us else Some offset
      else if is_low_surrogate u then Some offset
      else ill_formed_from (offset + 1) (next_unit # us))"

definition first_ill_formed_offset :: "EcmaString \<Rightarrow> usize option" where
  "first_ill_formed_offset units = ill_formed_from 0 units"

definition is_well_formed :: "EcmaString \<Rightarrow> bool" where
  "is_well_formed units \<longleftrightarrow> first_ill_formed_offset units = None"

record IllFormedUtf16 =
  unit_offset :: usize

text \<open>\<open>unreachable!\<close> is a panic.\<close>

definition to_utf8_strict :: "EcmaString \<Rightarrow> (rust_str, IllFormedUtf16) result" where
  "to_utf8_strict units = (case first_ill_formed_offset units of
      Some offset \<Rightarrow> Err \<lparr>unit_offset = offset\<rparr>
    | None \<Rightarrow> (case std_from_utf16 units of Some s \<Rightarrow> Ok s | None \<Rightarrow> Panic))"

definition to_utf8_lossy :: "EcmaString \<Rightarrow> rust_str" where
  "to_utf8_lossy units = std_from_utf16_lossy units"

section \<open>EcmaStringBuilder\<close>

type_synonym EcmaStringBuilder = "u16 list"

record InvalidCodePoint =
  icp_value :: u32

definition builder_new :: EcmaStringBuilder where
  "builder_new = []"

definition push_unit :: "u16 \<Rightarrow> EcmaStringBuilder \<Rightarrow> EcmaStringBuilder" where
  "push_unit u b = b @ [u]"

definition push_utf8 :: "rust_str \<Rightarrow> EcmaStringBuilder \<Rightarrow> EcmaStringBuilder" where
  "push_utf8 value b = b @ encode_utf16 value"

definition push_code_point :: "u32 \<Rightarrow> EcmaStringBuilder \<Rightarrow> (EcmaStringBuilder, InvalidCodePoint) result" where
  "push_code_point code_point b =
     (if code_point > 0x10FFFF then Err \<lparr>icp_value = code_point\<rparr>
      else if code_point \<le> 0xFFFF then Ok (b @ [ucast code_point])
      else let supplementary = code_point - 0x10000
           in Ok (b @ [0xD800 OR ucast (drop_bit 10 supplementary)] @ [0xDC00 OR (ucast supplementary AND 0x3FF)]))"

definition finish :: "EcmaStringBuilder \<Rightarrow> EcmaString" where
  "finish b = b"

section \<open>Surrogate arithmetic\<close>

lemma surrogate_bounds:
  "is_high_surrogate u \<longleftrightarrow> 0xD800 \<le> unat u \<and> unat u < 0xDC00"
  "is_low_surrogate u \<longleftrightarrow> 0xDC00 \<le> unat u \<and> unat u < 0xE000"
  by (auto simp: is_high_surrogate_def is_low_surrogate_def word_le_nat_alt)

lemma is_scalar_unat: "is_scalar c \<longleftrightarrow> unat c < 0x110000 \<and> \<not> (0xD800 \<le> unat c \<and> unat c < 0xE000)"
  by (auto simp: is_scalar_def word_le_nat_alt)

lemma low10: "unat (x :: 'a::len word) < 1024 \<Longrightarrow> take_bit 10 x = x"
  by (simp add: word_unat_eq_iff unsigned_take_bit_eq take_bit_nat_eq_self)

lemma or_low10:
  assumes "unat (x :: 'a::len word) < 1024"
  shows "push_bit 10 k OR x = push_bit 10 k + x"
proof -
  have "push_bit 10 k AND take_bit 10 x = 0" by (rule bit_word_eqI) (auto simp: bit_simps)
  then show ?thesis using low10 [OF assms] by (simp add: disjunctive_add_eq_or)
qed

lemma unat_u16_bound: "unat (u :: u16) < 65536"
  using unsigned_less [of u, where ?'a = nat] by simp

lemma unat_ucast_u16: "unat (ucast (u :: u16) :: u32) = unat u"
  using unat_u16_bound [of u] by (simp add: unsigned_ucast_eq take_bit_nat_eq_self)

lemma unat_and_low10: "unat (x AND 0x3FF) = unat (x :: 'a::len word) mod 1024"
proof -
  have "x AND 0x3FF = take_bit 10 x" by (simp add: take_bit_eq_mask mask_eq_exp_minus_1)
  then show ?thesis by (simp only: unsigned_take_bit_eq) (simp add: take_bit_eq_mod)
qed

lemma unat_supplementary:
  assumes "unat (x :: u32) < 1024" "unat (y :: u32) < 1024"
  shows "unat (0x10000 + push_bit 10 x + y) = 65536 + unat x * 1024 + unat y"
proof -
  have "unat (push_bit 10 x) = unat x * 1024"
    using assms by (simp add: push_bit_eq_mult unat_word_ariths(2))
  then have "unat (0x10000 + push_bit 10 x) = 65536 + unat x * 1024"
    using assms by (simp add: unat_word_ariths(1) del: push_bit_numeral push_bit_Suc push_bit_eq_mult)
  then show ?thesis using assms by (subst unat_word_ariths(1)) simp
qed

lemma unat_ucast_sub: "k \<le> unat u \<Longrightarrow> unat (ucast (u :: u16) - word_of_nat k :: u32) = unat u - k"
  using unat_u16_bound [of u] by (simp add: unat_sub word_le_nat_alt unat_ucast_u16)

lemma unat_code_point:
  assumes "is_high_surrogate u" "is_low_surrogate low"
  shows "unat (0x10000 + push_bit 10 (ucast u - 0xD800) + (ucast low - 0xDC00) :: u32) =
    65536 + (unat u - 0xD800) * 1024 + (unat low - 0xDC00)"
  using surrogate_bounds [of u] surrogate_bounds [of low] assms
    unat_ucast_sub [of "0xD800" u] unat_ucast_sub [of "0xDC00" low]
  by (subst unat_supplementary) auto

lemma unat_surrogate_pair:
  "unat (surrogate_pair u low) = 65536 + (unat u mod 1024) * 1024 + unat low mod 1024"
  unfolding surrogate_pair_def
  by (subst or_low10) (simp add: unat_and_low10, subst add.commute,
      subst add.assoc [symmetric], subst unat_supplementary, simp_all add: unat_and_low10 unat_ucast_u16)

lemma unat_surrogate_or:
  assumes "unat (x :: u16) < 1024"
  shows "unat (0xD800 OR x) = 0xD800 + unat x" "unat (0xDC00 OR x) = 0xDC00 + unat x"
  using assms or_low10 [OF assms, of 54] or_low10 [OF assms, of 55] by (simp_all add: unat_word_ariths)

lemma unat_ucast_down: "unat (ucast (c :: u32) :: u16) = unat c mod 65536"
  by (simp add: unsigned_ucast_eq) (simp add: take_bit_eq_mod)

lemma unat_drop10: "unat (drop_bit 10 (c :: u32)) = unat c div 1024"
  by (simp only: unsigned_drop_bit_eq) (simp add: drop_bit_eq_div take_bit_nat_eq_self)

lemma unat_high: "unat s < 2^20 \<Longrightarrow> unat (0xD800 OR ucast (drop_bit 10 (s :: u32)) :: u16) = 0xD800 + unat s div 1024"
  by (subst unat_surrogate_or) (simp_all add: unat_ucast_down unat_drop10)

lemma unat_low: "unat (0xDC00 OR (ucast (s :: u32) AND 0x3FF) :: u16) = 0xDC00 + unat s mod 1024"
  by (subst unat_surrogate_or) (simp_all add: unat_ucast_down unat_and_low10 mod_mod_cancel)

lemma low_not_high: "is_low_surrogate u \<Longrightarrow> \<not> is_high_surrogate u"
  by (simp add: surrogate_bounds)

text \<open>The source's formula for a pair is the standard library's.\<close>

lemma mod_1024:
  assumes "k * 1024 \<le> n" "n < k * 1024 + 1024"
  shows "n mod 1024 = n - k * (1024 :: nat)"
proof -
  obtain j where j: "n = k * 1024 + j" using assms(1) le_Suc_ex by blast
  then have "n mod 1024 = j mod 1024" by (simp only: mod_mult_self3)
  then show ?thesis using j assms(2) by simp
qed

lemma surrogate_pair_eq:
  assumes "is_high_surrogate u" "is_low_surrogate low"
  shows "0x10000 + push_bit 10 (ucast u - 0xD800) + (ucast low - 0xDC00) = surrogate_pair u low"
  using assms mod_1024 [of 54 "unat u"] mod_1024 [of 55 "unat low"]
  unfolding word_unat_eq_iff unat_code_point [OF assms] unat_surrogate_pair
  by (simp add: surrogate_bounds)

lemma supplementary_split:
  assumes "\<not> (c :: u32) \<le> 0xFFFF" "c \<le> 0x10FFFF"
  shows "unat (c - 0x10000) = unat c - 65536" "unat (c - 0x10000) < 2 ^ 20"
  using assms by (auto simp: unat_sub word_le_nat_alt)

lemma ucast_ucast_u16: "ucast (ucast (u :: u16) :: u32) = u"
  using unat_u16_bound [of u] by (simp add: word_unat_eq_iff unat_ucast_down unat_ucast_u16)

lemma char_encode_unit: "char_encode_utf16 (ucast u) = [u]"
proof -
  have "ucast u \<le> (0xFFFF :: u32)" using unat_u16_bound [of u] by (simp add: word_le_nat_alt unat_ucast_u16)
  then show ?thesis by (simp add: char_encode_utf16_def ucast_ucast_u16)
qed

lemma char_encode_pair:
  assumes "is_high_surrogate u" "is_low_surrogate low"
  shows "char_encode_utf16 (surrogate_pair u low) = [u, low]" "is_scalar (surrogate_pair u low)"
proof -
  let ?c = "surrogate_pair u low"
  have c: "unat ?c = 65536 + (unat u - 0xD800) * 1024 + (unat low - 0xDC00)"
    unfolding surrogate_pair_eq [OF assms, symmetric] by (rule unat_code_point [OF assms])
  have b: "0xD800 \<le> unat u" "unat u < 0xDC00" "0xDC00 \<le> unat low" "unat low < 0xE000"
    using assms by (auto simp: surrogate_bounds)
  have big: "\<not> ?c \<le> 0xFFFF" "?c \<le> 0x10FFFF" using c b by (auto simp: word_le_nat_alt)
  note s = supplementary_split [OF big]
  obtain i j where ij: "unat u = 0xD800 + i" "unat low = 0xDC00 + j" "j < 1024"
    using b le_Suc_ex [OF b(1)] le_Suc_ex [OF b(3)] by auto
  have "unat (?c - 0x10000) = i * 1024 + j" using s(1) c ij by simp
  then have "unat (?c - 0x10000) div 1024 = unat u - 0xD800" "unat (?c - 0x10000) mod 1024 = unat low - 0xDC00"
    using ij by simp_all
  then show "char_encode_utf16 ?c = [u, low]"
    using big b unat_high [OF s(2)] unat_low [of "?c - 0x10000"]
    by (simp add: char_encode_utf16_def Let_def word_unat_eq_iff)
  show "is_scalar ?c" using c b by (auto simp: is_scalar_unat)
qed

lemma char_encode_scalar:
  assumes "is_scalar c"
  shows "(\<exists>u. c = ucast u \<and> \<not> is_high_surrogate u \<and> \<not> is_low_surrogate u) \<or>
    (\<exists>u v. is_high_surrogate u \<and> is_low_surrogate v \<and> c = surrogate_pair u v)"
proof (cases "c \<le> 0xFFFF")
  case True
  then have "c = ucast (ucast c :: u16)"
    by (simp add: word_unat_eq_iff unat_ucast_down unat_ucast_u16 word_le_nat_alt)
  moreover have "unat (ucast c :: u16) = unat c" using True by (simp add: unat_ucast_down word_le_nat_alt)
  ultimately show ?thesis using assms
    by (intro disjI1 exI [of _ "ucast c"]) (auto simp: surrogate_bounds is_scalar_unat)
next
  case False
  from assms have "c \<le> 0x10FFFF" by (simp add: is_scalar_def)
  note s = supplementary_split [OF False this]
  let ?h = "0xD800 OR ucast (drop_bit 10 (c - 0x10000)) :: u16" and ?l = "0xDC00 OR (ucast (c - 0x10000) AND 0x3FF) :: u16"
  have hl: "is_high_surrogate ?h" "is_low_surrogate ?l"
    using s(2) by (auto simp: surrogate_bounds unat_high [OF s(2)] unat_low)
  have "unat (surrogate_pair ?h ?l) = 65536 + unat (c - 0x10000)"
    unfolding surrogate_pair_eq [OF hl, symmetric] unat_code_point [OF hl] unat_high [OF s(2)] unat_low by simp
  then have "c = surrogate_pair ?h ?l" using s(1) False by (simp add: word_unat_eq_iff word_le_nat_alt)
  with hl show ?thesis by blast
qed

lemma scalar_cases:
  assumes "is_scalar c"
  obtains (unit) u where "c = ucast u" "\<not> is_high_surrogate u" "\<not> is_low_surrogate u"
  | (pair) u v where "is_high_surrogate u" "is_low_surrogate v" "c = surrogate_pair u v"
  using char_encode_scalar [OF assms] by blast

lemma unit_scalar: "is_scalar (ucast u) \<longleftrightarrow> \<not> is_high_surrogate u \<and> \<not> is_low_surrogate u"
  using unat_u16_bound [of u] by (auto simp: is_scalar_unat surrogate_bounds unat_ucast_u16)

section \<open>Code points\<close>

lemma code_points_from_encode:
  "concat (map (char_encode_utf16 \<circ> snd) (code_points_from offset us)) = us"
  by (induction offset us rule: code_points_from.induct)
    (simp_all add: char_encode_unit surrogate_pair_eq char_encode_pair)

lemma code_points_from_range: "(i, c) \<in> set (code_points_from offset us) \<Longrightarrow> c \<le> 0x10FFFF"
proof (induction offset us rule: code_points_from.induct)
  case (3 offset u low us)
  have "ucast u \<le> (0x10FFFF :: u32)" using unat_u16_bound [of u] by (simp add: word_le_nat_alt unat_ucast_u16)
  with 3 show ?case
    by (auto simp: surrogate_pair_eq dest: char_encode_pair(2) simp: is_scalar_def split: if_splits)
next
  case (2 offset u)
  then show ?case using unat_u16_bound [of u] by (simp add: word_le_nat_alt unat_ucast_u16)
qed simp

lemma code_points_from_offset:
  "(i, c) \<in> set (code_points_from offset us) \<Longrightarrow>
     offset \<le> i \<and> take (length (char_encode_utf16 c)) (drop (i - offset) us) = char_encode_utf16 c"
proof (induction offset us rule: code_points_from.induct)
  case (3 offset u low us)
  show ?case
  proof (cases "is_high_surrogate u \<and> is_low_surrogate low")
    case True
    with 3 show ?thesis
      by (auto simp: surrogate_pair_eq char_encode_pair Suc_diff_Suc numeral_2_eq_2 drop_Cons'
          split: if_splits) 
  next
    case False
    with 3 show ?thesis
      by (auto simp: char_encode_unit drop_Cons' split: if_splits)
  qed
qed (auto simp: char_encode_unit)

lemma push_code_point_encode:
  "push_code_point c b = (if c > 0x10FFFF then Err \<lparr>icp_value = c\<rparr> else Ok (b @ char_encode_utf16 c))"
  by (simp add: push_code_point_def char_encode_utf16_def Let_def)

lemma push_code_points:
  "\<forall>c \<in> set cs. c \<le> 0x10FFFF \<Longrightarrow>
     try_fold (\<lambda>b c. push_code_point c b) b cs = Ok (b @ encode_utf16 cs)"
proof (induction cs arbitrary: b)
  case (Cons c cs)
  then show ?case using Cons.IH [of "b @ char_encode_utf16 c"]
    by (auto simp: push_code_point_encode encode_utf16_def not_le [symmetric])
qed (simp add: encode_utf16_def)

section \<open>Well-formedness and the conversions\<close>

lemma ill_formed_decode: "ill_formed_from offset us = None \<longleftrightarrow> list_all isl (decode_utf16 us)"
  by (induction offset us rule: ill_formed_from.induct) (auto simp: low_not_high)

lemma decode_code_points:
  "decode_utf16 us = map (\<lambda>(_, c). if is_scalar c then Inl c else Inr (ucast c)) (code_points_from offset us)"
proof (induction offset us rule: code_points_from.induct)
  case (2 offset u)
  then show ?case by (simp add: unit_scalar ucast_ucast_u16)
next
  case (3 offset u low us)
  then show ?case
    by (auto simp: unit_scalar ucast_ucast_u16 surrogate_pair_eq char_encode_pair low_not_high)
qed simp

lemma decode_encode_scalar:
  assumes "is_scalar c"
  shows "decode_utf16 (char_encode_utf16 c @ us) = Inl c # decode_utf16 us"
proof (cases rule: scalar_cases [OF assms])
  case (1 u)
  then show ?thesis by (cases us) (simp_all add: char_encode_unit)
next
  case (2 u v)
  then show ?thesis by (simp add: char_encode_pair low_not_high)
qed

lemma decode_encode_str: "is_str s \<Longrightarrow> decode_utf16 (encode_utf16 s) = map Inl s"
  by (induction s) (simp_all add: is_str_def encode_utf16_def decode_encode_scalar)

lemma encode_decode_str:
  assumes "list_all isl (decode_utf16 us)"
  shows "is_str (map projl (decode_utf16 us))" "encode_utf16 (map projl (decode_utf16 us)) = us"
proof -
  let ?cs = "code_points_from 0 us"
  have sc: "\<forall>x \<in> set ?cs. is_scalar (snd x)"
    using assms unfolding decode_code_points [of us 0] by (auto simp: list_all_iff split: if_splits)
  then have "map projl (decode_utf16 us) = map snd ?cs"
    unfolding decode_code_points [of us 0] by auto
  then show "is_str (map projl (decode_utf16 us))" "encode_utf16 (map projl (decode_utf16 us)) = us"
    using sc code_points_from_encode [of 0 us] by (simp_all add: is_str_def list_all_iff encode_utf16_def o_def)
qed

lemma to_utf8_strict_Ok_iff: "to_utf8_strict us = Ok s \<longleftrightarrow> is_str s \<and> ecma_encode s = us"
proof
  assume "to_utf8_strict us = Ok s"
  then show "is_str s \<and> ecma_encode s = us"
    using encode_decode_str [of us]
    by (auto simp: to_utf8_strict_def std_from_utf16_def ecma_encode_def split: option.splits if_splits)
next
  assume s: "is_str s \<and> ecma_encode s = us"
  then have d: "decode_utf16 us = map Inl s" using decode_encode_str by (auto simp: ecma_encode_def)
  then have "list_all isl (decode_utf16 us)" by (simp add: list_all_iff)
  with d show "to_utf8_strict us = Ok s"
    by (auto simp: to_utf8_strict_def first_ill_formed_offset_def std_from_utf16_def
        ill_formed_decode [of 0, THEN iffD2] o_def)
qed

lemma to_utf8_strict_no_Panic: "to_utf8_strict us \<noteq> Panic"
  by (auto simp: to_utf8_strict_def first_ill_formed_offset_def std_from_utf16_def ill_formed_decode
      split: option.splits)

text \<open>A code unit that is part of no pair, after a well-formed prefix.\<close>

definition unpaired_at :: "u16 list \<Rightarrow> usize \<Rightarrow> bool" where
  "unpaired_at us i \<longleftrightarrow> i < length us \<and>
     (is_low_surrogate (us ! i) \<or>
      is_high_surrogate (us ! i) \<and> \<not> (Suc i < length us \<and> is_low_surrogate (us ! Suc i)))"

lemma ill_formed_from_Some:
  "ill_formed_from offset us = Some i \<Longrightarrow>
     offset \<le> i \<and> unpaired_at us (i - offset) \<and> ill_formed_from 0 (take (i - offset) us) = None"
proof (induction offset us arbitrary: i rule: ill_formed_from.induct)
  case (3 offset u v us)
  show ?case
  proof (cases "is_high_surrogate u \<and> is_low_surrogate v")
    case True
    with 3(1) [of i] 3(3) have ih: "offset + 2 \<le> i" "unpaired_at us (i - (offset + 2))"
      "ill_formed_from 0 (take (i - (offset + 2)) us) = None" by auto
    obtain k where "i = offset + 2 + k" using ih(1) le_Suc_ex by blast
    with ih True show ?thesis by (simp add: unpaired_at_def ill_formed_decode low_not_high)
  next
    case False
    show ?thesis
    proof (cases "is_high_surrogate u \<or> is_low_surrogate u")
      case True
      with False 3(3) show ?thesis by (auto simp: unpaired_at_def split: if_splits)
    next
      case False
      with 3(2) [of i] 3(3) have ih: "offset + 1 \<le> i" "unpaired_at (v # us) (i - (offset + 1))"
        "ill_formed_from 0 (take (i - (offset + 1)) (v # us)) = None" by auto
      obtain k where i: "i = offset + 1 + k" using ih(1) le_Suc_ex by blast
      with ih False show ?thesis by (cases k) (simp_all add: unpaired_at_def ill_formed_decode)
    qed
  qed
qed (auto simp: unpaired_at_def split: if_splits)

lemma to_utf8_lossy_code_points:
  "to_utf8_lossy us = map (\<lambda>(_, c). if is_scalar c then c else 0xFFFD) (code_points us)"
  by (auto simp: to_utf8_lossy_def std_from_utf16_lossy_def decode_code_points [of us 0] code_points_def)

lemma is_well_formed_code_points: "is_well_formed us \<longleftrightarrow> (\<forall>(_, c) \<in> set (code_points us). is_scalar c)"
  by (auto simp: is_well_formed_def first_ill_formed_offset_def ill_formed_decode
      decode_code_points [of us 0] code_points_def list_all_iff split: if_splits)

lemma eq_ascii_iff: "eq_ascii us value \<longleftrightarrow> list_all (\<lambda>b. b < 0x80) value \<and> us = map ucast value"
  by (auto simp: eq_ascii_def list_all_length list_eq_iff_nth_eq)

end
