(* ===== verification/Program_Model.thy ===== *)
theory Program_Model
  imports Module_Verifier Ecma_Strings
begin

text \<open>
  Whole programs (\<^verbatim>\<open>crates/bamts-bytecode/src/program.rs\<close>): the linkage data of the modules, the
  metadata verifier behind \<open>Program::link\<close> with its export-cycle detection, and the bounded walk
  \<open>resolve_export\<close>. A \<open>HashMap\<close> is a map; \<open>insert\<close> returns the previous value.
\<close>

section \<open>Data\<close>

definition PROGRAM_MAGIC :: "u8 list" where
  "PROGRAM_MAGIC = [66, 77, 84, 80, 67, 0, 0, 1]"

definition PROGRAM_VERSION :: u8 where
  "PROGRAM_VERSION = 4"

type_synonym ModuleId = u32
type_synonym EdgeId = u32
type_synonym BindingId = u32

datatype EdgeTarget = TargetLocal ModuleId | TargetExternal

datatype EdgeKind = EdgeStatic | EdgeDynamic | EdgeStaticAndDynamic

definition has_static :: "EdgeKind \<Rightarrow> bool" where
  "has_static k \<longleftrightarrow> k = EdgeStatic \<or> k = EdgeStaticAndDynamic"

definition has_dynamic :: "EdgeKind \<Rightarrow> bool" where
  "has_dynamic k \<longleftrightarrow> k = EdgeDynamic \<or> k = EdgeStaticAndDynamic"

fun edge_kind_union :: "EdgeKind \<Rightarrow> EdgeKind \<Rightarrow> EdgeKind" where
  "edge_kind_union EdgeStatic EdgeStatic = EdgeStatic"
| "edge_kind_union EdgeDynamic EdgeDynamic = EdgeDynamic"
| "edge_kind_union _ _ = EdgeStaticAndDynamic"

record Edge =
  ed_specifier :: ConstantId
  ed_target :: EdgeTarget
  ed_kind :: EdgeKind

datatype BindingKind = Hoisted | Lexical | Imported EdgeId ConstantId | Namespace EdgeId

record Binding =
  bd_name :: ConstantId
  bd_kind :: BindingKind

datatype ExportSource = ExportLocal BindingId | ExportIndirect EdgeId ConstantId

record Export =
  ex_name :: ConstantId
  ex_source :: ExportSource

record ProgramModule =
  pm_name :: ConstantId
  pm_code :: Module
  pm_edges :: "Edge list"
  pm_bindings :: "Binding list"
  pm_exports :: "Export list"

record Program =
  pg_modules :: "ProgramModule list"
  pg_entry :: ModuleId

datatype ResolvedExport = ResolvedLocal ModuleId BindingId | ResolvedExternal ModuleId EdgeId ConstantId

datatype (plugins only: code size) ProgramVerifyErrorKind =
    EmptyProgram
  | TooManyModules usize
  | EntryModuleOutOfBounds u32 usize
  | ModuleKind VerifyError
  | ModuleNameOutOfBounds ConstantId
  | ModuleNameNotString ConstantId
  | InvalidModuleName
  | MetadataStringIllFormed ConstantId
  | DuplicateModuleName ModuleId
  | TooManyEdges usize
  | TooManyBindings usize
  | TooManyExports usize
  | SpecifierOutOfBounds EdgeId ConstantId
  | SpecifierNotString EdgeId ConstantId
  | AbsoluteSpecifier EdgeId
  | DuplicateSpecifier EdgeId EdgeId
  | LocalTargetOutOfBounds EdgeId ModuleId
  | BindingNameOutOfBounds BindingId ConstantId
  | BindingNameNotString BindingId ConstantId
  | BindingEdgeOutOfBounds BindingId EdgeId
  | ImportedNameOutOfBounds BindingId ConstantId
  | ImportedNameNotString BindingId ConstantId
  | DuplicateBinding BindingId BindingId
  | StaticBindingRequiresStaticEdge BindingId EdgeId
  | IndirectExportRequiresStaticEdge u32 EdgeId
  | MissingImportedExport BindingId
  | ExportNameOutOfBounds u32 ConstantId
  | ExportNameNotString u32 ConstantId
  | DuplicateExport u32 u32
  | ExportBindingOutOfBounds u32 BindingId
  | ExportEdgeOutOfBounds u32 EdgeId
  | IndirectNameOutOfBounds u32 ConstantId
  | IndirectNameNotString u32 ConstantId
  | DynamicImportMissingEdge ConstantId
  | SnapshotExportInstruction u32 u32
  | MissingIndirectExport u32
  | IndirectExportCycle u32

record ProgramVerifyError =
  pve_module :: "ModuleId option"
  pve_kind :: ProgramVerifyErrorKind

type_synonym 'a checked = "('a, ProgramVerifyError) result"

definition program_error :: "ProgramVerifyErrorKind \<Rightarrow> ProgramVerifyError" where
  "program_error kind = \<lparr>pve_module = None, pve_kind = kind\<rparr>"

definition link_error :: "ModuleId \<Rightarrow> ProgramVerifyErrorKind \<Rightarrow> ProgramVerifyError" where
  "link_error m kind = \<lparr>pve_module = Some m, pve_kind = kind\<rparr>"

section \<open>Names\<close>

definition string_at :: "Module \<Rightarrow> ConstantId \<Rightarrow> EcmaString option" where
  "string_at m i = (case slice_get (m_constants m) (unat i) of
      Some (StringConst value) \<Rightarrow> Some value | _ \<Rightarrow> None)"

text \<open>\<open>units.split(|&unit| unit == sep)\<close>: the parts between separators, at least one.\<close>

fun split_units :: "u16 \<Rightarrow> u16 list \<Rightarrow> u16 list list" where
  "split_units sep [] = [[]]"
| "split_units sep (u # us) =
     (if u = sep then [] # split_units sep us
      else case split_units sep us of [] \<Rightarrow> [[u]] | part # parts \<Rightarrow> (u # part) # parts)"

text \<open>In ASCII, \<open>/\<close> is 47, \<open>\\<close> is 92, \<open>.\<close> is 46 and \<open>:\<close> is 58.\<close>

definition is_normalized_module_name :: "EcmaString \<Rightarrow> bool" where
  "is_normalized_module_name units =
     (if units = [] \<or> slice_get units 0 = Some 47 \<or> 92 \<in> set units \<or> 0 \<in> set units \<or>
         list_ex (\<lambda>part. part = [] \<or> part = [46] \<or> part = [46, 46]) (split_units 47 units)
      then False
      else 58 \<notin> set (hd (split_units 47 units)))"

text \<open>\<open>file:\<close> is 102, 105, 108, 101, 58; the letters match in either case.\<close>

definition is_file_scheme :: "EcmaString \<Rightarrow> bool" where
  "is_file_scheme units \<longleftrightarrow> 5 \<le> length units \<and>
     list_all (\<lambda>(u, ascii). u = ascii \<or> 97 \<le> ascii \<and> ascii \<le> 122 \<and> u = ascii - 32)
       (zip (take 5 units) [102, 105, 108, 101, 58])"

definition has_drive_prefix :: "EcmaString \<Rightarrow> bool" where
  "has_drive_prefix units = (case units of
      drive # colon # _ \<Rightarrow> (97 \<le> drive \<and> drive \<le> 122 \<or> 65 \<le> drive \<and> drive \<le> 90) \<and> colon = 58
    | _ \<Rightarrow> False)"

definition is_absolute_specifier :: "EcmaString \<Rightarrow> bool" where
  "is_absolute_specifier units \<longleftrightarrow>
     take 1 units = [47] \<or> take 1 units = [92] \<or> is_file_scheme units \<or> has_drive_prefix units"

section \<open>Module metadata\<close>

definition required_string ::
    "ModuleId \<Rightarrow> ProgramModule \<Rightarrow> ConstantId \<Rightarrow> ProgramVerifyErrorKind \<Rightarrow> ProgramVerifyErrorKind \<Rightarrow>
     EcmaString checked" where
  "required_string module_id m i bounds kind =
     (case slice_get (m_constants (pm_code m)) (unat i) of
        None \<Rightarrow> Err (link_error module_id bounds)
      | Some (StringConst value) \<Rightarrow>
          if is_well_formed value then Ok value
          else Err (link_error module_id (MetadataStringIllFormed i))
      | Some _ \<Rightarrow> Err (link_error module_id kind))"

definition require_edge :: "ModuleId \<Rightarrow> ProgramModule \<Rightarrow> BindingId \<Rightarrow> EdgeId \<Rightarrow> Edge checked" where
  "require_edge module_id m binding edge =
     ok_or (slice_get (pm_edges m) (unat edge)) (link_error module_id (BindingEdgeOutOfBounds binding edge))"

text \<open>\<open>if let Some(first) = names.insert(name, id) { return Err(..) }\<close>\<close>

definition insert_name ::
    "ModuleId \<Rightarrow> (u32 \<Rightarrow> ProgramVerifyErrorKind) \<Rightarrow> EcmaString \<Rightarrow> u32 \<Rightarrow>
     (EcmaString \<rightharpoonup> u32) \<Rightarrow> (EcmaString \<rightharpoonup> u32) checked" where
  "insert_name module_id duplicate key i names = (case names key of
      Some first \<Rightarrow> Err (link_error module_id (duplicate first))
    | None \<Rightarrow> Ok (names(key \<mapsto> i)))"

definition verify_edge ::
    "nat \<Rightarrow> ModuleId \<Rightarrow> ProgramModule \<Rightarrow> (EcmaString \<rightharpoonup> u32) \<Rightarrow> nat \<times> Edge \<Rightarrow> (EcmaString \<rightharpoonup> u32) checked" where
  "verify_edge module_count module_id m specifiers at = (case at of (index, edge) \<Rightarrow>
     let edge_id = as_u32 index in
     bind_result (required_string module_id m (ed_specifier edge)
       (SpecifierOutOfBounds edge_id (ed_specifier edge)) (SpecifierNotString edge_id (ed_specifier edge)))
     (\<lambda>specifier.
     bind_result (if is_absolute_specifier specifier
       then Err (link_error module_id (AbsoluteSpecifier edge_id)) else Ok ()) (\<lambda>_.
     bind_result (insert_name module_id (\<lambda>first. DuplicateSpecifier first edge_id) specifier edge_id specifiers)
     (\<lambda>specifiers.
       case ed_target edge of
         TargetLocal target \<Rightarrow>
           if unat target \<ge> module_count
           then Err (link_error module_id (LocalTargetOutOfBounds edge_id target)) else Ok specifiers
       | TargetExternal \<Rightarrow> Ok specifiers))))"

definition verify_binding_kind :: "ModuleId \<Rightarrow> ProgramModule \<Rightarrow> BindingId \<Rightarrow> BindingKind \<Rightarrow> unit checked" where
  "verify_binding_kind module_id m binding_id kind = (case kind of
      Imported edge name \<Rightarrow>
        bind_result (require_edge module_id m binding_id edge) (\<lambda>dependency.
        bind_result (required_string module_id m name
          (ImportedNameOutOfBounds binding_id name) (ImportedNameNotString binding_id name)) (\<lambda>_.
          if \<not> has_static (ed_kind dependency)
          then Err (link_error module_id (StaticBindingRequiresStaticEdge binding_id edge)) else Ok ()))
    | Namespace edge \<Rightarrow>
        bind_result (require_edge module_id m binding_id edge) (\<lambda>dependency.
          if \<not> has_static (ed_kind dependency)
          then Err (link_error module_id (StaticBindingRequiresStaticEdge binding_id edge)) else Ok ())
    | Hoisted \<Rightarrow> Ok ()
    | Lexical \<Rightarrow> Ok ())"

definition verify_binding ::
    "ModuleId \<Rightarrow> ProgramModule \<Rightarrow> (EcmaString \<rightharpoonup> u32) \<Rightarrow> nat \<times> Binding \<Rightarrow> (EcmaString \<rightharpoonup> u32) checked" where
  "verify_binding module_id m names at = (case at of (index, binding) \<Rightarrow>
     let binding_id = as_u32 index in
     bind_result (required_string module_id m (bd_name binding)
       (BindingNameOutOfBounds binding_id (bd_name binding)) (BindingNameNotString binding_id (bd_name binding)))
     (\<lambda>name.
     bind_result (insert_name module_id (\<lambda>first. DuplicateBinding first binding_id) name binding_id names) (\<lambda>names.
     bind_result (verify_binding_kind module_id m binding_id (bd_kind binding)) (\<lambda>_. Ok names))))"

definition verify_export_source :: "ModuleId \<Rightarrow> ProgramModule \<Rightarrow> u32 \<Rightarrow> ExportSource \<Rightarrow> unit checked" where
  "verify_export_source module_id m export_id source = (case source of
      ExportLocal binding \<Rightarrow>
        if unat binding \<ge> length (pm_bindings m)
        then Err (link_error module_id (ExportBindingOutOfBounds export_id binding)) else Ok ()
    | ExportIndirect edge name \<Rightarrow>
        bind_result (ok_or (slice_get (pm_edges m) (unat edge))
          (link_error module_id (ExportEdgeOutOfBounds export_id edge))) (\<lambda>dependency.
        bind_result (if \<not> has_static (ed_kind dependency)
          then Err (link_error module_id (IndirectExportRequiresStaticEdge export_id edge)) else Ok ()) (\<lambda>_.
        bind_result (required_string module_id m name
          (IndirectNameOutOfBounds export_id name) (IndirectNameNotString export_id name)) (\<lambda>_. Ok ()))))"

definition verify_export ::
    "ModuleId \<Rightarrow> ProgramModule \<Rightarrow> (EcmaString \<rightharpoonup> u32) \<Rightarrow> nat \<times> Export \<Rightarrow> (EcmaString \<rightharpoonup> u32) checked" where
  "verify_export module_id m names at = (case at of (index, export) \<Rightarrow>
     let export_id = as_u32 index in
     bind_result (required_string module_id m (ex_name export)
       (ExportNameOutOfBounds export_id (ex_name export)) (ExportNameNotString export_id (ex_name export)))
     (\<lambda>name.
     bind_result (insert_name module_id (\<lambda>first. DuplicateExport first export_id) name export_id names) (\<lambda>names.
     bind_result (verify_export_source module_id m export_id (ex_source export)) (\<lambda>_. Ok names))))"

text \<open>The scan of the code: a missing string, or an edge index out of range, is a panic.\<close>

definition verify_code_instruction ::
    "ModuleId \<Rightarrow> ProgramModule \<Rightarrow> (EcmaString \<rightharpoonup> u32) \<Rightarrow> nat \<Rightarrow> nat \<times> Instruction \<Rightarrow> unit checked" where
  "verify_code_instruction module_id m specifiers function_index at = (case at of (pc, ins) \<Rightarrow>
     (case ins of
        Import _ specifier \<Rightarrow>
          bind_result (expect (string_at (pm_code m) specifier)) (\<lambda>import_name.
          if \<not> is_well_formed import_name
          then Err (link_error module_id (MetadataStringIllFormed specifier))
          else bind_result (case specifiers import_name of
              None \<Rightarrow> Ok False
            | Some edge \<Rightarrow> bind_result (slice_index (pm_edges m) (unat edge)) (\<lambda>e. Ok (has_dynamic (ed_kind e))))
            (\<lambda>dynamic. if \<not> dynamic
              then Err (link_error module_id (DynamicImportMissingEdge specifier)) else Ok ()))
      | Export _ _ \<Rightarrow>
          Err (link_error module_id (SnapshotExportInstruction (as_u32 function_index) (as_u32 pc)))
      | _ \<Rightarrow> Ok ()))"

definition verify_code_function ::
    "ModuleId \<Rightarrow> ProgramModule \<Rightarrow> (EcmaString \<rightharpoonup> u32) \<Rightarrow> nat \<times> Function \<Rightarrow> unit checked" where
  "verify_code_function module_id m specifiers at = (case at of (function_index, f) \<Rightarrow>
     bind_result (case fn_name f of
         None \<Rightarrow> Ok ()
       | Some name \<Rightarrow> bind_result (expect (string_at (pm_code m) name)) (\<lambda>value.
           if \<not> is_well_formed value
           then Err (link_error module_id (MetadataStringIllFormed name)) else Ok ())) (\<lambda>_.
       try_all (map (verify_code_instruction module_id m specifiers function_index) (enumerate 0 (fn_code f)))))"

definition verify_module_metadata :: "nat \<Rightarrow> ModuleId \<Rightarrow> ProgramModule \<Rightarrow> unit checked" where
  "verify_module_metadata module_count module_id m =
     (if length (pm_edges m) > 2 ^ 32 - 1
      then Err (link_error module_id (TooManyEdges (length (pm_edges m))))
      else if length (pm_bindings m) > 2 ^ 32 - 1
      then Err (link_error module_id (TooManyBindings (length (pm_bindings m))))
      else if length (pm_exports m) > 2 ^ 32 - 1
      then Err (link_error module_id (TooManyExports (length (pm_exports m))))
      else
        bind_result (try_fold (verify_edge module_count module_id m) Map.empty (enumerate 0 (pm_edges m))) (\<lambda>specifiers.
        bind_result (try_fold (verify_binding module_id m) Map.empty (enumerate 0 (pm_bindings m))) (\<lambda>_.
        bind_result (try_fold (verify_export module_id m) Map.empty (enumerate 0 (pm_exports m))) (\<lambda>_.
          try_all (map (verify_code_function module_id m specifiers) (enumerate 0 (m_functions (pm_code m))))))))"

section \<open>Export resolution\<close>

type_synonym export_index = "EcmaString \<rightharpoonup> nat"

definition index_exports :: "ProgramModule \<Rightarrow> export_index checked" where
  "index_exports m =
     try_fold (\<lambda>names (index, export).
         bind_result (expect (string_at (pm_code m) (ex_name export))) (\<lambda>name. Ok (names(name \<mapsto> index))))
       Map.empty (enumerate 0 (pm_exports m))"

text \<open>The target of a re-export over an edge: nothing to follow when it leaves the program.\<close>

definition next_over_edge ::
    "export_index list \<Rightarrow> ProgramModule \<Rightarrow> EdgeId \<Rightarrow> ConstantId \<Rightarrow> ProgramVerifyError \<Rightarrow> (nat \<times> nat) option checked" where
  "next_over_edge indices m edge name missing =
     bind_result (slice_index (pm_edges m) (unat edge)) (\<lambda>e.
       case ed_target e of
         TargetExternal \<Rightarrow> Ok None
       | TargetLocal target \<Rightarrow>
           bind_result (expect (string_at (pm_code m) name)) (\<lambda>name.
           bind_result (slice_index indices (unat target)) (\<lambda>index.
           bind_result (ok_or (index name) missing) (\<lambda>target_export.
             Ok (Some (unat target, target_export))))))"

definition next_export ::
    "ProgramModule list \<Rightarrow> export_index list \<Rightarrow> nat \<times> nat \<Rightarrow> (nat \<times> nat) option checked" where
  "next_export modules indices current =
     bind_result (slice_index modules (fst current)) (\<lambda>m.
     bind_result (slice_index (pm_exports m) (snd current)) (\<lambda>export.
       case ex_source export of
         ExportLocal binding \<Rightarrow>
           bind_result (slice_index (pm_bindings m) (unat binding)) (\<lambda>b.
             case bd_kind b of
               Imported edge name \<Rightarrow> next_over_edge indices m edge name
                 (link_error (as_u32 (fst current)) (MissingImportedExport binding))
             | _ \<Rightarrow> Ok None)
       | ExportIndirect edge name \<Rightarrow> next_over_edge indices m edge name
           (link_error (as_u32 (fst current)) (MissingIndirectExport (as_u32 (snd current))))))"

text \<open>The mark table \<open>states\<close>: 0 not visited, 1 on the current walk, 2 resolved.\<close>

type_synonym marks = "u8 list list"

definition get_mark :: "marks \<Rightarrow> nat \<times> nat \<Rightarrow> u8 checked" where
  "get_mark states at = bind_result (slice_index states (fst at)) (\<lambda>row. slice_index row (snd at))"

definition set_mark :: "u8 \<Rightarrow> nat \<times> nat \<Rightarrow> marks \<Rightarrow> marks" where
  "set_mark v at states = states[fst at := (states ! fst at)[snd at := v]]"

definition unvisited :: "marks \<Rightarrow> nat" where
  "unvisited states = length (filter (\<lambda>v. v \<noteq> 1 \<and> v \<noteq> 2) (concat states))"

lemma unvisited_set_mark:
  assumes "get_mark states at = Ok v" "v \<noteq> 1" "v \<noteq> 2"
  shows "unvisited (set_mark 1 at states) < unvisited states"
proof -
  obtain i j where at: "at = (i, j)" by force
  have i: "i < length states" and j: "j < length (states ! i)" and v: "v = states ! i ! j"
    using assms(1) by (auto simp: get_mark_def at bind_result_iffs)
  have row: "length (filter (\<lambda>v. v \<noteq> 1 \<and> v \<noteq> 2) (xs[j := 1])) < length (filter (\<lambda>v. v \<noteq> 1 \<and> v \<noteq> 2) xs)"
    if "j < length xs" "xs ! j \<noteq> 1" "xs ! j \<noteq> 2" for xs :: "u8 list"
    using that by (subst (2) id_take_nth_drop [OF that(1)]) (simp add: upd_conv_take_nth_drop)
  have "concat states = concat (take i states) @ states ! i @ concat (drop (Suc i) states)"
    by (subst id_take_nth_drop [OF i]) simp
  then show ?thesis
    using row [OF j] assms(2,3) v i by (simp add: unvisited_def set_mark_def at upd_conv_take_nth_drop)
qed

text \<open>The inner \<open>loop\<close> of \<open>verify_export_resolutions\<close>, returning the marks and the stack.\<close>

function chase_exports ::
    "ProgramModule list \<Rightarrow> export_index list \<Rightarrow> marks \<Rightarrow> (nat \<times> nat) list \<Rightarrow> nat \<times> nat \<Rightarrow>
     (marks \<times> (nat \<times> nat) list) checked" where
  "chase_exports modules indices states stack current = (case get_mark states current of
      Ok v \<Rightarrow>
        if v = 2 then Ok (states, stack)
        else if v = 1 then Err (link_error (as_u32 (fst current)) (IndirectExportCycle (as_u32 (snd current))))
        else (case next_export modules indices current of
            Ok None \<Rightarrow> Ok (set_mark 1 current states, stack @ [current])
          | Ok (Some nxt) \<Rightarrow>
              chase_exports modules indices (set_mark 1 current states) (stack @ [current]) nxt
          | Err e \<Rightarrow> Err e
          | Panic \<Rightarrow> Panic)
    | Err e \<Rightarrow> Err e
    | Panic \<Rightarrow> Panic)"
  by pat_completeness auto
termination
  by (relation "measure (\<lambda>(modules, indices, states, stack, current). unvisited states)")
    (auto intro: unvisited_set_mark)

declare chase_exports.simps [simp del]

definition resolve_from ::
    "ProgramModule list \<Rightarrow> export_index list \<Rightarrow> marks \<Rightarrow> nat \<times> nat \<Rightarrow> marks checked" where
  "resolve_from modules indices states start =
     bind_result (get_mark states start) (\<lambda>v.
       if v = 2 then Ok states
       else bind_result (chase_exports modules indices states [] start) (\<lambda>(states, stack).
         Ok (fold (set_mark 2) stack states)))"

definition all_exports :: "ProgramModule list \<Rightarrow> (nat \<times> nat) list" where
  "all_exports modules =
     concat (map (\<lambda>(i, m). map (\<lambda>j. (i, j)) [0..<length (pm_exports m)]) (enumerate 0 modules))"

definition verify_export_resolutions :: "ProgramModule list \<Rightarrow> export_index list \<Rightarrow> unit checked" where
  "verify_export_resolutions modules indices =
     bind_result (try_fold (resolve_from modules indices)
         (map (\<lambda>m. replicate (length (pm_exports m)) 0) modules) (all_exports modules)) (\<lambda>_. Ok ())"

definition verify_imported_binding ::
    "export_index list \<Rightarrow> nat \<Rightarrow> ProgramModule \<Rightarrow> nat \<times> Binding \<Rightarrow> unit checked" where
  "verify_imported_binding indices module_index m at = (case at of (binding_index, binding) \<Rightarrow>
     (case bd_kind binding of
        Imported edge name \<Rightarrow>
          bind_result (slice_index (pm_edges m) (unat edge)) (\<lambda>e.
            case ed_target e of
              TargetExternal \<Rightarrow> Ok ()
            | TargetLocal target \<Rightarrow>
                bind_result (expect (string_at (pm_code m) name)) (\<lambda>imported_name.
                bind_result (slice_index indices (unat target)) (\<lambda>index.
                  if index imported_name = None
                  then Err (link_error (as_u32 module_index) (MissingImportedExport (as_u32 binding_index)))
                  else Ok ())))
      | _ \<Rightarrow> Ok ()))"

definition verify_imported_bindings :: "ProgramModule list \<Rightarrow> export_index list \<Rightarrow> unit checked" where
  "verify_imported_bindings modules indices =
     try_all (map (\<lambda>(module_index, m).
         try_all (map (verify_imported_binding indices module_index m) (enumerate 0 (pm_bindings m))))
       (enumerate 0 modules))"

section \<open>Linking\<close>

definition verify_named_module ::
    "nat \<Rightarrow> (EcmaString \<rightharpoonup> u32) \<Rightarrow> nat \<times> ProgramModule \<Rightarrow> (EcmaString \<rightharpoonup> u32) checked" where
  "verify_named_module module_count names at = (case at of (index, m) \<Rightarrow>
     let module_id = as_u32 index in
     bind_result (required_string module_id m (pm_name m)
       (ModuleNameOutOfBounds (pm_name m)) (ModuleNameNotString (pm_name m))) (\<lambda>name.
     bind_result (if \<not> is_normalized_module_name name
       then Err (link_error module_id InvalidModuleName) else Ok ()) (\<lambda>_.
     bind_result (insert_name module_id DuplicateModuleName name module_id names) (\<lambda>names.
     bind_result (verify_module_metadata module_count module_id m) (\<lambda>_. Ok names)))))"

definition verify_program_metadata :: "ProgramModule list \<Rightarrow> ModuleId \<Rightarrow> unit checked" where
  "verify_program_metadata modules entry =
     (if modules = [] then Err (program_error EmptyProgram)
      else if length modules > 2 ^ 32 - 1 then Err (program_error (TooManyModules (length modules)))
      else if unat entry \<ge> length modules
      then Err (program_error (EntryModuleOutOfBounds entry (length modules)))
      else
        bind_result (try_fold (verify_named_module (length modules)) Map.empty (enumerate 0 modules)) (\<lambda>_.
        bind_result (try_map index_exports modules) (\<lambda>indices.
        bind_result (verify_export_resolutions modules indices) (\<lambda>_.
          verify_imported_bindings modules indices))))"

definition program_link :: "ProgramModule list \<Rightarrow> ModuleId \<Rightarrow> Program checked" where
  "program_link modules entry =
     bind_result (verify_program_metadata modules entry) (\<lambda>_.
       Ok \<lparr>pg_modules = modules, pg_entry = entry\<rparr>)"

definition program_verify :: "Program \<Rightarrow> Program checked" where
  "program_verify p =
     bind_result (try_map (\<lambda>(index, m).
         bind_result (map_err (\<lambda>e. link_error (as_u32 index) (ModuleKind e)) (verify_module (pm_code m)))
           (\<lambda>code. Ok (m\<lparr>pm_code := code\<rparr>))) (enumerate 0 (pg_modules p))) (\<lambda>modules.
       program_link modules (pg_entry p))"

section \<open>The export walk\<close>

text \<open>One round of the \<open>for\<close> loop of \<open>resolve_export\<close>: return a value, or go on elsewhere.\<close>

datatype walk_step = Return_Step "ResolvedExport option" | Continue_Step ModuleId EcmaString

definition walk_over_edge :: "ProgramModule \<Rightarrow> ModuleId \<Rightarrow> EdgeId \<Rightarrow> ConstantId \<Rightarrow> walk_step" where
  "walk_over_edge current module_id edge name =
     (case slice_get (pm_edges current) (unat edge) of
        None \<Rightarrow> Return_Step None
      | Some e \<Rightarrow> (case ed_target e of
          TargetLocal target \<Rightarrow> (case string_at (pm_code current) name of
              None \<Rightarrow> Return_Step None
            | Some linked \<Rightarrow> Continue_Step target linked)
        | TargetExternal \<Rightarrow> Return_Step (Some (ResolvedExternal module_id edge name))))"

definition export_walk_step :: "Program \<Rightarrow> ModuleId \<Rightarrow> EcmaString \<Rightarrow> walk_step" where
  "export_walk_step p module_id export_name =
     (case slice_get (pg_modules p) (unat module_id) of
        None \<Rightarrow> Return_Step None
      | Some current \<Rightarrow>
          (case find (\<lambda>export. string_at (pm_code current) (ex_name export) = Some export_name) (pm_exports current) of
             None \<Rightarrow> Return_Step None
           | Some export \<Rightarrow> (case ex_source export of
               ExportLocal binding \<Rightarrow>
                 (case slice_get (pm_bindings current) (unat binding) of
                    None \<Rightarrow> Return_Step None
                  | Some b \<Rightarrow> (case bd_kind b of
                      Imported edge name \<Rightarrow> walk_over_edge current module_id edge name
                    | _ \<Rightarrow> Return_Step (Some (ResolvedLocal module_id binding))))
             | ExportIndirect edge name \<Rightarrow> walk_over_edge current module_id edge name)))"

fun export_walk :: "Program \<Rightarrow> nat \<Rightarrow> ModuleId \<Rightarrow> EcmaString \<Rightarrow> ResolvedExport option" where
  "export_walk p 0 module_id export_name = None"
| "export_walk p (Suc rounds) module_id export_name = (case export_walk_step p module_id export_name of
      Return_Step r \<Rightarrow> r
    | Continue_Step target linked \<Rightarrow> export_walk p rounds target linked)"

definition export_count :: "Program \<Rightarrow> nat" where
  "export_count p = foldl (\<lambda>n len. u64_saturating (n + len)) 0 (map (\<lambda>m. length (pm_exports m)) (pg_modules p))"

definition resolve_export :: "Program \<Rightarrow> ModuleId \<Rightarrow> EcmaString \<Rightarrow> ResolvedExport option" where
  "resolve_export p module_id name = export_walk p (Suc (export_count p)) module_id name"

end
