(* ===== verification/Program_Metadata.thy ===== *)
theory Program_Metadata
  imports Program_Model
begin

text \<open>
  What the metadata verifier of \<^verbatim>\<open>crates/bamts-bytecode/src/program.rs\<close> accepts: a declarative
  reading of the checks on names, edges, bindings, exports and code of every module, and the proof
  that \<open>verify_module_metadata\<close> accepts exactly that.
\<close>

section \<open>Tables of unique names\<close>

text \<open>
  The four tables (modules, specifiers, bindings, exports) are filled by the same kind of loop:
  compute the name of an entry, refuse a duplicate, record the index, check the rest of the entry.
  The locale states what one round of such a loop does and proves what the whole loop does.
\<close>

lemma map_upd_None: "(names(k \<mapsto> v)) l = None \<longleftrightarrow> names l = None \<and> l \<noteq> k"
  by auto

locale name_table =
  fixes key :: "'x \<Rightarrow> EcmaString option"
    and ok :: "'x \<Rightarrow> bool"
    and add :: "(EcmaString \<rightharpoonup> u32) \<Rightarrow> nat \<times> 'x \<Rightarrow> (EcmaString \<rightharpoonup> u32) checked"
  assumes add_Ok: "add names (i, x) = Ok names' \<longleftrightarrow>
      (\<exists>k. key x = Some k \<and> ok x \<and> names k = None \<and> names' = names(k \<mapsto> as_u32 i))"
begin

lemma table_fold:
  "(\<exists>names'. try_fold add names (enumerate n xs) = Ok names') \<longleftrightarrow>
     (\<forall>x \<in> set xs. ok x \<and> (\<exists>k. key x = Some k \<and> names k = None)) \<and> distinct (map key xs)"
proof (induction xs arbitrary: names n)
  case (Cons x xs)
  have "(\<exists>names'. try_fold add names (enumerate n (x # xs)) = Ok names') \<longleftrightarrow>
      (\<exists>k. key x = Some k \<and> ok x \<and> names k = None \<and>
         (\<exists>names'. try_fold add (names(k \<mapsto> as_u32 n)) (enumerate (Suc n) xs) = Ok names'))"
    by (auto simp: bind_result_iffs add_Ok)
  also have "\<dots> \<longleftrightarrow> (\<exists>k. key x = Some k \<and> ok x \<and> names k = None \<and>
      (\<forall>y \<in> set xs. ok y \<and> (\<exists>l. key y = Some l \<and> names l = None \<and> l \<noteq> k)) \<and> distinct (map key xs))"
    unfolding Cons.IH map_upd_None by blast
  also have "\<dots> \<longleftrightarrow> (\<forall>y \<in> set (x # xs). ok y \<and> (\<exists>k. key y = Some k \<and> names k = None)) \<and>
      distinct (map key (x # xs))"
    by (cases "key x") (simp_all add: image_iff, fastforce)
  finally show ?case .
qed simp

lemma table_lookup:
  assumes "try_fold add names (enumerate n xs) = Ok names'"
  shows "names' k = Some v \<longleftrightarrow> names k = Some v \<or> (\<exists>i < length xs. key (xs ! i) = Some k \<and> v = as_u32 (n + i))"
  using assms
proof (induction xs arbitrary: names n)
  case (Cons x xs)
  from Cons.prems obtain l where l: "key x = Some l" "names l = None"
    and rest: "try_fold add (names(l \<mapsto> as_u32 n)) (enumerate (Suc n) xs) = Ok names'"
    by (auto simp: bind_result_iffs add_Ok)
  have "(\<exists>i < length (x # xs). key ((x # xs) ! i) = Some k \<and> v = as_u32 (n + i)) \<longleftrightarrow>
      key x = Some k \<and> v = as_u32 n \<or> (\<exists>i < length xs. key (xs ! i) = Some k \<and> v = as_u32 (Suc n + i))"
    by (auto simp: less_Suc_eq_0_disj)
  then show ?case unfolding Cons.IH [OF rest] using l by (auto split: if_splits)
qed simp

lemma table_total:
  "(\<exists>names'. try_fold add Map.empty (enumerate 0 xs) = Ok names') \<longleftrightarrow>
     (\<forall>x \<in> set xs. ok x \<and> key x \<noteq> None) \<and> distinct (map key xs)"
  unfolding table_fold by auto

lemma table_entries:
  "try_fold add Map.empty (enumerate 0 xs) = Ok names \<Longrightarrow>
     names k = Some v \<longleftrightarrow> (\<exists>i < length xs. key (xs ! i) = Some k \<and> v = as_u32 i)"
  using table_lookup [of Map.empty 0 xs names k v] by simp

end

section \<open>What one entry must satisfy\<close>

definition good_string :: "ProgramModule \<Rightarrow> ConstantId \<Rightarrow> bool" where
  "good_string m i \<longleftrightarrow> (\<exists>s. string_at (pm_code m) i = Some s \<and> is_well_formed s)"

definition static_edge :: "ProgramModule \<Rightarrow> EdgeId \<Rightarrow> bool" where
  "static_edge m e \<longleftrightarrow> unat e < length (pm_edges m) \<and> has_static (ed_kind (pm_edges m ! unat e))"

definition edge_ok :: "nat \<Rightarrow> ProgramModule \<Rightarrow> Edge \<Rightarrow> bool" where
  "edge_ok module_count m e \<longleftrightarrow> good_string m (ed_specifier e) \<and>
     (\<forall>s. string_at (pm_code m) (ed_specifier e) = Some s \<longrightarrow> \<not> is_absolute_specifier s) \<and>
     (\<forall>t. ed_target e = TargetLocal t \<longrightarrow> unat t < module_count)"

definition binding_ok :: "ProgramModule \<Rightarrow> Binding \<Rightarrow> bool" where
  "binding_ok m b \<longleftrightarrow> good_string m (bd_name b) \<and> (case bd_kind b of
      Imported e n \<Rightarrow> static_edge m e \<and> good_string m n
    | Namespace e \<Rightarrow> static_edge m e
    | _ \<Rightarrow> True)"

definition export_ok :: "ProgramModule \<Rightarrow> Export \<Rightarrow> bool" where
  "export_ok m x \<longleftrightarrow> good_string m (ex_name x) \<and> (case ex_source x of
      ExportLocal b \<Rightarrow> unat b < length (pm_bindings m)
    | ExportIndirect e n \<Rightarrow> static_edge m e \<and> good_string m n)"

definition instruction_linked :: "ProgramModule \<Rightarrow> Instruction \<Rightarrow> bool" where
  "instruction_linked m ins \<longleftrightarrow> (case ins of
      Import _ s \<Rightarrow> good_string m s \<and>
        (\<exists>e \<in> set (pm_edges m). string_at (pm_code m) (ed_specifier e) = string_at (pm_code m) s \<and>
           has_dynamic (ed_kind e))
    | Export _ _ \<Rightarrow> False
    | _ \<Rightarrow> True)"

definition code_linked :: "ProgramModule \<Rightarrow> bool" where
  "code_linked m \<longleftrightarrow> (\<forall>f \<in> set (m_functions (pm_code m)).
     (\<forall>n. fn_name f = Some n \<longrightarrow> good_string m n) \<and> (\<forall>ins \<in> set (fn_code f). instruction_linked m ins))"

definition unique_names :: "ProgramModule \<Rightarrow> ConstantId list \<Rightarrow> bool" where
  "unique_names m ids \<longleftrightarrow> distinct (map (string_at (pm_code m)) ids)"

definition metadata_ok :: "nat \<Rightarrow> ProgramModule \<Rightarrow> bool" where
  "metadata_ok module_count m \<longleftrightarrow>
     length (pm_edges m) < 2 ^ 32 \<and> length (pm_bindings m) < 2 ^ 32 \<and> length (pm_exports m) < 2 ^ 32 \<and>
     (\<forall>e \<in> set (pm_edges m). edge_ok module_count m e) \<and> unique_names m (map ed_specifier (pm_edges m)) \<and>
     (\<forall>b \<in> set (pm_bindings m). binding_ok m b) \<and> unique_names m (map bd_name (pm_bindings m)) \<and>
     (\<forall>x \<in> set (pm_exports m). export_ok m x) \<and> unique_names m (map ex_name (pm_exports m)) \<and>
     code_linked m"

section \<open>The checks decide it\<close>

lemma string_at_Some: "string_at m i = Some s \<longleftrightarrow> unat i < length (m_constants m) \<and> m_constants m ! unat i = StringConst s"
  by (auto simp: string_at_def slice_get_def split: Constant.splits)

lemma required_string_Ok [simp]:
  "required_string mid m i b k = Ok s \<longleftrightarrow> string_at (pm_code m) i = Some s \<and> is_well_formed s"
  by (auto simp: required_string_def string_at_def split: option.splits Constant.splits)

lemma required_string_no_Panic [simp]: "required_string mid m i b k \<noteq> Panic"
  by (auto simp: required_string_def split: option.splits Constant.splits)

lemma require_edge_iffs [simp]:
  "require_edge mid m b e = Ok d \<longleftrightarrow> unat e < length (pm_edges m) \<and> d = pm_edges m ! unat e"
  "require_edge mid m b e \<noteq> Panic"
  by (auto simp: require_edge_def)

lemma insert_name_iffs [simp]:
  "insert_name mid d k i names = Ok names' \<longleftrightarrow> names k = None \<and> names' = names(k \<mapsto> i)"
  "insert_name mid d k i names \<noteq> Panic"
  by (auto simp: insert_name_def split: option.splits)

lemma if_Err_Ok_iffs [simp]:
  "(if b then Err e else Ok x) = Ok y \<longleftrightarrow> \<not> b \<and> x = y"
  "(if b then Err e else Ok x) \<noteq> Panic"
  by auto

lemma verify_edge_Ok:
  "verify_edge n mid m names (i, e) = Ok names' \<longleftrightarrow>
     (\<exists>k. string_at (pm_code m) (ed_specifier e) = Some k \<and> edge_ok n m e \<and> names k = None \<and>
        names' = names(k \<mapsto> as_u32 i))"
  by (cases "ed_target e")
    (auto simp: verify_edge_def Let_def bind_result_iffs edge_ok_def good_string_def)

interpretation edges: name_table "\<lambda>e. string_at (pm_code m) (ed_specifier e)" "edge_ok n m" "verify_edge n mid m"
  for n m mid
  by unfold_locales (rule verify_edge_Ok)

lemma verify_binding_kind_spec:
  "verify_binding_kind mid m i k = Ok () \<longleftrightarrow> (case k of
      Imported e n \<Rightarrow> static_edge m e \<and> good_string m n | Namespace e \<Rightarrow> static_edge m e | _ \<Rightarrow> True)"
  "verify_binding_kind mid m i k \<noteq> Panic"
  by (auto simp: verify_binding_kind_def bind_result_iffs static_edge_def good_string_def split: BindingKind.splits)

interpretation bindings: name_table "\<lambda>b. string_at (pm_code m) (bd_name b)" "binding_ok m" "verify_binding mid m"
  for m mid
  by unfold_locales
    (auto simp: verify_binding_def Let_def bind_result_iffs binding_ok_def good_string_def verify_binding_kind_spec
      cong: BindingKind.case_cong)

lemma verify_export_source_spec:
  "verify_export_source mid m i s = Ok () \<longleftrightarrow> (case s of
      ExportLocal b \<Rightarrow> unat b < length (pm_bindings m)
    | ExportIndirect e n \<Rightarrow> static_edge m e \<and> good_string m n)"
  "verify_export_source mid m i s \<noteq> Panic"
  by (auto simp: verify_export_source_def bind_result_iffs static_edge_def good_string_def split: ExportSource.splits)

interpretation exports: name_table "\<lambda>x. string_at (pm_code m) (ex_name x)" "export_ok m" "verify_export mid m"
  for m mid
  by unfold_locales
    (auto simp: verify_export_def Let_def bind_result_iffs export_ok_def good_string_def verify_export_source_spec
      cong: ExportSource.case_cong)

lemma edge_table:
  assumes "try_fold (verify_edge n mid m) Map.empty (enumerate 0 (pm_edges m)) = Ok specifiers"
    and "length (pm_edges m) < 2 ^ 32" and "specifiers k = Some v"
  shows "unat v < length (pm_edges m)" "string_at (pm_code m) (ed_specifier (pm_edges m ! unat v)) = Some k"
  using assms(2,3) unfolding edges.table_entries [OF assms(1)] by auto

lemma dynamic_lookup:
  assumes "try_fold (verify_edge n mid m) Map.empty (enumerate 0 (pm_edges m)) = Ok specifiers"
    and "length (pm_edges m) < 2 ^ 32"
  shows "(\<exists>v. specifiers k = Some v \<and> has_dynamic (ed_kind (pm_edges m ! unat v))) \<longleftrightarrow>
    (\<exists>e \<in> set (pm_edges m). string_at (pm_code m) (ed_specifier e) = Some k \<and> has_dynamic (ed_kind e))"
proof -
  have "unat (as_u32 i) = i" if "i < length (pm_edges m)" for i
    using that assms(2) by (intro unat_as_u32) simp
  then show ?thesis
    unfolding edges.table_entries [OF assms(1)] by (metis in_set_conv_nth nth_mem)
qed

lemma verify_code_instruction_Ok:
  assumes table: "try_fold (verify_edge n mid m) Map.empty (enumerate 0 (pm_edges m)) = Ok specifiers"
    and len: "length (pm_edges m) < 2 ^ 32"
  shows "verify_code_instruction mid m specifiers fi (pc, ins) = Ok () \<longleftrightarrow> instruction_linked m ins"
proof (cases "\<exists>d s. ins = Import d s")
  case True
  then obtain d s where ins: "ins = Import d s" by blast
  show ?thesis
  proof (cases "string_at (pm_code m) s")
    case None
    then show ?thesis
      by (simp add: ins verify_code_instruction_def instruction_linked_def good_string_def expect_def)
  next
    case (Some k)
    then show ?thesis
      using dynamic_lookup [OF table len, of k] edge_table [OF table len, of k]
      by (auto simp: ins verify_code_instruction_def instruction_linked_def good_string_def expect_def
          bind_result_iffs slice_index_def split: option.splits)
  qed
next
  case False
  then show ?thesis
    by (cases ins) (simp_all add: verify_code_instruction_def instruction_linked_def)
qed

lemma verify_code_function_Ok:
  assumes "try_fold (verify_edge n mid m) Map.empty (enumerate 0 (pm_edges m)) = Ok specifiers"
    and "length (pm_edges m) < 2 ^ 32"
  shows "verify_code_function mid m specifiers (fi, f) = Ok () \<longleftrightarrow>
    (\<forall>n. fn_name f = Some n \<longrightarrow> good_string m n) \<and> (\<forall>ins \<in> set (fn_code f). instruction_linked m ins)"
proof -
  have "try_all (map (verify_code_instruction mid m specifiers fi) (enumerate 0 (fn_code f))) = Ok () \<longleftrightarrow>
      (\<forall>ins \<in> set (fn_code f). instruction_linked m ins)"
    by (rule try_all_enumerate) (rule verify_code_instruction_Ok [OF assms])
  then show ?thesis
    by (cases "fn_name f") (auto simp: verify_code_function_def bind_result_iffs good_string_def)
qed

lemma verify_code_Ok:
  assumes "try_fold (verify_edge n mid m) Map.empty (enumerate 0 (pm_edges m)) = Ok specifiers"
    and "length (pm_edges m) < 2 ^ 32"
  shows "try_all (map (verify_code_function mid m specifiers) (enumerate 0 (m_functions (pm_code m)))) = Ok () \<longleftrightarrow>
    code_linked m"
  unfolding code_linked_def by (rule try_all_enumerate) (rule verify_code_function_Ok [OF assms])

lemma verify_module_metadata_Ok_iff: "verify_module_metadata n mid m = Ok () \<longleftrightarrow> metadata_ok n m"
proof -
  let ?edges = "try_fold (verify_edge n mid m) Map.empty (enumerate 0 (pm_edges m))"
  let ?bindings = "try_fold (verify_binding mid m) Map.empty (enumerate 0 (pm_bindings m))"
  let ?exports = "try_fold (verify_export mid m) Map.empty (enumerate 0 (pm_exports m))"
  have "verify_module_metadata n mid m = Ok () \<longleftrightarrow>
      length (pm_edges m) < 2 ^ 32 \<and> length (pm_bindings m) < 2 ^ 32 \<and> length (pm_exports m) < 2 ^ 32 \<and>
      (\<exists>specifiers. ?edges = Ok specifiers \<and> (\<exists>t. ?bindings = Ok t) \<and> (\<exists>t. ?exports = Ok t) \<and>
        try_all (map (verify_code_function mid m specifiers) (enumerate 0 (m_functions (pm_code m)))) = Ok ())"
    by (auto simp: verify_module_metadata_def bind_result_iffs)
  also have "\<dots> \<longleftrightarrow>
      length (pm_edges m) < 2 ^ 32 \<and> length (pm_bindings m) < 2 ^ 32 \<and> length (pm_exports m) < 2 ^ 32 \<and>
      (\<exists>t. ?edges = Ok t) \<and> (\<exists>t. ?bindings = Ok t) \<and> (\<exists>t. ?exports = Ok t) \<and> code_linked m"
    using verify_code_Ok [of n mid m] by blast
  also have "\<dots> \<longleftrightarrow> metadata_ok n m"
    unfolding edges.table_total bindings.table_total exports.table_total metadata_ok_def unique_names_def map_map comp_def
    by (auto simp: edge_ok_def binding_ok_def export_ok_def good_string_def)
  finally show ?thesis .
qed

end
