(* ===== verification/Export_Graph.thy ===== *)
theory Export_Graph
  imports Program_Metadata
begin

text \<open>
  The cycle detection of \<open>verify_export_resolutions\<close>
  (\<^verbatim>\<open>crates/bamts-bytecode/src/program.rs\<close>): the walks over (module, export) pairs with the mark
  table accept exactly the programs in which every re-export chain ends.
\<close>

section \<open>Chains of a partial successor function\<close>

text \<open>\<open>nx x = Ok None\<close> ends a chain, \<open>nx x = Ok (Some y)\<close> goes on at \<open>y\<close>.\<close>

fun ends :: "('a \<Rightarrow> ('a option, 'e) result) \<Rightarrow> nat \<Rightarrow> 'a \<Rightarrow> bool" where
  "ends nx 0 x \<longleftrightarrow> nx x = Ok None"
| "ends nx (Suc n) x \<longleftrightarrow> (\<exists>y. nx x = Ok (Some y) \<and> ends nx n y)"

abbreviation follows :: "('a \<Rightarrow> ('a option, 'e) result) \<Rightarrow> 'a \<Rightarrow> 'a \<Rightarrow> bool" where
  "follows nx x y \<equiv> nx x = Ok (Some y)"

lemma ends_unique: "ends nx n x \<Longrightarrow> ends nx k x \<Longrightarrow> n = k"
proof (induction n arbitrary: x k)
  case 0
  then show ?case by (cases k) auto
next
  case (Suc n)
  then show ?case by (cases k) auto
qed

lemma ends_follows: "ends nx n x \<Longrightarrow> follows nx x y \<Longrightarrow> \<exists>k < n. ends nx k y"
  by (cases n) auto

lemma ends_forward: "(follows nx)\<^sup>+\<^sup>+ x y \<Longrightarrow> ends nx n x \<Longrightarrow> \<exists>k < n. ends nx k y"
proof (induction rule: tranclp_induct)
  case (base y)
  then show ?case using ends_follows by metis
next
  case (step y z)
  then show ?case using ends_follows by (metis order_less_trans)
qed

lemma ends_backward: "(follows nx)\<^sup>+\<^sup>+ x y \<Longrightarrow> ends nx n y \<Longrightarrow> \<exists>k. ends nx k x"
proof (induction arbitrary: n rule: tranclp_induct)
  case (base y)
  then have "ends nx (Suc n) x" by auto
  then show ?case by blast
next
  case (step y z)
  then have "ends nx (Suc n) y" by auto
  with step.IH show ?case by blast
qed

lemma ends_acyclic: "ends nx n x \<Longrightarrow> \<not> (follows nx)\<^sup>+\<^sup>+ x x"
  using ends_forward ends_unique by (metis nat_less_le)

text \<open>A chain inside a finite set is shorter than the set is large.\<close>

lemma ends_bound:
  assumes "ends nx n x" "x \<in> A" "finite A" and "\<And>y z. y \<in> A \<Longrightarrow> follows nx y z \<Longrightarrow> z \<in> A"
  shows "n < card A"
  using assms
proof (induction n arbitrary: x A)
  case 0
  then show ?case by (auto simp: card_gt_0_iff)
next
  case (Suc n)
  then obtain y where y: "follows nx x y" "ends nx n y" by auto
  let ?B = "{z \<in> A. \<exists>k \<le> n. ends nx k z}"
  have "n < card ?B"
  proof (rule Suc.IH [OF y(2)])
    show "y \<in> ?B" using y Suc.prems(2,4) by auto
    show "finite ?B" using Suc.prems(3) by simp
    show "w \<in> ?B" if z: "z \<in> ?B" "follows nx z w" for z w
    proof -
      from z obtain k where k: "k \<le> n" "ends nx k z" and "z \<in> A" by blast
      from ends_follows [OF k(2) z(2)] k(1) have "\<exists>k' \<le> n. ends nx k' w" by (meson less_imp_le_nat order_trans)
      with Suc.prems(4) [OF \<open>z \<in> A\<close> z(2)] show ?thesis by simp
    qed
  qed
  moreover have "x \<notin> ?B"
  proof
    assume "x \<in> ?B"
    then obtain k where "k \<le> n" "ends nx k x" by blast
    with ends_unique [OF Suc.prems(1)] show False by (metis Suc_n_not_le_n)
  qed
  then have "card ?B < card A"
    using Suc.prems(2,3) by (intro psubset_card_mono) auto
  ultimately show ?case by simp
qed

section \<open>The export graph of a program\<close>

definition valid_export :: "ProgramModule list \<Rightarrow> nat \<times> nat \<Rightarrow> bool" where
  "valid_export ms x \<longleftrightarrow> fst x < length ms \<and> snd x < length (pm_exports (ms ! fst x))"

definition export_name :: "ProgramModule list \<Rightarrow> nat \<times> nat \<Rightarrow> EcmaString option" where
  "export_name ms x = string_at (pm_code (ms ! fst x)) (ex_name (pm_exports (ms ! fst x) ! snd x))"

definition linkable :: "ProgramModule list \<Rightarrow> bool" where
  "linkable ms \<longleftrightarrow> (\<forall>m \<in> set ms. metadata_ok (length ms) m)"

definition indexed :: "ProgramModule list \<Rightarrow> export_index list \<Rightarrow> bool" where
  "indexed ms indices \<longleftrightarrow> length indices = length ms \<and>
     (\<forall>i < length ms. \<forall>nm j. (indices ! i) nm = Some j \<longleftrightarrow> valid_export ms (i, j) \<and> export_name ms (i, j) = Some nm)"

lemma index_fold:
  assumes "\<forall>x \<in> set xs. key x \<noteq> None" and "distinct (map key xs)"
    and "\<forall>x \<in> set xs. \<forall>k. key x = Some k \<longrightarrow> names k = None"
  shows "\<exists>names'. try_fold (\<lambda>names (i, x). bind_result (expect (key x)) (\<lambda>k. Ok (names(k \<mapsto> i)))) names (enumerate n xs) = (Ok names' :: export_index checked) \<and>
    (\<forall>k j. names' k = Some j \<longleftrightarrow> names k = Some j \<or> (\<exists>i < length xs. key (xs ! i) = Some k \<and> j = n + i))"
  using assms
proof (induction xs arbitrary: names n)
  case (Cons x xs)
  then obtain l where l: "key x = Some l" by auto
  let ?f = "\<lambda>names (i, x). bind_result (expect (key x)) (\<lambda>k. Ok (names(k \<mapsto> i)))"
  have "\<exists>names'. try_fold ?f (names(l \<mapsto> n)) (enumerate (Suc n) xs) = (Ok names' :: export_index checked) \<and>
      (\<forall>k j. names' k = Some j \<longleftrightarrow>
        (names(l \<mapsto> n)) k = Some j \<or> (\<exists>i < length xs. key (xs ! i) = Some k \<and> j = Suc n + i))"
    by (rule Cons.IH) (use Cons.prems l in \<open>auto simp: image_iff\<close>)
  then obtain names' where run: "try_fold ?f (names(l \<mapsto> n)) (enumerate (Suc n) xs) = (Ok names' :: export_index checked)"
    and lookup: "\<And>k j. names' k = Some j \<longleftrightarrow>
        (names(l \<mapsto> n)) k = Some j \<or> (\<exists>i < length xs. key (xs ! i) = Some k \<and> j = Suc n + i)" by blast
  have "names l = None" using Cons.prems(3) l by simp
  then have "names' k = Some j \<longleftrightarrow>
      names k = Some j \<or> (\<exists>i < length (x # xs). key ((x # xs) ! i) = Some k \<and> j = n + i)" for k j
    unfolding lookup using l by (auto simp: less_Suc_eq_0_disj)
  moreover have "try_fold ?f names (enumerate n (x # xs)) = (Ok names' :: export_index checked)"
    using run l by (simp add: expect_def)
  ultimately show ?case by blast
qed simp

lemma index_exports_Ok:
  assumes "metadata_ok n m"
  shows "\<exists>index. index_exports m = Ok index \<and> (\<forall>nm j. index nm = Some j \<longleftrightarrow>
    j < length (pm_exports m) \<and> string_at (pm_code m) (ex_name (pm_exports m ! j)) = Some nm)"
proof -
  have "\<forall>x \<in> set (pm_exports m). string_at (pm_code m) (ex_name x) \<noteq> None"
    "distinct (map (\<lambda>x. string_at (pm_code m) (ex_name x)) (pm_exports m))"
    using assms by (auto simp: metadata_ok_def unique_names_def export_ok_def good_string_def comp_def)
  from index_fold [OF this, of Map.empty 0] show ?thesis by (simp add: index_exports_def)
qed

lemma try_map_index_exports:
  assumes "linkable ms"
  shows "\<exists>indices. try_map index_exports ms = Ok indices \<and> indexed ms indices"
proof -
  have "\<forall>m \<in> set ms. \<exists>index. index_exports m = Ok index \<and> (\<forall>nm j. index nm = Some j \<longleftrightarrow>
      j < length (pm_exports m) \<and> string_at (pm_code m) (ex_name (pm_exports m ! j)) = Some nm)"
    using assms index_exports_Ok by (auto simp: linkable_def)
  then obtain g where g: "\<forall>m \<in> set ms. index_exports m = Ok (g m) \<and> (\<forall>nm j. g m nm = Some j \<longleftrightarrow>
      j < length (pm_exports m) \<and> string_at (pm_code m) (ex_name (pm_exports m ! j)) = Some nm)"
    by metis
  then have "try_map index_exports ms = Ok (map g ms)"
    by (auto simp: try_map_Ok_iff list_all2_map2 list_all2_same)
  moreover have "indexed ms (map g ms)"
    using g by (simp add: indexed_def valid_export_def export_name_def)
  ultimately show ?thesis by blast
qed

lemma linkableD: "linkable ms \<Longrightarrow> i < length ms \<Longrightarrow> metadata_ok (length ms) (ms ! i)"
  by (simp add: linkable_def)

lemma edge_target_bound:
  assumes "linkable ms" "i < length ms" "unat e < length (pm_edges (ms ! i))"
    "ed_target (pm_edges (ms ! i) ! unat e) = TargetLocal t"
  shows "unat t < length ms"
  using linkableD [OF assms(1,2)] assms(3,4) by (auto simp: metadata_ok_def edge_ok_def dest: nth_mem)

lemma next_over_edge_spec:
  assumes ms: "linkable ms" "indexed ms indices" and i: "i < length ms"
    and e: "static_edge (ms ! i) e" "good_string (ms ! i) n"
  shows "next_over_edge indices (ms ! i) e n err \<noteq> Panic"
    and "next_over_edge indices (ms ! i) e n err = Ok (Some y) \<longleftrightarrow>
      (\<exists>t. ed_target (pm_edges (ms ! i) ! unat e) = TargetLocal t \<and> fst y = unat t \<and> valid_export ms y \<and>
         export_name ms y = string_at (pm_code (ms ! i)) n)"
    and "next_over_edge indices (ms ! i) e n err = Ok None \<longleftrightarrow>
      ed_target (pm_edges (ms ! i) ! unat e) = TargetExternal"
proof -
  obtain s where s: "string_at (pm_code (ms ! i)) n = Some s" using e(2) by (auto simp: good_string_def)
  have len: "unat e < length (pm_edges (ms ! i))" using e(1) by (simp add: static_edge_def)
  show "next_over_edge indices (ms ! i) e n err \<noteq> Panic"
    "next_over_edge indices (ms ! i) e n err = Ok None \<longleftrightarrow> ed_target (pm_edges (ms ! i) ! unat e) = TargetExternal"
    using len s edge_target_bound [OF ms(1) i len] ms(2)
    by (auto simp: next_over_edge_def bind_result_iffs indexed_def split: EdgeTarget.splits)
  show "next_over_edge indices (ms ! i) e n err = Ok (Some y) \<longleftrightarrow>
      (\<exists>t. ed_target (pm_edges (ms ! i) ! unat e) = TargetLocal t \<and> fst y = unat t \<and> valid_export ms y \<and>
         export_name ms y = string_at (pm_code (ms ! i)) n)"
  proof (cases "ed_target (pm_edges (ms ! i) ! unat e)")
    case (TargetLocal t)
    have t: "unat t < length ms" by (rule edge_target_bound [OF ms(1) i len TargetLocal])
    have "next_over_edge indices (ms ! i) e n err = Ok (Some y) \<longleftrightarrow>
        (\<exists>j. (indices ! unat t) s = Some j \<and> y = (unat t, j))"
      using len s TargetLocal t ms(2)
      by (auto simp: next_over_edge_def bind_result_iffs indexed_def)
    also have "\<dots> \<longleftrightarrow> fst y = unat t \<and> valid_export ms y \<and> export_name ms y = Some s"
      using ms(2) t by (cases y) (auto simp: indexed_def)
    finally show ?thesis using TargetLocal s by auto
  next
    case TargetExternal
    with len show ?thesis by (simp add: next_over_edge_def slice_index_def)
  qed
qed

text \<open>The edge and name a re-export follows, if it is one.\<close>

definition reexport :: "ProgramModule \<Rightarrow> ExportSource \<Rightarrow> (EdgeId \<times> ConstantId) option" where
  "reexport m source = (case source of
      ExportIndirect e n \<Rightarrow> Some (e, n)
    | ExportLocal b \<Rightarrow> (case bd_kind (pm_bindings m ! unat b) of Imported e n \<Rightarrow> Some (e, n) | _ \<Rightarrow> None))"

lemma reexport_ok:
  assumes "metadata_ok k m" "x \<in> set (pm_exports m)" "reexport m (ex_source x) = Some (e, n)"
  shows "static_edge m e" "good_string m n"
proof -
  have x: "export_ok m x" using assms(1,2) by (simp add: metadata_ok_def)
  have "static_edge m e \<and> good_string m n"
  proof (cases "ex_source x")
    case (ExportLocal b)
    then have "binding_ok m (pm_bindings m ! unat b)" using x assms(1) by (auto simp: metadata_ok_def export_ok_def)
    then show ?thesis using assms(3) ExportLocal
      by (auto simp: reexport_def binding_ok_def split: BindingKind.splits)
  next
    case (ExportIndirect e' n')
    then show ?thesis using x assms(3) by (simp add: reexport_def export_ok_def)
  qed
  then show "static_edge m e" "good_string m n" by auto
qed

lemma next_export_spec:
  assumes ms: "linkable ms" "indexed ms indices" and x: "valid_export ms x"
  defines "m \<equiv> ms ! fst x"
  defines "src \<equiv> ex_source (pm_exports m ! snd x)"
  shows "next_export ms indices x \<noteq> Panic"
    and "next_export ms indices x = Ok (Some y) \<longleftrightarrow> (\<exists>e n t. reexport m src = Some (e, n) \<and>
      ed_target (pm_edges m ! unat e) = TargetLocal t \<and> fst y = unat t \<and> valid_export ms y \<and>
      export_name ms y = string_at (pm_code m) n)"
    and "next_export ms indices x = Ok None \<longleftrightarrow> (case reexport m src of None \<Rightarrow> True
      | Some (e, n) \<Rightarrow> ed_target (pm_edges m ! unat e) = TargetExternal)"
proof -
  have i: "fst x < length ms" and j: "snd x < length (pm_exports m)" using x by (auto simp: valid_export_def m_def)
  have meta: "metadata_ok (length ms) m" using linkableD [OF ms(1) i] by (simp add: m_def)
  have b: "unat b < length (pm_bindings m)" if "src = ExportLocal b" for b
    using meta nth_mem [OF j] that by (auto simp: metadata_ok_def export_ok_def src_def)
  have run: "\<exists>err. next_export ms indices x = (case reexport m src of None \<Rightarrow> Ok None
      | Some (e, n) \<Rightarrow> next_over_edge indices m e n err)"
  proof (cases src)
    case (ExportLocal b')
    then show ?thesis using i j b [OF ExportLocal]
      by (cases "bd_kind (pm_bindings m ! unat b')")
        (auto simp: next_export_def slice_index_def m_def [symmetric] src_def [symmetric] reexport_def)
  next
    case (ExportIndirect e n)
    then show ?thesis using i j
      by (auto simp: next_export_def slice_index_def m_def [symmetric] src_def [symmetric] reexport_def)
  qed
  then obtain err where run: "next_export ms indices x = (case reexport m src of None \<Rightarrow> Ok None
      | Some (e, n) \<Rightarrow> next_over_edge indices m e n err)" by blast
  note edge = next_over_edge_spec [OF ms i, folded m_def]
  note ok = reexport_ok [OF meta nth_mem [OF j], folded src_def]
  show "next_export ms indices x \<noteq> Panic"
    using edge(1) ok by (auto simp: run split: option.splits)
  show "next_export ms indices x = Ok (Some y) \<longleftrightarrow> (\<exists>e n t. reexport m src = Some (e, n) \<and>
      ed_target (pm_edges m ! unat e) = TargetLocal t \<and> fst y = unat t \<and> valid_export ms y \<and>
      export_name ms y = string_at (pm_code m) n)"
    using edge(2) ok by (auto simp: run split: option.splits)
  show "next_export ms indices x = Ok None \<longleftrightarrow> (case reexport m src of None \<Rightarrow> True
      | Some (e, n) \<Rightarrow> ed_target (pm_edges m ! unat e) = TargetExternal)"
    using edge(3) ok by (auto simp: run split: option.splits)
qed

section \<open>The mark table\<close>

text \<open>Positions are pairs; their quantifiers are kept whole.\<close>

declare split_paired_All [simp del] split_paired_Ex [simp del]

definition marked :: "marks \<Rightarrow> nat \<times> nat \<Rightarrow> u8" where
  "marked states x = states ! fst x ! snd x"

definition table_shape :: "ProgramModule list \<Rightarrow> marks \<Rightarrow> bool" where
  "table_shape ms states \<longleftrightarrow> length states = length ms \<and>
     (\<forall>i < length ms. length (states ! i) = length (pm_exports (ms ! i)))"

lemma get_mark_Ok: "table_shape ms states \<Longrightarrow> valid_export ms x \<Longrightarrow> get_mark states x = Ok (marked states x)"
  by (simp add: get_mark_def table_shape_def valid_export_def marked_def slice_index_def)

lemma table_shape_set [simp]: "table_shape ms states \<Longrightarrow> table_shape ms (set_mark v x states)"
  by (cases "fst x < length states") (auto simp: table_shape_def set_mark_def nth_list_update)

lemma marked_set:
  assumes "table_shape ms states" "valid_export ms x" "valid_export ms y"
  shows "marked (set_mark v x states) y = (if y = x then v else marked states y)"
  using assms by (auto simp: table_shape_def valid_export_def marked_def set_mark_def nth_list_update prod_eq_iff)

lemma marked_fold:
  assumes "table_shape ms states" "\<forall>x \<in> set xs. valid_export ms x" "valid_export ms y"
  shows "table_shape ms (fold (set_mark v) xs states)"
    and "marked (fold (set_mark v) xs states) y = (if y \<in> set xs then v else marked states y)"
  using assms by (induction xs arbitrary: states) (auto simp: marked_set)

section \<open>One walk\<close>

text \<open>What a rejection of the resolution check means.\<close>

definition export_failure ::
    "ProgramModule list \<Rightarrow> (nat \<times> nat \<Rightarrow> ((nat \<times> nat) option, ProgramVerifyError) result) \<Rightarrow> ProgramVerifyError \<Rightarrow> bool" where
  "export_failure ms nx e \<longleftrightarrow>
     (\<exists>x. valid_export ms x \<and> nx x = Err e) \<or>
     (\<exists>x. valid_export ms x \<and> (follows nx)\<^sup>+\<^sup>+ x x \<and>
        e = link_error (as_u32 (fst x)) (IndirectExportCycle (as_u32 (snd x))))"

definition chase_inv ::
    "ProgramModule list \<Rightarrow> (nat \<times> nat \<Rightarrow> ((nat \<times> nat) option, ProgramVerifyError) result) \<Rightarrow>
     marks \<Rightarrow> (nat \<times> nat) list \<Rightarrow> nat \<times> nat \<Rightarrow> bool" where
  "chase_inv ms nx states stack current \<longleftrightarrow> table_shape ms states \<and> valid_export ms current \<and>
     (\<forall>x. valid_export ms x \<and> marked states x = 2 \<longrightarrow> (\<exists>n. ends nx n x)) \<and>
     (\<forall>x. valid_export ms x \<longrightarrow> (marked states x = 1 \<longleftrightarrow> x \<in> set stack)) \<and>
     (\<forall>x \<in> set stack. valid_export ms x \<and> (follows nx)\<^sup>+\<^sup>+ x current)"

definition chase_post ::
    "ProgramModule list \<Rightarrow> (nat \<times> nat \<Rightarrow> ((nat \<times> nat) option, ProgramVerifyError) result) \<Rightarrow>
     marks \<Rightarrow> nat \<times> nat \<Rightarrow> marks \<times> (nat \<times> nat) list \<Rightarrow> bool" where
  "chase_post ms nx states current out \<longleftrightarrow> (case out of (states', stack') \<Rightarrow>
     table_shape ms states' \<and> (marked states current = 2 \<or> current \<in> set stack') \<and>
     (\<forall>x \<in> set stack'. valid_export ms x \<and> (\<exists>n. ends nx n x)) \<and>
     (\<forall>x. valid_export ms x \<longrightarrow> marked states' x = (if x \<in> set stack' then 1 else marked states x)))"

lemma chase_inv_step:
  assumes inv: "chase_inv ms nx states stack current" and m: "marked states current \<noteq> 1" "marked states current \<noteq> 2"
    and nxt: "nx current = Ok (Some y)" "valid_export ms y"
  shows "chase_inv ms nx (set_mark 1 current states) (stack @ [current]) y"
proof -
  have cur: "valid_export ms current" and shape: "table_shape ms states" using inv by (auto simp: chase_inv_def)
  have "(follows nx)\<^sup>+\<^sup>+ x y" if "x \<in> set (stack @ [current])" for x
    using that inv nxt(1) by (auto simp: chase_inv_def intro: tranclp.trancl_into_trancl)
  then show ?thesis
    using inv nxt(2) cur by (auto simp: chase_inv_def marked_set [OF shape cur] split: if_splits)
qed

lemma chase_post_end:
  assumes inv: "chase_inv ms nx states stack current"
    and e: "\<exists>n. ends nx n current" and cur: "xs = [] \<and> marked states current = 2 \<or> xs = [current]"
    and states': "states' = fold (set_mark 1) xs states"
  shows "chase_post ms nx states current (states', stack @ xs)"
proof -
  have valid: "\<forall>x \<in> set xs. valid_export ms x" and shape: "table_shape ms states"
    using inv cur by (auto simp: chase_inv_def)
  have stack: "valid_export ms x \<and> (\<exists>n. ends nx n x)" if x: "x \<in> set stack" for x
  proof -
    from x inv have v: "valid_export ms x" "(follows nx)\<^sup>+\<^sup>+ x current" unfolding chase_inv_def by blast+
    from e obtain n where "ends nx n current" by blast
    from ends_backward [OF v(2) this] v(1) show ?thesis by blast
  qed
  have current: "valid_export ms current" using inv by (simp add: chase_inv_def)
  have all: "valid_export ms x \<and> (\<exists>n. ends nx n x)" if x: "x \<in> set (stack @ xs)" for x
  proof (cases "x \<in> set stack")
    case True
    then show ?thesis by (rule stack)
  next
    case False
    with x cur have "x = current" by auto
    with e current show ?thesis by simp
  qed
  show ?thesis
    unfolding chase_post_def prod.case
  proof (intro conjI ballI allI impI)
    show "table_shape ms states'" unfolding states' by (rule marked_fold(1) [OF shape valid current])
    show "marked states current = 2 \<or> current \<in> set (stack @ xs)" using cur by auto
    show "valid_export ms x" "\<exists>n. ends nx n x" if "x \<in> set (stack @ xs)" for x
      using all [OF that] by blast+
    show "marked states' x = (if x \<in> set (stack @ xs) then 1 else marked states x)" if "valid_export ms x" for x
      using inv that unfolding states' marked_fold(2) [OF shape valid that] by (auto simp: chase_inv_def)
  qed
qed

lemma chase_post_step:
  assumes "chase_inv ms nx states stack current" and "nx current = Ok (Some y)"
    and "chase_post ms nx (set_mark 1 current states) y (states', stack')"
    and "current \<in> set stack'"
  shows "chase_post ms nx states current (states', stack')"
  using assms by (auto simp: chase_post_def chase_inv_def marked_set)

lemma chase_exports_spec:
  assumes "linkable ms" "indexed ms indices"
    and "chase_inv ms (next_export ms indices) states stack current"
  shows "(case chase_exports ms indices states stack current of
      Ok out \<Rightarrow> chase_post ms (next_export ms indices) states current out \<and> set stack \<subseteq> set (snd out)
    | Err e \<Rightarrow> export_failure ms (next_export ms indices) e
    | Panic \<Rightarrow> False)"
  using assms
proof (induction ms indices states stack current rule: chase_exports.induct)
  case (1 ms indices states stack current)
  let ?nx = "next_export ms indices"
  note inv = \<open>chase_inv ms ?nx states stack current\<close>
  have cur: "valid_export ms current" and shape: "table_shape ms states" using inv by (auto simp: chase_inv_def)
  note mark = get_mark_Ok [OF shape cur]
  note run = chase_exports.simps [of ms indices states stack current, unfolded mark]
  show ?case
  proof (cases "marked states current = 2")
    case True
    then have "\<exists>n. ends ?nx n current" using inv cur unfolding chase_inv_def by blast
    from chase_post_end [OF inv this, of "[]" states] True run show ?thesis by simp
  next
    case not2: False
    show ?thesis
    proof (cases "marked states current = 1")
      case True
      then have "(follows ?nx)\<^sup>+\<^sup>+ current current" using inv cur unfolding chase_inv_def by blast
      with cur True not2 run show ?thesis by (auto simp: export_failure_def)
    next
      case not1: False
      show ?thesis
      proof (cases "?nx current")
        case (Ok nxt)
        show ?thesis
        proof (cases nxt)
          case None
          with Ok have "ends ?nx 0 current" by simp
          then have "\<exists>n. ends ?nx n current" by blast
          from chase_post_end [OF inv this, of "[current]"] Ok None not1 not2 run show ?thesis by auto
        next
          case (Some y)
          have y: "valid_export ms y"
            using next_export_spec(2) [OF 1(2,3) cur, of y] Ok Some by auto
          have inv': "chase_inv ms ?nx (set_mark 1 current states) (stack @ [current]) y"
            using chase_inv_step [OF inv not1 not2 _ y] Ok Some by simp
          from 1(1) [OF mark not2 not1 Ok Some 1(2,3) inv'] run Ok Some not1 not2
          show ?thesis
            using chase_post_step [OF inv, of y] by (auto split: result.splits)
        qed
      next
        case (Err e)
        with cur not1 not2 run show ?thesis by (auto simp: export_failure_def)
      next
        case Panic
        with next_export_spec(1) [OF 1(2,3) cur] show ?thesis by simp
      qed
    qed
  qed
qed

section \<open>All walks\<close>

text \<open>Between two walks no entry is on a walk, and resolved entries have chains that end.\<close>

definition table_inv ::
    "ProgramModule list \<Rightarrow> (nat \<times> nat \<Rightarrow> ((nat \<times> nat) option, ProgramVerifyError) result) \<Rightarrow> marks \<Rightarrow> bool" where
  "table_inv ms nx states \<longleftrightarrow> table_shape ms states \<and>
     (\<forall>x. valid_export ms x \<longrightarrow> marked states x \<noteq> 1 \<and> (marked states x = 2 \<longrightarrow> (\<exists>n. ends nx n x)))"

lemma resolve_from_spec:
  assumes ms: "linkable ms" "indexed ms indices" and inv: "table_inv ms (next_export ms indices) states"
    and x: "valid_export ms x"
  shows "(case resolve_from ms indices states x of
      Ok states' \<Rightarrow> table_inv ms (next_export ms indices) states' \<and> marked states' x = 2 \<and>
        (\<forall>y. valid_export ms y \<and> marked states y = 2 \<longrightarrow> marked states' y = 2)
    | Err e \<Rightarrow> export_failure ms (next_export ms indices) e
    | Panic \<Rightarrow> False)"
proof -
  let ?nx = "next_export ms indices"
  have shape: "table_shape ms states" using inv by (simp add: table_inv_def)
  have chase: "chase_inv ms ?nx states [] x" using inv x by (auto simp: chase_inv_def table_inv_def)
  note spec = chase_exports_spec [OF ms chase]
  show ?thesis
  proof (cases "marked states x = 2")
    case True
    then show ?thesis using inv get_mark_Ok [OF shape x] by (simp add: resolve_from_def)
  next
    case False
    show ?thesis
    proof (cases "chase_exports ms indices states [] x")
      case (Ok out)
      obtain states' stack where out: "out = (states', stack)" by force
      have post: "chase_post ms ?nx states x (states', stack)" using spec Ok out by simp
      then have shape': "table_shape ms states'" and valid: "\<forall>x \<in> set stack. valid_export ms x"
        by (auto simp: chase_post_def)
      have m: "marked (fold (set_mark 2) stack states') y = (if y \<in> set stack then 2 else marked states y)"
        if "valid_export ms y" for y
        using post that by (simp add: marked_fold(2) [OF shape' valid that] chase_post_def del: split_paired_All)
      have "table_inv ms ?nx (fold (set_mark 2) stack states')"
        using inv post marked_fold(1) [OF shape' valid x] m by (auto simp: table_inv_def chase_post_def)
      moreover have "x \<in> set stack" using post False by (simp add: chase_post_def)
      ultimately show ?thesis
        using m x False Ok out get_mark_Ok [OF shape x] by (simp add: resolve_from_def)
    next
      case (Err e)
      then show ?thesis using spec False get_mark_Ok [OF shape x] by (simp add: resolve_from_def)
    next
      case Panic
      then show ?thesis using spec by simp
    qed
  qed
qed

lemma resolve_all_spec:
  assumes ms: "linkable ms" "indexed ms indices" and "table_inv ms (next_export ms indices) states"
    and "\<forall>x \<in> set xs. valid_export ms x"
  shows "(case try_fold (resolve_from ms indices) states xs of
      Ok states' \<Rightarrow> table_inv ms (next_export ms indices) states' \<and>
        (\<forall>y. valid_export ms y \<and> (y \<in> set xs \<or> marked states y = 2) \<longrightarrow> marked states' y = 2)
    | Err e \<Rightarrow> export_failure ms (next_export ms indices) e
    | Panic \<Rightarrow> False)"
  using assms(3,4)
proof (induction xs arbitrary: states)
  case (Cons x xs)
  have x: "valid_export ms x" using Cons.prems(2) by simp
  note step = resolve_from_spec [OF ms Cons.prems(1) x]
  show ?case
  proof (cases "resolve_from ms indices states x")
    case (Ok t)
    have t: "table_inv ms (next_export ms indices) t" "marked t x = 2"
      "\<forall>y. valid_export ms y \<and> marked states y = 2 \<longrightarrow> marked t y = 2" using step Ok by simp_all
    from Cons.IH [OF t(1)] Cons.prems(2) t(2,3) Ok x show ?thesis
      by (auto split: result.splits)
  qed (use step in simp_all)
qed auto

lemma set_all_exports: "x \<in> set (all_exports ms) \<longleftrightarrow> valid_export ms x"
  by (cases x) (auto simp: all_exports_def valid_export_def in_enumerate image_iff Bex_def split_paired_Ex)

lemma verify_export_resolutions_spec:
  assumes ms: "linkable ms" "indexed ms indices"
  shows "verify_export_resolutions ms indices = Ok () \<longleftrightarrow>
      (\<forall>x. valid_export ms x \<longrightarrow> (\<exists>n. ends (next_export ms indices) n x))"
    and "verify_export_resolutions ms indices = Err e \<Longrightarrow> export_failure ms (next_export ms indices) e"
    and "verify_export_resolutions ms indices \<noteq> Panic"
proof -
  let ?nx = "next_export ms indices"
  let ?init = "map (\<lambda>m. replicate (length (pm_exports m)) 0) ms :: marks"
  have init: "table_inv ms ?nx ?init" by (auto simp: table_inv_def table_shape_def marked_def valid_export_def)
  have valid: "\<forall>x \<in> set (all_exports ms). valid_export ms x" by (simp add: set_all_exports)
  note all = resolve_all_spec [OF ms init valid]
  show err: "export_failure ms ?nx e" if "verify_export_resolutions ms indices = Err e" for e
    using all that by (auto simp: verify_export_resolutions_def bind_result_iffs)
  show panic: "verify_export_resolutions ms indices \<noteq> Panic"
    using all by (auto simp: verify_export_resolutions_def bind_result_iffs)
  show "verify_export_resolutions ms indices = Ok () \<longleftrightarrow> (\<forall>x. valid_export ms x \<longrightarrow> (\<exists>n. ends ?nx n x))"
  proof
    assume "verify_export_resolutions ms indices = Ok ()"
    then show "\<forall>x. valid_export ms x \<longrightarrow> (\<exists>n. ends ?nx n x)"
      using all by (auto simp: verify_export_resolutions_def bind_result_iffs set_all_exports table_inv_def)
  next
    assume ends: "\<forall>x. valid_export ms x \<longrightarrow> (\<exists>n. ends ?nx n x)"
    have "\<not> export_failure ms ?nx e" for e
    proof
      assume "export_failure ms ?nx e"
      then consider x where "valid_export ms x" "?nx x = Err e"
        | x where "valid_export ms x" "(follows ?nx)\<^sup>+\<^sup>+ x x" unfolding export_failure_def by blast
      then show False
      proof cases
        case 1
        with ends obtain n where "ends ?nx n x" by blast
        with 1(2) show False by (cases n) auto
      next
        case 2
        with ends obtain n where "ends ?nx n x" by blast
        from ends_acyclic [OF this] 2(2) show False by simp
      qed
    qed
    with err panic show "verify_export_resolutions ms indices = Ok ()"
      by (cases "verify_export_resolutions ms indices") auto
  qed
qed

declare split_paired_All [simp] split_paired_Ex [simp]

end
