(* ===== verification/Program_Link.thy ===== *)
theory Program_Link
  imports Export_Graph
begin

text \<open>
  \<open>Program::link\<close>, \<open>Program::verify\<close> and \<open>resolve_export\<close>
  (\<^verbatim>\<open>crates/bamts-bytecode/src/program.rs\<close>): what a linked program guarantees, that linking never
  panics on verified modules, and that the bounded export walk of a linked program always reaches
  the declarative target of every export.
\<close>

section \<open>What linking establishes\<close>

definition module_named :: "ProgramModule \<Rightarrow> bool" where
  "module_named m \<longleftrightarrow> good_string m (pm_name m) \<and>
     (\<forall>s. string_at (pm_code m) (pm_name m) = Some s \<longrightarrow> is_normalized_module_name s)"

interpretation modules: name_table "\<lambda>m. string_at (pm_code m) (pm_name m)"
  "\<lambda>m. module_named m \<and> metadata_ok n m" "verify_named_module n" for n
  by unfold_locales
    (auto simp: verify_named_module_def Let_def bind_result_iffs module_named_def good_string_def
      verify_module_metadata_Ok_iff)

text \<open>Every imported binding over a local edge names an export of its target.\<close>

definition imports_resolve :: "ProgramModule list \<Rightarrow> bool" where
  "imports_resolve ms \<longleftrightarrow> (\<forall>m \<in> set ms. \<forall>b \<in> set (pm_bindings m). \<forall>e n t.
     bd_kind b = Imported e n \<and> ed_target (pm_edges m ! unat e) = TargetLocal t \<longrightarrow>
     (\<exists>j. valid_export ms (unat t, j) \<and> export_name ms (unat t, j) = string_at (pm_code m) n))"

definition linked :: "ProgramModule list \<Rightarrow> ModuleId \<Rightarrow> bool" where
  "linked ms entry \<longleftrightarrow> length ms < 2 ^ 32 \<and> unat entry < length ms \<and>
     (\<forall>m \<in> set ms. module_named m) \<and> distinct (map (\<lambda>m. string_at (pm_code m) (pm_name m)) ms) \<and>
     linkable ms \<and>
     (\<forall>indices. indexed ms indices \<longrightarrow>
        (\<forall>x. valid_export ms x \<longrightarrow> (\<exists>n. ends (next_export ms indices) n x))) \<and>
     imports_resolve ms"

lemma indexed_unique: "indexed ms a \<Longrightarrow> indexed ms b \<Longrightarrow> a = b"
proof (rule nth_equalityI)
  fix i assume "indexed ms a" "indexed ms b" "i < length a"
  then have "(a ! i) nm = Some j \<longleftrightarrow> (b ! i) nm = Some j" for nm j by (simp add: indexed_def)
  then show "a ! i = b ! i" by (metis ext option.exhaust)
qed (simp add: indexed_def)

lemma verify_imported_binding_spec:
  assumes ms: "linkable ms" "indexed ms indices" and i: "i < length ms" and b: "b \<in> set (pm_bindings (ms ! i))"
  shows "verify_imported_binding indices i (ms ! i) (k, b) = Ok () \<longleftrightarrow>
      (\<forall>e n t. bd_kind b = Imported e n \<and> ed_target (pm_edges (ms ! i) ! unat e) = TargetLocal t \<longrightarrow>
         (\<exists>j. valid_export ms (unat t, j) \<and> export_name ms (unat t, j) = string_at (pm_code (ms ! i)) n))"
    and "verify_imported_binding indices i (ms ! i) (k, b) \<noteq> Panic"
proof -
  have ok: "binding_ok (ms ! i) b" using linkableD [OF ms(1) i] b by (simp add: metadata_ok_def)
  have "(verify_imported_binding indices i (ms ! i) (k, b) = Ok () \<longleftrightarrow>
      (\<forall>e n t. bd_kind b = Imported e n \<and> ed_target (pm_edges (ms ! i) ! unat e) = TargetLocal t \<longrightarrow>
         (\<exists>j. valid_export ms (unat t, j) \<and> export_name ms (unat t, j) = string_at (pm_code (ms ! i)) n))) \<and>
      verify_imported_binding indices i (ms ! i) (k, b) \<noteq> Panic"
  proof (cases "bd_kind b")
    case (Imported e n)
    then have len: "unat e < length (pm_edges (ms ! i))" and "good_string (ms ! i) n"
      using ok by (auto simp: binding_ok_def static_edge_def)
    then obtain s where s: "string_at (pm_code (ms ! i)) n = Some s" by (auto simp: good_string_def)
    show ?thesis
    proof (cases "ed_target (pm_edges (ms ! i) ! unat e)")
      case (TargetLocal t)
      have t: "unat t < length ms" by (rule edge_target_bound [OF ms(1) i len TargetLocal])
      have "(indices ! unat t) s = Some j \<longleftrightarrow> valid_export ms (unat t, j) \<and> export_name ms (unat t, j) = Some s" for j
        using ms(2) t by (simp add: indexed_def)
      then have "(indices ! unat t) s \<noteq> None \<longleftrightarrow>
          (\<exists>j. valid_export ms (unat t, j) \<and> export_name ms (unat t, j) = Some s)" by auto
      then show ?thesis
        using Imported TargetLocal len s t ms(2)
        by (auto simp: verify_imported_binding_def slice_index_def expect_def indexed_def)
    qed (use Imported len in \<open>simp add: verify_imported_binding_def slice_index_def\<close>)
  qed (simp_all add: verify_imported_binding_def)
  then show "verify_imported_binding indices i (ms ! i) (k, b) = Ok () \<longleftrightarrow>
      (\<forall>e n t. bd_kind b = Imported e n \<and> ed_target (pm_edges (ms ! i) ! unat e) = TargetLocal t \<longrightarrow>
         (\<exists>j. valid_export ms (unat t, j) \<and> export_name ms (unat t, j) = string_at (pm_code (ms ! i)) n))"
    and "verify_imported_binding indices i (ms ! i) (k, b) \<noteq> Panic" by blast+
qed

lemma verify_imported_bindings_spec:
  assumes ms: "linkable ms" "indexed ms indices"
  shows "verify_imported_bindings ms indices = Ok () \<longleftrightarrow> imports_resolve ms"
    and "verify_imported_bindings ms indices \<noteq> Panic"
proof -
  let ?P = "\<lambda>m b. \<forall>e n t. bd_kind b = Imported e n \<and> ed_target (pm_edges m ! unat e) = TargetLocal t \<longrightarrow>
     (\<exists>j. valid_export ms (unat t, j) \<and> export_name ms (unat t, j) = string_at (pm_code m) n)"
  have one: "try_all (map (verify_imported_binding indices i (ms ! i)) (enumerate 0 (pm_bindings (ms ! i)))) = Ok () \<longleftrightarrow>
      (\<forall>b \<in> set (pm_bindings (ms ! i)). ?P (ms ! i) b)" if i: "i < length ms" for i
    unfolding try_all_Ok_iff set_map ball_simps(9) all_enumerate all_set_conv_all_nth [of "pm_bindings (ms ! i)"]
    using verify_imported_binding_spec(1) [OF ms i nth_mem] by blast
  show "verify_imported_bindings ms indices = Ok () \<longleftrightarrow> imports_resolve ms"
    unfolding verify_imported_bindings_def imports_resolve_def try_all_Ok_iff set_map ball_simps(9)
      all_enumerate prod.case all_set_conv_all_nth [of ms]
    using one by (simp add: try_all_Ok_iff all_enumerate)
  show "verify_imported_bindings ms indices \<noteq> Panic"
    unfolding verify_imported_bindings_def
    using verify_imported_binding_spec(2) [OF ms _ nth_mem]
    by (intro try_all_map_no_Panic) (auto simp: in_enumerate intro!: try_all_map_no_Panic)
qed

lemma verify_program_metadata_Ok_iff: "verify_program_metadata ms entry = Ok () \<longleftrightarrow> linked ms entry"
proof -
  have tables: "(\<exists>t. try_fold (verify_named_module (length ms)) Map.empty (enumerate 0 ms) = Ok t) \<longleftrightarrow>
      (\<forall>m \<in> set ms. module_named m) \<and> distinct (map (\<lambda>m. string_at (pm_code m) (pm_name m)) ms) \<and> linkable ms"
    unfolding modules.table_total by (auto simp: linkable_def module_named_def good_string_def)
  have rest: "(\<exists>indices. try_map index_exports ms = Ok indices \<and> verify_export_resolutions ms indices = Ok () \<and>
        verify_imported_bindings ms indices = Ok ()) \<longleftrightarrow>
      (\<forall>indices. indexed ms indices \<longrightarrow> (\<forall>x. valid_export ms x \<longrightarrow> (\<exists>n. ends (next_export ms indices) n x))) \<and>
      imports_resolve ms" if link: "linkable ms"
  proof -
    from try_map_index_exports [OF link] obtain indices where
      ix: "try_map index_exports ms = Ok indices" "indexed ms indices" by blast
    have only: "(\<forall>indices. indexed ms indices \<longrightarrow> Q indices) \<longleftrightarrow> Q indices" for Q
      using ix(2) indexed_unique [OF ix(2)] by blast
    show ?thesis
      unfolding only ix(1) verify_export_resolutions_spec(1) [OF link ix(2), symmetric]
        verify_imported_bindings_spec(1) [OF link ix(2), symmetric] by simp
  qed
  have "verify_program_metadata ms entry = Ok () \<longleftrightarrow> length ms < 2 ^ 32 \<and> unat entry < length ms \<and>
      (\<exists>t. try_fold (verify_named_module (length ms)) Map.empty (enumerate 0 ms) = Ok t) \<and>
      (\<exists>indices. try_map index_exports ms = Ok indices \<and> verify_export_resolutions ms indices = Ok () \<and>
        verify_imported_bindings ms indices = Ok ())"
    by (auto simp: verify_program_metadata_def bind_result_iffs)
  then show ?thesis using rest unfolding tables linked_def by blast
qed

lemma program_link_Ok_iff:
  "program_link ms entry = Ok p \<longleftrightarrow> linked ms entry \<and> p = \<lparr>pg_modules = ms, pg_entry = entry\<rparr>"
  by (auto simp: program_link_def bind_result_iffs verify_program_metadata_Ok_iff)

section \<open>No panic\<close>

lemma table_no_Panic:
  assumes "\<And>names at. add names at \<noteq> Panic"
  shows "try_fold add names xs \<noteq> Panic"
  by (rule try_fold_no_Panic [where I = "\<lambda>_. True"]) (simp_all add: assms)

lemma verify_edge_no_Panic: "verify_edge n mid m names at \<noteq> Panic"
  by (cases at) (auto simp: verify_edge_def Let_def bind_result_iffs split: EdgeTarget.splits)

lemma verify_binding_no_Panic: "verify_binding mid m names at \<noteq> Panic"
  by (cases at) (auto simp: verify_binding_def Let_def bind_result_iffs verify_binding_kind_spec)

lemma verify_export_no_Panic: "verify_export mid m names at \<noteq> Panic"
  by (cases at) (auto simp: verify_export_def Let_def bind_result_iffs verify_export_source_spec)

lemma tables_no_Panic:
  "try_fold (verify_edge n mid m) names es \<noteq> Panic"
  "try_fold (verify_binding mid m) names bs \<noteq> Panic"
  "try_fold (verify_export mid m) names xs \<noteq> Panic"
  by (rule table_no_Panic, rule verify_edge_no_Panic verify_binding_no_Panic verify_export_no_Panic)+

lemma string_constant_at:
  "unat c < length (m_constants m) \<Longrightarrow> is_string_constant (m_constants m ! unat c) \<Longrightarrow> \<exists>s. string_at m c = Some s"
  by (cases "m_constants m ! unat c") (auto simp: string_at_Some is_string_constant_def)

lemma verify_code_instruction_no_Panic:
  assumes table: "try_fold (verify_edge n mid m) Map.empty (enumerate 0 (pm_edges m)) = Ok specifiers"
    and len: "length (pm_edges m) < 2 ^ 32" and ins: "instruction_ok (pm_code m) f pc ins"
  shows "verify_code_instruction mid m specifiers fi (k, ins) \<noteq> Panic"
proof (cases "\<exists>d s. ins = Import d s")
  case True
  then obtain d s where i: "ins = Import d s" by blast
  then have "unat s < length (m_constants (pm_code m))" "is_string_constant (m_constants (pm_code m) ! unat s)"
    using ins by (auto simp: instruction_ok_def constant_operands_def string_operands_def)
  from string_constant_at [OF this] obtain name where name: "string_at (pm_code m) s = Some name" by blast
  show ?thesis
  proof (cases "specifiers name")
    case None
    then show ?thesis using name by (simp add: i verify_code_instruction_def expect_def)
  next
    case (Some v)
    then show ?thesis
      using name edge_table [OF table len Some] by (simp add: i verify_code_instruction_def expect_def slice_index_def)
  qed
next
  case False
  then show ?thesis by (cases ins) (simp_all add: verify_code_instruction_def)
qed

lemma verify_code_function_no_Panic:
  assumes table: "try_fold (verify_edge n mid m) Map.empty (enumerate 0 (pm_edges m)) = Ok specifiers"
    and len: "length (pm_edges m) < 2 ^ 32" and f: "function_ok (pm_code m) f"
  shows "verify_code_function mid m specifiers (fi, f) \<noteq> Panic"
proof -
  have "try_all (map (verify_code_instruction mid m specifiers fi) (enumerate 0 (fn_code f))) \<noteq> Panic"
    using f verify_code_instruction_no_Panic [OF table len]
    by (intro try_all_map_no_Panic) (auto simp: in_enumerate function_ok_def)
  moreover have "fn_name f = Some c \<Longrightarrow> \<exists>s. string_at (pm_code m) c = Some s" for c
    using f by (auto simp: function_ok_def name_ok_def intro: string_constant_at)
  ultimately show ?thesis
    by (cases "fn_name f") (auto simp: verify_code_function_def bind_result_iffs)
qed

lemma verify_module_metadata_no_Panic:
  assumes "module_ok (pm_code m)"
  shows "verify_module_metadata n mid m \<noteq> Panic"
proof -
  have code: "try_all (map (verify_code_function mid m specifiers) (enumerate 0 (m_functions (pm_code m)))) \<noteq> Panic"
    if "try_fold (verify_edge n mid m) Map.empty (enumerate 0 (pm_edges m)) = Ok specifiers"
      "length (pm_edges m) < 2 ^ 32" for specifiers
    using assms verify_code_function_no_Panic [OF that]
    by (intro try_all_map_no_Panic) (auto simp: in_enumerate module_ok_def)
  show ?thesis
    using code by (auto simp: verify_module_metadata_def bind_result_iffs tables_no_Panic)
qed

lemma verify_program_metadata_no_Panic:
  assumes "\<forall>m \<in> set ms. module_ok (pm_code m)"
  shows "verify_program_metadata ms entry \<noteq> Panic"
proof -
  have named: "try_fold (verify_named_module (length ms)) Map.empty (enumerate 0 ms) \<noteq> Panic"
    by (rule try_fold_no_Panic [where I = "\<lambda>_. True"])
      (use assms verify_module_metadata_no_Panic in
        \<open>auto simp: in_enumerate verify_named_module_def Let_def bind_result_iffs\<close>)
  have rest: "bind_result (try_map index_exports ms) (\<lambda>indices.
        bind_result (verify_export_resolutions ms indices) (\<lambda>_. verify_imported_bindings ms indices)) \<noteq> Panic"
    if "\<exists>t. try_fold (verify_named_module (length ms)) Map.empty (enumerate 0 ms) = Ok t"
  proof -
    have link: "linkable ms" using that unfolding modules.table_total by (simp add: linkable_def)
    from try_map_index_exports [OF link] obtain indices where
      ix: "try_map index_exports ms = Ok indices" "indexed ms indices" by blast
    show ?thesis
      using ix verify_export_resolutions_spec(3) [OF link ix(2)] verify_imported_bindings_spec(2) [OF link ix(2)]
      by (simp add: bind_result_iffs)
  qed
  show ?thesis
    using named rest by (auto simp: verify_program_metadata_def bind_result_iffs [of "try_fold _ _ _"])
qed

lemma function_ok_certificates: "function_ok (m\<lparr>m_certificates := c\<rparr>) f \<longleftrightarrow> function_ok m f"
  by (cases "fn_name f") (simp_all add: function_ok_def name_ok_def instruction_ok_def)

lemma module_ok_certificates: "module_ok (m\<lparr>m_certificates := c\<rparr>) \<longleftrightarrow> module_ok m"
  by (simp add: module_ok_def function_ok_certificates)

lemma verify_module_ok: "verify_module m = Ok m' \<Longrightarrow> module_ok m'"
  using verify_module_result(1) [of m m'] verify_module_Ok_iff [of m] module_ok_certificates by metis

lemma program_verify_no_Panic: "program_verify p \<noteq> Panic"
proof -
  let ?g = "\<lambda>(index, m). bind_result (map_err (\<lambda>e. link_error (as_u32 index) (ModuleKind e)) (verify_module (pm_code m)))
           (\<lambda>code. Ok (m\<lparr>pm_code := code\<rparr>))"
  have "try_map ?g (enumerate 0 (pg_modules p)) \<noteq> Panic"
    by (auto dest!: try_map_Panic simp: bind_result_iffs verify_module_no_Panic)
  moreover have "\<forall>m \<in> set ms. module_ok (pm_code m)" if ms: "try_map ?g (enumerate 0 (pg_modules p)) = Ok ms" for ms
  proof
    fix m assume "m \<in> set ms"
    then obtain i where i: "i < length ms" "m = ms ! i" by (auto simp: in_set_conv_nth)
    with ms obtain code where "verify_module (pm_code (pg_modules p ! i)) = Ok code"
      "m = (pg_modules p ! i)\<lparr>pm_code := code\<rparr>"
      by (auto simp: try_map_Ok_iff list_all2_conv_all_nth bind_result_iffs nth_enumerate_eq)
    then show "module_ok (pm_code m)" by (simp add: verify_module_ok)
  qed
  ultimately show ?thesis
    using verify_program_metadata_no_Panic by (auto simp: program_verify_def program_link_def bind_result_iffs)
qed

section \<open>The export walk\<close>

definition has_export :: "Program \<Rightarrow> ModuleId \<Rightarrow> EcmaString \<Rightarrow> ExportSource \<Rightarrow> bool" where
  "has_export p mid nm src \<longleftrightarrow> unat mid < length (pg_modules p) \<and>
     (\<exists>x \<in> set (pm_exports (pg_modules p ! unat mid)).
        string_at (pm_code (pg_modules p ! unat mid)) (ex_name x) = Some nm \<and> ex_source x = src)"

text \<open>
  The target of an exported name, as the linkage tables say: the module's own binding, an import
  from outside the program, or whatever the name it re-exports from another module stands for.
\<close>

inductive export_target :: "Program \<Rightarrow> ModuleId \<Rightarrow> EcmaString \<Rightarrow> ResolvedExport \<Rightarrow> bool" for p :: Program where
  own: "has_export p mid nm (ExportLocal b) \<Longrightarrow> reexport (pg_modules p ! unat mid) (ExportLocal b) = None \<Longrightarrow>
    export_target p mid nm (ResolvedLocal mid b)"
| outside: "has_export p mid nm src \<Longrightarrow> reexport (pg_modules p ! unat mid) src = Some (e, n) \<Longrightarrow>
    ed_target (pm_edges (pg_modules p ! unat mid) ! unat e) = TargetExternal \<Longrightarrow>
    export_target p mid nm (ResolvedExternal mid e n)"
| onward: "has_export p mid nm src \<Longrightarrow> reexport (pg_modules p ! unat mid) src = Some (e, n) \<Longrightarrow>
    ed_target (pm_edges (pg_modules p ! unat mid) ! unat e) = TargetLocal t \<Longrightarrow>
    string_at (pm_code (pg_modules p ! unat mid)) n = Some l \<Longrightarrow> export_target p t l r \<Longrightarrow>
    export_target p mid nm r"

lemma find_unique:
  assumes "distinct (map g xs)" "x \<in> set xs" "g x = y"
  shows "find (\<lambda>z. g z = y) xs = Some x"
  using assms by (induction xs) (auto simp: image_iff)

lemma walk_step_export:
  assumes link: "linkable (pg_modules p)" and ex: "has_export p mid nm src"
  shows "export_walk_step p mid nm = (case reexport (pg_modules p ! unat mid) src of
      None \<Rightarrow> (case src of ExportLocal b \<Rightarrow> Return_Step (Some (ResolvedLocal mid b)) | _ \<Rightarrow> Return_Step None)
    | Some (e, n) \<Rightarrow> walk_over_edge (pg_modules p ! unat mid) mid e n)"
proof -
  let ?m = "pg_modules p ! unat mid"
  from ex obtain x where mid: "unat mid < length (pg_modules p)" and x: "x \<in> set (pm_exports ?m)"
    "string_at (pm_code ?m) (ex_name x) = Some nm" "ex_source x = src" by (auto simp: has_export_def)
  have meta: "metadata_ok (length (pg_modules p)) ?m" by (rule linkableD [OF link mid])
  then have "distinct (map (\<lambda>x. string_at (pm_code ?m) (ex_name x)) (pm_exports ?m))"
    by (simp add: metadata_ok_def unique_names_def comp_def)
  from find_unique [OF this x(1,2)]
  have find: "find (\<lambda>export. string_at (pm_code ?m) (ex_name export) = Some nm) (pm_exports ?m) = Some x" .
  have bound: "unat b < length (pm_bindings ?m)" if "src = ExportLocal b" for b
    using meta x that by (auto simp: metadata_ok_def export_ok_def)
  show ?thesis
    using mid find x(3) bound
    by (auto simp: export_walk_step_def slice_get_def reexport_def split: ExportSource.splits BindingKind.splits)
qed

lemma walk_over_edge_ok:
  assumes "linkable (pg_modules p)" "has_export p mid nm src" "reexport (pg_modules p ! unat mid) src = Some (e, n)"
  shows "unat e < length (pm_edges (pg_modules p ! unat mid))" "\<exists>l. string_at (pm_code (pg_modules p ! unat mid)) n = Some l"
proof -
  let ?m = "pg_modules p ! unat mid"
  from assms(2) obtain x where "unat mid < length (pg_modules p)" "x \<in> set (pm_exports ?m)" "ex_source x = src"
    by (auto simp: has_export_def)
  with reexport_ok [OF linkableD [OF assms(1)], of "unat mid" x e n] assms(3)
  show "unat e < length (pm_edges ?m)" "\<exists>l. string_at (pm_code ?m) n = Some l"
    by (auto simp: static_edge_def good_string_def)
qed

text \<open>Any number of rounds: if the walk returns an export, it is the target.\<close>

lemma export_walk_sound:
  assumes "linkable (pg_modules p)" and "export_target p mid nm r"
  shows "export_walk p k mid nm = Some r' \<longrightarrow> r' = r"
  using assms(2)
proof (induction arbitrary: k rule: export_target.induct)
  case (own mid nm b)
  show ?case using own walk_step_export [OF assms(1) own(1)] by (cases k) auto
next
  case (outside mid nm src e n)
  show ?case using outside walk_step_export [OF assms(1) outside(1)] walk_over_edge_ok [OF assms(1) outside(1,2)]
    by (cases k) (auto simp: walk_over_edge_def slice_get_def)
next
  case (onward mid nm src e n t l r)
  show ?case using onward walk_step_export [OF assms(1) onward(1)] walk_over_edge_ok [OF assms(1) onward(1,2)]
    by (cases k) (auto simp: walk_over_edge_def slice_get_def)
qed

lemma valid_has_export:
  assumes "valid_export (pg_modules p) x" "unat mid = fst x" "export_name (pg_modules p) x = Some nm"
  shows "has_export p mid nm (ex_source (pm_exports (pg_modules p ! unat mid) ! snd x))"
  using assms by (auto simp: has_export_def valid_export_def export_name_def)

lemma export_walk_complete:
  assumes ms: "linkable (pg_modules p)" "indexed (pg_modules p) indices"
    and "ends (next_export (pg_modules p) indices) n x" "valid_export (pg_modules p) x"
    "unat mid = fst x" "export_name (pg_modules p) x = Some nm" "n < k"
  shows "\<exists>r. export_walk p k mid nm = Some r \<and> export_target p mid nm r"
  using assms(3-7)
proof (induction n arbitrary: x mid nm k)
  case 0
  then obtain k' where k: "k = Suc k'" by (cases k) auto
  let ?m = "pg_modules p ! unat mid" and ?src = "ex_source (pm_exports (pg_modules p ! unat mid) ! snd x)"
  note ex = valid_has_export [OF 0(2-4)]
  have none: "case reexport ?m ?src of None \<Rightarrow> True | Some (e, n) \<Rightarrow> ed_target (pm_edges ?m ! unat e) = TargetExternal"
    using next_export_spec(3) [OF ms 0(2), folded 0(3)] 0(1) by simp
  show ?case
  proof (cases "reexport ?m ?src")
    case None
    then obtain b where src: "?src = ExportLocal b" by (cases ?src) (auto simp: reexport_def)
    have "export_target p mid nm (ResolvedLocal mid b)"
      by (rule export_target.own) (use ex None src in simp_all)
    with walk_step_export [OF ms(1) ex] None src k show ?thesis by simp
  next
    case (Some en)
    then obtain e n where en: "reexport ?m ?src = Some (e, n)" by (cases en) auto
    then have t: "ed_target (pm_edges ?m ! unat e) = TargetExternal" using none by simp
    have "export_walk p k mid nm = Some (ResolvedExternal mid e n)"
      using walk_step_export [OF ms(1) ex] walk_over_edge_ok [OF ms(1) ex en] en t k
      by (simp add: walk_over_edge_def slice_get_def)
    with export_target.outside [OF ex en t] show ?thesis by blast
  qed
next
  case (Suc n)
  then obtain k' where k: "k = Suc k'" "n < k'" by (cases k) auto
  let ?m = "pg_modules p ! unat mid" and ?src = "ex_source (pm_exports (pg_modules p ! unat mid) ! snd x)"
  note ex = valid_has_export [OF Suc.prems(2-4)]
  from Suc.prems(1) obtain y where y: "next_export (pg_modules p) indices x = Ok (Some y)"
    "ends (next_export (pg_modules p) indices) n y" by auto
  then obtain e c t where en: "reexport ?m ?src = Some (e, c)" and t: "ed_target (pm_edges ?m ! unat e) = TargetLocal t"
    and fy: "unat t = fst y" "valid_export (pg_modules p) y" "export_name (pg_modules p) y = string_at (pm_code ?m) c"
    using next_export_spec(2) [OF ms Suc.prems(2), of y] Suc.prems(3) by auto
  obtain l where l: "string_at (pm_code ?m) c = Some l" using walk_over_edge_ok [OF ms(1) ex en] by blast
  have "\<exists>r. export_walk p k' t l = Some r \<and> export_target p t l r"
    by (rule Suc.IH [OF y(2) fy(2,1)]) (use fy(3) l k(2) in simp_all)
  then obtain r where r: "export_walk p k' t l = Some r" "export_target p t l r" by blast
  have "export_walk p k mid nm = Some r"
    using walk_step_export [OF ms(1) ex] walk_over_edge_ok(1) [OF ms(1) ex en] en t l r(1) k(1)
    by (simp add: walk_over_edge_def slice_get_def)
  with export_target.onward [OF ex en t l r(2)] show ?case by blast
qed

section \<open>The bound of the walk\<close>

lemma length_all_exports: "length (all_exports ms) = (\<Sum>m \<leftarrow> ms. length (pm_exports m))"
proof -
  have "length (concat (map (\<lambda>(i, m). map (\<lambda>j. (i, j)) [0..<length (pm_exports m)]) (enumerate n ms))) =
      (\<Sum>m \<leftarrow> ms. length (pm_exports m))" for n
    by (induction ms arbitrary: n) simp_all
  then show ?thesis by (simp add: all_exports_def)
qed

lemma saturating_sum:
  "n + sum_list ls < 2 ^ 64 \<Longrightarrow> foldl (\<lambda>n len. u64_saturating (n + len)) n ls = n + sum_list ls"
  by (induction ls arbitrary: n) (auto simp: u64_saturating_def)

lemma sum_list_bound: "\<forall>l \<in> set ls. l \<le> b \<Longrightarrow> sum_list ls \<le> length ls * (b :: nat)"
  by (induction ls) auto

lemma linked_export_count:
  assumes "linked (pg_modules p) entry"
  shows "export_count p = length (all_exports (pg_modules p))"
proof -
  let ?ls = "map (\<lambda>m. length (pm_exports m)) (pg_modules p)"
  have "\<forall>l \<in> set ?ls. l \<le> 2 ^ 32 - 1" using assms by (fastforce simp: linked_def linkable_def metadata_ok_def)
  then have "sum_list ?ls \<le> length ?ls * (2 ^ 32 - 1)" by (rule sum_list_bound)
  also have "\<dots> \<le> (2 ^ 32 - 1) * (2 ^ 32 - 1)" using assms by (intro mult_le_mono1) (simp add: linked_def)
  finally have "0 + sum_list ?ls < 2 ^ 64" by simp
  from saturating_sum [OF this] show ?thesis by (simp add: export_count_def length_all_exports)
qed

lemma linked_chain_bound:
  assumes "linkable ms" "indexed ms indices" "ends (next_export ms indices) n x" "valid_export ms x"
  shows "n < length (all_exports ms)"
proof -
  have "n < card (set (all_exports ms))"
    using next_export_spec(2) [OF assms(1,2)]
    by (intro ends_bound [OF assms(3)]) (auto simp: set_all_exports assms(4))
  then show ?thesis using card_length [of "all_exports ms"] by simp
qed

lemma resolve_export_iff:
  assumes "program_link ms entry = Ok p"
  shows "resolve_export p mid nm = Some r \<longleftrightarrow> export_target p mid nm r"
    and "(\<exists>r. resolve_export p mid nm = Some r) \<longleftrightarrow> (\<exists>src. has_export p mid nm src)"
proof -
  have p: "pg_modules p = ms" and link: "linked (pg_modules p) entry"
    using assms by (auto simp: program_link_Ok_iff)
  then have ms: "linkable (pg_modules p)" by (simp add: linked_def)
  from try_map_index_exports [OF ms] obtain indices where ix: "indexed (pg_modules p) indices" by blast
  have total: "\<exists>r. resolve_export p mid nm = Some r \<and> export_target p mid nm r" if src: "has_export p mid nm src" for src
  proof -
    from src obtain j where x: "valid_export (pg_modules p) (unat mid, j)"
      "export_name (pg_modules p) (unat mid, j) = Some nm"
      by (auto simp: has_export_def in_set_conv_nth valid_export_def export_name_def)
    from link ix x(1) obtain n where n: "ends (next_export (pg_modules p) indices) n (unat mid, j)"
      unfolding linked_def by blast
    have "n < Suc (export_count p)"
      using linked_chain_bound [OF ms ix n x(1)] linked_export_count [OF link] by simp
    from export_walk_complete [OF ms ix n x(1) _ x(2) this] show ?thesis by (simp add: resolve_export_def)
  qed
  have exported: "\<exists>src. has_export p mid nm src" if r: "resolve_export p mid nm = Some r" for r
  proof -
    from r obtain m where "unat mid < length (pg_modules p)"
      "find (\<lambda>export. string_at (pm_code (pg_modules p ! unat mid)) (ex_name export) = Some nm)
         (pm_exports (pg_modules p ! unat mid)) = Some m"
      by (auto simp: resolve_export_def export_walk_step_def slice_get_def split: if_splits option.splits)
    then have "has_export p mid nm (ex_source m)" by (auto simp: has_export_def find_Some_iff)
    then show ?thesis by blast
  qed
  have target: "\<exists>src. has_export p mid nm src" if "export_target p mid nm r"
    using that by (auto elim: export_target.cases)
  show "(\<exists>r. resolve_export p mid nm = Some r) \<longleftrightarrow> (\<exists>src. has_export p mid nm src)"
    using total exported by blast
  show "resolve_export p mid nm = Some r \<longleftrightarrow> export_target p mid nm r"
  proof
    assume r: "resolve_export p mid nm = Some r"
    with exported total show "export_target p mid nm r" by fastforce
  next
    assume r: "export_target p mid nm r"
    with target total obtain r' where r': "resolve_export p mid nm = Some r'" by blast
    with export_walk_sound [OF ms r] have "r' = r" unfolding resolve_export_def by blast
    with r' show "resolve_export p mid nm = Some r" by simp
  qed
qed

end
