(* ===== verification/Program_Decoder.thy ===== *)
theory Program_Decoder
  imports Program_Model
begin

text \<open>
  The program envelope (\<^verbatim>\<open>crates/bamts-bytecode/src/program.rs\<close>): \<open>Program::encode\<close>, the strict
  decoder \<open>decode_program\<close> with its resource ceilings, and \<open>decode_verified_program\<close>. The allocator
  is not part of the crate: \<open>try_reserve\<close> is a parameter that says, for the vector being grown and the
  state of the decoder, whether the reservation succeeds.
\<close>

section \<open>Encoding\<close>

primrec encode_target :: "EdgeTarget \<Rightarrow> u8 list" where
  "encode_target (TargetLocal target) = 0 # write_u32 target"
| "encode_target TargetExternal = [1]"

primrec edge_kind_tag :: "EdgeKind \<Rightarrow> u8" where
  "edge_kind_tag EdgeStatic = 0"
| "edge_kind_tag EdgeDynamic = 1"
| "edge_kind_tag EdgeStaticAndDynamic = 2"

definition encode_edge :: "Edge \<Rightarrow> u8 list" where
  "encode_edge e = write_u32 (ed_specifier e) @ encode_target (ed_target e) @ [edge_kind_tag (ed_kind e)]"

primrec encode_binding_kind :: "BindingKind \<Rightarrow> u8 list" where
  "encode_binding_kind Hoisted = [0]"
| "encode_binding_kind Lexical = [1]"
| "encode_binding_kind (Imported edge name) = 2 # write_u32 edge @ write_u32 name"
| "encode_binding_kind (Namespace edge) = 3 # write_u32 edge"

definition encode_binding :: "Binding \<Rightarrow> u8 list" where
  "encode_binding b = write_u32 (bd_name b) @ encode_binding_kind (bd_kind b)"

primrec encode_export_source :: "ExportSource \<Rightarrow> u8 list" where
  "encode_export_source (ExportLocal binding) = 0 # write_u32 binding"
| "encode_export_source (ExportIndirect edge name) = 1 # write_u32 edge @ write_u32 name"

definition encode_export :: "Export \<Rightarrow> u8 list" where
  "encode_export x = write_u32 (ex_name x) @ encode_export_source (ex_source x)"

definition encode_program_module :: "ProgramModule \<Rightarrow> u8 list" where
  "encode_program_module m =
     (let blob = encode_module (pm_code m) in
      write_u32 (pm_name m) @ write_u32 (as_u32 (length blob)) @ blob @
      write_u32 (as_u32 (length (pm_edges m))) @ concat (map encode_edge (pm_edges m)) @
      write_u32 (as_u32 (length (pm_bindings m))) @ concat (map encode_binding (pm_bindings m)) @
      write_u32 (as_u32 (length (pm_exports m))) @ concat (map encode_export (pm_exports m)))"

definition encode_program :: "Program \<Rightarrow> u8 list" where
  "encode_program p =
     PROGRAM_MAGIC @ [PROGRAM_VERSION] @ write_u32 (pg_entry p) @
     write_u32 (as_u32 (length (pg_modules p))) @ concat (map encode_program_module (pg_modules p))"

section \<open>Limits, errors, state\<close>

record ProgramDecodeLimits =
  pl_max_bytes :: usize
  pl_max_modules :: u32
  pl_max_module_bytes :: usize
  pl_max_total_module_bytes :: usize
  pl_max_edges_per_module :: u32
  pl_max_bindings_per_module :: u32
  pl_max_exports_per_module :: u32
  pl_max_total_edges :: u32
  pl_max_total_bindings :: u32
  pl_max_total_exports :: u32
  pl_module :: DecodeLimits

definition ProgramDecodeLimits_default :: ProgramDecodeLimits where
  "ProgramDecodeLimits_default = \<lparr>
     pl_max_bytes = 64 * 1024 * 1024,
     pl_max_modules = 65536,
     pl_max_module_bytes = 16 * 1024 * 1024,
     pl_max_total_module_bytes = 48 * 1024 * 1024,
     pl_max_edges_per_module = 1048576,
     pl_max_bindings_per_module = 1048576,
     pl_max_exports_per_module = 1048576,
     pl_max_total_edges = 4194304,
     pl_max_total_bindings = 4194304,
     pl_max_total_exports = 4194304,
     pl_module = DecodeLimits_default\<rparr>"

datatype ProgramDecodeErrorKind =
    PInputLimitExceeded usize usize
  | PUnexpectedEof
  | PBadMagic u8 u8
  | PUnsupportedVersion u8
  | PNonCanonicalInteger
  | PIntegerOverflow
  | PInvalidEdgeTarget u8
  | PInvalidEdgeKind u8
  | PInvalidBindingKind u8
  | PInvalidExportSource u8
  | PLimitExceeded string nat nat
  | PAllocationFailed
  | PModule ModuleId DecodeError
  | PTrailingBytes usize

record ProgramDecodeError =
  perr_offset :: usize
  perr_kind :: ProgramDecodeErrorKind

record ProgramDecoder =
  pd_bytes :: "u8 list"
  pd_offset :: usize
  pd_limits :: ProgramDecodeLimits
  pd_total_module_bytes :: usize
  pd_total_edges :: nat
  pd_total_bindings :: nat
  pd_total_exports :: nat

type_synonym 'a program_reader = "(ProgramDecoder, 'a, ProgramDecodeError) fallible"
type_synonym allocator = "string \<Rightarrow> ProgramDecoder \<Rightarrow> bool"

section \<open>The primitive operations of the decoder\<close>

definition pd_error_at :: "usize \<Rightarrow> ProgramDecodeErrorKind \<Rightarrow> 'a program_reader" where
  "pd_error_at at kind d = Err \<lparr>perr_offset = at, perr_kind = kind\<rparr>"

definition pd_error :: "ProgramDecodeErrorKind \<Rightarrow> 'a program_reader" where
  "pd_error kind d = pd_error_at (pd_offset d) kind d"

definition pd_position :: "usize program_reader" where
  "pd_position d = Ok (pd_offset d, d)"

definition pd_read_limits :: "ProgramDecodeLimits program_reader" where
  "pd_read_limits d = Ok (pd_limits d, d)"

definition pd_byte :: "u8 program_reader" where
  "pd_byte d =
     (case slice_get (pd_bytes d) (pd_offset d) of
        None \<Rightarrow> pd_error PUnexpectedEof d
      | Some byte \<Rightarrow> Ok (byte, d\<lparr>pd_offset := pd_offset d + 1\<rparr>))"

definition pd_slice :: "usize \<Rightarrow> u8 list program_reader" where
  "pd_slice n d =
     (case usize_checked_add (pd_offset d) n of
        None \<Rightarrow> pd_error PUnexpectedEof d
      | Some stop \<Rightarrow>
          if stop \<le> length (pd_bytes d)
          then Ok (take n (drop (pd_offset d) (pd_bytes d)), d\<lparr>pd_offset := stop\<rparr>)
          else pd_error PUnexpectedEof d)"

primrec leb_error_kind :: "Leb128Error \<Rightarrow> ProgramDecodeErrorKind" where
  "leb_error_kind Leb_UnexpectedEof = PUnexpectedEof"
| "leb_error_kind Leb_IntegerOverflow = PIntegerOverflow"
| "leb_error_kind Leb_NonCanonicalInteger = PNonCanonicalInteger"

definition pd_u32 :: "u32 program_reader" where
  "pd_u32 d =
     (case read_leb128 (pd_bytes d) (pd_offset d) of
        (Ok v, offset) \<Rightarrow> Ok (v, d\<lparr>pd_offset := offset\<rparr>)
      | (Err e, _) \<Rightarrow> pd_error_at (pd_offset d) (leb_error_kind e) d
      | (Panic, _) \<Rightarrow> Panic)"

definition pd_count :: "string \<Rightarrow> u32 \<Rightarrow> usize program_reader" where
  "pd_count field limit =
     rbind pd_u32 (\<lambda>actual.
       if actual > limit then pd_error (PLimitExceeded field (unat limit) (unat actual))
       else rreturn (unat actual))"

definition pd_length :: "string \<Rightarrow> usize \<Rightarrow> usize program_reader" where
  "pd_length field limit =
     rbind pd_u32 (\<lambda>actual.
       if unat actual > limit then pd_error (PLimitExceeded field limit (unat actual))
       else rreturn (unat actual))"

datatype Total = TotalEdges | TotalBindings | TotalExports

fun total_slot :: "Total \<Rightarrow> ProgramDecoder \<Rightarrow> nat" where
  "total_slot TotalEdges d = pd_total_edges d"
| "total_slot TotalBindings d = pd_total_bindings d"
| "total_slot TotalExports d = pd_total_exports d"

fun set_total :: "Total \<Rightarrow> nat \<Rightarrow> ProgramDecoder \<Rightarrow> ProgramDecoder" where
  "set_total TotalEdges n d = d\<lparr>pd_total_edges := n\<rparr>"
| "set_total TotalBindings n d = d\<lparr>pd_total_bindings := n\<rparr>"
| "set_total TotalExports n d = d\<lparr>pd_total_exports := n\<rparr>"

text \<open>
  The slots are \<open>u64\<close>; each is checked against a \<open>u32\<close> limit after every addition of a \<open>u32\<close> count, so
  the addition cannot wrap.
\<close>

definition pd_add_total :: "string \<Rightarrow> usize \<Rightarrow> u32 \<Rightarrow> Total \<Rightarrow> unit program_reader" where
  "pd_add_total field count limit which d =
     (let d' = set_total which (total_slot which d + count) d in
      if total_slot which d' > unat limit
      then pd_error (PLimitExceeded field (unat limit) (total_slot which d')) d'
      else Ok ((), d'))"

definition pd_push_decoded :: "allocator \<Rightarrow> string \<Rightarrow> 'a \<Rightarrow> 'a program_reader" where
  "pd_push_decoded try_reserve values x d =
     (if try_reserve values d then Ok (x, d) else pd_error PAllocationFailed d)"

text \<open>A counted loop that decodes a value and pushes it.\<close>

fun pd_for :: "nat \<Rightarrow> nat \<Rightarrow> (nat \<Rightarrow> 'a program_reader) \<Rightarrow> 'a list program_reader" where
  "pd_for index 0 body = rreturn []"
| "pd_for index (Suc n) body =
     rbind (body index) (\<lambda>x. rbind (pd_for (Suc index) n body) (\<lambda>xs. rreturn (x # xs)))"

section \<open>Edges, bindings, exports\<close>

definition pd_target :: "EdgeTarget program_reader" where
  "pd_target =
     rbind pd_position (\<lambda>tag_at. rbind pd_byte (\<lambda>tag.
       if tag = 0 then rbind pd_u32 (\<lambda>target. rreturn (TargetLocal target))
       else if tag = 1 then rreturn TargetExternal
       else pd_error_at tag_at (PInvalidEdgeTarget tag)))"

definition pd_edge_kind :: "EdgeKind program_reader" where
  "pd_edge_kind =
     rbind pd_position (\<lambda>kind_at. rbind pd_byte (\<lambda>tag.
       if tag = 0 then rreturn EdgeStatic
       else if tag = 1 then rreturn EdgeDynamic
       else if tag = 2 then rreturn EdgeStaticAndDynamic
       else pd_error_at kind_at (PInvalidEdgeKind tag)))"

definition pd_edge :: "Edge program_reader" where
  "pd_edge =
     rbind pd_u32 (\<lambda>specifier. rbind pd_target (\<lambda>target. rbind pd_edge_kind (\<lambda>kind.
       rreturn \<lparr>ed_specifier = specifier, ed_target = target, ed_kind = kind\<rparr>)))"

definition pd_binding_kind :: "BindingKind program_reader" where
  "pd_binding_kind =
     rbind pd_position (\<lambda>tag_at. rbind pd_byte (\<lambda>tag.
       if tag = 0 then rreturn Hoisted
       else if tag = 1 then rreturn Lexical
       else if tag = 2 then rbind pd_u32 (\<lambda>edge. rbind pd_u32 (\<lambda>name. rreturn (Imported edge name)))
       else if tag = 3 then rbind pd_u32 (\<lambda>edge. rreturn (Namespace edge))
       else pd_error_at tag_at (PInvalidBindingKind tag)))"

definition pd_binding :: "Binding program_reader" where
  "pd_binding =
     rbind pd_u32 (\<lambda>name. rbind pd_binding_kind (\<lambda>kind. rreturn \<lparr>bd_name = name, bd_kind = kind\<rparr>))"

definition pd_export_source :: "ExportSource program_reader" where
  "pd_export_source =
     rbind pd_position (\<lambda>tag_at. rbind pd_byte (\<lambda>tag.
       if tag = 0 then rbind pd_u32 (\<lambda>binding. rreturn (ExportLocal binding))
       else if tag = 1 then rbind pd_u32 (\<lambda>edge. rbind pd_u32 (\<lambda>name. rreturn (ExportIndirect edge name)))
       else pd_error_at tag_at (PInvalidExportSource tag)))"

definition pd_export :: "Export program_reader" where
  "pd_export =
     rbind pd_u32 (\<lambda>name. rbind pd_export_source (\<lambda>source. rreturn \<lparr>ex_name = name, ex_source = source\<rparr>))"

section \<open>Modules and programs\<close>

definition pd_count_module_bytes :: "usize \<Rightarrow> unit program_reader" where
  "pd_count_module_bytes len d =
     (case usize_checked_add (pd_total_module_bytes d) len of
        None \<Rightarrow> pd_error PIntegerOverflow d
      | Some n \<Rightarrow>
          if n > pl_max_total_module_bytes (pd_limits d)
          then pd_error (PLimitExceeded ''total module bytes'' (pl_max_total_module_bytes (pd_limits d)) n) d
          else Ok ((), d\<lparr>pd_total_module_bytes := n\<rparr>))"

definition module_limits :: "ProgramDecodeLimits \<Rightarrow> DecodeLimits" where
  "module_limits l = (pl_module l)\<lparr>max_bytes := min (max_bytes (pl_module l)) (pl_max_module_bytes l)\<rparr>"

definition pd_blob :: "ModuleId \<Rightarrow> usize \<Rightarrow> Module program_reader" where
  "pd_blob module_id len =
     rbind pd_read_limits (\<lambda>limits. rbind pd_position (\<lambda>blob_offset. rbind (pd_slice len) (\<lambda>blob.
       case decode blob (module_limits limits) of
         Ok code \<Rightarrow> rreturn code
       | Err error \<Rightarrow> pd_error_at (blob_offset + err_offset error) (PModule module_id error)
       | Panic \<Rightarrow> (\<lambda>_. Panic))))"

definition pd_table ::
    "allocator \<Rightarrow> string \<Rightarrow> string \<Rightarrow> u32 \<Rightarrow> u32 \<Rightarrow> Total \<Rightarrow> 'a program_reader \<Rightarrow> 'a list program_reader" where
  "pd_table try_reserve field total_field limit total_limit which item =
     rbind (pd_count field limit) (\<lambda>count.
     rbind (pd_add_total total_field count total_limit which) (\<lambda>_.
       pd_for 0 count (\<lambda>_. rbind item (pd_push_decoded try_reserve field))))"

definition pd_module :: "allocator \<Rightarrow> ModuleId \<Rightarrow> ProgramModule program_reader" where
  "pd_module try_reserve module_id =
     rbind pd_read_limits (\<lambda>l.
     rbind pd_u32 (\<lambda>name.
     rbind (pd_length ''module bytes'' (pl_max_module_bytes l)) (\<lambda>len.
     rbind (pd_count_module_bytes len) (\<lambda>_.
     rbind (pd_blob module_id len) (\<lambda>code.
     rbind (pd_table try_reserve ''edges'' ''total edges'' (pl_max_edges_per_module l)
       (pl_max_total_edges l) TotalEdges pd_edge) (\<lambda>edges.
     rbind (pd_table try_reserve ''bindings'' ''total bindings'' (pl_max_bindings_per_module l)
       (pl_max_total_bindings l) TotalBindings pd_binding) (\<lambda>bindings.
     rbind (pd_table try_reserve ''exports'' ''total exports'' (pl_max_exports_per_module l)
       (pl_max_total_exports l) TotalExports pd_export) (\<lambda>exports.
       rreturn \<lparr>pm_name = name, pm_code = code, pm_edges = edges, pm_bindings = bindings,
         pm_exports = exports\<rparr>))))))))"

fun pd_expect_magic :: "u8 list \<Rightarrow> unit program_reader" where
  "pd_expect_magic [] = rreturn ()"
| "pd_expect_magic (expected # rest) =
     rbind pd_position (\<lambda>at. rbind pd_byte (\<lambda>actual.
       if actual \<noteq> expected then pd_error_at at (PBadMagic expected actual) else pd_expect_magic rest))"

definition pd_program :: "allocator \<Rightarrow> Program program_reader" where
  "pd_program try_reserve =
     rbind pd_read_limits (\<lambda>limits.
     rbind (pd_expect_magic PROGRAM_MAGIC) (\<lambda>_.
     rbind pd_position (\<lambda>version_at.
     rbind pd_byte (\<lambda>version.
     if version \<noteq> PROGRAM_VERSION then pd_error_at version_at (PUnsupportedVersion version)
     else
     rbind pd_u32 (\<lambda>entry.
     rbind (pd_count ''modules'' (pl_max_modules limits)) (\<lambda>module_count.
     rbind (pd_for 0 module_count (\<lambda>index.
       rbind (pd_module try_reserve (as_u32 index)) (pd_push_decoded try_reserve ''modules''))) (\<lambda>modules.
       rreturn \<lparr>pg_modules = modules, pg_entry = entry\<rparr>)))))))"

definition decode_program :: "allocator \<Rightarrow> u8 list \<Rightarrow> ProgramDecodeLimits \<Rightarrow> (Program, ProgramDecodeError) result" where
  "decode_program try_reserve bytes limits =
     (if length bytes > pl_max_bytes limits
      then Err \<lparr>perr_offset = 0, perr_kind = PInputLimitExceeded (pl_max_bytes limits) (length bytes)\<rparr>
      else bind_result (pd_program try_reserve
          \<lparr>pd_bytes = bytes, pd_offset = 0, pd_limits = limits, pd_total_module_bytes = 0,
           pd_total_edges = 0, pd_total_bindings = 0, pd_total_exports = 0\<rparr>)
        (\<lambda>(program, d).
          if pd_offset d \<noteq> length bytes
          then Err \<lparr>perr_offset = pd_offset d, perr_kind = PTrailingBytes (length bytes - pd_offset d)\<rparr>
          else Ok program))"

datatype ProgramLoadError = LoadDecode ProgramDecodeError | LoadVerify ProgramVerifyError

definition decode_verified_program ::
    "allocator \<Rightarrow> u8 list \<Rightarrow> ProgramDecodeLimits \<Rightarrow> (Program, ProgramLoadError) result" where
  "decode_verified_program try_reserve bytes limits =
     bind_result (map_err LoadDecode (decode_program try_reserve bytes limits)) (\<lambda>p.
       map_err LoadVerify (program_verify p))"

end
