(* ===== verification/Program_Codec.thy ===== *)
theory Program_Codec
  imports Program_Decoder Module_Codec
begin

text \<open>
  The program envelope is canonical as well. The two judgements follow those of the module codec,
  with the state after the read in place of a cost, since the program decoder keeps four running
  totals. The locale \<open>table_codec\<close> is the contract of one linkage-table entry (its writer and its
  reader); it is interpreted for edges, bindings and exports.
\<close>

section \<open>Two judgements on readers\<close>

definition unread :: "ProgramDecoder \<Rightarrow> u8 list" where
  "unread d = drop (pd_offset d) (pd_bytes d)"

definition advance :: "nat \<Rightarrow> ProgramDecoder \<Rightarrow> ProgramDecoder" where
  "advance n d = d\<lparr>pd_offset := pd_offset d + n\<rparr>"

definition moved :: "u8 list \<Rightarrow> ProgramDecoder \<Rightarrow> ProgramDecoder \<Rightarrow> bool" where
  "moved bs d d' \<longleftrightarrow> pd_bytes d' = pd_bytes d \<and> pd_limits d' = pd_limits d
     \<and> pd_offset d' = pd_offset d + length bs"

definition accepts :: "'a program_reader \<Rightarrow> ProgramDecoder \<Rightarrow> u8 list \<Rightarrow> 'a \<Rightarrow> ProgramDecoder \<Rightarrow> bool" where
  "accepts m d bs x d' \<longleftrightarrow> moved bs d d' \<and>
     (\<forall>rest. unread d = bs @ rest \<longrightarrow> pd_offset d \<le> length (pd_bytes d)
        \<longrightarrow> length (pd_bytes d) < 2 ^ 64 \<longrightarrow> m d = Ok (x, d'))"

definition recognizes ::
    "'a program_reader \<Rightarrow> ProgramDecoder \<Rightarrow> (u8 list \<Rightarrow> 'a \<Rightarrow> ProgramDecoder \<Rightarrow> bool) \<Rightarrow> bool" where
  "recognizes m d Q \<longleftrightarrow> (pd_offset d \<le> length (pd_bytes d) \<longrightarrow>
     (case m d of
        Ok (x, d') \<Rightarrow> (\<exists>bs. unread d = bs @ unread d' \<and> moved bs d d'
          \<and> pd_offset d' \<le> length (pd_bytes d) \<and> Q bs x d')
      | Err e \<Rightarrow> perr_offset e \<le> length (pd_bytes d)
      | Panic \<Rightarrow> False))"

named_theorems accepting
named_theorems recognizing

lemma advance_sel [simp]:
  "pd_bytes (advance n d) = pd_bytes d" "pd_offset (advance n d) = pd_offset d + n"
  "pd_limits (advance n d) = pd_limits d" "pd_total_module_bytes (advance n d) = pd_total_module_bytes d"
  "total_slot w (advance n d) = total_slot w d"
  by (cases w; simp add: advance_def)+

lemma advance_advance [simp]: "advance n (advance n' d) = advance (n' + n) d"
  by (simp add: advance_def add.assoc)

lemma advance_0 [simp]: "advance 0 d = d"
  by (simp add: advance_def)

lemma moved_advance [simp]: "moved bs d (advance n d) \<longleftrightarrow> n = length bs"
  by (auto simp: moved_def)

lemma moved_trans: "moved bs d d1 \<Longrightarrow> moved bs' d1 d2 \<Longrightarrow> moved (bs @ bs') d d2"
  by (simp add: moved_def)

lemma unread_moved: "moved bs d d' \<Longrightarrow> unread d = bs @ rest \<Longrightarrow> unread d' = rest"
  by (simp add: unread_def moved_def) (metis add.commute append_eq_conv_conj drop_drop)

lemma unread_le:
  "unread d = bs @ rest \<Longrightarrow> pd_offset d \<le> length (pd_bytes d) \<Longrightarrow> pd_offset d + length bs \<le> length (pd_bytes d)"
  unfolding unread_def by (metis length_append length_drop le_add1 le_diff_conv2 add.commute)

lemma acceptsD:
  "accepts m d bs x d' \<Longrightarrow> unread d = bs @ rest \<Longrightarrow> pd_offset d \<le> length (pd_bytes d) \<Longrightarrow>
    length (pd_bytes d) < 2 ^ 64 \<Longrightarrow> m d = Ok (x, d')"
  by (auto simp: accepts_def)

lemma accepts_bind:
  assumes m: "accepts m d bs x d1" and f: "accepts (f x) d1 bs' y d2"
  shows "accepts (rbind m f) d (bs @ bs') y d2"
  unfolding accepts_def
proof (intro conjI allI impI)
  from m f show "moved (bs @ bs') d d2" by (auto simp: accepts_def intro: moved_trans)
  fix rest
  assume r: "unread d = (bs @ bs') @ rest" and o: "pd_offset d \<le> length (pd_bytes d)"
    and l: "length (pd_bytes d) < 2 ^ 64"
  from r have r': "unread d = bs @ (bs' @ rest)" by simp
  from m have mv: "moved bs d d1" by (simp add: accepts_def)
  have "f x d1 = Ok (y, d2)"
    using unread_le [OF r' o] l mv by (intro acceptsD [OF f unread_moved [OF mv r']]) (simp_all add: moved_def)
  with acceptsD [OF m r' o l] show "rbind m f d = Ok (y, d2)" by (simp add: rbind_def)
qed

lemma accepts_bind_last: "accepts m d bs x d1 \<Longrightarrow> accepts (f x) d1 [] y d2 \<Longrightarrow> accepts (rbind m f) d bs y d2"
  using accepts_bind [of m d bs x d1 f "[]" y d2] by simp

lemma accepts_state: "accepts m d bs x d' \<Longrightarrow> d' = d'' \<Longrightarrow> accepts m d bs x d''"
  by simp

lemma accepts_return [accepting]: "accepts (rreturn x) d [] x d"
  by (simp add: accepts_def rreturn_def moved_def)

lemma accepts_bind_position [accepting]:
  "accepts (f (pd_offset d)) d bs y d' \<Longrightarrow> accepts (rbind pd_position f) d bs y d'"
  by (simp add: accepts_def rbind_def pd_position_def)

lemma accepts_bind_limits [accepting]:
  "accepts (f (pd_limits d)) d bs y d' \<Longrightarrow> accepts (rbind pd_read_limits f) d bs y d'"
  by (simp add: accepts_def rbind_def pd_read_limits_def)

lemma accepts_byte: "accepts pd_byte d [b] b (advance 1 d)"
  by (auto simp: accepts_def pd_byte_def slice_get_def unread_def advance_def moved_def dest!: drop_eq_Cons_nth)

lemma accepts_bind_byte [accepting]:
  "accepts (f b) (advance 1 d) bs y d' \<Longrightarrow> accepts (rbind pd_byte f) d (b # bs) y d'"
  using accepts_bind [OF accepts_byte, of f b d bs y d'] by simp

lemma accepts_u32: "accepts pd_u32 d (write_u32 v) v (advance (length (write_u32 v)) d)"
  by (auto simp: accepts_def pd_u32_def unread_def advance_def moved_def dest!: read_leb128_write)

lemma accepts_bind_u32 [accepting]:
  "accepts (f v) (advance (length (write_u32 v)) d) bs y d' \<Longrightarrow> accepts (rbind pd_u32 f) d (write_u32 v @ bs) y d'"
  by (rule accepts_bind [OF accepts_u32])

lemma accepts_end_u32 [accepting]:
  "accepts (f v) (advance (length (write_u32 v)) d) [] y d' \<Longrightarrow> accepts (rbind pd_u32 f) d (write_u32 v) y d'"
  by (rule accepts_bind_last [OF accepts_u32])

lemma accepts_slice: "length bs = n \<Longrightarrow> accepts (pd_slice n) d bs bs (advance n d)"
  using unread_le [of d bs]
  by (auto simp: accepts_def pd_slice_def usize_checked_add_def unread_def advance_def moved_def)

lemma accepts_count:
  "n \<le> unat limit \<Longrightarrow>
    accepts (pd_count field limit) d (write_u32 (as_u32 n)) n (advance (length (write_u32 (as_u32 n))) d)"
  unfolding pd_count_def using as_u32_le [of n limit]
  by (intro accepts_end_u32) (simp add: accepts_return not_less [symmetric])

lemma accepts_length:
  "n \<le> limit \<Longrightarrow> n < 2 ^ 32 \<Longrightarrow>
    accepts (pd_length field limit) d (write_u32 (as_u32 n)) n (advance (length (write_u32 (as_u32 n))) d)"
  unfolding pd_length_def
  by (intro accepts_end_u32) (simp add: accepts_return)

lemma accepts_add_total:
  "total_slot w d + n \<le> unat limit \<Longrightarrow>
    accepts (pd_add_total field n limit w) d [] () (set_total w (total_slot w d + n) d)"
  by (cases w) (auto simp: accepts_def pd_add_total_def Let_def moved_def)

lemma accepts_push: "try_reserve values d \<Longrightarrow> accepts (pd_push_decoded try_reserve values x) d [] x d"
  by (simp add: accepts_def pd_push_decoded_def moved_def)

text \<open>The other direction.\<close>

lemma recognizesE:
  assumes "recognizes m d Q" and "pd_offset d \<le> length (pd_bytes d)" and "m d = Ok (x, d')"
  obtains bs where "unread d = bs @ unread d'" "moved bs d d'" "pd_offset d' \<le> length (pd_bytes d)" "Q bs x d'"
  using assms by (auto simp: recognizes_def)

lemma recognizes_weaken: "recognizes m d P \<Longrightarrow> (\<And>bs x d'. P bs x d' \<Longrightarrow> Q bs x d') \<Longrightarrow> recognizes m d Q"
  by (fastforce simp: recognizes_def split: result.splits)

lemma recognizes_bind:
  assumes m: "recognizes m d P"
    and f: "\<And>bs x d1. P bs x d1 \<Longrightarrow> moved bs d d1 \<Longrightarrow> recognizes (f x) d1 (\<lambda>bs' y d2. Q (bs @ bs') y d2)"
  shows "recognizes (rbind m f) d Q"
  unfolding recognizes_def
proof
  assume o: "pd_offset d \<le> length (pd_bytes d)"
  show "case rbind m f d of
      Ok (x, d') \<Rightarrow> (\<exists>bs. unread d = bs @ unread d' \<and> moved bs d d'
          \<and> pd_offset d' \<le> length (pd_bytes d) \<and> Q bs x d')
    | Err e \<Rightarrow> perr_offset e \<le> length (pd_bytes d)
    | Panic \<Rightarrow> False"
  proof (cases "m d")
    case (Ok r)
    obtain x d1 where r: "r = (x, d1)" by (cases r)
    from recognizesE [OF m o] Ok r obtain bs where 1: "unread d = bs @ unread d1" "moved bs d d1"
      "pd_offset d1 \<le> length (pd_bytes d)" "P bs x d1" by metis
    have b: "pd_bytes d1 = pd_bytes d" using 1(2) by (simp add: moved_def)
    with f [OF 1(4) 1(2)] 1(3) have "case f x d1 of
        Ok (y, d') \<Rightarrow> (\<exists>bs'. unread d1 = bs' @ unread d' \<and> moved bs' d1 d'
            \<and> pd_offset d' \<le> length (pd_bytes d) \<and> Q (bs @ bs') y d')
      | Err e \<Rightarrow> perr_offset e \<le> length (pd_bytes d)
      | Panic \<Rightarrow> False"
      by (simp only: recognizes_def)
    then show ?thesis
      using Ok r 1(1) moved_trans [OF 1(2)]
      by (fastforce simp: rbind_def split: result.splits)
  next
    case (Err e)
    with m o show ?thesis by (auto simp: recognizes_def rbind_def)
  next
    case Panic
    with m o show ?thesis by (auto simp: recognizes_def)
  qed
qed

lemma recognizes_return [recognizing]: "Q [] x d \<Longrightarrow> recognizes (rreturn x) d Q"
  by (simp add: recognizes_def rreturn_def moved_def)

lemma recognizes_error_at [recognizing]:
  "(pd_offset d \<le> length (pd_bytes d) \<Longrightarrow> at \<le> length (pd_bytes d)) \<Longrightarrow> recognizes (pd_error_at at e) d Q"
  by (simp add: recognizes_def pd_error_at_def)

lemma recognizes_error [recognizing]: "recognizes (pd_error e) d Q"
  by (simp add: recognizes_def pd_error_def pd_error_at_def)

lemma recognizes_if [recognizing]:
  "(c \<Longrightarrow> recognizes m d Q) \<Longrightarrow> (\<not> c \<Longrightarrow> recognizes m' d Q) \<Longrightarrow> recognizes (if c then m else m') d Q"
  by simp

lemma recognizes_bind_position [recognizing]:
  "recognizes (f (pd_offset d)) d Q \<Longrightarrow> recognizes (rbind pd_position f) d Q"
  by (simp add: recognizes_def rbind_def pd_position_def)

lemma recognizes_bind_limits [recognizing]:
  "recognizes (f (pd_limits d)) d Q \<Longrightarrow> recognizes (rbind pd_read_limits f) d Q"
  by (simp add: recognizes_def rbind_def pd_read_limits_def)

lemma recognizes_byte: "recognizes pd_byte d (\<lambda>bs x d'. bs = [x] \<and> d' = advance 1 d)"
  by (auto simp: recognizes_def pd_byte_def slice_get_def pd_error_def pd_error_at_def unread_def advance_def
      moved_def Cons_nth_drop_Suc)

lemma recognizes_bind_byte [recognizing]:
  "(\<And>b. recognizes (f b) (advance 1 d) (\<lambda>bs x d'. Q (b # bs) x d')) \<Longrightarrow> recognizes (rbind pd_byte f) d Q"
  by (rule recognizes_bind [OF recognizes_byte]) auto

lemma recognizes_u32:
  "recognizes pd_u32 d (\<lambda>bs v d'. bs = write_u32 v \<and> d' = advance (length (write_u32 v)) d)"
  unfolding recognizes_def
proof
  assume o: "pd_offset d \<le> length (pd_bytes d)"
  obtain r off where r: "read_leb128 (pd_bytes d) (pd_offset d) = (r, off)"
    by (cases "read_leb128 (pd_bytes d) (pd_offset d)")
  then have b: "off \<le> length (pd_bytes d)" "r \<noteq> Panic"
    using read_loop_offset o by (auto simp: read_leb128_def)
  show "case pd_u32 d of
      Ok (x, d') \<Rightarrow> (\<exists>bs. unread d = bs @ unread d' \<and> moved bs d d'
          \<and> pd_offset d' \<le> length (pd_bytes d) \<and> bs = write_u32 x \<and> d' = advance (length (write_u32 x)) d)
    | Err e \<Rightarrow> perr_offset e \<le> length (pd_bytes d)
    | Panic \<Rightarrow> False"
    using r b o read_leb128_canonical [of "pd_bytes d" "pd_offset d" _ off]
    by (cases r) (auto simp: pd_u32_def pd_error_at_def unread_def advance_def moved_def)
qed

lemma recognizes_bind_u32 [recognizing]:
  "(\<And>v. recognizes (f v) (advance (length (write_u32 v)) d) (\<lambda>bs x d'. Q (write_u32 v @ bs) x d')) \<Longrightarrow>
    recognizes (rbind pd_u32 f) d Q"
  by (rule recognizes_bind [OF recognizes_u32]) auto

lemma recognizes_slice: "recognizes (pd_slice n) d (\<lambda>bs x d'. length bs = n \<and> x = bs \<and> d' = advance n d)"
  by (auto simp: recognizes_def pd_slice_def usize_checked_add_def unread_def advance_def moved_def pd_error_def
      pd_error_at_def append_take_drop_id add.commute [of _ n] simp flip: drop_drop split: if_splits option.splits)

lemma recognizes_count:
  "recognizes (pd_count field limit) d
     (\<lambda>bs n d'. n \<le> unat limit \<and> bs = write_u32 (as_u32 n) \<and> d' = advance (length bs) d)"
  unfolding pd_count_def by (intro recognizing) (simp add: word_le_nat_alt not_less)

lemma recognizes_length:
  "recognizes (pd_length field limit) d
     (\<lambda>bs n d'. n \<le> limit \<and> n < 2 ^ 32 \<and> bs = write_u32 (as_u32 n) \<and> d' = advance (length bs) d)"
  unfolding pd_length_def
  by (intro recognizing) (use unat_u32_bound in \<open>auto simp: not_less\<close>)

lemma recognizes_add_total:
  "recognizes (pd_add_total field n limit w) d
     (\<lambda>bs x d'. bs = [] \<and> total_slot w d + n \<le> unat limit \<and> d' = set_total w (total_slot w d + n) d)"
  by (cases w) (auto simp: recognizes_def pd_add_total_def Let_def moved_def pd_error_def pd_error_at_def unread_def)

lemma recognizes_push:
  "recognizes (pd_push_decoded try_reserve values x) d (\<lambda>bs y d'. bs = [] \<and> y = x \<and> d' = d)"
  by (auto simp: recognizes_def pd_push_decoded_def moved_def pd_error_def pd_error_at_def)

section \<open>The linkage tables\<close>

lemma total_slot_set_total [simp]: "total_slot w (set_total w n d) = n"
  by (cases w) auto

lemma set_total_sel [simp]:
  "pd_bytes (set_total w n d) = pd_bytes d" "pd_offset (set_total w n d) = pd_offset d"
  "pd_limits (set_total w n d) = pd_limits d"
  by (cases w; simp)+

lemma advance_set_total: "advance k (set_total w n d) = set_total w n (advance k d)"
  by (cases w) (simp_all add: advance_def)

locale table_codec =
  fixes enc :: "'a \<Rightarrow> u8 list"
    and dec :: "'a program_reader"
  assumes dec_enc: "accepts dec d (enc x) x (advance (length (enc x)) d)"
    and enc_dec: "recognizes dec d (\<lambda>bs x d'. bs = enc x \<and> d' = advance (length bs) d)"
begin

lemma accepts_for:
  assumes "\<And>d. try_reserve values d"
  shows "accepts (pd_for i (length xs) (\<lambda>_. rbind dec (pd_push_decoded try_reserve values))) d
    (concat (map enc xs)) xs (advance (length (concat (map enc xs))) d)"
proof (induction xs arbitrary: i d)
  case Nil
  show ?case by (simp add: accepts_return)
next
  case (Cons x xs)
  have item: "accepts (rbind dec (pd_push_decoded try_reserve values)) d (enc x) x (advance (length (enc x)) d)"
    by (rule accepts_bind_last [OF dec_enc accepts_push [where try_reserve = try_reserve, OF assms]])
  from accepts_bind [OF item, of "\<lambda>x. rbind (pd_for (Suc i) (length xs)
      (\<lambda>_. rbind dec (pd_push_decoded try_reserve values))) (\<lambda>xs. rreturn (x # xs))",
      OF accepts_bind_last [OF Cons.IH accepts_return]]
  show ?case by simp
qed

lemma recognizes_for:
  "recognizes (pd_for i n (\<lambda>_. rbind dec (pd_push_decoded try_reserve values))) d
    (\<lambda>bs xs d'. length xs = n \<and> bs = concat (map enc xs) \<and> d' = advance (length bs) d)"
proof (induction n arbitrary: i d)
  case 0
  show ?case by (simp add: recognizes_return)
next
  case (Suc n)
  have item: "recognizes (rbind dec (pd_push_decoded try_reserve values)) d
      (\<lambda>bs x d'. bs = enc x \<and> d' = advance (length bs) d)" for d
    by (rule recognizes_bind [OF enc_dec], rule recognizes_weaken [OF recognizes_push]) auto
  show ?case
    unfolding pd_for.simps
    by (rule recognizes_bind [OF item], rule recognizes_bind [OF Suc.IH], rule recognizes_return) auto
qed

lemma accepts_table:
  assumes "\<And>d. try_reserve field d" and "length xs \<le> unat limit"
    and "total_slot w d + length xs \<le> unat total_limit"
  shows "accepts (pd_table try_reserve field total_field limit total_limit w dec) d
    (write_u32 (as_u32 (length xs)) @ concat (map enc xs)) xs
    (set_total w (total_slot w d + length xs)
      (advance (length (write_u32 (as_u32 (length xs)) @ concat (map enc xs))) d))"
proof -
  let ?d = "advance (length (write_u32 (as_u32 (length xs)))) d"
  have "accepts (pd_add_total total_field (length xs) total_limit w) ?d [] ()
      (set_total w (total_slot w d + length xs) ?d)"
    using accepts_add_total [of w ?d "length xs" total_limit total_field] assms(3) by simp
  from accepts_bind [OF this accepts_for [where try_reserve = try_reserve, OF assms(1), of 0 xs]]
  have rest: "accepts (rbind (pd_add_total total_field (length xs) total_limit w)
      (\<lambda>_. pd_for 0 (length xs) (\<lambda>_. rbind dec (pd_push_decoded try_reserve field)))) ?d (concat (map enc xs)) xs
      (advance (length (concat (map enc xs))) (set_total w (total_slot w d + length xs) ?d))" by simp
  show ?thesis
    unfolding pd_table_def
    by (rule accepts_bind [OF accepts_count [OF assms(2)]]) (use rest in \<open>simp add: advance_set_total\<close>)
qed

lemma recognizes_table:
  "recognizes (pd_table try_reserve field total_field limit total_limit w dec) d
    (\<lambda>bs xs d'. bs = write_u32 (as_u32 (length xs)) @ concat (map enc xs) \<and> length xs \<le> unat limit
      \<and> total_slot w d + length xs \<le> unat total_limit
      \<and> d' = set_total w (total_slot w d + length xs) (advance (length bs) d))"
  unfolding pd_table_def
  by (rule recognizes_bind [OF recognizes_count], rule recognizes_bind [OF recognizes_add_total],
      rule recognizes_weaken [OF recognizes_for]) (auto simp: advance_set_total)

end

lemma accepts_target: "accepts pd_target d (encode_target t) t (advance (length (encode_target t)) d)"
  unfolding pd_target_def
  by (cases t) (simp_all, (intro accepting | simp)+)

lemma recognizes_target: "recognizes pd_target d (\<lambda>bs t d'. bs = encode_target t \<and> d' = advance (length bs) d)"
  unfolding pd_target_def by (intro recognizing) auto

lemma accepts_edge_kind: "accepts pd_edge_kind d [edge_kind_tag k] k (advance 1 d)"
  unfolding pd_edge_kind_def by (cases k) (simp_all, (intro accepting | simp)+)

lemma recognizes_edge_kind: "recognizes pd_edge_kind d (\<lambda>bs k d'. bs = [edge_kind_tag k] \<and> d' = advance (length bs) d)"
  unfolding pd_edge_kind_def by (intro recognizing) auto

lemma accepts_binding_kind:
  "accepts pd_binding_kind d (encode_binding_kind k) k (advance (length (encode_binding_kind k)) d)"
  unfolding pd_binding_kind_def by (cases k) (simp_all, (intro accepting | simp)+)

lemma recognizes_binding_kind:
  "recognizes pd_binding_kind d (\<lambda>bs k d'. bs = encode_binding_kind k \<and> d' = advance (length bs) d)"
  unfolding pd_binding_kind_def by (intro recognizing) auto

lemma accepts_export_source:
  "accepts pd_export_source d (encode_export_source s) s (advance (length (encode_export_source s)) d)"
  unfolding pd_export_source_def by (cases s) (simp_all, (intro accepting | simp)+)

lemma recognizes_export_source:
  "recognizes pd_export_source d (\<lambda>bs s d'. bs = encode_export_source s \<and> d' = advance (length bs) d)"
  unfolding pd_export_source_def by (intro recognizing) auto

interpretation edge_table: table_codec encode_edge pd_edge
proof
  fix d and e :: Edge
  show "accepts pd_edge d (encode_edge e) e (advance (length (encode_edge e)) d)"
    unfolding pd_edge_def encode_edge_def
    by (cases e) (simp, intro accepts_bind_u32 accepts_bind [OF accepts_target]
        accepts_bind_last [OF accepts_edge_kind], simp add: accepts_return add.assoc)
  show "recognizes pd_edge d (\<lambda>bs e d'. bs = encode_edge e \<and> d' = advance (length bs) d)"
    unfolding pd_edge_def
    by (rule recognizes_bind_u32, rule recognizes_bind [OF recognizes_target],
        rule recognizes_bind [OF recognizes_edge_kind], rule recognizes_return)
      (auto simp: encode_edge_def add.assoc)
qed

interpretation binding_table: table_codec encode_binding pd_binding
proof
  fix d and b :: Binding
  show "accepts pd_binding d (encode_binding b) b (advance (length (encode_binding b)) d)"
    unfolding pd_binding_def encode_binding_def
    by (cases b) (simp, intro accepts_bind_u32 accepts_bind_last [OF accepts_binding_kind],
        simp add: accepts_return add.assoc)
  show "recognizes pd_binding d (\<lambda>bs b d'. bs = encode_binding b \<and> d' = advance (length bs) d)"
    unfolding pd_binding_def
    by (rule recognizes_bind_u32, rule recognizes_bind [OF recognizes_binding_kind], rule recognizes_return)
      (auto simp: encode_binding_def)
qed

interpretation export_table: table_codec encode_export pd_export
proof
  fix d and x :: Export
  show "accepts pd_export d (encode_export x) x (advance (length (encode_export x)) d)"
    unfolding pd_export_def encode_export_def
    by (cases x) (simp, intro accepts_bind_u32 accepts_bind_last [OF accepts_export_source],
        simp add: accepts_return add.assoc)
  show "recognizes pd_export d (\<lambda>bs x d'. bs = encode_export x \<and> d' = advance (length bs) d)"
    unfolding pd_export_def
    by (rule recognizes_bind_u32, rule recognizes_bind [OF recognizes_export_source], rule recognizes_return)
      (auto simp: encode_export_def)
qed

section \<open>Modules\<close>

definition fits_program_module :: "ProgramDecodeLimits \<Rightarrow> ProgramModule \<Rightarrow> bool" where
  "fits_program_module l m \<longleftrightarrow>
     fits_module (module_limits l) (pm_code m)
     \<and> length (encode_module (pm_code m)) \<le> max_bytes (module_limits l)
     \<and> length (encode_module (pm_code m)) < 2 ^ 32
     \<and> length (pm_edges m) \<le> unat (pl_max_edges_per_module l)
     \<and> length (pm_bindings m) \<le> unat (pl_max_bindings_per_module l)
     \<and> length (pm_exports m) \<le> unat (pl_max_exports_per_module l)"

text \<open>The running totals after some modules, and the room they leave.\<close>

definition tally :: "ProgramModule list \<Rightarrow> ProgramDecoder \<Rightarrow> ProgramDecoder" where
  "tally ms d = d\<lparr>
     pd_total_module_bytes := pd_total_module_bytes d + sum_list (map (\<lambda>m. length (encode_module (pm_code m))) ms),
     pd_total_edges := pd_total_edges d + sum_list (map (\<lambda>m. length (pm_edges m)) ms),
     pd_total_bindings := pd_total_bindings d + sum_list (map (\<lambda>m. length (pm_bindings m)) ms),
     pd_total_exports := pd_total_exports d + sum_list (map (\<lambda>m. length (pm_exports m)) ms)\<rparr>"

definition in_budget :: "ProgramDecoder \<Rightarrow> bool" where
  "in_budget d \<longleftrightarrow>
     pd_total_module_bytes d \<le> pl_max_total_module_bytes (pd_limits d)
     \<and> pd_total_edges d \<le> unat (pl_max_total_edges (pd_limits d))
     \<and> pd_total_bindings d \<le> unat (pl_max_total_bindings (pd_limits d))
     \<and> pd_total_exports d \<le> unat (pl_max_total_exports (pd_limits d))"

definition limits_in_range :: "ProgramDecodeLimits \<Rightarrow> bool" where
  "limits_in_range l \<longleftrightarrow> pl_max_bytes l < 2 ^ 64 \<and> pl_max_total_module_bytes l < 2 ^ 64
     \<and> max_bytes (pl_module l) < 2 ^ 64"

lemma tally_Nil [simp]: "tally [] d = d"
  by (simp add: tally_def)

lemma tally_tally [simp]: "tally ms (tally [m] d) = tally (m # ms) d"
  by (simp add: tally_def algebra_simps)

lemma tally_sel [simp]:
  "pd_bytes (tally ms d) = pd_bytes d" "pd_offset (tally ms d) = pd_offset d" "pd_limits (tally ms d) = pd_limits d"
  by (simp_all add: tally_def)

lemma tally_advance: "tally ms (advance n d) = advance n (tally ms d)"
  by (simp add: tally_def advance_def)

lemma in_budget_advance [simp]: "in_budget (advance n d) = in_budget d"
  by (simp add: in_budget_def advance_def)

lemma in_budget_tally: "in_budget (tally (m # ms) d) \<Longrightarrow> in_budget (tally [m] d)"
  by (simp add: in_budget_def tally_def)

lemma accepts_blob:
  assumes "fits_module (module_limits (pd_limits d)) code"
    and "length (encode_module code) \<le> max_bytes (module_limits (pd_limits d))"
    and "limits_in_range (pd_limits d)"
  shows "accepts (pd_blob mid (length (encode_module code))) d (encode_module code) code
    (advance (length (encode_module code)) d)"
proof -
  have "decode (encode_module code) (module_limits (pd_limits d)) = Ok code"
    using assms by (intro decode_encode) (auto simp: module_limits_def limits_in_range_def)
  then show ?thesis
    unfolding pd_blob_def
    by (intro accepts_bind_limits accepts_bind_position accepts_bind_last [OF accepts_slice])
      (simp_all add: accepts_return)
qed

lemma recognizes_blob:
  "recognizes (pd_blob mid n) d (\<lambda>bs code d'. bs = encode_module code \<and> length bs = n
     \<and> fits_module (module_limits (pd_limits d)) code \<and> n \<le> max_bytes (module_limits (pd_limits d))
     \<and> d' = advance n d)"
  unfolding pd_blob_def
proof (intro recognizes_bind_limits recognizes_bind_position, rule recognizes_bind [OF recognizes_slice], clarsimp)
  fix bs :: "u8 list" assume n: "n = length bs"
  note safe = decode_safe [of bs "module_limits (pd_limits d)"]
  let ?Q = "\<lambda>bs' code d'. bs @ bs' = encode_module code \<and> bs' = [] \<and>
      fits_module (module_limits (pd_limits d)) code \<and>
      length bs \<le> max_bytes (module_limits (pd_limits d)) \<and> d' = advance (length bs) d"
  show "recognizes (case decode bs (module_limits (pd_limits d)) of Ok code \<Rightarrow> rreturn code
       | Err error \<Rightarrow> pd_error_at (pd_offset d + err_offset error) (PModule mid error)
       | Panic \<Rightarrow> \<lambda>_. Panic) (advance (length bs) d) ?Q"
  proof (cases "decode bs (module_limits (pd_limits d))")
    case (Ok code)
    show ?thesis
      using decode_Ok [OF Ok] unfolding Ok result.case by (auto intro: recognizes_return)
  next
    case (Err e)
    with safe [of e] show ?thesis by (auto intro!: recognizes_error_at)
  qed (use safe in simp)
qed

lemma accepts_module_bytes:
  "pd_total_module_bytes d + n \<le> pl_max_total_module_bytes (pd_limits d) \<Longrightarrow> limits_in_range (pd_limits d) \<Longrightarrow>
    accepts (pd_count_module_bytes n) d [] () (d\<lparr>pd_total_module_bytes := pd_total_module_bytes d + n\<rparr>)"
  by (auto simp: accepts_def pd_count_module_bytes_def usize_checked_add_def moved_def limits_in_range_def)

lemma recognizes_module_bytes:
  "recognizes (pd_count_module_bytes n) d (\<lambda>bs x d'. bs = []
     \<and> pd_total_module_bytes d + n \<le> pl_max_total_module_bytes (pd_limits d)
     \<and> d' = d\<lparr>pd_total_module_bytes := pd_total_module_bytes d + n\<rparr>)"
  by (auto simp: recognizes_def pd_count_module_bytes_def usize_checked_add_def moved_def pd_error_def
      pd_error_at_def unread_def)

lemma accepts_module:
  assumes "fits_program_module (pd_limits d) m" and "in_budget (tally [m] d)"
    and "limits_in_range (pd_limits d)" and alloc: "\<And>v d. try_reserve v d"
  shows "accepts (pd_module try_reserve mid) d (encode_program_module m) m
    (advance (length (encode_program_module m)) (tally [m] d))"
proof -
  have bytes: "encode_program_module m = write_u32 (pm_name m) @
      write_u32 (as_u32 (length (encode_module (pm_code m)))) @ [] @ encode_module (pm_code m) @
      (write_u32 (as_u32 (length (pm_edges m))) @ concat (map encode_edge (pm_edges m))) @
      (write_u32 (as_u32 (length (pm_bindings m))) @ concat (map encode_binding (pm_bindings m))) @
      (write_u32 (as_u32 (length (pm_exports m))) @ concat (map encode_export (pm_exports m))) @ []"
    by (simp add: encode_program_module_def Let_def)
  have limit: "length (encode_module (pm_code m)) \<le> pl_max_module_bytes (pd_limits d)"
    using assms(1) by (simp add: fits_program_module_def module_limits_def)
  let ?b = "length (encode_module (pm_code m))"
  define d1 where "d1 = advance (length (write_u32 (as_u32 ?b))) (advance (length (write_u32 (pm_name m))) d)"
  define d2 where "d2 = advance ?b (d1\<lparr>pd_total_module_bytes := pd_total_module_bytes d1 + ?b\<rparr>)"
  have d1: "pd_limits d1 = pd_limits d" "pd_total_module_bytes d1 = pd_total_module_bytes d"
    by (simp_all add: d1_def)
  have d2: "pd_limits d2 = pd_limits d" "total_slot w d2 = total_slot w d" for w
    by (cases w; simp add: d1_def d2_def advance_def)+
  define d3 where "d3 = set_total TotalEdges (total_slot TotalEdges d2 + length (pm_edges m))
    (advance (length (write_u32 (as_u32 (length (pm_edges m))) @ concat (map encode_edge (pm_edges m)))) d2)"
  define d4 where "d4 = set_total TotalBindings (total_slot TotalBindings d3 + length (pm_bindings m))
    (advance (length (write_u32 (as_u32 (length (pm_bindings m))) @ concat (map encode_binding (pm_bindings m)))) d3)"
  have d3: "total_slot TotalBindings d3 = pd_total_bindings d"
    and d4: "total_slot TotalExports d4 = pd_total_exports d"
    by (simp_all add: d4_def d3_def d2_def d1_def advance_def)
  note facts = assms(1) [unfolded fits_program_module_def] assms(2) [unfolded in_budget_def tally_def, simplified]
  have len: "accepts (pd_length ''module bytes'' (pl_max_module_bytes (pd_limits d)))
      (advance (length (write_u32 (pm_name m))) d) (write_u32 (as_u32 ?b)) ?b d1"
    unfolding d1_def using facts by (intro accepts_length limit) simp
  have total: "accepts (pd_count_module_bytes ?b) d1 [] () (d1\<lparr>pd_total_module_bytes := pd_total_module_bytes d1 + ?b\<rparr>)"
    using facts assms(3) by (intro accepts_module_bytes) (simp_all add: d1)
  have blob: "accepts (pd_blob mid ?b) (d1\<lparr>pd_total_module_bytes := pd_total_module_bytes d1 + ?b\<rparr>)
      (encode_module (pm_code m)) (pm_code m) d2"
    unfolding d2_def using facts assms(3) by (intro accepts_blob) (simp_all add: d1)
  have edges: "accepts (pd_table try_reserve ''edges'' ''total edges'' (pl_max_edges_per_module (pd_limits d))
      (pl_max_total_edges (pd_limits d)) TotalEdges pd_edge) d2
      (write_u32 (as_u32 (length (pm_edges m))) @ concat (map encode_edge (pm_edges m))) (pm_edges m) d3"
    unfolding d3_def using facts by (intro edge_table.accepts_table alloc) (simp_all add: d2)
  have bindings: "accepts (pd_table try_reserve ''bindings'' ''total bindings'' (pl_max_bindings_per_module (pd_limits d))
      (pl_max_total_bindings (pd_limits d)) TotalBindings pd_binding) d3
      (write_u32 (as_u32 (length (pm_bindings m))) @ concat (map encode_binding (pm_bindings m))) (pm_bindings m) d4"
    unfolding d4_def using facts by (intro binding_table.accepts_table alloc) (simp_all add: d3 del: total_slot.simps)
  have exports: "accepts (pd_table try_reserve ''exports'' ''total exports'' (pl_max_exports_per_module (pd_limits d))
      (pl_max_total_exports (pd_limits d)) TotalExports pd_export) d4
      (write_u32 (as_u32 (length (pm_exports m))) @ concat (map encode_export (pm_exports m))) (pm_exports m)
      (advance (length (encode_program_module m)) (tally [m] d))"
    using facts
    by (intro accepts_state [OF export_table.accepts_table [OF alloc]])
      (simp_all add: d4 d4_def d3_def d2_def d1_def advance_def tally_def encode_program_module_def Let_def)
  show ?thesis
    unfolding pd_module_def bytes
    by (rule accepts_bind_limits, rule accepts_bind_u32, rule accepts_bind [OF len], rule accepts_bind [OF total],
      rule accepts_bind [OF blob], rule accepts_bind [OF edges], rule accepts_bind [OF bindings],
      rule accepts_bind [OF exports [unfolded bytes]]) (cases m, simp add: accepts_return)
qed

lemma recognizes_module:
  "recognizes (pd_module try_reserve mid) d (\<lambda>bs m d'. bs = encode_program_module m
     \<and> fits_program_module (pd_limits d) m \<and> in_budget (tally [m] d)
     \<and> d' = advance (length bs) (tally [m] d))"
  unfolding pd_module_def
  by (rule recognizes_bind_limits, rule recognizes_bind_u32, rule recognizes_bind [OF recognizes_length],
      rule recognizes_bind [OF recognizes_module_bytes], rule recognizes_bind [OF recognizes_blob],
      rule recognizes_bind [OF edge_table.recognizes_table], rule recognizes_bind [OF binding_table.recognizes_table],
      rule recognizes_bind [OF export_table.recognizes_table], rule recognizes_return)
    (auto simp: encode_program_module_def Let_def fits_program_module_def in_budget_def tally_def advance_def)

lemma accepts_modules:
  assumes "\<forall>m \<in> set ms. fits_program_module (pd_limits d) m" and "in_budget (tally ms d)"
    and "limits_in_range (pd_limits d)" and alloc: "\<And>v d. try_reserve v d"
  shows "accepts (pd_for i (length ms) (\<lambda>index.
      rbind (pd_module try_reserve (as_u32 index)) (pd_push_decoded try_reserve ''modules''))) d
    (concat (map encode_program_module ms)) ms
    (advance (length (concat (map encode_program_module ms))) (tally ms d))"
  using assms(1-3)
proof (induction ms arbitrary: i d)
  case Nil
  show ?case by (simp add: accepts_return)
next
  case (Cons m ms)
  let ?d = "advance (length (encode_program_module m)) (tally [m] d)"
  have item: "accepts (rbind (pd_module try_reserve (as_u32 i)) (pd_push_decoded try_reserve ''modules'')) d
      (encode_program_module m) m ?d"
    using Cons.prems
    by (intro accepts_bind_last [OF accepts_module accepts_push [where try_reserve = try_reserve, OF alloc]]
        in_budget_tally alloc) simp_all
  have rest: "accepts (pd_for (Suc i) (length ms) (\<lambda>index.
      rbind (pd_module try_reserve (as_u32 index)) (pd_push_decoded try_reserve ''modules''))) ?d
      (concat (map encode_program_module ms)) ms
      (advance (length (concat (map encode_program_module (m # ms)))) (tally (m # ms) d))"
    using Cons.prems by (intro accepts_state [OF Cons.IH]) (simp_all add: tally_advance)
  show ?case
    using rest
    by (simp only: pd_for.simps list.size add_Suc_right add_0_right list.map concat.simps)
      (rule accepts_bind [OF item], rule accepts_bind_last, assumption, rule accepts_return)
qed

lemma recognizes_modules:
  "recognizes (pd_for i n (\<lambda>index.
      rbind (pd_module try_reserve (as_u32 index)) (pd_push_decoded try_reserve ''modules''))) d
    (\<lambda>bs ms d'. length ms = n \<and> bs = concat (map encode_program_module ms)
      \<and> (\<forall>m \<in> set ms. fits_program_module (pd_limits d) m)
      \<and> (in_budget d \<longrightarrow> in_budget (tally ms d))
      \<and> d' = advance (length bs) (tally ms d))"
proof (induction n arbitrary: i d)
  case 0
  show ?case by (simp add: recognizes_return)
next
  case (Suc n)
  have item: "recognizes (rbind (pd_module try_reserve (as_u32 i)) (pd_push_decoded try_reserve ''modules'')) d
      (\<lambda>bs m d'. bs = encode_program_module m \<and> fits_program_module (pd_limits d) m \<and> in_budget (tally [m] d)
        \<and> d' = advance (length bs) (tally [m] d))"
    by (rule recognizes_bind [OF recognizes_module], rule recognizes_weaken [OF recognizes_push]) auto
  show ?case
    unfolding pd_for.simps
    by (rule recognizes_bind [OF item], rule recognizes_bind [OF Suc.IH], rule recognizes_return)
      (auto simp: tally_advance)
qed

section \<open>Programs\<close>

definition fits_program :: "ProgramDecodeLimits \<Rightarrow> Program \<Rightarrow> bool" where
  "fits_program l p \<longleftrightarrow>
     length (pg_modules p) \<le> unat (pl_max_modules l)
     \<and> (\<forall>m \<in> set (pg_modules p). fits_program_module l m)
     \<and> sum_list (map (\<lambda>m. length (encode_module (pm_code m))) (pg_modules p)) \<le> pl_max_total_module_bytes l
     \<and> sum_list (map (\<lambda>m. length (pm_edges m)) (pg_modules p)) \<le> unat (pl_max_total_edges l)
     \<and> sum_list (map (\<lambda>m. length (pm_bindings m)) (pg_modules p)) \<le> unat (pl_max_total_bindings l)
     \<and> sum_list (map (\<lambda>m. length (pm_exports m)) (pg_modules p)) \<le> unat (pl_max_total_exports l)"

abbreviation start_decoder :: "u8 list \<Rightarrow> ProgramDecodeLimits \<Rightarrow> ProgramDecoder" where
  "start_decoder bytes l \<equiv> \<lparr>pd_bytes = bytes, pd_offset = 0, pd_limits = l, pd_total_module_bytes = 0,
     pd_total_edges = 0, pd_total_bindings = 0, pd_total_exports = 0\<rparr>"

lemma in_budget_start:
  "fits_program l p \<longleftrightarrow> length (pg_modules p) \<le> unat (pl_max_modules l)
     \<and> (\<forall>m \<in> set (pg_modules p). fits_program_module l m) \<and> in_budget (tally (pg_modules p) (start_decoder bytes l))"
  by (auto simp: fits_program_def in_budget_def tally_def)

lemma accepts_magic: "accepts (pd_expect_magic bs) d bs () (advance (length bs) d)"
proof (induction bs arbitrary: d)
  case Nil
  show ?case by (simp add: accepts_return)
next
  case (Cons b bs)
  have "accepts (pd_expect_magic bs) (advance 1 d) bs () (advance (length (b # bs)) d)"
    by (rule accepts_state [OF Cons]) simp
  then show ?case by (auto intro!: accepts_bind_position accepts_bind_byte)
qed

lemma recognizes_magic: "recognizes (pd_expect_magic es) d (\<lambda>bs x d'. bs = es \<and> d' = advance (length es) d)"
proof (induction es arbitrary: d)
  case (Cons b bs)
  show ?case
    unfolding pd_expect_magic.simps
    by (rule recognizes_bind_position, rule recognizes_bind_byte, rule recognizes_if)
      (auto intro!: recognizes_error_at recognizes_weaken [OF Cons])
qed (simp add: recognizes_return)

lemma accepts_program:
  assumes "fits_program l p" and "limits_in_range l" and alloc: "\<And>v d. try_reserve v d"
  shows "\<exists>d'. accepts (pd_program try_reserve) (start_decoder bytes l) (encode_program p) p d'"
proof -
  let ?n = "length (pg_modules p)"
  define d where "d = advance (length (write_u32 (as_u32 ?n))) (advance (length (write_u32 (pg_entry p)))
    (advance 1 (advance (length PROGRAM_MAGIC) (start_decoder bytes l))))"
  have "pd_limits d = l" "in_budget (tally (pg_modules p) d)"
    using assms(1) in_budget_start [of l p bytes] by (simp_all add: d_def tally_advance)
  then have modules: "accepts (pd_for 0 ?n (\<lambda>index.
      rbind (pd_module try_reserve (as_u32 index)) (pd_push_decoded try_reserve ''modules''))) d
    (concat (map encode_program_module (pg_modules p))) (pg_modules p)
    (advance (length (concat (map encode_program_module (pg_modules p)))) (tally (pg_modules p) d))"
    using assms by (intro accepts_modules) (auto simp: fits_program_def)
  have n: "?n \<le> unat (pl_max_modules l)" using assms(1) by (simp add: fits_program_def)
  have bytes: "encode_program p = PROGRAM_MAGIC @ PROGRAM_VERSION # write_u32 (pg_entry p) @
      write_u32 (as_u32 ?n) @ concat (map encode_program_module (pg_modules p)) @ []"
    by (simp add: encode_program_def)
  have ret: "\<lparr>pg_modules = pg_modules p, pg_entry = pg_entry p\<rparr> = p" by simp
  show ?thesis
    unfolding pd_program_def bytes
    by (rule exI, rule accepts_bind_limits, rule accepts_bind [OF accepts_magic], rule accepts_bind_position,
        rule accepts_bind_byte, simp only: simp_thms if_False,
        rule accepts_bind_u32, rule accepts_bind [OF accepts_count],
        simp add: n, rule accepts_bind [OF modules [unfolded d_def]], unfold ret, rule accepts_return)
qed

lemma in_budget_empty: "in_budget (start_decoder bytes l)"
  by (simp add: in_budget_def)

lemma recognizes_program:
  "recognizes (pd_program try_reserve) (start_decoder bytes l)
     (\<lambda>bs p d'. bs = encode_program p \<and> fits_program l p)"
  unfolding pd_program_def
  by (rule recognizes_bind_limits, rule recognizes_bind [OF recognizes_magic], rule recognizes_bind_position,
      rule recognizes_bind_byte, rule recognizes_if, rule recognizes_error_at, simp add: moved_def,
      rule recognizes_bind_u32, rule recognizes_bind [OF recognizes_count],
      rule recognizes_bind [OF recognizes_modules], rule recognizes_return)
    (auto simp: encode_program_def in_budget_start [where bytes = bytes] tally_advance in_budget_empty)

section \<open>The whole decoder\<close>

lemma decode_program_encode:
  assumes "fits_program l p" and "limits_in_range l" and "\<And>v d. try_reserve v d"
    and len: "length (encode_program p) \<le> pl_max_bytes l"
  shows "decode_program try_reserve (encode_program p) l = Ok p"
proof -
  from accepts_program [of l p try_reserve, OF assms(1-3)] obtain d' where
    a: "accepts (pd_program try_reserve) (start_decoder (encode_program p) l) (encode_program p) p d'" by blast
  have "pd_program try_reserve (start_decoder (encode_program p) l) = Ok (p, d')"
    by (rule acceptsD [OF a, of "[]"]) (use len assms(2) in \<open>simp_all add: unread_def limits_in_range_def\<close>)
  moreover from a have "pd_offset d' = length (encode_program p)" by (simp add: accepts_def moved_def)
  ultimately show ?thesis using len by (simp add: decode_program_def)
qed

lemma decode_program_Ok:
  assumes "decode_program try_reserve bs l = Ok p"
  shows "bs = encode_program p" "fits_program l p" "length bs \<le> pl_max_bytes l"
proof -
  from assms obtain d' where d: "pd_program try_reserve (start_decoder bs l) = Ok (p, d')" "pd_offset d' = length bs"
    and l: "length bs \<le> pl_max_bytes l"
    by (auto simp: decode_program_def bind_result_iffs split: if_splits)
  from recognizesE [OF recognizes_program _ d(1)] obtain bs' where
    "unread (start_decoder bs l) = bs' @ unread d'" "moved bs' (start_decoder bs l) d'"
    "bs' = encode_program p" "fits_program l p" by auto
  with d(2) show "bs = encode_program p" "fits_program l p" by (simp_all add: unread_def moved_def)
  show "length bs \<le> pl_max_bytes l" by (rule l)
qed

lemma decode_program_safe:
  "decode_program try_reserve bs l \<noteq> Panic \<and>
    (decode_program try_reserve bs l = Err e \<longrightarrow> perr_offset e \<le> length bs)"
proof -
  have r: "case pd_program try_reserve (start_decoder bs l) of
      Ok (x, d') \<Rightarrow> pd_offset d' \<le> length bs | Err e \<Rightarrow> perr_offset e \<le> length bs | Panic \<Rightarrow> False"
    using recognizes_program [of try_reserve bs l] by (auto simp: recognizes_def split: result.splits)
  show ?thesis
    using r by (cases "pd_program try_reserve (start_decoder bs l)") (auto simp: decode_program_def split: if_splits)
qed

text \<open>Verification only adds certificates, which are not encoded.\<close>

lemma verify_module_encode: "verify_module m = Ok m' \<Longrightarrow> encode_module m' = encode_module m"
  using verify_module_result(1) [of m m']
  by (metis (no_types, lifting) encode_module_def Module.select_convs Module.surjective Module.update_convs(4))

lemma program_verify_encode:
  assumes "program_verify p = Ok p'"
  shows "encode_program p' = encode_program p"
proof -
  let ?f = "\<lambda>(index, m). bind_result (map_err (\<lambda>e. link_error (as_u32 index) (ModuleKind e)) (verify_module (pm_code m)))
       (\<lambda>code. Ok (m\<lparr>pm_code := code\<rparr>))"
  have same: "length ms' = length ms \<and> map encode_program_module ms' = map encode_program_module ms"
    if "try_map ?f (enumerate n ms) = Ok ms'" for n ms ms'
    using that
  proof (induction ms arbitrary: n ms')
    case (Cons m ms)
    then obtain code ms'' where "verify_module (pm_code m) = Ok code" "ms' = m\<lparr>pm_code := code\<rparr> # ms''"
      "try_map ?f (enumerate (Suc n) ms) = Ok ms''"
      by (auto simp: bind_result_iffs)
    with Cons.IH [of "Suc n" ms''] verify_module_encode [of "pm_code m" code] show ?case
      by (simp add: encode_program_module_def)
  qed simp
  from assms obtain ms' where "try_map ?f (enumerate 0 (pg_modules p)) = Ok ms'"
    and "program_link ms' (pg_entry p) = Ok p'"
    by (auto simp: program_verify_def bind_result_iffs)
  with same [of 0 "pg_modules p" ms'] show ?thesis
    by (auto simp: program_link_def bind_result_iffs encode_program_def)
qed

end
