(* ===== verification/Example_Modules.thy ===== *)
theory Example_Modules
  imports Program_Link Program_Codec "HOL-Library.Code_Target_Nat"
begin

text \<open>
  Concrete functions, modules and programs, evaluated once by the code equations: the inputs at
  which the properties of the root theory are exercised. Natural numbers are computed in binary
  (\<open>Code_Target_Nat\<close>), since the limits of the format are far too large for unary ones.
\<close>

section \<open>Modules\<close>

definition sample_function :: Function where
  "sample_function =
     \<lparr>fn_name = Some 1, fn_capture_count = 0, fn_parameter_count = 1, fn_register_count = 3,
      fn_flags = \<lparr>is_async = False, is_generator = False, is_constructable = True\<rparr>,
      fn_code = [LoadConst 1 0, JumpIfFalse 0 3, Binary 2 Add 0 1, Return 1],
      fn_handlers = [\<lparr>eh_start = 0, eh_end = 3, eh_handler = 3, eh_catch_register = 1\<rparr>,
                     \<lparr>eh_start = 1, eh_end = 2, eh_handler = 2, eh_catch_register = 1\<rparr>]\<rparr>"

definition sample_module :: Module where
  "sample_module = Module_new [Int32 7, StringConst [102, 48]] [sample_function] 0"

definition sample_certificate :: Certificate where
  "sample_certificate = \<lparr>cert_register_count = 3, cert_facts = [[1], [3], [3], [3]]\<rparr>"

definition sample_verified :: Module where
  "sample_verified = sample_module\<lparr>m_certificates := [sample_certificate]\<rparr>"

definition unset_function :: Function where
  "unset_function = sample_function\<lparr>fn_code := [JumpIfFalse 0 2, LoadConst 1 0, Return 1], fn_handlers := []\<rparr>"

definition crossing_function :: Function where
  "crossing_function = sample_function\<lparr>fn_handlers :=
     [\<lparr>eh_start = 1, eh_end = 4, eh_handler = 3, eh_catch_register = 1\<rparr>,
      \<lparr>eh_start = 0, eh_end = 2, eh_handler = 3, eh_catch_register = 1\<rparr>]\<rparr>"

lemma verify_sample:
  "(case verify_module sample_module of Ok m \<Rightarrow> m_certificates m = [sample_certificate] | _ \<Rightarrow> False)"
  by code_simp

lemma verify_sample_module: "verify_module sample_module = Ok sample_verified"
  using verify_sample verify_module_result(1) [of sample_module]
  by (auto simp: sample_verified_def split: result.splits)

lemma crossing_rejected: "verify_handlers 0 crossing_function = Err (function_error 0 (HandlersPartiallyOverlap 0 1))"
  by code_simp

lemma sample_handlers_Ok: "verify_handlers 0 sample_function = Ok ()"
  by code_simp

lemma unset_rejected: "definite_initialization 0 unset_function = Err (instruction_error 0 2 (ReadBeforeWrite 1))"
  by code_simp

lemma decode_sample: "decode (encode_module sample_module) DecodeLimits_default = Ok sample_module"
  by code_simp

lemma valid_samples: "df_valid sample_function" "df_valid unset_function"
  by code_simp+

lemma max_bytes_default: "max_bytes DecodeLimits_default < 2 ^ 64"
  by (simp add: DecodeLimits_default_def)

section \<open>Programs\<close>

text \<open>
  Two modules: \<open>a\<close> exports \<open>x\<close>, which re-exports \<open>y\<close> of \<open>b\<close>; \<open>b\<close> exports its hoisted \<open>y\<close>.
\<close>

definition stub_function :: Function where
  "stub_function =
     \<lparr>fn_name = None, fn_capture_count = 0, fn_parameter_count = 0, fn_register_count = 0,
      fn_flags = \<lparr>is_async = False, is_generator = False, is_constructable = False\<rparr>,
      fn_code = [Halt], fn_handlers = []\<rparr>"

definition stub_code :: "EcmaString list \<Rightarrow> Module" where
  "stub_code names = Module_new (map StringConst names) [stub_function] 0"

definition module_a :: ProgramModule where
  "module_a =
     \<lparr>pm_name = 0, pm_code = stub_code [[97], [98], [120], [121]],
      pm_edges = [\<lparr>ed_specifier = 1, ed_target = TargetLocal 1, ed_kind = EdgeStatic\<rparr>],
      pm_bindings = [\<lparr>bd_name = 3, bd_kind = Imported 0 3\<rparr>],
      pm_exports = [\<lparr>ex_name = 2, ex_source = ExportIndirect 0 3\<rparr>]\<rparr>"

definition module_b :: ProgramModule where
  "module_b =
     \<lparr>pm_name = 0, pm_code = stub_code [[98], [121]], pm_edges = [],
      pm_bindings = [\<lparr>bd_name = 1, bd_kind = Hoisted\<rparr>],
      pm_exports = [\<lparr>ex_name = 1, ex_source = ExportLocal 0\<rparr>]\<rparr>"

definition sample_program :: Program where
  "sample_program = \<lparr>pg_modules = [module_a, module_b], pg_entry = 0\<rparr>"

lemma link_metadata: "verify_program_metadata [module_a, module_b] 0 = Ok ()"
  by code_simp

lemma link_sample: "program_link [module_a, module_b] 0 = Ok sample_program"
  by (simp add: program_link_def link_metadata sample_program_def)

definition hollow_module :: Module where
  "hollow_module = Module_new [] [stub_function, stub_function\<lparr>fn_code := []\<rparr>] 0"

lemma hollow_rejected: "verify_module hollow_module = Err (function_error 1 EmptyFunction)"
proof -
  have "case verify_module hollow_module of Err e \<Rightarrow> e = function_error 1 EmptyFunction | _ \<Rightarrow> False" by code_simp
  then show ?thesis by (simp split: result.splits)
qed

lemma stub_verified: "\<forall>m \<in> set [module_a, module_b]. \<exists>m'. verify_module (pm_code m) = Ok m'"
proof -
  have "case verify_module (pm_code module_a) of Ok _ \<Rightarrow> True | _ \<Rightarrow> False" by code_simp
  moreover have "case verify_module (pm_code module_b) of Ok _ \<Rightarrow> True | _ \<Rightarrow> False" by code_simp
  ultimately show ?thesis by (auto split: result.splits)
qed

text \<open>Re-exporting \<open>x\<close> from itself is a cycle.\<close>

definition module_loop :: ProgramModule where
  "module_loop = module_a\<lparr>
      pm_edges := [\<lparr>ed_specifier = 1, ed_target = TargetLocal 0, ed_kind = EdgeStatic\<rparr>],
      pm_bindings := [],
      pm_exports := [\<lparr>ex_name = 2, ex_source = ExportIndirect 0 2\<rparr>]\<rparr>"

lemma loop_rejected:
  "verify_export_resolutions [module_loop] [Map.empty([120] \<mapsto> 0)] = Err (link_error 0 (IndirectExportCycle 0))"
  by code_simp

lemma loop_linkable: "linkable [module_loop]"
proof -
  have "verify_module_metadata (Suc 0) 0 module_loop = Ok ()" by code_simp
  then show ?thesis by (simp add: linkable_def verify_module_metadata_Ok_iff)
qed

lemma loop_indexed: "indexed [module_loop] [Map.empty([120] \<mapsto> 0)]"
  by (auto simp: indexed_def valid_export_def export_name_def module_loop_def module_a_def stub_code_def
      Module_new_def string_at_def slice_get_def nth_Cons')

text \<open>The two modules with the certificates their verification adds, and their encoding.\<close>

definition stub_certificate :: Certificate where
  "stub_certificate = \<lparr>cert_register_count = 0, cert_facts = [[]]\<rparr>"

definition certified :: "ProgramModule \<Rightarrow> ProgramModule" where
  "certified m = m\<lparr>pm_code := (pm_code m)\<lparr>m_certificates := [stub_certificate]\<rparr>\<rparr>"

definition verified_program :: Program where
  "verified_program = \<lparr>pg_modules = [certified module_a, certified module_b], pg_entry = 0\<rparr>"

lemma verify_sample_program: "program_verify sample_program = Ok verified_program"
proof -
  have "case program_verify sample_program of Ok p \<Rightarrow> p = verified_program | _ \<Rightarrow> False" by code_simp
  then show ?thesis by (simp split: result.splits)
qed

lemma program_limits_in_range: "limits_in_range ProgramDecodeLimits_default"
  by (simp add: limits_in_range_def ProgramDecodeLimits_default_def DecodeLimits_default_def)

lemma sample_program_fits: "fits_program ProgramDecodeLimits_default sample_program"
  by code_simp

lemma sample_program_length: "length (encode_program sample_program) \<le> pl_max_bytes ProgramDecodeLimits_default"
  by code_simp

end
