(* ===== verification/BigInt_Text.thy ===== *)
theory BigInt_Text
  imports Bytecode_Module
begin

text \<open>
  The canonical form of BigInt literals (\<open>is_canonical_bigint\<close> in
  \<^verbatim>\<open>crates/bamts-bytecode/src/lib.rs\<close>) against its meaning: the accepted texts are exactly the
  decimal texts of the integers, one text per integer.
\<close>

section \<open>Decimal text\<close>

fun decimal :: "nat \<Rightarrow> u8 list" where
  "decimal n = (if n < 10 then [48 + word_of_nat n]
     else decimal (n div 10) @ [48 + word_of_nat (n mod 10)])"

declare decimal.simps [simp del]

definition bigint_text :: "int \<Rightarrow> u8 list" where
  "bigint_text i = (if i < 0 then 45 # decimal (nat (- i)) else decimal (nat i))"

definition digits_value :: "u8 list \<Rightarrow> nat" where
  "digits_value ds = foldl (\<lambda>v d. 10 * v + (unat d - 48)) 0 ds"

lemma unat_digit: "k < 10 \<Longrightarrow> unat (48 + word_of_nat k :: u8) = 48 + k"
  by (simp add: unat_word_ariths unat_of_nat)

lemma digit_cases: "is_ascii_digit d \<Longrightarrow> d = 48 + word_of_nat (unat d - 48) \<and> unat d - 48 < 10"
  by (auto simp: is_ascii_digit_def word_unat_eq_iff unat_digit word_le_nat_alt)

lemma is_digit_nat: "k < 10 \<Longrightarrow> is_ascii_digit (48 + word_of_nat k)"
  by (simp add: is_ascii_digit_def word_le_nat_alt unat_digit)

lemma decimal_digits: "decimal n \<noteq> [] \<and> list_all is_ascii_digit (decimal n)"
proof (induction n rule: decimal.induct)
  case (1 n)
  then show ?case by (subst (1 2) decimal.simps) (simp add: is_digit_nat)
qed

lemma decimal_value: "digits_value (decimal n) = n"
proof (induction n rule: decimal.induct)
  case (1 n)
  then show ?case by (subst decimal.simps) (auto simp: digits_value_def unat_digit)
qed

lemma decimal_head: "hd (decimal n) = 48 \<longleftrightarrow> n = 0"
proof (induction n rule: decimal.induct)
  case (1 n)
  have "48 + word_of_nat n = (48 :: u8) \<longleftrightarrow> n = 0" if "n < 10"
    using unat_digit [OF that] by (auto simp: word_unat_eq_iff)
  with 1 decimal_digits [of "n div 10"] show ?case
    by (subst decimal.simps) (auto simp: hd_append)
qed

lemma decimal_of_digits:
  "list_all is_ascii_digit ds \<Longrightarrow> ds \<noteq> [] \<Longrightarrow> length ds > 1 \<longrightarrow> hd ds \<noteq> 48 \<Longrightarrow> decimal (digits_value ds) = ds"
proof (induction ds rule: rev_induct)
  case (snoc d ds)
  have d: "d = 48 + word_of_nat (unat d - 48)" "unat d - 48 < 10"
    using digit_cases [of d] snoc.prems(1) by auto
  show ?case
  proof (cases "ds = []")
    case True
    then show ?thesis using d by (subst decimal.simps) (simp add: digits_value_def)
  next
    case False
    have v: "digits_value (ds @ [d]) = 10 * digits_value ds + (unat d - 48)" by (simp add: digits_value_def)
    have ds: "decimal (digits_value ds) = ds" using snoc False by (cases ds) auto
    moreover have "digits_value ds \<noteq> 0"
      using decimal_head [of "digits_value ds"] ds snoc.prems(3) False by auto
    ultimately show ?thesis using d unfolding v by (subst decimal.simps) simp
  qed
qed simp

lemma decimal_single_zero: "decimal n = [48] \<longleftrightarrow> n = 0"
  using decimal_value [of n] decimal.simps [of 0] by (auto simp: digits_value_def)

lemma decimal_no_leading_zero: "length (decimal n) > 1 \<longrightarrow> hd (decimal n) \<noteq> 48"
  using decimal_head [of n] decimal.simps [of n] by (cases "n = 0") auto

lemma minus_not_digit: "hd (decimal n) \<noteq> 45"
  using decimal_digits [of n] by (cases "decimal n") (auto simp: is_ascii_digit_def word_le_nat_alt)

lemma is_canonical_bigint_alt:
  "is_canonical_bigint bytes \<longleftrightarrow> (\<exists>ds. ds \<noteq> [] \<and> list_all is_ascii_digit ds \<and> (length ds > 1 \<longrightarrow> hd ds \<noteq> 48) \<and>
     (bytes = ds \<or> bytes = 45 # ds \<and> ds \<noteq> [48]))"
proof -
  have "\<not> is_ascii_digit 45" by (simp add: is_ascii_digit_def)
  then show ?thesis by (cases bytes) (auto simp: is_canonical_bigint_def Let_def)
qed

lemma is_canonical_bigint_iff: "is_canonical_bigint bytes \<longleftrightarrow> (\<exists>i. bytes = bigint_text i)"
proof
  assume "is_canonical_bigint bytes"
  then obtain ds where ds: "ds \<noteq> []" "list_all is_ascii_digit ds" "length ds > 1 \<longrightarrow> hd ds \<noteq> 48"
    and bytes: "bytes = ds \<or> bytes = 45 # ds \<and> ds \<noteq> [48]" unfolding is_canonical_bigint_alt by blast
  have dec: "decimal (digits_value ds) = ds" by (rule decimal_of_digits [OF ds(2,1,3)])
  from bytes show "\<exists>i. bytes = bigint_text i"
  proof
    assume "bytes = ds"
    then have "bytes = bigint_text (int (digits_value ds))" using dec by (simp add: bigint_text_def)
    then show ?thesis by blast
  next
    assume b: "bytes = 45 # ds \<and> ds \<noteq> [48]"
    then have "digits_value ds \<noteq> 0" using dec decimal_single_zero by metis
    then have "bytes = bigint_text (- int (digits_value ds))" using dec b by (simp add: bigint_text_def)
    then show ?thesis by blast
  qed
next
  assume "\<exists>i. bytes = bigint_text i"
  then obtain i where i: "bytes = bigint_text i" by blast
  show "is_canonical_bigint bytes"
    unfolding is_canonical_bigint_alt
    by (rule exI [of _ "decimal (nat \<bar>i\<bar>)"])
      (use decimal_digits decimal_no_leading_zero decimal_single_zero [of "nat \<bar>i\<bar>"] i in \<open>auto simp: bigint_text_def\<close>)
qed

lemma bigint_text_inject: "bigint_text i = bigint_text j \<longleftrightarrow> i = j"
proof
  assume eq: "bigint_text i = bigint_text j"
  have inj: "decimal a = decimal b \<Longrightarrow> a = b" for a b by (metis decimal_value)
  have neq: "45 # decimal a \<noteq> decimal b" for a b using minus_not_digit [of b] by (metis list.sel(1))
  from eq inj neq neq [symmetric] show "i = j"
    by (auto simp: bigint_text_def split: if_splits dest!: inj)
qed simp

end
