(* ===== verification/Verify_Locations.thy ===== *)
theory Verify_Locations
  imports Module_Verifier
begin

text \<open>
  Where the verifier says a defect is (\<^verbatim>\<open>crates/bamts-bytecode/src/lib.rs\<close>): every error of an
  instruction check names its function and program counter, every error of a function its function,
  and the function named is the first one of the module that is not valid.
\<close>

definition located :: "usize \<Rightarrow> usize \<Rightarrow> VerifyError \<Rightarrow> bool" where
  "located fi pc e \<longleftrightarrow> ve_function e = Some (as_u32 fi) \<and> ve_instruction e = Some (as_u32 pc)"

lemma located_error [simp]: "located fi pc (instruction_error fi pc k)"
  by (simp add: located_def instruction_error_def)

lemma check_errors_located:
  "check_register fi pc f r = Err e \<Longrightarrow> located fi pc e"
  "check_constant m fi pc c = Err e \<Longrightarrow> located fi pc e"
  "check_string_constant m fi pc c = Err e \<Longrightarrow> located fi pc e"
  "verify_target fi pc t k = Err e \<Longrightarrow> located fi pc e"
  "ensure b (instruction_error fi pc kind) = Err e \<Longrightarrow> located fi pc e"
  by (auto simp: check_register_def check_constant_def check_string_constant_def verify_target_def
      bind_result_iffs split: if_splits)

lemma verify_operands_located: "verify_operands m fi f pc ins = Err e \<Longrightarrow> located fi pc e"
  by (cases ins) (auto simp: bind_result_iffs dest: check_errors_located)

lemma lift_ext_located:
  "xe_function e = Some (as_u32 fi) \<Longrightarrow> xe_instruction e = Some (as_u32 pc) \<Longrightarrow> located fi pc (lift_ext_error e)"
  by (simp add: located_def lift_ext_error_def)

lemma verify_extension_located:
  "verify_extension fi pc x n pool k = Err e \<Longrightarrow> xe_function e = Some (as_u32 fi) \<and> xe_instruction e = Some (as_u32 pc)"
  by (cases x)
    (auto simp: verify_extension_def ext_verify_operands_def ext_check_register_def ext_check_string_constant_def
      ext_instruction_error_def Let_def bind_result_iffs dest!: try_all_Err split: if_splits)

lemma verify_instruction_located: "verify_instruction m fi f pc ins = Err e \<Longrightarrow> located fi pc e"
  by (auto simp: verify_instruction_def bind_result_iffs split: option.splits
      dest!: try_all_Err dest: verify_operands_located verify_extension_located check_errors_located(4) [OF sym]
      intro: lift_ext_located)

lemma verify_handlers_Err:
  "verify_handlers fi f = Err e \<Longrightarrow> ve_function e = Some (as_u32 fi)"
  using handler_sweep_laminar [of fi "fn_handlers f"]
  by (auto simp: verify_handlers_def bind_result_iffs verify_handler_def function_error_def
      dest!: try_all_Err split: if_splits)

lemma verify_function_located:
  assumes "verify_function m fi f = Err e"
  shows "ve_function e = Some (as_u32 fi)"
proof -
  consider "verify_function_header fi f = Err e" | "verify_function_name m fi f = Err e"
    | "verify_handlers fi f = Err e"
    | "try_all (map (\<lambda>(pc, ins). verify_instruction m fi f pc ins) (enumerate 0 (fn_code f))) = Err e"
    | "df_valid f" "definite_initialization fi f = Err e"
    using assms checks_df_valid [of f m]
    by (auto simp: verify_function_def bind_result_iffs verify_function_header_spec
        verify_handlers_Ok_iff verify_instructions_spec)
  then show ?thesis
  proof cases
    case 1
    then show ?thesis by (auto simp: verify_function_header_def function_error_def split: if_splits)
  next
    case 2
    then show ?thesis
      by (auto simp: verify_function_name_def function_error_def split: option.splits if_splits)
  next
    case 3
    then show ?thesis by (rule verify_handlers_Err)
  next
    case 4
    then obtain pc ins where "verify_instruction m fi f pc ins = Err e" by (auto dest!: try_all_Err)
    then show ?thesis using verify_instruction_located by (auto simp: located_def)
  next
    case 5
    from definite_initialization_Err [OF 5] show ?thesis by (auto simp: instruction_error_def)
  qed
qed

lemma try_map_Err_split:
  "try_map g xs = Err e \<Longrightarrow> \<exists>i < length xs. g (xs ! i) = Err e \<and> (\<forall>j < i. \<exists>y. g (xs ! j) = Ok y)"
proof (induction xs)
  case (Cons x xs)
  show ?case
  proof (cases "g x")
    case (Ok y)
    with Cons obtain i where i: "i < length xs" "g (xs ! i) = Err e" "\<forall>j < i. \<exists>y. g (xs ! j) = Ok y"
      by (auto simp: bind_result_iffs)
    then have "\<exists>y. g ((x # xs) ! j) = Ok y" if "j < Suc i" for j
      using that Ok by (cases j) auto
    with i show ?thesis by (intro exI [of _ "Suc i"]) auto
  qed (use Cons.prems in \<open>auto intro: exI [of _ 0]\<close>)
qed simp

lemma verify_module_located:
  assumes "verify_module m = Err e" and "ve_function e = Some fi"
  shows "unat fi < length (m_functions m) \<and> \<not> function_ok m (m_functions m ! unat fi) \<and>
    verify_function m (unat fi) (m_functions m ! unat fi) = Err e \<and>
    (\<forall>j < unat fi. function_ok m (m_functions m ! j))"
proof -
  let ?g = "\<lambda>(fi, f). verify_function m fi f"
  have "try_fold count_facts_words t fs = Err e' \<Longrightarrow> ve_function e' = None" for t fs e'
    by (induction fs arbitrary: t)
      (auto simp: count_facts_words_def Let_def bind_result_iffs module_error_def split: if_splits)
  then have run: "try_map ?g (enumerate 0 (m_functions m)) = Err e" and len: "length (m_functions m) \<le> 2 ^ 20"
    using assms
    by (auto simp: verify_module_def bind_result_iffs module_error_def MAX_FUNCTIONS_def split: if_splits)
  from try_map_Err_split [OF run] obtain i where i: "i < length (m_functions m)"
    "verify_function m i (m_functions m ! i) = Err e" "\<forall>j < i. \<exists>y. ?g (enumerate 0 (m_functions m) ! j) = Ok y"
    by (auto simp: nth_enumerate_eq)
  from verify_function_located [OF i(2)] assms(2) i(1) len have "unat fi = i" by auto
  moreover have "\<not> function_ok m (m_functions m ! i)"
    using i(2) verify_function_Ok_iff [of m i "m_functions m ! i"] by auto
  moreover have "function_ok m (m_functions m ! j)" if "j < i" for j
    using i(1,3) that verify_function_Ok_iff [of m j "m_functions m ! j"] by (auto simp: nth_enumerate_eq)
  ultimately show ?thesis using i(1,2) by simp
qed

lemma handler_overlap_genuine:
  assumes "verify_handlers fi f = Err (function_error fi (HandlersPartiallyOverlap l r))"
  shows "l < r \<and> r < length (fn_handlers f) \<and> \<not> compatible (fn_handlers f ! l) (fn_handlers f ! r)"
proof -
  have "\<not> (\<exists>at. verify_handler fi f at = Err (function_error fi (HandlersPartiallyOverlap l r)))"
    by (auto simp: verify_handler_def)
  then have "try_all (map (verify_handler fi f) (enumerate 0 (fn_handlers f))) \<noteq>
      Err (function_error fi (HandlersPartiallyOverlap l r))"
    by (auto dest!: try_all_Err) metis
  then show ?thesis
    using assms handler_sweep_laminar [of fi "fn_handlers f"]
    by (auto simp: verify_handlers_def bind_result_iffs)
qed

end
