(* ===== verification/Word_Facts.thy ===== *)
theory Word_Facts
  imports BT_Prelude
begin

text \<open>
  Bit operations on words as arithmetic on their values: disjoint disjunction is addition, a shift
  right is a division and a low mask is a remainder. Used by the URI codec and the value encoding.
\<close>

lemma or_low:
  assumes "unat (x :: 'a::len word) < 2 ^ k"
  shows "push_bit k h OR x = push_bit k h + x"
proof -
  have x: "take_bit k x = x" using assms by (simp add: word_unat_eq_iff unsigned_take_bit_eq take_bit_nat_eq_self)
  have "push_bit k h AND take_bit k x = 0" by (rule bit_word_eqI) (auto simp: bit_simps)
  with x show ?thesis by (simp add: disjunctive_add_eq_or)
qed

lemma unat_and_mask:
  "unat (x AND 0x3F) = unat (x :: 'a::len word) mod 64" "unat (x AND 0x0F) = unat x mod 16"
  "unat (x AND 0x1F) = unat x mod 32" "unat (x AND 0x7) = unat x mod 8"
proof -
  have m: "x AND 0x3F = take_bit 6 x" "x AND 0x0F = take_bit 4 x" "x AND 0x1F = take_bit 5 x" "x AND 0x7 = take_bit 3 x"
    by (simp_all add: take_bit_eq_mask mask_eq_exp_minus_1)
  show "unat (x AND 0x3F) = unat x mod 64" "unat (x AND 0x0F) = unat x mod 16"
    "unat (x AND 0x1F) = unat x mod 32" "unat (x AND 0x7) = unat x mod 8"
    by (simp_all only: m unsigned_take_bit_eq) (simp_all add: take_bit_eq_mod)
qed

lemma unat_drop: "unat (drop_bit k (c :: 'a::len word)) = unat c div 2 ^ k"
  by (simp only: unsigned_drop_bit_eq) (simp add: drop_bit_eq_div take_bit_nat_eq_self)

lemma and_mask_low: "unat (x AND mask k) = unat (x :: 'a::len word) mod 2 ^ k"
  by (simp only: take_bit_eq_mask [symmetric] unsigned_take_bit_eq) (simp add: take_bit_eq_mod)

lemma and_mask_high: "(x :: 'a::len word) AND push_bit k (mask (LENGTH('a) - k)) = push_bit k (drop_bit k x)"
  by (rule bit_word_eqI) (auto simp: bit_simps)

lemma or_and_absorb: "m OR (r AND m) = (m :: 'a::len word)"
  by (rule bit_word_eqI) (auto simp: bit_simps)

lemma unat_push_or:
  assumes "unat (h :: 'a::len word) < 2 ^ (LENGTH('a) - k)" and "unat x < 2 ^ k" and "k \<le> LENGTH('a)"
  shows "unat (push_bit k h OR x) = unat h * 2 ^ k + unat x"
proof -
  have le: "(unat h + 1) * 2 ^ k \<le> 2 ^ (LENGTH('a) - k) * 2 ^ k" using assms(1) by (intro mult_right_mono) simp_all
  also have "\<dots> = 2 ^ LENGTH('a)" using assms(3) by (simp flip: power_add)
  finally have bound: "unat h * 2 ^ k + unat x < 2 ^ LENGTH('a)" using assms(2) by simp
  have "unat (push_bit k h) = unat h * 2 ^ k"
    using bound by (simp only: unsigned_push_bit_eq) (simp add: push_bit_eq_mult take_bit_nat_eq_self)
  then show ?thesis using bound by (simp add: or_low [OF assms(2)] unat_word_ariths)
qed

end
