(* ===== verification/Uri_Codec.thy ===== *)
theory Uri_Codec
  imports Ecma_Strings Word_Facts
begin

text \<open>
  The URI and escape codecs of the runtime (\<^verbatim>\<open>crates/bamts-runtime/src/builtins/uri.rs\<close>): the unit-level
  functions \<open>encode\<close>, \<open>decode\<close>, \<open>escape_units\<close> and \<open>unescape_units\<close> behind the global functions
  \<open>encodeURI\<close>, \<open>encodeURIComponent\<close>, \<open>decodeURI\<close>, \<open>decodeURIComponent\<close>, \<open>escape\<close> and \<open>unescape\<close>. A loop
  over \<open>offset\<close> recurses on what is left of the string from there. UTF-8 itself is specified
  arithmetically (\<open>utf8\<close>), independently of the shifts and masks of the code.
\<close>

section \<open>Octets and hexadecimal digits\<close>

definition URI_RESERVED :: "u8 list" where
  "URI_RESERVED = [0x3B, 0x2F, 0x3F, 0x3A, 0x40, 0x26, 0x3D, 0x2B, 0x24, 0x2C, 0x23]"

definition URI_UNESCAPED :: "u8 list" where
  "URI_UNESCAPED = [0x2D, 0x5F, 0x2E, 0x21, 0x7E, 0x2A, 0x27, 0x28, 0x29]"

definition ESCAPE_UNESCAPED :: "u8 list" where
  "ESCAPE_UNESCAPED = [0x40, 0x2A, 0x5F, 0x2B, 0x2D, 0x2E, 0x2F]"

definition HEX :: "u8 list" where
  "HEX = [0x30, 0x31, 0x32, 0x33, 0x34, 0x35, 0x36, 0x37, 0x38, 0x39, 0x41, 0x42, 0x43, 0x44, 0x45, 0x46]"

definition is_ascii_alphanumeric_u8 :: "u8 \<Rightarrow> bool" where
  "is_ascii_alphanumeric_u8 b \<longleftrightarrow>
     (0x30 \<le> b \<and> b \<le> 0x39) \<or> (0x41 \<le> b \<and> b \<le> 0x5A) \<or> (0x61 \<le> b \<and> b \<le> 0x7A)"

definition is_ascii_alphanumeric :: "u16 \<Rightarrow> bool" where
  "is_ascii_alphanumeric unit \<longleftrightarrow> unit \<le> 0xFF \<and> is_ascii_alphanumeric_u8 (ucast unit)"

definition component_unescaped :: "u16 \<Rightarrow> bool" where
  "component_unescaped unit \<longleftrightarrow>
     is_ascii_alphanumeric unit \<or> (unit \<le> 0xFF \<and> ucast unit \<in> set URI_UNESCAPED)"

definition encode_unescaped :: "u16 \<Rightarrow> bool \<Rightarrow> bool" where
  "encode_unescaped unit preserve_reserved \<longleftrightarrow>
     component_unescaped unit \<or> (preserve_reserved \<and> unit \<le> 0xFF \<and> ucast unit \<in> set URI_RESERVED)"

text \<open>\<open>HEX\<close> has sixteen entries and is indexed by a nibble, so the index is in range.\<close>

definition push_percent_octet :: "u8 \<Rightarrow> EcmaStringBuilder \<Rightarrow> EcmaStringBuilder" where
  "push_percent_octet octet b =
     push_unit (ucast (HEX ! unat (octet AND 0x0F)))
       (push_unit (ucast (HEX ! unat (drop_bit 4 octet))) (push_unit 0x25 b))"

definition push_utf8_percent_encoded :: "u32 \<Rightarrow> EcmaStringBuilder \<Rightarrow> EcmaStringBuilder" where
  "push_utf8_percent_encoded scalar b =
     (if scalar \<le> 0x7F then push_percent_octet (ucast scalar) b
      else if scalar \<le> 0x7FF then
        push_percent_octet (0x80 OR ucast (scalar AND 0x3F))
          (push_percent_octet (0xC0 OR ucast (drop_bit 6 scalar)) b)
      else if scalar \<le> 0xFFFF then
        push_percent_octet (0x80 OR ucast (scalar AND 0x3F))
          (push_percent_octet (0x80 OR ucast (drop_bit 6 scalar AND 0x3F))
            (push_percent_octet (0xE0 OR ucast (drop_bit 12 scalar)) b))
      else
        push_percent_octet (0x80 OR ucast (scalar AND 0x3F))
          (push_percent_octet (0x80 OR ucast (drop_bit 6 scalar AND 0x3F))
            (push_percent_octet (0x80 OR ucast (drop_bit 12 scalar AND 0x3F))
              (push_percent_octet (0xF0 OR ucast (drop_bit 18 scalar)) b))))"

section \<open>Encoding\<close>

fun uri_encode_from :: "bool \<Rightarrow> u16 list \<Rightarrow> EcmaStringBuilder \<Rightarrow> (EcmaString, unit) result" where
  "uri_encode_from preserve_reserved [] output = Ok (finish output)"
| "uri_encode_from preserve_reserved [first] output =
     (if encode_unescaped first preserve_reserved
      then uri_encode_from preserve_reserved [] (push_unit first output)
      else if is_high_surrogate first \<or> is_low_surrogate first then Err ()
      else uri_encode_from preserve_reserved [] (push_utf8_percent_encoded (ucast first) output))"
| "uri_encode_from preserve_reserved (first # second # units) output =
     (if encode_unescaped first preserve_reserved
      then uri_encode_from preserve_reserved (second # units) (push_unit first output)
      else if is_high_surrogate first then
        (if is_low_surrogate second
         then uri_encode_from preserve_reserved units
                (push_utf8_percent_encoded
                  (0x10000 + push_bit 10 (ucast first - 0xD800) + (ucast second - 0xDC00)) output)
         else Err ())
      else if is_low_surrogate first then Err ()
      else uri_encode_from preserve_reserved (second # units)
             (push_utf8_percent_encoded (ucast first) output))"

definition uri_encode :: "EcmaString \<Rightarrow> bool \<Rightarrow> (EcmaString, unit) result" where
  "uri_encode source preserve_reserved = uri_encode_from preserve_reserved source builder_new"

section \<open>Decoding\<close>

definition hex_value :: "u16 \<Rightarrow> u8 option" where
  "hex_value unit =
     (if 0x30 \<le> unit \<and> unit \<le> 0x39 then Some (ucast (unit - 0x30))
      else if 0x41 \<le> unit \<and> unit \<le> 0x46 then Some (ucast (unit - 0x41 + 10))
      else if 0x61 \<le> unit \<and> unit \<le> 0x66 then Some (ucast (unit - 0x61 + 10))
      else None)"

definition percent_octet :: "u16 list \<Rightarrow> usize \<Rightarrow> u8 option" where
  "percent_octet units offset =
     (if slice_get units offset \<noteq> Some 0x25 then None
      else Option.bind (slice_get units (offset + 1)) (\<lambda>u. Option.bind (hex_value u) (\<lambda>high.
        Option.bind (slice_get units (offset + 2)) (\<lambda>u. Option.bind (hex_value u) (\<lambda>low.
          Some (push_bit 4 high OR low))))))"

definition utf8_sequence_width :: "u8 \<Rightarrow> usize option" where
  "utf8_sequence_width first =
     (if first \<le> 0x7F then Some 1
      else if 0xC2 \<le> first \<and> first \<le> 0xDF then Some 2
      else if 0xE0 \<le> first \<and> first \<le> 0xEF then Some 3
      else if 0xF0 \<le> first \<and> first \<le> 0xF4 then Some 4
      else None)"

text \<open>The \<open>for index in 1..width\<close> loop over the continuation octets.\<close>

fun continuation :: "u16 list \<Rightarrow> usize \<Rightarrow> usize list \<Rightarrow> u32 \<Rightarrow> u32 option" where
  "continuation units offset [] scalar = Some scalar"
| "continuation units offset (index # indices) scalar =
     (case percent_octet units (offset + index * 3) of
        None \<Rightarrow> None
      | Some octet \<Rightarrow>
          if \<not> (0x80 \<le> octet \<and> octet \<le> 0xBF) then None
          else continuation units offset indices (push_bit 6 scalar OR ucast (octet AND 0x3F)))"

definition decode_percent_scalar :: "u16 list \<Rightarrow> usize \<Rightarrow> (u32 \<times> usize) option" where
  "decode_percent_scalar units offset =
     Option.bind (percent_octet units offset) (\<lambda>first.
     Option.bind (utf8_sequence_width first) (\<lambda>width.
     Option.bind (continuation units offset [1..<width]
         (if width = 1 then ucast first else ucast (first AND drop_bit width 0x7F))) (\<lambda>scalar.
       let minimum = (if width = 1 then 0 else if width = 2 then 0x80 else if width = 3 then 0x800 else 0x10000) in
       if scalar < minimum \<or> (0xD800 \<le> scalar \<and> scalar \<le> 0xDFFF) \<or> scalar > 0x10FFFF then None
       else Some (scalar, width * 3))))"

definition push_scalar :: "u32 \<Rightarrow> EcmaStringBuilder \<Rightarrow> EcmaStringBuilder" where
  "push_scalar scalar b =
     (if scalar \<le> 0xFFFF then push_unit (ucast scalar) b
      else let supplementary = scalar - 0x10000
           in push_unit (0xDC00 OR ucast (supplementary AND 0x3FF))
                (push_unit (0xD800 OR ucast (drop_bit 10 supplementary)) b))"

lemma decode_percent_scalar_consumes: "decode_percent_scalar units offset = Some (c, n) \<Longrightarrow> 0 < n"
  by (auto simp: decode_percent_scalar_def utf8_sequence_width_def Let_def bind_eq_Some_conv split: if_splits)

function uri_decode_from :: "bool \<Rightarrow> u16 list \<Rightarrow> EcmaStringBuilder \<Rightarrow> (EcmaString, unit) result" where
  "uri_decode_from preserve_reserved [] output = Ok (finish output)"
| "uri_decode_from preserve_reserved (unit # units) output =
     (if unit \<noteq> 0x25 then uri_decode_from preserve_reserved units (push_unit unit output)
      else (case decode_percent_scalar (unit # units) 0 of
          None \<Rightarrow> Err ()
        | Some (scalar, consumed) \<Rightarrow>
            uri_decode_from preserve_reserved (drop consumed (unit # units))
              (if preserve_reserved \<and> scalar \<le> 0xFF \<and> ucast scalar \<in> set URI_RESERVED
               then fold push_unit (take consumed (unit # units)) output
               else push_scalar scalar output)))"
  by pat_completeness auto
termination
  by (relation "measure (\<lambda>(preserve_reserved, units, output). length units)")
    (auto dest: decode_percent_scalar_consumes)

definition uri_decode :: "EcmaString \<Rightarrow> bool \<Rightarrow> (EcmaString, unit) result" where
  "uri_decode source preserve_reserved = uri_decode_from preserve_reserved source builder_new"

section \<open>Escape and unescape\<close>

definition escape_unit :: "u16 \<Rightarrow> EcmaStringBuilder \<Rightarrow> EcmaStringBuilder" where
  "escape_unit unit b =
     (if is_ascii_alphanumeric unit \<or> (unit \<le> 0xFF \<and> ucast unit \<in> set ESCAPE_UNESCAPED)
      then push_unit unit b
      else if unit \<le> 0xFF then push_percent_octet (ucast unit) b
      else push_unit (ucast (HEX ! unat (unit AND 0x0F)))
        (push_unit (ucast (HEX ! unat (drop_bit 4 unit AND 0x0F)))
          (push_unit (ucast (HEX ! unat (drop_bit 8 unit AND 0x0F)))
            (push_unit (ucast (HEX ! unat (drop_bit 12 unit AND 0x0F)))
              (push_utf8 [0x25, 0x75] b)))))"

definition escape_units :: "EcmaString \<Rightarrow> EcmaString" where
  "escape_units source = finish (fold escape_unit source builder_new)"

text \<open>The \<open>try_fold\<close> over the four digits after \<open>%u\<close>.\<close>

fun hex_fold :: "u16 list \<Rightarrow> usize list \<Rightarrow> u16 \<Rightarrow> u16 option" where
  "hex_fold units [] val = Some val"
| "hex_fold units (index # indices) val =
     Option.bind (slice_get units (index + 2)) (\<lambda>u. Option.bind (hex_value u) (\<lambda>digit.
       hex_fold units indices (push_bit 4 val OR ucast digit)))"

definition percent_u :: "u16 list \<Rightarrow> u16 option" where
  "percent_u units =
     (if slice_get units 0 = Some 0x25 \<and> slice_get units 1 = Some 0x75
      then hex_fold units [0, 1, 2, 3] 0 else None)"

function unescape_from :: "u16 list \<Rightarrow> EcmaStringBuilder \<Rightarrow> EcmaString" where
  "unescape_from [] output = finish output"
| "unescape_from (unit # units) output =
     (case percent_u (unit # units) of
        Some decoded \<Rightarrow> unescape_from (drop 6 (unit # units)) (push_unit decoded output)
      | None \<Rightarrow>
          (case percent_octet (unit # units) 0 of
             Some octet \<Rightarrow> unescape_from (drop 3 (unit # units)) (push_unit (ucast octet) output)
           | None \<Rightarrow> unescape_from units (push_unit unit output)))"
  by pat_completeness auto
termination
  by (relation "measure (\<lambda>(units, output). length units)") auto

definition unescape_units :: "EcmaString \<Rightarrow> EcmaString" where
  "unescape_units source = unescape_from source builder_new"

section \<open>Words and nibbles\<close>

lemma unat_u8_bound: "unat (b :: u8) < 256"
  using unsigned_less [of b, where ?'a = nat] by simp

lemma unat_marker:
  "unat (x :: u8) < 64 \<Longrightarrow> unat (0x80 OR x) = 128 + unat x"
  "unat (x :: u8) < 32 \<Longrightarrow> unat (0xC0 OR x) = 192 + unat x"
  "unat (x :: u8) < 16 \<Longrightarrow> unat (0xE0 OR x) = 224 + unat x"
  "unat (x :: u8) < 8 \<Longrightarrow> unat (0xF0 OR x) = 240 + unat x"
  using or_low [of x 6 2] or_low [of x 5 6] or_low [of x 4 14] or_low [of x 3 30]
  by (simp_all add: unat_word_ariths)

lemma unat_shift6:
  assumes "unat (s :: u32) < 2 ^ 26" and "unat (x :: u32) < 64"
  shows "unat (push_bit 6 s OR x) = unat s * 64 + unat x"
proof -
  have "unat (push_bit 6 s) = unat s * 64"
    using assms(1) by (simp add: push_bit_eq_mult unat_word_ariths)
  then show ?thesis using assms or_low [of x 6 s] by (simp add: unat_word_ariths)
qed

lemma unat_ucast_octet: "unat (ucast (c :: 'a::len word) :: u8) = unat c mod 256"
  by (simp add: unsigned_ucast_eq) (simp add: take_bit_eq_mod)

lemma unat_ucast_of_u8: "unat (ucast (b :: u8) :: u32) = unat b" "unat (ucast (b :: u8) :: u16) = unat b"
  using unat_u8_bound [of b] by (simp_all add: unsigned_ucast_eq take_bit_nat_eq_self)

section \<open>Percent triples\<close>

definition pct :: "u8 \<Rightarrow> u16 list" where
  "pct b = [0x25, ucast (HEX ! (unat b div 16)), ucast (HEX ! (unat b mod 16))]"

lemma push_percent_octet_pct: "push_percent_octet b out = out @ pct b"
  by (simp add: push_percent_octet_def push_unit_def pct_def unat_and_mask unat_drop)

lemma length_pct [simp]: "length (pct b) = 3"
  by (simp add: pct_def)

lemma hex_value_HEX: "n < 16 \<Longrightarrow> hex_value (ucast (HEX ! n)) = Some (word_of_nat n)"
proof -
  assume "n < 16"
  moreover have "list_all (\<lambda>n. hex_value (ucast (HEX ! n)) = Some (word_of_nat n)) [0..<16]"
    by code_simp
  ultimately show ?thesis by (simp add: list_all_iff)
qed

lemma slice_get_drop: "slice_get us (k + i) = slice_get (drop k us) i"
  by (auto simp: slice_get_def)

lemma percent_octet_drop: "percent_octet us (k + i) = percent_octet (drop k us) i"
  by (simp only: percent_octet_def add.assoc slice_get_drop)

lemma nibbles: "push_bit 4 (word_of_nat (unat b div 16)) OR word_of_nat (unat b mod 16) = (b :: u8)"
proof -
  have "unat (word_of_nat (unat b mod 16) :: u8) < 2 ^ 4" by (simp add: unat_of_nat)
  from or_low [OF this, of "word_of_nat (unat b div 16)"] show ?thesis
    using unat_u8_bound [of b]
    by (simp add: word_unat_eq_iff push_bit_eq_mult unat_word_ariths unat_of_nat)
qed

lemma percent_octet_pct: "percent_octet (pct b @ us) 0 = Some b"
  using unat_u8_bound [of b]
  by (simp add: percent_octet_def slice_get_def pct_def hex_value_HEX nibbles)

section \<open>UTF-8\<close>

definition utf8_nat :: "nat \<Rightarrow> nat list" where
  "utf8_nat n =
     (if n < 0x80 then [n]
      else if n < 0x800 then [192 + n div 64, 128 + n mod 64]
      else if n < 0x10000 then [224 + n div 4096, 128 + n div 64 mod 64, 128 + n mod 64]
      else [240 + n div 262144, 128 + n div 4096 mod 64, 128 + n div 64 mod 64, 128 + n mod 64])"

definition utf8 :: "u32 \<Rightarrow> u8 list" where
  "utf8 c = map word_of_nat (utf8_nat (unat c))"

lemma word_le_unat:
  "(c :: u32) \<le> 0x7F \<longleftrightarrow> unat c < 0x80" "c \<le> 0x7FF \<longleftrightarrow> unat c < 0x800" "c \<le> 0xFFFF \<longleftrightarrow> unat c < 0x10000"
  by (auto simp: word_le_nat_alt)

lemma octet_eqI: "unat (x :: u8) = n \<Longrightarrow> x = word_of_nat n"
  by auto

lemma push_utf8_percent_encoded_pct:
  assumes "unat c < 0x110000"
  shows "push_utf8_percent_encoded c out = out @ concat (map pct (utf8 c))"
proof -
  note simps = push_percent_octet_pct utf8_def utf8_nat_def push_utf8_percent_encoded_def word_le_unat Let_def
    unat_ucast_octet unat_and_mask unat_drop unat_marker
  consider "unat c < 0x80" | "0x80 \<le> unat c" "unat c < 0x800" | "0x800 \<le> unat c" "unat c < 0x10000"
    | "0x10000 \<le> unat c" by linarith
  then show ?thesis
  proof cases
    case 1
    then have "ucast c = (word_of_nat (unat c) :: u8)" by (intro octet_eqI) (simp add: simps)
    with 1 show ?thesis by (simp add: simps)
  next
    case 2
    then have "0xC0 OR ucast (drop_bit 6 c) = (word_of_nat (192 + unat c div 64) :: u8)"
      "0x80 OR ucast (c AND 0x3F) = (word_of_nat (128 + unat c mod 64) :: u8)"
      by (intro octet_eqI, subst unat_marker; simp add: simps)+
    with 2 show ?thesis by (simp add: simps)
  next
    case 3
    then have "0xE0 OR ucast (drop_bit 12 c) = (word_of_nat (224 + unat c div 4096) :: u8)"
      "0x80 OR ucast (drop_bit 6 c AND 0x3F) = (word_of_nat (128 + unat c div 64 mod 64) :: u8)"
      "0x80 OR ucast (c AND 0x3F) = (word_of_nat (128 + unat c mod 64) :: u8)"
      by (intro octet_eqI, subst unat_marker; simp add: simps)+
    with 3 show ?thesis by (simp add: simps)
  next
    case 4
    with assms have "0xF0 OR ucast (drop_bit 18 c) = (word_of_nat (240 + unat c div 262144) :: u8)"
      "0x80 OR ucast (drop_bit 12 c AND 0x3F) = (word_of_nat (128 + unat c div 4096 mod 64) :: u8)"
      "0x80 OR ucast (drop_bit 6 c AND 0x3F) = (word_of_nat (128 + unat c div 64 mod 64) :: u8)"
      "0x80 OR ucast (c AND 0x3F) = (word_of_nat (128 + unat c mod 64) :: u8)"
      by (intro octet_eqI, subst unat_marker; simp add: simps)+
    with 4 show ?thesis by (simp add: simps)
  qed
qed

text \<open>The value of a sequence, octet by octet.\<close>

abbreviation is_cont :: "u8 \<Rightarrow> bool" where
  "is_cont b \<equiv> 128 \<le> unat b \<and> unat b < 192"

lemma mod_offset:
  assumes "k * m \<le> n" and "n < k * m + m"
  shows "n mod m = n - k * (m :: nat)"
proof -
  from assms(1) obtain r where "n = k * m + r" using le_Suc_ex by blast
  with assms(2) show ?thesis by simp
qed

lemma unat_continue:
  assumes "unat s < 2 ^ 26" and "is_cont b"
  shows "unat (push_bit 6 s OR ucast (b AND 0x3F) :: u32) = unat s * 64 + (unat b - 128)"
proof -
  have "unat (ucast (b AND 0x3F) :: u32) = unat b - 128"
    using assms(2) mod_offset [of 2 64 "unat b"] by (simp add: unat_ucast_of_u8 unat_and_mask)
  with assms show ?thesis by (subst unat_shift6) auto
qed

lemma unat_lead:
  "192 \<le> unat (b :: u8) \<Longrightarrow> unat b < 224 \<Longrightarrow> unat (ucast (b AND 0x1F) :: u32) = unat b - 192"
  "224 \<le> unat b \<Longrightarrow> unat b < 240 \<Longrightarrow> unat (ucast (b AND 0x0F) :: u32) = unat b - 224"
  "240 \<le> unat b \<Longrightarrow> unat b < 248 \<Longrightarrow> unat (ucast (b AND 0x7) :: u32) = unat b - 240"
  using mod_offset [of 6 32 "unat b"] mod_offset [of 14 16 "unat b"] mod_offset [of 30 8 "unat b"]
  by (simp_all add: unat_ucast_of_u8 unat_and_mask)

lemma octet_ranges:
  "(b :: u8) \<le> 0x7F \<longleftrightarrow> unat b < 128" "0xC2 \<le> b \<longleftrightarrow> 194 \<le> unat b" "b \<le> 0xDF \<longleftrightarrow> unat b < 224"
  "0xE0 \<le> b \<longleftrightarrow> 224 \<le> unat b" "b \<le> 0xEF \<longleftrightarrow> unat b < 240" "0xF0 \<le> b \<longleftrightarrow> 240 \<le> unat b"
  "b \<le> 0xF4 \<longleftrightarrow> unat b < 245" "0x80 \<le> b \<longleftrightarrow> 128 \<le> unat b" "b \<le> 0xBF \<longleftrightarrow> unat b < 192"
  by (auto simp: word_le_nat_alt)

lemma scalar_check:
  "m = 0x80 \<or> m = 0x800 \<or> m = 0x10000 \<Longrightarrow>
    (if c < m \<or> (0xD800 \<le> c \<and> c \<le> 0xDFFF) \<or> c > 0x10FFFF then None else Some x) =
    (if is_scalar c \<and> unat m \<le> unat c then Some x else None)"
  by (auto simp: is_scalar_def word_le_nat_alt word_less_nat_alt)

lemma upt_small: "[Suc 0..<2] = [1]" "[Suc 0..<3] = [1, 2]" "[Suc 0..<4] = [1, 2, 3]" "[Suc 0..<Suc 0] = []"
  by (simp_all add: upt_rec)

text \<open>Decoding, width by width.\<close>

lemma decode_scalar_cases:
  "decode_percent_scalar us k = (case percent_octet us k of
     None \<Rightarrow> None
   | Some a \<Rightarrow>
       if unat a < 128 then Some (ucast a, 3)
       else if 194 \<le> unat a \<and> unat a < 224 then
         Option.bind (continuation us k [1] (ucast (a AND 0x1F))) (\<lambda>c.
           if is_scalar c \<and> 0x80 \<le> unat c then Some (c, 6) else None)
       else if 224 \<le> unat a \<and> unat a < 240 then
         Option.bind (continuation us k [1, 2] (ucast (a AND 0x0F))) (\<lambda>c.
           if is_scalar c \<and> 0x800 \<le> unat c then Some (c, 9) else None)
       else if 240 \<le> unat a \<and> unat a < 245 then
         Option.bind (continuation us k [1, 2, 3] (ucast (a AND 0x7))) (\<lambda>c.
           if is_scalar c \<and> 0x10000 \<le> unat c then Some (c, 12) else None)
       else None)"
proof (cases "percent_octet us k")
  case (Some a)
  note simps = decode_percent_scalar_def utf8_sequence_width_def octet_ranges upt_small scalar_check Some
  consider "unat a < 128" | "194 \<le> unat a" "unat a < 224" | "224 \<le> unat a" "unat a < 240"
    | "240 \<le> unat a" "unat a < 245" | "128 \<le> unat a" "unat a < 194 \<or> 245 \<le> unat a" by linarith
  then show ?thesis
  proof cases
    case 1
    then have "is_scalar (ucast a)" by (simp add: is_scalar_unat unat_ucast_of_u8)
    with 1 show ?thesis by (simp add: simps is_scalar_def not_less)
  qed (simp_all add: simps del: continuation.simps cong: if_cong)
qed (simp add: decode_percent_scalar_def)

lemma continuation_Cons:
  "continuation us k (i # is) s = Some c \<longleftrightarrow>
     (\<exists>b. percent_octet us (k + i * 3) = Some b \<and> is_cont b \<and>
        continuation us k is (push_bit 6 s OR ucast (b AND 0x3F)) = Some c)"
  by (auto simp: octet_ranges split: option.splits)

declare continuation.simps [simp del]

lemma continuation_value:
  assumes "unat s < m" and "m * 64 \<le> 2 ^ 32"
    and rest: "\<And>s'. unat s' < m * 64 \<Longrightarrow> continuation us k is s' = Some c \<longleftrightarrow> R (unat s')"
  shows "continuation us k (i # is) s = Some c \<longleftrightarrow>
    (\<exists>b. percent_octet us (k + i * 3) = Some b \<and> is_cont b \<and> R (unat s * 64 + (unat b - 128)))"
proof -
  have small: "unat s * 64 + (unat b - 128) < m * 64" if "is_cont b" for b :: u8
    using that assms(1) by arith
  have "continuation us k is (push_bit 6 s OR ucast (b AND 0x3F)) = Some c \<longleftrightarrow> R (unat s * 64 + (unat b - 128))"
    if b: "is_cont b" for b
  proof -
    have "unat (push_bit 6 s OR ucast (b AND 0x3F) :: u32) = unat s * 64 + (unat b - 128)"
      using assms(1,2) b by (intro unat_continue) auto
    with rest [of "push_bit 6 s OR ucast (b AND 0x3F)"] small [OF b] show ?thesis by simp
  qed
  then show ?thesis unfolding continuation_Cons by blast
qed

lemma continuation_Nil: "continuation us k [] s = Some c \<longleftrightarrow> unat c = unat s"
  by (auto simp: continuation.simps word_unat_eq_iff)

lemma continuation_1:
  assumes "unat s < m" and "m * 64 \<le> 2 ^ 32"
  shows "continuation us k [i] s = Some c \<longleftrightarrow>
    (\<exists>b. percent_octet us (k + i * 3) = Some b \<and> is_cont b \<and> unat c = unat s * 64 + (unat b - 128))"
  by (rule continuation_value [OF assms, where R = "\<lambda>v. unat c = v"]) (rule continuation_Nil)

lemma continuation_2:
  assumes "unat s < m" and "m * 4096 \<le> 2 ^ 32"
  shows "continuation us k [i, j] s = Some c \<longleftrightarrow>
    (\<exists>b. percent_octet us (k + i * 3) = Some b \<and> is_cont b \<and>
      (\<exists>b'. percent_octet us (k + j * 3) = Some b' \<and> is_cont b' \<and>
        unat c = (unat s * 64 + (unat b - 128)) * 64 + (unat b' - 128)))"
  using assms
  by (intro continuation_value [where m = m and R = "\<lambda>v. \<exists>b'. percent_octet us (k + j * 3) = Some b' \<and> is_cont b' \<and>
      unat c = v * 64 + (unat b' - 128)"] continuation_1) auto

lemma continuation_3:
  assumes "unat s < m" and "m * 262144 \<le> 2 ^ 32"
  shows "continuation us k [i, j, l] s = Some c \<longleftrightarrow>
    (\<exists>b. percent_octet us (k + i * 3) = Some b \<and> is_cont b \<and>
      (\<exists>b'. percent_octet us (k + j * 3) = Some b' \<and> is_cont b' \<and>
        (\<exists>b''. percent_octet us (k + l * 3) = Some b'' \<and> is_cont b'' \<and>
          unat c = ((unat s * 64 + (unat b - 128)) * 64 + (unat b' - 128)) * 64 + (unat b'' - 128))))"
  using assms
  by (intro continuation_value [where m = m and R = "\<lambda>v. \<exists>b'. percent_octet us (k + j * 3) = Some b' \<and> is_cont b' \<and>
      (\<exists>b''. percent_octet us (k + l * 3) = Some b'' \<and> is_cont b'' \<and>
        unat c = (v * 64 + (unat b' - 128)) * 64 + (unat b'' - 128))"] continuation_2) auto

lemma utf8_eqI: "utf8_nat (unat c) = map unat bs \<Longrightarrow> utf8 c = bs"
  by (simp add: utf8_def map_idI)

lemma divs: "(n :: nat) div 4096 = n div 64 div 64" "n div 262144 = n div 64 div 64 div 64"
  by (simp_all flip: div_mult2_eq)

lemma utf8_nat_sequences:
  "2 \<le> x \<Longrightarrow> x < 32 \<Longrightarrow> y < 64 \<Longrightarrow> utf8_nat (x * 64 + y) = [192 + x, 128 + y]"
  "x < 16 \<Longrightarrow> y < 64 \<Longrightarrow> z < 64 \<Longrightarrow> 0x800 \<le> (x * 64 + y) * 64 + z \<Longrightarrow>
    utf8_nat ((x * 64 + y) * 64 + z) = [224 + x, 128 + y, 128 + z]"
  "y < 64 \<Longrightarrow> z < 64 \<Longrightarrow> w < 64 \<Longrightarrow> 0x10000 \<le> ((x * 64 + y) * 64 + z) * 64 + w \<Longrightarrow>
    utf8_nat (((x * 64 + y) * 64 + z) * 64 + w) = [240 + x, 128 + y, 128 + z, 128 + w]"
proof -
  have *: "r < 64 \<Longrightarrow> (q * 64 + r) div 64 = q" "r < 64 \<Longrightarrow> (q * 64 + r) mod 64 = r" for q r :: nat by simp_all
  show "utf8_nat (x * 64 + y) = [192 + x, 128 + y]" if "2 \<le> x" "x < 32" "y < 64"
    using that by (simp add: utf8_nat_def)
  show "utf8_nat ((x * 64 + y) * 64 + z) = [224 + x, 128 + y, 128 + z]"
    if a: "x < 16" "y < 64" "z < 64" "0x800 \<le> (x * 64 + y) * 64 + z"
  proof -
    have "x * 64 + y \<le> 1023" using a(1,2) by simp
    then have "(x * 64 + y) * 64 \<le> 1023 * 64" by (rule mult_le_mono1)
    then have "\<not> (x * 64 + y) * 64 + z < 0x800" "\<not> (x * 64 + y) * 64 + z < 0x80" "(x * 64 + y) * 64 + z < 0x10000"
      using a(3,4) by simp_all
    then show ?thesis by (simp only: utf8_nat_def if_True if_False divs * a)
  qed
  show "utf8_nat (((x * 64 + y) * 64 + z) * 64 + w) = [240 + x, 128 + y, 128 + z, 128 + w]"
    if a: "y < 64" "z < 64" "w < 64" "0x10000 \<le> ((x * 64 + y) * 64 + z) * 64 + w"
  proof -
    have "\<not> ((x * 64 + y) * 64 + z) * 64 + w < 0x800" "\<not> ((x * 64 + y) * 64 + z) * 64 + w < 0x80"
      "\<not> ((x * 64 + y) * 64 + z) * 64 + w < 0x10000"
      using a by linarith+
    then show ?thesis by (simp only: utf8_nat_def if_True if_False divs * a)
  qed
qed

lemma utf8_sequences:
  "194 \<le> unat a \<Longrightarrow> unat a < 224 \<Longrightarrow> is_cont b \<Longrightarrow> unat c = (unat a - 192) * 64 + (unat b - 128) \<Longrightarrow>
    utf8 c = [a, b]"
  "224 \<le> unat a \<Longrightarrow> unat a < 240 \<Longrightarrow> is_cont b \<Longrightarrow> is_cont b' \<Longrightarrow> 0x800 \<le> unat c \<Longrightarrow>
    unat c = ((unat a - 224) * 64 + (unat b - 128)) * 64 + (unat b' - 128) \<Longrightarrow> utf8 c = [a, b, b']"
  "240 \<le> unat a \<Longrightarrow> is_cont b \<Longrightarrow> is_cont b' \<Longrightarrow> is_cont b'' \<Longrightarrow> 0x10000 \<le> unat c \<Longrightarrow>
    unat c = (((unat a - 240) * 64 + (unat b - 128)) * 64 + (unat b' - 128)) * 64 + (unat b'' - 128) \<Longrightarrow>
    utf8 c = [a, b, b', b'']"
  by (rule utf8_eqI; simp only: ; subst utf8_nat_sequences; simp; linarith)+

abbreviation octets_at :: "u16 list \<Rightarrow> usize \<Rightarrow> nat \<Rightarrow> u8 option list" where
  "octets_at us k n \<equiv> map (\<lambda>i. percent_octet us (k + i * 3)) [0..<n]"

lemma bind_check:
  "Option.bind x (\<lambda>c. if P c then Some (c, m) else None) = Some (c, n) \<longleftrightarrow> x = Some c \<and> P c \<and> n = m"
  by (cases x) auto

text \<open>The shapes of an accepted sequence, as equations on octets.\<close>

lemma decode_scalar_iff:
  "decode_percent_scalar us k = Some (c, n) \<longleftrightarrow> (\<exists>a. percent_octet us k = Some a \<and>
     (unat a < 128 \<and> c = ucast a \<and> n = 3 \<or>
      194 \<le> unat a \<and> unat a < 224 \<and> is_scalar c \<and> 0x80 \<le> unat c \<and> n = 6 \<and>
        (\<exists>b. percent_octet us (k + 3) = Some b \<and> is_cont b \<and> unat c = (unat a - 192) * 64 + (unat b - 128)) \<or>
      224 \<le> unat a \<and> unat a < 240 \<and> is_scalar c \<and> 0x800 \<le> unat c \<and> n = 9 \<and>
        (\<exists>b. percent_octet us (k + 3) = Some b \<and> is_cont b \<and>
          (\<exists>b'. percent_octet us (k + 6) = Some b' \<and> is_cont b' \<and>
            unat c = ((unat a - 224) * 64 + (unat b - 128)) * 64 + (unat b' - 128))) \<or>
      240 \<le> unat a \<and> unat a < 245 \<and> is_scalar c \<and> 0x10000 \<le> unat c \<and> n = 12 \<and>
        (\<exists>b. percent_octet us (k + 3) = Some b \<and> is_cont b \<and>
          (\<exists>b'. percent_octet us (k + 6) = Some b' \<and> is_cont b' \<and>
            (\<exists>b''. percent_octet us (k + 9) = Some b'' \<and> is_cont b'' \<and>
              unat c = (((unat a - 240) * 64 + (unat b - 128)) * 64 + (unat b' - 128)) * 64 + (unat b'' - 128))))))"
proof (cases "percent_octet us k")
  case (Some a)
  consider "unat a < 128" | "194 \<le> unat a" "unat a < 224" | "224 \<le> unat a" "unat a < 240"
    | "240 \<le> unat a" "unat a < 245" | "128 \<le> unat a" "unat a < 194 \<or> 245 \<le> unat a" by linarith
  then show ?thesis
  proof cases
    case 1
    then show ?thesis using Some by (auto simp: decode_scalar_cases)
  next
    case 2
    have l: "unat (ucast (a AND 0x1F) :: u32) = unat a - 192" using 2 by (intro unat_lead) simp_all
    have "unat (ucast (a AND 0x1F) :: u32) < 64" unfolding l using 2 by simp
    note c = continuation_1 [OF this, of us k 1 c, unfolded l, simplified]
    show ?thesis using 2 Some by (simp add: decode_scalar_cases bind_check c) blast
  next
    case 3
    have l: "unat (ucast (a AND 0x0F) :: u32) = unat a - 224" using 3 by (intro unat_lead) simp_all
    have "unat (ucast (a AND 0x0F) :: u32) < 64" unfolding l using 3 by simp
    note c = continuation_2 [OF this, of us k 1 2 c, unfolded l, simplified]
    show ?thesis using 3 Some by (simp add: decode_scalar_cases bind_check c) blast
  next
    case 4
    have l: "unat (ucast (a AND 0x7) :: u32) = unat a - 240" using 4 by (intro unat_lead) simp_all
    have "unat (ucast (a AND 0x7) :: u32) < 64" unfolding l using 4 by simp
    note c = continuation_3 [OF this, of us k 1 2 3 c, unfolded l, simplified]
    show ?thesis using 4 Some by (simp add: decode_scalar_cases bind_check c) blast
  next
    case 5
    then show ?thesis using Some by (auto simp: decode_scalar_cases)
  qed
qed (simp add: decode_scalar_cases)

lemma unat_octet: "n < 256 \<Longrightarrow> unat (word_of_nat n :: u8) = n"
  by (simp add: unat_of_nat)

lemma utf8_ascii: "unat a < 128 \<Longrightarrow> utf8 (ucast (a :: u8)) = [a] \<and> is_scalar (ucast a)"
  by (auto intro!: utf8_eqI simp: utf8_nat_def unat_ucast_of_u8 is_scalar_unat)

lemma utf8_cases:
  assumes "unat c < 0x110000"
  obtains
    (one) a where "utf8 c = [a]" "unat a < 128" "c = ucast a"
  | (two) a b where "utf8 c = [a, b]" "194 \<le> unat a" "unat a < 224" "is_cont b" "0x80 \<le> unat c"
      "unat c = (unat a - 192) * 64 + (unat b - 128)"
  | (three) a b b' where "utf8 c = [a, b, b']" "224 \<le> unat a" "unat a < 240" "is_cont b" "is_cont b'"
      "0x800 \<le> unat c" "unat c = ((unat a - 224) * 64 + (unat b - 128)) * 64 + (unat b' - 128)"
  | (four) a b b' b'' where "utf8 c = [a, b, b', b'']" "240 \<le> unat a" "unat a < 245" "is_cont b" "is_cont b'"
      "is_cont b''" "0x10000 \<le> unat c"
      "unat c = (((unat a - 240) * 64 + (unat b - 128)) * 64 + (unat b' - 128)) * 64 + (unat b'' - 128)"
proof -
  let ?n = "unat c"
  let ?w = "\<lambda>n. word_of_nat n :: u8"
  have cont: "unat (?w (128 + r mod 64)) = 128 + r mod 64" for r by (rule unat_octet) simp
  have split: "?n = ?n div 64 * 64 + ?n mod 64" "?n div 64 = ?n div 64 div 64 * 64 + ?n div 64 mod 64"
    "?n div 64 div 64 = ?n div 64 div 64 div 64 * 64 + ?n div 64 div 64 mod 64" by simp_all
  consider "?n < 0x80" | "0x80 \<le> ?n" "?n < 0x800" | "0x800 \<le> ?n" "?n < 0x10000" | "0x10000 \<le> ?n" by linarith
  then show thesis
  proof cases
    case 1
    show thesis
      by (rule one [of "?w ?n"]) (use 1 in \<open>simp_all add: utf8_def utf8_nat_def unat_octet word_unat_eq_iff unat_ucast_of_u8 unat_ucast_octet\<close>)
  next
    case 2
    then have "?n div 64 < 32" "2 \<le> ?n div 64" by (auto simp: div_less_iff_less_mult less_eq_div_iff_mult_less_eq)
    moreover from this have "unat (?w (192 + ?n div 64)) = 192 + ?n div 64" by (intro unat_octet) simp
    ultimately show thesis
      using 2 by (intro two [of "?w (192 + ?n div 64)" "?w (128 + ?n mod 64)"])
        (simp_all only: cont, simp_all add: utf8_def utf8_nat_def)
  next
    case 3
    then have "?n div 64 div 64 < 16" by (simp add: div_less_iff_less_mult)
    moreover from this have "unat (?w (224 + ?n div 64 div 64)) = 224 + ?n div 64 div 64" by (intro unat_octet) simp
    ultimately show thesis
      using 3 split by (intro three [of "?w (224 + ?n div 64 div 64)" "?w (128 + ?n div 64 mod 64)" "?w (128 + ?n mod 64)"])
        (simp_all only: cont, simp_all add: utf8_def utf8_nat_def divs)
  next
    case 4
    then have "?n div 64 div 64 div 64 < 5" using assms by (simp add: div_less_iff_less_mult)
    moreover from this have "unat (?w (240 + ?n div 64 div 64 div 64)) = 240 + ?n div 64 div 64 div 64"
      by (intro unat_octet) simp
    ultimately show thesis
      using 4 split by (intro four [of "?w (240 + ?n div 64 div 64 div 64)" "?w (128 + ?n div 64 div 64 mod 64)"
          "?w (128 + ?n div 64 mod 64)" "?w (128 + ?n mod 64)"])
        (simp_all only: cont, simp_all add: utf8_def utf8_nat_def divs)
  qed
qed

lemma octets_at_Suc:
  "octets_at us k (Suc 0) = [percent_octet us k]"
  "octets_at us k (Suc (Suc 0)) = [percent_octet us k, percent_octet us (k + 3)]"
  "octets_at us k (Suc (Suc (Suc 0))) = [percent_octet us k, percent_octet us (k + 3), percent_octet us (k + 6)]"
  "octets_at us k (Suc (Suc (Suc (Suc 0)))) =
     [percent_octet us k, percent_octet us (k + 3), percent_octet us (k + 6), percent_octet us (k + 9)]"
  by simp_all

lemma decode_percent_scalar_sound:
  assumes "decode_percent_scalar us k = Some (c, n)"
  shows "is_scalar c \<and> n = length (utf8 c) * 3 \<and> octets_at us k (length (utf8 c)) = map Some (utf8 c)"
  using assms [unfolded decode_scalar_iff]
proof (elim disjE conjE exE)
  fix a assume "percent_octet us k = Some a" "unat a < 128" "c = ucast a" "n = 3"
  with utf8_ascii [of a] show ?thesis by (simp add: octets_at_Suc)
next
  fix a b assume *: "194 \<le> unat a" "unat a < 224" "128 \<le> unat b" "unat b < 192"
    "unat c = (unat a - 192) * 64 + (unat b - 128)"
    and "percent_octet us k = Some a" "percent_octet us (k + 3) = Some b" "is_scalar c" "n = 6"
  moreover have "utf8 c = [a, b]" using * by (intro utf8_sequences) auto
  ultimately show ?thesis by (simp add: octets_at_Suc)
next
  fix a b b' assume *: "224 \<le> unat a" "unat a < 240" "128 \<le> unat b" "unat b < 192" "128 \<le> unat b'" "unat b' < 192"
    "0x800 \<le> unat c" "unat c = ((unat a - 224) * 64 + (unat b - 128)) * 64 + (unat b' - 128)"
    and "percent_octet us k = Some a" "percent_octet us (k + 3) = Some b" "percent_octet us (k + 6) = Some b'"
      "is_scalar c" "n = 9"
  moreover have "utf8 c = [a, b, b']" using * by (intro utf8_sequences) auto
  ultimately show ?thesis by (simp add: octets_at_Suc)
next
  fix a b b' b'' assume *: "240 \<le> unat a" "128 \<le> unat b" "unat b < 192" "128 \<le> unat b'" "unat b' < 192"
    "128 \<le> unat b''" "unat b'' < 192" "0x10000 \<le> unat c"
    "unat c = (((unat a - 240) * 64 + (unat b - 128)) * 64 + (unat b' - 128)) * 64 + (unat b'' - 128)"
    and "percent_octet us k = Some a" "percent_octet us (k + 3) = Some b" "percent_octet us (k + 6) = Some b'"
      "percent_octet us (k + 9) = Some b''" "is_scalar c" "n = 12"
  moreover have "utf8 c = [a, b, b', b'']" using * by (intro utf8_sequences) auto
  ultimately show ?thesis by (simp add: octets_at_Suc)
qed

lemma decode_percent_scalar_complete:
  assumes c: "is_scalar c" and o: "octets_at us k (length (utf8 c)) = map Some (utf8 c)"
  shows "decode_percent_scalar us k = Some (c, length (utf8 c) * 3)"
proof -
  from c have "unat c < 0x110000" by (simp add: is_scalar_unat)
  then show ?thesis
  proof (cases rule: utf8_cases)
    case (one a)
    then have "percent_octet us k = Some a" using o by (simp add: octets_at_Suc)
    with one show ?thesis unfolding decode_scalar_iff by simp
  next
    case (two a b)
    have "percent_octet us k = Some a" "percent_octet us (k + 3) = Some b" using o two(1) by (simp_all add: octets_at_Suc)
    with c two show ?thesis unfolding decode_scalar_iff by simp
  next
    case (three a b b')
    have "percent_octet us k = Some a" "percent_octet us (k + 3) = Some b" "percent_octet us (k + 6) = Some b'"
      using o three(1) by (simp_all add: octets_at_Suc)
    moreover have n: "length (utf8 c) * 3 = 9" by (simp add: three(1))
    ultimately show ?thesis using c three(2-) unfolding decode_scalar_iff n by blast
  next
    case (four a b b' b'')
    have "percent_octet us k = Some a" "percent_octet us (k + 3) = Some b" "percent_octet us (k + 6) = Some b'"
      "percent_octet us (k + 9) = Some b''"
      using o four(1) by (simp_all add: octets_at_Suc)
    moreover have n: "length (utf8 c) * 3 = 12" by (simp add: four(1))
    ultimately show ?thesis using c four(2-) unfolding decode_scalar_iff n by blast
  qed
qed

lemma decode_percent_scalar_iff:
  "decode_percent_scalar us k = Some (c, n) \<longleftrightarrow>
     is_scalar c \<and> n = length (utf8 c) * 3 \<and> octets_at us k (length (utf8 c)) = map Some (utf8 c)"
  using decode_percent_scalar_sound decode_percent_scalar_complete by blast

section \<open>Encoding and decoding\<close>

lemma octets_at_pct: "octets_at (concat (map pct bs) @ us) 0 (length bs) = map Some bs"
proof (induction bs)
  case (Cons b bs)
  have "map (\<lambda>i. percent_octet (concat (map pct (b # bs)) @ us) (0 + i * 3)) [0..<length (b # bs)] =
      percent_octet (pct b @ concat (map pct bs) @ us) 0 #
      map (\<lambda>i. percent_octet (pct b @ concat (map pct bs) @ us) (3 + i * 3)) [0..<length bs]"
    by (simp add: upt_conv_Cons map_Suc_upt [symmetric] del: upt_Suc)
  also have "\<dots> = Some b # octets_at (concat (map pct bs) @ us) 0 (length bs)"
    by (simp add: percent_octet_drop percent_octet_pct)
  finally show ?case by (simp only: Cons list.map)
qed simp

lemma decode_encoded_scalar:
  "is_scalar c \<Longrightarrow> decode_percent_scalar (concat (map pct (utf8 c)) @ us) 0 = Some (c, length (utf8 c) * 3)"
  by (rule decode_percent_scalar_complete, assumption, rule octets_at_pct)

lemma push_scalar_encode: "push_scalar c b = b @ char_encode_utf16 c"
proof -
  have "ucast (s AND 0x3FF) = (ucast s AND 0x3FF :: u16)" for s :: u32 by (rule bit_word_eqI) (auto simp: bit_simps)
  then show ?thesis by (simp add: push_scalar_def char_encode_utf16_def push_unit_def Let_def)
qed

lemma utf8_nonempty: "utf8 c \<noteq> []"
  by (simp add: utf8_def utf8_nat_def)

lemma length_concat_pct: "length (concat (map pct bs)) = length bs * 3"
  by (induction bs) simp_all

lemma decode_encoded_step:
  assumes "is_scalar c" and "\<not> (preserve \<and> c \<le> 0xFF \<and> ucast c \<in> set URI_RESERVED)"
  shows "uri_decode_from preserve (concat (map pct (utf8 c)) @ us) out =
    uri_decode_from preserve us (out @ char_encode_utf16 c)"
proof -
  obtain rest where r: "concat (map pct (utf8 c)) @ us = 0x25 # rest"
    using utf8_nonempty [of c] by (cases "utf8 c") (auto simp: pct_def)
  have "drop (length (utf8 c) * 3) (concat (map pct (utf8 c)) @ us) = us"
    by (simp add: length_concat_pct [symmetric])
  then have d: "drop (length (utf8 c) * 3) (0x25 # rest) = us" by (simp only: r)
  have s: "decode_percent_scalar (0x25 # rest) 0 = Some (c, length (utf8 c) * 3)"
    unfolding r [symmetric] by (rule decode_encoded_scalar [OF assms(1)])
  show ?thesis unfolding r using assms(2) by (auto simp: s d push_scalar_encode)
qed

text \<open>What is left unescaped is never a percent sign, and with reserved characters kept, what is escaped is not reserved.\<close>

lemma percent_not_unescaped: "\<not> encode_unescaped 0x25 preserve"
  by (simp add: encode_unescaped_def component_unescaped_def is_ascii_alphanumeric_def is_ascii_alphanumeric_u8_def
      URI_UNESCAPED_def URI_RESERVED_def)

lemma unescaped_ascii: "encode_unescaped u preserve \<Longrightarrow> \<not> is_high_surrogate u \<and> \<not> is_low_surrogate u"
  by (auto simp: encode_unescaped_def component_unescaped_def is_ascii_alphanumeric_def surrogate_bounds word_le_nat_alt)

lemma escaped_unreserved:
  assumes "\<not> encode_unescaped u pe" and "pd \<longrightarrow> pe"
  shows "\<not> (pd \<and> (ucast u :: u32) \<le> 0xFF \<and> ucast (ucast u :: u32) \<in> set URI_RESERVED)"
proof -
  have "(ucast u :: u32) \<le> 0xFF \<longleftrightarrow> u \<le> 0xFF" by (simp add: word_le_nat_alt unat_ucast_u16)
  moreover have "ucast (ucast u :: u32) = (ucast u :: u8)"
    by (simp add: word_unat_eq_iff unat_ucast_octet unat_ucast_u16)
  ultimately show ?thesis using assms by (auto simp: encode_unescaped_def)
qed

lemma pair_unreserved:
  assumes "is_high_surrogate u" "is_low_surrogate v"
  shows "\<not> surrogate_pair u v \<le> 0xFF"
  by (simp add: word_le_nat_alt unat_surrogate_pair)

lemma unat_surrogate_pair_less: "is_high_surrogate u \<Longrightarrow> is_low_surrogate v \<Longrightarrow> unat (surrogate_pair u v) < 0x110000"
  using char_encode_pair(2) by (simp add: is_scalar_unat)

text \<open>The encoded form of one code point, and of a string as the concatenation over its code points.\<close>

definition uri_char :: "bool \<Rightarrow> u32 \<Rightarrow> u16 list" where
  "uri_char preserve c =
     (if c \<le> 0xFFFF \<and> encode_unescaped (ucast c) preserve then [ucast c] else concat (map pct (utf8 c)))"

lemma uri_char_unit:
  "uri_char preserve (ucast (u :: u16)) = (if encode_unescaped u preserve then [u] else concat (map pct (utf8 (ucast u))))"
proof -
  have "(ucast u :: u32) \<le> 0xFFFF" using unat_u16_bound [of u] by (simp add: word_le_nat_alt unat_ucast_u16)
  then show ?thesis by (simp add: uri_char_def ucast_ucast_u16)
qed

lemma uri_char_pair:
  "is_high_surrogate u \<Longrightarrow> is_low_surrogate v \<Longrightarrow>
    uri_char preserve (surrogate_pair u v) = concat (map pct (utf8 (surrogate_pair u v)))"
  by (simp add: uri_char_def word_le_nat_alt unat_surrogate_pair)

lemma push_unit_encoded: "push_utf8_percent_encoded (ucast (u :: u16)) out = out @ concat (map pct (utf8 (ucast u)))"
  using unat_u16_bound [of u] by (intro push_utf8_percent_encoded_pct) (simp add: unat_ucast_u16)

lemma uri_encode_from_spec:
  "uri_encode_from preserve us out =
     (if ill_formed_from k us = None
      then Ok (out @ concat (map (\<lambda>(_, c). uri_char preserve c) (code_points_from k us))) else Err ())"
proof (induction preserve us out arbitrary: k rule: uri_encode_from.induct)
  case (1 preserve out)
  show ?case by (simp add: finish_def)
next
  case (2 preserve u out)
  show ?case
    by (simp add: uri_char_unit unescaped_ascii push_unit_def push_unit_encoded finish_def)
next
  case (3 preserve u v us out)
  show ?case
  proof (cases "encode_unescaped u preserve")
    case True
    with unescaped_ascii [OF True] 3(1) [OF True, of "Suc k"] show ?thesis
      by (simp add: uri_char_unit push_unit_def)
  next
    case False
    consider "is_high_surrogate u" "is_low_surrogate v" | "is_high_surrogate u" "\<not> is_low_surrogate v"
      | "is_low_surrogate u" | "\<not> is_high_surrogate u" "\<not> is_low_surrogate u" by blast
    then show ?thesis
    proof cases
      case 1
      with False 3(2) [OF False 1, of "Suc (Suc k)"] show ?thesis
        by (simp add: surrogate_pair_eq uri_char_pair push_utf8_percent_encoded_pct [OF unat_surrogate_pair_less])
    next
      case 4
      with False 3(3) [OF False 4, of "Suc k"] show ?thesis
        by (simp add: uri_char_unit push_unit_encoded)
    qed (use False low_not_high in simp_all)
  qed
qed

lemma uri_decode_chars:
  assumes "pd \<longrightarrow> pe" and "\<forall>c \<in> set cs. is_scalar c"
  shows "uri_decode_from pd (concat (map (uri_char pe) cs)) out = Ok (out @ encode_utf16 cs)"
  using assms(2)
proof (induction cs arbitrary: out)
  case Nil
  show ?case by (simp add: finish_def encode_utf16_def)
next
  case (Cons c cs)
  let ?us = "concat (map (uri_char pe) cs)"
  have "uri_decode_from pd (uri_char pe c @ ?us) out = uri_decode_from pd ?us (out @ char_encode_utf16 c)"
  proof -
    from Cons.prems have "is_scalar c" by simp
    then show ?thesis
    proof (cases rule: scalar_cases)
      case (unit u)
      show ?thesis
      proof (cases "encode_unescaped u pe")
        case True
        with percent_not_unescaped have "u \<noteq> 0x25" by blast
        with True unit show ?thesis by (simp add: uri_char_unit char_encode_unit push_unit_def)
      next
        case False
        then have "uri_char pe c = concat (map pct (utf8 c))" by (simp add: unit uri_char_unit)
        then show ?thesis
          using decode_encoded_step [OF \<open>is_scalar c\<close>, of pd] escaped_unreserved [OF False assms(1)]
          unfolding unit(1) by presburger
      qed
    next
      case (pair u v)
      with \<open>is_scalar c\<close> show ?thesis
        by (simp only: uri_char_pair) (rule decode_encoded_step, simp_all add: pair_unreserved)
    qed
  qed
  with Cons show ?case by (simp add: encode_utf16_def)
qed

lemma uri_encode_spec:
  "uri_encode us preserve =
     (if is_well_formed us then Ok (concat (map (\<lambda>(_, c). uri_char preserve c) (code_points us))) else Err ())"
  by (simp add: uri_encode_def uri_encode_from_spec [where k = 0] builder_new_def is_well_formed_def
      first_ill_formed_offset_def code_points_def)

lemma well_formed_scalars: "is_well_formed us \<Longrightarrow> \<forall>c \<in> set (map snd (code_points us)). is_scalar c"
  by (auto simp: is_well_formed_def first_ill_formed_offset_def ill_formed_decode decode_code_points [where offset = 0]
      list_all_iff code_points_def split: if_splits)

lemma uri_roundtrip:
  assumes "uri_encode us pe = Ok e" and "pd \<longrightarrow> pe"
  shows "uri_decode e pd = Ok us"
proof -
  let ?cs = "map snd (code_points us)"
  from assms(1) have w: "is_well_formed us" and e: "e = concat (map (uri_char pe) ?cs)"
    by (auto simp: uri_encode_spec case_prod_unfold comp_def split: if_splits)
  have "encode_utf16 ?cs = us" by (simp add: encode_utf16_def code_points_def code_points_from_encode)
  with uri_decode_chars [of pd pe ?cs "[]", OF assms(2) well_formed_scalars [OF w]] show ?thesis
    by (simp add: uri_decode_def builder_new_def e)
qed

section \<open>Escape sequences\<close>

definition escaped :: "u16 \<Rightarrow> u16 list" where
  "escaped u = escape_unit u []"

lemma escape_unit_append: "escape_unit u b = b @ escaped u"
  by (simp add: escaped_def escape_unit_def push_unit_def push_percent_octet_pct push_utf8_def)

lemma escape_units_concat: "escape_units us = concat (map escaped us)"
proof -
  have "fold escape_unit us b = b @ concat (map escaped us)" for b
    by (induction us arbitrary: b) (simp_all add: escape_unit_append)
  then show ?thesis by (simp add: escape_units_def finish_def builder_new_def)
qed

text \<open>The four digits after \<open>%u\<close> are the nibbles of the unit.\<close>

abbreviation hex_unit :: "nat \<Rightarrow> u16" where
  "hex_unit n \<equiv> ucast (HEX ! n)"

lemma escaped_wide:
  "\<not> u \<le> 0xFF \<Longrightarrow> escaped u = [0x25, 0x75, hex_unit (unat u div 4096), hex_unit (unat u div 256 mod 16),
     hex_unit (unat u div 16 mod 16), hex_unit (unat u mod 16)]"
  using unat_u16_bound [of u]
  by (simp add: escaped_def escape_unit_def is_ascii_alphanumeric_def push_unit_def push_utf8_def encode_utf16_def
      char_encode_utf16_def unat_and_mask unat_drop)

lemma unat_nibble_step:
  assumes "unat (x :: u16) < 4096" and "n < 16"
  shows "unat (push_bit 4 x OR ucast (word_of_nat n :: u8)) = unat x * 16 + n"
proof -
  have n: "unat (ucast (word_of_nat n :: u8) :: u16) = n" using assms(2) by (simp add: unat_ucast_of_u8 unat_octet)
  have "unat (push_bit 4 x) = unat x * 16" using assms(1) by (simp add: push_bit_eq_mult unat_word_ariths)
  then show ?thesis using assms n or_low [of "ucast (word_of_nat n :: u8) :: u16" 4 x] by (simp add: unat_word_ariths)
qed

lemma hex_fold_nibbles:
  assumes "a < 16" "b < 16" "c < 16" "d < 16"
  shows "\<exists>v. hex_fold (x # y # hex_unit a # hex_unit b # hex_unit c # hex_unit d # us) [0, 1, 2, 3] 0 = Some v \<and>
    unat v = ((a * 16 + b) * 16 + c) * 16 + d"
proof -
  let ?s = "\<lambda>v n. push_bit 4 v OR ucast (word_of_nat n :: u8) :: u16"
  have 1: "unat (?s 0 a) = a" using unat_nibble_step [of 0 a] assms by simp
  have 2: "unat (?s (?s 0 a) b) = a * 16 + b" using unat_nibble_step [of "?s 0 a" b] assms 1 by simp
  have 3: "unat (?s (?s (?s 0 a) b) c) = (a * 16 + b) * 16 + c"
    using unat_nibble_step [of "?s (?s 0 a) b" c] assms 2 by simp
  have 4: "unat (?s (?s (?s (?s 0 a) b) c) d) = ((a * 16 + b) * 16 + c) * 16 + d"
    using unat_nibble_step [of "?s (?s (?s 0 a) b) c" d] assms 3 by simp
  then show ?thesis using assms by (simp add: slice_get_def hex_value_HEX nth_Cons')
qed

lemma hex_unit_not_u: "n < 16 \<Longrightarrow> hex_unit n \<noteq> 0x75"
proof -
  assume "n < 16"
  moreover have "list_all (\<lambda>n. hex_unit n \<noteq> 0x75) [0..<16]" by code_simp
  ultimately show ?thesis by (simp add: list_all_iff)
qed

lemma escaped_narrow:
  "u \<le> 0xFF \<Longrightarrow> escaped u = [u] \<and> u \<noteq> 0x25 \<or> escaped u = pct (ucast u)"
  by (auto simp: escaped_def escape_unit_def push_unit_def push_percent_octet_pct ESCAPE_UNESCAPED_def
      is_ascii_alphanumeric_def is_ascii_alphanumeric_u8_def)

lemma unescape_escaped: "unescape_from (escaped u @ us) out = unescape_from us (out @ [u])"
proof (cases "u \<le> 0xFF")
  case False
  let ?n = "unat u"
  have n: "((?n div 4096 * 16 + ?n div 256 mod 16) * 16 + ?n div 16 mod 16) * 16 + ?n mod 16 = ?n"
  proof -
    have "?n div 256 = ?n div 16 div 16" "?n div 4096 = ?n div 16 div 16 div 16" by (simp_all flip: div_mult2_eq)
    then show ?thesis by simp
  qed
  have "?n div 4096 < 16" using unat_u16_bound [of u] by (simp add: div_less_iff_less_mult)
  from hex_fold_nibbles [OF this, of "?n div 256 mod 16" "?n div 16 mod 16" "?n mod 16" "0x25" "0x75" us]
  have "percent_u (escaped u @ us) = Some u"
    unfolding escaped_wide [OF False] percent_u_def n by (auto simp: slice_get_def word_unat_eq_iff)
  then show ?thesis by (simp add: escaped_wide [OF False] push_unit_def)
next
  case True
  from escaped_narrow [OF this] show ?thesis
  proof
    assume "escaped u = [u] \<and> u \<noteq> 0x25"
    then show ?thesis by (simp add: percent_u_def percent_octet_def slice_get_def push_unit_def)
  next
    assume e: "escaped u = pct (ucast u)"
    have "unat (ucast u :: u8) div 16 < 16" using unat_u8_bound [of "ucast u"] by simp
    from hex_unit_not_u [OF this] have p: "percent_u (pct (ucast u) @ us) = None"
      by (simp add: percent_u_def slice_get_def pct_def)
    have "ucast (ucast u :: u8) = u" using True by (simp add: word_unat_eq_iff unat_ucast_of_u8 unat_ucast_octet word_le_nat_alt)
    moreover obtain a b where "pct (ucast u) = [0x25, a, b]" by (simp add: pct_def)
    ultimately show ?thesis using p percent_octet_pct [of "ucast u" us] by (simp add: e push_unit_def)
  qed
qed

lemma unescape_escape: "unescape_units (escape_units us) = us"
proof -
  have "unescape_from (concat (map escaped us)) out = out @ us" for out
    by (induction us arbitrary: out) (simp_all add: unescape_escaped finish_def)
  then show ?thesis by (simp add: unescape_units_def escape_units_concat builder_new_def)
qed

end
