(* ===== verification/Tiering.thy ===== *)
theory Tiering
  imports Program_Model
begin

text \<open>
  The tiering policy of the native engine (\<^verbatim>\<open>crates/bamts-native/src/tiering.rs\<close>, of which
  \<^verbatim>\<open>crates/bamts-codegen/src/jit/tiering.rs\<close> holds the same code): warmup promotion, on-stack
  replacement and deoptimisation accounting over saturating \<open>u32\<close> counters, and the table of units
  the engine keeps over a linked program (\<open>TieringTable\<close>, \<open>should_interpret_unit\<close> and \<open>poll_osr_entry\<close>
  of \<^verbatim>\<open>crates/bamts-runtime/src/native.rs\<close>). A method on \<open>&mut self\<close> returns its result with the new
  state. The specification reads the state of a unit off its history, in unbounded numbers.
\<close>

section \<open>Policy\<close>

datatype Tier = Interpreter | Baseline | Optimized

record WarmupPolicy =
  baseline_invocations :: u32
  optimized_invocations :: u32
  osr_back_edges :: u32
  deopt_budget :: u32

definition WarmupPolicy_DEFAULT :: WarmupPolicy where
  "WarmupPolicy_DEFAULT = \<lparr>baseline_invocations = 10, optimized_invocations = 1000, osr_back_edges = 100, deopt_budget = 8\<rparr>"

datatype TieringError = ZeroThreshold | InvertedThresholds u32 u32 | ContractViolation string

definition validated :: "WarmupPolicy \<Rightarrow> (WarmupPolicy, TieringError) result" where
  "validated p =
    (if baseline_invocations p = 0 \<or> optimized_invocations p = 0 \<or> osr_back_edges p = 0 \<or> deopt_budget p = 0
     then Err ZeroThreshold
     else if baseline_invocations p > optimized_invocations p
     then Err (InvertedThresholds (baseline_invocations p) (optimized_invocations p))
     else Ok p)"

record TierTransition =
  tt_from :: Tier
  tt_to :: Tier

record OsrEntry =
  osr_pc :: u32

section \<open>Completions and deoptimisation\<close>

datatype CompletionTag = TagNormal | TagThrow | TagSuspend | TagFatalTrap

definition TRAP_MISSING_NATIVE_OPS :: u32 where "TRAP_MISSING_NATIVE_OPS = 0x1000"
definition TRAP_INVALID_FRAME :: u32 where "TRAP_INVALID_FRAME = 0x1001"
definition TRAP_PANIC :: u32 where "TRAP_PANIC = 0x1002"
definition TRAP_INVALID_REGISTER :: u32 where "TRAP_INVALID_REGISTER = 0x1003"
definition TRAP_INVALID_COMPLETION_TAG :: u32 where "TRAP_INVALID_COMPLETION_TAG = 0x1004"

datatype DeoptReason =
    DeoptMissingNativeOps
  | DeoptInvalidFrame
  | DeoptPanic
  | DeoptInvalidRegister
  | DeoptInvalidCompletionTag
  | DeoptUnknownTrap u32

definition deopt_reason :: "CompletionTag \<Rightarrow> u32 \<Rightarrow> DeoptReason option" where
  "deopt_reason tag trap_id =
    (case tag of
       TagNormal \<Rightarrow> None
     | TagThrow \<Rightarrow> None
     | TagSuspend \<Rightarrow> None
     | TagFatalTrap \<Rightarrow> Some
         (if trap_id = TRAP_MISSING_NATIVE_OPS then DeoptMissingNativeOps
          else if trap_id = TRAP_INVALID_FRAME then DeoptInvalidFrame
          else if trap_id = TRAP_PANIC then DeoptPanic
          else if trap_id = TRAP_INVALID_REGISTER then DeoptInvalidRegister
          else if trap_id = TRAP_INVALID_COMPLETION_TAG then DeoptInvalidCompletionTag
          else DeoptUnknownTrap trap_id))"

section \<open>One unit\<close>

definition u32_saturating_add :: "u32 \<Rightarrow> u32 \<Rightarrow> u32" where
  "u32_saturating_add a b = (if unat a + unat b < 2 ^ 32 then a + b else 0xFFFFFFFF)"

record TieringState =
  ts_policy :: WarmupPolicy
  ts_tier :: Tier
  ts_invocations :: u32
  ts_back_edges :: u32
  ts_deopts :: u32
  ts_pinned :: bool
  ts_cancelled :: bool

definition TieringState_new :: "WarmupPolicy \<Rightarrow> (TieringState, TieringError) result" where
  "TieringState_new policy =
    (case validated policy of
       Ok policy \<Rightarrow> Ok \<lparr>ts_policy = policy, ts_tier = Interpreter, ts_invocations = 0, ts_back_edges = 0,
         ts_deopts = 0, ts_pinned = False, ts_cancelled = False\<rparr>
     | Err error \<Rightarrow> Err error
     | Panic \<Rightarrow> Panic)"

definition observe_invocation :: "TieringState \<Rightarrow> TierTransition option \<times> TieringState" where
  "observe_invocation s =
    (if ts_cancelled s \<or> ts_pinned s then (None, s)
     else
       let s = s\<lparr>ts_invocations := u32_saturating_add (ts_invocations s) 1\<rparr>;
           promote = (\<lambda>to. (Some \<lparr>tt_from = ts_tier s, tt_to = to\<rparr>, s\<lparr>ts_tier := to\<rparr>))
       in case ts_tier s of
            Interpreter \<Rightarrow>
              if ts_invocations s \<ge> baseline_invocations (ts_policy s) then promote Baseline else (None, s)
          | Baseline \<Rightarrow>
              if ts_invocations s \<ge> optimized_invocations (ts_policy s) then promote Optimized else (None, s)
          | Optimized \<Rightarrow> (None, s))"

definition observe_back_edge :: "u32 \<Rightarrow> u32 \<Rightarrow> TieringState \<Rightarrow> OsrEntry option \<times> TieringState" where
  "observe_back_edge target current s =
    (if ts_cancelled s \<or> ts_pinned s \<or> target > current then (None, s)
     else
       let s = s\<lparr>ts_back_edges := u32_saturating_add (ts_back_edges s) 1\<rparr>
       in if ts_tier s = Interpreter \<and> ts_back_edges s \<ge> osr_back_edges (ts_policy s)
          then (Some \<lparr>osr_pc = target\<rparr>, s\<lparr>ts_back_edges := 0\<rparr>)
          else (None, s))"

definition record_deopt :: "DeoptReason \<Rightarrow> TieringState \<Rightarrow> Tier \<times> TieringState" where
  "record_deopt reason s =
    (if ts_cancelled s then (ts_tier s, s)
     else
       let s = s\<lparr>ts_tier := Interpreter, ts_invocations := 0, ts_back_edges := 0,
                 ts_deopts := u32_saturating_add (ts_deopts s) 1\<rparr>;
           s = (if ts_deopts s \<ge> deopt_budget (ts_policy s) then s\<lparr>ts_pinned := True\<rparr> else s)
       in (ts_tier s, s))"

definition cancel :: "TieringState \<Rightarrow> TieringState" where
  "cancel s = s\<lparr>ts_cancelled := True\<rparr>"

section \<open>The contract vector\<close>

text \<open>
  \<open>verify_tiering_contract\<close> is a sequence of checks on states it drives itself, each returning
  the name of the vector it violates.
\<close>

definition contract_policy :: WarmupPolicy where
  "contract_policy = \<lparr>baseline_invocations = 2, optimized_invocations = 4, osr_back_edges = 3, deopt_budget = 2\<rparr>"

abbreviation vector :: "bool \<Rightarrow> string \<Rightarrow> (unit, TieringError) result" where
  "vector holds name \<equiv> ensure holds (ContractViolation name)"

definition contract_warmup :: "TieringState \<Rightarrow> (unit, TieringError) result" where
  "contract_warmup state =
    (let (a, state) = observe_invocation state;
         (b, state) = observe_invocation state;
         (c, state) = observe_invocation state;
         (d, state) = observe_invocation state;
         (e, state) = observe_invocation state
     in try_all
       [vector (a = None) ''no promotion before the baseline threshold'',
        vector (b = Some \<lparr>tt_from = Interpreter, tt_to = Baseline\<rparr>) ''promotion at exactly the baseline threshold'',
        vector (c = None) ''no promotion between thresholds'',
        vector (d = Some \<lparr>tt_from = Baseline, tt_to = Optimized\<rparr>) ''promotion at exactly the optimized threshold'',
        vector (e = None) ''no promotion past the top tier''])"

definition contract_osr :: "TieringState \<Rightarrow> (unit, TieringError) result" where
  "contract_osr state =
    (let header = 1; latch = 9;
         (a, state) = observe_back_edge latch header state;
         (b, state) = observe_back_edge header latch state;
         (c, state) = observe_back_edge header latch state;
         (d, state) = observe_back_edge header latch state;
         (e, state) = observe_back_edge header latch state
     in try_all
       [vector (a = None) ''a forward edge is never OSR-eligible'',
        vector (\<not> (b \<noteq> None \<or> c \<noteq> None)) ''no OSR before the back-edge threshold'',
        vector (d = Some \<lparr>osr_pc = header\<rparr>) ''OSR at exactly the back-edge threshold'',
        vector (e = None) ''OSR heat is consumed by the decision''])"

fun stays_pinned :: "nat \<Rightarrow> TieringState \<Rightarrow> (unit, TieringError) result" where
  "stays_pinned 0 state = Ok ()"
| "stays_pinned (Suc n) state =
    (let (a, state) = observe_invocation state
     in bind_result (vector (a = None) ''a pinned unit never re-promotes'') (\<lambda>_. stays_pinned n state))"

definition contract_deopt :: "TieringState \<Rightarrow> (unit, TieringError) result" where
  "contract_deopt state =
    (let (_, state) = observe_invocation state;
         (_, state) = observe_invocation state;
         warm = ts_tier state;
         (a, state) = record_deopt DeoptPanic state;
         early = ts_pinned state;
         (b, state) = record_deopt DeoptInvalidRegister state
     in try_all
       [vector (warm = Baseline) ''warmup precedes the deopt vector'',
        vector (a = Interpreter) ''deopt demotes to the interpreter'',
        vector (\<not> early) ''no pin while budget remains'',
        vector (b = Interpreter \<and> ts_pinned state) ''budget exhaustion pins the unit'',
        stays_pinned (unat (optimized_invocations contract_policy)) state])"

definition contract_cancel :: "TieringState \<Rightarrow> (unit, TieringError) result" where
  "contract_cancel state =
    (let header = 1; latch = 9;
         state = cancel state;
         (a, state) = observe_invocation state;
         (b, state) = observe_back_edge header latch state;
         (c, state) = record_deopt DeoptPanic state
     in vector (a = None \<and> b = None \<and> c = Interpreter \<and> \<not> ts_pinned state) ''a cancelled unit emits no decisions'')"

definition contract_completions :: "(unit, TieringError) result" where
  "contract_completions = try_all
    [vector (deopt_reason TagNormal 0 = None \<and> deopt_reason TagThrow 0 = None \<and> deopt_reason TagSuspend 0 = None)
       ''only fatal traps deoptimize'',
     vector (deopt_reason TagFatalTrap TRAP_PANIC = Some DeoptPanic) ''known trap ids classify precisely'',
     vector (deopt_reason TagFatalTrap 0xdead = Some (DeoptUnknownTrap 0xdead)) ''unknown trap ids still deoptimize'']"

definition verify_tiering_contract :: "(unit, TieringError) result" where
  "verify_tiering_contract = bind_result (TieringState_new contract_policy) (\<lambda>state. try_all
    [contract_warmup state, contract_osr state, contract_deopt state, contract_cancel state, contract_completions])"

lemmas tiering_defs = observe_invocation_def observe_back_edge_def record_deopt_def cancel_def Let_def
  u32_saturating_add_def

definition contract_start :: TieringState where
  "contract_start = \<lparr>ts_policy = contract_policy, ts_tier = Interpreter, ts_invocations = 0, ts_back_edges = 0,
    ts_deopts = 0, ts_pinned = False, ts_cancelled = False\<rparr>"

lemma contract_new: "TieringState_new contract_policy = Ok contract_start"
  by (simp add: TieringState_new_def validated_def contract_policy_def contract_start_def)

lemma contract_warmup_passes: "contract_warmup contract_start = Ok ()"
  by (simp add: contract_warmup_def contract_start_def contract_policy_def tiering_defs ensure_def word_le_nat_alt)

lemma contract_osr_passes: "contract_osr contract_start = Ok ()"
  by (simp add: contract_osr_def contract_start_def contract_policy_def tiering_defs ensure_def word_le_nat_alt)

lemma stays_pinned_Ok: "ts_pinned s \<Longrightarrow> stays_pinned n s = Ok ()"
  by (induction n) (simp_all add: observe_invocation_def ensure_def)

lemma contract_deopt_passes: "contract_deopt contract_start = Ok ()"
  by (simp add: contract_deopt_def contract_start_def contract_policy_def tiering_defs ensure_def word_le_nat_alt
      stays_pinned_Ok)

lemma contract_cancel_passes: "contract_cancel contract_start = Ok ()"
  by (simp add: contract_cancel_def contract_start_def contract_policy_def tiering_defs ensure_def)

lemma contract_completions_passes: "contract_completions = Ok ()"
  by (simp add: contract_completions_def deopt_reason_def TRAP_MISSING_NATIVE_OPS_def TRAP_INVALID_FRAME_def
      TRAP_PANIC_def TRAP_INVALID_REGISTER_def TRAP_INVALID_COMPLETION_TAG_def ensure_def)

lemma contract_vector_passes: "verify_tiering_contract = Ok ()"
  by (simp add: verify_tiering_contract_def contract_new contract_warmup_passes contract_osr_passes
      contract_deopt_passes contract_cancel_passes contract_completions_passes)

section \<open>A unit and its history\<close>

datatype TieringEvent = Invocation | BackEdge u32 u32 | Deoptimised DeoptReason | Cancellation

primrec tiering_event :: "TieringEvent \<Rightarrow> TieringState \<Rightarrow> TieringState" where
  "tiering_event Invocation s = snd (observe_invocation s)"
| "tiering_event (BackEdge target current) s = snd (observe_back_edge target current s)"
| "tiering_event (Deoptimised reason) s = snd (record_deopt reason s)"
| "tiering_event Cancellation s = cancel s"

definition tiering_run :: "TieringState \<Rightarrow> TieringEvent list \<Rightarrow> TieringState" where
  "tiering_run s es = fold tiering_event es s"

text \<open>
  What a history says, without counters: the events before a cancellation, the deoptimisations among
  them, and the invocations and true back edges since the last of these.
\<close>

definition live_events :: "TieringEvent list \<Rightarrow> TieringEvent list" where
  "live_events es = takeWhile (\<lambda>e. e \<noteq> Cancellation) es"

primrec is_deopt :: "TieringEvent \<Rightarrow> bool" where
  "is_deopt Invocation = False"
| "is_deopt (BackEdge target current) = False"
| "is_deopt (Deoptimised reason) = True"
| "is_deopt Cancellation = False"

primrec is_true_back_edge :: "TieringEvent \<Rightarrow> bool" where
  "is_true_back_edge Invocation = False"
| "is_true_back_edge (BackEdge target current) = (target \<le> current)"
| "is_true_back_edge (Deoptimised reason) = False"
| "is_true_back_edge Cancellation = False"

definition deopt_count :: "TieringEvent list \<Rightarrow> nat" where
  "deopt_count es = length (filter is_deopt (live_events es))"

definition warmup :: "TieringEvent list \<Rightarrow> TieringEvent list" where
  "warmup es = takeWhile (\<lambda>e. \<not> is_deopt e) (rev (live_events es))"

definition warm_invocations :: "TieringEvent list \<Rightarrow> nat" where
  "warm_invocations es = length (filter (\<lambda>e. e = Invocation) (warmup es))"

definition warm_back_edges :: "TieringEvent list \<Rightarrow> nat" where
  "warm_back_edges es = length (filter is_true_back_edge (warmup es))"

definition exhausted :: "WarmupPolicy \<Rightarrow> TieringEvent list \<Rightarrow> bool" where
  "exhausted p es \<longleftrightarrow> unat (deopt_budget p) \<le> deopt_count es"

text \<open>Invocations, counted without bound, at which a unit enters the two compiled tiers.\<close>

definition baseline_at :: "WarmupPolicy \<Rightarrow> nat" where
  "baseline_at p = unat (baseline_invocations p)"

definition optimized_at :: "WarmupPolicy \<Rightarrow> nat" where
  "optimized_at p = max (unat (optimized_invocations p)) (baseline_at p + 1)"

definition tier_after :: "WarmupPolicy \<Rightarrow> nat \<Rightarrow> Tier" where
  "tier_after p n = (if n < baseline_at p then Interpreter else if n < optimized_at p then Baseline else Optimized)"

definition tier_of_history :: "WarmupPolicy \<Rightarrow> TieringEvent list \<Rightarrow> Tier" where
  "tier_of_history p es = (if exhausted p es then Interpreter else tier_after p (warm_invocations es))"

definition describes :: "WarmupPolicy \<Rightarrow> TieringEvent list \<Rightarrow> TieringState \<Rightarrow> bool" where
  "describes p es s \<longleftrightarrow>
     ts_policy s = p \<and>
     ts_cancelled s = (Cancellation \<in> set es) \<and>
     unat (ts_deopts s) = min (deopt_count es) (2 ^ 32 - 1) \<and>
     ts_pinned s = exhausted p es \<and>
     ts_tier s = tier_of_history p es \<and>
     (ts_pinned s \<or> unat (ts_invocations s) = min (warm_invocations es) (2 ^ 32 - 1)) \<and>
     (ts_pinned s \<or> ts_tier s \<noteq> Interpreter \<or>
       unat (ts_back_edges s) = warm_back_edges es mod unat (osr_back_edges p))"

lemma unat_saturating_add: "unat (u32_saturating_add a 1) = min (unat a + 1) (2 ^ 32 - 1)"
  by (auto simp: u32_saturating_add_def unat_word_ariths)

lemma live_events_cancelled: "Cancellation \<in> set es \<Longrightarrow> live_events (es @ [e]) = live_events es"
  by (auto simp: live_events_def takeWhile_append)

lemma live_events_live:
  "Cancellation \<notin> set es \<Longrightarrow> live_events es = es"
  "Cancellation \<notin> set es \<Longrightarrow> live_events (es @ [e]) = es @ (if e = Cancellation then [] else [e])"
  by (auto simp: live_events_def takeWhile_append takeWhile_eq_all_conv)

lemmas history_defs = deopt_count_def warm_invocations_def warm_back_edges_def warmup_def exhausted_def

lemma policy_bounds: "validated p = Ok p' \<Longrightarrow> p' = p \<and> 0 < unat (baseline_invocations p) \<and>
    0 < unat (osr_back_edges p) \<and> 0 < unat (deopt_budget p)"
  by (auto simp: validated_def unat_gt_0 split: if_splits)

lemma u32_le_max: "unat (w :: u32) \<le> 2 ^ 32 - 1"
  by (rule less_Suc_eq_le [THEN iffD1]) simp

lemma le_saturated: "unat v = min n (2 ^ 32 - 1) \<Longrightarrow> (w :: u32) \<le> v \<longleftrightarrow> unat w \<le> n"
  using u32_le_max [of w] by (simp add: word_le_nat_alt)

lemma describes_new: "TieringState_new p = Ok s \<Longrightarrow> describes p [] s"
  by (auto simp: TieringState_new_def describes_def history_defs live_events_def tier_of_history_def tier_after_def
      baseline_at_def dest: policy_bounds split: result.splits)

lemma describes_inert:
  assumes "describes p es s" and "Cancellation \<in> set es"
  shows "describes p (es @ [e]) (tiering_event e s)"
proof -
  have "ts_cancelled s" using assms by (simp add: describes_def)
  then have "tiering_event e s = s" by (cases e) (simp_all add: tiering_defs)
  with assms show ?thesis by (auto simp: describes_def history_defs tier_of_history_def live_events_cancelled)
qed

lemma describes_invocation:
  assumes "describes p es s" and "Cancellation \<notin> set es"
  shows "describes p (es @ [Invocation]) (tiering_event Invocation s)"
proof (cases "ts_pinned s")
  case True
  with assms show ?thesis
    by (simp add: describes_def history_defs tier_of_history_def live_events_live observe_invocation_def)
next
  case False
  define t where "t = s\<lparr>ts_invocations := u32_saturating_add (ts_invocations s) 1\<rparr>"
  let ?n = "warm_invocations es"
  have n: "warm_invocations (es @ [Invocation]) = Suc ?n"
    using assms(2) by (simp add: history_defs live_events_live)
  have same: "exhausted p (es @ [Invocation]) = exhausted p es" "deopt_count (es @ [Invocation]) = deopt_count es"
    "warm_back_edges (es @ [Invocation]) = warm_back_edges es"
    using assms(2) by (simp_all add: history_defs live_events_live)
  have t: "unat (ts_invocations t) = min (Suc ?n) (2 ^ 32 - 1)"
    using assms(1) False by (simp add: describes_def t_def unat_saturating_add)
  have step: "tiering_event Invocation s = t\<lparr>ts_tier := tier_after p (Suc ?n)\<rparr>"
    using assms False le_saturated [OF t]
    by (auto simp: describes_def observe_invocation_def Let_def t_def tier_of_history_def tier_after_def
        baseline_at_def optimized_at_def split: Tier.splits if_splits)
  show ?thesis
    using assms(1) False t unfolding step
    by (auto simp: describes_def n same tier_of_history_def t_def tier_after_def split: if_splits)
qed

lemma describes_back_edge:
  assumes "describes p es s" and "Cancellation \<notin> set es" and "0 < unat (osr_back_edges p)"
  shows "describes p (es @ [BackEdge target current]) (tiering_event (BackEdge target current) s)"
proof (cases "ts_pinned s \<or> target > current")
  case True
  with assms show ?thesis
    by (auto simp: describes_def history_defs tier_of_history_def live_events_live observe_back_edge_def)
next
  case False
  let ?e = "BackEdge target current" and ?b = "warm_back_edges es" and ?k = "unat (osr_back_edges p)"
  define t where "t = s\<lparr>ts_back_edges := u32_saturating_add (ts_back_edges s) 1\<rparr>"
  have b: "warm_back_edges (es @ [?e]) = Suc ?b"
    using assms(2) False by (simp add: history_defs live_events_live not_less)
  have same: "exhausted p (es @ [?e]) = exhausted p es" "deopt_count (es @ [?e]) = deopt_count es"
    "warm_invocations (es @ [?e]) = warm_invocations es"
    using assms(2) by (simp_all add: history_defs live_events_live)
  have bound: "Suc (?b mod ?k) \<le> ?k" using assms(3) by (simp add: Suc_leI)
  have t: "unat (ts_back_edges t) = Suc (?b mod ?k)" if "ts_tier s = Interpreter"
    using assms(1) False that bound u32_le_max [of "osr_back_edges p"]
    by (auto simp: describes_def t_def unat_saturating_add)
  have step: "tiering_event ?e s =
      (if ts_tier s = Interpreter \<and> ?k \<le> unat (ts_back_edges t) then t\<lparr>ts_back_edges := 0\<rparr> else t)"
    using assms(1,2) False by (simp add: describes_def observe_back_edge_def Let_def t_def word_le_nat_alt word_less_nat_alt not_less)
  show ?thesis
    using assms(1) False t bound unfolding step
    by (auto simp: describes_def b same tier_of_history_def mod_Suc t_def)
qed

lemma describes_deopt:
  assumes "describes p es s" and "Cancellation \<notin> set es" and "0 < unat (baseline_invocations p)"
  shows "describes p (es @ [Deoptimised reason]) (tiering_event (Deoptimised reason) s)"
proof -
  let ?e = "Deoptimised reason" and ?d = "u32_saturating_add (ts_deopts s) 1"
  have d: "deopt_count (es @ [?e]) = Suc (deopt_count es)" "warm_invocations (es @ [?e]) = 0"
    "warm_back_edges (es @ [?e]) = 0"
    using assms(2) by (simp_all add: history_defs live_events_live)
  have sat: "unat ?d = min (Suc (deopt_count es)) (2 ^ 32 - 1)"
    using assms(1) by (simp add: describes_def unat_saturating_add)
  show ?thesis
    using assms sat le_saturated [OF sat, of "deopt_budget p"]
    by (auto simp: describes_def d exhausted_def record_deopt_def Let_def tier_of_history_def tier_after_def baseline_at_def)
qed

lemma describes_cancellation:
  assumes "describes p es s" and "Cancellation \<notin> set es"
  shows "describes p (es @ [Cancellation]) (tiering_event Cancellation s)"
  using assms by (auto simp: describes_def history_defs tier_of_history_def live_events_live cancel_def)

lemma describes_run:
  assumes "TieringState_new p = Ok s"
  shows "describes p es (tiering_run s es)"
proof (induction es rule: rev_induct)
  case Nil
  with assms show ?case by (simp add: tiering_run_def describes_new)
next
  case (snoc e es)
  from assms have p: "0 < unat (baseline_invocations p)" "0 < unat (osr_back_edges p)"
    by (auto simp: TieringState_new_def dest: policy_bounds split: result.splits)
  from snoc have "describes p (es @ [e]) (tiering_event e (tiering_run s es))"
    by (cases "Cancellation \<in> set es"; cases e)
      (simp_all add: describes_inert describes_invocation describes_back_edge describes_deopt
        describes_cancellation p del: tiering_event.simps)
  then show ?case by (simp add: tiering_run_def)
qed

text \<open>What a unit decides, read off its history: promotions and on-stack replacements.\<close>

lemma invocation_decision:
  assumes "TieringState_new p = Ok s"
  shows "fst (observe_invocation (tiering_run s es)) =
    (if Cancellation \<in> set es \<or> exhausted p es then None
     else if Suc (warm_invocations es) = baseline_at p then Some \<lparr>tt_from = Interpreter, tt_to = Baseline\<rparr>
     else if Suc (warm_invocations es) = optimized_at p then Some \<lparr>tt_from = Baseline, tt_to = Optimized\<rparr>
     else None)"
proof -
  let ?s = "tiering_run s es" and ?n = "warm_invocations es"
  let ?i = "u32_saturating_add (ts_invocations ?s) 1"
  note d = describes_run [OF assms, of es, unfolded describes_def]
  show ?thesis
  proof (cases "Cancellation \<in> set es \<or> exhausted p es")
    case True
    with d show ?thesis by (simp add: observe_invocation_def)
  next
    case False
    with d have "unat ?i = min (Suc ?n) (2 ^ 32 - 1)" by (auto simp: unat_saturating_add)
    note i = le_saturated [OF this]
    show ?thesis
      using d False
      by (auto simp: observe_invocation_def Let_def i tier_of_history_def tier_after_def baseline_at_def optimized_at_def
          split: if_splits)
  qed
qed

lemma back_edge_decision:
  assumes "TieringState_new p = Ok s"
  shows "fst (observe_back_edge target current (tiering_run s es)) =
    (if Cancellation \<in> set es \<or> exhausted p es \<or> target > current \<or> tier_of_history p es \<noteq> Interpreter then None
     else if unat (osr_back_edges p) dvd Suc (warm_back_edges es) then Some \<lparr>osr_pc = target\<rparr>
     else None)"
proof -
  let ?s = "tiering_run s es" and ?b = "warm_back_edges es" and ?k = "unat (osr_back_edges p)"
  note d = describes_run [OF assms, of es, unfolded describes_def]
  from assms have k: "0 < ?k"
    by (auto simp: TieringState_new_def dest: policy_bounds split: result.splits)
  then have bound: "Suc (?b mod ?k) \<le> ?k" by (simp add: Suc_leI)
  have dvd: "?k dvd Suc ?b \<longleftrightarrow> ?k \<le> Suc (?b mod ?k)"
    using bound by (auto simp: dvd_eq_mod_eq_0 mod_Suc)
  show ?thesis
    using d bound u32_le_max [of "osr_back_edges p"]
    by (auto simp: observe_back_edge_def Let_def word_le_nat_alt unat_saturating_add dvd)
qed

section \<open>The units of a program\<close>

type_synonym unit_id = "ModuleId \<times> FunctionId"

record UnitTier =
  ut_state :: TieringState
  ut_osr_entries :: u32

type_synonym TieringTable = "unit_id \<rightharpoonup> UnitTier"

definition from_program :: "Program \<Rightarrow> WarmupPolicy \<Rightarrow> (TieringTable, TieringError) result" where
  "from_program p policy =
    try_fold (\<lambda>units (module_index, m).
      try_fold (\<lambda>units (function_index, _).
          bind_result (TieringState_new policy) (\<lambda>state.
            Ok (units((as_u32 module_index, as_u32 function_index) \<mapsto> \<lparr>ut_state = state, ut_osr_entries = 0\<rparr>))))
        units (enumerate 0 (m_functions (pm_code m))))
      Map.empty (enumerate 0 (pg_modules p))"

definition cancel_all :: "TieringTable \<Rightarrow> TieringTable" where
  "cancel_all units = (\<lambda>u. map_option (\<lambda>t. t\<lparr>ut_state := cancel (ut_state t)\<rparr>) (units u))"

text \<open>The engine's own operations: \<open>None\<close> is an engine without tiering.\<close>

definition should_interpret_unit :: "unit_id \<Rightarrow> TieringTable option \<Rightarrow> bool \<times> TieringTable option" where
  "should_interpret_unit u tiering =
    (case tiering of
       None \<Rightarrow> (False, None)
     | Some table \<Rightarrow>
         (case table u of
            None \<Rightarrow> (True, Some table)
          | Some t \<Rightarrow>
              let state = snd (observe_invocation (ut_state t))
              in (ts_pinned state \<or> ts_tier state = Interpreter, Some (table(u \<mapsto> t\<lparr>ut_state := state\<rparr>)))))"

definition poll_osr_entry :: "unit_id \<Rightarrow> usize \<Rightarrow> usize \<Rightarrow> TieringTable option \<Rightarrow> OsrEntry option \<times> TieringTable option" where
  "poll_osr_entry u target current tiering =
    (if tiering = None \<or> target > current then (None, tiering)
     else case tiering of
       None \<Rightarrow> (None, None)
     | Some table \<Rightarrow>
         (case table u of
            None \<Rightarrow> (None, Some table)
          | Some t \<Rightarrow>
              let (entry, state) = observe_back_edge (as_u32 target) (as_u32 current) (ut_state t)
              in (entry, Some (table(u \<mapsto> t\<lparr>ut_state := state\<rparr>)))))"

definition cancel_tiering :: "TieringTable option \<Rightarrow> TieringTable option" where
  "cancel_tiering tiering = map_option cancel_all tiering"

definition count_osr_transfer :: "unit_id \<Rightarrow> TieringTable option \<Rightarrow> TieringTable option" where
  "count_osr_transfer u tiering = map_option (\<lambda>table.
    case table u of
      None \<Rightarrow> table
    | Some t \<Rightarrow> table(u \<mapsto> t\<lparr>ut_osr_entries := u32_saturating_add (ut_osr_entries t) 1\<rparr>)) tiering"

definition record_unit_deopt :: "unit_id \<Rightarrow> DeoptReason \<Rightarrow> TieringTable option \<Rightarrow> TieringTable option" where
  "record_unit_deopt u reason tiering = map_option (\<lambda>table.
    case table u of
      None \<Rightarrow> table
    | Some t \<Rightarrow> table(u \<mapsto> t\<lparr>ut_state := snd (record_deopt reason (ut_state t))\<rparr>)) tiering"

datatype EngineEvent =
    Called unit_id
  | Looped unit_id usize usize
  | Trapped unit_id DeoptReason
  | Transferred unit_id
  | EngineCancelled

primrec engine_event :: "EngineEvent \<Rightarrow> TieringTable option \<Rightarrow> TieringTable option" where
  "engine_event (Called u) tiering = snd (should_interpret_unit u tiering)"
| "engine_event (Looped u target current) tiering = snd (poll_osr_entry u target current tiering)"
| "engine_event (Trapped u reason) tiering = record_unit_deopt u reason tiering"
| "engine_event (Transferred u) tiering = count_osr_transfer u tiering"
| "engine_event EngineCancelled tiering = cancel_tiering tiering"

definition engine_run :: "TieringTable \<Rightarrow> EngineEvent list \<Rightarrow> TieringTable option" where
  "engine_run table es = fold engine_event es (Some table)"

text \<open>The share of one unit in what happens to the engine.\<close>

primrec unit_event :: "unit_id \<Rightarrow> EngineEvent \<Rightarrow> TieringEvent list" where
  "unit_event u (Called v) = (if u = v then [Invocation] else [])"
| "unit_event u (Looped v target current) =
     (if u = v \<and> target \<le> current then [BackEdge (as_u32 target) (as_u32 current)] else [])"
| "unit_event u (Trapped v reason) = (if u = v then [Deoptimised reason] else [])"
| "unit_event u (Transferred v) = []"
| "unit_event u EngineCancelled = [Cancellation]"

definition unit_history :: "unit_id \<Rightarrow> EngineEvent list \<Rightarrow> TieringEvent list" where
  "unit_history u es = concat (map (unit_event u) es)"

lemma tiering_run_append: "tiering_run s (es @ fs) = tiering_run (tiering_run s es) fs"
  by (simp add: tiering_run_def)

lemma tiering_run_single: "tiering_run s [] = s" "tiering_run s [e] = tiering_event e s"
  by (simp_all add: tiering_run_def)

text \<open>Each engine operation is local: a unit sees exactly its own events.\<close>

lemma engine_event_local:
  "\<exists>table'. engine_event e (Some table) = Some table' \<and> dom table' = dom table \<and>
     (\<forall>u t. table u = Some t \<longrightarrow> (\<exists>t'. table' u = Some t' \<and> ut_state t' = tiering_run (ut_state t) (unit_event u e)))"
  by (cases e) (auto simp: should_interpret_unit_def poll_osr_entry_def record_unit_deopt_def count_osr_transfer_def
      cancel_tiering_def cancel_all_def dom_def Let_def tiering_run_single split: option.splits prod.splits)

lemma engine_run_local:
  "\<exists>table'. engine_run table es = Some table' \<and> dom table' = dom table \<and>
     (\<forall>u t. table u = Some t \<longrightarrow> (\<exists>t'. table' u = Some t' \<and> ut_state t' = tiering_run (ut_state t) (unit_history u es)))"
proof (induction es rule: rev_induct)
  case Nil
  show ?case by (simp add: engine_run_def unit_history_def tiering_run_single)
next
  case (snoc e es)
  then obtain mid where mid: "engine_run table es = Some mid" "dom mid = dom table"
    "\<And>u t. table u = Some t \<Longrightarrow> \<exists>t'. mid u = Some t' \<and> ut_state t' = tiering_run (ut_state t) (unit_history u es)"
    by blast
  from engine_event_local [of e mid] obtain table' where "engine_event e (Some mid) = Some table'" "dom table' = dom mid"
    "\<And>u t. mid u = Some t \<Longrightarrow> \<exists>t'. table' u = Some t' \<and> ut_state t' = tiering_run (ut_state t) (unit_event u e)"
    by blast
  with mid show ?case
    by (simp add: engine_run_def unit_history_def tiering_run_append) (metis (no_types, lifting))
qed

text \<open>The table of a fresh program: one cold unit per function, and nothing else.\<close>

definition module_unit_ids :: "usize \<Rightarrow> ProgramModule \<Rightarrow> unit_id set" where
  "module_unit_ids mi m = (\<lambda>fi. (as_u32 mi, as_u32 fi)) ` {..<length (m_functions (pm_code m))}"

definition unit_ids :: "Program \<Rightarrow> unit_id set" where
  "unit_ids p = (\<Union>mi < length (pg_modules p). module_unit_ids mi (pg_modules p ! mi))"

lemma UN_enumerate: "(\<Union>(i, x) \<in> set (enumerate 0 xs). K i x) = (\<Union>i < length xs. K i (xs ! i))"
  by (fastforce simp: in_enumerate)

lemma try_fold_insert:
  "(\<And>m x. x \<in> set xs \<Longrightarrow> f m x = Ok (\<lambda>u. if u \<in> K x then Some v else m u)) \<Longrightarrow>
    try_fold f m xs = Ok (\<lambda>u. if u \<in> (\<Union>x \<in> set xs. K x) then Some v else m u)"
  by (induction xs arbitrary: m) (auto simp: fun_eq_iff)

lemma try_fold_Err_or_skip:
  "(\<And>m x. x \<in> set xs \<Longrightarrow> f m x = (if P x then Ok m else Err e)) \<Longrightarrow>
    try_fold f m xs = (if (\<forall>x \<in> set xs. P x) then Ok m else Err e)"
  by (induction xs) auto

lemma from_program_Ok:
  assumes "TieringState_new policy = Ok s"
  shows "from_program p policy = Ok (\<lambda>u. if u \<in> unit_ids p then Some \<lparr>ut_state = s, ut_osr_entries = 0\<rparr> else None)"
proof -
  let ?v = "\<lparr>ut_state = s, ut_osr_entries = 0\<rparr>"
  have inner: "try_fold (\<lambda>units (fi, _). Ok (units((as_u32 mi, as_u32 fi) \<mapsto> ?v))) units (enumerate 0 fs) =
      Ok (\<lambda>u. if u \<in> (\<lambda>fi. (as_u32 mi, as_u32 fi)) ` {..<length fs} then Some ?v else units u)"
    for mi units and fs :: "Function list"
    by (subst try_fold_insert [where K = "\<lambda>(fi, _). {(as_u32 mi, as_u32 fi)}" and v = ?v])
      (auto simp: fun_eq_iff UN_enumerate)
  show ?thesis
    unfolding from_program_def assms bind_result.simps inner unit_ids_def
    by (subst try_fold_insert [where K = "\<lambda>(mi, m). module_unit_ids mi m" and v = ?v])
      (auto simp: module_unit_ids_def UN_enumerate)
qed

lemma from_program_Err:
  assumes "TieringState_new policy = Err e"
  shows "from_program p policy = (if unit_ids p = {} then Ok Map.empty else Err e)"
proof -
  have "unit_ids p = {} \<longleftrightarrow> (\<forall>(mi, m) \<in> set (enumerate 0 (pg_modules p)). module_unit_ids mi m = {})"
    by (auto simp: unit_ids_def all_enumerate)
  moreover have "module_unit_ids mi m = {} \<longleftrightarrow> m_functions (pm_code m) = []" for mi m
    by (auto simp: module_unit_ids_def)
  ultimately have empty: "unit_ids p = {} \<longleftrightarrow>
      (\<forall>(mi, m) \<in> set (enumerate 0 (pg_modules p)). m_functions (pm_code m) = [])" by simp
  have inner: "try_fold (\<lambda>units (fi, _). Err e) units (enumerate 0 fs) = (if fs = [] then Ok units else Err e)"
    for units :: TieringTable and fs :: "Function list"
    by (cases fs) simp_all
  show ?thesis
    unfolding from_program_def assms bind_result.simps inner empty
    by (subst try_fold_Err_or_skip [where P = "\<lambda>(_, m). m_functions (pm_code m) = []" and e = e]) auto
qed

lemma engine_unit_state:
  assumes "from_program p policy = Ok table" and "u \<in> unit_ids p"
  shows "\<exists>s table' t. TieringState_new policy = Ok s \<and> engine_run table es = Some table' \<and> table' u = Some t \<and>
    ut_state t = tiering_run s (unit_history u es)"
proof (cases "TieringState_new policy")
  case (Ok s)
  with assms have "table u = Some \<lparr>ut_state = s, ut_osr_entries = 0\<rparr>" by (auto simp: from_program_Ok)
  with Ok engine_run_local [of table es] show ?thesis by fastforce
next
  case (Err e)
  with assms show ?thesis by (simp add: from_program_Err split: if_splits)
next
  case Panic
  then show ?thesis by (simp add: TieringState_new_def validated_def split: result.splits if_splits)
qed

text \<open>The tier the engine picks for a call, and the loop entries it grants, by the history of the unit alone.\<close>

lemma should_interpret_history:
  assumes "from_program p policy = Ok table" and "u \<in> unit_ids p"
  shows "fst (should_interpret_unit u (engine_run table es)) \<longleftrightarrow>
    tier_of_history policy (unit_history u es @ [Invocation]) = Interpreter"
proof -
  obtain s table' t where run: "TieringState_new policy = Ok s" "engine_run table es = Some table'" "table' u = Some t"
    "ut_state t = tiering_run s (unit_history u es)"
    using engine_unit_state [OF assms] by blast
  have "describes policy (unit_history u es @ [Invocation]) (snd (observe_invocation (ut_state t)))"
    using describes_run [OF run(1), of "unit_history u es @ [Invocation]"] run(4)
    by (simp add: tiering_run_append tiering_run_single)
  then show ?thesis
    by (auto simp: run should_interpret_unit_def Let_def describes_def tier_of_history_def)
qed

lemma poll_osr_history:
  assumes "from_program p policy = Ok table" and "u \<in> unit_ids p" and "target < 2 ^ 32" and "current < 2 ^ 32"
  shows "fst (poll_osr_entry u target current (engine_run table es)) =
    (let h = unit_history u es in
     if Cancellation \<in> set h \<or> target > current \<or> exhausted policy h \<or> tier_of_history policy h \<noteq> Interpreter then None
     else if unat (osr_back_edges policy) dvd Suc (warm_back_edges h) then Some \<lparr>osr_pc = as_u32 target\<rparr>
     else None)"
proof -
  obtain s table' t where run: "TieringState_new policy = Ok s" "engine_run table es = Some table'" "table' u = Some t"
    "ut_state t = tiering_run s (unit_history u es)"
    using engine_unit_state [OF assms(1,2)] by blast
  have "as_u32 target > as_u32 current \<longleftrightarrow> target > current"
    using assms(3,4) by (simp add: word_less_nat_alt)
  with back_edge_decision [OF run(1), of "as_u32 target" "as_u32 current" "unit_history u es"] show ?thesis
    by (simp add: run poll_osr_entry_def Let_def case_prod_unfold)
qed

end
