(* ===== verification/Node_Timers.thy ===== *)
theory Node_Timers
  imports BT_Prelude
begin

text \<open>
  The timer provider of the Node host (\<^verbatim>\<open>crates/bamts-node/src/timers.rs\<close>): the handle \<open>NodeTimers\<close> on the
  JavaScript thread, the worker thread with its delay queue, and the two channels between them, as a
  system whose threads take turns in any order. The command channel and the delay queue are the
  third-party crates tokio and tokio-util: they are the parameter \<open>T\<close>, a record of their operations,
  and \<open>tokio_laws\<close> states their documented behaviour. The expiry channel is the unbounded FIFO channel
  of the standard library. The specification is a timer service without threads, channels or
  generations: the armed identifiers and their deadlines.
\<close>

section \<open>Wakeups, commands and the third-party operations\<close>

record TimerWakeup =
  tw_id :: u64
  tw_deadline_ms :: u64

record ArmedWakeup =
  aw_wakeup :: TimerWakeup
  aw_generation :: u64

datatype Command = Schedule u64 u64 u64 nat | Cancel u64

datatype 'a Poll = Ready 'a | Pending

type_synonym TimerError = string

record ('c, 'q, 'k) tokio =
  unbounded_channel :: 'c
  channel_send :: "Command \<Rightarrow> 'c \<Rightarrow> 'c option"
  poll_recv :: "'c \<Rightarrow> Command option Poll \<times> 'c"
  queue_new :: 'q
  queue_insert :: "ArmedWakeup \<Rightarrow> nat \<Rightarrow> 'q \<Rightarrow> 'k \<times> 'q"
  queue_try_remove :: "'k \<Rightarrow> 'q \<Rightarrow> 'q"
  queue_is_empty :: "'q \<Rightarrow> bool"
  queue_poll_expired :: "nat \<Rightarrow> 'q \<Rightarrow> ArmedWakeup option Poll \<times> 'q"
  channel_contents :: "'c \<Rightarrow> Command list"
  channel_closed :: "'c \<Rightarrow> bool"
  queue_contents :: "'q \<Rightarrow> 'k \<rightharpoonup> ArmedWakeup"

text \<open>
  The last three fields are not operations but what the laws speak of: the commands not yet received,
  whether every sender is gone, and the wakeups in the queue by key. A channel delivers in order what
  was sent; a key names one wakeup from its insertion until it is removed or expires; a queue that is
  not empty eventually yields a wakeup.
\<close>

definition tokio_laws :: "('c, 'q, 'k) tokio \<Rightarrow> bool" where
  "tokio_laws T \<longleftrightarrow>
    channel_contents T (unbounded_channel T) = [] \<and> \<not> channel_closed T (unbounded_channel T) \<and>
    (\<forall>cmd c c'. channel_send T cmd c = Some c' \<longrightarrow>
       channel_contents T c' = channel_contents T c @ [cmd] \<and> channel_closed T c' = channel_closed T c) \<and>
    (\<forall>c cmd c'. poll_recv T c = (Ready (Some cmd), c') \<longrightarrow>
       channel_contents T c = cmd # channel_contents T c' \<and> channel_closed T c' = channel_closed T c) \<and>
    (\<forall>c c'. poll_recv T c = (Ready None, c') \<longrightarrow>
       channel_contents T c = [] \<and> channel_contents T c' = [] \<and> channel_closed T c) \<and>
    (\<forall>c c'. poll_recv T c = (Pending, c') \<longrightarrow>
       channel_contents T c = [] \<and> channel_contents T c' = [] \<and> channel_closed T c' = channel_closed T c) \<and>
    queue_contents T (queue_new T) = Map.empty \<and>
    (\<forall>w d q k q'. queue_insert T w d q = (k, q') \<longrightarrow>
       queue_contents T q k = None \<and> queue_contents T q' = (queue_contents T q)(k \<mapsto> w)) \<and>
    (\<forall>k q. queue_contents T (queue_try_remove T k q) = (queue_contents T q)(k := None)) \<and>
    (\<forall>q. queue_is_empty T q \<longleftrightarrow> queue_contents T q = Map.empty) \<and>
    (\<forall>q. finite (dom (queue_contents T q))) \<and>
    (\<forall>now q w q'. queue_poll_expired T now q = (Ready (Some w), q') \<longrightarrow>
       (\<exists>k. queue_contents T q k = Some w \<and> queue_contents T q' = (queue_contents T q)(k := None))) \<and>
    (\<forall>now q q'. queue_poll_expired T now q = (Ready None, q') \<or> queue_poll_expired T now q = (Pending, q') \<longrightarrow>
       queue_contents T q' = queue_contents T q) \<and>
    (\<forall>q. queue_contents T q \<noteq> Map.empty \<longrightarrow> (\<exists>now w q'. queue_poll_expired T now q = (Ready (Some w), q')))"

section \<open>The provider and its worker\<close>

record NodeTimers =
  nt_next_generation :: u64
  nt_pending :: "u64 \<rightharpoonup> u64"
  nt_worker :: bool

record ('c, 'q, 'k) timer_system =
  sys_timers :: NodeTimers
  sys_commands :: 'c
  sys_queue :: 'q
  sys_keys :: "u64 \<rightharpoonup> 'k"
  sys_expiries :: "ArmedWakeup list"
  sys_receiver :: bool
  sys_running :: bool

definition NodeTimers_new :: NodeTimers where
  "NodeTimers_new = \<lparr>nt_next_generation = 1, nt_pending = Map.empty, nt_worker = False\<rparr>"

definition has_pending :: "NodeTimers \<Rightarrow> bool" where
  "has_pending t \<longleftrightarrow> nt_pending t \<noteq> Map.empty"

text \<open>\<open>elapsed\<close> is the time since \<open>base\<close> in milliseconds, a \<open>u128\<close> in the source.\<close>

definition deadline_ms :: "nat \<Rightarrow> u32 \<Rightarrow> u64" where
  "deadline_ms elapsed delay_ms = word_of_nat (u64_saturating (u64_saturating elapsed + unat delay_ms))"

text \<open>
  Starting the worker: the error of the thread builder, if any, and what the handshake channel
  yields (\<open>None\<close> when the worker is gone before it reports).
\<close>

definition worker_spawn :: "string option \<Rightarrow> (unit, string) result option \<Rightarrow> (unit, TimerError) result" where
  "worker_spawn thread_error ready =
    (case thread_error of
       Some error \<Rightarrow> Err (''timer worker thread failed to start: '' @ error)
     | None \<Rightarrow>
         (case ready of
            Some outcome \<Rightarrow> outcome
          | None \<Rightarrow> Err ''timer worker exited before signalling readiness''))"

definition run_worker :: "string option \<Rightarrow> (unit, string) result option" where
  "run_worker build_error =
    (case build_error of
       Some error \<Rightarrow> Some (Err (''timer runtime failed to build: '' @ error))
     | None \<Rightarrow> Some (Ok ()))"

definition worker :: "('c, 'q, 'k) tokio \<Rightarrow> (unit, TimerError) result \<Rightarrow> ('c, 'q, 'k) timer_system \<Rightarrow>
    (('c, 'q, 'k) timer_system, TimerError) result" where
  "worker T spawned s =
    (if nt_worker (sys_timers s) then Ok s
     else bind_result spawned (\<lambda>_. Ok (s\<lparr>sys_timers := (sys_timers s)\<lparr>nt_worker := True\<rparr>,
       sys_commands := unbounded_channel T, sys_queue := queue_new T, sys_keys := Map.empty, sys_expiries := [],
       sys_receiver := True, sys_running := True\<rparr>)))"

definition send :: "('c, 'q, 'k) tokio \<Rightarrow> Command \<Rightarrow> ('c, 'q, 'k) timer_system \<Rightarrow>
    (('c, 'q, 'k) timer_system, TimerError) result" where
  "send T command s =
    (case channel_send T command (sys_commands s) of
       None \<Rightarrow> Err ''timer worker stopped accepting commands''
     | Some c \<Rightarrow> Ok (s\<lparr>sys_commands := c\<rparr>))"

definition accept_wakeup :: "ArmedWakeup \<Rightarrow> NodeTimers \<Rightarrow> TimerWakeup option \<times> NodeTimers" where
  "accept_wakeup armed t =
    (let tid = tw_id (aw_wakeup armed)
     in if nt_pending t tid = Some (aw_generation armed)
        then (Some (aw_wakeup armed), t\<lparr>nt_pending := (nt_pending t)(tid := None)\<rparr>)
        else (None, t))"

definition timers_schedule :: "('c, 'q, 'k) tokio \<Rightarrow> (unit, TimerError) result \<Rightarrow> nat \<Rightarrow> u64 \<Rightarrow> u32 \<Rightarrow>
    ('c, 'q, 'k) timer_system \<Rightarrow> (u64, TimerError) result \<times> ('c, 'q, 'k) timer_system" where
  "timers_schedule T spawned elapsed tid delay_ms s =
    (let deadline = deadline_ms elapsed delay_ms;
         generation = nt_next_generation (sys_timers s)
     in if generation = 0xFFFFFFFFFFFFFFFF then (Err ''timer generation exhausted'', s)
        else case worker T spawned s of
          Err e \<Rightarrow> (Err e, s)
        | Panic \<Rightarrow> (Panic, s)
        | Ok s \<Rightarrow>
            (case send T (Schedule tid deadline generation (unat delay_ms)) s of
               Err e \<Rightarrow> (Err e, s)
             | Panic \<Rightarrow> (Panic, s)
             | Ok s \<Rightarrow> (Ok deadline, s\<lparr>sys_timers := (sys_timers s)\<lparr>nt_next_generation := generation + 1,
                 nt_pending := (nt_pending (sys_timers s))(tid \<mapsto> generation)\<rparr>\<rparr>)))"

definition timers_cancel :: "('c, 'q, 'k) tokio \<Rightarrow> u64 \<Rightarrow> ('c, 'q, 'k) timer_system \<Rightarrow>
    (bool, TimerError) result \<times> ('c, 'q, 'k) timer_system" where
  "timers_cancel T tid s =
    (if nt_pending (sys_timers s) tid = None then (Ok False, s)
     else
       let s = s\<lparr>sys_timers := (sys_timers s)\<lparr>nt_pending := (nt_pending (sys_timers s))(tid := None)\<rparr>\<rparr>
       in if nt_worker (sys_timers s)
          then (case send T (Cancel tid) s of
                  Err e \<Rightarrow> (Err e, s)
                | Panic \<Rightarrow> (Panic, s)
                | Ok s \<Rightarrow> (Ok True, s))
          else (Ok True, s))"

fun poll_loop :: "ArmedWakeup list \<Rightarrow> NodeTimers \<Rightarrow> TimerWakeup list \<Rightarrow> TimerWakeup list \<times> NodeTimers" where
  "poll_loop [] t output = (output, t)"
| "poll_loop (armed # expiries) t output =
    (case accept_wakeup armed t of
       (Some wakeup, t) \<Rightarrow> poll_loop expiries t (output @ [wakeup])
     | (None, t) \<Rightarrow> poll_loop expiries t output)"

definition timers_poll_expired :: "('c, 'q, 'k) timer_system \<Rightarrow> TimerWakeup list \<Rightarrow>
    (unit, TimerError) result \<times> TimerWakeup list \<times> ('c, 'q, 'k) timer_system" where
  "timers_poll_expired s output =
    (if \<not> nt_worker (sys_timers s) then (Ok (), output, s)
     else
       let (output, t) = poll_loop (sys_expiries s) (sys_timers s) output
       in (if sys_running s then Ok () else Err ''timer worker expiry channel disconnected'', output,
           s\<lparr>sys_timers := t, sys_expiries := []\<rparr>))"

text \<open>One iteration of \<open>wait_expired\<close>: \<open>None\<close> goes round again, after a timeout or a stale wakeup.\<close>

definition wait_round :: "bool \<Rightarrow> ('c, 'q, 'k) timer_system \<Rightarrow>
    (TimerWakeup option, TimerError) result option \<times> ('c, 'q, 'k) timer_system" where
  "wait_round is_cancelled s =
    (if \<not> has_pending (sys_timers s) then (Some (Ok None), s)
     else if is_cancelled then (Some (Ok None), s)
     else if \<not> nt_worker (sys_timers s) then (Some (Ok None), s)
     else case sys_expiries s of
       armed # expiries \<Rightarrow>
         (case accept_wakeup armed (sys_timers s) of
            (Some wakeup, t) \<Rightarrow> (Some (Ok (Some wakeup)), s\<lparr>sys_timers := t, sys_expiries := expiries\<rparr>)
          | (None, t) \<Rightarrow> (None, s\<lparr>sys_timers := t, sys_expiries := expiries\<rparr>))
     | [] \<Rightarrow>
         if sys_running s then (None, s)
         else (Some (Err ''timer worker expiry channel disconnected''), s))"

section \<open>The worker loop\<close>

definition worker_schedule :: "('c, 'q, 'k) tokio \<Rightarrow> u64 \<Rightarrow> u64 \<Rightarrow> u64 \<Rightarrow> nat \<Rightarrow> ('c, 'q, 'k) timer_system \<Rightarrow>
    ('c, 'q, 'k) timer_system" where
  "worker_schedule T tid deadline generation delay s =
    (let queue = (case sys_keys s tid of Some previous \<Rightarrow> queue_try_remove T previous (sys_queue s) | None \<Rightarrow> sys_queue s);
         (key, queue) = queue_insert T
           \<lparr>aw_wakeup = \<lparr>tw_id = tid, tw_deadline_ms = deadline\<rparr>, aw_generation = generation\<rparr> delay queue
     in s\<lparr>sys_queue := queue, sys_keys := (sys_keys s)(tid \<mapsto> key)\<rparr>)"

definition worker_cancel :: "('c, 'q, 'k) tokio \<Rightarrow> u64 \<Rightarrow> ('c, 'q, 'k) timer_system \<Rightarrow> ('c, 'q, 'k) timer_system" where
  "worker_cancel T tid s =
    (case sys_keys s tid of
       Some key \<Rightarrow> s\<lparr>sys_queue := queue_try_remove T key (sys_queue s), sys_keys := (sys_keys s)(tid := None)\<rparr>
     | None \<Rightarrow> s)"

definition worker_expired :: "ArmedWakeup \<Rightarrow> ('c, 'q, 'k) timer_system \<Rightarrow> ('c, 'q, 'k) timer_system" where
  "worker_expired w s =
    (let s = s\<lparr>sys_keys := (sys_keys s)(tw_id (aw_wakeup w) := None)\<rparr>
     in if sys_receiver s then s\<lparr>sys_expiries := sys_expiries s @ [w]\<rparr> else s\<lparr>sys_running := False\<rparr>)"

text \<open>
  One turn of the loop at time \<open>now\<close>: commands first, then expiries. A turn in which both sides are
  pending changes nothing that matters to the laws.
\<close>

primrec worker_command :: "('c, 'q, 'k) tokio \<Rightarrow> Command \<Rightarrow> ('c, 'q, 'k) timer_system \<Rightarrow> ('c, 'q, 'k) timer_system" where
  "worker_command T (Schedule tid deadline generation delay) s = worker_schedule T tid deadline generation delay s"
| "worker_command T (Cancel tid) s = worker_cancel T tid s"

definition worker_poll :: "('c, 'q, 'k) tokio \<Rightarrow> nat \<Rightarrow> ('c, 'q, 'k) timer_system \<Rightarrow> ('c, 'q, 'k) timer_system" where
  "worker_poll T now s =
    (if queue_is_empty T (sys_queue s) then s
     else case queue_poll_expired T now (sys_queue s) of
       (Ready (Some w), q) \<Rightarrow> worker_expired w (s\<lparr>sys_queue := q\<rparr>)
     | (Ready None, q) \<Rightarrow> s\<lparr>sys_queue := q\<rparr>
     | (Pending, q) \<Rightarrow> s\<lparr>sys_queue := q\<rparr>)"

definition worker_turn :: "('c, 'q, 'k) tokio \<Rightarrow> nat \<Rightarrow> ('c, 'q, 'k) timer_system \<Rightarrow> ('c, 'q, 'k) timer_system" where
  "worker_turn T now s =
    (case poll_recv T (sys_commands s) of
       (Ready (Some command), c) \<Rightarrow> worker_command T command (s\<lparr>sys_commands := c\<rparr>)
     | (Ready None, c) \<Rightarrow> s\<lparr>sys_commands := c, sys_running := False\<rparr>
     | (Pending, c) \<Rightarrow> worker_poll T now (s\<lparr>sys_commands := c\<rparr>))"

section \<open>Interleaving\<close>

datatype TimerEvent = Armed u64 u64 | Disarmed u64 | Fired TimerWakeup

definition cancel_events :: "u64 \<Rightarrow> (bool, TimerError) result \<Rightarrow> TimerEvent list" where
  "cancel_events tid r = (if r = Ok False then [] else [Disarmed tid])"

primrec wait_events :: "(TimerWakeup option, TimerError) result option \<Rightarrow> TimerEvent list" where
  "wait_events None = []"
| "wait_events (Some r) = (case r of Ok (Some w) \<Rightarrow> [Fired w] | _ \<Rightarrow> [])"

inductive timers_step :: "('c, 'q, 'k) tokio \<Rightarrow> ('c, 'q, 'k) timer_system \<Rightarrow> TimerEvent list \<Rightarrow>
    ('c, 'q, 'k) timer_system \<Rightarrow> bool" for T where
  scheduled: "timers_schedule T spawned elapsed tid delay_ms s = (Ok deadline, s') \<Longrightarrow> timers_step T s [Armed tid deadline] s'"
| schedule_failed: "timers_schedule T spawned elapsed tid delay_ms s = (Err e, s') \<Longrightarrow> timers_step T s [] s'"
| cancelled: "timers_cancel T tid s = (r, s') \<Longrightarrow> timers_step T s (cancel_events tid r) s'"
| polled: "timers_poll_expired s [] = (r, output, s') \<Longrightarrow> timers_step T s (map Fired output) s'"
| waited: "wait_round is_cancelled s = (r, s') \<Longrightarrow> timers_step T s (wait_events r) s'"
| worked: "nt_worker (sys_timers s) \<Longrightarrow> sys_running s \<Longrightarrow> timers_step T s [] (worker_turn T now s)"

inductive timers_run :: "('c, 'q, 'k) tokio \<Rightarrow> ('c, 'q, 'k) timer_system \<Rightarrow> TimerEvent list \<Rightarrow>
    ('c, 'q, 'k) timer_system \<Rightarrow> bool" for T s where
  run_nil: "timers_run T s [] s"
| run_step: "timers_run T s es s' \<Longrightarrow> timers_step T s' fs s'' \<Longrightarrow> timers_run T s (es @ fs) s''"

definition timers_init :: "('c, 'q, 'k) timer_system \<Rightarrow> bool" where
  "timers_init s \<longleftrightarrow> sys_timers s = NodeTimers_new"

text \<open>
  \<open>wait_expired\<close> itself: before each of its rounds the worker has some turns, and the cancellation
  token is read. The outer \<open>None\<close> means it is still waiting.
\<close>

definition worker_may_turn :: "('c, 'q, 'k) tokio \<Rightarrow> nat \<Rightarrow> ('c, 'q, 'k) timer_system \<Rightarrow> ('c, 'q, 'k) timer_system" where
  "worker_may_turn T now s = (if nt_worker (sys_timers s) \<and> sys_running s then worker_turn T now s else s)"

fun wait_expired :: "('c, 'q, 'k) tokio \<Rightarrow> (nat list \<times> bool) list \<Rightarrow> ('c, 'q, 'k) timer_system \<Rightarrow>
    (TimerWakeup option, TimerError) result option \<times> ('c, 'q, 'k) timer_system" where
  "wait_expired T [] s = (None, s)"
| "wait_expired T ((turns, is_cancelled) # rounds) s =
    (case wait_round is_cancelled (fold (worker_may_turn T) turns s) of
       (Some r, s) \<Rightarrow> (Some r, s)
     | (None, s) \<Rightarrow> wait_expired T rounds s)"

section \<open>The timer service\<close>

text \<open>What the provider promises: an identifier is armed with one deadline, and only that one fires, once.\<close>

primrec service :: "TimerEvent \<Rightarrow> (u64 \<rightharpoonup> u64) \<Rightarrow> (u64 \<rightharpoonup> u64) option" where
  "service (Armed tid deadline) armed = Some (armed(tid \<mapsto> deadline))"
| "service (Disarmed tid) armed = (if tid \<in> dom armed then Some (armed(tid := None)) else None)"
| "service (Fired w) armed =
    (if armed (tw_id w) = Some (tw_deadline_ms w) then Some (armed(tw_id w := None)) else None)"

fun service_run :: "TimerEvent list \<Rightarrow> (u64 \<rightharpoonup> u64) \<Rightarrow> (u64 \<rightharpoonup> u64) option" where
  "service_run [] armed = Some armed"
| "service_run (e # es) armed = (case service e armed of None \<Rightarrow> None | Some armed \<Rightarrow> service_run es armed)"

lemma service_run_append:
  "service_run (es @ fs) armed = (case service_run es armed of None \<Rightarrow> None | Some armed \<Rightarrow> service_run fs armed)"
  by (induction es arbitrary: armed) (auto split: option.split)

text \<open>Every wakeup on its way from the provider back to it: as a command, in the queue, or expired.\<close>

abbreviation mk_armed :: "u64 \<Rightarrow> u64 \<Rightarrow> u64 \<Rightarrow> ArmedWakeup" where
  "mk_armed tid deadline generation \<equiv> \<lparr>aw_wakeup = \<lparr>tw_id = tid, tw_deadline_ms = deadline\<rparr>, aw_generation = generation\<rparr>"

primrec command_wakeups :: "Command \<Rightarrow> ArmedWakeup set" where
  "command_wakeups (Schedule tid deadline generation delay) = {mk_armed tid deadline generation}"
| "command_wakeups (Cancel tid) = {}"

definition wakeups :: "('c, 'q, 'k) tokio \<Rightarrow> ('c, 'q, 'k) timer_system \<Rightarrow> ArmedWakeup set" where
  "wakeups T s =
    \<Union>(command_wakeups ` set (channel_contents T (sys_commands s))) \<union> ran (queue_contents T (sys_queue s)) \<union>
    set (sys_expiries s)"

text \<open>
  The provider implements the service: what is pending is what is armed, generations are used once,
  and a wakeup whose generation is still the pending one carries the armed deadline.
\<close>

definition genuine :: "NodeTimers \<Rightarrow> (u64 \<rightharpoonup> u64) \<Rightarrow> ArmedWakeup \<Rightarrow> bool" where
  "genuine t armed w \<longleftrightarrow> aw_generation w < nt_next_generation t \<and>
     (nt_pending t (tw_id (aw_wakeup w)) = Some (aw_generation w) \<longrightarrow>
        armed (tw_id (aw_wakeup w)) = Some (tw_deadline_ms (aw_wakeup w)))"

definition implements :: "NodeTimers \<Rightarrow> (u64 \<rightharpoonup> u64) \<Rightarrow> ArmedWakeup set \<Rightarrow> bool" where
  "implements t armed W \<longleftrightarrow>
     dom armed = dom (nt_pending t) \<and>
     (\<forall>g \<in> ran (nt_pending t). g < nt_next_generation t) \<and>
     (\<forall>w \<in> W. genuine t armed w)"

definition timers_implement :: "('c, 'q, 'k) tokio \<Rightarrow> (u64 \<rightharpoonup> u64) \<Rightarrow> ('c, 'q, 'k) timer_system \<Rightarrow> bool" where
  "timers_implement T armed s \<longleftrightarrow>
     implements (sys_timers s) armed (if nt_worker (sys_timers s) then wakeups T s else {})"

lemma tokio_channel:
  assumes "tokio_laws T"
  shows "channel_contents T (unbounded_channel T) = []" "\<not> channel_closed T (unbounded_channel T)"
    "channel_send T cmd c = Some c' \<Longrightarrow>
      channel_contents T c' = channel_contents T c @ [cmd] \<and> channel_closed T c' = channel_closed T c"
    "poll_recv T c = (Ready (Some cmd), c') \<Longrightarrow>
      channel_contents T c = cmd # channel_contents T c' \<and> channel_closed T c' = channel_closed T c"
    "poll_recv T c = (Ready None, c') \<Longrightarrow>
      channel_contents T c = [] \<and> channel_contents T c' = [] \<and> channel_closed T c"
    "poll_recv T c = (Pending, c') \<Longrightarrow>
      channel_contents T c = [] \<and> channel_contents T c' = [] \<and> channel_closed T c' = channel_closed T c"
  using assms unfolding tokio_laws_def by metis+

lemma tokio_queue:
  assumes "tokio_laws T"
  shows "queue_contents T (queue_new T) = Map.empty"
    "queue_insert T w d q = (k, q') \<Longrightarrow>
      queue_contents T q k = None \<and> queue_contents T q' = (queue_contents T q)(k \<mapsto> w)"
    "queue_contents T (queue_try_remove T k q) = (queue_contents T q)(k := None)"
    "queue_is_empty T q \<longleftrightarrow> queue_contents T q = Map.empty"
    "finite (dom (queue_contents T q))"
    "queue_poll_expired T now q = (Ready (Some w), q') \<Longrightarrow>
      \<exists>k. queue_contents T q k = Some w \<and> queue_contents T q' = (queue_contents T q)(k := None)"
    "queue_poll_expired T now q = (Ready None, q') \<Longrightarrow> queue_contents T q' = queue_contents T q"
    "queue_poll_expired T now q = (Pending, q') \<Longrightarrow> queue_contents T q' = queue_contents T q"
    "queue_contents T q \<noteq> Map.empty \<Longrightarrow> \<exists>now w q'. queue_poll_expired T now q = (Ready (Some w), q')"
  using assms unfolding tokio_laws_def by metis+

section \<open>Refinement\<close>

lemma implements_subset: "implements t armed W \<Longrightarrow> W' \<subseteq> W \<Longrightarrow> implements t armed W'"
  by (auto simp: implements_def)

lemma implements_drop:
  "implements t armed W \<Longrightarrow> implements (t\<lparr>nt_pending := (nt_pending t)(tid := None)\<rparr>) (armed(tid := None)) W"
  by (auto simp: implements_def genuine_def ran_def)

lemma implements_accept:
  assumes "implements t armed W" and "w \<in> W" and "accept_wakeup w t = (r, t')"
  shows "\<exists>armed'. service_run (map Fired (case r of None \<Rightarrow> [] | Some x \<Rightarrow> [x])) armed = Some armed' \<and> implements t' armed' W"
proof (cases "nt_pending t (tw_id (aw_wakeup w)) = Some (aw_generation w)")
  case True
  with assms have "armed (tw_id (aw_wakeup w)) = Some (tw_deadline_ms (aw_wakeup w))"
    by (auto simp: implements_def genuine_def)
  with True assms implements_drop [OF assms(1)] show ?thesis by (auto simp: accept_wakeup_def Let_def)
next
  case False
  with assms show ?thesis by (auto simp: accept_wakeup_def Let_def)
qed

lemma implements_poll:
  assumes "implements t armed W" and "set ws \<subseteq> W" and "poll_loop ws t out = (out', t')"
  shows "\<exists>fired armed'. out' = out @ fired \<and> service_run (map Fired fired) armed = Some armed' \<and> implements t' armed' W"
  using assms
proof (induction ws arbitrary: t armed out)
  case Nil
  then show ?case by auto
next
  case (Cons w ws)
  obtain r t'' where r: "accept_wakeup w t = (r, t'')" by fastforce
  let ?new = "case r of None \<Rightarrow> [] | Some x \<Rightarrow> [x]"
  from implements_accept [OF Cons.prems(1) _ r] Cons.prems(2) obtain armed'' where
    step: "service_run (map Fired ?new) armed = Some armed''" "implements t'' armed'' W" by auto
  from Cons.prems(3) r have "poll_loop ws t'' (out @ ?new) = (out', t')" by (auto split: option.splits)
  from Cons.IH [OF step(2) _ this] Cons.prems(2) obtain fired armed' where
    "out' = (out @ ?new) @ fired" "service_run (map Fired fired) armed'' = Some armed'" "implements t' armed' W"
    by auto
  with step(1) show ?case
    by (intro exI [of _ "?new @ fired"] exI [of _ armed']) (simp add: service_run_append)
qed

lemma less_Suc_generation:
  assumes "(n :: u64) \<noteq> 0xFFFFFFFFFFFFFFFF"
  shows "g < n + 1 \<longleftrightarrow> g \<le> n"
proof -
  have "(- 1 :: u64) = 0xFFFFFFFFFFFFFFFF" by simp
  with assms have "1 + n \<noteq> 0" by (metis add_eq_0_iff)
  then show ?thesis
    using unatSuc [of n] by (simp add: word_less_nat_alt word_le_nat_alt add.commute less_Suc_eq_le)
qed

lemma implements_arm:
  assumes "implements t armed W" and "nt_next_generation t \<noteq> 0xFFFFFFFFFFFFFFFF"
  shows "implements (t\<lparr>nt_next_generation := nt_next_generation t + 1, nt_pending := (nt_pending t)(tid \<mapsto> nt_next_generation t)\<rparr>)
    (armed(tid \<mapsto> deadline)) (insert (mk_armed tid deadline (nt_next_generation t)) W)"
  using assms by (auto simp: implements_def genuine_def less_Suc_generation ran_def dest: less_imp_le)

lemma wakeups_send:
  "tokio_laws T \<Longrightarrow> send T cmd s = Ok s' \<Longrightarrow> wakeups T s' = command_wakeups cmd \<union> wakeups T s \<and>
     sys_timers s' = sys_timers s"
  by (auto simp: send_def wakeups_def dest!: tokio_channel(3) split: option.splits)

lemma worker_implements:
  assumes "tokio_laws T" and "timers_implement T armed s" and "worker T spawned s = Ok s'"
  shows "timers_implement T armed s' \<and> nt_worker (sys_timers s') \<and>
    nt_next_generation (sys_timers s') = nt_next_generation (sys_timers s)"
  using assms by (auto simp: worker_def timers_implement_def implements_def wakeups_def tokio_channel(1) tokio_queue(1)
      genuine_def bind_result_iffs split: if_splits)

lemma schedule_implements:
  assumes laws: "tokio_laws T" and impl: "timers_implement T armed s"
    and sched: "timers_schedule T spawned elapsed tid delay_ms s = (r, s')"
  shows "case r of Ok deadline \<Rightarrow> timers_implement T (armed(tid \<mapsto> deadline)) s' | _ \<Rightarrow> timers_implement T armed s'"
proof -
  let ?g = "nt_next_generation (sys_timers s)" and ?d = "deadline_ms elapsed delay_ms"
  consider "?g = 0xFFFFFFFFFFFFFFFF" | "?g \<noteq> 0xFFFFFFFFFFFFFFFF" "\<And>t. worker T spawned s \<noteq> Ok t"
    | t where "?g \<noteq> 0xFFFFFFFFFFFFFFFF" "worker T spawned s = Ok t" by blast
  then show ?thesis
  proof cases
    case 1
    with sched impl show ?thesis by (auto simp: timers_schedule_def Let_def)
  next
    case 2
    with sched impl show ?thesis by (auto simp: timers_schedule_def Let_def split: result.splits)
  next
    case 3
    note t = worker_implements [OF laws impl 3(2)]
    show ?thesis
    proof (cases "send T (Schedule tid ?d ?g (unat delay_ms)) t")
      case (Ok u)
      note u = wakeups_send [OF laws Ok]
      have "implements (sys_timers t) armed (wakeups T t)" using t by (auto simp: timers_implement_def)
      from implements_arm [OF this, of tid ?d] t u 3(1) sched 3 Ok show ?thesis
        by (auto simp: timers_schedule_def Let_def timers_implement_def wakeups_def)
    qed (use sched 3 t in \<open>auto simp: timers_schedule_def Let_def\<close>)
  qed
qed

lemma cancel_implements:
  assumes laws: "tokio_laws T" and impl: "timers_implement T armed s" and canc: "timers_cancel T tid s = (r, s')"
  shows "\<exists>armed'. service_run (cancel_events tid r) armed = Some armed' \<and> timers_implement T armed' s'"
proof (cases "nt_pending (sys_timers s) tid = None")
  case True
  with canc impl show ?thesis by (auto simp: timers_cancel_def cancel_events_def)
next
  case False
  let ?t = "s\<lparr>sys_timers := (sys_timers s)\<lparr>nt_pending := (nt_pending (sys_timers s))(tid := None)\<rparr>\<rparr>"
  from False impl have armed: "tid \<in> dom armed" by (auto simp: timers_implement_def implements_def)
  have same: "wakeups T ?t = wakeups T s" by (simp add: wakeups_def)
  from impl have t: "timers_implement T (armed(tid := None)) ?t"
    unfolding timers_implement_def same by (auto intro: implements_drop)
  from False canc have r: "r \<noteq> Ok False" and "s' = ?t \<or> (nt_worker (sys_timers ?t) \<and> send T (Cancel tid) ?t = Ok s')"
    by (auto simp: timers_cancel_def Let_def split: if_splits result.splits)
  then have "timers_implement T (armed(tid := None)) s'"
    using t wakeups_send [OF laws, of "Cancel tid" ?t s'] by (auto simp: timers_implement_def)
  with armed r show ?thesis by (simp add: cancel_events_def)
qed

lemma accept_worker: "accept_wakeup w t = (r, t') \<Longrightarrow> nt_worker t' = nt_worker t"
  by (auto simp: accept_wakeup_def Let_def split: if_splits)

lemma poll_loop_worker: "poll_loop ws t out = (out', t') \<Longrightarrow> nt_worker t' = nt_worker t"
  by (induction ws t out rule: poll_loop.induct) (auto split: option.splits prod.splits dest: accept_worker)

lemma received_implements:
  assumes "implements t armed (wakeups T s)" and "set ws \<subseteq> set (sys_expiries s)" and "nt_worker t"
  shows "timers_implement T armed (s\<lparr>sys_timers := t, sys_expiries := ws\<rparr>)"
proof -
  have "wakeups T (s\<lparr>sys_timers := t, sys_expiries := ws\<rparr>) \<subseteq> wakeups T s"
    using assms(2) by (auto simp: wakeups_def)
  from implements_subset [OF assms(1) this] assms(3) show ?thesis by (simp add: timers_implement_def)
qed

lemma poll_implements:
  assumes "timers_implement T armed s" and "timers_poll_expired s [] = (r, out, s')"
  shows "\<exists>armed'. service_run (map Fired out) armed = Some armed' \<and> timers_implement T armed' s'"
proof (cases "nt_worker (sys_timers s)")
  case True
  obtain out' t where loop: "poll_loop (sys_expiries s) (sys_timers s) [] = (out', t)" by fastforce
  have "set (sys_expiries s) \<subseteq> wakeups T s" by (auto simp: wakeups_def)
  from implements_poll [OF _ this loop] assms(1) True obtain armed' where
    "service_run (map Fired out') armed = Some armed'" "implements t armed' (wakeups T s)"
    by (auto simp: timers_implement_def)
  with assms(2) True loop poll_loop_worker [OF loop] show ?thesis
    by (auto simp: timers_poll_expired_def intro: received_implements)
next
  case False
  with assms show ?thesis by (auto simp: timers_poll_expired_def)
qed

lemma wait_implements:
  assumes "timers_implement T armed s" and "wait_round is_cancelled s = (r, s')"
  shows "\<exists>armed'. service_run (wait_events r) armed = Some armed' \<and> timers_implement T armed' s'"
proof (cases "has_pending (sys_timers s) \<and> \<not> is_cancelled \<and> nt_worker (sys_timers s) \<and> sys_expiries s \<noteq> []")
  case True
  then obtain w ws where ws: "sys_expiries s = w # ws" by (auto simp: neq_Nil_conv)
  obtain a t where acc: "accept_wakeup w (sys_timers s) = (a, t)" by fastforce
  have "w \<in> wakeups T s" by (simp add: wakeups_def ws)
  from implements_accept [OF _ this acc] assms(1) True obtain armed' where
    "service_run (map Fired (case a of None \<Rightarrow> [] | Some x \<Rightarrow> [x])) armed = Some armed'" "implements t armed' (wakeups T s)"
    by (auto simp: timers_implement_def)
  with assms(2) True ws acc accept_worker [OF acc] show ?thesis
    by (auto simp: wait_round_def split: option.splits intro!: received_implements)
next
  case False
  with assms show ?thesis by (auto simp: wait_round_def split: if_splits list.splits)
qed

lemma ran_upd_subset: "ran (m(k := None)) \<subseteq> ran m" "ran (m(k \<mapsto> v)) \<subseteq> insert v (ran m)"
  by (auto simp: ran_def)

lemma worker_wakeups:
  assumes laws: "tokio_laws T"
  shows "wakeups T (worker_schedule T tid deadline generation delay s) \<subseteq> insert (mk_armed tid deadline generation) (wakeups T s)"
    "wakeups T (worker_cancel T tid s) \<subseteq> wakeups T s"
    "wakeups T (worker_expired w s) \<subseteq> insert w (wakeups T s)"
proof -
  let ?q = "case sys_keys s tid of Some previous \<Rightarrow> queue_try_remove T previous (sys_queue s) | None \<Rightarrow> sys_queue s"
  obtain k q where ins: "queue_insert T (mk_armed tid deadline generation) delay ?q = (k, q)" by fastforce
  have "ran (queue_contents T ?q) \<subseteq> ran (queue_contents T (sys_queue s))"
    by (auto simp: tokio_queue(3) [OF laws] ran_def split: option.splits)
  with ins tokio_queue(2) [OF laws ins] ran_upd_subset(2) [of "queue_contents T ?q"]
  show "wakeups T (worker_schedule T tid deadline generation delay s) \<subseteq> insert (mk_armed tid deadline generation) (wakeups T s)"
    by (fastforce simp: worker_schedule_def Let_def wakeups_def)
  show "wakeups T (worker_cancel T tid s) \<subseteq> wakeups T s"
    by (auto simp: worker_cancel_def wakeups_def tokio_queue(3) [OF laws] ran_def split: option.splits)
  show "wakeups T (worker_expired w s) \<subseteq> insert w (wakeups T s)"
    by (auto simp: worker_expired_def Let_def wakeups_def)
qed

lemma worker_timers [simp]:
  "sys_timers (worker_command T cmd s) = sys_timers s" "sys_timers (worker_poll T now s) = sys_timers s"
  by (cases cmd) (auto simp: worker_schedule_def worker_cancel_def worker_poll_def worker_expired_def Let_def
      split: option.splits prod.splits Poll.splits)

lemma worker_poll_wakeups:
  assumes laws: "tokio_laws T"
  shows "wakeups T (worker_poll T now s) \<subseteq> wakeups T s"
proof -
  obtain e q where poll: "queue_poll_expired T now (sys_queue s) = (e, q)" by fastforce
  show ?thesis
  proof (cases "\<exists>w. e = Ready (Some w)")
    case True
    then obtain w where w: "e = Ready (Some w)" by blast
    from tokio_queue(6) [OF laws poll [unfolded w]] have "insert w (wakeups T (s\<lparr>sys_queue := q\<rparr>)) \<subseteq> wakeups T s"
      by (auto simp: wakeups_def ran_def split: if_splits)
    with worker_wakeups(3) [OF laws, of w "s\<lparr>sys_queue := q\<rparr>"] poll w show ?thesis
      by (auto simp: worker_poll_def)
  next
    case False
    with poll have "queue_contents T q = queue_contents T (sys_queue s)"
      by (metis (full_types) Poll.exhaust not_Some_eq tokio_queue(7,8) [OF laws])
    with False poll show ?thesis by (auto simp: worker_poll_def wakeups_def split: Poll.splits option.splits)
  qed
qed

lemma worker_turn_wakeups:
  assumes laws: "tokio_laws T"
  shows "wakeups T (worker_turn T now s) \<subseteq> wakeups T s \<and> sys_timers (worker_turn T now s) = sys_timers s"
proof -
  obtain p c where recv: "poll_recv T (sys_commands s) = (p, c)" by fastforce
  let ?s = "s\<lparr>sys_commands := c\<rparr>"
  consider "p = Pending" | "p = Ready None" | d where "p = Ready (Some d)" by (metis Poll.exhaust not_Some_eq)
  then show ?thesis
  proof cases
    case 1
    with tokio_channel(6) [OF laws, of "sys_commands s" c] recv have "wakeups T ?s \<subseteq> wakeups T s"
      by (auto simp: wakeups_def)
    with worker_poll_wakeups [OF laws, of now ?s] recv 1 show ?thesis by (auto simp: worker_turn_def)
  next
    case 2
    with tokio_channel(5) [OF laws, of "sys_commands s" c] recv show ?thesis
      by (auto simp: worker_turn_def wakeups_def)
  next
    case (3 d)
    with tokio_channel(4) [OF laws, of "sys_commands s" d c] recv
    have "command_wakeups d \<union> wakeups T ?s \<subseteq> wakeups T s" by (auto simp: wakeups_def)
    moreover have "wakeups T (worker_command T d ?s) \<subseteq> command_wakeups d \<union> wakeups T ?s"
      using worker_wakeups(1,2) [OF laws] by (cases d) auto
    ultimately show ?thesis using recv 3 by (auto simp: worker_turn_def)
  qed
qed

lemma step_implements:
  assumes "tokio_laws T" and "timers_step T s es s'" and "timers_implement T armed s"
  shows "\<exists>armed'. service_run es armed = Some armed' \<and> timers_implement T armed' s'"
  using assms(2,3)
proof cases
  case (scheduled spawned elapsed tid delay_ms deadline)
  with schedule_implements [OF assms(1,3)] show ?thesis by force
next
  case (schedule_failed spawned elapsed tid delay_ms e)
  with schedule_implements [OF assms(1,3)] show ?thesis by force
next
  case (worked now)
  with worker_turn_wakeups [OF assms(1), of now s] assms(3) show ?thesis
    by (auto simp: timers_implement_def intro: implements_subset)
qed (use cancel_implements [OF assms(1,3)] poll_implements [OF assms(3)] wait_implements [OF assms(3)] in blast)+

lemma run_implements:
  assumes "tokio_laws T" and "timers_run T s es s'" and "timers_init s"
  shows "\<exists>armed. service_run es Map.empty = Some armed \<and> timers_implement T armed s'"
  using assms(2)
proof induction
  case run_nil
  from assms(3) show ?case
    by (auto simp: timers_init_def NodeTimers_new_def timers_implement_def implements_def)
next
  case (run_step es s' fs s'')
  then show ?case using step_implements [OF assms(1)] by (fastforce simp: service_run_append)
qed

section \<open>No wakeup is lost\<close>

text \<open>
  The worker's view of the timers, and the view it will have once it has taken the commands still in
  the channel.
\<close>

definition view :: "('c, 'q, 'k) tokio \<Rightarrow> ('c, 'q, 'k) timer_system \<Rightarrow> u64 \<rightharpoonup> ArmedWakeup" where
  "view T s tid = Option.bind (sys_keys s tid) (queue_contents T (sys_queue s))"

primrec command_effect :: "Command \<Rightarrow> (u64 \<rightharpoonup> ArmedWakeup) \<Rightarrow> u64 \<rightharpoonup> ArmedWakeup" where
  "command_effect (Schedule tid deadline generation delay) v = v(tid \<mapsto> mk_armed tid deadline generation)"
| "command_effect (Cancel tid) v = v(tid := None)"

definition final_view :: "('c, 'q, 'k) tokio \<Rightarrow> ('c, 'q, 'k) timer_system \<Rightarrow> u64 \<rightharpoonup> ArmedWakeup" where
  "final_view T s = fold command_effect (channel_contents T (sys_commands s)) (view T s)"

definition keys_ok :: "('c, 'q, 'k) tokio \<Rightarrow> ('c, 'q, 'k) timer_system \<Rightarrow> bool" where
  "keys_ok T s \<longleftrightarrow>
     (\<forall>k w. queue_contents T (sys_queue s) k = Some w \<longrightarrow> sys_keys s (tw_id (aw_wakeup w)) = Some k) \<and>
     (\<forall>tid k. sys_keys s tid = Some k \<longrightarrow> (\<exists>w. queue_contents T (sys_queue s) k = Some w \<and> tw_id (aw_wakeup w) = tid))"

definition in_flight :: "('c, 'q, 'k) tokio \<Rightarrow> ('c, 'q, 'k) timer_system \<Rightarrow> u64 \<Rightarrow> u64 \<Rightarrow> bool" where
  "in_flight T s tid g \<longleftrightarrow> (\<exists>w. tw_id (aw_wakeup w) = tid \<and> aw_generation w = g \<and>
     (w \<in> set (sys_expiries s) \<or> final_view T s tid = Some w))"

definition served :: "('c, 'q, 'k) tokio \<Rightarrow> ('c, 'q, 'k) timer_system \<Rightarrow> bool" where
  "served T s \<longleftrightarrow> keys_ok T s \<and> sys_running s \<and> sys_receiver s \<and> \<not> channel_closed T (sys_commands s) \<and>
     (\<forall>tid g. nt_pending (sys_timers s) tid = Some g \<longrightarrow> in_flight T s tid g)"

definition timers_served :: "('c, 'q, 'k) tokio \<Rightarrow> ('c, 'q, 'k) timer_system \<Rightarrow> bool" where
  "timers_served T s \<longleftrightarrow> (if nt_worker (sys_timers s) then served T s else nt_pending (sys_timers s) = Map.empty)"

lemma view_updates [simp]:
  "view T (s\<lparr>sys_expiries := ws\<rparr>) = view T s" "keys_ok T (s\<lparr>sys_expiries := ws\<rparr>) = keys_ok T s"
  "view T (s\<lparr>sys_commands := c\<rparr>) = view T s" "keys_ok T (s\<lparr>sys_commands := c\<rparr>) = keys_ok T s"
  "view T (s\<lparr>sys_timers := t\<rparr>) = view T s" "keys_ok T (s\<lparr>sys_timers := t\<rparr>) = keys_ok T s"
  by (simp_all add: view_def fun_eq_iff keys_ok_def)

lemma keys_okD:
  assumes "keys_ok T s"
  shows "queue_contents T (sys_queue s) k = Some w \<Longrightarrow> sys_keys s (tw_id (aw_wakeup w)) = Some k"
    "sys_keys s tid = Some k \<Longrightarrow> \<exists>w. queue_contents T (sys_queue s) k = Some w \<and> tw_id (aw_wakeup w) = tid"
  using assms unfolding keys_ok_def by blast+

lemma keys_ok_injective:
  assumes "keys_ok T s" and "sys_keys s i = Some k" and "sys_keys s j = Some k"
  shows "i = j"
  using keys_okD(2) [OF assms(1,2)] keys_okD(2) [OF assms(1,3)] by auto

lemma keys_ok_remove:
  assumes "keys_ok T s" and "queue_contents T q = (case sys_keys s tid of None \<Rightarrow> queue_contents T (sys_queue s)
      | Some k \<Rightarrow> (queue_contents T (sys_queue s))(k := None))"
  shows "keys_ok T (s\<lparr>sys_queue := q, sys_keys := (sys_keys s)(tid := None)\<rparr>) \<and>
    view T (s\<lparr>sys_queue := q, sys_keys := (sys_keys s)(tid := None)\<rparr>) = (view T s)(tid := None)"
proof (cases "sys_keys s tid")
  case None
  then have "(sys_keys s)(tid := None) = sys_keys s" by auto
  with None assms show ?thesis by (auto simp: keys_ok_def view_def fun_eq_iff split: Option.bind_split)
next
  case (Some k)
  have other: "sys_keys s i \<noteq> Some k" if "i \<noteq> tid" for i
    using keys_ok_injective [OF assms(1) _ Some] that by blast
  have "view T (s\<lparr>sys_queue := q, sys_keys := (sys_keys s)(tid := None)\<rparr>) = (view T s)(tid := None)"
    using assms(2) Some other by (auto simp: view_def fun_eq_iff split: Option.bind_split)
  moreover have "keys_ok T (s\<lparr>sys_queue := q, sys_keys := (sys_keys s)(tid := None)\<rparr>)"
    using assms Some other unfolding keys_ok_def by (auto split: if_splits)
  ultimately show ?thesis by blast
qed

lemma worker_cancel_view:
  assumes "tokio_laws T" and "keys_ok T s"
  shows "keys_ok T (worker_cancel T tid s) \<and> view T (worker_cancel T tid s) = (view T s)(tid := None)"
proof (cases "sys_keys s tid")
  case None
  with assms(2) show ?thesis by (simp add: worker_cancel_def view_def fun_eq_iff)
next
  case (Some k)
  with keys_ok_remove [OF assms(2), of "queue_try_remove T k (sys_queue s)" tid] tokio_queue(3) [OF assms(1)] show ?thesis
    by (simp add: worker_cancel_def)
qed

lemma worker_schedule_view:
  assumes laws: "tokio_laws T" and "keys_ok T s"
  shows "keys_ok T (worker_schedule T tid deadline generation delay s) \<and>
    view T (worker_schedule T tid deadline generation delay s) = (view T s)(tid \<mapsto> mk_armed tid deadline generation)"
proof -
  let ?w = "mk_armed tid deadline generation"
  let ?q = "case sys_keys s tid of Some previous \<Rightarrow> queue_try_remove T previous (sys_queue s) | None \<Rightarrow> sys_queue s"
  let ?t = "s\<lparr>sys_queue := ?q, sys_keys := (sys_keys s)(tid := None)\<rparr>"
  obtain k q where ins: "queue_insert T ?w delay ?q = (k, q)" by fastforce
  have t: "keys_ok T ?t" "view T ?t = (view T s)(tid := None)"
    using keys_ok_remove [OF assms(2), of ?q tid] tokio_queue(3) [OF laws] by (auto split: option.splits)
  have step: "worker_schedule T tid deadline generation delay s = s\<lparr>sys_queue := q, sys_keys := (sys_keys s)(tid \<mapsto> k)\<rparr>"
    using ins by (simp add: worker_schedule_def Let_def)
  note q = tokio_queue(2) [OF laws ins]
  have "keys_ok T (s\<lparr>sys_queue := q, sys_keys := (sys_keys s)(tid \<mapsto> k)\<rparr>)"
    using t(1) q by (auto simp: keys_ok_def split: if_splits)
  moreover have "sys_keys s i \<noteq> Some k" if "i \<noteq> tid" for i
    using keys_okD(2) [OF t(1), of i k] q that by auto
  then have "view T (s\<lparr>sys_queue := q, sys_keys := (sys_keys s)(tid \<mapsto> k)\<rparr>) = (view T ?t)(tid \<mapsto> ?w)"
    using q by (auto simp: view_def fun_eq_iff split: Option.bind_split)
  ultimately show ?thesis using t(2) step by simp
qed

lemma worker_command_served:
  assumes laws: "tokio_laws T" and "served T s" and recv: "poll_recv T (sys_commands s) = (Ready (Some cmd), c)"
  shows "served T (worker_command T cmd (s\<lparr>sys_commands := c\<rparr>)) \<and>
    channel_contents T (sys_commands s) = cmd # channel_contents T (sys_commands (worker_command T cmd (s\<lparr>sys_commands := c\<rparr>)))"
proof -
  let ?s = "s\<lparr>sys_commands := c\<rparr>" and ?t = "worker_command T cmd (s\<lparr>sys_commands := c\<rparr>)"
  note c = tokio_channel(4) [OF laws recv]
  have ok: "keys_ok T ?s" and view: "view T ?s = view T s"
    using assms(2) by (simp_all add: served_def)
  have t: "keys_ok T ?t \<and> view T ?t = command_effect cmd (view T s)"
    using worker_schedule_view [OF laws ok] worker_cancel_view [OF laws ok] view by (cases cmd) auto
  have same: "sys_commands ?t = c" "sys_expiries ?t = sys_expiries s" "sys_running ?t = sys_running s" "sys_receiver ?t = sys_receiver s"
    by (cases cmd; simp add: worker_schedule_def worker_cancel_def Let_def split: option.split prod.split)+
  have "final_view T ?t = final_view T s" using t c same by (simp add: final_view_def)
  with t c same assms(2) show ?thesis by (simp add: served_def in_flight_def)
qed

lemma worker_expired_served:
  assumes laws: "tokio_laws T" and "served T s" and "channel_contents T (sys_commands s) = []"
    and poll: "queue_poll_expired T now (sys_queue s) = (Ready (Some w), q)"
  shows "served T (worker_expired w (s\<lparr>sys_queue := q\<rparr>)) \<and> dom (queue_contents T q) \<subset> dom (queue_contents T (sys_queue s)) \<and>
    sys_commands (worker_expired w (s\<lparr>sys_queue := q\<rparr>)) = sys_commands s \<and>
    sys_queue (worker_expired w (s\<lparr>sys_queue := q\<rparr>)) = q"
proof -
  let ?i = "tw_id (aw_wakeup w)" and ?t = "worker_expired w (s\<lparr>sys_queue := q\<rparr>)"
  from tokio_queue(6) [OF laws poll] obtain k where
    k: "queue_contents T (sys_queue s) k = Some w" "queue_contents T q = (queue_contents T (sys_queue s))(k := None)" by blast
  have ok: "keys_ok T s" using assms(2) by (simp add: served_def)
  note key = keys_okD(1) [OF ok k(1)]
  have t: "?t = s\<lparr>sys_queue := q, sys_keys := (sys_keys s)(?i := None), sys_expiries := sys_expiries s @ [w]\<rparr>"
    using assms(2) by (simp add: worker_expired_def Let_def served_def)
  have vw: "keys_ok T ?t \<and> view T ?t = (view T s)(?i := None)"
    using keys_ok_remove [OF ok, of q ?i] key k(2) t by simp
  have here: "view T s ?i = Some w" using key k(1) by (simp add: view_def)
  have "in_flight T ?t tid g" if "in_flight T s tid g" for tid g
    using that vw here assms(3) unfolding in_flight_def final_view_def t by (auto split: if_splits)
  with vw assms(2) k t show ?thesis by (auto simp: served_def)
qed

lemma worker_turn_served:
  assumes laws: "tokio_laws T" and "served T s"
  shows "served T (worker_turn T now s)"
proof -
  obtain p c where recv: "poll_recv T (sys_commands s) = (p, c)" by fastforce
  let ?s = "s\<lparr>sys_commands := c\<rparr>"
  consider "p = Pending" | "p = Ready None" | d where "p = Ready (Some d)" by (metis Poll.exhaust not_Some_eq)
  then show ?thesis
  proof cases
    case 1
    note c = tokio_channel(6) [OF laws recv [unfolded 1]]
    with assms(2) have s: "served T ?s"
      by (simp add: served_def keys_ok_def in_flight_def final_view_def view_def [abs_def])
    obtain e q where poll: "queue_poll_expired T now (sys_queue s) = (e, q)" by fastforce
    show ?thesis
    proof (cases "\<exists>w. e = Ready (Some w)")
      case True
      with worker_expired_served [OF laws s] c poll s recv 1 show ?thesis by (auto simp: worker_turn_def worker_poll_def)
    next
      case False
      with poll have "queue_contents T q = queue_contents T (sys_queue s)"
        by (metis (full_types) Poll.exhaust not_Some_eq tokio_queue(7,8) [OF laws])
      with s have "served T (?s\<lparr>sys_queue := q\<rparr>)"
        by (simp add: served_def keys_ok_def in_flight_def final_view_def view_def [abs_def])
      with False poll recv 1 s show ?thesis
        by (auto simp: worker_turn_def worker_poll_def split: Poll.splits option.splits)
    qed
  next
    case 2
    with tokio_channel(5) [OF laws, of "sys_commands s" c] recv assms(2) show ?thesis by (simp add: served_def)
  next
    case (3 d)
    with worker_command_served [OF laws assms(2), of d c] recv show ?thesis by (simp add: worker_turn_def)
  qed
qed

text \<open>The operations of the provider keep every pending timer in flight.\<close>

lemma send_served:
  assumes "tokio_laws T" and "send T cmd s = Ok s'" and "keys_ok T s" and "\<not> channel_closed T (sys_commands s)"
  shows "keys_ok T s' \<and> \<not> channel_closed T (sys_commands s') \<and> final_view T s' = command_effect cmd (final_view T s) \<and>
    sys_timers s' = sys_timers s \<and> sys_expiries s' = sys_expiries s \<and> sys_running s' = sys_running s \<and>
    sys_receiver s' = sys_receiver s"
  using assms by (auto simp: send_def final_view_def dest: tokio_channel(3) split: option.splits)

lemma worker_served:
  assumes "tokio_laws T" and "timers_served T s" and "worker T spawned s = Ok s'"
  shows "served T s' \<and> nt_worker (sys_timers s') \<and> nt_next_generation (sys_timers s') = nt_next_generation (sys_timers s)"
  using assms by (auto simp: worker_def timers_served_def served_def keys_ok_def tokio_channel(2) tokio_queue(1)
      bind_result_iffs split: if_splits)

lemma schedule_served:
  assumes laws: "tokio_laws T" and served: "timers_served T s"
    and sched: "timers_schedule T spawned elapsed tid delay_ms s = (r, s')"
  shows "timers_served T s'"
proof -
  let ?g = "nt_next_generation (sys_timers s)" and ?d = "deadline_ms elapsed delay_ms"
  consider "s' = s" | t where "worker T spawned s = Ok t" "s' = t"
    | t u where "worker T spawned s = Ok t" "send T (Schedule tid ?d ?g (unat delay_ms)) t = Ok u"
      "s' = u\<lparr>sys_timers := (sys_timers u)\<lparr>nt_next_generation := ?g + 1, nt_pending := (nt_pending (sys_timers u))(tid \<mapsto> ?g)\<rparr>\<rparr>"
    using sched by (auto simp: timers_schedule_def Let_def split: if_splits result.splits)
  then show ?thesis
  proof cases
    case 1
    with served show ?thesis by simp
  next
    case (2 t)
    with worker_served [OF laws served] show ?thesis by (auto simp: timers_served_def)
  next
    case (3 t u)
    note t = worker_served [OF laws served 3(1)]
    then have u: "keys_ok T u \<and> \<not> channel_closed T (sys_commands u) \<and>
        final_view T u = (final_view T t)(tid \<mapsto> mk_armed tid ?d ?g) \<and> sys_timers u = sys_timers t \<and>
        sys_expiries u = sys_expiries t \<and> sys_running u \<and> sys_receiver u"
      using send_served [OF laws 3(2)] by (auto simp: served_def)
    have final: "final_view T s' = final_view T u" by (simp add: 3(3) final_view_def)
    with u have new: "in_flight T s' tid ?g"
      unfolding in_flight_def by (intro exI [of _ "mk_armed tid ?d ?g"]) simp
    have "in_flight T s' i g" if "in_flight T t i g" "i \<noteq> tid" for i g
      using that final u 3(3) by (simp add: in_flight_def)
    with new t u 3(3) show ?thesis by (auto simp: timers_served_def served_def)
  qed
qed

lemma cancel_served:
  assumes laws: "tokio_laws T" and served: "timers_served T s" and canc: "timers_cancel T tid s = (r, s')"
  shows "timers_served T s'"
proof (cases "nt_pending (sys_timers s) tid = None")
  case True
  with canc served show ?thesis by (simp add: timers_cancel_def)
next
  case False
  let ?t = "s\<lparr>sys_timers := (sys_timers s)\<lparr>nt_pending := (nt_pending (sys_timers s))(tid := None)\<rparr>\<rparr>"
  from False served have s: "nt_worker (sys_timers s)" "served T s" by (auto simp: timers_served_def split: if_splits)
  have same: "final_view T ?t = final_view T s" by (simp add: final_view_def)
  from s same have t: "served T ?t" by (auto simp: served_def in_flight_def)
  from False canc s(1) have "s' = ?t \<or> send T (Cancel tid) ?t = Ok s'"
    by (auto simp: timers_cancel_def Let_def split: if_splits result.splits)
  then show ?thesis
  proof
    assume "send T (Cancel tid) ?t = Ok s'"
    with send_served [OF laws this] t s same show ?thesis by (auto simp: timers_served_def served_def in_flight_def)
  qed (use t s in \<open>simp add: timers_served_def\<close>)
qed

lemma accept_pending:
  "accept_wakeup w t = (r, t') \<Longrightarrow> nt_pending t' tid = Some g \<Longrightarrow>
     nt_pending t tid = Some g \<and> (tw_id (aw_wakeup w), aw_generation w) \<noteq> (tid, g)"
  by (auto simp: accept_wakeup_def Let_def split: if_splits)

lemma poll_loop_pending:
  "poll_loop ws t out = (out', t') \<Longrightarrow> nt_pending t' tid = Some g \<Longrightarrow>
     nt_pending t tid = Some g \<and> (\<forall>w \<in> set ws. (tw_id (aw_wakeup w), aw_generation w) \<noteq> (tid, g))"
proof (induction ws arbitrary: t out)
  case (Cons w ws)
  obtain r t'' where r: "accept_wakeup w t = (r, t'')" by fastforce
  from Cons.prems(1) r have "poll_loop ws t'' (out @ (case r of None \<Rightarrow> [] | Some x \<Rightarrow> [x])) = (out', t')"
    by (auto split: option.splits)
  from Cons.IH [OF this Cons.prems(2)] accept_pending [OF r] show ?case by auto
qed simp

lemma received_served:
  assumes "served T s" and "sys_expiries s = us @ ws"
    and "\<And>tid g. nt_pending t tid = Some g \<Longrightarrow>
      nt_pending (sys_timers s) tid = Some g \<and> (\<forall>w \<in> set us. (tw_id (aw_wakeup w), aw_generation w) \<noteq> (tid, g))"
  shows "served T (s\<lparr>sys_timers := t, sys_expiries := ws\<rparr>)"
proof -
  have final: "final_view T (s\<lparr>sys_timers := t, sys_expiries := ws\<rparr>) = final_view T s" by (simp add: final_view_def)
  have "in_flight T (s\<lparr>sys_timers := t, sys_expiries := ws\<rparr>) tid g" if "nt_pending t tid = Some g" for tid g
    using assms that final by (fastforce simp: served_def in_flight_def)
  with assms(1) show ?thesis by (simp add: served_def)
qed

lemma poll_served:
  assumes "timers_served T s" and "timers_poll_expired s [] = (r, out, s')"
  shows "timers_served T s'"
proof (cases "nt_worker (sys_timers s)")
  case True
  obtain out' t where loop: "poll_loop (sys_expiries s) (sys_timers s) [] = (out', t)" by fastforce
  from True assms(1) have "served T s" by (simp add: timers_served_def)
  from received_served [OF this, of "sys_expiries s" "[]" t] poll_loop_pending [OF loop]
  have "served T (s\<lparr>sys_timers := t, sys_expiries := []\<rparr>)" by simp
  with True assms(2) loop poll_loop_worker [OF loop] show ?thesis
    by (auto simp: timers_poll_expired_def timers_served_def)
next
  case False
  with assms show ?thesis by (auto simp: timers_poll_expired_def)
qed

lemma wait_served:
  assumes "timers_served T s" and "wait_round is_cancelled s = (r, s')"
  shows "timers_served T s'"
proof (cases "has_pending (sys_timers s) \<and> \<not> is_cancelled \<and> nt_worker (sys_timers s) \<and> sys_expiries s \<noteq> []")
  case True
  then obtain w ws where ws: "sys_expiries s = w # ws" by (auto simp: neq_Nil_conv)
  obtain a t where acc: "accept_wakeup w (sys_timers s) = (a, t)" by fastforce
  from True assms(1) have "served T s" by (simp add: timers_served_def)
  from received_served [OF this, of "[w]" ws t] ws accept_pending [OF acc]
  have "served T (s\<lparr>sys_timers := t, sys_expiries := ws\<rparr>)" by simp
  with True assms(2) ws acc accept_worker [OF acc] show ?thesis
    by (auto simp: wait_round_def timers_served_def split: option.splits)
next
  case False
  with assms show ?thesis by (auto simp: wait_round_def split: if_splits list.splits)
qed

lemma step_served:
  assumes "tokio_laws T" and "timers_step T s es s'" and "timers_served T s"
  shows "timers_served T s'"
  using assms(2)
proof cases
  case scheduled
  show ?thesis by (rule schedule_served [OF assms(1,3) scheduled(2)])
next
  case schedule_failed
  show ?thesis by (rule schedule_served [OF assms(1,3) schedule_failed(2)])
next
  case cancelled
  show ?thesis by (rule cancel_served [OF assms(1,3) cancelled(2)])
next
  case polled
  show ?thesis by (rule poll_served [OF assms(3) polled(2)])
next
  case waited
  show ?thesis by (rule wait_served [OF assms(3) waited(2)])
next
  case (worked now)
  with assms(3) worker_turn_served [OF assms(1), of s now] worker_turn_wakeups [OF assms(1), of now s] show ?thesis
    by (simp add: timers_served_def)
qed

lemma run_served:
  assumes "tokio_laws T" and "timers_run T s es s'" and "timers_init s"
  shows "timers_served T s'"
  using assms(2)
proof induction
  case run_nil
  from assms(3) show ?case by (simp add: timers_init_def NodeTimers_new_def timers_served_def)
next
  case (run_step es s' fs s'')
  then show ?case using step_served [OF assms(1)] by blast
qed

section \<open>Every armed timer can still fire\<close>

lemma run_append:
  assumes "timers_run T s es s'" and "timers_run T s' fs s''"
  shows "timers_run T s (es @ fs) s''"
  using assms(2)
proof induction
  case run_nil
  with assms(1) show ?case by simp
next
  case (run_step fs t gs u)
  then show ?case using timers_run.run_step [of T s "es @ fs" t gs u] by simp
qed

lemma run_worker_turn:
  "nt_worker (sys_timers s) \<Longrightarrow> sys_running s \<Longrightarrow> timers_run T s [] (worker_turn T now s)"
  using run_step [OF run_nil worked, of s T now] by simp

lemma run_worker_turns: "timers_run T s [] (fold (worker_may_turn T) turns s)"
proof (induction turns arbitrary: s)
  case (Cons now turns)
  have "timers_run T s [] (worker_may_turn T now s)"
    using run_nil [of T s] run_worker_turn [of s T now] by (simp add: worker_may_turn_def)
  from run_append [OF this Cons.IH] show ?case by simp
qed (simp add: run_nil)

lemma wait_expired_run:
  "wait_expired T rounds s = (r, s') \<Longrightarrow> timers_run T s (wait_events r) s'"
proof (induction T rounds s rule: wait_expired.induct)
  case (2 T turns is_cancelled rounds s)
  let ?t = "fold (worker_may_turn T) turns s"
  obtain q u where round: "wait_round is_cancelled ?t = (q, u)" by fastforce
  from run_step [OF run_worker_turns waited [OF round]] have head: "timers_run T s (wait_events q) u" by simp
  show ?case
  proof (cases q)
    case None
    with 2 round have "timers_run T u (wait_events r) s'" by simp
    from run_append [OF head this] None show ?thesis by simp
  next
    case (Some x)
    with 2(2) round head show ?thesis by simp
  qed
qed (simp add: run_nil)

lemma take_commands:
  assumes laws: "tokio_laws T" and "served T s" and "nt_worker (sys_timers s)"
  shows "\<exists>s'. timers_run T s [] s' \<and> served T s' \<and> sys_timers s' = sys_timers s \<and>
    channel_contents T (sys_commands s') = []"
  using assms(2,3)
proof (induction "length (channel_contents T (sys_commands s))" arbitrary: s)
  case 0
  then show ?case using run_nil by fastforce
next
  case (Suc n)
  obtain p c where recv: "poll_recv T (sys_commands s) = (p, c)" by fastforce
  from Suc.hyps(2) have "p \<noteq> Pending" "p \<noteq> Ready None"
    using tokio_channel(5,6) [OF laws, of "sys_commands s" c] recv by auto
  then obtain cmd where cmd: "poll_recv T (sys_commands s) = (Ready (Some cmd), c)"
    using recv by (metis Poll.exhaust not_Some_eq)
  let ?t = "worker_command T cmd (s\<lparr>sys_commands := c\<rparr>)"
  note t = worker_command_served [OF laws Suc.prems(1) cmd]
  have turn: "worker_turn T 0 s = ?t" by (simp add: worker_turn_def cmd)
  from Suc.prems have run: "timers_run T s [] ?t"
    using run_worker_turn [of s T 0] by (simp add: turn served_def)
  from Suc.hyps(2) t have "n = length (channel_contents T (sys_commands ?t))" by simp
  from Suc.hyps(1) [OF this] t Suc.prems(2) obtain s' where
    "timers_run T ?t [] s'" "served T s'" "sys_timers s' = sys_timers s" "channel_contents T (sys_commands s') = []" by auto
  with run_append [OF run] show ?case by auto
qed

lemma expire_all:
  assumes laws: "tokio_laws T" and "served T s" and "nt_worker (sys_timers s)" and "channel_contents T (sys_commands s) = []"
  shows "\<exists>s'. timers_run T s [] s' \<and> served T s' \<and> sys_timers s' = sys_timers s \<and>
    channel_contents T (sys_commands s') = [] \<and> queue_contents T (sys_queue s') = Map.empty"
  using assms(2-)
proof (induction "card (dom (queue_contents T (sys_queue s)))" arbitrary: s rule: less_induct)
  case less
  show ?case
  proof (cases "queue_contents T (sys_queue s) = Map.empty")
    case True
    with less.prems show ?thesis using run_nil by fastforce
  next
    case False
    then obtain now w q where poll: "queue_poll_expired T now (sys_queue s) = (Ready (Some w), q)"
      using tokio_queue(9) [OF laws] by blast
    obtain p c where recv: "poll_recv T (sys_commands s) = (p, c)" by fastforce
    with less.prems have "p = Pending"
      using tokio_channel(4,5) [OF laws, of "sys_commands s"] by (cases p) (fastforce simp: served_def split: option.split)+
    note recv = recv [unfolded this] and c = tokio_channel(6) [OF laws recv [unfolded this]]
    let ?s = "s\<lparr>sys_commands := c\<rparr>"
    have s: "served T ?s" using less.prems(1) c by (simp add: served_def in_flight_def final_view_def)
    let ?t = "worker_expired w (?s\<lparr>sys_queue := q\<rparr>)"
    note t = worker_expired_served [OF laws s _ , of now w q]
    have turn: "worker_turn T now s = ?t" using False by (simp add: worker_turn_def worker_poll_def recv poll tokio_queue(4) [OF laws])
    have same: "sys_timers ?t = sys_timers s" by (simp add: worker_expired_def Let_def)
    from less.prems have run: "timers_run T s [] ?t"
      using run_worker_turn [of s T now] by (simp add: turn served_def)
    have "card (dom (queue_contents T (sys_queue ?t))) < card (dom (queue_contents T (sys_queue s)))"
      using t c poll tokio_queue(5) [OF laws] by (intro psubset_card_mono) auto
    from less.hyps [OF this] t c poll same less.prems(2) obtain s' where
      "timers_run T ?t [] s'" "served T s'" "sys_timers s' = sys_timers s" "channel_contents T (sys_commands s') = []"
      "queue_contents T (sys_queue s') = Map.empty" by auto
    with run_append [OF run] show ?thesis by auto
  qed
qed

lemma poll_loop_grows: "poll_loop ws t out = (out', t') \<Longrightarrow> set out \<subseteq> set out'"
  by (induction ws t out rule: poll_loop.induct) (auto split: option.splits prod.splits)

lemma poll_loop_fires:
  "poll_loop ws t out = (out', t') \<Longrightarrow> nt_pending t tid \<noteq> nt_pending t' tid \<Longrightarrow> \<exists>x \<in> set out'. tw_id x = tid"
proof (induction ws arbitrary: t out)
  case (Cons w ws)
  obtain r t'' where r: "accept_wakeup w t = (r, t'')" by fastforce
  let ?out = "out @ (case r of None \<Rightarrow> [] | Some x \<Rightarrow> [x])"
  from Cons.prems(1) r have rest: "poll_loop ws t'' ?out = (out', t')" by (auto split: option.splits)
  show ?case
  proof (cases "nt_pending t tid = nt_pending t'' tid")
    case True
    with Cons.IH [OF rest] Cons.prems(2) show ?thesis by simp
  next
    case False
    with r have "r = Some (aw_wakeup w)" "tw_id (aw_wakeup w) = tid"
      by (auto simp: accept_wakeup_def Let_def split: if_splits)
    with poll_loop_grows [OF rest] show ?thesis by auto
  qed
qed simp

lemma fired_armed:
  "service_run (map Fired out) armed = Some armed' \<Longrightarrow> x \<in> set out \<Longrightarrow> armed (tw_id x) = Some (tw_deadline_ms x)"
proof (induction out arbitrary: armed)
  case (Cons y out)
  then have y: "armed (tw_id y) = Some (tw_deadline_ms y)"
    and rest: "service_run (map Fired out) (armed(tw_id y := None)) = Some armed'" by (auto split: if_splits)
  from Cons.IH [OF rest] Cons.prems(2) y show ?case by (auto split: if_splits)
qed simp

lemma poll_fires_armed:
  assumes laws: "tokio_laws T" and "timers_implement T armed s" and "served T s" and "nt_worker (sys_timers s)"
    and "channel_contents T (sys_commands s) = []" and "queue_contents T (sys_queue s) = Map.empty"
    and "armed tid = Some d" and poll: "timers_poll_expired s [] = (r, out, s')"
  shows "\<lparr>tw_id = tid, tw_deadline_ms = d\<rparr> \<in> set out"
proof -
  from assms(2) have "dom armed = dom (nt_pending (sys_timers s))" by (simp add: timers_implement_def implements_def)
  with assms(7) obtain g where g: "nt_pending (sys_timers s) tid = Some g" by blast
  have "final_view T s tid = None" using assms(5,6) by (simp add: final_view_def view_def split: Option.bind_split)
  moreover have "in_flight T s tid g" using g assms(3) by (simp add: served_def)
  ultimately obtain w where w: "tw_id (aw_wakeup w) = tid" "aw_generation w = g" "w \<in> set (sys_expiries s)"
    by (auto simp: in_flight_def)
  obtain t where loop: "poll_loop (sys_expiries s) (sys_timers s) [] = (out, t)"
    using poll assms(4) by (auto simp: timers_poll_expired_def split: prod.splits)
  have "nt_pending t tid \<noteq> Some g" using poll_loop_pending [OF loop, of tid g] w by auto
  with poll_loop_fires [OF loop, of tid] g obtain x where x: "x \<in> set out" "tw_id x = tid" by auto
  from poll_implements [OF assms(2) poll] fired_armed [of out armed _ x] x assms(7) show ?thesis
    by (cases x) auto
qed

lemma armed_can_fire:
  assumes laws: "tokio_laws T" and run: "timers_run T s0 es s" and init: "timers_init s0"
    and "service_run es Map.empty = Some armed" and "armed tid = Some d"
  shows "\<exists>fs s'. timers_run T s fs s' \<and> Fired \<lparr>tw_id = tid, tw_deadline_ms = d\<rparr> \<in> set fs"
proof -
  from run_implements [OF laws run init] assms(4) have impl: "timers_implement T armed s" by auto
  with assms(5) have "nt_pending (sys_timers s) \<noteq> Map.empty"
    by (fastforce simp: timers_implement_def implements_def)
  with run_served [OF laws run init] have s: "nt_worker (sys_timers s)" "served T s"
    by (auto simp: timers_served_def split: if_splits)
  from take_commands [OF laws s(2,1)] obtain s1 where
    s1: "timers_run T s [] s1" "served T s1" "sys_timers s1 = sys_timers s" "channel_contents T (sys_commands s1) = []" by blast
  from expire_all [OF laws s1(2) _ s1(4)] s1(3) s(1) obtain s2 where
    s2: "timers_run T s1 [] s2" "served T s2" "sys_timers s2 = sys_timers s"
      "channel_contents T (sys_commands s2) = []" "queue_contents T (sys_queue s2) = Map.empty" by auto
  from run_append [OF s1(1) s2(1)] have quiet: "timers_run T s [] s2" by simp
  obtain r out s3 where poll: "timers_poll_expired s2 [] = (r, out, s3)" by (metis prod_cases3)
  from run_append [OF run quiet] have "timers_run T s0 es s2" by simp
  with run_implements [OF laws _ init] assms(4) have "timers_implement T armed s2" by fastforce
  from poll_fires_armed [OF laws this s2(2) _ s2(4,5) assms(5) poll] s2(3) s(1)
  have "\<lparr>tw_id = tid, tw_deadline_ms = d\<rparr> \<in> set out" by simp
  moreover have "timers_run T s (map Fired out) s3" using run_step [OF quiet polled [OF poll]] by simp
  ultimately show ?thesis by force
qed

section \<open>An instance of the third-party operations\<close>

text \<open>A list of commands, and a list of keyed wakeups that expire in order, satisfy the laws.\<close>

type_synonym list_queue = "(nat \<times> nat \<times> ArmedWakeup) list"

definition fresh_key :: "list_queue \<Rightarrow> nat" where
  "fresh_key q = Suc (foldr (\<lambda>(k, _) m. max k m) q 0)"

definition list_tokio :: "(Command list, list_queue, nat) tokio" where
  "list_tokio =
    \<lparr>unbounded_channel = [],
     channel_send = (\<lambda>cmd c. Some (c @ [cmd])),
     poll_recv = (\<lambda>c. case c of [] \<Rightarrow> (Pending, []) | cmd # c \<Rightarrow> (Ready (Some cmd), c)),
     queue_new = [],
     queue_insert = (\<lambda>w d q. (fresh_key q, q @ [(fresh_key q, d, w)])),
     queue_try_remove = (\<lambda>k q. filter (\<lambda>(k', _). k' \<noteq> k) q),
     queue_is_empty = (\<lambda>q. q = []),
     queue_poll_expired = (\<lambda>now q. case q of
        [] \<Rightarrow> (Ready None, [])
      | (k, d, w) # _ \<Rightarrow> if d \<le> now then (Ready (Some w), filter (\<lambda>(k', _). k' \<noteq> k) q) else (Pending, q)),
     channel_contents = (\<lambda>c. c),
     channel_closed = (\<lambda>_. False),
     queue_contents = (\<lambda>q. map_of (map (\<lambda>(k, _, w). (k, w)) q))\<rparr>"

lemma fresh_key: "map_of (map (\<lambda>(k, _, w). (k, w)) q) (fresh_key q) = None"
proof -
  have "k < Suc (foldr (\<lambda>(k, _) m. max k m) q 0)" if "(k, v) \<in> set q" for k v
    using that by (induction q) auto
  then show ?thesis by (fastforce simp: fresh_key_def map_of_eq_None_iff)
qed

lemma contents_remove:
  "map_of (map (\<lambda>(k, _, w). (k, w)) (filter (\<lambda>(k', _). k' \<noteq> k) q)) = (map_of (map (\<lambda>(k, _, w). (k, w)) q))(k := None)"
  by (induction q) (auto simp: fun_eq_iff)

lemma contents_insert: "m k = None \<Longrightarrow> [k \<mapsto> w] ++ m = m(k \<mapsto> w)"
  by (auto simp: map_add_def fun_eq_iff split: option.splits)

lemma list_tokio_expires:
  "queue_poll_expired list_tokio now q = (Ready (Some w), q') \<Longrightarrow>
    \<exists>k. queue_contents list_tokio q k = Some w \<and> queue_contents list_tokio q' = (queue_contents list_tokio q)(k := None)"
  "queue_contents list_tokio q \<noteq> Map.empty \<Longrightarrow> \<exists>now w q'. queue_poll_expired list_tokio now q = (Ready (Some w), q')"
proof -
  assume "queue_poll_expired list_tokio now q = (Ready (Some w), q')"
  then obtain k d us where "q = (k, d, w) # us" "q' = filter (\<lambda>(k', _). k' \<noteq> k) q"
    by (auto simp: list_tokio_def split: list.splits if_splits)
  then have "queue_contents list_tokio q k = Some w \<and> queue_contents list_tokio q' = (queue_contents list_tokio q)(k := None)"
    by (simp add: list_tokio_def contents_remove)
  then show "\<exists>k. queue_contents list_tokio q k = Some w \<and> queue_contents list_tokio q' = (queue_contents list_tokio q)(k := None)"
    by blast
next
  assume "queue_contents list_tokio q \<noteq> Map.empty"
  then obtain k d w us where "q = (k, d, w) # us" by (cases q) (auto simp: list_tokio_def)
  then have "queue_poll_expired list_tokio d q = (Ready (Some w), filter (\<lambda>(k', _). k' \<noteq> k) q)"
    by (simp add: list_tokio_def)
  then show "\<exists>now w q'. queue_poll_expired list_tokio now q = (Ready (Some w), q')" by blast
qed

lemma list_tokio_laws: "tokio_laws list_tokio"
  unfolding tokio_laws_def
  by (intro conjI allI impI; (rule list_tokio_expires, assumption)?)
    (auto simp: list_tokio_def fresh_key contents_remove contents_insert finite_dom_map_of
      split: list.splits if_splits)

definition idle_timers :: "(Command list, list_queue, nat) timer_system" where
  "idle_timers = \<lparr>sys_timers = NodeTimers_new, sys_commands = [], sys_queue = [], sys_keys = Map.empty,
    sys_expiries = [], sys_receiver = False, sys_running = False\<rparr>"

lemma idle_timers_init: "timers_init idle_timers"
  by (simp add: timers_init_def idle_timers_def)

lemma idle_schedule:
  "fst (timers_schedule list_tokio (Ok ()) 0 7 50 idle_timers) = Ok 50"
  by (simp add: timers_schedule_def idle_timers_def NodeTimers_new_def worker_def send_def list_tokio_def Let_def
      deadline_ms_def u64_saturating_def)

lemma idle_schedule_run:
  "timers_run list_tokio idle_timers [Armed 7 50] (snd (timers_schedule list_tokio (Ok ()) 0 7 50 idle_timers))"
  using run_step [OF run_nil scheduled, of list_tokio "Ok ()" 0 7 50 idle_timers 50
      "snd (timers_schedule list_tokio (Ok ()) 0 7 50 idle_timers)"] idle_schedule
  by (simp add: prod_eq_iff)

end
