(* ===== verification/Native_Value.thy ===== *)
theory Native_Value
  imports Word_Facts
begin

text \<open>
  The NaN-boxed value word shared by the interpreter and native code (\<^verbatim>\<open>crates/bamts-native/src/lib.rs\<close>):
  13 header bits, 3 tag bits, 48 payload bits. A double is its bit pattern (\<open>to_bits\<close> and \<open>from_bits\<close>
  are the identity on it). The specification is the field decomposition of the word as arithmetic.
\<close>

type_synonym f64_bits = u64
type_synonym Value = u64

definition f64_is_nan :: "f64_bits \<Rightarrow> bool" where
  "f64_is_nan x \<longleftrightarrow> x AND 0x7FF0000000000000 = 0x7FF0000000000000 \<and> x AND 0x000FFFFFFFFFFFFF \<noteq> 0"

section \<open>Fields\<close>

definition TAG_MASK :: u64 where "TAG_MASK = 7"
definition PAYLOAD_MASK :: u64 where "PAYLOAD_MASK = push_bit 48 1 - 1"
definition UPPER_MASK :: u64 where "UPPER_MASK = 0xFFFF00000000"
definition HEADER_MASK :: u64 where "HEADER_MASK = push_bit 51 0x1FFF"
definition CANON_NAN :: u64 where "CANON_NAN = push_bit 51 4095"

definition TAG_HEAP_REF :: u8 where "TAG_HEAP_REF = 1"
definition TAG_INT32 :: u8 where "TAG_INT32 = 2"
definition TAG_UNDEFINED :: u8 where "TAG_UNDEFINED = 3"
definition TAG_NULL :: u8 where "TAG_NULL = 4"
definition TAG_BOOLEAN :: u8 where "TAG_BOOLEAN = 5"
definition TAG_HOLE :: u8 where "TAG_HOLE = 6"
definition TAG_UNINITIALIZED :: u8 where "TAG_UNINITIALIZED = 7"

definition tag_of :: "u64 \<Rightarrow> u64" where
  "tag_of bits = drop_bit 48 bits AND TAG_MASK"

definition is_boxed :: "u64 \<Rightarrow> bool" where
  "is_boxed bits \<longleftrightarrow> bits AND HEADER_MASK = CANON_NAN \<and> tag_of bits \<noteq> 0"

definition boxed :: "u8 \<Rightarrow> u64 \<Rightarrow> u64" where
  "boxed tag payload = (CANON_NAN OR push_bit 48 (ucast tag)) OR payload"

section \<open>Slots and decoded values\<close>

record SlotId =
  slot_segment :: u16
  slot_slot :: u32

definition SlotId_from_parts :: "u16 \<Rightarrow> u32 \<Rightarrow> SlotId option" where
  "SlotId_from_parts segment slot =
    (if segment \<noteq> 0 \<and> slot \<noteq> 0 then Some \<lparr>slot_segment = segment, slot_slot = slot\<rparr> else None)"

definition slot_payload :: "SlotId \<Rightarrow> u64" where
  "slot_payload sid = push_bit 32 (ucast (slot_segment sid)) OR ucast (slot_slot sid)"

datatype Decoded =
    Dec_Number f64_bits
  | Dec_HeapRef SlotId
  | Dec_Int32 u32
  | Dec_Undefined
  | Dec_Null
  | Dec_Boolean bool
  | Dec_Hole
  | Dec_Uninitialized

definition Value_UNDEFINED :: Value where "Value_UNDEFINED = boxed TAG_UNDEFINED 0"
definition Value_NULL :: Value where "Value_NULL = boxed TAG_NULL 0"
definition Value_HOLE :: Value where "Value_HOLE = boxed TAG_HOLE 0"
definition Value_UNINITIALIZED :: Value where "Value_UNINITIALIZED = boxed TAG_UNINITIALIZED 0"

definition Value_boolean :: "bool \<Rightarrow> Value" where
  "Value_boolean b = boxed TAG_BOOLEAN (if b then 1 else 0)"

definition Value_int32 :: "u32 \<Rightarrow> Value" where
  "Value_int32 n = boxed TAG_INT32 (ucast n)"

definition Value_heap_ref :: "SlotId \<Rightarrow> Value" where
  "Value_heap_ref sid = boxed TAG_HEAP_REF (slot_payload sid)"

definition Value_number :: "f64_bits \<Rightarrow> Value" where
  "Value_number x = (if f64_is_nan x then CANON_NAN else x)"

definition is_number :: "Value \<Rightarrow> bool" where
  "is_number v \<longleftrightarrow> \<not> is_boxed v"

definition is_uninitialized :: "Value \<Rightarrow> bool" where
  "is_uninitialized v \<longleftrightarrow> v = Value_UNINITIALIZED"

definition Value_decode :: "Value \<Rightarrow> Decoded option" where
  "Value_decode bits =
    (if \<not> is_boxed bits then Some (Dec_Number bits)
     else
       let payload = bits AND PAYLOAD_MASK;
           upper = (ucast (drop_bit 32 payload) :: u16);
           lower = (ucast payload :: u32);
           tag = (ucast (tag_of bits) :: u8)
       in if tag = TAG_HEAP_REF then map_option Dec_HeapRef (SlotId_from_parts upper lower)
          else if tag = TAG_INT32 then if upper = 0 then Some (Dec_Int32 lower) else None
          else if tag = TAG_UNDEFINED then if payload = 0 then Some Dec_Undefined else None
          else if tag = TAG_NULL then if payload = 0 then Some Dec_Null else None
          else if tag = TAG_BOOLEAN then
            if payload = 0 then Some (Dec_Boolean False) else if payload = 1 then Some (Dec_Boolean True) else None
          else if tag = TAG_HOLE then if payload = 0 then Some Dec_Hole else None
          else if tag = TAG_UNINITIALIZED then if payload = 0 then Some Dec_Uninitialized else None
          else None)"

definition as_f64 :: "Value \<Rightarrow> f64_bits option" where
  "as_f64 v = (case Value_decode v of Some (Dec_Number x) \<Rightarrow> Some x | _ \<Rightarrow> None)"

definition as_int32 :: "Value \<Rightarrow> u32 option" where
  "as_int32 v =
    (if is_boxed v \<and> (ucast (tag_of v) :: u8) = TAG_INT32 \<and> v AND UPPER_MASK = 0 then Some (ucast v) else None)"

definition as_bool :: "Value \<Rightarrow> bool option" where
  "as_bool v =
    (if is_boxed v \<and> (ucast (tag_of v) :: u8) = TAG_BOOLEAN
     then let payload = v AND PAYLOAD_MASK
          in if payload = 0 then Some False else if payload = 1 then Some True else None
     else None)"

definition as_heap_ref :: "Value \<Rightarrow> SlotId option" where
  "as_heap_ref v =
    (if is_boxed v \<and> (ucast (tag_of v) :: u8) = TAG_HEAP_REF
     then let payload = v AND PAYLOAD_MASK
          in SlotId_from_parts (ucast (drop_bit 32 payload)) (ucast payload)
     else None)"

section \<open>The fields as arithmetic\<close>

definition tag_nat :: "u64 \<Rightarrow> nat" where
  "tag_nat v = unat v div 2 ^ 48 mod 8"

definition payload_nat :: "u64 \<Rightarrow> nat" where
  "payload_nat v = unat v mod 2 ^ 48"

lemma tag_of_nat: "unat (tag_of v) = tag_nat v"
  by (simp add: tag_of_def TAG_MASK_def tag_nat_def unat_and_mask(4) unat_drop)

lemma payload_mask: "PAYLOAD_MASK = mask 48"
  by (simp add: PAYLOAD_MASK_def mask_eq_exp_minus_1)

lemma payload_nat: "unat (v AND PAYLOAD_MASK) = payload_nat v"
  by (simp only: payload_mask and_mask_low payload_nat_def)

lemma header_nat: "v AND HEADER_MASK = CANON_NAN \<longleftrightarrow> unat v div 2 ^ 51 = 4095"
proof -
  have "v AND HEADER_MASK = push_bit 51 (drop_bit 51 v)"
    using and_mask_high [of v 51] by (simp add: HEADER_MASK_def mask_eq_exp_minus_1)
  moreover have "push_bit 51 (drop_bit 51 v) = push_bit 51 4095 \<longleftrightarrow> drop_bit 51 v = 4095"
  proof
    assume eq: "push_bit 51 (drop_bit 51 v) = (push_bit 51 4095 :: u64)"
    have "drop_bit 51 (push_bit 51 (drop_bit 51 v)) = drop_bit 51 v"
      by (rule bit_word_eqI) (auto simp: bit_simps dest: bit_imp_le_length)
    with eq have "drop_bit 51 v = drop_bit 51 (push_bit 51 4095 :: u64)" by simp
    then show "drop_bit 51 v = 4095" by simp
  qed simp
  ultimately show ?thesis using unat_drop [of 51 v] by (simp add: CANON_NAN_def word_unat_eq_iff)
qed

lemma is_boxed_nat: "is_boxed v \<longleftrightarrow> unat v div 2 ^ 51 = 4095 \<and> tag_nat v \<noteq> 0"
  by (simp add: is_boxed_def header_nat tag_of_nat [symmetric] unat_eq_0)

lemma unat_boxed:
  assumes "unat tag < 8" and "unat payload < 2 ^ 48"
  shows "unat (boxed tag payload) = 4095 * 2 ^ 51 + unat tag * 2 ^ 48 + unat payload"
proof -
  have t: "unat (ucast tag :: u64) = unat tag"
    using assms(1) by (simp add: unsigned_ucast_eq take_bit_nat_eq_self)
  have "CANON_NAN = push_bit 48 (32760 :: u64)" by (simp add: CANON_NAN_def)
  then have "CANON_NAN OR push_bit 48 (ucast tag) = push_bit 48 (32760 OR ucast tag :: u64)"
    by (simp add: push_bit_or)
  moreover have "unat (32760 OR ucast tag :: u64) = 32760 + unat tag"
    using unat_push_or [of "4095 :: u64" 3 "ucast tag"] assms(1) t by simp
  ultimately show ?thesis
    using unat_push_or [of "32760 OR ucast tag :: u64" 48 payload] assms by (simp add: boxed_def)
qed

lemma boxed_fields:
  assumes "unat tag < 8" and "tag \<noteq> 0" and "unat payload < 2 ^ 48"
  shows "is_boxed (boxed tag payload)" "ucast (tag_of (boxed tag payload)) = tag"
    "boxed tag payload AND PAYLOAD_MASK = payload"
proof -
  note u = unat_boxed [OF assms(1,3)]
  have "unat (boxed tag payload) div 2 ^ 48 = 32760 + unat tag"
    by (rule div_nat_eqI) (use assms(3) in \<open>simp_all add: u\<close>)
  then have t: "tag_nat (boxed tag payload) = unat tag"
    using assms(1) mod_mult_self1 [of "unat tag" 4095 8] by (simp add: tag_nat_def add.commute)
  have "unat (boxed tag payload) div 2 ^ 51 = 4095"
    by (rule div_nat_eqI) (use assms(1,3) in \<open>simp_all add: u\<close>)
  moreover have "unat tag \<noteq> 0" using assms(2) by (simp add: unat_eq_0)
  ultimately show "is_boxed (boxed tag payload)" using t by (simp add: is_boxed_nat)
  have "unat (ucast (tag_of (boxed tag payload)) :: u8) = unat (tag_of (boxed tag payload)) mod 256"
    by (simp add: unsigned_ucast_eq) (simp add: take_bit_eq_mod)
  then show "ucast (tag_of (boxed tag payload)) = tag" using t assms(1) by (simp add: tag_of_nat word_unat_eq_iff)
  show "boxed tag payload AND PAYLOAD_MASK = payload"
    using assms(3) mod_mult_self3 [of "32760 + unat tag" "2 ^ 48" "unat payload"]
    by (simp add: word_unat_eq_iff payload_nat payload_nat_def u)
qed

lemma boxed_unbox:
  assumes "is_boxed v"
  shows "v = boxed (ucast (tag_of v)) (v AND PAYLOAD_MASK)"
proof -
  have t: "unat (ucast (tag_of v) :: u8) = tag_nat v"
    by (simp add: unsigned_ucast_eq tag_of_nat tag_nat_def take_bit_nat_eq_self)
  have "unat v = 4095 * 2 ^ 51 + tag_nat v * 2 ^ 48 + payload_nat v"
  proof -
    have "unat v div 2 ^ 51 = unat v div 2 ^ 48 div 8" by (simp add: div_mult2_eq [symmetric])
    with assms have "unat v div 2 ^ 48 = 4095 * 8 + tag_nat v"
      using div_mult_mod_eq [of "unat v div 2 ^ 48" 8] by (simp add: is_boxed_nat tag_nat_def)
    then show ?thesis using div_mult_mod_eq [of "unat v" "2 ^ 48"] by (simp add: payload_nat_def)
  qed
  also have "\<dots> = unat (boxed (ucast (tag_of v)) (v AND PAYLOAD_MASK))"
    by (subst unat_boxed) (simp_all add: t payload_nat tag_nat_def payload_nat_def)
  finally show ?thesis by (simp add: word_unat_eq_iff)
qed

lemma unat_slot_payload: "unat (slot_payload sid) = unat (slot_segment sid) * 2 ^ 32 + unat (slot_slot sid)"
proof -
  have "unat (ucast (slot_segment sid) :: u64) = unat (slot_segment sid)" "unat (ucast (slot_slot sid) :: u64) = unat (slot_slot sid)"
    using unsigned_less [of "slot_segment sid", where ?'a = nat] less_trans [OF unat_u32_bound [of "slot_slot sid"], of "2 ^ 64"]
    by (simp_all add: unsigned_ucast_eq take_bit_nat_eq_self)
  then show ?thesis
    using unat_push_or [of "ucast (slot_segment sid) :: u64" 32 "ucast (slot_slot sid)"]
      unsigned_less [of "slot_segment sid", where ?'a = nat]
    by (simp add: slot_payload_def)
qed

lemma slot_payload_bound: "unat (slot_payload sid) < 2 ^ 48"
proof -
  have "unat (slot_segment sid) < 65536" using unsigned_less [of "slot_segment sid", where ?'a = nat] by simp
  moreover have "unat (slot_slot sid) < 4294967296" by (rule unat_u32_bound)
  ultimately have "unat (slot_segment sid) * 4294967296 + unat (slot_slot sid) < 281474976710656" by linarith
  then show ?thesis by (simp add: unat_slot_payload)
qed

lemma payload_halves:
  "unat (ucast (drop_bit 32 p) :: u16) = unat (p :: u64) div 2 ^ 32 mod 2 ^ 16" "unat (ucast p :: u32) = unat p mod 2 ^ 32"
  by (simp_all add: unsigned_ucast_eq unat_drop) (simp_all add: take_bit_eq_mod)

section \<open>Decoding is exact\<close>

text \<open>What a decoded value stands for: a reference with nonzero halves, a double outside the boxed range.\<close>

primrec wf_decoded :: "Decoded \<Rightarrow> bool" where
  "wf_decoded (Dec_Number x) = (\<not> is_boxed x)"
| "wf_decoded (Dec_HeapRef sid) = (slot_segment sid \<noteq> 0 \<and> slot_slot sid \<noteq> 0)"
| "wf_decoded (Dec_Int32 n) = True"
| "wf_decoded Dec_Undefined = True"
| "wf_decoded Dec_Null = True"
| "wf_decoded (Dec_Boolean b) = True"
| "wf_decoded Dec_Hole = True"
| "wf_decoded Dec_Uninitialized = True"

primrec Value_encode :: "Decoded \<Rightarrow> Value" where
  "Value_encode (Dec_Number x) = x"
| "Value_encode (Dec_HeapRef sid) = Value_heap_ref sid"
| "Value_encode (Dec_Int32 n) = Value_int32 n"
| "Value_encode Dec_Undefined = Value_UNDEFINED"
| "Value_encode Dec_Null = Value_NULL"
| "Value_encode (Dec_Boolean b) = Value_boolean b"
| "Value_encode Dec_Hole = Value_HOLE"
| "Value_encode Dec_Uninitialized = Value_UNINITIALIZED"

lemmas tag_defs = TAG_HEAP_REF_def TAG_INT32_def TAG_UNDEFINED_def TAG_NULL_def TAG_BOOLEAN_def TAG_HOLE_def
  TAG_UNINITIALIZED_def

lemmas value_defs = Value_UNDEFINED_def Value_NULL_def Value_HOLE_def Value_UNINITIALIZED_def Value_boolean_def
  Value_int32_def Value_heap_ref_def

lemma unat_int32_payload: "unat (ucast (n :: u32) :: u64) = unat n"
  using less_trans [OF unat_u32_bound [of n], of "2 ^ 64"] by (simp add: unsigned_ucast_eq take_bit_nat_eq_self)

lemma int32_payload_bound: "unat (ucast (n :: u32) :: u64) < 2 ^ 48"
  using less_trans [OF unat_u32_bound [of n], of "2 ^ 48"] by (simp add: unat_int32_payload)

text \<open>The two halves of a payload: of an integer and of a slot identity, and back.\<close>

lemma int32_halves: "(ucast (drop_bit 32 (ucast (n :: u32) :: u64)) :: u16) = 0" "(ucast (ucast n :: u64) :: u32) = n"
  using unat_u32_bound [of n] by (simp_all add: word_unat_eq_iff payload_halves unat_int32_payload)

lemma slot_halves:
  "(ucast (drop_bit 32 (slot_payload sid)) :: u16) = slot_segment sid" "(ucast (slot_payload sid) :: u32) = slot_slot sid"
proof -
  have "unat (slot_segment sid) < 65536" using unsigned_less [of "slot_segment sid", where ?'a = nat] by simp
  moreover have "unat (slot_payload sid) div 2 ^ 32 = unat (slot_segment sid)"
    by (rule div_nat_eqI) (simp_all add: unat_slot_payload)
  ultimately show "(ucast (drop_bit 32 (slot_payload sid)) :: u16) = slot_segment sid"
    by (simp add: word_unat_eq_iff payload_halves)
  show "(ucast (slot_payload sid) :: u32) = slot_slot sid"
    by (simp add: word_unat_eq_iff payload_halves unat_slot_payload)
qed

lemma payload_int32:
  assumes "unat p < 2 ^ 48" and "(ucast (drop_bit 32 p) :: u16) = 0"
  shows "p = ucast (ucast (p :: u64) :: u32)"
proof -
  have "unat p div 2 ^ 32 < 2 ^ 16" using assms(1) by (simp add: less_mult_imp_div_less)
  with assms(2) have "unat p div 2 ^ 32 = 0" by (simp add: word_unat_eq_iff payload_halves)
  then show ?thesis by (simp add: word_unat_eq_iff unat_int32_payload payload_halves)
qed

lemma payload_slot:
  assumes "unat p < 2 ^ 48"
  shows "p = slot_payload \<lparr>slot_segment = ucast (drop_bit 32 (p :: u64)), slot_slot = ucast p\<rparr>"
proof -
  have "unat p div 2 ^ 32 < 2 ^ 16" using assms by (simp add: less_mult_imp_div_less)
  then show ?thesis
    using div_mult_mod_eq [of "unat p" "2 ^ 32"] by (simp add: word_unat_eq_iff unat_slot_payload payload_halves)
qed

lemma value_decode_encode: "wf_decoded d \<Longrightarrow> Value_decode (Value_encode d) = Some d"
  using slot_payload_bound int32_payload_bound
  by (cases d) (simp_all add: Value_decode_def value_defs tag_defs boxed_fields Let_def SlotId_from_parts_def
      int32_halves slot_halves)

lemma value_encode_decode:
  assumes "Value_decode v = Some d"
  shows "wf_decoded d \<and> v = Value_encode d"
proof (cases "is_boxed v")
  case True
  define p where "p = v AND PAYLOAD_MASK"
  have bound: "unat p < 2 ^ 48" by (simp add: p_def payload_nat payload_nat_def)
  have v: "v = boxed (ucast (tag_of v)) p" unfolding p_def by (rule boxed_unbox [OF True])
  consider (ref) "ucast (tag_of v) = TAG_HEAP_REF" "d = Dec_HeapRef \<lparr>slot_segment = ucast (drop_bit 32 p), slot_slot = ucast p\<rparr>"
      "(ucast (drop_bit 32 p) :: u16) \<noteq> 0" "(ucast p :: u32) \<noteq> 0"
    | (int32) "ucast (tag_of v) = TAG_INT32" "(ucast (drop_bit 32 p) :: u16) = 0" "d = Dec_Int32 (ucast p)"
    | (other) "wf_decoded d" "Value_encode d = boxed (ucast (tag_of v)) p"
    using True assms unfolding p_def
    by (auto simp: Value_decode_def Let_def SlotId_from_parts_def value_defs split: if_splits)
  then show ?thesis
  proof cases
    case ref
    with v payload_slot [OF bound] show ?thesis by (simp add: Value_heap_ref_def)
  next
    case int32
    with v payload_int32 [OF bound] show ?thesis by (simp add: Value_int32_def)
  qed (use v in simp)
next
  case False
  with assms show ?thesis by (auto simp: Value_decode_def)
qed

lemma Value_decode_iff: "Value_decode v = Some d \<longleftrightarrow> wf_decoded d \<and> v = Value_encode d"
  using value_decode_encode value_encode_decode by blast

section \<open>Numbers and the fast accessors\<close>

lemma boxed_is_nan: "is_boxed v \<Longrightarrow> f64_is_nan v"
proof -
  assume "is_boxed v"
  then have v: "v = CANON_NAN OR (push_bit 48 (ucast (ucast (tag_of v) :: u8)) OR (v AND PAYLOAD_MASK))" (is "_ = _ OR ?r")
    using boxed_unbox [of v] by (simp add: boxed_def or.assoc)
  have "v AND 0x7FF0000000000000 = 0x7FF0000000000000 OR (?r AND 0x7FF0000000000000)"
    by (subst v) (simp add: CANON_NAN_def bit.conj_disj_distrib2)
  moreover have "\<dots> = 0x7FF0000000000000" by (rule or_and_absorb)
  moreover have "v AND 0x000FFFFFFFFFFFFF = 0x8000000000000 OR (?r AND 0x000FFFFFFFFFFFFF)"
    by (subst v) (simp add: CANON_NAN_def bit.conj_disj_distrib2)
  ultimately show ?thesis by (simp add: f64_is_nan_def or_eq_0_iff)
qed

lemma number_never_boxed: "\<not> is_boxed (Value_number x)"
proof -
  have "tag_of CANON_NAN = 0" by (simp add: tag_of_def CANON_NAN_def TAG_MASK_def)
  then have "\<not> is_boxed CANON_NAN" by (simp add: is_boxed_def)
  then show ?thesis using boxed_is_nan [of x] by (auto simp: Value_number_def)
qed

lemma decode_number: "Value_decode (Value_number x) = Some (Dec_Number (Value_number x))"
  by (simp add: Value_decode_def number_never_boxed)

lemma as_bool_decode: "as_bool v = (case Value_decode v of Some (Dec_Boolean b) \<Rightarrow> Some b | _ \<Rightarrow> None)"
  by (auto simp: as_bool_def Value_decode_def Let_def tag_defs SlotId_from_parts_def split: option.splits)

lemma as_heap_ref_decode: "as_heap_ref v = (case Value_decode v of Some (Dec_HeapRef sid) \<Rightarrow> Some sid | _ \<Rightarrow> None)"
  by (auto simp: as_heap_ref_def Value_decode_def Let_def tag_defs SlotId_from_parts_def split: option.splits)

lemma upper_mask: "v AND UPPER_MASK = 0 \<longleftrightarrow> (ucast (drop_bit 32 (v AND PAYLOAD_MASK)) :: u16) = 0"
proof -
  have m: "UPPER_MASK = push_bit 32 (mask 16)" by (simp add: UPPER_MASK_def mask_eq_exp_minus_1)
  have u: "bit UPPER_MASK n \<longleftrightarrow> 32 \<le> n \<and> n < 48" for n unfolding m by (auto simp: bit_simps)
  have p: "bit PAYLOAD_MASK n \<longleftrightarrow> n < 48" for n by (auto simp: payload_mask bit_simps)
  have "v AND UPPER_MASK = 0 \<longleftrightarrow> (\<forall>n. 32 \<le> n \<and> n < 48 \<longrightarrow> \<not> bit v n)"
    using bit_imp_le_length [of v] by (fastforce simp: bit_eq_iff bit_and_iff u)
  also have "\<dots> \<longleftrightarrow> (\<forall>n < 16. \<not> bit v (32 + n))"
    by (auto simp: le_iff_add)
  also have "\<dots> \<longleftrightarrow> (ucast (drop_bit 32 (v AND PAYLOAD_MASK)) :: u16) = 0"
    by (auto simp: bit_eq_iff bit_simps p)
  finally show ?thesis .
qed

lemma as_int32_decode: "as_int32 v = (case Value_decode v of Some (Dec_Int32 n) \<Rightarrow> Some n | _ \<Rightarrow> None)"
proof -
  have "(ucast (v AND PAYLOAD_MASK) :: u32) = ucast v" by (rule bit_word_eqI) (simp add: payload_mask bit_simps)
  then show ?thesis
    by (auto simp: as_int32_def Value_decode_def Let_def tag_defs SlotId_from_parts_def upper_mask split: option.splits)
qed

lemma as_f64_decode: "as_f64 v = (if is_number v then Some v else None)"
proof (cases "is_boxed v")
  case True
  have "Value_decode v \<noteq> Some (Dec_Number x)" for x using True by (auto simp: Value_decode_iff)
  with True show ?thesis by (auto simp: as_f64_def is_number_def split: option.split Decoded.split)
next
  case False
  then show ?thesis by (simp add: as_f64_def is_number_def Value_decode_def)
qed

end
