(* ===== verification/Gc_Heap.thy ===== *)
theory Gc_Heap
  imports Native_Value Ecma_Strings
begin

text \<open>
  The heap of the runtime machine as its collector reads it (\<open>HeapEntry\<close> and its parts in
  \<^verbatim>\<open>crates/bamts-runtime/src/lib.rs\<close>, the tracing functions of \<^verbatim>\<open>crates/bamts-runtime/src/gc.rs\<close>). An entry
  keeps the fields that hold values, that its size is computed from, or that the collector and the
  keyed collections write; flags and numbers that none of them touches are left out. A tracing function of the code is a sequence of calls of
  \<open>mark_value\<close> and \<open>mark_index\<close> that depends only on the data traced, so it is modelled by that
  sequence, in the order of the calls.
\<close>

section \<open>Data\<close>

datatype PropertyKey = KeyNamed EcmaString | KeySymbol u32 | KeyPrivate u32

datatype Property = PropertyData Value | PropertyAccessor "Value option" "Value option"

type_synonym PropertyMap = "(PropertyKey \<times> Property) list"

record CollectionEntry =
  ce_order :: u64
  ce_key :: Value
  ce_value :: Value
  ce_live :: bool

text \<open>The hash index of a collection: the positions of its entries, in buckets by the hash of their keys.\<close>

type_synonym CollectionIndex = "u64 \<rightharpoonup> usize list"

datatype CollectionKind = Kind_Map | Kind_Set | Kind_WeakMap | Kind_WeakSet

record GeneratorStart =
  gs_captures :: "Value list"
  gs_this_value :: Value
  gs_new_target :: Value
  gs_args :: "Value list"
  gs_context :: "Value option"

record SuspendedActivation =
  sa_registers :: "Value list"
  sa_this_value :: Value
  sa_new_target :: Value
  sa_args :: "Value list"
  sa_arguments_object :: "Value option"
  sa_context :: "Value option"

datatype GeneratorState =
    Gen_SuspendedStart GeneratorStart
  | Gen_Executing
  | Gen_Suspended SuspendedActivation
  | Gen_Completed

datatype GeneratorResume =
    Resume_Yield Value SuspendedActivation
  | Resume_Return Value
  | Resume_Throw Value

datatype GeneratorCompletion = Completion_Normal Value | Completion_Return Value | Completion_Throw Value

record AsyncGeneratorRequest =
  ag_completion :: GeneratorCompletion
  ag_capability :: Value

datatype AsyncGeneratorState =
    AsyncGen_SuspendedStart GeneratorStart
  | AsyncGen_SuspendedYield SuspendedActivation
  | AsyncGen_Executing
  | AsyncGen_AwaitingOperand SuspendedActivation
  | AsyncGen_AwaitingYield SuspendedActivation
  | AsyncGen_AwaitingResumption SuspendedActivation
  | AsyncGen_AwaitingReturn
  | AsyncGen_Completed

text \<open>The operation that produced a throw.\<close>

datatype ThrowOrigin =
    Origin_Bytecode
  | Origin_TypeError string
  | Origin_RangeError string
  | Origin_ReferenceError string
  | Origin_UriError string

text \<open>A reaction, with the call context every variant carries as its last field.\<close>

datatype PromiseReaction =
    Reaction_Fulfilled Value Value "Value option"
  | Reaction_Rejected Value Value "Value option"
  | Reaction_AsyncFulfill Value "Value option"
  | Reaction_AsyncReject Value "Value option"
  | Reaction_AsyncGeneratorFulfill Value "Value option"
  | Reaction_AsyncGeneratorReject Value "Value option"
  | Reaction_ModuleDepFulfill u32 "Value option"
  | Reaction_ModuleDepReject u32 "Value option"
  | Reaction_AsyncFromSyncFulfill Value bool "Value option"
  | Reaction_AsyncFromSyncReject Value Value "Value option"
  | Reaction_AsyncDisposeStep Value "Value option" Value bool "Value option"
  | Reaction_DynamicImportFulfill Value u32 "Value option"
  | Reaction_DynamicImportReject Value "Value option"

datatype PromiseState =
    Promise_Pending "PromiseReaction list" "PromiseReaction list"
  | Promise_Fulfilled Value
  | Promise_Rejected Value ThrowOrigin

datatype MicrotaskJob =
    Job_Reaction PromiseReaction Value ThrowOrigin
  | Job_Thenable Value Value Value "Value option"
  | Job_Callback Value "Value option"
  | Job_FinalizationCleanup Value "Value option"

record QueuedMicrotask =
  qm_job :: MicrotaskJob
  qm_retained_bytes :: usize

record Execution =
  exec_value :: Value
  exec_link :: Value
  exec_entry_registers :: "Value list"

text \<open>The error kinds that carry a value or that the heap operations return; the others are one constructor.\<close>

datatype RuntimeErrorKind =
    Error_UncaughtThrow Value ThrowOrigin "EcmaString option"
  | Error_InvalidValue Value
  | Error_HeapSlotLimitExceeded usize
  | Error_HeapByteLimitExceeded usize
  | Error_InvalidRuntimeHeapReference u32
  | Error_FuelExhausted u64
  | Error_MicrotaskQueueLimitExceeded usize
  | Error_MicrotaskDrainReentry
  | Error_Cancelled
  | Error_Other

datatype IteratorState = Iterator_Keys "Value option" | Iterator_Protocol Value Value

datatype NativeCallable = Callable_Builtin | Callable_Bound Value Value "Value list"

record FinalizationCell =
  fc_target :: Value
  fc_held_value :: Value
  fc_unregister_token :: "Value option"

record ArrayBufferData =
  ab_bytes :: "u8 list option"
  ab_max_byte_length :: "usize option"
  ab_detach_key :: Value

record DisposableResource =
  dr_value :: Value
  dr_method :: Value

datatype (plugins only: code size) HeapEntry =
    Entry_Vacant
  | Entry_String EcmaString
  | Entry_BigInt "u8 list"
  | Entry_Object PropertyMap "Value option" "Value option"
  | Entry_Array "Value list" PropertyMap "Value option"
  | Entry_Function "Value list" "Value option" PropertyMap "Value option"
  | Entry_Script Value PropertyMap "Value option"
  | Entry_ModuleNamespace
  | Entry_ExternalModuleNamespace
  | Entry_HashState "u8 list" "u8 list" Value Value
  | Entry_Symbol EcmaString
  | Entry_PrivateName EcmaString
  | Entry_RegExp EcmaString EcmaString PropertyMap "Value option"
  | Entry_Date PropertyMap "Value option"
  | Entry_Collection CollectionKind "CollectionEntry list" CollectionIndex usize u64 PropertyMap "Value option"
  | Entry_TypedArray Value PropertyMap "Value option"
  | Entry_DataView Value PropertyMap "Value option"
  | Entry_ArrayBuffer ArrayBufferData PropertyMap "Value option"
  | Entry_SharedArrayBuffer usize PropertyMap "Value option"
  | Entry_WeakRef "Value option" PropertyMap "Value option"
  | Entry_FinalizationRegistry Value "FinalizationCell list" "Value list" bool PropertyMap "Value option"
  | Entry_BuiltinIterator Value PropertyMap "Value option"
  | Entry_Iterator IteratorState
  | Entry_Generator GeneratorState PropertyMap "Value option"
  | Entry_AsyncGenerator AsyncGeneratorState "AsyncGeneratorRequest list" PropertyMap "Value option"
  | Entry_AsyncFromSync Value Value PropertyMap "Value option"
  | Entry_DisposableStack "DisposableResource list" PropertyMap "Value option"
  | Entry_ProcessEnv "Value option"
  | Entry_Promise PromiseState PropertyMap "Value option"
  | Entry_Timeout PropertyMap "Value option"
  | Entry_PromiseResolver Value bool
  | Entry_PromiseAll Value Value "Value list" usize bool
  | Entry_PromiseAllElement Value usize bool
  | Entry_AsyncActivation "SuspendedActivation option" Value "(Execution + RuntimeErrorKind) option"
  | Entry_NativeFunction NativeCallable PropertyMap "Value option"
  | Entry_Proxy "(Value \<times> Value) option"
  | Entry_ProxyRevoker "Value option" PropertyMap

section \<open>Heap references\<close>

definition RUNTIME_HEAP_SEGMENT :: u16 where
  "RUNTIME_HEAP_SEGMENT = 1"

definition runtime_index :: "Value \<Rightarrow> usize option" where
  "runtime_index v =
    (case Value_decode v of
       Some (Dec_HeapRef sid) \<Rightarrow>
         if slot_segment sid \<noteq> RUNTIME_HEAP_SEGMENT then None
         else if slot_slot sid = 0 then None else Some (unat (slot_slot sid) - 1)
     | _ \<Rightarrow> None)"

text \<open>One call of \<open>mark_value\<close> or \<open>mark_index\<close>, and the slot it marks, if any.\<close>

datatype visit = Visit_Value Value | Visit_Index usize

primrec visit_slot :: "visit \<Rightarrow> usize option" where
  "visit_slot (Visit_Value v) = runtime_index v"
| "visit_slot (Visit_Index i) = Some i"

primrec visit_option :: "Value option \<Rightarrow> visit list" where
  "visit_option None = []"
| "visit_option (Some v) = [Visit_Value v]"

section \<open>Tracing\<close>

definition trace_values :: "Value list \<Rightarrow> visit list" where
  "trace_values vs = map Visit_Value vs"

primrec trace_property_key :: "PropertyKey \<Rightarrow> visit list" where
  "trace_property_key (KeyNamed s) = []"
| "trace_property_key (KeySymbol i) = [Visit_Index (unat i)]"
| "trace_property_key (KeyPrivate i) = [Visit_Index (unat i)]"

primrec trace_property :: "Property \<Rightarrow> visit list" where
  "trace_property (PropertyData v) = [Visit_Value v]"
| "trace_property (PropertyAccessor getter setter) = visit_option getter @ visit_option setter"

definition trace_property_map :: "PropertyMap \<Rightarrow> visit list" where
  "trace_property_map ps = concat (map (\<lambda>(key, property). trace_property_key key @ trace_property property) ps)"

definition trace_properties_and_prototype :: "PropertyMap \<Rightarrow> Value option \<Rightarrow> visit list" where
  "trace_properties_and_prototype ps prototype = trace_property_map ps @ visit_option prototype"

definition trace_activation :: "SuspendedActivation \<Rightarrow> visit list" where
  "trace_activation a = trace_values (sa_registers a) @ [Visit_Value (sa_this_value a), Visit_Value (sa_new_target a)] @
     trace_values (sa_args a) @ visit_option (sa_arguments_object a) @ visit_option (sa_context a)"

definition trace_generator_start :: "GeneratorStart \<Rightarrow> visit list" where
  "trace_generator_start s = trace_values (gs_captures s) @ [Visit_Value (gs_this_value s), Visit_Value (gs_new_target s)] @
     trace_values (gs_args s) @ visit_option (gs_context s)"

primrec trace_generator_state :: "GeneratorState \<Rightarrow> visit list" where
  "trace_generator_state (Gen_SuspendedStart start) = trace_generator_start start"
| "trace_generator_state Gen_Executing = []"
| "trace_generator_state (Gen_Suspended activation) = trace_activation activation"
| "trace_generator_state Gen_Completed = []"

primrec trace_async_generator_state :: "AsyncGeneratorState \<Rightarrow> visit list" where
  "trace_async_generator_state (AsyncGen_SuspendedStart start) = trace_generator_start start"
| "trace_async_generator_state (AsyncGen_SuspendedYield activation) = trace_activation activation"
| "trace_async_generator_state AsyncGen_Executing = []"
| "trace_async_generator_state (AsyncGen_AwaitingOperand activation) = trace_activation activation"
| "trace_async_generator_state (AsyncGen_AwaitingYield activation) = trace_activation activation"
| "trace_async_generator_state (AsyncGen_AwaitingResumption activation) = trace_activation activation"
| "trace_async_generator_state AsyncGen_AwaitingReturn = []"
| "trace_async_generator_state AsyncGen_Completed = []"

primrec trace_generator_resume :: "GeneratorResume \<Rightarrow> visit list" where
  "trace_generator_resume (Resume_Yield v activation) = Visit_Value v # trace_activation activation"
| "trace_generator_resume (Resume_Return v) = [Visit_Value v]"
| "trace_generator_resume (Resume_Throw v) = [Visit_Value v]"

primrec completion_visit_roots :: "GeneratorCompletion \<Rightarrow> visit list" where
  "completion_visit_roots (Completion_Normal v) = [Visit_Value v]"
| "completion_visit_roots (Completion_Return v) = [Visit_Value v]"
| "completion_visit_roots (Completion_Throw v) = [Visit_Value v]"

primrec trace_promise_reaction :: "PromiseReaction \<Rightarrow> visit list" where
  "trace_promise_reaction (Reaction_Fulfilled handler derived c) = [Visit_Value handler, Visit_Value derived] @ visit_option c"
| "trace_promise_reaction (Reaction_Rejected handler derived c) = [Visit_Value handler, Visit_Value derived] @ visit_option c"
| "trace_promise_reaction (Reaction_AsyncFulfill activation c) = Visit_Value activation # visit_option c"
| "trace_promise_reaction (Reaction_AsyncReject activation c) = Visit_Value activation # visit_option c"
| "trace_promise_reaction (Reaction_AsyncGeneratorFulfill generator c) = Visit_Value generator # visit_option c"
| "trace_promise_reaction (Reaction_AsyncGeneratorReject generator c) = Visit_Value generator # visit_option c"
| "trace_promise_reaction (Reaction_ModuleDepFulfill parent c) = visit_option c"
| "trace_promise_reaction (Reaction_ModuleDepReject parent c) = visit_option c"
| "trace_promise_reaction (Reaction_AsyncFromSyncFulfill derived is_done c) = Visit_Value derived # visit_option c"
| "trace_promise_reaction (Reaction_AsyncFromSyncReject derived sync_iterator c) =
     [Visit_Value derived, Visit_Value sync_iterator] @ visit_option c"
| "trace_promise_reaction (Reaction_AsyncDisposeStep stack pending_error capability rejected c) =
     Visit_Value stack # visit_option pending_error @ [Visit_Value capability] @ visit_option c"
| "trace_promise_reaction (Reaction_DynamicImportFulfill promise target c) = Visit_Value promise # visit_option c"
| "trace_promise_reaction (Reaction_DynamicImportReject promise c) = Visit_Value promise # visit_option c"

primrec trace_promise_state :: "PromiseState \<Rightarrow> visit list" where
  "trace_promise_state (Promise_Pending fulfill_reactions reject_reactions) =
     concat (map trace_promise_reaction (fulfill_reactions @ reject_reactions))"
| "trace_promise_state (Promise_Fulfilled v) = [Visit_Value v]"
| "trace_promise_state (Promise_Rejected reason origin) = [Visit_Value reason]"

primrec trace_microtask :: "MicrotaskJob \<Rightarrow> visit list" where
  "trace_microtask (Job_Reaction reaction v origin) = trace_promise_reaction reaction @ [Visit_Value v]"
| "trace_microtask (Job_Thenable promise thenable then_job c) =
     [Visit_Value promise, Visit_Value thenable, Visit_Value then_job] @ visit_option c"
| "trace_microtask (Job_Callback callback c) = Visit_Value callback # visit_option c"
| "trace_microtask (Job_FinalizationCleanup registry c) = Visit_Value registry # visit_option c"

definition trace_execution :: "Execution \<Rightarrow> visit list" where
  "trace_execution e = [Visit_Value (exec_value e), Visit_Value (exec_link e)] @ trace_values (exec_entry_registers e)"

primrec trace_runtime_error :: "RuntimeErrorKind \<Rightarrow> visit list" where
  "trace_runtime_error (Error_UncaughtThrow v origin constructor_name) = [Visit_Value v]"
| "trace_runtime_error (Error_InvalidValue v) = [Visit_Value v]"
| "trace_runtime_error (Error_HeapSlotLimitExceeded limit) = []"
| "trace_runtime_error (Error_HeapByteLimitExceeded limit) = []"
| "trace_runtime_error (Error_InvalidRuntimeHeapReference slot) = []"
| "trace_runtime_error (Error_FuelExhausted limit) = []"
| "trace_runtime_error (Error_MicrotaskQueueLimitExceeded limit) = []"
| "trace_runtime_error Error_MicrotaskDrainReentry = []"
| "trace_runtime_error Error_Cancelled = []"
| "trace_runtime_error Error_Other = []"

definition trace_finalization_cell :: "FinalizationCell \<Rightarrow> visit list" where
  "trace_finalization_cell cell = Visit_Value (fc_held_value cell) # visit_option (fc_unregister_token cell)"

text \<open>The match of \<open>trace_entry\<close>. A weak collection's entries are not traced here: it is queued instead.\<close>

primrec trace_collection :: "CollectionKind \<Rightarrow> CollectionEntry list \<Rightarrow> visit list" where
  "trace_collection Kind_Map es = concat (map (\<lambda>e. [Visit_Value (ce_key e), Visit_Value (ce_value e)]) (filter ce_live es))"
| "trace_collection Kind_Set es = concat (map (\<lambda>e. [Visit_Value (ce_key e), Visit_Value (ce_value e)]) (filter ce_live es))"
| "trace_collection Kind_WeakMap es = []"
| "trace_collection Kind_WeakSet es = []"

primrec trace_iterator_state :: "IteratorState \<Rightarrow> visit list" where
  "trace_iterator_state (Iterator_Keys current) = visit_option current"
| "trace_iterator_state (Iterator_Protocol iterator next_method) = [Visit_Value iterator, Visit_Value next_method]"

primrec trace_callable :: "NativeCallable \<Rightarrow> visit list" where
  "trace_callable Callable_Builtin = []"
| "trace_callable (Callable_Bound target this_value arguments) =
     [Visit_Value target, Visit_Value this_value] @ trace_values arguments"

definition trace_completion :: "(Execution + RuntimeErrorKind) option \<Rightarrow> visit list" where
  "trace_completion c =
    (case c of None \<Rightarrow> [] | Some (Inl execution) \<Rightarrow> trace_execution execution | Some (Inr error) \<Rightarrow> trace_runtime_error error)"

primrec entry_visits :: "HeapEntry \<Rightarrow> visit list" where
  "entry_visits Entry_Vacant = []"
| "entry_visits (Entry_String s) = []"
| "entry_visits (Entry_BigInt s) = []"
| "entry_visits (Entry_Object ps prototype boxed_primitive) =
     trace_properties_and_prototype ps prototype @ visit_option boxed_primitive"
| "entry_visits (Entry_Array elements ps prototype) = trace_values elements @ trace_properties_and_prototype ps prototype"
| "entry_visits (Entry_Function captures context ps prototype) =
     trace_values captures @ visit_option context @ trace_properties_and_prototype ps prototype"
| "entry_visits (Entry_Script entry ps prototype) = Visit_Value entry # trace_properties_and_prototype ps prototype"
| "entry_visits Entry_ModuleNamespace = []"
| "entry_visits Entry_ExternalModuleNamespace = []"
| "entry_visits (Entry_HashState algorithm bytes update digest) = [Visit_Value update, Visit_Value digest]"
| "entry_visits (Entry_Symbol s) = []"
| "entry_visits (Entry_PrivateName s) = []"
| "entry_visits (Entry_RegExp pattern flags ps prototype) = trace_properties_and_prototype ps prototype"
| "entry_visits (Entry_Date ps prototype) = trace_properties_and_prototype ps prototype"
| "entry_visits (Entry_Collection kind es index count next_order ps prototype) =
     trace_properties_and_prototype ps prototype @ trace_collection kind es"
| "entry_visits (Entry_TypedArray buffer ps prototype) = Visit_Value buffer # trace_properties_and_prototype ps prototype"
| "entry_visits (Entry_DataView buffer ps prototype) = Visit_Value buffer # trace_properties_and_prototype ps prototype"
| "entry_visits (Entry_ArrayBuffer ab ps prototype) = Visit_Value (ab_detach_key ab) # trace_properties_and_prototype ps prototype"
| "entry_visits (Entry_SharedArrayBuffer byte_length ps prototype) = trace_properties_and_prototype ps prototype"
| "entry_visits (Entry_WeakRef target ps prototype) = []"
| "entry_visits (Entry_FinalizationRegistry cleanup_callback cells pending_holdings cleanup_scheduled ps prototype) =
     Visit_Value cleanup_callback # concat (map trace_finalization_cell cells) @ trace_values pending_holdings"
| "entry_visits (Entry_BuiltinIterator source ps prototype) = Visit_Value source # trace_properties_and_prototype ps prototype"
| "entry_visits (Entry_Iterator state) = trace_iterator_state state"
| "entry_visits (Entry_Generator state ps prototype) =
     trace_generator_state state @ trace_properties_and_prototype ps prototype"
| "entry_visits (Entry_AsyncGenerator state queue ps prototype) =
     trace_async_generator_state state @
     concat (map (\<lambda>r. completion_visit_roots (ag_completion r) @ [Visit_Value (ag_capability r)]) queue) @
     trace_properties_and_prototype ps prototype"
| "entry_visits (Entry_AsyncFromSync iterator next_method ps prototype) =
     [Visit_Value iterator, Visit_Value next_method] @ trace_properties_and_prototype ps prototype"
| "entry_visits (Entry_DisposableStack resources ps prototype) =
     concat (map (\<lambda>r. [Visit_Value (dr_value r), Visit_Value (dr_method r)]) resources) @
     trace_properties_and_prototype ps prototype"
| "entry_visits (Entry_ProcessEnv prototype) = visit_option prototype"
| "entry_visits (Entry_Promise state ps prototype) = trace_promise_state state @ trace_properties_and_prototype ps prototype"
| "entry_visits (Entry_Timeout ps prototype) = trace_properties_and_prototype ps prototype"
| "entry_visits (Entry_PromiseResolver promise used) = [Visit_Value promise]"
| "entry_visits (Entry_PromiseAll resolve reject vs remaining settled) = [Visit_Value resolve, Visit_Value reject] @ trace_values vs"
| "entry_visits (Entry_PromiseAllElement aggregate index called) = [Visit_Value aggregate]"
| "entry_visits (Entry_AsyncActivation activation promise completion) =
     (case activation of None \<Rightarrow> [] | Some a \<Rightarrow> trace_activation a) @ [Visit_Value promise] @ trace_completion completion"
| "entry_visits (Entry_NativeFunction callable ps prototype) =
     trace_callable callable @ trace_property_map ps @ visit_option prototype"
| "entry_visits (Entry_Proxy live) =
     (case live of None \<Rightarrow> [] | Some (target, handler) \<Rightarrow> [Visit_Value target, Visit_Value handler])"
| "entry_visits (Entry_ProxyRevoker proxy ps) = visit_option proxy @ trace_properties_and_prototype ps None"

definition is_weak_collection :: "HeapEntry \<Rightarrow> bool" where
  "is_weak_collection e =
    (case e of Entry_Collection kind es index count next_order ps prototype \<Rightarrow> kind = Kind_WeakMap \<or> kind = Kind_WeakSet | _ \<Rightarrow> False)"

text \<open>The live entries of a weak map, whose values are kept by their keys.\<close>

definition ephemerons :: "HeapEntry \<Rightarrow> CollectionEntry list" where
  "ephemerons e =
    (case e of Entry_Collection kind es index count next_order ps prototype \<Rightarrow> if kind = Kind_WeakMap then filter ce_live es else [] | _ \<Rightarrow> [])"

end
