(* ===== verification/Gc_Mark.thy ===== *)
theory Gc_Mark
  imports Gc_Heap
begin

text \<open>
  The marking phase of the collector (\<open>GcState::drain\<close>, \<open>GcState::ephemeron_fixed_point\<close> and the marking
  primitives of \<^verbatim>\<open>crates/bamts-runtime/src/gc.rs\<close>): both loops terminate, and the marks they leave are
  exactly the slots reachable from the roots, where a value in a weak map is reachable through its
  map once its key is.
\<close>

section \<open>Marking\<close>

text \<open>
  The work list is a stack; its top is the head of the list. \<open>collect\<close> gives \<open>marks\<close> the length of the
  heap, so the index of \<open>marks\<close> in \<open>mark_index\<close> is in range.
\<close>

record GcMarker =
  gc_marks :: "bool list"
  gc_work :: "usize list"
  gc_weak_collections :: "usize list"

definition is_vacant :: "HeapEntry \<Rightarrow> bool" where
  "is_vacant e = (case e of Entry_Vacant \<Rightarrow> True | _ \<Rightarrow> False)"

definition mark_index :: "HeapEntry list \<Rightarrow> usize \<Rightarrow> GcMarker \<Rightarrow> GcMarker" where
  "mark_index heap i st =
    (if i \<ge> length heap \<or> slice_get (gc_marks st) i \<noteq> Some False \<or> is_vacant (heap ! i) then st
     else st\<lparr>gc_marks := (gc_marks st)[i := True], gc_work := i # gc_work st\<rparr>)"

definition mark_value :: "HeapEntry list \<Rightarrow> Value \<Rightarrow> GcMarker \<Rightarrow> GcMarker" where
  "mark_value heap v st = (case runtime_index v of None \<Rightarrow> st | Some i \<Rightarrow> mark_index heap i st)"

definition is_marked_value :: "bool list \<Rightarrow> Value \<Rightarrow> bool" where
  "is_marked_value marks v =
    (case runtime_index v of None \<Rightarrow> False | Some i \<Rightarrow> slice_get marks i = Some True)"

primrec run_visit :: "HeapEntry list \<Rightarrow> visit \<Rightarrow> GcMarker \<Rightarrow> GcMarker" where
  "run_visit heap (Visit_Value v) st = mark_value heap v st"
| "run_visit heap (Visit_Index i) st = mark_index heap i st"

definition run_visits :: "HeapEntry list \<Rightarrow> visit list \<Rightarrow> GcMarker \<Rightarrow> GcMarker" where
  "run_visits heap vs st = fold (run_visit heap) vs st"

definition trace_entry :: "HeapEntry list \<Rightarrow> usize \<Rightarrow> GcMarker \<Rightarrow> GcMarker" where
  "trace_entry heap i st =
    (let st = run_visits heap (entry_visits (heap ! i)) st
     in if is_weak_collection (heap ! i) then st\<lparr>gc_weak_collections := gc_weak_collections st @ [i]\<rparr> else st)"

text \<open>The measure of both loops: an unmarked slot counts twice, a slot waiting on the stack once.\<close>

definition unmarked :: "GcMarker \<Rightarrow> nat" where
  "unmarked st = length (filter Not (gc_marks st))"

definition mark_measure :: "GcMarker \<Rightarrow> nat" where
  "mark_measure st = 2 * unmarked st + length (gc_work st)"

lemma run_visit_slot: "run_visit heap x st = (case visit_slot x of None \<Rightarrow> st | Some i \<Rightarrow> mark_index heap i st)"
  by (cases x) (simp_all add: mark_value_def)

lemma unmarked_update:
  "i < length marks \<Longrightarrow> \<not> marks ! i \<Longrightarrow> Suc (length (filter Not (marks[i := True]))) = length (filter Not marks)"
proof (induction marks arbitrary: i)
  case (Cons m marks)
  then show ?case by (cases i) auto
qed simp

lemma mark_index_measure: "mark_measure (mark_index heap i st) \<le> mark_measure st"
  using unmarked_update [of i "gc_marks st"]
  by (auto simp: mark_index_def mark_measure_def unmarked_def slice_get_def split: if_splits)

lemma run_visits_measure: "mark_measure (run_visits heap vs st) \<le> mark_measure st"
  unfolding run_visits_def
proof (induction vs arbitrary: st)
  case (Cons x vs)
  have "mark_measure (run_visit heap x st) \<le> mark_measure st"
    by (simp add: run_visit_slot mark_index_measure split: option.split)
  with Cons [of "run_visit heap x st"] show ?case by simp
qed simp

lemma trace_entry_measure: "mark_measure (trace_entry heap i st) \<le> mark_measure st"
  using run_visits_measure [of heap "entry_visits (heap ! i)" st]
  by (simp add: trace_entry_def Let_def mark_measure_def unmarked_def)

function drain :: "HeapEntry list \<Rightarrow> GcMarker \<Rightarrow> GcMarker" where
  "drain heap st =
    (case gc_work st of
       [] \<Rightarrow> st
     | i # work \<Rightarrow> drain heap (trace_entry heap i (st\<lparr>gc_work := work\<rparr>)))"
  by pat_completeness auto

termination
proof (relation "measure (\<lambda>(heap, st). mark_measure st)")
  fix heap :: "HeapEntry list" and st :: GcMarker and i work
  assume "gc_work st = i # work"
  then have "mark_measure (st\<lparr>gc_work := work\<rparr>) < mark_measure st" by (simp add: mark_measure_def unmarked_def)
  with trace_entry_measure [of heap i "st\<lparr>gc_work := work\<rparr>"]
  show "((heap, trace_entry heap i (st\<lparr>gc_work := work\<rparr>)), heap, st) \<in> measure (\<lambda>(heap, st). mark_measure st)" by simp
qed simp

declare drain.simps [simp del]

lemma drain_Nil: "gc_work st = [] \<Longrightarrow> drain heap st = st"
  by (simp add: drain.simps)

lemma drain_Cons: "gc_work st = i # work \<Longrightarrow> drain heap st = drain heap (trace_entry heap i (st\<lparr>gc_work := work\<rparr>))"
  by (simp add: drain.simps)

lemma drain_rule:
  assumes "I st" and "\<And>st i work. I st \<Longrightarrow> gc_work st = i # work \<Longrightarrow> I (trace_entry heap i (st\<lparr>gc_work := work\<rparr>))"
  shows "I (drain heap st) \<and> gc_work (drain heap st) = []"
  using assms
proof (induction heap st rule: drain.induct)
  case (1 heap st)
  show ?case
  proof (cases "gc_work st")
    case Nil
    with 1 show ?thesis by (simp add: drain_Nil)
  next
    case (Cons i work)
    from 1(3) [OF 1(2) Cons] have "I (trace_entry heap i (st\<lparr>gc_work := work\<rparr>))" .
    from 1(1) [OF Cons this 1(3)] show ?thesis by (simp add: drain_Cons [OF Cons])
  qed
qed

text \<open>One pass over the queued weak maps: the value of an entry is marked when its key is.\<close>

definition ephemeron_entry :: "HeapEntry list \<Rightarrow> CollectionEntry \<Rightarrow> GcMarker \<Rightarrow> GcMarker" where
  "ephemeron_entry heap e st =
    (if is_marked_value (gc_marks st) (ce_key e) then mark_value heap (ce_value e) st else st)"

definition ephemeron_pass :: "HeapEntry list \<Rightarrow> GcMarker \<Rightarrow> GcMarker" where
  "ephemeron_pass heap st =
    fold (\<lambda>slot. fold (ephemeron_entry heap) (ephemerons (heap ! slot))) (gc_weak_collections st) st"

lemma ephemeron_entry_measure: "mark_measure (ephemeron_entry heap e st) \<le> mark_measure st"
  by (simp add: ephemeron_entry_def mark_value_def mark_index_measure split: option.split)

lemma fold_measure: "(\<And>x st. mark_measure (f x st) \<le> mark_measure st) \<Longrightarrow> mark_measure (fold f xs st) \<le> mark_measure st"
  by (induction xs arbitrary: st) (auto intro: order_trans)

lemma ephemeron_pass_measure: "mark_measure (ephemeron_pass heap st) \<le> mark_measure st"
  unfolding ephemeron_pass_def by (intro fold_measure ephemeron_entry_measure)

lemma pop_measure: "gc_work st = i # work \<Longrightarrow> mark_measure (trace_entry heap i (st\<lparr>gc_work := work\<rparr>)) < mark_measure st"
  using trace_entry_measure [of heap i "st\<lparr>gc_work := work\<rparr>"] by (simp add: mark_measure_def unmarked_def)

lemma drain_measure: "mark_measure (drain heap st) \<le> mark_measure st"
  using drain_rule [of "\<lambda>st'. mark_measure st' \<le> mark_measure st" st heap] pop_measure
  by (meson le_trans less_imp_le order_refl)

lemma drain_measure_less: "gc_work st \<noteq> [] \<Longrightarrow> mark_measure (drain heap st) < mark_measure st"
  using pop_measure [of st _ _ heap] drain_measure [of heap]
  by (cases "gc_work st") (auto simp: drain_Cons intro: le_less_trans)

function ephemeron_fixed_point :: "HeapEntry list \<Rightarrow> GcMarker \<Rightarrow> GcMarker" where
  "ephemeron_fixed_point heap st =
    (let st = ephemeron_pass heap st
     in if gc_work st = [] then st else ephemeron_fixed_point heap (drain heap st))"
  by pat_completeness auto

termination
proof (relation "measure (\<lambda>(heap, st). mark_measure st)")
  fix heap :: "HeapEntry list" and st st' :: GcMarker
  assume st': "st' = ephemeron_pass heap st" and "gc_work st' \<noteq> []"
  with drain_measure_less [of st' heap] ephemeron_pass_measure [of heap st]
  show "((heap, drain heap st'), heap, st) \<in> measure (\<lambda>(heap, st). mark_measure st)" by simp
qed simp

declare ephemeron_fixed_point.simps [simp del]

definition gc_start :: "HeapEntry list \<Rightarrow> GcMarker" where
  "gc_start heap = \<lparr>gc_marks = replicate (length heap) False, gc_work = [], gc_weak_collections = []\<rparr>"

definition mark_heap :: "HeapEntry list \<Rightarrow> visit list \<Rightarrow> GcMarker" where
  "mark_heap heap roots = ephemeron_fixed_point heap (drain heap (run_visits heap roots (gc_start heap)))"

section \<open>Reachability\<close>

definition present :: "HeapEntry list \<Rightarrow> usize \<Rightarrow> bool" where
  "present heap i \<longleftrightarrow> i < length heap \<and> \<not> is_vacant (heap ! i)"

inductive gc_reach :: "HeapEntry list \<Rightarrow> visit list \<Rightarrow> usize \<Rightarrow> bool" for heap roots where
  reach_root: "x \<in> set roots \<Longrightarrow> visit_slot x = Some i \<Longrightarrow> present heap i \<Longrightarrow> gc_reach heap roots i"
| reach_edge: "gc_reach heap roots j \<Longrightarrow> x \<in> set (entry_visits (heap ! j)) \<Longrightarrow> visit_slot x = Some i \<Longrightarrow>
    present heap i \<Longrightarrow> gc_reach heap roots i"
| reach_ephemeron: "gc_reach heap roots j \<Longrightarrow> e \<in> set (ephemerons (heap ! j)) \<Longrightarrow> runtime_index (ce_key e) = Some k \<Longrightarrow>
    gc_reach heap roots k \<Longrightarrow> runtime_index (ce_value e) = Some i \<Longrightarrow> present heap i \<Longrightarrow> gc_reach heap roots i"

definition marked :: "GcMarker \<Rightarrow> usize \<Rightarrow> bool" where
  "marked st i \<longleftrightarrow> i < length (gc_marks st) \<and> gc_marks st ! i"

lemma is_marked_value_iff: "is_marked_value (gc_marks st) v \<longleftrightarrow> (\<exists>i. runtime_index v = Some i \<and> marked st i)"
  by (auto simp: is_marked_value_def marked_def slice_get_def split: option.splits)

text \<open>What one call of \<open>mark_index\<close> does to the marks and the stack.\<close>

lemma mark_index_spec:
  assumes "length (gc_marks st) = length heap"
  shows "length (gc_marks (mark_index heap i st)) = length heap"
    "marked (mark_index heap i st) j \<longleftrightarrow> marked st j \<or> (j = i \<and> present heap i)"
    "set (gc_work (mark_index heap i st)) = set (gc_work st) \<union> {j. j = i \<and> present heap i \<and> \<not> marked st i}"
    "gc_weak_collections (mark_index heap i st) = gc_weak_collections st"
  using assms by (auto simp: mark_index_def marked_def present_def slice_get_def nth_list_update split: if_splits)

lemma run_visit_spec:
  assumes "length (gc_marks st) = length heap"
  shows "length (gc_marks (run_visit heap x st)) = length heap"
    "marked (run_visit heap x st) j \<longleftrightarrow> marked st j \<or> (visit_slot x = Some j \<and> present heap j)"
    "set (gc_work (run_visit heap x st)) = set (gc_work st) \<union> {j. marked (run_visit heap x st) j \<and> \<not> marked st j}"
    "gc_weak_collections (run_visit heap x st) = gc_weak_collections st"
  using assms mark_index_spec [OF assms] by (auto simp: run_visit_slot split: option.splits)

lemma run_visits_spec:
  assumes "length (gc_marks st) = length heap"
  shows "length (gc_marks (run_visits heap vs st)) = length heap \<and>
    (\<forall>j. marked (run_visits heap vs st) j \<longleftrightarrow> marked st j \<or> (\<exists>x \<in> set vs. visit_slot x = Some j \<and> present heap j)) \<and>
    set (gc_work (run_visits heap vs st)) = set (gc_work st) \<union> {j. marked (run_visits heap vs st) j \<and> \<not> marked st j} \<and>
    gc_weak_collections (run_visits heap vs st) = gc_weak_collections st"
  using assms unfolding run_visits_def
proof (induction vs arbitrary: st)
  case (Cons x vs)
  note spec = run_visit_spec [OF Cons.prems]
  from Cons.IH [OF spec(1)] show ?case unfolding fold.simps comp_apply by (auto simp: spec)
qed simp

section \<open>The invariant of the marking loops\<close>

definition closed_at :: "HeapEntry list \<Rightarrow> GcMarker \<Rightarrow> usize \<Rightarrow> bool" where
  "closed_at heap st j \<longleftrightarrow>
    (\<forall>x \<in> set (entry_visits (heap ! j)). \<forall>i. visit_slot x = Some i \<longrightarrow> present heap i \<longrightarrow> marked st i) \<and>
    (is_weak_collection (heap ! j) \<longrightarrow> j \<in> set (gc_weak_collections st))"

text \<open>The marks lie between \<open>L\<close> and \<open>R\<close>, and a marked slot is on the stack or has been traced.\<close>

definition mark_inv :: "HeapEntry list \<Rightarrow> (usize \<Rightarrow> bool) \<Rightarrow> (usize \<Rightarrow> bool) \<Rightarrow> GcMarker \<Rightarrow> bool" where
  "mark_inv heap L R st \<longleftrightarrow>
     length (gc_marks st) = length heap \<and>
     (\<forall>i. L i \<longrightarrow> marked st i) \<and>
     (\<forall>i. marked st i \<longrightarrow> R i) \<and>
     (\<forall>i \<in> set (gc_work st) \<union> set (gc_weak_collections st). marked st i) \<and>
     (\<forall>j. marked st j \<longrightarrow> j \<in> set (gc_work st) \<or> closed_at heap st j)"

definition edge_closed :: "HeapEntry list \<Rightarrow> (usize \<Rightarrow> bool) \<Rightarrow> bool" where
  "edge_closed heap R \<longleftrightarrow>
    (\<forall>j x i. R j \<longrightarrow> x \<in> set (entry_visits (heap ! j)) \<longrightarrow> visit_slot x = Some i \<longrightarrow> present heap i \<longrightarrow> R i)"

definition ephemeron_closed :: "HeapEntry list \<Rightarrow> (usize \<Rightarrow> bool) \<Rightarrow> bool" where
  "ephemeron_closed heap R \<longleftrightarrow>
    (\<forall>j e k i. R j \<longrightarrow> e \<in> set (ephemerons (heap ! j)) \<longrightarrow> runtime_index (ce_key e) = Some k \<longrightarrow> R k \<longrightarrow>
       runtime_index (ce_value e) = Some i \<longrightarrow> present heap i \<longrightarrow> R i)"

lemma edge_closedD:
  "edge_closed heap R \<Longrightarrow> R j \<Longrightarrow> x \<in> set (entry_visits (heap ! j)) \<Longrightarrow> visit_slot x = Some i \<Longrightarrow> present heap i \<Longrightarrow> R i"
  unfolding edge_closed_def by blast

lemma ephemeron_closedD:
  "ephemeron_closed heap R \<Longrightarrow> R j \<Longrightarrow> e \<in> set (ephemerons (heap ! j)) \<Longrightarrow> runtime_index (ce_key e) = Some k \<Longrightarrow> R k \<Longrightarrow>
    runtime_index (ce_value e) = Some i \<Longrightarrow> present heap i \<Longrightarrow> R i"
  unfolding ephemeron_closed_def by blast

lemma reach_closed: "edge_closed heap (gc_reach heap roots)" "ephemeron_closed heap (gc_reach heap roots)"
  by (auto simp: edge_closed_def ephemeron_closed_def intro: gc_reach.intros)

lemma reach_least:
  assumes "edge_closed heap R" and "ephemeron_closed heap R"
    and "\<And>x i. x \<in> set roots \<Longrightarrow> visit_slot x = Some i \<Longrightarrow> present heap i \<Longrightarrow> R i" and "gc_reach heap roots i"
  shows "R i"
  using assms(4)
proof induction
  case (reach_root x i)
  then show ?case by (rule assms(3))
next
  case (reach_edge j x i)
  then show ?case by (blast intro: edge_closedD [OF assms(1)])
next
  case (reach_ephemeron j e k i)
  then show ?case by (blast intro: ephemeron_closedD [OF assms(2)])
qed

text \<open>New marks that land on the stack keep the invariant.\<close>

lemma mark_inv_grow:
  assumes "mark_inv heap L R st" and "length (gc_marks st') = length heap" and "\<And>j. marked st j \<Longrightarrow> marked st' j"
    and "\<And>j. marked st' j \<Longrightarrow> R j" and "set (gc_work st') = set (gc_work st) \<union> {j. marked st' j \<and> \<not> marked st j}"
    and "gc_weak_collections st' = gc_weak_collections st"
  shows "mark_inv heap L R st'"
proof -
  have "j \<in> set (gc_work st') \<or> closed_at heap st' j" if j: "marked st' j" for j
  proof (cases "marked st j")
    case True
    with assms(1) have "j \<in> set (gc_work st) \<or> closed_at heap st j" by (simp add: mark_inv_def)
    with assms(3,5,6) show ?thesis by (auto simp: closed_at_def)
  qed (use assms(5) j in auto)
  with assms show ?thesis by (auto simp: mark_inv_def)
qed

lemma trace_entry_inv:
  assumes "edge_closed heap R" and "mark_inv heap L R st" and "gc_work st = i # work"
  shows "mark_inv heap L R (trace_entry heap i (st\<lparr>gc_work := work\<rparr>))"
proof -
  let ?s = "st\<lparr>gc_work := work\<rparr>" and ?t = "trace_entry heap i (st\<lparr>gc_work := work\<rparr>)"
  let ?u = "run_visits heap (entry_visits (heap ! i)) ?s"
  have m: "marked ?s j = marked st j" for j by (simp add: marked_def)
  from assms(2) have len: "length (gc_marks ?s) = length heap" by (simp add: mark_inv_def)
  note u = run_visits_spec [OF len, of "entry_visits (heap ! i)", unfolded m]
  have i: "marked st i" using assms(2,3) by (simp add: mark_inv_def)
  have mt: "marked ?t j = marked ?u j" for j by (simp add: trace_entry_def Let_def marked_def)
  have wt: "gc_work ?t = gc_work ?u" "set (gc_weak_collections ?t) =
      set (gc_weak_collections st) \<union> (if is_weak_collection (heap ! i) then {i} else {})"
    "length (gc_marks ?t) = length heap"
    using u by (auto simp: trace_entry_def Let_def)
  have "R j" if "marked ?t j" for j
    using that u mt i assms(1,2) by (auto simp: mark_inv_def edge_closed_def)
  moreover have "j \<in> set (gc_work ?t) \<or> closed_at heap ?t j" if j: "marked ?t j" for j
  proof (cases "j = i")
    case True
    then show ?thesis using u mt wt by (auto simp: closed_at_def)
  next
    case False
    then show ?thesis using j u mt wt assms(2,3) by (auto simp: mark_inv_def closed_at_def)
  qed
  moreover have "\<forall>j \<in> set (gc_work ?t) \<union> set (gc_weak_collections ?t). marked ?t j"
    using u mt wt i assms(2,3) by (auto simp: mark_inv_def)
  moreover have "\<forall>j. L j \<longrightarrow> marked ?t j" using u mt assms(2) by (auto simp: mark_inv_def)
  ultimately show ?thesis using wt(3) by (simp add: mark_inv_def)
qed

lemma drain_inv:
  assumes "edge_closed heap R" and "mark_inv heap L R st"
  shows "mark_inv heap L R (drain heap st) \<and> gc_work (drain heap st) = []"
  by (rule drain_rule [of "mark_inv heap L R", OF assms(2)]) (rule trace_entry_inv [OF assms(1)])

section \<open>Ephemerons\<close>

lemma ephemeron_pass_flat:
  "ephemeron_pass heap st =
    fold (ephemeron_entry heap) (concat (map (\<lambda>slot. ephemerons (heap ! slot)) (gc_weak_collections st))) st"
proof -
  have "fold (\<lambda>slot. fold (ephemeron_entry heap) (ephemerons (heap ! slot))) slots s =
      fold (ephemeron_entry heap) (concat (map (\<lambda>slot. ephemerons (heap ! slot)) slots)) s" for slots s
    by (induction slots arbitrary: s) simp_all
  then show ?thesis by (simp add: ephemeron_pass_def)
qed

lemma ephemeron_entry_spec:
  assumes "length (gc_marks st) = length heap"
  shows "length (gc_marks (ephemeron_entry heap e st)) = length heap"
    "marked (ephemeron_entry heap e st) j \<longleftrightarrow> marked st j \<or>
       ((\<exists>k. runtime_index (ce_key e) = Some k \<and> marked st k) \<and> runtime_index (ce_value e) = Some j \<and> present heap j)"
    "set (gc_work (ephemeron_entry heap e st)) =
       set (gc_work st) \<union> {j. marked (ephemeron_entry heap e st) j \<and> \<not> marked st j}"
    "gc_weak_collections (ephemeron_entry heap e st) = gc_weak_collections st"
  using assms mark_index_spec [OF assms]
  by (auto simp: ephemeron_entry_def is_marked_value_iff mark_value_def split: option.splits)

text \<open>The entries \<open>es\<close> in any state: marks only grow, and a key marked at the start brings its value.\<close>

lemma ephemeron_entries_spec:
  assumes "length (gc_marks st) = length heap"
  shows "length (gc_marks (fold (ephemeron_entry heap) es st)) = length heap \<and>
    (\<forall>j. marked st j \<longrightarrow> marked (fold (ephemeron_entry heap) es st) j) \<and>
    set (gc_work (fold (ephemeron_entry heap) es st)) =
      set (gc_work st) \<union> {j. marked (fold (ephemeron_entry heap) es st) j \<and> \<not> marked st j} \<and>
    gc_weak_collections (fold (ephemeron_entry heap) es st) = gc_weak_collections st \<and>
    (\<forall>e k i. e \<in> set es \<longrightarrow> runtime_index (ce_key e) = Some k \<longrightarrow> marked st k \<longrightarrow> runtime_index (ce_value e) = Some i \<longrightarrow>
       present heap i \<longrightarrow> marked (fold (ephemeron_entry heap) es st) i)"
  using assms
proof (induction es arbitrary: st)
  case (Cons e es)
  note spec = ephemeron_entry_spec [OF Cons.prems, of e]
  from Cons.IH [OF spec(1)] show ?case unfolding fold.simps comp_apply by (auto simp: spec)
qed simp

lemma ephemeron_entries_sound:
  assumes "length (gc_marks st) = length heap" and "\<And>j. marked st j \<Longrightarrow> R j"
    and "\<And>e k i. e \<in> set es \<Longrightarrow> runtime_index (ce_key e) = Some k \<Longrightarrow> R k \<Longrightarrow> runtime_index (ce_value e) = Some i \<Longrightarrow>
      present heap i \<Longrightarrow> R i"
  shows "marked (fold (ephemeron_entry heap) es st) j \<Longrightarrow> R j"
  using assms
proof (induction es arbitrary: st)
  case (Cons e es)
  note spec = ephemeron_entry_spec [OF Cons.prems(2), of e]
  show ?case
  proof (rule Cons.IH [OF _ spec(1)])
    show "marked (fold (ephemeron_entry heap) es (ephemeron_entry heap e st)) j" using Cons.prems(1) by simp
    show "R i" if "marked (ephemeron_entry heap e st) i" for i
    proof (cases "marked st i")
      case False
      with that spec(2) obtain k where "runtime_index (ce_key e) = Some k" "marked st k" "runtime_index (ce_value e) = Some i" "present heap i"
        by blast
      then show ?thesis using Cons.prems(3) by (intro Cons.prems(4) [of e k i]) simp_all
    qed (rule Cons.prems(3))
    show "R i" if "f \<in> set es" "runtime_index (ce_key f) = Some k" "R k" "runtime_index (ce_value f) = Some i" "present heap i" for f k i
      using that by (intro Cons.prems(4) [of f k i]) simp_all
  qed
qed simp

lemma ephemeron_pass_inv:
  assumes "ephemeron_closed heap R" and "mark_inv heap L R st"
  shows "mark_inv heap L R (ephemeron_pass heap st)"
proof -
  let ?es = "concat (map (\<lambda>slot. ephemerons (heap ! slot)) (gc_weak_collections st))"
  from assms(2) have len: "length (gc_marks st) = length heap" by (simp add: mark_inv_def)
  note spec = ephemeron_entries_spec [OF len, of ?es]
  have "R j" if "marked (fold (ephemeron_entry heap) ?es st) j" for j
  proof (rule ephemeron_entries_sound [OF len _ _ that])
    fix e k i
    assume e: "e \<in> set ?es" "runtime_index (ce_key e) = Some k" "R k" "runtime_index (ce_value e) = Some i" "present heap i"
    from e(1) obtain slot where "slot \<in> set (gc_weak_collections st)" "e \<in> set (ephemerons (heap ! slot))" by auto
    moreover from this assms(2) have "R slot" by (simp add: mark_inv_def)
    ultimately show "R i" using e(2-5) by (blast intro: ephemeron_closedD [OF assms(1)])
  qed (use assms(2) in \<open>simp add: mark_inv_def\<close>)
  with spec show ?thesis unfolding ephemeron_pass_flat by (intro mark_inv_grow [OF assms(2)]) simp_all
qed

lemma ephemerons_weak: "e \<in> set (ephemerons x) \<Longrightarrow> is_weak_collection x"
  by (auto simp: ephemerons_def is_weak_collection_def split: HeapEntry.splits if_splits)

text \<open>A pass that pushes nothing has marked nothing, so the marks are closed under the ephemerons.\<close>

lemma ephemeron_pass_stable:
  assumes inv: "mark_inv heap L R st" and "gc_work (ephemeron_pass heap st) = []"
  shows "ephemeron_closed heap (marked (ephemeron_pass heap st))"
proof -
  let ?es = "concat (map (\<lambda>slot. ephemerons (heap ! slot)) (gc_weak_collections st))"
  from inv have len: "length (gc_marks st) = length heap" by (simp add: mark_inv_def)
  note spec = ephemeron_entries_spec [OF len, of ?es, folded ephemeron_pass_flat]
  from spec assms(2) have idle: "gc_work st = []" and same: "marked (ephemeron_pass heap st) = marked st" by auto
  show ?thesis unfolding ephemeron_closed_def same
  proof (intro allI impI)
    fix j e k i
    assume e: "marked st j" "e \<in> set (ephemerons (heap ! j))" "runtime_index (ce_key e) = Some k" "marked st k"
      "runtime_index (ce_value e) = Some i" "present heap i"
    from e(1) inv idle have "closed_at heap st j" by (simp add: mark_inv_def)
    with ephemerons_weak [OF e(2)] have "j \<in> set (gc_weak_collections st)" by (simp add: closed_at_def)
    with e(2) have "e \<in> set ?es" by auto
    with spec e(3-6) same show "marked st i" by metis
  qed
qed

lemma ephemeron_fixed_point_inv:
  assumes "edge_closed heap R" and "ephemeron_closed heap R" and "mark_inv heap L R st"
  shows "mark_inv heap L R (ephemeron_fixed_point heap st) \<and> gc_work (ephemeron_fixed_point heap st) = [] \<and>
    ephemeron_closed heap (marked (ephemeron_fixed_point heap st))"
  using assms
proof (induction heap st rule: ephemeron_fixed_point.induct)
  case (1 heap st)
  note pass = ephemeron_pass_inv [OF 1(3,4)]
  show ?case
  proof (cases "gc_work (ephemeron_pass heap st) = []")
    case True
    then show ?thesis
      using pass ephemeron_pass_stable [OF 1(4)] by (simp add: ephemeron_fixed_point.simps [of heap st] Let_def)
  next
    case False
    from drain_inv [OF 1(2) pass] have "mark_inv heap L R (drain heap (ephemeron_pass heap st))" by simp
    with 1(1) [OF refl False 1(2,3)] False show ?thesis
      by (simp add: ephemeron_fixed_point.simps [of heap st] Let_def)
  qed
qed

section \<open>Marking is reachability\<close>

definition root_slot :: "HeapEntry list \<Rightarrow> visit list \<Rightarrow> usize \<Rightarrow> bool" where
  "root_slot heap roots i \<longleftrightarrow> present heap i \<and> Some i \<in> visit_slot ` set roots"

lemma roots_inv:
  assumes "\<And>i. root_slot heap roots i \<Longrightarrow> R i"
  shows "mark_inv heap (root_slot heap roots) R (run_visits heap roots (gc_start heap))"
proof -
  have start: "length (gc_marks (gc_start heap)) = length heap" "\<And>j. \<not> marked (gc_start heap) j"
    "gc_work (gc_start heap) = []" "gc_weak_collections (gc_start heap) = []"
    by (auto simp: gc_start_def marked_def)
  have slot: "root_slot heap roots i \<longleftrightarrow> (\<exists>x\<in>set roots. visit_slot x = Some i \<and> present heap i)" for i
    by (auto simp: root_slot_def image_iff) metis
  then have "R i" if "x \<in> set roots" "visit_slot x = Some i" "present heap i" for x i using that assms by blast
  with run_visits_spec [OF start(1), of roots] slot show ?thesis by (auto simp: mark_inv_def start)
qed

lemma mark_heap_inv:
  assumes "edge_closed heap R" and "ephemeron_closed heap R" and "\<And>i. root_slot heap roots i \<Longrightarrow> R i"
  shows "mark_inv heap (root_slot heap roots) R (mark_heap heap roots) \<and> gc_work (mark_heap heap roots) = [] \<and>
    ephemeron_closed heap (marked (mark_heap heap roots))"
  unfolding mark_heap_def
  by (rule ephemeron_fixed_point_inv [OF assms(1,2)])
    (use drain_inv [OF assms(1) roots_inv [of heap roots R, OF assms(3)]] in simp)

lemma mark_heap_reach: "marked (mark_heap heap roots) i \<longleftrightarrow> gc_reach heap roots i"
proof -
  have "gc_reach heap roots j" if "root_slot heap roots j" for j
    using that by (auto simp: root_slot_def image_iff intro: reach_root)
  note final = mark_heap_inv [of heap "gc_reach heap roots" roots, OF reach_closed this]
  let ?m = "marked (mark_heap heap roots)"
  from final have closed: "closed_at heap (mark_heap heap roots) j" if "?m j" for j using that by (auto simp: mark_inv_def)
  have edge: "edge_closed heap ?m"
    unfolding edge_closed_def using closed unfolding closed_at_def by blast
  from final have eph: "ephemeron_closed heap ?m" by simp
  have root: "?m k" if "x \<in> set roots" "visit_slot x = Some k" "present heap k" for x k
  proof -
    from that have "root_slot heap roots k" by (auto simp: root_slot_def image_iff intro!: bexI [of _ x])
    with final show ?thesis by (simp add: mark_inv_def)
  qed
  show ?thesis
  proof
    assume "?m i"
    with final show "gc_reach heap roots i" by (simp add: mark_inv_def)
  next
    assume "gc_reach heap roots i"
    from edge eph _ this show "?m i" by (rule reach_least) (rule root)
  qed
qed

text \<open>
  C17. The marking phase (roots, stack drain and ephemeron fixed point) terminates, leaves nothing on
  its stack, and marks exactly the slots that are reachable from the roots, where the value of a weak
  map entry is reachable once the map and the key are.
\<close>

theorem collector_marks_reachable:
  "marked (mark_heap heap roots) i \<longleftrightarrow> gc_reach heap roots i"
  by (rule mark_heap_reach)

end
