(* ===== verification/Heap_Ledger.thy ===== *)
theory Heap_Ledger
  imports Gc_Mark
begin

text \<open>
  The runtime machine as far as its heap is concerned and the byte ledger it keeps
  (\<^verbatim>\<open>crates/bamts-runtime/src/lib.rs\<close>): every slot has a charge, the machine has one of its own, and
  \<open>heap_bytes\<close> is their sum and never exceeds the limit. Slots made at start-up are not charged; what
  is freed of them becomes a credit that later charges of the same slot use first.
\<close>

section \<open>The machine\<close>

record GcControl =
  gc_pending :: bool
  gc_byte_watermark :: usize
  gc_slot_watermark :: usize

text \<open>A call frame, a timer and a linked module, reduced to the values they hold.\<close>

record Frame =
  fr_registers :: "Value list"
  fr_this_value :: Value
  fr_new_target :: Value
  fr_args :: "Value list"
  fr_context :: "Value option"
  fr_outer_context :: "Value option"
  fr_arguments_object :: "Value option"
  fr_constructed :: "Value option"

record TimerRecord =
  tr_callback :: Value
  tr_arguments :: "Value list"
  tr_handle :: Value
  tr_context :: "Value option"

datatype ModuleState =
    Module_Unevaluated
  | Module_Evaluating
  | Module_EvaluatingAsync Value Value
  | Module_Evaluated "RuntimeErrorKind option"

record ModuleInstance =
  mi_namespace :: "Value option"
  mi_import_meta :: "Value option"
  mi_state :: ModuleState

record ExternalModuleInstance =
  ex_namespace :: Value
  ex_exports :: "Value list"
  ex_internals :: "Value list"

record MachineRoots =
  rt_frames :: "Frame list"
  rt_global_object :: Value
  rt_context_global :: "Value option"
  rt_last_completion :: "Value option"
  rt_current_new_target :: Value
  rt_pending_generator_resume :: "GeneratorResume option"
  rt_pending_async_suspend :: "(Value \<times> SuspendedActivation) option"
  rt_microtasks :: "QueuedMicrotask list"
  rt_timers :: "TimerRecord list"
  rt_intrinsics :: "Value list"
  rt_modules :: "ModuleInstance list"
  rt_cells :: "Value list"
  rt_external :: "ExternalModuleInstance list"

text \<open>What bounds and guards the execution of jobs: the fuel, the limits on it and on queued jobs, and the flags of a running drain and of cancellation.\<close>

record JobControl =
  jc_fuel :: u64
  jc_fuel_limit :: u64
  jc_max_microtasks :: usize
  jc_drain_active :: bool
  jc_cancelled :: bool

record Machine =
  mc_heap :: "HeapEntry list"
  mc_slot_bytes :: "usize list"
  mc_intrinsic_slot_credits :: "usize list"
  mc_machine_bytes :: usize
  mc_intrinsic_slots :: usize
  mc_vacant_count :: usize
  mc_heap_bytes :: usize
  mc_max_heap_slots :: usize
  mc_max_heap_bytes :: usize
  mc_gc :: GcControl
  mc_native_roots :: "Value list list"
  mc_kept_alive :: "Value list"
  mc_finalization_cleanup_queue :: "Value list"
  mc_symbol_registry :: "(EcmaString \<times> Value) list"
  mc_roots :: MachineRoots
  mc_jobs :: JobControl

section \<open>Sizes\<close>

text \<open>\<open>size_of\<close> of the records that are charged, as the compiler lays them out on a 64-bit target.\<close>

definition VALUE_BYTES :: usize where "VALUE_BYTES = 8"
definition CollectionEntry_BYTES :: usize where "CollectionEntry_BYTES = 32"
definition CollectionIndex_ENTRY_BYTES :: usize where "CollectionIndex_ENTRY_BYTES = 8"
definition FinalizationCell_BYTES :: usize where "FinalizationCell_BYTES = 32"
definition AsyncGeneratorRequest_BYTES :: usize where "AsyncGeneratorRequest_BYTES = 24"
definition PromiseReaction_BYTES :: usize where "PromiseReaction_BYTES = 56"

text \<open>\<open>saturating_add\<close> and \<open>saturating_mul\<close> of \<open>usize\<close>.\<close>

definition sat_add :: "usize \<Rightarrow> usize \<Rightarrow> usize" where
  "sat_add a b = u64_saturating (a + b)"

definition sat_mul :: "usize \<Rightarrow> usize \<Rightarrow> usize" where
  "sat_mul a b = u64_saturating (a * b)"

primrec key_charge_bytes :: "PropertyKey \<Rightarrow> usize" where
  "key_charge_bytes (KeyNamed s) = sat_add (sat_mul (length s) 2) 8"
| "key_charge_bytes (KeySymbol i) = 16"
| "key_charge_bytes (KeyPrivate i) = 16"

primrec property_charge_bytes :: "Property \<Rightarrow> usize" where
  "property_charge_bytes (PropertyData v) = 0"
| "property_charge_bytes (PropertyAccessor getter setter) = VALUE_BYTES"

definition map_charge_bytes :: "PropertyMap \<Rightarrow> usize" where
  "map_charge_bytes ps =
    foldl (\<lambda>bytes (key, property). sat_add (sat_add bytes (key_charge_bytes key)) (property_charge_bytes property)) 0 ps"

definition activation_bytes :: "SuspendedActivation \<Rightarrow> usize" where
  "activation_bytes a = sat_add (sat_add (length (sa_registers a)) (length (sa_args a))) 1"

primrec generator_bytes :: "GeneratorState \<Rightarrow> usize" where
  "generator_bytes (Gen_SuspendedStart s) = sat_add (sat_add (length (gs_captures s)) (length (gs_args s))) 1"
| "generator_bytes Gen_Executing = 1"
| "generator_bytes (Gen_Suspended a) = activation_bytes a"
| "generator_bytes Gen_Completed = 1"

primrec async_generator_bytes :: "AsyncGeneratorState \<Rightarrow> usize" where
  "async_generator_bytes (AsyncGen_SuspendedStart s) = sat_add (sat_add (length (gs_captures s)) (length (gs_args s))) 1"
| "async_generator_bytes (AsyncGen_SuspendedYield a) = activation_bytes a"
| "async_generator_bytes AsyncGen_Executing = 1"
| "async_generator_bytes (AsyncGen_AwaitingOperand a) = activation_bytes a"
| "async_generator_bytes (AsyncGen_AwaitingYield a) = activation_bytes a"
| "async_generator_bytes (AsyncGen_AwaitingResumption a) = activation_bytes a"
| "async_generator_bytes AsyncGen_AwaitingReturn = 1"
| "async_generator_bytes AsyncGen_Completed = 1"

definition initial_bytes :: "HeapEntry \<Rightarrow> usize" where
  "initial_bytes e =
    (case e of
       Entry_Vacant \<Rightarrow> 0
     | Entry_String s \<Rightarrow> sat_mul (length s) 2
     | Entry_Symbol s \<Rightarrow> sat_mul (length s) 2
     | Entry_PrivateName s \<Rightarrow> sat_mul (length s) 2
     | Entry_BigInt s \<Rightarrow> length s
     | Entry_RegExp pattern flags ps prototype \<Rightarrow> sat_mul (sat_add (length pattern) (length flags)) 2
     | Entry_HashState algorithm bytes update digest \<Rightarrow> length algorithm + length bytes
     | Entry_Collection kind es index count next_order ps prototype \<Rightarrow>
         sat_add (sat_mul count (sat_add CollectionEntry_BYTES CollectionIndex_ENTRY_BYTES)) 1
     | Entry_TypedArray buffer ps prototype \<Rightarrow> sat_add (map_charge_bytes ps) 1
     | Entry_DataView buffer ps prototype \<Rightarrow> sat_add (map_charge_bytes ps) 1
     | Entry_ArrayBuffer ab ps prototype \<Rightarrow>
         sat_add (sat_add (case ab_bytes ab of None \<Rightarrow> 0 | Some bytes \<Rightarrow> length bytes) (map_charge_bytes ps)) 1
     | Entry_SharedArrayBuffer byte_length ps prototype \<Rightarrow> sat_add (sat_add byte_length (map_charge_bytes ps)) 1
     | Entry_WeakRef target ps prototype \<Rightarrow> sat_add (map_charge_bytes ps) 1
     | Entry_FinalizationRegistry cleanup_callback cells pending_holdings cleanup_scheduled ps prototype \<Rightarrow>
         sat_add (sat_add (sat_add (sat_mul (length cells) FinalizationCell_BYTES)
           (sat_mul (length pending_holdings) VALUE_BYTES)) (map_charge_bytes ps)) 1
     | Entry_NativeFunction callable ps prototype \<Rightarrow>
         (case callable of Callable_Builtin \<Rightarrow> 1 | Callable_Bound target this_value arguments \<Rightarrow> sat_add (length arguments) 1)
     | Entry_ProxyRevoker proxy ps \<Rightarrow> sat_add (map_charge_bytes ps) 1
     | Entry_Generator state ps prototype \<Rightarrow> generator_bytes state
     | Entry_AsyncGenerator state queue ps prototype \<Rightarrow>
         sat_add (async_generator_bytes state) (sat_mul (length queue) AsyncGeneratorRequest_BYTES)
     | Entry_AsyncFromSync iterator next_method ps prototype \<Rightarrow> map_charge_bytes ps
     | Entry_Object ps prototype boxed_primitive \<Rightarrow> sat_add (map_charge_bytes ps) 1
     | Entry_Timeout ps prototype \<Rightarrow> sat_add (map_charge_bytes ps) 1
     | Entry_Array elements ps prototype \<Rightarrow> sat_add (sat_add (sat_mul (length elements) VALUE_BYTES) (map_charge_bytes ps)) 1
     | _ \<Rightarrow> 1)"

section \<open>The ledger\<close>

definition live_runtime_slots :: "Machine \<Rightarrow> usize" where
  "live_runtime_slots m = length (mc_heap m) - mc_intrinsic_slots m - mc_vacant_count m"

definition request_collection :: "usize \<Rightarrow> usize \<Rightarrow> GcControl \<Rightarrow> GcControl" where
  "request_collection heap_bytes live_slots g =
    g\<lparr>gc_pending := gc_pending g \<or> heap_bytes \<ge> gc_byte_watermark g \<or> live_slots \<ge> gc_slot_watermark g\<rparr>"

definition request_garbage_collection :: "Machine \<Rightarrow> Machine" where
  "request_garbage_collection m = m\<lparr>mc_gc := request_collection (mc_heap_bytes m) (live_runtime_slots m) (mc_gc m)\<rparr>"

definition fits :: "usize \<Rightarrow> usize \<Rightarrow> usize \<Rightarrow> bool" where
  "fits used additional limit = (case usize_checked_add used additional of None \<Rightarrow> False | Some n \<Rightarrow> n \<le> limit)"

definition ensure_allocation_capacity :: "Machine \<Rightarrow> usize \<Rightarrow> usize \<Rightarrow> (unit, RuntimeErrorKind) result" where
  "ensure_allocation_capacity m additional_slots additional_bytes =
    (if \<not> fits (live_runtime_slots m) additional_slots (mc_max_heap_slots m) \<or>
        \<not> fits (length (mc_heap m)) additional_slots (2 ^ 32 - 1)
     then Err (Error_HeapSlotLimitExceeded (mc_max_heap_slots m))
     else if \<not> fits (mc_heap_bytes m) additional_bytes (mc_max_heap_bytes m)
     then Err (Error_HeapByteLimitExceeded (mc_max_heap_bytes m))
     else Ok ())"

definition sync_slot_ledger :: "Machine \<Rightarrow> Machine" where
  "sync_slot_ledger m =
    m\<lparr>mc_slot_bytes := take (length (mc_heap m)) (mc_slot_bytes m) @
        replicate (length (mc_heap m) - length (mc_slot_bytes m)) 0\<rparr>"

definition allocate :: "HeapEntry \<Rightarrow> Machine \<Rightarrow> (Value \<times> Machine, RuntimeErrorKind) result" where
  "allocate e m =
    (let bytes = initial_bytes e
     in bind_result (ensure_allocation_capacity m 1 bytes) (\<lambda>_.
        let m = sync_slot_ledger m;
            slot = as_u32 (length (mc_heap m) + 1);
            m = m\<lparr>mc_heap := mc_heap m @ [e], mc_slot_bytes := mc_slot_bytes m @ [bytes], mc_heap_bytes := mc_heap_bytes m + bytes\<rparr>
        in bind_result (expect (SlotId_from_parts RUNTIME_HEAP_SEGMENT slot)) (\<lambda>sid.
             Ok (Value_heap_ref sid, request_garbage_collection m))))"

text \<open>An addition that panics on overflow, as arithmetic does in a checked build.\<close>

definition usize_add :: "usize \<Rightarrow> usize \<Rightarrow> (usize, 'e) result" where
  "usize_add a b = expect (usize_checked_add a b)"

definition usize_sub :: "usize \<Rightarrow> usize \<Rightarrow> (usize, 'e) result" where
  "usize_sub a b = (if b \<le> a then Ok (a - b) else Panic)"

definition credit_of :: "Machine \<Rightarrow> usize \<Rightarrow> usize" where
  "credit_of m i = (case slice_get (mc_intrinsic_slot_credits m) i of None \<Rightarrow> 0 | Some credit \<Rightarrow> credit)"

definition charge_slot :: "usize \<Rightarrow> usize \<Rightarrow> Machine \<Rightarrow> (Machine, RuntimeErrorKind) result" where
  "charge_slot i bytes m =
    (let m = sync_slot_ledger m;
         credited = min (credit_of m i) bytes;
         charged = bytes - credited
     in bind_result (ensure_allocation_capacity m 0 charged) (\<lambda>_.
        let m = m\<lparr>mc_intrinsic_slot_credits := (mc_intrinsic_slot_credits m)[i := credit_of m i - credited]\<rparr>
        in bind_result (slice_index (mc_slot_bytes m) i) (\<lambda>held.
           bind_result (usize_add held charged) (\<lambda>held'.
           bind_result (usize_add (mc_heap_bytes m) charged) (\<lambda>total_bytes.
             Ok (request_garbage_collection
               (m\<lparr>mc_slot_bytes := (mc_slot_bytes m)[i := held'], mc_heap_bytes := total_bytes\<rparr>)))))))"

definition refund_slot :: "usize \<Rightarrow> usize \<Rightarrow> Machine \<Rightarrow> (Machine, RuntimeErrorKind) result" where
  "refund_slot i bytes m =
    (let m = sync_slot_ledger m
     in bind_result (slice_index (mc_slot_bytes m) i) (\<lambda>held.
        case slice_get (mc_intrinsic_slot_credits m) i of
          Some credit \<Rightarrow>
            let refunded = min held bytes
            in bind_result (usize_sub (mc_heap_bytes m) refunded) (\<lambda>total_bytes.
               bind_result (usize_add credit (bytes - refunded)) (\<lambda>credit'.
                 Ok (m\<lparr>mc_slot_bytes := (mc_slot_bytes m)[i := held - refunded], mc_heap_bytes := total_bytes,
                     mc_intrinsic_slot_credits := (mc_intrinsic_slot_credits m)[i := credit']\<rparr>)))
        | None \<Rightarrow>
            bind_result (usize_sub held bytes) (\<lambda>held'.
            bind_result (usize_sub (mc_heap_bytes m) bytes) (\<lambda>total_bytes.
              Ok (m\<lparr>mc_slot_bytes := (mc_slot_bytes m)[i := held'], mc_heap_bytes := total_bytes\<rparr>)))))"

definition transfer_slot_to_machine :: "usize \<Rightarrow> usize \<Rightarrow> Machine \<Rightarrow> (Machine, RuntimeErrorKind) result" where
  "transfer_slot_to_machine i bytes m =
    (let m = sync_slot_ledger m
     in bind_result (slice_index (mc_slot_bytes m) i) (\<lambda>held.
        bind_result (usize_sub held bytes) (\<lambda>held'.
        bind_result (usize_add (mc_machine_bytes m) bytes) (\<lambda>machine_bytes.
          Ok (m\<lparr>mc_slot_bytes := (mc_slot_bytes m)[i := held'], mc_machine_bytes := machine_bytes\<rparr>)))))"

definition transfer_slot_charge :: "usize \<Rightarrow> usize \<Rightarrow> usize \<Rightarrow> Machine \<Rightarrow> (Machine, RuntimeErrorKind) result" where
  "transfer_slot_charge from_slot to_slot bytes m =
    (let m = sync_slot_ledger m
     in bind_result (slice_index (mc_slot_bytes m) from_slot) (\<lambda>held.
        bind_result (usize_sub held bytes) (\<lambda>held'.
        let m = m\<lparr>mc_slot_bytes := (mc_slot_bytes m)[from_slot := held']\<rparr>
        in bind_result (slice_index (mc_slot_bytes m) to_slot) (\<lambda>gain.
           bind_result (usize_add gain bytes) (\<lambda>gain'.
             Ok (m\<lparr>mc_slot_bytes := (mc_slot_bytes m)[to_slot := gain']\<rparr>))))))"

definition charge_machine :: "usize \<Rightarrow> Machine \<Rightarrow> (Machine, RuntimeErrorKind) result" where
  "charge_machine bytes m =
    bind_result (ensure_allocation_capacity m 0 bytes) (\<lambda>_.
    bind_result (usize_add (mc_machine_bytes m) bytes) (\<lambda>machine_bytes.
    bind_result (usize_add (mc_heap_bytes m) bytes) (\<lambda>total_bytes.
      Ok (request_garbage_collection (m\<lparr>mc_machine_bytes := machine_bytes, mc_heap_bytes := total_bytes\<rparr>)))))"

definition refund_machine :: "usize \<Rightarrow> Machine \<Rightarrow> (Machine, RuntimeErrorKind) result" where
  "refund_machine bytes m =
    bind_result (usize_sub (mc_machine_bytes m) bytes) (\<lambda>machine_bytes.
    bind_result (usize_sub (mc_heap_bytes m) bytes) (\<lambda>total_bytes.
      Ok (m\<lparr>mc_machine_bytes := machine_bytes, mc_heap_bytes := total_bytes\<rparr>)))"

definition runtime_slot :: "Machine \<Rightarrow> Value \<Rightarrow> (usize option, RuntimeErrorKind) result" where
  "runtime_slot m v =
    (case Value_decode v of
       None \<Rightarrow> Err (Error_InvalidValue v)
     | Some (Dec_HeapRef sid) \<Rightarrow>
         if slot_segment sid \<noteq> RUNTIME_HEAP_SEGMENT then Err (Error_InvalidValue v)
         else
           let index = unat (slot_slot sid) - 1
           in if index \<ge> length (mc_heap m) \<or> is_vacant (mc_heap m ! index)
              then Err (Error_InvalidRuntimeHeapReference (slot_slot sid))
              else Ok (Some index)
     | Some _ \<Rightarrow> Ok None)"

section \<open>The invariant of the ledger\<close>

definition vacant_slots :: "Machine \<Rightarrow> nat" where
  "vacant_slots m = length (filter is_vacant (drop (mc_intrinsic_slots m) (mc_heap m)))"

definition ledger_ok :: "Machine \<Rightarrow> bool" where
  "ledger_ok m \<longleftrightarrow>
     length (mc_slot_bytes m) = length (mc_heap m) \<and>
     length (mc_intrinsic_slot_credits m) = mc_intrinsic_slots m \<and>
     mc_intrinsic_slots m \<le> length (mc_heap m) \<and>
     length (mc_heap m) < 2 ^ 32 \<and>
     mc_vacant_count m = vacant_slots m \<and>
     live_runtime_slots m \<le> mc_max_heap_slots m \<and>
     mc_heap_bytes m = mc_machine_bytes m + sum_list (mc_slot_bytes m) \<and>
     mc_heap_bytes m \<le> mc_max_heap_bytes m \<and>
     mc_max_heap_bytes m < 2 ^ 64 \<and>
     (\<forall>credit \<in> set (mc_intrinsic_slot_credits m). credit < 2 ^ 64)"

lemma ledger_okD:
  assumes "ledger_ok m"
  shows "length (mc_slot_bytes m) = length (mc_heap m)" "length (mc_intrinsic_slot_credits m) = mc_intrinsic_slots m"
    "mc_intrinsic_slots m \<le> length (mc_heap m)" "length (mc_heap m) < 2 ^ 32" "mc_vacant_count m = vacant_slots m"
    "live_runtime_slots m \<le> mc_max_heap_slots m" "mc_heap_bytes m = mc_machine_bytes m + sum_list (mc_slot_bytes m)"
    "mc_heap_bytes m \<le> mc_max_heap_bytes m" "mc_max_heap_bytes m < 2 ^ 64"
    "\<And>i. i < mc_intrinsic_slots m \<Longrightarrow> mc_intrinsic_slot_credits m ! i < 2 ^ 64"
  using assms by (simp_all add: ledger_ok_def nth_mem)

text \<open>The subtraction of \<open>live_runtime_slots\<close> does not underflow.\<close>

lemma live_slots_exact:
  "ledger_ok m \<Longrightarrow> length (mc_heap m) = mc_intrinsic_slots m + mc_vacant_count m + live_runtime_slots m"
  using length_filter_le [of is_vacant "drop (mc_intrinsic_slots m) (mc_heap m)"] ledger_okD(3,5) [of m]
  unfolding live_runtime_slots_def vacant_slots_def by simp

lemma sync_idle: "ledger_ok m \<Longrightarrow> sync_slot_ledger m = m"
  by (simp add: sync_slot_ledger_def ledger_okD(1))

lemma request_gc_simps [simp]:
  "mc_heap (request_garbage_collection m) = mc_heap m"
  "mc_slot_bytes (request_garbage_collection m) = mc_slot_bytes m"
  "mc_intrinsic_slot_credits (request_garbage_collection m) = mc_intrinsic_slot_credits m"
  "mc_machine_bytes (request_garbage_collection m) = mc_machine_bytes m"
  "mc_intrinsic_slots (request_garbage_collection m) = mc_intrinsic_slots m"
  "mc_vacant_count (request_garbage_collection m) = mc_vacant_count m"
  "mc_heap_bytes (request_garbage_collection m) = mc_heap_bytes m"
  "mc_max_heap_slots (request_garbage_collection m) = mc_max_heap_slots m"
  "mc_max_heap_bytes (request_garbage_collection m) = mc_max_heap_bytes m"
  "mc_jobs (request_garbage_collection m) = mc_jobs m"
  "mc_kept_alive (request_garbage_collection m) = mc_kept_alive m"
  "mc_roots (request_garbage_collection m) = mc_roots m"
  by (simp_all add: request_garbage_collection_def)

lemma request_gc_ok [simp]: "ledger_ok (request_garbage_collection m) \<longleftrightarrow> ledger_ok m"
  by (simp add: ledger_ok_def vacant_slots_def live_runtime_slots_def)

lemma fits_iff: "limit < 2 ^ 64 \<Longrightarrow> fits used additional limit \<longleftrightarrow> used + additional \<le> limit"
  by (auto simp: fits_def usize_checked_add_def)

lemma capacity_iffs:
  assumes "mc_max_heap_bytes m < 2 ^ 64"
  shows "ensure_allocation_capacity m s b = Ok u \<longleftrightarrow>
      fits (live_runtime_slots m) s (mc_max_heap_slots m) \<and> length (mc_heap m) + s < 2 ^ 32 \<and> mc_heap_bytes m + b \<le> mc_max_heap_bytes m"
    "ensure_allocation_capacity m s b \<noteq> Panic"
  using assms by (auto simp: ensure_allocation_capacity_def fits_iff)

lemma fits_le: "fits used additional limit \<Longrightarrow> used + additional \<le> limit"
  by (auto simp: fits_def usize_checked_add_def split: if_splits)

lemma usize_arith_iffs [simp]:
  "usize_add a b = Ok c \<longleftrightarrow> c = a + b \<and> a + b < 2 ^ 64" "usize_add a b \<noteq> Err e" "usize_add a b = Panic \<longleftrightarrow> 2 ^ 64 \<le> a + b"
  "usize_sub a b = Ok c \<longleftrightarrow> c = a - b \<and> b \<le> a" "usize_sub a b \<noteq> Err e" "usize_sub a b = Panic \<longleftrightarrow> a < b"
  by (auto simp: usize_add_def usize_sub_def usize_checked_add_def)

text \<open>Changing one slot's charge and the total by the same amount.\<close>

lemma sum_list_replace: "i < length xs \<Longrightarrow> sum_list (xs[i := x]) + xs ! i = sum_list xs + (x :: nat)"
  using elem_le_sum_list [of i xs] by (simp add: sum_list_update)

lemma ledger_ok_transfer:
  assumes "ledger_ok m" and "mc_heap m' = mc_heap m" and "mc_intrinsic_slots m' = mc_intrinsic_slots m"
    and "mc_vacant_count m' = mc_vacant_count m" and "mc_max_heap_slots m' = mc_max_heap_slots m"
    and "mc_max_heap_bytes m' = mc_max_heap_bytes m" and "length (mc_slot_bytes m') = length (mc_slot_bytes m)"
    and "length (mc_intrinsic_slot_credits m') = length (mc_intrinsic_slot_credits m)"
    and "\<And>credit. credit \<in> set (mc_intrinsic_slot_credits m') \<Longrightarrow> credit < 2 ^ 64"
    and "mc_heap_bytes m' = mc_machine_bytes m' + sum_list (mc_slot_bytes m')" and "mc_heap_bytes m' \<le> mc_max_heap_bytes m"
  shows "ledger_ok m'"
proof -
  from assms have "vacant_slots m' = vacant_slots m" "live_runtime_slots m' = live_runtime_slots m"
    by (simp_all add: vacant_slots_def live_runtime_slots_def)
  with assms show ?thesis by (simp add: ledger_ok_def)
qed

lemma credits_update:
  assumes "ledger_ok m" and "c < 2 ^ 64" and "credit \<in> set ((mc_intrinsic_slot_credits m)[i := c])"
  shows "credit < 2 ^ 64"
  using assms set_update_subset_insert [of "mc_intrinsic_slot_credits m" i c] by (auto simp: ledger_ok_def)

lemma slot_charge_le: "ledger_ok m \<Longrightarrow> i < length (mc_heap m) \<Longrightarrow> mc_slot_bytes m ! i \<le> mc_heap_bytes m"
  using elem_le_sum_list [of i "mc_slot_bytes m"] by (simp add: ledger_okD)

lemma credit_of_bound: "ledger_ok m \<Longrightarrow> credit_of m i < 2 ^ 64"
  using ledger_okD(2,10) [of m] by (simp add: credit_of_def slice_get_def)

lemma no_slot_capacity:
  assumes "ledger_ok m"
  shows "ensure_allocation_capacity m 0 b =
    (if mc_heap_bytes m + b \<le> mc_max_heap_bytes m then Ok () else Err (Error_HeapByteLimitExceeded (mc_max_heap_bytes m)))"
proof -
  have "live_runtime_slots m < 2 ^ 64" using ledger_okD(4) [OF assms] by (simp add: live_runtime_slots_def)
  with ledger_okD(6) [OF assms] have "fits (live_runtime_slots m) 0 (mc_max_heap_slots m)"
    by (simp add: fits_def usize_checked_add_def)
  then show ?thesis using ledger_okD(4,9) [OF assms] by (simp add: ensure_allocation_capacity_def fits_iff)
qed

text \<open>What the operations do in a state that keeps the invariant.\<close>

definition charge_due :: "Machine \<Rightarrow> usize \<Rightarrow> usize \<Rightarrow> usize" where
  "charge_due m i b = b - min (credit_of m i) b"

definition charged_slot :: "usize \<Rightarrow> usize \<Rightarrow> Machine \<Rightarrow> Machine" where
  "charged_slot i b m = request_garbage_collection
     (m\<lparr>mc_intrinsic_slot_credits := (mc_intrinsic_slot_credits m)[i := credit_of m i - min (credit_of m i) b],
        mc_slot_bytes := (mc_slot_bytes m)[i := mc_slot_bytes m ! i + charge_due m i b],
        mc_heap_bytes := mc_heap_bytes m + charge_due m i b\<rparr>)"

lemma charge_slot_eq:
  assumes ok: "ledger_ok m" and i: "i < length (mc_heap m)"
  shows "charge_slot i b m =
    (if mc_heap_bytes m + charge_due m i b \<le> mc_max_heap_bytes m then Ok (charged_slot i b m)
     else Err (Error_HeapByteLimitExceeded (mc_max_heap_bytes m)))"
proof (cases "mc_heap_bytes m + charge_due m i b \<le> mc_max_heap_bytes m")
  case True
  with ledger_okD(9) [OF ok] have total: "mc_heap_bytes m + charge_due m i b < 2 ^ 64" by linarith
  with slot_charge_le [OF ok i] have "mc_slot_bytes m ! i + charge_due m i b < 2 ^ 64" by linarith
  with True total i ledger_okD(1) [OF ok] show ?thesis
    by (simp add: charge_slot_def sync_idle [OF ok] no_slot_capacity [OF ok] charged_slot_def charge_due_def [symmetric] slice_index_def Let_def usize_add_def
        usize_checked_add_def expect_def)
qed (simp add: charge_slot_def Let_def charge_due_def [symmetric] sync_idle [OF ok] no_slot_capacity [OF ok])

lemma charged_slot_ok:
  assumes ok: "ledger_ok m" and i: "i < length (mc_heap m)"
    and "mc_heap_bytes m + charge_due m i b \<le> mc_max_heap_bytes m"
  shows "ledger_ok (charged_slot i b m)"
  unfolding charged_slot_def request_gc_ok
proof (rule ledger_ok_transfer [OF ok])
  fix credit
  assume "credit \<in> set (mc_intrinsic_slot_credits (m\<lparr>mc_intrinsic_slot_credits := (mc_intrinsic_slot_credits m)
      [i := credit_of m i - min (credit_of m i) b],
      mc_slot_bytes := (mc_slot_bytes m)[i := mc_slot_bytes m ! i + charge_due m i b],
      mc_heap_bytes := mc_heap_bytes m + charge_due m i b\<rparr>))"
  with credit_of_bound [OF ok, of i] show "credit < 2 ^ 64"
    by (intro credits_update [OF ok, of "credit_of m i - min (credit_of m i) b" credit i]) simp_all
qed (use assms sum_list_replace [of i "mc_slot_bytes m" "mc_slot_bytes m ! i + charge_due m i b"]
    in \<open>simp_all add: ledger_okD\<close>)

definition refunded_slot :: "usize \<Rightarrow> usize \<Rightarrow> Machine \<Rightarrow> Machine" where
  "refunded_slot i b m =
    (let refunded = min (mc_slot_bytes m ! i) b
     in m\<lparr>mc_slot_bytes := (mc_slot_bytes m)[i := mc_slot_bytes m ! i - refunded], mc_heap_bytes := mc_heap_bytes m - refunded,
          mc_intrinsic_slot_credits := (mc_intrinsic_slot_credits m)[i := credit_of m i + (b - refunded)]\<rparr>)"

text \<open>A refund is in order when the slot holds the charge, or is an intrinsic slot whose credit can take the rest.\<close>

definition refundable :: "usize \<Rightarrow> usize \<Rightarrow> Machine \<Rightarrow> bool" where
  "refundable i b m \<longleftrightarrow>
    (if i < mc_intrinsic_slots m then credit_of m i + (b - min (mc_slot_bytes m ! i) b) < 2 ^ 64 else b \<le> mc_slot_bytes m ! i)"

lemma refund_slot_eq:
  assumes ok: "ledger_ok m" and i: "i < length (mc_heap m)"
  shows "refund_slot i b m = (if refundable i b m then Ok (refunded_slot i b m) else Panic)"
proof (cases "i < mc_intrinsic_slots m")
  case True
  have "min (mc_slot_bytes m ! i) b \<le> mc_heap_bytes m" using slot_charge_le [OF ok i] by linarith
  then show ?thesis using i ledger_okD(1,2) [OF ok] True
    by (simp add: slice_get_def credit_of_def refund_slot_def sync_idle [OF ok] slice_index_def refunded_slot_def refundable_def Let_def usize_sub_def
        usize_add_def usize_checked_add_def expect_def)
next
  case False
  then have "\<not> i < length (mc_intrinsic_slot_credits m)" and "(mc_intrinsic_slot_credits m)[i := c] = mc_intrinsic_slot_credits m" for c
    using ledger_okD(2) [OF ok] by (simp_all add: list_update_beyond)
  with slot_charge_le [OF ok i] i ledger_okD(1) [OF ok] False show ?thesis
    by (auto simp: slice_get_def refund_slot_def sync_idle [OF ok] slice_index_def refunded_slot_def refundable_def Let_def usize_sub_def min_def)
qed

lemma refunded_slot_ok:
  assumes ok: "ledger_ok m" and i: "i < length (mc_heap m)" and "refundable i b m"
  shows "ledger_ok (refunded_slot i b m)"
proof -
  let ?r = "min (mc_slot_bytes m ! i) b"
  have credits: "credit < 2 ^ 64" if "credit \<in> set ((mc_intrinsic_slot_credits m)[i := credit_of m i + (b - ?r)])" for credit
  proof (cases "i < mc_intrinsic_slots m")
    case True
    with assms(3) have "credit_of m i + (b - ?r) < 2 ^ 64" by (simp add: refundable_def)
    then show ?thesis using that by (rule credits_update [OF ok])
  next
    case False
    then have "(mc_intrinsic_slot_credits m)[i := c] = mc_intrinsic_slot_credits m" for c
      by (simp add: list_update_beyond ledger_okD(2) [OF ok])
    then show ?thesis using that ok by (simp add: ledger_ok_def)
  qed
  have "sum_list ((mc_slot_bytes m)[i := mc_slot_bytes m ! i - ?r]) + ?r = sum_list (mc_slot_bytes m)"
    using sum_list_replace [of i "mc_slot_bytes m" "mc_slot_bytes m ! i - ?r"] i by (simp add: ledger_okD(1) [OF ok])
  then show ?thesis unfolding refunded_slot_def Let_def
    by (intro ledger_ok_transfer [OF ok]) (use credits ledger_okD(7,8) [OF ok] in auto)
qed

section \<open>References to slots\<close>

definition value_for_heap_index :: "usize \<Rightarrow> (Value, 'e) result" where
  "value_for_heap_index index =
    (if index + 1 < 2 ^ 32
     then bind_result (expect (SlotId_from_parts RUNTIME_HEAP_SEGMENT (as_u32 (index + 1)))) (\<lambda>sid. Ok (Value_heap_ref sid))
     else Panic)"

text \<open>The reference to a slot, where it has one.\<close>

definition slot_ref :: "usize \<Rightarrow> Value" where
  "slot_ref i = Value_heap_ref \<lparr>slot_segment = RUNTIME_HEAP_SEGMENT, slot_slot = as_u32 (i + 1)\<rparr>"

lemma slot_number:
  assumes "i + 1 < 2 ^ 32"
  shows "unat (as_u32 (i + 1)) = i + 1" and "as_u32 (i + 1) \<noteq> 0"
proof -
  show a: "unat (as_u32 (i + 1)) = i + 1" using assms by (rule unat_as_u32)
  show "as_u32 (i + 1) \<noteq> 0"
  proof
    assume "as_u32 (i + 1) = 0"
    with a show False by simp
  qed
qed

lemma from_parts_slot:
  "i + 1 < 2 ^ 32 \<Longrightarrow> SlotId_from_parts RUNTIME_HEAP_SEGMENT (as_u32 (i + 1)) =
     Some \<lparr>slot_segment = RUNTIME_HEAP_SEGMENT, slot_slot = as_u32 (i + 1)\<rparr>"
  using slot_number(2) [of i] by (simp add: SlotId_from_parts_def RUNTIME_HEAP_SEGMENT_def)

lemma value_for_heap_index: "i + 1 < 2 ^ 32 \<Longrightarrow> value_for_heap_index i = Ok (slot_ref i)"
  using from_parts_slot [of i] by (simp add: value_for_heap_index_def slot_ref_def expect_def)

lemma decode_slot_ref:
  "i + 1 < 2 ^ 32 \<Longrightarrow> Value_decode (slot_ref i) = Some (Dec_HeapRef \<lparr>slot_segment = RUNTIME_HEAP_SEGMENT, slot_slot = as_u32 (i + 1)\<rparr>)"
  using slot_number(2) [of i] by (simp add: Value_decode_iff slot_ref_def RUNTIME_HEAP_SEGMENT_def)

lemma runtime_index_slot_ref: "i + 1 < 2 ^ 32 \<Longrightarrow> runtime_index (slot_ref i) = Some i"
  using slot_number [of i] by (simp add: runtime_index_def decode_slot_ref)

lemma decoded_slot_nonzero: "Value_decode v = Some (Dec_HeapRef sid) \<Longrightarrow> slot_slot sid \<noteq> 0"
  by (simp add: Value_decode_iff)

lemma runtime_slot_iff: "runtime_slot m v = Ok (Some i) \<longleftrightarrow> runtime_index v = Some i \<and> present (mc_heap m) i"
  by (auto dest: decoded_slot_nonzero simp: runtime_slot_def runtime_index_def present_def Let_def split: option.splits Decoded.splits if_splits)

lemma runtime_slot_no_Panic: "runtime_slot m v \<noteq> Panic"
  by (auto simp: runtime_slot_def Let_def split: option.splits Decoded.splits)

section \<open>The other operations\<close>

lemma allocate_eq:
  assumes ok: "ledger_ok m"
  shows "allocate e m =
    (if mc_max_heap_slots m < live_runtime_slots m + 1 \<or> 2 ^ 32 \<le> length (mc_heap m) + 1
     then Err (Error_HeapSlotLimitExceeded (mc_max_heap_slots m))
     else if mc_max_heap_bytes m < mc_heap_bytes m + initial_bytes e then Err (Error_HeapByteLimitExceeded (mc_max_heap_bytes m))
     else Ok (slot_ref (length (mc_heap m)), request_garbage_collection
       (m\<lparr>mc_heap := mc_heap m @ [e], mc_slot_bytes := mc_slot_bytes m @ [initial_bytes e],
          mc_heap_bytes := mc_heap_bytes m + initial_bytes e\<rparr>)))"
proof -
  let ?n = "length (mc_heap m)"
  have "live_runtime_slots m + 1 < 2 ^ 64" using ledger_okD(4) [OF ok] by (simp add: live_runtime_slots_def)
  then have fits: "fits (live_runtime_slots m) (Suc 0) (mc_max_heap_slots m) \<longleftrightarrow> live_runtime_slots m + 1 \<le> mc_max_heap_slots m"
    by (simp add: fits_def usize_checked_add_def)
  have cap: "ensure_allocation_capacity m (Suc 0) (initial_bytes e) =
    (if mc_max_heap_slots m < live_runtime_slots m + 1 \<or> 2 ^ 32 \<le> ?n + 1
     then Err (Error_HeapSlotLimitExceeded (mc_max_heap_slots m))
     else if mc_max_heap_bytes m < mc_heap_bytes m + initial_bytes e then Err (Error_HeapByteLimitExceeded (mc_max_heap_bytes m))
     else Ok ())"
    using ledger_okD(9) [OF ok] by (auto simp: ensure_allocation_capacity_def fits fits_iff)
  show ?thesis
  proof (cases "?n + 1 < 2 ^ 32")
    case True
    then show ?thesis using from_parts_slot [of ?n]
      by (simp add: allocate_def Let_def cap sync_idle [OF ok] expect_def slot_ref_def)
  qed (simp add: allocate_def Let_def cap)
qed

lemma allocate_ok:
  assumes ok: "ledger_ok m" and "\<not> is_vacant e" and "allocate e m = Ok (v, m')"
  shows "ledger_ok m' \<and> mc_heap m' = mc_heap m @ [e] \<and> runtime_slot m' v = Ok (Some (length (mc_heap m)))"
proof -
  let ?n = "length (mc_heap m)"
  from assms(3) have fit: "live_runtime_slots m + 1 \<le> mc_max_heap_slots m" "?n + 1 < 2 ^ 32"
      "mc_heap_bytes m + initial_bytes e \<le> mc_max_heap_bytes m"
    and v: "v = slot_ref ?n" and m': "m' = request_garbage_collection
       (m\<lparr>mc_heap := mc_heap m @ [e], mc_slot_bytes := mc_slot_bytes m @ [initial_bytes e],
          mc_heap_bytes := mc_heap_bytes m + initial_bytes e\<rparr>)"
    by (auto simp: allocate_eq [OF ok] split: if_splits)
  have vac: "vacant_slots m' = vacant_slots m" using assms(2) ledger_okD(3) [OF ok] by (simp add: m' vacant_slots_def)
  have "live_runtime_slots m' = live_runtime_slots m + 1"
    using live_slots_exact [OF ok] by (simp add: m' live_runtime_slots_def)
  with ok fit vac have "ledger_ok m'" by (simp add: m' ledger_ok_def)
  moreover have "present (mc_heap m') ?n" using assms(2) by (simp add: m' present_def nth_append)
  ultimately show ?thesis using runtime_index_slot_ref [OF fit(2)] by (simp add: v runtime_slot_iff) (simp add: m')
qed

lemma charge_slot_ok: "ledger_ok m \<Longrightarrow> i < length (mc_heap m) \<Longrightarrow> charge_slot i b m = Ok m' \<Longrightarrow> ledger_ok m'"
  by (auto simp: charge_slot_eq charged_slot_ok split: if_splits)

lemma refund_slot_ok: "ledger_ok m \<Longrightarrow> i < length (mc_heap m) \<Longrightarrow> refund_slot i b m = Ok m' \<Longrightarrow> ledger_ok m'"
  by (auto simp: refund_slot_eq refunded_slot_ok split: if_splits)

lemma charge_machine_ok:
  assumes ok: "ledger_ok m" and "charge_machine b m = Ok m'"
  shows "ledger_ok m'"
proof -
  from assms(2) have "mc_heap_bytes m + b \<le> mc_max_heap_bytes m"
    and m': "m' = request_garbage_collection (m\<lparr>mc_machine_bytes := mc_machine_bytes m + b, mc_heap_bytes := mc_heap_bytes m + b\<rparr>)"
    by (auto simp: charge_machine_def no_slot_capacity [OF ok] bind_result_Ok_iff split: if_splits)
  with ok show ?thesis unfolding m' request_gc_ok by (intro ledger_ok_transfer [OF ok]) (auto simp: ledger_ok_def)
qed

lemma refund_machine_ok:
  assumes ok: "ledger_ok m" and "refund_machine b m = Ok m'"
  shows "ledger_ok m'"
proof -
  from assms(2) have "b \<le> mc_machine_bytes m"
    and m': "m' = m\<lparr>mc_machine_bytes := mc_machine_bytes m - b, mc_heap_bytes := mc_heap_bytes m - b\<rparr>"
    by (auto simp: refund_machine_def bind_result_Ok_iff)
  with ok show ?thesis unfolding m' by (intro ledger_ok_transfer [OF ok]) (auto simp: ledger_ok_def)
qed

lemma transfer_slot_to_machine_ok:
  assumes ok: "ledger_ok m" and "transfer_slot_to_machine i b m = Ok m'"
  shows "ledger_ok m'"
proof -
  from assms(2) have i: "i < length (mc_slot_bytes m)" "b \<le> mc_slot_bytes m ! i"
    and m': "m' = m\<lparr>mc_slot_bytes := (mc_slot_bytes m)[i := mc_slot_bytes m ! i - b], mc_machine_bytes := mc_machine_bytes m + b\<rparr>"
    by (auto simp: transfer_slot_to_machine_def sync_idle [OF ok] Let_def bind_result_Ok_iff slice_index_def split: if_splits)
  with sum_list_replace [OF i(1), of "mc_slot_bytes m ! i - b"] ledger_okD [OF ok] ok show ?thesis
    by (intro ledger_ok_transfer [OF ok]) (auto simp: ledger_ok_def)
qed

lemma transfer_slot_charge_ok:
  assumes ok: "ledger_ok m" and "transfer_slot_charge i j b m = Ok m'"
  shows "ledger_ok m'"
proof -
  let ?sb = "(mc_slot_bytes m)[i := mc_slot_bytes m ! i - b]"
  from assms(2) have i: "i < length (mc_slot_bytes m)" "b \<le> mc_slot_bytes m ! i" "j < length ?sb"
    and m': "m' = m\<lparr>mc_slot_bytes := ?sb[j := ?sb ! j + b]\<rparr>"
    by (auto simp: transfer_slot_charge_def sync_idle [OF ok] Let_def bind_result_Ok_iff slice_index_def split: if_splits)
  with sum_list_replace [OF i(1), of "mc_slot_bytes m ! i - b"] sum_list_replace [OF i(3), of "?sb ! j + b"]
    ledger_okD [OF ok] ok show ?thesis
    by (intro ledger_ok_transfer [OF ok]) (auto simp: ledger_ok_def)
qed

section \<open>Charges and credits\<close>

text \<open>An intrinsic slot never holds a charge and a credit at once, so a refund undoes its charge exactly.\<close>

definition credits_exclusive :: "Machine \<Rightarrow> bool" where
  "credits_exclusive m \<longleftrightarrow> (\<forall>i < mc_intrinsic_slots m. mc_slot_bytes m ! i = 0 \<or> mc_intrinsic_slot_credits m ! i = 0)"

lemma credit_of_intrinsic: "ledger_ok m \<Longrightarrow> i < mc_intrinsic_slots m \<Longrightarrow> credit_of m i = mc_intrinsic_slot_credits m ! i"
  by (simp add: credit_of_def slice_get_def ledger_okD(2))

lemma credit_of_other: "ledger_ok m \<Longrightarrow> \<not> i < mc_intrinsic_slots m \<Longrightarrow> credit_of m i = 0"
  by (simp add: credit_of_def slice_get_def ledger_okD(2))

lemma credit_of_id: "(mc_intrinsic_slot_credits m)[i := credit_of m i] = mc_intrinsic_slot_credits m"
  by (cases "i < length (mc_intrinsic_slot_credits m)") (simp_all add: credit_of_def slice_get_def list_update_beyond)

lemma charge_slot_exclusive:
  assumes ok: "ledger_ok m" and i: "i < length (mc_heap m)" and "credits_exclusive m" and "charge_slot i b m = Ok m'"
  shows "credits_exclusive m'"
proof -
  from assms(4) have m': "m' = charged_slot i b m" by (simp add: charge_slot_eq [OF ok i] split: if_splits)
  have "mc_slot_bytes m' ! j = 0 \<or> mc_intrinsic_slot_credits m' ! j = 0" if j: "j < mc_intrinsic_slots m" for j
  proof (cases "j = i")
    case True
    with j assms(3) credit_of_intrinsic [OF ok] have "mc_slot_bytes m ! i = 0 \<or> credit_of m i = 0" by (simp add: credits_exclusive_def)
    then show ?thesis using True i j ledger_okD(1,2) [OF ok] by (auto simp: m' charged_slot_def charge_due_def)
  next
    case False
    with j assms(3) show ?thesis by (simp add: m' charged_slot_def credits_exclusive_def)
  qed
  then show ?thesis by (simp add: credits_exclusive_def m' charged_slot_def)
qed

lemma refund_slot_exclusive:
  assumes ok: "ledger_ok m" and i: "i < length (mc_heap m)" and "credits_exclusive m" and "refund_slot i b m = Ok m'"
  shows "credits_exclusive m'"
proof -
  from assms(4) have m': "m' = refunded_slot i b m" by (simp add: refund_slot_eq [OF ok i] split: if_splits)
  have "mc_slot_bytes m' ! j = 0 \<or> mc_intrinsic_slot_credits m' ! j = 0" if j: "j < mc_intrinsic_slots m" for j
  proof (cases "j = i")
    case True
    with j assms(3) credit_of_intrinsic [OF ok] have "mc_slot_bytes m ! i = 0 \<or> credit_of m i = 0" by (simp add: credits_exclusive_def)
    then show ?thesis using True i j ledger_okD(1,2) [OF ok] by (auto simp: m' refunded_slot_def Let_def min_def)
  next
    case False
    with j assms(3) show ?thesis by (simp add: m' refunded_slot_def Let_def credits_exclusive_def)
  qed
  then show ?thesis by (simp add: credits_exclusive_def m' refunded_slot_def Let_def)
qed

lemma charge_then_refund:
  assumes ok: "ledger_ok m" and i: "i < length (mc_heap m)" and ex: "credits_exclusive m" and "charge_slot i b m = Ok m'"
  shows "refund_slot i b m' = Ok (m\<lparr>mc_gc := mc_gc m'\<rparr>)"
proof -
  from assms(4) have m': "m' = charged_slot i b m" by (simp add: charge_slot_eq [OF ok i] split: if_splits)
  from charge_slot_ok [OF ok i assms(4)] have ok': "ledger_ok m'" .
  have cr: "credit_of m' i = credit_of m i - min (credit_of m i) b"
    using ledger_okD(2) [OF ok] by (auto simp: m' charged_slot_def credit_of_def slice_get_def)
  have sb: "mc_slot_bytes m' ! i = mc_slot_bytes m ! i + charge_due m i b"
    using i ledger_okD(1) [OF ok] by (simp add: m' charged_slot_def)
  have either: "mc_slot_bytes m ! i = 0 \<or> credit_of m i = 0"
  proof (cases "i < mc_intrinsic_slots m")
    case True
    with ex show ?thesis by (simp add: credits_exclusive_def credit_of_intrinsic [OF ok])
  qed (simp add: credit_of_other [OF ok])
  have r: "min (mc_slot_bytes m' ! i) b = charge_due m i b" and c: "credit_of m' i + (b - charge_due m i b) = credit_of m i"
    using either sb cr by (auto simp: charge_due_def min_def)
  have same: "mc_intrinsic_slots m' = mc_intrinsic_slots m" by (simp add: m' charged_slot_def)
  have "b \<le> mc_slot_bytes m' ! i" if "\<not> i < mc_intrinsic_slots m"
    using sb credit_of_other [OF ok that] by (simp add: charge_due_def)
  then have "refundable i b m'"
    unfolding refundable_def r c same using credit_of_bound [OF ok, of i] by simp
  moreover have "refunded_slot i b m' = m\<lparr>mc_gc := mc_gc m'\<rparr>"
    using r c sb by (simp add: refunded_slot_def Let_def) (simp add: m' charged_slot_def request_garbage_collection_def credit_of_id)
  moreover have "i < length (mc_heap m')" using i by (simp add: m' charged_slot_def)
  ultimately show ?thesis by (simp add: refund_slot_eq [OF ok'])
qed

end
