(* ===== verification/Collection_Keys.thy ===== *)
theory Collection_Keys
  imports Heap_Ledger
begin

text \<open>
  Equality and hashing of the keys of Map, Set, WeakMap and WeakSet (\<open>same_value_zero\<close> in
  \<^verbatim>\<open>crates/bamts-runtime/src/intrinsics.rs\<close>, \<open>strict_equal\<close> and \<open>collection_key_hash\<close> in
  \<^verbatim>\<open>crates/bamts-runtime/src/lib.rs\<close>). Doubles are their bit patterns. The hasher of the standard library
  is the parameter \<open>hasher\<close>, a function of what is written to it.
\<close>

section \<open>Doubles\<close>

definition f64_is_zero :: "f64_bits \<Rightarrow> bool" where
  "f64_is_zero x \<longleftrightarrow> x AND 0x7FFFFFFFFFFFFFFF = 0"

text \<open>\<open>==\<close> on \<open>f64\<close>.\<close>

definition f64_eq :: "f64_bits \<Rightarrow> f64_bits \<Rightarrow> bool" where
  "f64_eq x y \<longleftrightarrow> \<not> f64_is_nan x \<and> \<not> f64_is_nan y \<and> (x = y \<or> f64_is_zero x \<and> f64_is_zero y)"

fun top_bit :: "nat \<Rightarrow> nat" where
  "top_bit n = (if n < 2 then 0 else Suc (top_bit (n div 2)))"

declare top_bit.simps [simp del]

text \<open>\<open>f64::from\<close> of an \<open>i32\<close>, given as its raw 32 bits: sign, biased exponent and fraction.\<close>

definition f64_of_nat32 :: "nat \<Rightarrow> nat" where
  "f64_of_nat32 n = (if n = 0 then 0 else (1023 + top_bit n) * 2 ^ 52 + (n - 2 ^ top_bit n) * 2 ^ (52 - top_bit n))"

definition f64_from_i32 :: "u32 \<Rightarrow> f64_bits" where
  "f64_from_i32 raw =
    word_of_nat ((if sint raw < 0 then 2 ^ 63 else 0) + f64_of_nat32 (nat \<bar>sint raw\<bar>))"

section \<open>Equality\<close>

definition string_value :: "Machine \<Rightarrow> Value \<Rightarrow> EcmaString option" where
  "string_value m v =
    (case runtime_slot m v of
       Ok (Some i) \<Rightarrow> (case mc_heap m ! i of Entry_String s \<Rightarrow> Some s | _ \<Rightarrow> None)
     | _ \<Rightarrow> None)"

definition strict_equal :: "Machine \<Rightarrow> Value \<Rightarrow> Value \<Rightarrow> bool" where
  "strict_equal m l r =
    (case (Value_decode l, Value_decode r) of
       (Some (Dec_Number a), Some (Dec_Number b)) \<Rightarrow> f64_eq a b
     | (Some (Dec_Number a), Some (Dec_Int32 b)) \<Rightarrow> f64_eq a (f64_from_i32 b)
     | (Some (Dec_Int32 b), Some (Dec_Number a)) \<Rightarrow> f64_eq a (f64_from_i32 b)
     | (Some (Dec_Int32 a), Some (Dec_Int32 b)) \<Rightarrow> a = b
     | (Some (Dec_HeapRef _), Some (Dec_HeapRef _)) \<Rightarrow>
         (case (runtime_slot m l, runtime_slot m r) of
            (Ok (Some a), Ok (Some b)) \<Rightarrow>
              (case (mc_heap m ! a, mc_heap m ! b) of
                 (Entry_String s, Entry_String t) \<Rightarrow> s = t
               | (Entry_BigInt s, Entry_BigInt t) \<Rightarrow> s = t
               | _ \<Rightarrow> l = r)
          | _ \<Rightarrow> l = r)
     | _ \<Rightarrow> l = r)"

definition same_value_zero :: "Machine \<Rightarrow> Value \<Rightarrow> Value \<Rightarrow> bool" where
  "same_value_zero m l r =
    (case (Value_decode l, Value_decode r) of
       (Some (Dec_Number a), Some (Dec_Number b)) \<Rightarrow> f64_eq a b \<or> (f64_is_nan a \<and> f64_is_nan b)
     | (Some (Dec_Number a), Some (Dec_Int32 b)) \<Rightarrow> f64_eq a (f64_from_i32 b)
     | (Some (Dec_Int32 b), Some (Dec_Number a)) \<Rightarrow> f64_eq a (f64_from_i32 b)
     | _ \<Rightarrow> strict_equal m l r)"

section \<open>Hashing\<close>

text \<open>What a key writes to the hasher: a tag byte and the data it stands for.\<close>

datatype hash_input =
    Hash_Number u64
  | Hash_String EcmaString
  | Hash_BigInt "u8 list"
  | Hash_Ref u64
  | Hash_Other u64

definition key_hash_input :: "Machine \<Rightarrow> Value \<Rightarrow> hash_input" where
  "key_hash_input m key =
    (case Value_decode key of
       Some (Dec_Number x) \<Rightarrow> Hash_Number (if f64_is_nan x then CANON_NAN else if f64_is_zero x then 0 else x)
     | Some (Dec_Int32 raw) \<Rightarrow> Hash_Number (f64_from_i32 raw)
     | Some (Dec_HeapRef _) \<Rightarrow>
         (case string_value m key of
            Some s \<Rightarrow> Hash_String s
          | None \<Rightarrow>
              (case runtime_slot m key of
                 Ok (Some i) \<Rightarrow> (case mc_heap m ! i of Entry_BigInt s \<Rightarrow> Hash_BigInt s | _ \<Rightarrow> Hash_Ref key)
               | _ \<Rightarrow> Hash_Ref key))
     | _ \<Rightarrow> Hash_Other key)"

definition collection_key_hash :: "(hash_input \<Rightarrow> u64) \<Rightarrow> Machine \<Rightarrow> Value \<Rightarrow> u64" where
  "collection_key_hash hasher m key = hasher (key_hash_input m key)"

section \<open>Integers as doubles\<close>

lemma top_bit_bounds: "n \<noteq> 0 \<Longrightarrow> 2 ^ top_bit n \<le> n \<and> n < 2 ^ Suc (top_bit n)"
proof (induction n rule: top_bit.induct)
  case (1 n)
  show ?case
  proof (cases "n < 2")
    case True
    with 1(2) show ?thesis by (simp add: top_bit.simps [of n])
  next
    case False
    then have "n div 2 \<noteq> 0" by simp
    from 1(1) [OF False this] False show ?thesis by (simp add: top_bit.simps [of n]) linarith
  qed
qed

lemma top_bit_32: "n \<noteq> 0 \<Longrightarrow> n < 2 ^ 32 \<Longrightarrow> top_bit n < 32"
  using top_bit_bounds [of n] by (metis le_less_trans power_less_imp_less_exp rel_simps(49) semiring_norm(76) numeral_One one_less_numeral_iff)

text \<open>The exponent field is \<open>1023 + top_bit n\<close> and the fraction stays below it.\<close>

lemma fraction_bound:
  assumes "n \<noteq> 0" and "n < 2 ^ 32"
  shows "(n - 2 ^ top_bit n) * 2 ^ (52 - top_bit n) < 2 ^ 52"
proof -
  have "n - 2 ^ top_bit n < 2 ^ top_bit n" using top_bit_bounds [OF assms(1)] by (simp add: less_diff_conv2)
  then have "(n - 2 ^ top_bit n) * 2 ^ (52 - top_bit n) < 2 ^ top_bit n * 2 ^ (52 - top_bit n)" by simp
  also have "\<dots> = 2 ^ 52" using top_bit_32 [OF assms] by (simp flip: power_add)
  finally show ?thesis .
qed

lemma f64_of_nat32_fields:
  assumes "n \<noteq> 0" and "n < 2 ^ 32"
  shows "f64_of_nat32 n div 2 ^ 52 = 1023 + top_bit n" "f64_of_nat32 n mod 2 ^ 52 = (n - 2 ^ top_bit n) * 2 ^ (52 - top_bit n)"
proof -
  have "f64_of_nat32 n = (n - 2 ^ top_bit n) * 2 ^ (52 - top_bit n) + (1023 + top_bit n) * 2 ^ 52"
    using assms(1) by (simp add: f64_of_nat32_def)
  with fraction_bound [OF assms]
  show "f64_of_nat32 n div 2 ^ 52 = 1023 + top_bit n" "f64_of_nat32 n mod 2 ^ 52 = (n - 2 ^ top_bit n) * 2 ^ (52 - top_bit n)"
    by (simp_all only: div_mult_self1 mod_mult_self1 div_less mod_less power_not_zero zero_neq_numeral not_False_eq_True add_0)
qed

lemma f64_of_nat32_bounds:
  assumes "n \<noteq> 0" and "n < 2 ^ 32"
  shows "1023 * 2 ^ 52 \<le> f64_of_nat32 n" "f64_of_nat32 n < 2047 * 2 ^ 52"
  using f64_of_nat32_fields(1) [OF assms] top_bit_32 [OF assms] div_le_mono [of "f64_of_nat32 n"]
  by (simp_all add: f64_of_nat32_def)

lemma f64_of_nat32_inj:
  assumes "f64_of_nat32 a = f64_of_nat32 b" and "a < 2 ^ 32" and "b < 2 ^ 32"
  shows "a = b"
proof (cases "a = 0 \<or> b = 0")
  case True
  with assms f64_of_nat32_bounds(1) [of a] f64_of_nat32_bounds(1) [of b] show ?thesis
    by (auto simp: f64_of_nat32_def split: if_splits)
next
  case False
  then have ab: "a \<noteq> 0" "b \<noteq> 0" by simp_all
  from f64_of_nat32_fields [OF ab(1) assms(2)] f64_of_nat32_fields [OF ab(2) assms(3)] assms(1)
  have "top_bit a = top_bit b" "(a - 2 ^ top_bit a) * 2 ^ (52 - top_bit a) = (b - 2 ^ top_bit b) * 2 ^ (52 - top_bit b)" by simp_all
  then have "a - 2 ^ top_bit b = b - 2 ^ top_bit b" by simp
  with top_bit_bounds [OF ab(1)] top_bit_bounds [OF ab(2)] \<open>top_bit a = top_bit b\<close> show ?thesis by simp linarith
qed

lemma sint_bound: "nat \<bar>sint (raw :: u32)\<bar> < 2 ^ 32"
  using sint_lt [of raw] sint_ge [of raw] by simp

lemma unat_word_of_nat64: "n < 2 ^ 64 \<Longrightarrow> unat (word_of_nat n :: u64) = n"
  by (simp add: unat_of_nat take_bit_eq_mod)

lemma f64_of_nat32_low: "f64_of_nat32 (nat \<bar>sint (r :: u32)\<bar>) < 2047 * 2 ^ 52"
  using f64_of_nat32_bounds(2) [OF _ sint_bound, of r] by (cases "nat \<bar>sint r\<bar> = 0") (simp_all add: f64_of_nat32_def)

lemma unat_f64_from_i32:
  "unat (f64_from_i32 raw) = (if sint raw < 0 then 2 ^ 63 else 0) + f64_of_nat32 (nat \<bar>sint raw\<bar>)"
proof -
  define k where "k = f64_of_nat32 (nat \<bar>sint raw\<bar>)"
  have "k < 2047 * 2 ^ 52" unfolding k_def by (rule f64_of_nat32_low)
  then have "(if sint raw < 0 then 2 ^ 63 else 0) + k < 2 ^ 64" by simp
  then show ?thesis unfolding f64_from_i32_def k_def by (rule unat_word_of_nat64)
qed

lemma f64_from_i32_inj: "f64_from_i32 a = f64_from_i32 b \<Longrightarrow> a = b"
proof -
  assume eq: "f64_from_i32 a = f64_from_i32 b"
  have low: "f64_of_nat32 (nat \<bar>sint r\<bar>) < 2 ^ 63" for r :: u32
    using f64_of_nat32_low [of r] by simp
  from eq have "unat (f64_from_i32 a) = unat (f64_from_i32 b)" by simp
  with low [of a] low [of b] have sign: "sint a < 0 \<longleftrightarrow> sint b < 0"
    and "f64_of_nat32 (nat \<bar>sint a\<bar>) = f64_of_nat32 (nat \<bar>sint b\<bar>)"
    by (auto simp: unat_f64_from_i32 split: if_splits)
  from f64_of_nat32_inj [OF this(2) sint_bound sint_bound] sign have "sint a = sint b" by linarith
  then show "a = b" by (rule signed_word_eqI)
qed

text \<open>The magnitude bits as arithmetic: an integer is never NaN, and zero only as plus zero.\<close>

lemma magnitude_nat: "unat (x AND 0x7FFFFFFFFFFFFFFF) = unat (x :: u64) mod 2 ^ 63"
proof -
  have "x AND 0x7FFFFFFFFFFFFFFF = take_bit 63 x" by (simp add: take_bit_eq_mask mask_eq_exp_minus_1)
  then show ?thesis by (simp only: unsigned_take_bit_eq) (simp add: take_bit_eq_mod)
qed

lemma f64_is_zero_nat: "f64_is_zero x \<longleftrightarrow> unat x mod 2 ^ 63 = 0"
  unfolding f64_is_zero_def by (simp only: word_unat_eq_iff magnitude_nat unsigned_0)

lemma f64_nan_nat: "f64_is_nan x \<Longrightarrow> 2047 * 2 ^ 52 \<le> unat x mod 2 ^ 63"
proof -
  assume "f64_is_nan x"
  then have "x AND 0x7FF0000000000000 = 0x7FF0000000000000" by (simp add: f64_is_nan_def)
  then have "(x AND 0x7FFFFFFFFFFFFFFF) AND 0x7FF0000000000000 = 0x7FF0000000000000" by (simp add: and.assoc)
  then have "0x7FF0000000000000 \<le> x AND 0x7FFFFFFFFFFFFFFF" using word_and_le2 [of "x AND 0x7FFFFFFFFFFFFFFF" "0x7FF0000000000000"] by simp
  then have "unat (0x7FF0000000000000 :: u64) \<le> unat (x AND 0x7FFFFFFFFFFFFFFF)" by (simp only: word_le_nat_alt)
  then show ?thesis unfolding magnitude_nat by simp
qed

lemma i32_magnitude: "unat (f64_from_i32 raw) mod 2 ^ 63 = f64_of_nat32 (nat \<bar>sint raw\<bar>)"
proof -
  define k where "k = f64_of_nat32 (nat \<bar>sint raw\<bar>)"
  have "k < 2 ^ 63" using f64_of_nat32_low [of raw] by (simp add: k_def)
  then show ?thesis unfolding unat_f64_from_i32 k_def [symmetric] by simp
qed

lemma f64_from_i32_not_nan: "\<not> f64_is_nan (f64_from_i32 raw)"
  using f64_nan_nat [of "f64_from_i32 raw"] f64_of_nat32_low [of raw] unfolding i32_magnitude by linarith

lemma f64_from_i32_zero: "f64_is_zero (f64_from_i32 raw) \<longleftrightarrow> f64_from_i32 raw = 0"
proof
  assume "f64_is_zero (f64_from_i32 raw)"
  then have "f64_of_nat32 (nat \<bar>sint raw\<bar>) = 0" by (simp only: f64_is_zero_nat i32_magnitude)
  with f64_of_nat32_bounds(1) [OF _ sint_bound, of raw] have "sint raw = 0" by fastforce
  then show "f64_from_i32 raw = 0" by (simp add: f64_from_i32_def f64_of_nat32_def)
qed (simp add: f64_is_zero_def)

section \<open>Equal keys are the keys with equal hash input\<close>

definition canonical_number :: "f64_bits \<Rightarrow> u64" where
  "canonical_number x = (if f64_is_nan x then CANON_NAN else if f64_is_zero x then 0 else x)"

lemma canon_nan: "f64_is_nan CANON_NAN" "CANON_NAN \<noteq> 0"
  by (simp_all add: f64_is_nan_def CANON_NAN_def)

lemma canonical_number_eq:
  "canonical_number a = canonical_number b \<longleftrightarrow> f64_eq a b \<or> (f64_is_nan a \<and> f64_is_nan b)"
proof -
  have "f64_is_zero 0" "\<not> f64_is_nan 0" by (simp_all add: f64_is_zero_def f64_is_nan_def)
  then show ?thesis using canon_nan by (auto simp: canonical_number_def f64_eq_def split: if_splits)
qed

lemma canonical_i32: "canonical_number (f64_from_i32 raw) = f64_from_i32 raw"
  by (simp add: canonical_number_def f64_from_i32_not_nan f64_from_i32_zero)

lemma number_i32_eq: "f64_eq a (f64_from_i32 raw) \<longleftrightarrow> canonical_number a = f64_from_i32 raw"
  using canonical_number_eq [of a "f64_from_i32 raw"] by (simp add: canonical_i32 f64_from_i32_not_nan)

definition entry_text :: "HeapEntry \<Rightarrow> (EcmaString + u8 list) option" where
  "entry_text e = (case e of Entry_String s \<Rightarrow> Some (Inl s) | Entry_BigInt s \<Rightarrow> Some (Inr s) | _ \<Rightarrow> None)"

text \<open>The primitive that a heap reference stands for, if any.\<close>

definition ref_text :: "Machine \<Rightarrow> Value \<Rightarrow> (EcmaString + u8 list) option" where
  "ref_text m v = (case runtime_slot m v of Ok (Some i) \<Rightarrow> entry_text (mc_heap m ! i) | _ \<Rightarrow> None)"

lemma strict_equal_entries:
  "(case (e, f) of (Entry_String s, Entry_String t) \<Rightarrow> s = t | (Entry_BigInt s, Entry_BigInt t) \<Rightarrow> s = t | _ \<Rightarrow> d) =
   (case (entry_text e, entry_text f) of (Some (Inl s), Some (Inl t)) \<Rightarrow> s = t | (Some (Inr s), Some (Inr t)) \<Rightarrow> s = t | _ \<Rightarrow> d)"
  by (cases e) (simp_all add: entry_text_def split: HeapEntry.split)

lemma string_value_text: "string_value m v = (case ref_text m v of Some (Inl s) \<Rightarrow> Some s | _ \<Rightarrow> None)"
  by (simp add: string_value_def ref_text_def entry_text_def split: result.split option.split HeapEntry.split)

lemma ref_hash_input:
  assumes "Value_decode v = Some (Dec_HeapRef sid)"
  shows "key_hash_input m v =
    (case ref_text m v of Some (Inl s) \<Rightarrow> Hash_String s | Some (Inr s) \<Rightarrow> Hash_BigInt s | None \<Rightarrow> Hash_Ref v)"
  using assms
  by (simp add: key_hash_input_def string_value_def ref_text_def entry_text_def split: result.split option.split HeapEntry.split)

lemma ref_strict_equal:
  assumes "Value_decode l = Some (Dec_HeapRef a)" and "Value_decode r = Some (Dec_HeapRef b)"
  shows "strict_equal m l r \<longleftrightarrow> key_hash_input m l = key_hash_input m r"
proof -
  have "strict_equal m l r = (case (ref_text m l, ref_text m r) of
      (Some (Inl s), Some (Inl t)) \<Rightarrow> s = t | (Some (Inr s), Some (Inr t)) \<Rightarrow> s = t | _ \<Rightarrow> l = r)"
    unfolding strict_equal_def assms strict_equal_entries
    by (cases "runtime_slot m l"; cases "runtime_slot m r") (auto simp: ref_text_def split: option.splits sum.splits)
  then show ?thesis using ref_hash_input [OF assms(1), of m] ref_hash_input [OF assms(2), of m]
    by (auto split: option.splits sum.splits)
qed

lemma same_value_zero_iff: "same_value_zero m l r \<longleftrightarrow> key_hash_input m l = key_hash_input m r"
proof -
  consider (refs) a b where "Value_decode l = Some (Dec_HeapRef a)" "Value_decode r = Some (Dec_HeapRef b)"
    | (left) a where "Value_decode l = Some (Dec_HeapRef a)" "\<nexists>b. Value_decode r = Some (Dec_HeapRef b)"
    | (right) b where "\<nexists>a. Value_decode l = Some (Dec_HeapRef a)" "Value_decode r = Some (Dec_HeapRef b)"
    | (none) "\<nexists>a. Value_decode l = Some (Dec_HeapRef a)" "\<nexists>b. Value_decode r = Some (Dec_HeapRef b)"
    by blast
  then show ?thesis
  proof cases
    case refs
    then show ?thesis using ref_strict_equal [OF refs, of m] by (simp add: same_value_zero_def)
  next
    case left
    then show ?thesis using ref_hash_input [OF left(1), of m]
      by (auto simp: same_value_zero_def strict_equal_def key_hash_input_def [of m r] split: option.splits Decoded.splits sum.splits)
  next
    case right
    then show ?thesis using ref_hash_input [OF right(2), of m]
      by (auto simp: same_value_zero_def strict_equal_def key_hash_input_def [of m l] split: option.splits Decoded.splits sum.splits)
  next
    case none
    then show ?thesis
      using canonical_number_eq canonical_i32
      by (auto simp: same_value_zero_def strict_equal_def key_hash_input_def number_i32_eq canonical_number_def [symmetric]
          f64_from_i32_inj split: option.splits Decoded.splits)
  qed
qed

section \<open>The hash index\<close>

definition index_insert :: "u64 \<Rightarrow> usize \<Rightarrow> CollectionIndex \<Rightarrow> CollectionIndex" where
  "index_insert hash i index = index(hash \<mapsto> (case index hash of None \<Rightarrow> [] | Some bucket \<Rightarrow> bucket) @ [i])"

definition key_matches :: "Machine \<Rightarrow> Value \<Rightarrow> CollectionEntry \<Rightarrow> bool" where
  "key_matches m key e \<longleftrightarrow> ce_live e \<and> same_value_zero m (ce_key e) key"

definition index_get :: "(hash_input \<Rightarrow> u64) \<Rightarrow> Machine \<Rightarrow> CollectionIndex \<Rightarrow> CollectionEntry list \<Rightarrow> Value \<Rightarrow> usize option" where
  "index_get hasher m index es key =
    (case index (collection_key_hash hasher m key) of
       None \<Rightarrow> None
     | Some bucket \<Rightarrow>
         find (\<lambda>i. case slice_get es i of None \<Rightarrow> False | Some e \<Rightarrow> key_matches m key e) bucket)"

text \<open>The loop that fills a new index with the entries kept by a compaction or a collection.\<close>

definition rebuild_index :: "(hash_input \<Rightarrow> u64) \<Rightarrow> Machine \<Rightarrow> CollectionEntry list \<Rightarrow> CollectionIndex" where
  "rebuild_index hasher m es =
    fold (\<lambda>(i, e). index_insert (collection_key_hash hasher m (ce_key e)) i) (enumerate 0 es) Map.empty"

text \<open>A key's hash depends only on which slots are present and on the texts they hold.\<close>

definition same_texts :: "Machine \<Rightarrow> Machine \<Rightarrow> bool" where
  "same_texts m m' \<longleftrightarrow> (\<forall>i. present (mc_heap m') i = present (mc_heap m) i \<and>
     (present (mc_heap m) i \<longrightarrow> entry_text (mc_heap m' ! i) = entry_text (mc_heap m ! i)))"

lemma ref_text_alt:
  "ref_text m v = (case runtime_index v of None \<Rightarrow> None | Some i \<Rightarrow> if present (mc_heap m) i then entry_text (mc_heap m ! i) else None)"
proof (cases "\<exists>i. runtime_slot m v = Ok (Some i)")
  case True
  then show ?thesis by (auto simp: ref_text_def) (auto simp: runtime_slot_iff)
next
  case False
  then have "ref_text m v = None" by (auto simp: ref_text_def split: result.splits option.splits)
  with False show ?thesis by (auto simp: runtime_slot_iff split: option.splits)
qed

lemma hash_input_cong:
  assumes "\<And>i. runtime_index v = Some i \<Longrightarrow> present (mc_heap m') i = present (mc_heap m) i \<and>
     (present (mc_heap m) i \<longrightarrow> entry_text (mc_heap m' ! i) = entry_text (mc_heap m ! i))"
  shows "key_hash_input m' v = key_hash_input m v"
proof -
  have "ref_text m' v = ref_text m v" using assms by (auto simp: ref_text_alt split: option.splits)
  then show ?thesis
    by (cases "\<exists>sid. Value_decode v = Some (Dec_HeapRef sid)")
      (auto simp: ref_hash_input, auto simp: key_hash_input_def split: option.splits Decoded.splits)
qed

lemma same_texts_hash: "same_texts m m' \<Longrightarrow> key_hash_input m' = key_hash_input m"
  by (intro ext hash_input_cong) (simp add: same_texts_def)

lemma same_texts_rebuild: "same_texts m m' \<Longrightarrow> rebuild_index hasher m' = rebuild_index hasher m"
  by (intro ext) (simp add: rebuild_index_def collection_key_hash_def same_texts_hash)

end
