(* ===== verification/Gc_Collect.thy ===== *)
theory Gc_Collect
  imports Collection_Keys
begin

text \<open>
  A whole collection (\<open>GcState::collect\<close> in \<^verbatim>\<open>crates/bamts-runtime/src/gc.rs\<close>): the roots, the marking
  phase, the treatment of weak references, finalization registries and weak collections, the sweep,
  and the new watermarks.
\<close>

section \<open>Roots\<close>

definition trace_frame :: "Frame \<Rightarrow> visit list" where
  "trace_frame f = trace_values (fr_registers f) @ [Visit_Value (fr_this_value f), Visit_Value (fr_new_target f)] @
     trace_values (fr_args f) @ visit_option (fr_context f) @ visit_option (fr_outer_context f) @
     visit_option (fr_arguments_object f) @ visit_option (fr_constructed f)"

definition trace_timer :: "TimerRecord \<Rightarrow> visit list" where
  "trace_timer t = [Visit_Value (tr_callback t)] @ trace_values (tr_arguments t) @ [Visit_Value (tr_handle t)] @
     visit_option (tr_context t)"

primrec trace_module_state :: "ModuleState \<Rightarrow> visit list" where
  "trace_module_state Module_Unevaluated = []"
| "trace_module_state Module_Evaluating = []"
| "trace_module_state (Module_EvaluatingAsync rec_value promise) = [Visit_Value rec_value, Visit_Value promise]"
| "trace_module_state (Module_Evaluated outcome) = (case outcome of None \<Rightarrow> [] | Some error \<Rightarrow> trace_runtime_error error)"

definition trace_module :: "ModuleInstance \<Rightarrow> visit list" where
  "trace_module i = visit_option (mi_namespace i) @ visit_option (mi_import_meta i) @ trace_module_state (mi_state i)"

definition trace_external :: "ExternalModuleInstance \<Rightarrow> visit list" where
  "trace_external x = [Visit_Value (ex_namespace x)] @ trace_values (ex_exports x) @ trace_values (ex_internals x)"

definition trace_roots :: "Machine \<Rightarrow> visit list" where
  "trace_roots m =
    (let r = mc_roots m
     in map Visit_Index [0..<mc_intrinsic_slots m] @
        concat (map trace_frame (rt_frames r)) @
        [Visit_Value (rt_global_object r)] @ visit_option (rt_context_global r) @ visit_option (rt_last_completion r) @
        [Visit_Value (rt_current_new_target r)] @ trace_values (mc_kept_alive m) @
        (case rt_pending_generator_resume r of None \<Rightarrow> [] | Some resume \<Rightarrow> trace_generator_resume resume) @
        (case rt_pending_async_suspend r of None \<Rightarrow> [] | Some (awaited, activation) \<Rightarrow> Visit_Value awaited # trace_activation activation) @
        concat (map (\<lambda>q. trace_microtask (qm_job q)) (rt_microtasks r)) @
        trace_values (mc_finalization_cleanup_queue m) @
        concat (map trace_timer (rt_timers r)) @
        trace_values (rt_intrinsics r) @
        concat (map trace_module (rt_modules r)) @
        trace_values (rt_cells r) @
        concat (map trace_external (rt_external r)) @
        concat (map trace_values (mc_native_roots m)))"

section \<open>Weak references\<close>

definition is_marked :: "bool list \<Rightarrow> Value \<Rightarrow> bool" where
  "is_marked marks v =
    (case Value_decode v of
       Some (Dec_HeapRef sid) \<Rightarrow>
         slot_segment sid = RUNTIME_HEAP_SEGMENT \<and> slice_get marks (unat (slot_slot sid) - 1) = Some True
     | _ \<Rightarrow> False)"

text \<open>The cursor loop over the cells of a registry: \<open>cells.remove(cursor)\<close> shifts the rest down.\<close>

definition remove_nth :: "nat \<Rightarrow> 'a list \<Rightarrow> 'a list" where
  "remove_nth i xs = take i xs @ drop (Suc i) xs"

lemma length_remove_nth: "i < length xs \<Longrightarrow> length (remove_nth i xs) = length xs - 1"
  by (simp add: remove_nth_def)

function release_cells ::
  "bool list \<Rightarrow> usize \<Rightarrow> FinalizationCell list \<Rightarrow> Value list \<Rightarrow> usize \<Rightarrow> FinalizationCell list \<times> Value list \<times> usize" where
  "release_cells marks cursor cells pending_holdings released =
    (if cursor < length cells then
       if is_marked marks (fc_target (cells ! cursor)) then release_cells marks (cursor + 1) cells pending_holdings released
       else
         release_cells marks cursor (remove_nth cursor cells) (pending_holdings @ [fc_held_value (cells ! cursor)])
           (sat_add released (FinalizationCell_BYTES - VALUE_BYTES))
     else (cells, pending_holdings, released))"
  by pat_completeness auto

termination
  by (relation "measure (\<lambda>(marks, cursor, cells, pending_holdings, released). 2 * length cells - cursor)")
    (auto simp: length_remove_nth)

declare release_cells.simps [simp del]

definition process_weak_slot :: "bool list \<Rightarrow> Machine \<Rightarrow> usize \<Rightarrow> (Machine, RuntimeErrorKind) result" where
  "process_weak_slot marks m index =
    (if slice_get marks index \<noteq> Some True then Ok m
     else
       case mc_heap m ! index of
         Entry_WeakRef target ps prototype \<Rightarrow>
           Ok (m\<lparr>mc_heap := (mc_heap m)[index := Entry_WeakRef
             (case target of None \<Rightarrow> None | Some v \<Rightarrow> if is_marked marks v then Some v else None) ps prototype]\<rparr>)
       | Entry_FinalizationRegistry cleanup_callback cells pending_holdings cleanup_scheduled ps prototype \<Rightarrow>
           let (cells, pending_holdings, released) = release_cells marks 0 cells pending_holdings 0;
               queue_registry = (pending_holdings \<noteq> [] \<and> \<not> cleanup_scheduled);
               m = m\<lparr>mc_heap := (mc_heap m)[index := Entry_FinalizationRegistry cleanup_callback cells pending_holdings
                 (cleanup_scheduled \<or> queue_registry) ps prototype]\<rparr>
           in bind_result (if released \<noteq> 0 then refund_slot index released m else Ok m) (\<lambda>m.
              if queue_registry
              then bind_result (value_for_heap_index index) (\<lambda>registry.
                Ok (m\<lparr>mc_finalization_cleanup_queue := mc_finalization_cleanup_queue m @ [registry]\<rparr>))
              else Ok m)
       | _ \<Rightarrow> Ok m)"

definition process_weak_targets_after_marking :: "bool list \<Rightarrow> Machine \<Rightarrow> (Machine, RuntimeErrorKind) result" where
  "process_weak_targets_after_marking marks m = try_fold (process_weak_slot marks) m [0..<length (mc_heap m)]"

section \<open>Weak collections\<close>

definition usize_mul :: "usize \<Rightarrow> usize \<Rightarrow> (usize, 'e) result" where
  "usize_mul a b = (if a * b < 2 ^ 64 then Ok (a * b) else Panic)"

definition purge_entry :: "(hash_input \<Rightarrow> u64) \<Rightarrow> bool list \<Rightarrow> Machine \<Rightarrow> usize \<Rightarrow> HeapEntry \<Rightarrow> (Machine, RuntimeErrorKind) result" where
  "purge_entry hasher marks m index e =
    (case e of
       Entry_Collection kind es stored_index count next_order ps prototype \<Rightarrow>
         if kind = Kind_WeakMap \<or> kind = Kind_WeakSet then
           let retained = filter (\<lambda>e. ce_live e \<and> is_marked_value marks (ce_key e)) es
           in bind_result (usize_sub count (length retained)) (\<lambda>removed.
              bind_result (usize_sub count removed) (\<lambda>count.
              let m = m\<lparr>mc_heap := (mc_heap m)[index := Entry_Collection kind retained
                        (rebuild_index hasher m retained) count next_order ps prototype]\<rparr>
              in bind_result (usize_mul removed (CollectionEntry_BYTES + CollectionIndex_ENTRY_BYTES)) (\<lambda>bytes.
                   refund_slot index bytes m)))
         else refund_slot index 0 m
     | _ \<Rightarrow> refund_slot index 0 m)"

definition purge_slot :: "(hash_input \<Rightarrow> u64) \<Rightarrow> bool list \<Rightarrow> Machine \<Rightarrow> usize \<Rightarrow> (Machine, RuntimeErrorKind) result" where
  "purge_slot hasher marks m index =
    bind_result (slice_index marks index) (\<lambda>survives.
      if \<not> survives then Ok m else bind_result (slice_index (mc_heap m) index) (purge_entry hasher marks m index))"

definition purge_weak_entries ::
  "(hash_input \<Rightarrow> u64) \<Rightarrow> GcMarker \<Rightarrow> Machine \<Rightarrow> (Machine, RuntimeErrorKind) result" where
  "purge_weak_entries hasher st m = try_fold (purge_slot hasher (gc_marks st)) m (gc_weak_collections st)"

section \<open>Sweep and collection\<close>

definition sweep_slot :: "bool list \<Rightarrow> Machine \<Rightarrow> usize \<Rightarrow> (Machine, RuntimeErrorKind) result" where
  "sweep_slot marks m index =
    bind_result (slice_index marks index) (\<lambda>survives.
      if survives \<or> is_vacant (mc_heap m ! index) then Ok m
      else
        bind_result (slice_index (mc_slot_bytes m) index) (\<lambda>charge.
        bind_result (usize_sub (mc_heap_bytes m) charge) (\<lambda>total_bytes.
        bind_result (usize_add (mc_vacant_count m) 1) (\<lambda>vacant.
          Ok (m\<lparr>mc_heap := (mc_heap m)[index := Entry_Vacant], mc_slot_bytes := (mc_slot_bytes m)[index := 0],
              mc_heap_bytes := total_bytes, mc_vacant_count := vacant\<rparr>)))))"

definition sweep :: "bool list \<Rightarrow> Machine \<Rightarrow> (Machine, RuntimeErrorKind) result" where
  "sweep marks m = try_fold (sweep_slot marks) m [mc_intrinsic_slots m..<length (mc_heap m)]"

definition recompute_watermarks :: "Machine \<Rightarrow> Machine" where
  "recompute_watermarks m =
    m\<lparr>mc_gc := (mc_gc m)\<lparr>gc_byte_watermark := min (sat_mul (mc_heap_bytes m) 2) (mc_max_heap_bytes m),
        gc_slot_watermark := min (sat_mul (live_runtime_slots m) 2) (mc_max_heap_slots m)\<rparr>\<rparr>"

definition collect :: "(hash_input \<Rightarrow> u64) \<Rightarrow> Machine \<Rightarrow> (Machine, RuntimeErrorKind) result" where
  "collect hasher m =
    (let st = mark_heap (mc_heap m) (trace_roots m)
     in bind_result (process_weak_targets_after_marking (gc_marks st) m) (\<lambda>m.
        bind_result (purge_weak_entries hasher st m) (\<lambda>m.
        bind_result (sweep (gc_marks st) m) (\<lambda>m.
          Ok (recompute_watermarks (m\<lparr>mc_gc := (mc_gc m)\<lparr>gc_pending := False\<rparr>\<rparr>))))))"

definition collect_if_pending :: "(hash_input \<Rightarrow> u64) \<Rightarrow> Machine \<Rightarrow> (Machine, RuntimeErrorKind) result" where
  "collect_if_pending hasher m = (if gc_pending (mc_gc m) then collect hasher m else Ok m)"

section \<open>Native roots\<close>

definition push_native_roots :: "usize \<Rightarrow> Value list \<Rightarrow> Machine \<Rightarrow> (Machine, RuntimeErrorKind) result" where
  "push_native_roots depth roots m =
    (if depth = length (mc_native_roots m) then Ok (m\<lparr>mc_native_roots := mc_native_roots m @ [roots]\<rparr>) else Panic)"

definition refresh_native_roots :: "usize \<Rightarrow> Value list \<Rightarrow> Machine \<Rightarrow> (Machine, RuntimeErrorKind) result" where
  "refresh_native_roots depth roots m =
    (if depth + 1 = length (mc_native_roots m) then Ok (m\<lparr>mc_native_roots := butlast (mc_native_roots m) @ [roots]\<rparr>) else Panic)"

definition pop_native_roots :: "usize \<Rightarrow> Machine \<Rightarrow> (Machine, RuntimeErrorKind) result" where
  "pop_native_roots depth m =
    (if depth + 1 = length (mc_native_roots m) then Ok (m\<lparr>mc_native_roots := butlast (mc_native_roots m)\<rparr>) else Panic)"

section \<open>What a collection leaves of an entry\<close>

text \<open>
  The effect on one surviving entry, for a predicate \<open>K\<close> on values that says which are kept alive.
\<close>

definition released_entry :: "(Value \<Rightarrow> bool) \<Rightarrow> HeapEntry \<Rightarrow> HeapEntry" where
  "released_entry K e =
    (case e of
       Entry_WeakRef target ps prototype \<Rightarrow> Entry_WeakRef (case target of None \<Rightarrow> None | Some v \<Rightarrow> if K v then Some v else None) ps prototype
     | Entry_FinalizationRegistry cleanup_callback cells pending_holdings cleanup_scheduled ps prototype \<Rightarrow>
         let pending_holdings = pending_holdings @ map fc_held_value (filter (\<lambda>c. \<not> K (fc_target c)) cells)
         in Entry_FinalizationRegistry cleanup_callback (filter (\<lambda>c. K (fc_target c)) cells) pending_holdings
              (cleanup_scheduled \<or> pending_holdings \<noteq> []) ps prototype
     | _ \<Rightarrow> e)"

definition purged_entry :: "(hash_input \<Rightarrow> u64) \<Rightarrow> Machine \<Rightarrow> (Value \<Rightarrow> bool) \<Rightarrow> HeapEntry \<Rightarrow> HeapEntry" where
  "purged_entry hasher m K e =
    (case e of
       Entry_Collection kind es index count next_order ps prototype \<Rightarrow>
         if kind = Kind_WeakMap \<or> kind = Kind_WeakSet then
           let es = filter (\<lambda>e. ce_live e \<and> K (ce_key e)) es
           in Entry_Collection kind es (rebuild_index hasher m es) (length es) next_order ps prototype
         else e
     | _ \<Rightarrow> e)"

text \<open>A registry that gets its first holding, or has holdings left, is put on the cleanup queue once.\<close>

definition newly_scheduled :: "(Value \<Rightarrow> bool) \<Rightarrow> HeapEntry \<Rightarrow> bool" where
  "newly_scheduled K e =
    (case e of
       Entry_FinalizationRegistry cleanup_callback cells pending_holdings cleanup_scheduled ps prototype \<Rightarrow>
         \<not> cleanup_scheduled \<and> (pending_holdings \<noteq> [] \<or> filter (\<lambda>c. \<not> K (fc_target c)) cells \<noteq> [])
     | _ \<Rightarrow> False)"

text \<open>The bytes that the contents of a collection, a registry or a promise account for.\<close>

definition held_bytes :: "HeapEntry \<Rightarrow> nat" where
  "held_bytes e =
    (case e of
       Entry_Collection kind es index count next_order ps prototype \<Rightarrow> count * (CollectionEntry_BYTES + CollectionIndex_ENTRY_BYTES)
     | Entry_FinalizationRegistry cleanup_callback cells pending_holdings cleanup_scheduled ps prototype \<Rightarrow>
         length cells * FinalizationCell_BYTES + length pending_holdings * VALUE_BYTES
     | Entry_Promise (Promise_Pending fulfill_reactions reject_reactions) ps prototype \<Rightarrow>
         (length fulfill_reactions + length reject_reactions) * PromiseReaction_BYTES
     | Entry_PromiseAll resolve reject vs remaining settled \<Rightarrow> length vs * VALUE_BYTES
     | _ \<Rightarrow> 0)"

definition counts_entries :: "HeapEntry \<Rightarrow> bool" where
  "counts_entries e =
    (case e of
       Entry_Collection kind es index count next_order ps prototype \<Rightarrow> count = length (filter ce_live es)
     | _ \<Rightarrow> True)"

definition contents_charged :: "Machine \<Rightarrow> bool" where
  "contents_charged m \<longleftrightarrow> (\<forall>i < length (mc_heap m).
     counts_entries (mc_heap m ! i) \<and> held_bytes (mc_heap m ! i) \<le> mc_slot_bytes m ! i \<and>
     (i < mc_intrinsic_slots m \<longrightarrow> held_bytes (mc_heap m ! i) = 0))"

section \<open>Passes over the slots\<close>

definition other_fields :: "Machine \<Rightarrow> Machine \<Rightarrow> bool" where
  "other_fields m m' \<longleftrightarrow>
     mc_intrinsic_slot_credits m' = mc_intrinsic_slot_credits m \<and> mc_machine_bytes m' = mc_machine_bytes m \<and>
     mc_intrinsic_slots m' = mc_intrinsic_slots m \<and> mc_max_heap_slots m' = mc_max_heap_slots m \<and>
     mc_max_heap_bytes m' = mc_max_heap_bytes m \<and> mc_gc m' = mc_gc m \<and> mc_native_roots m' = mc_native_roots m \<and>
     mc_kept_alive m' = mc_kept_alive m \<and> mc_symbol_registry m' = mc_symbol_registry m \<and> mc_roots m' = mc_roots m \<and> mc_jobs m' = mc_jobs m"

definition slot_step :: "usize \<Rightarrow> HeapEntry \<Rightarrow> usize \<Rightarrow> Value list \<Rightarrow> Machine \<Rightarrow> Machine \<Rightarrow> bool" where
  "slot_step i e b q m m' \<longleftrightarrow>
     mc_heap m' = (mc_heap m)[i := e] \<and> mc_slot_bytes m' = (mc_slot_bytes m)[i := b] \<and>
     mc_finalization_cleanup_queue m' = mc_finalization_cleanup_queue m @ q \<and> other_fields m m'"

definition slot_pass :: "usize list \<Rightarrow> (usize \<Rightarrow> HeapEntry) \<Rightarrow> (usize \<Rightarrow> usize) \<Rightarrow> (usize \<Rightarrow> Value list) \<Rightarrow> Machine \<Rightarrow> Machine \<Rightarrow> bool" where
  "slot_pass xs E B Q m m' \<longleftrightarrow>
     length (mc_heap m') = length (mc_heap m) \<and> length (mc_slot_bytes m') = length (mc_slot_bytes m) \<and>
     (\<forall>i < length (mc_heap m). mc_heap m' ! i = (if i \<in> set xs then E i else mc_heap m ! i)) \<and>
     (\<forall>i < length (mc_slot_bytes m). mc_slot_bytes m' ! i = (if i \<in> set xs then B i else mc_slot_bytes m ! i)) \<and>
     mc_finalization_cleanup_queue m' = mc_finalization_cleanup_queue m @ concat (map Q xs) \<and> other_fields m m'"

lemma other_fields_trans: "other_fields a b \<Longrightarrow> other_fields b c \<Longrightarrow> other_fields a c"
  by (simp add: other_fields_def)

lemma slot_pass_Cons:
  assumes "slot_step x (E x) (B x) (Q x) m m'" and "slot_pass xs E B Q m' m''" and "x \<notin> set xs"
  shows "slot_pass (x # xs) E B Q m m''"
  using assms other_fields_trans [of m m' m''] by (auto simp: slot_step_def slot_pass_def nth_list_update)

lemma try_fold_slots:
  assumes "distinct xs" and "I m"
    and "\<And>s i. I s \<Longrightarrow> i \<in> set xs \<Longrightarrow> length (mc_heap s) = length (mc_heap m) \<Longrightarrow> mc_heap s ! i = mc_heap m ! i \<Longrightarrow>
      mc_slot_bytes s ! i = mc_slot_bytes m ! i \<Longrightarrow> \<exists>s'. f s i = Ok s' \<and> I s' \<and> slot_step i (E i) (B i) (Q i) s s'"
  shows "\<exists>m'. try_fold f m xs = Ok m' \<and> I m' \<and> slot_pass xs E B Q m m'"
  using assms
proof (induction xs arbitrary: m)
  case Nil
  then show ?case by (simp add: slot_pass_def other_fields_def)
next
  case (Cons x xs)
  from Cons.prems(3) [OF Cons.prems(2), of x] obtain s
    where s: "f m x = Ok s" "I s" "slot_step x (E x) (B x) (Q x) m s" by auto
  from Cons.prems(1) have x: "x \<notin> set xs" by simp
  have keep: "length (mc_heap s) = length (mc_heap m)" "\<And>i. i \<in> set xs \<Longrightarrow> mc_heap s ! i = mc_heap m ! i"
    "\<And>i. i \<in> set xs \<Longrightarrow> mc_slot_bytes s ! i = mc_slot_bytes m ! i"
    using s(3) x by (auto simp: slot_step_def intro!: nth_list_update_neq)
  have "\<exists>m'. try_fold f s xs = Ok m' \<and> I m' \<and> slot_pass xs E B Q s m'"
  proof (rule Cons.IH)
    show "distinct xs" using Cons.prems(1) by simp
    show "I s" by (rule s(2))
    fix t i
    assume t: "I t" "i \<in> set xs" "length (mc_heap t) = length (mc_heap s)" "mc_heap t ! i = mc_heap s ! i"
      "mc_slot_bytes t ! i = mc_slot_bytes s ! i"
    then show "\<exists>s'. f t i = Ok s' \<and> I s' \<and> slot_step i (E i) (B i) (Q i) t s'"
      by (intro Cons.prems(3)) (simp_all add: keep)
  qed
  then obtain m' where "try_fold f s xs = Ok m'" "I m'" "slot_pass xs E B Q s m'" by blast
  with s(1) slot_pass_Cons [of x E B Q m s xs, OF s(3) _ x] show ?case by auto
qed

section \<open>Registries\<close>

lemma remove_nth_parts:
  assumes "i < length xs"
  shows "take i (remove_nth i xs) = take i xs" "drop i (remove_nth i xs) = drop (Suc i) xs"
  using assms by (simp_all add: remove_nth_def)

lemma release_cells_eq:
  assumes "released + 24 * length (filter (\<lambda>c. \<not> is_marked marks (fc_target c)) (drop cursor cells)) < 2 ^ 64"
  shows "release_cells marks cursor cells pending_holdings released =
    (take cursor cells @ filter (\<lambda>c. is_marked marks (fc_target c)) (drop cursor cells),
     pending_holdings @ map fc_held_value (filter (\<lambda>c. \<not> is_marked marks (fc_target c)) (drop cursor cells)),
     released + 24 * length (filter (\<lambda>c. \<not> is_marked marks (fc_target c)) (drop cursor cells)))"
  using assms
proof (induction marks cursor cells pending_holdings released rule: release_cells.induct)
  case (1 marks cursor cells pending_holdings released)
  show ?case
  proof (cases "cursor < length cells")
    case True
    note split = Cons_nth_drop_Suc [OF True, symmetric]
    show ?thesis
    proof (cases "is_marked marks (fc_target (cells ! cursor))")
      case marked: True
      with 1(1) [OF True marked] 1(3) True show ?thesis
        by (simp add: release_cells.simps [of marks cursor] split take_Suc_conv_app_nth)
    next
      case dead: False
      from 1(3) dead have "released + 24 < 2 ^ 64" by (simp add: split)
      then have "sat_add released (FinalizationCell_BYTES - VALUE_BYTES) = released + 24"
        by (simp add: sat_add_def u64_saturating_def FinalizationCell_BYTES_def VALUE_BYTES_def)
      with 1(2) [OF True dead] 1(3) True dead show ?thesis
        by (simp add: release_cells.simps [of marks cursor] split remove_nth_parts)
    qed
  qed (simp add: release_cells.simps [of marks cursor])
qed

lemma is_marked_eq: "is_marked marks v = is_marked_value marks v"
  by (auto dest: decoded_slot_nonzero simp: is_marked_def is_marked_value_def runtime_index_def
      split: option.splits Decoded.splits if_splits)

lemma vacant_slots_update:
  assumes "is_vacant e = is_vacant (mc_heap m ! i)" and "mc_heap m' = (mc_heap m)[i := e]" and "mc_intrinsic_slots m' = mc_intrinsic_slots m"
  shows "vacant_slots m' = vacant_slots m"
proof -
  have "map is_vacant ((mc_heap m)[i := e]) = map is_vacant (mc_heap m)"
    using assms(1) by (cases "i < length (mc_heap m)") (simp_all add: map_update list_update_same_conv list_update_beyond)
  moreover have "vacant_slots s = length (filter (\<lambda>b. b) (drop (mc_intrinsic_slots s) (map is_vacant (mc_heap s))))" for s
    by (simp add: vacant_slots_def drop_map filter_map comp_def)
  ultimately show ?thesis using assms(2,3) by simp
qed

lemma ledger_ok_heap_update:
  assumes "ledger_ok m" and "is_vacant e = is_vacant (mc_heap m ! i)"
  shows "ledger_ok (m\<lparr>mc_heap := (mc_heap m)[i := e]\<rparr>)"
proof -
  have "live_runtime_slots (m\<lparr>mc_heap := (mc_heap m)[i := e]\<rparr>) = live_runtime_slots m" by (simp add: live_runtime_slots_def)
  with assms vacant_slots_update [OF assms(2), of "m\<lparr>mc_heap := (mc_heap m)[i := e]\<rparr>"] show ?thesis
    by (simp add: ledger_ok_def)
qed

text \<open>A refund within the charge of the slot, after the slot's entry has been replaced.\<close>

lemma replace_and_refund:
  assumes ok: "ledger_ok m" and i: "i < length (mc_heap m)" and e: "is_vacant e = is_vacant (mc_heap m ! i)"
    and b: "b \<le> mc_slot_bytes m ! i"
  shows "\<exists>m'. refund_slot i b (m\<lparr>mc_heap := (mc_heap m)[i := e]\<rparr>) = Ok m' \<and> ledger_ok m' \<and>
    slot_step i e (mc_slot_bytes m ! i - b) [] m m'"
proof -
  let ?m = "m\<lparr>mc_heap := (mc_heap m)[i := e]\<rparr>"
  have ok': "ledger_ok ?m" by (rule ledger_ok_heap_update [OF ok e])
  have "min (mc_slot_bytes m ! i) b = b" using b by simp
  moreover have "credit_of m i < 2 ^ 64" by (rule credit_of_bound [OF ok])
  moreover have "credit_of ?m i = credit_of m i" by (simp add: credit_of_def)
  ultimately have fine: "refundable i b ?m" and r: "refunded_slot i b ?m = ?m\<lparr>mc_slot_bytes := (mc_slot_bytes m)[i := mc_slot_bytes m ! i - b],
      mc_heap_bytes := mc_heap_bytes m - b\<rparr>"
    using b by (simp_all add: refundable_def refunded_slot_def Let_def credit_of_id)
  have "refund_slot i b ?m = Ok (refunded_slot i b ?m)" using fine i by (simp add: refund_slot_eq [OF ok'])
  moreover have "ledger_ok (refunded_slot i b ?m)" using fine i by (intro refunded_slot_ok [OF ok']) simp_all
  ultimately show ?thesis unfolding r by (simp add: slot_step_def other_fields_def)
qed

definition released_bytes :: "(Value \<Rightarrow> bool) \<Rightarrow> HeapEntry \<Rightarrow> nat" where
  "released_bytes K e =
    (case e of
       Entry_FinalizationRegistry cleanup_callback cells pending_holdings cleanup_scheduled ps prototype \<Rightarrow>
         24 * length (filter (\<lambda>c. \<not> K (fc_target c)) cells)
     | _ \<Rightarrow> 0)"

lemma released_bytes_held: "released_bytes K e \<le> held_bytes e"
proof (cases "\<exists>cb cells ph sch ps pr. e = Entry_FinalizationRegistry cb cells ph sch ps pr")
  case True
  then obtain cb cells ph sch ps pr where e: "e = Entry_FinalizationRegistry cb cells ph sch ps pr" by blast
  have "length (filter (\<lambda>c. \<not> K (fc_target c)) cells) \<le> length cells" by (rule length_filter_le)
  then show ?thesis unfolding e released_bytes_def held_bytes_def FinalizationCell_BYTES_def HeapEntry.case by linarith
qed (auto simp: released_bytes_def split: HeapEntry.splits)

text \<open>A slot whose entry stays as it is.\<close>

lemma slot_step_idle: "slot_step i (mc_heap m ! i) (mc_slot_bytes m ! i) [] m m"
  by (simp add: slot_step_def other_fields_def)

lemma released_entry_vacant: "is_vacant (released_entry K e) = is_vacant e"
  by (cases e) (simp_all add: released_entry_def is_vacant_def Let_def)

lemma process_weak_slot_step:
  assumes ok: "ledger_ok m" and i: "i < length (mc_heap m)" and charged: "held_bytes (mc_heap m ! i) \<le> mc_slot_bytes m ! i"
    and mk: "slice_get marks i = Some True" and K: "K = is_marked_value marks"
  shows "\<exists>m'. process_weak_slot marks m i = Ok m' \<and> ledger_ok m' \<and>
    slot_step i (released_entry K (mc_heap m ! i)) (mc_slot_bytes m ! i - released_bytes K (mc_heap m ! i))
      (if newly_scheduled K (mc_heap m ! i) then [slot_ref i] else []) m m'"
proof -
  consider (reg) cb cells ph sch ps pr where "mc_heap m ! i = Entry_FinalizationRegistry cb cells ph sch ps pr"
    | (ref) target ps pr where "mc_heap m ! i = Entry_WeakRef target ps pr"
    | (other) "process_weak_slot marks m i = Ok m" "released_entry K (mc_heap m ! i) = mc_heap m ! i"
      "released_bytes K (mc_heap m ! i) = 0" "\<not> newly_scheduled K (mc_heap m ! i)"
    by (cases "mc_heap m ! i") (simp_all add: process_weak_slot_def released_entry_def released_bytes_def newly_scheduled_def)
  then show ?thesis
  proof cases
    case reg
    let ?dead = "filter (\<lambda>c. \<not> K (fc_target c)) cells"
    let ?b = "24 * length ?dead"
    let ?e = "released_entry K (mc_heap m ! i)"
    have b: "?b \<le> mc_slot_bytes m ! i"
      using released_bytes_held [of K "mc_heap m ! i"] charged by (simp add: released_bytes_def reg)
    also have "\<dots> < 2 ^ 64" using slot_charge_le [OF ok i] ledger_okD(8,9) [OF ok] by linarith
    finally have rel: "release_cells marks 0 cells ph 0 = (filter (\<lambda>c. K (fc_target c)) cells, ph @ map fc_held_value ?dead, ?b)"
      by (subst release_cells_eq) (simp_all add: is_marked_eq K)
    have e: "?e = Entry_FinalizationRegistry cb (filter (\<lambda>c. K (fc_target c)) cells) (ph @ map fc_held_value ?dead)
        (sch \<or> ph @ map fc_held_value ?dead \<noteq> [] \<and> \<not> sch) ps pr"
      by (auto simp: reg released_entry_def Let_def)
    obtain m1 where m1: "(if ?b \<noteq> 0 then refund_slot i ?b (m\<lparr>mc_heap := (mc_heap m)[i := ?e]\<rparr>)
          else Ok (m\<lparr>mc_heap := (mc_heap m)[i := ?e]\<rparr>)) = Ok m1"
        "ledger_ok m1" "slot_step i ?e (mc_slot_bytes m ! i - ?b) [] m m1"
    proof (cases "?b = 0")
      case True
      have "ledger_ok (m\<lparr>mc_heap := (mc_heap m)[i := ?e]\<rparr>)"
        by (rule ledger_ok_heap_update [OF ok]) (rule released_entry_vacant)
      with True that show ?thesis by (auto simp: slot_step_def other_fields_def)
    next
      case False
      with replace_and_refund [OF ok i _ b, of ?e] that show ?thesis by (auto simp: released_entry_vacant)
    qed
    let ?queued = "ph @ map fc_held_value ?dead \<noteq> [] \<and> \<not> sch"
    have new: "newly_scheduled K (mc_heap m ! i) = ?queued" by (auto simp: newly_scheduled_def reg filter_empty_conv)
    have bytes: "released_bytes K (mc_heap m ! i) = ?b" by (simp add: released_bytes_def reg)
    have ref: "value_for_heap_index i = Ok (slot_ref i)"
      using i ledger_okD(4) [OF ok] by (intro value_for_heap_index) simp
    have "process_weak_slot marks m i = bind_result (Ok m1) (\<lambda>m1. if ?queued then bind_result (value_for_heap_index i) (\<lambda>registry.
        Ok (m1\<lparr>mc_finalization_cleanup_queue := mc_finalization_cleanup_queue m1 @ [registry]\<rparr>)) else Ok m1)"
      unfolding m1(1) [symmetric] e unfolding process_weak_slot_def reg using mk by (simp add: rel Let_def)
    then have "process_weak_slot marks m i = Ok (if ?queued
        then m1\<lparr>mc_finalization_cleanup_queue := mc_finalization_cleanup_queue m1 @ [slot_ref i]\<rparr> else m1)"
      by (simp add: ref)
    then show ?thesis using m1(2,3) unfolding new bytes
      by (auto simp: slot_step_def other_fields_def ledger_ok_def vacant_slots_def live_runtime_slots_def)
  next
    case ref
    let ?m = "m\<lparr>mc_heap := (mc_heap m)[i := released_entry K (mc_heap m ! i)]\<rparr>"
    have "ledger_ok ?m" by (rule ledger_ok_heap_update [OF ok]) (rule released_entry_vacant)
    moreover have "process_weak_slot marks m i = Ok ?m"
      unfolding process_weak_slot_def ref released_entry_def is_marked_eq K using mk by simp
    ultimately show ?thesis by (simp add: slot_step_def other_fields_def released_bytes_def newly_scheduled_def ref)
  qed (use slot_step_idle ok in auto)
qed

lemma process_weak_targets:
  assumes ok: "ledger_ok m" and charged: "contents_charged m" and K: "K = is_marked_value marks"
  shows "\<exists>m'. process_weak_targets_after_marking marks m = Ok m' \<and> ledger_ok m' \<and>
    slot_pass [0..<length (mc_heap m)]
      (\<lambda>i. if slice_get marks i = Some True then released_entry K (mc_heap m ! i) else mc_heap m ! i)
      (\<lambda>i. if slice_get marks i = Some True then mc_slot_bytes m ! i - released_bytes K (mc_heap m ! i) else mc_slot_bytes m ! i)
      (\<lambda>i. if slice_get marks i = Some True \<and> newly_scheduled K (mc_heap m ! i) then [slot_ref i] else []) m m'"
  unfolding process_weak_targets_after_marking_def
proof (rule try_fold_slots [where I = ledger_ok])
  fix s i
  assume s: "ledger_ok s" "i \<in> set [0..<length (mc_heap m)]" "length (mc_heap s) = length (mc_heap m)"
    "mc_heap s ! i = mc_heap m ! i" "mc_slot_bytes s ! i = mc_slot_bytes m ! i"
  then have i: "i < length (mc_heap s)" by simp
  let ?marked = "slice_get marks i = Some True"
  show "\<exists>s'. process_weak_slot marks s i = Ok s' \<and> ledger_ok s' \<and> slot_step i
      (if ?marked then released_entry K (mc_heap m ! i) else mc_heap m ! i)
      (if ?marked then mc_slot_bytes m ! i - released_bytes K (mc_heap m ! i) else mc_slot_bytes m ! i)
      (if ?marked \<and> newly_scheduled K (mc_heap m ! i) then [slot_ref i] else []) s s'"
  proof (cases ?marked)
    case True
    have "held_bytes (mc_heap s ! i) \<le> mc_slot_bytes s ! i" using charged s by (simp add: contents_charged_def)
    from process_weak_slot_step [OF s(1) i this True K] True s(4,5) show ?thesis by simp
  next
    case False
    with s(1) slot_step_idle [of i s] s(4,5) show ?thesis by (auto simp: process_weak_slot_def)
  qed
qed (use ok in auto)

section \<open>Weak collections\<close>

definition purged_bytes :: "(Value \<Rightarrow> bool) \<Rightarrow> HeapEntry \<Rightarrow> nat" where
  "purged_bytes K e =
    (case e of
       Entry_Collection kind es index count next_order ps prototype \<Rightarrow>
         if kind = Kind_WeakMap \<or> kind = Kind_WeakSet then (count - length (filter (\<lambda>e. ce_live e \<and> K (ce_key e)) es)) * 40 else 0
     | _ \<Rightarrow> 0)"

lemma retained_le: "length (filter (\<lambda>e. ce_live e \<and> K (ce_key e)) es) \<le> length (filter ce_live es)"
proof -
  have "filter (\<lambda>e. ce_live e \<and> K (ce_key e)) es = filter (\<lambda>e. K (ce_key e)) (filter ce_live es)" by (simp add: conj_commute)
  then show ?thesis by (simp only: length_filter_le)
qed

lemma purged_entry_vacant: "is_vacant (purged_entry hasher m K e) = is_vacant e"
  by (cases e) (simp_all add: purged_entry_def is_vacant_def Let_def)

lemma weak_collectionE:
  "is_weak_collection e \<Longrightarrow>
    \<exists>kind es idx n ord ps pr. e = Entry_Collection kind es idx n ord ps pr \<and> (kind = Kind_WeakMap \<or> kind = Kind_WeakSet)"
  by (cases e) (simp_all add: is_weak_collection_def)

lemma not_weak_collection:
  "\<not> is_weak_collection e \<Longrightarrow> purge_entry hasher marks m i e = refund_slot i 0 m \<and> purged_entry hasher m K e = e \<and> purged_bytes K e = 0"
  by (cases e) (simp_all add: is_weak_collection_def purge_entry_def purged_entry_def purged_bytes_def)

lemma purge_slot_step:
  assumes ok: "ledger_ok m" and i: "i < length (mc_heap m)" and charged: "held_bytes (mc_heap m ! i) \<le> mc_slot_bytes m ! i"
    and count: "counts_entries (mc_heap m ! i)" and mk: "slice_get marks i = Some True" and K: "K = is_marked_value marks"
  shows "\<exists>m'. purge_slot hasher marks m i = Ok m' \<and> ledger_ok m' \<and>
    slot_step i (purged_entry hasher m K (mc_heap m ! i)) (mc_slot_bytes m ! i - purged_bytes K (mc_heap m ! i)) [] m m'"
proof -
  have slot: "purge_slot hasher marks m i = purge_entry hasher marks m i (mc_heap m ! i)"
    using mk i by (simp add: purge_slot_def slice_index_def)
  consider (weak) kind es idx n ord ps pr where "mc_heap m ! i = Entry_Collection kind es idx n ord ps pr"
      "kind = Kind_WeakMap \<or> kind = Kind_WeakSet"
    | (other) "purge_entry hasher marks m i (mc_heap m ! i) = refund_slot i 0 m" "purged_entry hasher m K (mc_heap m ! i) = mc_heap m ! i"
      "purged_bytes K (mc_heap m ! i) = 0"
    using weak_collectionE [of "mc_heap m ! i"] not_weak_collection [of "mc_heap m ! i"] by metis
  then show ?thesis
  proof cases
    case weak
    let ?kept = "filter (\<lambda>e. ce_live e \<and> K (ce_key e)) es"
    let ?e = "purged_entry hasher m K (mc_heap m ! i)"
    have n: "n = length (filter ce_live es)" using count by (simp add: weak counts_entries_def)
    have kept: "length ?kept \<le> n" unfolding n by (rule retained_le)
    have e: "?e = Entry_Collection kind ?kept (rebuild_index hasher m ?kept) (n - (n - length ?kept)) ord ps pr"
      using weak(2) kept by (simp add: weak(1) purged_entry_def Let_def)
    have b: "(n - length ?kept) * 40 \<le> mc_slot_bytes m ! i"
      using charged by (simp add: weak(1) held_bytes_def CollectionEntry_BYTES_def CollectionIndex_ENTRY_BYTES_def)
    moreover have "mc_slot_bytes m ! i < 2 ^ 64" using slot_charge_le [OF ok i] ledger_okD(8,9) [OF ok] by linarith
    ultimately have "(n - length ?kept) * 40 < 2 ^ 64" by linarith
    then have "purge_slot hasher marks m i = refund_slot i ((n - length ?kept) * 40) (m\<lparr>mc_heap := (mc_heap m)[i := ?e]\<rparr>)"
      unfolding e slot unfolding weak(1) using weak(2) kept
      by (auto simp: purge_entry_def K Let_def usize_sub_def usize_mul_def CollectionEntry_BYTES_def CollectionIndex_ENTRY_BYTES_def)
    with replace_and_refund [OF ok i purged_entry_vacant b, of hasher m K] weak(2) show ?thesis
      by (auto simp: purged_bytes_def weak(1))
  next
    case other
    with replace_and_refund [OF ok i refl, of 0] show ?thesis by (simp add: slot)
  qed
qed

lemma same_texts_refl: "same_texts m m"
  by (simp add: same_texts_def)

lemma same_texts_step:
  assumes "same_texts m0 m" and "slot_step i e b q m m'" and "is_vacant e = is_vacant (mc_heap m ! i)"
    and "entry_text e = entry_text (mc_heap m ! i)"
  shows "same_texts m0 m'"
proof -
  have heap: "mc_heap m' = (mc_heap m)[i := e]" using assms(2) by (simp add: slot_step_def)
  have "present (mc_heap m') j = present (mc_heap m) j \<and> (present (mc_heap m) j \<longrightarrow> entry_text (mc_heap m' ! j) = entry_text (mc_heap m ! j))" for j
    using assms(3,4) by (cases "j = i") (auto simp: heap present_def)
  with assms(1) show ?thesis by (simp add: same_texts_def)
qed

lemma purged_entry_text: "entry_text (purged_entry hasher m K e) = entry_text e"
  by (cases e) (simp_all add: purged_entry_def entry_text_def Let_def)

lemma purge_weak_entries:
  assumes ok: "ledger_ok m" and charged: "contents_charged m" and K: "K = is_marked_value (gc_marks st)"
    and list: "distinct (gc_weak_collections st)" "\<And>i. i \<in> set (gc_weak_collections st) \<Longrightarrow> marked st i"
    and len: "length (gc_marks st) = length (mc_heap m)"
  shows "\<exists>m'. purge_weak_entries hasher st m = Ok m' \<and> ledger_ok m' \<and> same_texts m m' \<and>
    slot_pass (gc_weak_collections st) (\<lambda>i. purged_entry hasher m K (mc_heap m ! i))
      (\<lambda>i. mc_slot_bytes m ! i - purged_bytes K (mc_heap m ! i)) (\<lambda>i. []) m m'"
proof -
  have "\<exists>m'. try_fold (purge_slot hasher (gc_marks st)) m (gc_weak_collections st) = Ok m' \<and> (ledger_ok m' \<and> same_texts m m') \<and>
    slot_pass (gc_weak_collections st) (\<lambda>i. purged_entry hasher m K (mc_heap m ! i))
      (\<lambda>i. mc_slot_bytes m ! i - purged_bytes K (mc_heap m ! i)) (\<lambda>i. []) m m'"
  proof (rule try_fold_slots [where I = "\<lambda>s. ledger_ok s \<and> same_texts m s"])
    fix s i
    assume s: "ledger_ok s \<and> same_texts m s" "i \<in> set (gc_weak_collections st)" "length (mc_heap s) = length (mc_heap m)"
      "mc_heap s ! i = mc_heap m ! i" "mc_slot_bytes s ! i = mc_slot_bytes m ! i"
    from list(2) [OF s(2)] len have i: "i < length (mc_heap s)" "slice_get (gc_marks st) i = Some True"
      using s(3) by (simp_all add: marked_def)
    have facts: "held_bytes (mc_heap s ! i) \<le> mc_slot_bytes s ! i" "counts_entries (mc_heap s ! i)"
      using charged i(1) s(3-5) by (simp_all add: contents_charged_def)
    have e: "purged_entry hasher s K (mc_heap s ! i) = purged_entry hasher m K (mc_heap m ! i)"
      unfolding purged_entry_def same_texts_rebuild [OF conjunct2 [OF s(1)]] s(4) ..
    from purge_slot_step [OF conjunct1 [OF s(1)] i(1) facts i(2) K, of hasher] obtain s'
      where s': "purge_slot hasher (gc_marks st) s i = Ok s'" "ledger_ok s'"
        "slot_step i (purged_entry hasher s K (mc_heap s ! i)) (mc_slot_bytes s ! i - purged_bytes K (mc_heap s ! i)) [] s s'" by blast
    have texts: "same_texts m s'"
      by (rule same_texts_step [OF conjunct2 [OF s(1)] s'(3) purged_entry_vacant purged_entry_text])
    note step = s'(3) [unfolded e, unfolded s(4,5)]
    show "\<exists>s'. purge_slot hasher (gc_marks st) s i = Ok s' \<and> (ledger_ok s' \<and> same_texts m s') \<and>
        slot_step i (purged_entry hasher m K (mc_heap m ! i)) (mc_slot_bytes m ! i - purged_bytes K (mc_heap m ! i)) [] s s'"
      by (intro exI [of _ s'] conjI s'(1,2) texts step)
  qed (use list(1) ok same_texts_refl in auto)
  then show ?thesis unfolding purge_weak_entries_def by blast
qed

section \<open>Sweep\<close>

lemma vacate_counts:
  assumes "k \<le> i" and "i < length xs" and "\<not> is_vacant (xs ! i)"
  shows "length (filter is_vacant (drop k (xs[i := Entry_Vacant]))) = length (filter is_vacant (drop k xs)) + 1"
proof -
  have parts: "drop k xs = take (i - k) (drop k xs) @ xs ! i # drop (Suc i) xs"
    using assms(1,2) id_take_nth_drop [of "i - k" "drop k xs"] by simp
  have "drop k (xs[i := Entry_Vacant]) = (drop k xs)[i - k := Entry_Vacant]" using assms(1) by (simp add: drop_update_swap)
  also have "\<dots> = take (i - k) (drop k xs) @ Entry_Vacant # drop (Suc i) xs"
    using assms(1,2) by (simp add: upd_conv_take_nth_drop)
  finally show ?thesis using assms(3) by (subst parts) (simp add: is_vacant_def [of Entry_Vacant])
qed

lemma sweep_slot_step:
  assumes ok: "ledger_ok m" and i: "mc_intrinsic_slots m \<le> i" "i < length (mc_heap m)" and len: "i < length marks"
  shows "\<exists>m'. sweep_slot marks m i = Ok m' \<and> ledger_ok m' \<and>
    slot_step i (if marks ! i \<or> is_vacant (mc_heap m ! i) then mc_heap m ! i else Entry_Vacant)
      (if marks ! i \<or> is_vacant (mc_heap m ! i) then mc_slot_bytes m ! i else 0) [] m m'"
proof (cases "marks ! i \<or> is_vacant (mc_heap m ! i)")
  case True
  with ok len slot_step_idle [of i m] show ?thesis by (auto simp: sweep_slot_def slice_index_def)
next
  case False
  let ?m = "m\<lparr>mc_heap := (mc_heap m)[i := Entry_Vacant], mc_slot_bytes := (mc_slot_bytes m)[i := 0],
    mc_heap_bytes := mc_heap_bytes m - mc_slot_bytes m ! i, mc_vacant_count := mc_vacant_count m + 1\<rparr>"
  have vac: "vacant_slots ?m = vacant_slots m + 1"
    using vacate_counts [OF i] False by (simp add: vacant_slots_def)
  have live: "live_runtime_slots ?m \<le> live_runtime_slots m" by (simp add: live_runtime_slots_def)
  have sum: "sum_list ((mc_slot_bytes m)[i := 0]) + mc_slot_bytes m ! i = sum_list (mc_slot_bytes m)"
    using sum_list_replace [of i "mc_slot_bytes m" 0] i(2) by (simp add: ledger_okD(1) [OF ok])
  have bytes: "mc_heap_bytes ?m = mc_machine_bytes ?m + sum_list (mc_slot_bytes ?m)" "mc_heap_bytes ?m \<le> mc_max_heap_bytes ?m"
    using sum ledger_okD(7,8) [OF ok] by simp_all
  have "ledger_ok ?m" using ok vac live bytes by (simp add: ledger_ok_def)
  moreover have "mc_vacant_count m + 1 < 2 ^ 64"
    using live_slots_exact [OF ok] ledger_okD(4) [OF ok] by simp
  then have "sweep_slot marks m i = Ok ?m"
    using False len i ledger_okD(1) [OF ok] slot_charge_le [OF ok i(2)]
    by (simp add: sweep_slot_def slice_index_def usize_sub_def usize_add_def usize_checked_add_def expect_def)
  ultimately show ?thesis using False by (simp add: slot_step_def other_fields_def)
qed

lemma sweep:
  assumes ok: "ledger_ok m" and len: "length marks = length (mc_heap m)"
  shows "\<exists>m'. sweep marks m = Ok m' \<and> ledger_ok m' \<and> slot_pass [mc_intrinsic_slots m..<length (mc_heap m)]
      (\<lambda>i. if marks ! i \<or> is_vacant (mc_heap m ! i) then mc_heap m ! i else Entry_Vacant)
      (\<lambda>i. if marks ! i \<or> is_vacant (mc_heap m ! i) then mc_slot_bytes m ! i else 0) (\<lambda>i. []) m m'"
proof -
  let ?k = "mc_intrinsic_slots m"
  have "\<exists>m'. try_fold (sweep_slot marks) m [?k..<length (mc_heap m)] = Ok m' \<and> (ledger_ok m' \<and> mc_intrinsic_slots m' = ?k) \<and>
      slot_pass [?k..<length (mc_heap m)]
      (\<lambda>i. if marks ! i \<or> is_vacant (mc_heap m ! i) then mc_heap m ! i else Entry_Vacant)
      (\<lambda>i. if marks ! i \<or> is_vacant (mc_heap m ! i) then mc_slot_bytes m ! i else 0) (\<lambda>i. []) m m'"
  proof (rule try_fold_slots [where I = "\<lambda>s. ledger_ok s \<and> mc_intrinsic_slots s = ?k"])
    fix s i
    assume s: "ledger_ok s \<and> mc_intrinsic_slots s = ?k" "i \<in> set [?k..<length (mc_heap m)]" "length (mc_heap s) = length (mc_heap m)"
      "mc_heap s ! i = mc_heap m ! i" "mc_slot_bytes s ! i = mc_slot_bytes m ! i"
    with len have i: "ledger_ok s" "mc_intrinsic_slots s \<le> i" "i < length (mc_heap s)" "i < length marks" by simp_all
    from sweep_slot_step [OF i] s(1) show "\<exists>s'. sweep_slot marks s i = Ok s' \<and> (ledger_ok s' \<and> mc_intrinsic_slots s' = ?k) \<and>
      slot_step i (if marks ! i \<or> is_vacant (mc_heap m ! i) then mc_heap m ! i else Entry_Vacant)
        (if marks ! i \<or> is_vacant (mc_heap m ! i) then mc_slot_bytes m ! i else 0) [] s s'"
      unfolding s(4,5) by (auto simp: slot_step_def other_fields_def)
  qed (use ok in auto)
  then show ?thesis unfolding sweep_def by blast
qed

section \<open>The list of weak collections\<close>

text \<open>Each slot is pushed at most once and each weak collection is recorded once.\<close>

definition weak_inv :: "HeapEntry list \<Rightarrow> GcMarker \<Rightarrow> bool" where
  "weak_inv heap st \<longleftrightarrow> length (gc_marks st) = length heap \<and> distinct (gc_work st @ gc_weak_collections st) \<and>
     (\<forall>i \<in> set (gc_work st @ gc_weak_collections st). marked st i) \<and>
     (\<forall>i \<in> set (gc_weak_collections st). is_weak_collection (heap ! i))"

lemma mark_index_weak: "weak_inv heap st \<Longrightarrow> weak_inv heap (mark_index heap i st)"
  by (auto simp: weak_inv_def mark_index_def marked_def slice_get_def nth_list_update split: if_splits)

lemma mark_value_weak: "weak_inv heap st \<Longrightarrow> weak_inv heap (mark_value heap v st)"
  by (simp add: mark_value_def mark_index_weak split: option.split)

lemma fold_weak: "(\<And>x st. weak_inv heap st \<Longrightarrow> weak_inv heap (f x st)) \<Longrightarrow> weak_inv heap st \<Longrightarrow> weak_inv heap (fold f xs st)"
  by (induction xs arbitrary: st) simp_all

lemma run_visits_weak: "weak_inv heap st \<Longrightarrow> weak_inv heap (run_visits heap vs st)"
  unfolding run_visits_def by (rule fold_weak) (simp_all add: run_visit_slot mark_index_weak split: option.split)

lemma ephemeron_pass_weak: "weak_inv heap st \<Longrightarrow> weak_inv heap (ephemeron_pass heap st)"
  unfolding ephemeron_pass_flat by (rule fold_weak) (simp_all add: ephemeron_entry_def mark_value_weak)

text \<open>A slot that is marked and waits nowhere is not pushed again.\<close>

lemma run_visits_fresh:
  assumes "length (gc_marks st) = length heap" and "marked st i" and "i \<notin> set (gc_work st)" and "i \<notin> set (gc_weak_collections st)"
  shows "i \<notin> set (gc_work (run_visits heap vs st)) \<and> i \<notin> set (gc_weak_collections (run_visits heap vs st)) \<and>
    marked (run_visits heap vs st) i"
  using run_visits_spec [OF assms(1), of vs] assms(2-4) by auto

lemma trace_entry_weak:
  assumes "weak_inv heap st" and "gc_work st = i # work"
  shows "weak_inv heap (trace_entry heap i (st\<lparr>gc_work := work\<rparr>))"
proof -
  let ?s = "st\<lparr>gc_work := work\<rparr>" and ?t = "run_visits heap (entry_visits (heap ! i)) (st\<lparr>gc_work := work\<rparr>)"
  have m: "marked ?s = marked st" by (simp add: fun_eq_iff marked_def)
  from assms have s: "weak_inv heap ?s" unfolding weak_inv_def m by simp
  have "length (gc_marks ?s) = length heap" "marked ?s i" "i \<notin> set (gc_work ?s)" "i \<notin> set (gc_weak_collections ?s)"
    using assms unfolding weak_inv_def m by auto
  note fresh = run_visits_fresh [OF this, of "entry_visits (heap ! i)"]
  have t: "weak_inv heap ?t" by (rule run_visits_weak [OF s])
  have "marked (?t\<lparr>gc_weak_collections := w\<rparr>) = marked ?t" for w by (simp add: fun_eq_iff marked_def)
  with t fresh show ?thesis by (auto simp: trace_entry_def Let_def weak_inv_def)
qed

lemma drain_weak: "weak_inv heap st \<Longrightarrow> weak_inv heap (drain heap st)"
  using drain_rule [of "weak_inv heap" st heap] trace_entry_weak by blast

lemma ephemeron_fixed_point_weak: "weak_inv heap st \<Longrightarrow> weak_inv heap (ephemeron_fixed_point heap st)"
proof (induction heap st rule: ephemeron_fixed_point.induct)
  case (1 heap st)
  then show ?case
    by (subst ephemeron_fixed_point.simps) (simp add: Let_def ephemeron_pass_weak drain_weak)
qed

lemma mark_heap_weak: "weak_inv heap (mark_heap heap roots)"
  unfolding mark_heap_def
  by (intro ephemeron_fixed_point_weak drain_weak run_visits_weak) (simp add: weak_inv_def gc_start_def)

lemma weak_list_exact:
  "i \<in> set (gc_weak_collections (mark_heap heap roots)) \<longleftrightarrow> gc_reach heap roots i \<and> is_weak_collection (heap ! i)"
proof -
  have "root_slot heap roots j \<Longrightarrow> gc_reach heap roots j" for j by (auto simp: root_slot_def image_iff intro: reach_root)
  note final = mark_heap_inv [of heap "gc_reach heap roots" roots, OF reach_closed this]
  show ?thesis
  proof
    assume "i \<in> set (gc_weak_collections (mark_heap heap roots))"
    with mark_heap_weak [of heap roots] show "gc_reach heap roots i \<and> is_weak_collection (heap ! i)"
      by (simp add: weak_inv_def mark_heap_reach)
  next
    assume i: "gc_reach heap roots i \<and> is_weak_collection (heap ! i)"
    then have "marked (mark_heap heap roots) i" by (simp add: mark_heap_reach)
    with final have "closed_at heap (mark_heap heap roots) i" by (auto simp: mark_inv_def)
    with i show "i \<in> set (gc_weak_collections (mark_heap heap roots))" by (simp add: closed_at_def)
  qed
qed

section \<open>A whole collection\<close>

definition kept_value :: "Machine \<Rightarrow> Value \<Rightarrow> bool" where
  "kept_value m v \<longleftrightarrow> (\<exists>i. runtime_index v = Some i \<and> gc_reach (mc_heap m) (trace_roots m) i)"

text \<open>What a collection leaves in a slot.\<close>

definition collected_entry :: "(hash_input \<Rightarrow> u64) \<Rightarrow> Machine \<Rightarrow> usize \<Rightarrow> HeapEntry" where
  "collected_entry hasher m i =
    (if gc_reach (mc_heap m) (trace_roots m) i
     then purged_entry hasher m (kept_value m) (released_entry (kept_value m) (mc_heap m ! i))
     else Entry_Vacant)"

definition collected_queue :: "Machine \<Rightarrow> Value list" where
  "collected_queue m = mc_finalization_cleanup_queue m @
     map slot_ref (filter (\<lambda>i. gc_reach (mc_heap m) (trace_roots m) i \<and> newly_scheduled (kept_value m) (mc_heap m ! i))
       [0..<length (mc_heap m)])"

lemma kept_value_marks: "kept_value m = is_marked_value (gc_marks (mark_heap (mc_heap m) (trace_roots m)))"
  by (simp add: fun_eq_iff kept_value_def is_marked_value_iff mark_heap_reach)

lemma held_released: "held_bytes (released_entry K e) + released_bytes K e = held_bytes e"
proof (cases "\<exists>cb cells ph sch ps pr. e = Entry_FinalizationRegistry cb cells ph sch ps pr")
  case True
  then obtain cb cells ph sch ps pr where e: "e = Entry_FinalizationRegistry cb cells ph sch ps pr" by blast
  have "length (filter (\<lambda>c. K (fc_target c)) cells) + length (filter (\<lambda>c. \<not> K (fc_target c)) cells) = length cells"
    by (rule sum_length_filter_compl)
  then show ?thesis
    by (simp add: e released_entry_def released_bytes_def held_bytes_def Let_def FinalizationCell_BYTES_def VALUE_BYTES_def)
next
  case False
  then show ?thesis by (cases e) (simp_all add: released_entry_def released_bytes_def held_bytes_def)
qed

lemma counts_released: "counts_entries (released_entry K e) = counts_entries e"
  by (cases e) (simp_all add: released_entry_def counts_entries_def Let_def)

lemma held_purged: "counts_entries e \<Longrightarrow> held_bytes (purged_entry hasher m K e) + purged_bytes K e = held_bytes e"
proof (cases "is_weak_collection e")
  case True
  assume c: "counts_entries e"
  from weak_collectionE [OF True] obtain kind es idx n ord ps pr
    where e: "e = Entry_Collection kind es idx n ord ps pr" "kind = Kind_WeakMap \<or> kind = Kind_WeakSet" by blast
  from c have "length (filter (\<lambda>e. ce_live e \<and> K (ce_key e)) es) \<le> n"
    using retained_le [of K es] by (simp add: e(1) counts_entries_def)
  then show ?thesis using e(2)
    by (simp add: e(1) purged_entry_def purged_bytes_def held_bytes_def Let_def CollectionEntry_BYTES_def CollectionIndex_ENTRY_BYTES_def)
next
  case False
  then show ?thesis using not_weak_collection [OF False] by simp
qed

lemma counts_purged: "counts_entries e \<Longrightarrow> counts_entries (purged_entry hasher m K e)"
  by (cases e) (auto simp: purged_entry_def counts_entries_def Let_def conj_ac)

lemma contents_charged_pass:
  assumes "contents_charged m" and "slot_pass xs E B Q m m'" and "length (mc_slot_bytes m) = length (mc_heap m)"
    and "\<And>i. i < length (mc_heap m) \<Longrightarrow> i \<in> set xs \<Longrightarrow> counts_entries (E i) \<and> held_bytes (E i) \<le> B i \<and>
      held_bytes (E i) \<le> held_bytes (mc_heap m ! i)"
  shows "contents_charged m'"
  unfolding contents_charged_def
proof (intro allI impI)
  fix i
  assume "i < length (mc_heap m')"
  with assms(2,3) have i: "i < length (mc_heap m)" and same: "mc_intrinsic_slots m' = mc_intrinsic_slots m"
    and heap: "mc_heap m' ! i = (if i \<in> set xs then E i else mc_heap m ! i)"
    and bytes: "mc_slot_bytes m' ! i = (if i \<in> set xs then B i else mc_slot_bytes m ! i)"
    by (simp_all add: slot_pass_def other_fields_def)
  from assms(1) i have old: "counts_entries (mc_heap m ! i) \<and> held_bytes (mc_heap m ! i) \<le> mc_slot_bytes m ! i \<and>
      (i < mc_intrinsic_slots m \<longrightarrow> held_bytes (mc_heap m ! i) = 0)" by (simp add: contents_charged_def)
  show "counts_entries (mc_heap m' ! i) \<and> held_bytes (mc_heap m' ! i) \<le> mc_slot_bytes m' ! i \<and>
      (i < mc_intrinsic_slots m' \<longrightarrow> held_bytes (mc_heap m' ! i) = 0)"
    using old assms(4) [OF i] by (cases "i \<in> set xs") (auto simp: heap bytes same)
qed

lemma released_reach: "is_weak_collection (released_entry K e) = is_weak_collection e"
  by (cases e) (simp_all add: released_entry_def is_weak_collection_def Let_def)

lemma reach_present: "gc_reach heap roots i \<Longrightarrow> present heap i"
  by (auto elim: gc_reach.cases)

lemma intrinsic_reach: "i < mc_intrinsic_slots m \<Longrightarrow> present (mc_heap m) i \<Longrightarrow> gc_reach (mc_heap m) (trace_roots m) i"
  by (rule reach_root [of "Visit_Index i"]) (simp_all add: trace_roots_def Let_def)

lemma same_texts_heap:
  assumes "length (mc_heap m') = length (mc_heap m)"
    and "\<And>i. i < length (mc_heap m) \<Longrightarrow> is_vacant (mc_heap m' ! i) = is_vacant (mc_heap m ! i) \<and> entry_text (mc_heap m' ! i) = entry_text (mc_heap m ! i)"
  shows "same_texts m m'"
  using assms by (auto simp: same_texts_def present_def)

lemma released_entry_text: "entry_text (released_entry K e) = entry_text e"
  by (cases e) (simp_all add: released_entry_def entry_text_def Let_def)

lemma queue_filter:
  "concat (map (\<lambda>i. if P i then [f i] else []) xs) = map f (filter P xs)"
  by (induction xs) simp_all

text \<open>The three passes, each with what it leaves in a slot.\<close>

lemma weak_targets_phase:
  assumes ok: "ledger_ok m" and charged: "contents_charged m"
  shows "\<exists>m1. process_weak_targets_after_marking (gc_marks (mark_heap (mc_heap m) (trace_roots m))) m = Ok m1 \<and>
    ledger_ok m1 \<and> contents_charged m1 \<and> same_texts m m1 \<and> other_fields m m1 \<and>
    mc_finalization_cleanup_queue m1 = collected_queue m \<and> length (mc_heap m1) = length (mc_heap m) \<and>
    (\<forall>i < length (mc_heap m). mc_heap m1 ! i =
      (if gc_reach (mc_heap m) (trace_roots m) i then released_entry (kept_value m) (mc_heap m ! i) else mc_heap m ! i))"
proof -
  define st where "st = mark_heap (mc_heap m) (trace_roots m)"
  define R where "R = gc_reach (mc_heap m) (trace_roots m)"
  define K where "K = kept_value m"
  have get: "slice_get (gc_marks st) i = Some True \<longleftrightarrow> R i" for i
    by (auto simp: st_def R_def mark_heap_reach [symmetric] marked_def)
  have K: "K = is_marked_value (gc_marks st)" unfolding K_def st_def by (rule kept_value_marks)
  from process_weak_targets [OF ok charged K, unfolded get] obtain m1 where
    m1: "process_weak_targets_after_marking (gc_marks st) m = Ok m1 \<and> ledger_ok m1 \<and> slot_pass [0..<length (mc_heap m)]
      (\<lambda>i. if R i then released_entry K (mc_heap m ! i) else mc_heap m ! i)
      (\<lambda>i. if R i then mc_slot_bytes m ! i - released_bytes K (mc_heap m ! i) else mc_slot_bytes m ! i)
      (\<lambda>i. if R i \<and> newly_scheduled K (mc_heap m ! i) then [slot_ref i] else []) m m1" by (rule exE)
  note pass = conjunct2 [OF conjunct2 [OF m1]]
  have n1: "length (mc_heap m1) = length (mc_heap m)" and other: "other_fields m m1"
    and h1: "i < length (mc_heap m) \<Longrightarrow> mc_heap m1 ! i = (if R i then released_entry K (mc_heap m ! i) else mc_heap m ! i)" for i
    using pass by (simp_all add: slot_pass_def)
  have queue: "mc_finalization_cleanup_queue m1 = collected_queue m"
    using pass unfolding slot_pass_def collected_queue_def R_def [symmetric] K_def [symmetric] queue_filter by simp
  have charged1: "contents_charged m1"
  proof (rule contents_charged_pass [OF charged pass ledger_okD(1) [OF ok]])
    fix i
    assume "i < length (mc_heap m)"
    with charged have "counts_entries (mc_heap m ! i)" "held_bytes (mc_heap m ! i) \<le> mc_slot_bytes m ! i"
      by (simp_all add: contents_charged_def)
    with held_released [of K "mc_heap m ! i"] counts_released [of K "mc_heap m ! i"]
    show "counts_entries (if R i then released_entry K (mc_heap m ! i) else mc_heap m ! i) \<and>
      held_bytes (if R i then released_entry K (mc_heap m ! i) else mc_heap m ! i)
        \<le> (if R i then mc_slot_bytes m ! i - released_bytes K (mc_heap m ! i) else mc_slot_bytes m ! i) \<and>
      held_bytes (if R i then released_entry K (mc_heap m ! i) else mc_heap m ! i) \<le> held_bytes (mc_heap m ! i)"
      by (cases "R i") simp_all
  qed
  have "same_texts m m1" using n1 by (rule same_texts_heap) (simp add: h1 released_entry_text released_entry_vacant)
  with m1 queue charged1 n1 h1 other show ?thesis unfolding st_def R_def K_def by blast
qed

lemma purge_phase:
  assumes ok: "ledger_ok m1" and charged: "contents_charged m1" and texts: "same_texts m m1" and len: "length (mc_heap m1) = length (mc_heap m)"
    and entries: "\<forall>i < length (mc_heap m). mc_heap m1 ! i =
      (if gc_reach (mc_heap m) (trace_roots m) i then released_entry (kept_value m) (mc_heap m ! i) else mc_heap m ! i)"
  shows "\<exists>m2. purge_weak_entries hasher (mark_heap (mc_heap m) (trace_roots m)) m1 = Ok m2 \<and> ledger_ok m2 \<and> contents_charged m2 \<and>
    other_fields m1 m2 \<and> mc_finalization_cleanup_queue m2 = mc_finalization_cleanup_queue m1 \<and> length (mc_heap m2) = length (mc_heap m) \<and>
    (\<forall>i < length (mc_heap m). mc_heap m2 ! i = (if gc_reach (mc_heap m) (trace_roots m) i
      then purged_entry hasher m (kept_value m) (released_entry (kept_value m) (mc_heap m ! i)) else mc_heap m ! i))"
proof -
  define st where "st = mark_heap (mc_heap m) (trace_roots m)"
  define R where "R = gc_reach (mc_heap m) (trace_roots m)"
  define K where "K = kept_value m"
  have K: "K = is_marked_value (gc_marks st)" unfolding K_def st_def by (rule kept_value_marks)
  have weak: "weak_inv (mc_heap m) st" unfolding st_def by (rule mark_heap_weak)
  then have st: "distinct (gc_weak_collections st)" "length (gc_marks st) = length (mc_heap m1)"
    "\<And>i. i \<in> set (gc_weak_collections st) \<Longrightarrow> marked st i" by (simp_all add: weak_inv_def len)
  from purge_weak_entries [OF ok charged K st(1,3,2), of hasher] obtain m2 where
    m2: "purge_weak_entries hasher st m1 = Ok m2 \<and> ledger_ok m2 \<and> same_texts m1 m2 \<and>
      slot_pass (gc_weak_collections st) (\<lambda>i. purged_entry hasher m1 K (mc_heap m1 ! i))
        (\<lambda>i. mc_slot_bytes m1 ! i - purged_bytes K (mc_heap m1 ! i)) (\<lambda>i. []) m1 m2" by (rule exE)
  note pass = conjunct2 [OF conjunct2 [OF conjunct2 [OF m2]]]
  have n2: "length (mc_heap m2) = length (mc_heap m)" and other: "other_fields m1 m2"
    and queue: "mc_finalization_cleanup_queue m2 = mc_finalization_cleanup_queue m1"
    using pass by (simp_all add: slot_pass_def len)
  have charged2: "contents_charged m2"
  proof (rule contents_charged_pass [OF charged pass ledger_okD(1) [OF ok]])
    fix i
    assume "i < length (mc_heap m1)"
    with charged have c: "counts_entries (mc_heap m1 ! i)" and "held_bytes (mc_heap m1 ! i) \<le> mc_slot_bytes m1 ! i"
      by (simp_all add: contents_charged_def)
    with held_purged [OF c, of hasher m1 K] counts_purged [OF c, of hasher m1 K]
    show "counts_entries (purged_entry hasher m1 K (mc_heap m1 ! i)) \<and>
      held_bytes (purged_entry hasher m1 K (mc_heap m1 ! i)) \<le> mc_slot_bytes m1 ! i - purged_bytes K (mc_heap m1 ! i) \<and>
      held_bytes (purged_entry hasher m1 K (mc_heap m1 ! i)) \<le> held_bytes (mc_heap m1 ! i)" by simp
  qed
  have purged: "purged_entry hasher m1 = purged_entry hasher m"
    unfolding purged_entry_def [abs_def] same_texts_rebuild [OF texts] ..
  have "mc_heap m2 ! i = (if R i then purged_entry hasher m K (released_entry K (mc_heap m ! i)) else mc_heap m ! i)"
    if i: "i < length (mc_heap m)" for i
  proof -
    have e: "mc_heap m1 ! i = (if R i then released_entry K (mc_heap m ! i) else mc_heap m ! i)"
      unfolding R_def K_def by (rule entries [rule_format, OF i])
    have h2: "mc_heap m2 ! i = (if i \<in> set (gc_weak_collections st) then purged_entry hasher m K (mc_heap m1 ! i) else mc_heap m1 ! i)"
      using pass i by (simp add: slot_pass_def len purged)
    have listed: "i \<in> set (gc_weak_collections st) \<longleftrightarrow> R i \<and> is_weak_collection (mc_heap m ! i)"
      unfolding st_def R_def by (rule weak_list_exact)
    show ?thesis
    proof (cases "R i \<and> \<not> is_weak_collection (mc_heap m ! i)")
      case True
      with not_weak_collection [of "released_entry K (mc_heap m ! i)"] show ?thesis
        by (simp add: h2 listed e released_reach)
    qed (auto simp: h2 listed e)
  qed
  with m2 charged2 n2 other queue show ?thesis unfolding st_def R_def K_def by blast
qed

lemma sweep_phase:
  assumes ok: "ledger_ok m2" and charged: "contents_charged m2" and len: "length (mc_heap m2) = length (mc_heap m)"
    and intrinsic: "mc_intrinsic_slots m2 = mc_intrinsic_slots m"
    and entries: "\<forall>i < length (mc_heap m). mc_heap m2 ! i = (if gc_reach (mc_heap m) (trace_roots m) i
      then purged_entry hasher m (kept_value m) (released_entry (kept_value m) (mc_heap m ! i)) else mc_heap m ! i)"
  shows "\<exists>m3. sweep (gc_marks (mark_heap (mc_heap m) (trace_roots m))) m2 = Ok m3 \<and> ledger_ok m3 \<and> contents_charged m3 \<and>
    other_fields m2 m3 \<and> mc_finalization_cleanup_queue m3 = mc_finalization_cleanup_queue m2 \<and>
    mc_heap m3 = map (collected_entry hasher m) [0..<length (mc_heap m)]"
proof -
  define marks where "marks = gc_marks (mark_heap (mc_heap m) (trace_roots m))"
  define R where "R = gc_reach (mc_heap m) (trace_roots m)"
  have ml: "length marks = length (mc_heap m2)"
    using mark_heap_weak [of "mc_heap m" "trace_roots m"] by (simp add: weak_inv_def marks_def len)
  have mark: "i < length (mc_heap m) \<Longrightarrow> marks ! i \<longleftrightarrow> R i" for i
    using ml len by (auto simp: R_def marks_def mark_heap_reach [symmetric] marked_def)
  from sweep [OF ok ml] obtain m3 where
    m3: "sweep marks m2 = Ok m3 \<and> ledger_ok m3 \<and> slot_pass [mc_intrinsic_slots m2..<length (mc_heap m2)]
      (\<lambda>i. if marks ! i \<or> is_vacant (mc_heap m2 ! i) then mc_heap m2 ! i else Entry_Vacant)
      (\<lambda>i. if marks ! i \<or> is_vacant (mc_heap m2 ! i) then mc_slot_bytes m2 ! i else 0) (\<lambda>i. []) m2 m3" by (rule exE)
  note pass = conjunct2 [OF conjunct2 [OF m3]]
  have n3: "length (mc_heap m3) = length (mc_heap m)" and other: "other_fields m2 m3"
    and queue: "mc_finalization_cleanup_queue m3 = mc_finalization_cleanup_queue m2"
    using pass by (simp_all add: slot_pass_def len)
  have charged3: "contents_charged m3"
  proof (rule contents_charged_pass [OF charged pass ledger_okD(1) [OF ok]])
    fix i
    assume "i < length (mc_heap m2)"
    with charged show "counts_entries (if marks ! i \<or> is_vacant (mc_heap m2 ! i) then mc_heap m2 ! i else Entry_Vacant) \<and>
      held_bytes (if marks ! i \<or> is_vacant (mc_heap m2 ! i) then mc_heap m2 ! i else Entry_Vacant)
        \<le> (if marks ! i \<or> is_vacant (mc_heap m2 ! i) then mc_slot_bytes m2 ! i else 0) \<and>
      held_bytes (if marks ! i \<or> is_vacant (mc_heap m2 ! i) then mc_heap m2 ! i else Entry_Vacant) \<le> held_bytes (mc_heap m2 ! i)"
      by (simp add: contents_charged_def counts_entries_def [of Entry_Vacant] held_bytes_def [of Entry_Vacant])
  qed
  have "mc_heap m3 ! i = collected_entry hasher m i" if i: "i < length (mc_heap m)" for i
  proof -
    have h3: "mc_heap m3 ! i = (if mc_intrinsic_slots m \<le> i \<and> \<not> (R i \<or> is_vacant (mc_heap m2 ! i)) then Entry_Vacant else mc_heap m2 ! i)"
      using pass i mark [OF i] by (simp add: slot_pass_def len intrinsic)
    have vacant: "is_vacant e \<longleftrightarrow> e = Entry_Vacant" for e by (cases e) (simp_all add: is_vacant_def)
    show ?thesis
    proof (cases "R i")
      case True
      then show ?thesis using entries [rule_format, OF i] by (simp add: h3 collected_entry_def R_def)
    next
      case False
      have "mc_intrinsic_slots m \<le> i \<or> is_vacant (mc_heap m ! i)"
        using False intrinsic_reach [of i m] i unfolding R_def present_def by (meson not_le)
      then show ?thesis using False entries [rule_format, OF i] vacant by (auto simp: h3 collected_entry_def R_def)
    qed
  qed
  then have "mc_heap m3 = map (collected_entry hasher m) [0..<length (mc_heap m)]" by (intro nth_equalityI) (simp_all add: n3)
  with m3 charged3 other queue show ?thesis unfolding marks_def by blast
qed

lemma watermarks_ok [simp]:
  "ledger_ok (recompute_watermarks (m\<lparr>mc_gc := g\<rparr>)) \<longleftrightarrow> ledger_ok m"
  "contents_charged (recompute_watermarks (m\<lparr>mc_gc := g\<rparr>)) \<longleftrightarrow> contents_charged m"
  by (simp_all add: recompute_watermarks_def ledger_ok_def vacant_slots_def live_runtime_slots_def contents_charged_def)

definition same_roots :: "Machine \<Rightarrow> Machine \<Rightarrow> bool" where
  "same_roots m m' \<longleftrightarrow> mc_roots m' = mc_roots m \<and> mc_native_roots m' = mc_native_roots m \<and> mc_kept_alive m' = mc_kept_alive m \<and>
     mc_symbol_registry m' = mc_symbol_registry m \<and> mc_intrinsic_slots m' = mc_intrinsic_slots m \<and>
     mc_machine_bytes m' = mc_machine_bytes m \<and> mc_jobs m' = mc_jobs m"

lemma collect_ok:
  assumes ok: "ledger_ok m" and charged: "contents_charged m"
  shows "\<exists>m'. collect hasher m = Ok m' \<and> ledger_ok m' \<and> contents_charged m' \<and>
    mc_heap m' = map (collected_entry hasher m) [0..<length (mc_heap m)] \<and>
    mc_finalization_cleanup_queue m' = collected_queue m \<and> same_roots m m' \<and> \<not> gc_pending (mc_gc m')"
proof -
  let ?st = "mark_heap (mc_heap m) (trace_roots m)"
  from weak_targets_phase [OF ok charged] obtain m1 where
    m1: "process_weak_targets_after_marking (gc_marks ?st) m = Ok m1" "ledger_ok m1" "contents_charged m1" "same_texts m m1"
      "other_fields m m1" "mc_finalization_cleanup_queue m1 = collected_queue m" "length (mc_heap m1) = length (mc_heap m)"
    and h1: "\<forall>i < length (mc_heap m). mc_heap m1 ! i =
      (if gc_reach (mc_heap m) (trace_roots m) i then released_entry (kept_value m) (mc_heap m ! i) else mc_heap m ! i)"
    by (elim exE conjE) simp
  from purge_phase [OF m1(2,3,4,7) h1, of hasher] obtain m2 where
    m2: "purge_weak_entries hasher ?st m1 = Ok m2" "ledger_ok m2" "contents_charged m2" "other_fields m1 m2"
      "mc_finalization_cleanup_queue m2 = mc_finalization_cleanup_queue m1" "length (mc_heap m2) = length (mc_heap m)"
    and h2: "\<forall>i < length (mc_heap m). mc_heap m2 ! i = (if gc_reach (mc_heap m) (trace_roots m) i
      then purged_entry hasher m (kept_value m) (released_entry (kept_value m) (mc_heap m ! i)) else mc_heap m ! i)"
    by (elim exE conjE) simp
  have "mc_intrinsic_slots m2 = mc_intrinsic_slots m" using m1(5) m2(4) by (simp add: other_fields_def)
  from sweep_phase [OF m2(2,3,6) this h2] obtain m3 where
    m3: "sweep (gc_marks ?st) m2 = Ok m3" "ledger_ok m3" "contents_charged m3" "other_fields m2 m3"
      "mc_finalization_cleanup_queue m3 = mc_finalization_cleanup_queue m2"
      "mc_heap m3 = map (collected_entry hasher m) [0..<length (mc_heap m)]" by (elim exE conjE) simp
  let ?m' = "recompute_watermarks (m3\<lparr>mc_gc := (mc_gc m3)\<lparr>gc_pending := False\<rparr>\<rparr>)"
  have "collect hasher m = Ok ?m'" by (simp add: collect_def Let_def m1(1) m2(1) m3(1))
  moreover have "mc_heap ?m' = mc_heap m3" "mc_finalization_cleanup_queue ?m' = collected_queue m" "\<not> gc_pending (mc_gc ?m')"
    using m1(6) m2(5) m3(5) by (simp_all add: recompute_watermarks_def)
  moreover have "same_roots m ?m'"
    using m1(5) m2(4) m3(4) by (simp add: same_roots_def other_fields_def recompute_watermarks_def)
  ultimately show ?thesis using m3(2,3,6) by (intro exI [of _ ?m'] conjI) simp_all
qed

end
