(* ===== verification/Gc_Safety.thy ===== *)
theory Gc_Safety
  imports Gc_Collect
begin

text \<open>
  What the machine may rely on across collections: no reference that it holds is left dangling, and the
  ledger stays exact through every sequence of heap operations.
\<close>

section \<open>References stay valid\<close>

text \<open>The references that an entry holds weakly.\<close>

definition weak_visits :: "HeapEntry \<Rightarrow> visit list" where
  "weak_visits e =
    (case e of
       Entry_WeakRef target ps prototype \<Rightarrow> visit_option target
     | Entry_FinalizationRegistry cleanup_callback cells pending_holdings cleanup_scheduled ps prototype \<Rightarrow>
         map (Visit_Value \<circ> fc_target) cells
     | Entry_Collection kind es index count next_order ps prototype \<Rightarrow>
         if kind = Kind_WeakMap then concat (map (\<lambda>e. [Visit_Value (ce_key e), Visit_Value (ce_value e)]) (filter ce_live es))
         else if kind = Kind_WeakSet then map (Visit_Value \<circ> ce_key) (filter ce_live es)
         else []
     | _ \<Rightarrow> [])"

definition visits_valid :: "HeapEntry list \<Rightarrow> visit list \<Rightarrow> bool" where
  "visits_valid heap vs \<longleftrightarrow> (\<forall>x \<in> set vs. case visit_slot x of None \<Rightarrow> True | Some i \<Rightarrow> present heap i)"

definition refs_valid :: "Machine \<Rightarrow> bool" where
  "refs_valid m \<longleftrightarrow> visits_valid (mc_heap m) (trace_roots m) \<and>
     (\<forall>i < length (mc_heap m). visits_valid (mc_heap m) (entry_visits (mc_heap m ! i) @ weak_visits (mc_heap m ! i)))"

lemma visits_valid_iff: "visits_valid heap vs \<longleftrightarrow> (\<forall>x \<in> set vs. \<forall>i. visit_slot x = Some i \<longrightarrow> present heap i)"
  by (auto simp: visits_valid_def split: option.splits)

lemma present_collected:
  assumes "i < length (mc_heap m)"
  shows "present (map (collected_entry hasher m) [0..<length (mc_heap m)]) i \<longleftrightarrow> gc_reach (mc_heap m) (trace_roots m) i"
proof (cases "gc_reach (mc_heap m) (trace_roots m) i")
  case True
  then have "\<not> is_vacant (mc_heap m ! i)" using reach_present by (auto simp: present_def)
  with True assms show ?thesis
    by (simp add: present_def collected_entry_def purged_entry_vacant released_entry_vacant)
next
  case False
  with assms show ?thesis by (simp add: present_def collected_entry_def is_vacant_def)
qed

text \<open>A surviving entry keeps only references it had, and of the weak ones those that are kept.\<close>

lemma released_visits: "set (entry_visits (released_entry K e)) \<subseteq> set (entry_visits e)"
  by (cases e) (auto simp: released_entry_def Let_def trace_finalization_cell_def trace_values_def)

lemma purged_visits: "set (entry_visits (purged_entry hasher m K e)) \<subseteq> set (entry_visits e)"
  by (cases e) (auto simp: purged_entry_def Let_def)

lemma released_weak:
  assumes "x \<in> set (weak_visits (released_entry K e))"
  shows "x \<in> set (weak_visits e) \<and> (is_weak_collection e \<or> (\<exists>v. x = Visit_Value v \<and> K v))"
  using assms
  by (cases e) (auto simp: released_entry_def weak_visits_def is_weak_collection_def Let_def split: option.splits if_splits)

lemma purged_weak:
  assumes "x \<in> set (weak_visits (purged_entry hasher m K e))" and "is_weak_collection e"
  shows "x \<in> set (weak_visits e) \<and> (\<exists>v. x = Visit_Value v \<and> (K v \<or> (\<exists>c \<in> set (ephemerons e). v = ce_value c \<and> K (ce_key c))))"
proof -
  from weak_collectionE [OF assms(2)] obtain kind es idx n ord ps pr
    where e: "e = Entry_Collection kind es idx n ord ps pr" "kind = Kind_WeakMap \<or> kind = Kind_WeakSet" by blast
  from e(2) show ?thesis
    using assms(1) by (elim disjE) (auto simp: e(1) purged_entry_def weak_visits_def ephemerons_def Let_def)
qed

lemma not_weak_purged: "\<not> is_weak_collection e \<Longrightarrow> purged_entry hasher m K e = e"
  by (cases e) (simp_all add: is_weak_collection_def purged_entry_def)

lemma reach_value: "kept_value m v \<Longrightarrow> runtime_index v = Some i \<Longrightarrow> gc_reach (mc_heap m) (trace_roots m) i"
  by (simp add: kept_value_def)

lemma released_ephemerons: "ephemerons (released_entry K e) = ephemerons e"
  by (cases e) (simp_all add: released_entry_def ephemerons_def Let_def)

lemma collected_weak_reach:
  assumes R: "gc_reach (mc_heap m) (trace_roots m) i"
    and valid: "visits_valid (mc_heap m) (weak_visits (mc_heap m ! i))"
    and x: "x \<in> set (weak_visits (purged_entry hasher m (kept_value m) (released_entry (kept_value m) (mc_heap m ! i))))" "visit_slot x = Some j"
  shows "gc_reach (mc_heap m) (trace_roots m) j"
proof (cases "is_weak_collection (mc_heap m ! i)")
  case True
  let ?e = "mc_heap m ! i" and ?K = "kept_value m"
  have "released_entry ?K ?e = ?e" using True by (cases ?e) (simp_all add: is_weak_collection_def released_entry_def)
  with purged_weak [of x hasher m ?K ?e] x(1) True obtain v where v: "x = Visit_Value v" "x \<in> set (weak_visits ?e)"
      "?K v \<or> (\<exists>c \<in> set (ephemerons ?e). v = ce_value c \<and> ?K (ce_key c))" by auto
  from v(3) show ?thesis
  proof
    assume "?K v"
    then show ?thesis using reach_value v(1) x(2) by simp
  next
    assume "\<exists>c \<in> set (ephemerons ?e). v = ce_value c \<and> ?K (ce_key c)"
    then obtain c k where c: "c \<in> set (ephemerons ?e)" "v = ce_value c" "runtime_index (ce_key c) = Some k"
        "gc_reach (mc_heap m) (trace_roots m) k" by (auto simp: kept_value_def)
    from valid v(2) x(2) have "present (mc_heap m) j" by (auto simp: visits_valid_iff)
    with R c v(1) x(2) show ?thesis by (auto intro: reach_ephemeron)
  qed
next
  case False
  then have "\<not> is_weak_collection (released_entry (kept_value m) (mc_heap m ! i))" by (simp add: released_reach)
  with x(1) have "x \<in> set (weak_visits (released_entry (kept_value m) (mc_heap m ! i)))" by (simp add: not_weak_purged)
  with released_weak [of x "kept_value m" "mc_heap m ! i"] False x(2) reach_value show ?thesis by auto
qed

lemma collect_refs_valid:
  assumes ok: "ledger_ok m" and charged: "contents_charged m" and valid: "refs_valid m" and "collect hasher m = Ok m'"
  shows "refs_valid m'"
proof -
  let ?R = "gc_reach (mc_heap m) (trace_roots m)" and ?n = "length (mc_heap m)"
  have heap: "mc_heap m' = map (collected_entry hasher m) [0..<?n]" and queue: "mc_finalization_cleanup_queue m' = collected_queue m"
    and roots: "same_roots m m'"
    using collect_ok [OF ok charged, of hasher] assms(4) by auto
  have bound: "?R j \<Longrightarrow> j < ?n" for j using reach_present [of "mc_heap m" "trace_roots m" j] by (simp add: present_def)
  have live: "?R j \<Longrightarrow> present (mc_heap m') j" for j using present_collected [of j m hasher] bound [of j] by (simp add: heap)
  have root: "?R j" if "x \<in> set (trace_roots m)" "visit_slot x = Some j" for x j
    using that valid by (intro reach_root [OF that]) (auto simp: refs_valid_def visits_valid_iff)
  have "visits_valid (mc_heap m') (trace_roots m')"
  proof -
    have "x \<in> set (trace_roots m) \<or> (\<exists>i. x = Visit_Value (slot_ref i) \<and> ?R i)" if "x \<in> set (trace_roots m')" for x
      using that roots queue by (auto simp: trace_roots_def Let_def same_roots_def collected_queue_def trace_values_def)
    moreover have "runtime_index (slot_ref i) = Some i" if "?R i" for i
      using bound [OF that] ledger_okD(4) [OF ok] by (intro runtime_index_slot_ref) simp
    ultimately show ?thesis using root live by (fastforce simp: visits_valid_iff)
  qed
  moreover have "visits_valid (mc_heap m') (entry_visits (mc_heap m' ! i) @ weak_visits (mc_heap m' ! i))" if i: "i < ?n" for i
  proof (cases "?R i")
    case False
    then show ?thesis using i by (simp add: heap collected_entry_def visits_valid_def weak_visits_def)
  next
    case True
    let ?e = "released_entry (kept_value m) (mc_heap m ! i)"
    have new: "mc_heap m' ! i = purged_entry hasher m (kept_value m) ?e" using True i by (simp add: heap collected_entry_def)
    from valid i have old: "visits_valid (mc_heap m) (entry_visits (mc_heap m ! i))" "visits_valid (mc_heap m) (weak_visits (mc_heap m ! i))"
      by (auto simp: refs_valid_def visits_valid_iff)
    have "?R j" if "x \<in> set (entry_visits (mc_heap m' ! i))" "visit_slot x = Some j" for x j
    proof -
      have "x \<in> set (entry_visits (mc_heap m ! i))"
        using that(1) purged_visits [of hasher m "kept_value m" ?e] released_visits [of "kept_value m" "mc_heap m ! i"] by (auto simp: new)
      with True that(2) old(1) show ?thesis by (auto simp: visits_valid_iff intro: reach_edge)
    qed
    moreover have "?R j" if "x \<in> set (weak_visits (mc_heap m' ! i))" "visit_slot x = Some j" for x j
      using collected_weak_reach [OF True old(2)] that by (simp add: new)
    ultimately show ?thesis using live by (auto simp: visits_valid_iff)
  qed
  ultimately show ?thesis by (simp add: refs_valid_def heap)
qed

section \<open>The ledger through every operation\<close>

text \<open>The machine that \<open>Machine::new\<close> builds over the heap of start-up objects.\<close>

definition Machine_new :: "HeapEntry list \<Rightarrow> usize \<Rightarrow> usize \<Rightarrow> MachineRoots \<Rightarrow> JobControl \<Rightarrow> Machine" where
  "Machine_new heap max_heap_slots max_heap_bytes roots jobs =
    \<lparr>mc_heap = heap, mc_slot_bytes = replicate (length heap) 0, mc_intrinsic_slot_credits = replicate (length heap) 0,
     mc_machine_bytes = 0, mc_intrinsic_slots = length heap, mc_vacant_count = 0, mc_heap_bytes = 0,
     mc_max_heap_slots = max_heap_slots, mc_max_heap_bytes = max_heap_bytes,
     mc_gc = \<lparr>gc_pending = False, gc_byte_watermark = max_heap_bytes div 2, gc_slot_watermark = max_heap_slots div 2\<rparr>,
     mc_native_roots = [], mc_kept_alive = [], mc_finalization_cleanup_queue = [], mc_symbol_registry = [], mc_roots = roots, mc_jobs = jobs\<rparr>"

text \<open>
  One operation on the heap. The program's own stores replace an entry by another of a live slot
  (\<open>step_store\<close>); whatever else of the machine they change is not part of the ledger (\<open>step_other\<close>).
\<close>

inductive heap_step :: "(hash_input \<Rightarrow> u64) \<Rightarrow> Machine \<Rightarrow> Machine \<Rightarrow> bool" for hasher where
  step_allocate: "\<not> is_vacant e \<Longrightarrow> allocate e m = Ok (v, m') \<Longrightarrow> heap_step hasher m m'"
| step_charge: "i < length (mc_heap m) \<Longrightarrow> charge_slot i b m = Ok m' \<Longrightarrow> heap_step hasher m m'"
| step_refund: "i < length (mc_heap m) \<Longrightarrow> refund_slot i b m = Ok m' \<Longrightarrow> heap_step hasher m m'"
| step_to_machine: "transfer_slot_to_machine i b m = Ok m' \<Longrightarrow> heap_step hasher m m'"
| step_transfer: "transfer_slot_charge i j b m = Ok m' \<Longrightarrow> heap_step hasher m m'"
| step_charge_machine: "charge_machine b m = Ok m' \<Longrightarrow> heap_step hasher m m'"
| step_refund_machine: "refund_machine b m = Ok m' \<Longrightarrow> heap_step hasher m m'"
| step_collect: "collect hasher m = Ok m' \<Longrightarrow> heap_step hasher m m'"
| step_store: "\<not> is_vacant e \<Longrightarrow> \<not> is_vacant (mc_heap m ! i) \<Longrightarrow> heap_step hasher m (m\<lparr>mc_heap := (mc_heap m)[i := e]\<rparr>)"
| step_other: "heap_step hasher m (m\<lparr>mc_native_roots := nr, mc_kept_alive := ka, mc_finalization_cleanup_queue := q,
    mc_symbol_registry := sr, mc_roots := r\<rparr>)"

inductive heap_steps :: "(hash_input \<Rightarrow> u64) \<Rightarrow> Machine \<Rightarrow> Machine \<Rightarrow> bool" for hasher where
  steps_refl: "heap_steps hasher m m"
| steps_step: "heap_steps hasher m m' \<Longrightarrow> heap_step hasher m' m'' \<Longrightarrow> heap_steps hasher m m''"

definition limits :: "Machine \<Rightarrow> usize \<times> usize" where
  "limits m = (mc_max_heap_slots m, mc_max_heap_bytes m)"

definition sized_ledger :: "nat \<Rightarrow> nat \<times> usize \<times> usize \<Rightarrow> Machine \<Rightarrow> bool" where
  "sized_ledger n k m \<longleftrightarrow> ledger_ok m \<and> length (mc_heap m) = n \<and> (mc_intrinsic_slots m, limits m) = k"

lemma refund_sized:
  assumes "sized_ledger n k m" and "i < n" and "refund_slot i b m = Ok m'"
  shows "sized_ledger n k m'"
proof -
  from assms have ok: "ledger_ok m" and i: "i < length (mc_heap m)" by (simp_all add: sized_ledger_def)
  from assms(3) have "m' = refunded_slot i b m" by (simp add: refund_slot_eq [OF ok i] split: if_splits)
  then show ?thesis using assms(1) refund_slot_ok [OF ok i assms(3)] by (simp add: sized_ledger_def refunded_slot_def Let_def limits_def)
qed

lemma store_sized:
  "sized_ledger n k m \<Longrightarrow> is_vacant e = is_vacant (mc_heap m ! i) \<Longrightarrow> sized_ledger n k (m\<lparr>mc_heap := (mc_heap m)[i := e]\<rparr>)"
  by (auto simp: sized_ledger_def ledger_ok_heap_update limits_def)

lemma other_sized: "sized_ledger n k (m\<lparr>mc_finalization_cleanup_queue := q\<rparr>) \<longleftrightarrow> sized_ledger n k m"
  by (simp add: sized_ledger_def ledger_ok_def vacant_slots_def live_runtime_slots_def limits_def)

lemma process_weak_slot_sized:
  assumes "sized_ledger n k m" and "i < n" and "process_weak_slot marks m i = Ok m'"
  shows "sized_ledger n k m'"
proof (cases "\<exists>cb cells ph sch ps pr. mc_heap m ! i = Entry_FinalizationRegistry cb cells ph sch ps pr")
  case True
  then obtain cb cells ph sch ps pr where e: "mc_heap m ! i = Entry_FinalizationRegistry cb cells ph sch ps pr" by blast
  have store: "sized_ledger n k (m\<lparr>mc_heap := (mc_heap m)[i := Entry_FinalizationRegistry cb cells' ph' sch' ps pr]\<rparr>)" for cells' ph' sch'
    by (rule store_sized [OF assms(1)]) (simp add: e is_vacant_def)
  show ?thesis using assms(3,1) refund_sized [OF store assms(2)] store
    by (auto simp: process_weak_slot_def e Let_def bind_result_Ok_iff other_sized split: if_splits prod.splits)
next
  case False
  show ?thesis
  proof (cases "\<exists>t ps pr. mc_heap m ! i = Entry_WeakRef t ps pr")
    case True
    then obtain t ps pr where e: "mc_heap m ! i = Entry_WeakRef t ps pr" by blast
    have "sized_ledger n k (m\<lparr>mc_heap := (mc_heap m)[i := Entry_WeakRef t' ps pr]\<rparr>)" for t'
      by (rule store_sized [OF assms(1)]) (simp add: e is_vacant_def)
    with assms(1,3) show ?thesis by (auto simp: process_weak_slot_def e split: if_splits)
  next
    case no_ref: False
    then have "process_weak_slot marks m i = Ok m" using False by (cases "mc_heap m ! i") (auto simp: process_weak_slot_def)
    with assms show ?thesis by simp
  qed
qed

lemma purge_slot_sized:
  assumes "sized_ledger n k m" and "purge_slot hasher marks m i = Ok m'"
  shows "sized_ledger n k m'"
proof (cases "slice_get marks i = Some True")
  case True
  with assms(2) have i: "i < length (mc_heap m)" and m': "purge_entry hasher marks m i (mc_heap m ! i) = Ok m'"
    by (auto simp: purge_slot_def slice_index_def split: if_splits)
  from i assms(1) have n: "i < n" by (simp add: sized_ledger_def)
  show ?thesis
  proof (cases "is_weak_collection (mc_heap m ! i)")
    case True
    from weak_collectionE [OF True] obtain kind es idx c ord ps pr
      where e: "mc_heap m ! i = Entry_Collection kind es idx c ord ps pr" "kind = Kind_WeakMap \<or> kind = Kind_WeakSet" by blast
    have "sized_ledger n k (m\<lparr>mc_heap := (mc_heap m)[i := Entry_Collection kind es' idx' c' ord ps pr]\<rparr>)" for es' idx' c'
      by (rule store_sized [OF assms(1)]) (simp add: e(1) is_vacant_def)
    from refund_sized [OF this n] m' e(2) show ?thesis
      by (auto simp: purge_entry_def e(1) Let_def bind_result_Ok_iff)
  next
    case False
    with not_weak_collection [OF False, of hasher marks m i] m' have "refund_slot i 0 m = Ok m'" by simp
    then show ?thesis by (rule refund_sized [OF assms(1) n])
  qed
next
  case False
  with assms show ?thesis by (auto simp: purge_slot_def slice_index_def split: if_splits)
qed

lemma sweep_slot_sized:
  assumes "sized_ledger n k m" and "fst k \<le> i" and "i < n" and "sweep_slot marks m i = Ok m'"
  shows "sized_ledger n k m'"
proof -
  from assms have ok: "ledger_ok m" "mc_intrinsic_slots m \<le> i" "i < length (mc_heap m)" by (auto simp: sized_ledger_def)
  moreover from assms(4) have "i < length marks" by (auto simp: sweep_slot_def slice_index_def split: if_splits)
  ultimately have "ledger_ok m' \<and> (\<exists>e b. slot_step i e b [] m m')" using sweep_slot_step [of m i marks] assms(4) by auto
  with assms(1) show ?thesis by (auto simp: sized_ledger_def slot_step_def other_fields_def limits_def)
qed

lemma collect_ledger:
  assumes ok: "ledger_ok m" and "collect hasher m = Ok m'"
  shows "ledger_ok m' \<and> limits m' = limits m"
proof -
  let ?st = "mark_heap (mc_heap m) (trace_roots m)" and ?I = "sized_ledger (length (mc_heap m)) (mc_intrinsic_slots m, limits m)"
  from assms(2) obtain m1 m2 m3 where m: "process_weak_targets_after_marking (gc_marks ?st) m = Ok m1"
      "purge_weak_entries hasher ?st m1 = Ok m2" "sweep (gc_marks ?st) m2 = Ok m3"
    and m': "m' = recompute_watermarks (m3\<lparr>mc_gc := (mc_gc m3)\<lparr>gc_pending := False\<rparr>\<rparr>)"
    by (auto simp: collect_def Let_def bind_result_Ok_iff)
  have "?I m" using ok by (simp add: sized_ledger_def)
  with m(1) have 1: "?I m1" unfolding process_weak_targets_after_marking_def
    by (rule try_fold_invariant) (auto intro: process_weak_slot_sized)
  with m(2) have 2: "?I m2" unfolding purge_weak_entries_def by (rule try_fold_invariant) (rule purge_slot_sized)
  have "?I m3"
  proof (rule try_fold_invariant [where I = ?I, OF m(3) [unfolded sweep_def] 2])
    fix s i s'
    assume s: "?I s" "i \<in> set [mc_intrinsic_slots m2..<length (mc_heap m2)]" "sweep_slot (gc_marks ?st) s i = Ok s'"
    from s(2) 2 have "mc_intrinsic_slots m \<le> i" "i < length (mc_heap m)" by (simp_all add: sized_ledger_def)
    then show "?I s'" by (intro sweep_slot_sized [OF s(1) _ _ s(3)]) simp_all
  qed
  then show ?thesis by (simp add: m' sized_ledger_def) (simp add: limits_def recompute_watermarks_def)
qed

lemma heap_step_ledger: "heap_step hasher m m' \<Longrightarrow> ledger_ok m \<Longrightarrow> ledger_ok m'"
proof (induction rule: heap_step.induct)
  case (step_allocate e m v m')
  then show ?case using allocate_ok by blast
next
  case (step_store e m i)
  then show ?case by (intro ledger_ok_heap_update) simp_all
next
  case (step_other m nr ka q sr r)
  have "credit < 2 ^ 64" if "credit \<in> set (mc_intrinsic_slot_credits m)" for credit
    using step_other.prems that by (simp add: ledger_ok_def)
  then show ?case using ledger_okD(7,8) [OF step_other.prems] by (intro ledger_ok_transfer [OF step_other.prems]) simp_all
qed (auto intro: charge_slot_ok refund_slot_ok transfer_slot_to_machine_ok transfer_slot_charge_ok charge_machine_ok
    refund_machine_ok dest: collect_ledger)

lemma heap_step_limits: "heap_step hasher m m' \<Longrightarrow> ledger_ok m \<Longrightarrow> limits m' = limits m"
proof (induction rule: heap_step.induct)
  case (step_allocate e m v m')
  then show ?case by (auto simp: allocate_def bind_result_Ok_iff Let_def sync_slot_ledger_def request_garbage_collection_def limits_def)
next
  case (step_charge i m b m')
  then show ?case by (auto simp: charge_slot_eq charged_slot_def request_garbage_collection_def limits_def split: if_splits)
next
  case (step_refund i m b m')
  then show ?case by (auto simp: refund_slot_eq refunded_slot_def Let_def limits_def split: if_splits)
next
  case (step_to_machine i b m m')
  then show ?case by (auto simp: transfer_slot_to_machine_def sync_idle bind_result_Ok_iff Let_def limits_def split: if_splits)
next
  case (step_transfer i j b m m')
  then show ?case by (auto simp: transfer_slot_charge_def sync_idle bind_result_Ok_iff Let_def limits_def split: if_splits)
next
  case (step_charge_machine b m m')
  then show ?case by (auto simp: charge_machine_def bind_result_Ok_iff Let_def request_garbage_collection_def limits_def)
next
  case (step_refund_machine b m m')
  then show ?case by (auto simp: refund_machine_def bind_result_Ok_iff Let_def limits_def)
qed (auto simp: limits_def dest: collect_ledger)

lemma heap_steps_ledger: "heap_steps hasher m m' \<Longrightarrow> ledger_ok m \<Longrightarrow> ledger_ok m' \<and> limits m' = limits m"
  by (induction rule: heap_steps.induct) (auto dest: heap_step_ledger heap_step_limits)

lemma Machine_new_ledger:
  "length heap < 2 ^ 32 \<Longrightarrow> max_bytes < 2 ^ 64 \<Longrightarrow> ledger_ok (Machine_new heap max_slots max_bytes roots jobs)"
  by (simp add: ledger_ok_def Machine_new_def vacant_slots_def live_runtime_slots_def)

section \<open>A concrete heap\<close>

text \<open>A frame holds a weak reference (slot 0) whose target is slot 2 and whose own property refers to slot 1.\<close>

definition sample_roots :: MachineRoots where
  "sample_roots =
    \<lparr>rt_frames = [\<lparr>fr_registers = [slot_ref 0], fr_this_value = Value_UNDEFINED, fr_new_target = Value_UNDEFINED, fr_args = [],
       fr_context = None, fr_outer_context = None, fr_arguments_object = None, fr_constructed = None\<rparr>],
     rt_global_object = Value_UNDEFINED, rt_context_global = None, rt_last_completion = None,
     rt_current_new_target = Value_UNDEFINED, rt_pending_generator_resume = None, rt_pending_async_suspend = None,
     rt_microtasks = [], rt_timers = [], rt_intrinsics = [], rt_modules = [], rt_cells = [], rt_external = []\<rparr>"

definition sample_jobs :: JobControl where
  "sample_jobs = \<lparr>jc_fuel = 100, jc_fuel_limit = 100, jc_max_microtasks = 100, jc_drain_active = False, jc_cancelled = False\<rparr>"

definition sample_machine :: Machine where
  "sample_machine =
    \<lparr>mc_heap = [Entry_WeakRef (Some (slot_ref 2)) [(KeyNamed [120], PropertyData (slot_ref 1))] None,
       Entry_Object [] None None, Entry_Object [] None None],
     mc_slot_bytes = [11, 1, 1], mc_intrinsic_slot_credits = [], mc_machine_bytes = 0, mc_intrinsic_slots = 0,
     mc_vacant_count = 0, mc_heap_bytes = 13, mc_max_heap_slots = 8, mc_max_heap_bytes = 64,
     mc_gc = \<lparr>gc_pending = True, gc_byte_watermark = 0, gc_slot_watermark = 0\<rparr>,
     mc_native_roots = [], mc_kept_alive = [], mc_finalization_cleanup_queue = [], mc_symbol_registry = [],
     mc_roots = sample_roots,
     mc_jobs = sample_jobs\<rparr>"

lemma runtime_index_undefined [simp]: "runtime_index Value_UNDEFINED = None"
proof -
  have "Value_decode Value_UNDEFINED = Some Dec_Undefined" by (simp add: Value_decode_iff)
  then show ?thesis by (simp add: runtime_index_def)
qed

lemma sample_ok: "ledger_ok sample_machine" "contents_charged sample_machine"
  by (simp_all add: sample_machine_def ledger_ok_def vacant_slots_def live_runtime_slots_def is_vacant_def contents_charged_def
      counts_entries_def held_bytes_def All_less_Suc numeral_3_eq_3)

lemma sample_trace: "trace_roots sample_machine =
    [Visit_Value (slot_ref 0), Visit_Value Value_UNDEFINED, Visit_Value Value_UNDEFINED, Visit_Value Value_UNDEFINED, Visit_Value Value_UNDEFINED]"
  by (simp add: trace_roots_def sample_machine_def sample_roots_def trace_frame_def trace_values_def Let_def)

lemma sample_indices: "runtime_index (slot_ref 0) = Some 0" "runtime_index (slot_ref 1) = Some 1" "runtime_index (slot_ref 2) = Some 2"
  by (simp_all add: runtime_index_slot_ref)

lemma sample_reach: "gc_reach (mc_heap sample_machine) (trace_roots sample_machine) i \<longleftrightarrow> i = 0"
proof
  let ?h = "mc_heap sample_machine"
  assume "gc_reach ?h (trace_roots sample_machine) i"
  then show "i = 0"
  proof (rule reach_least [of ?h "\<lambda>i. i = 0" "trace_roots sample_machine", rotated 3])
    show "edge_closed ?h (\<lambda>i. i = 0)" by (simp add: edge_closed_def sample_machine_def)
    show "ephemeron_closed ?h (\<lambda>i. i = 0)" by (simp add: ephemeron_closed_def sample_machine_def ephemerons_def)
    show "x \<in> set (trace_roots sample_machine) \<Longrightarrow> visit_slot x = Some j \<Longrightarrow> present ?h j \<Longrightarrow> j = 0" for x j
      by (auto simp: sample_trace sample_indices)
  qed
next
  have "Visit_Value (slot_ref 0) \<in> set (trace_roots sample_machine)" by (simp add: sample_trace)
  moreover have "present (mc_heap sample_machine) 0" by (simp add: sample_machine_def present_def is_vacant_def)
  moreover assume "i = 0"
  ultimately show "gc_reach (mc_heap sample_machine) (trace_roots sample_machine) i"
    using sample_indices(1) by (auto intro: reach_root)
qed

lemma sample_refs: "refs_valid sample_machine"
  unfolding refs_valid_def sample_trace
  by (auto simp: sample_machine_def visits_valid_iff sample_indices weak_visits_def present_def is_vacant_def less_Suc_eq numeral_3_eq_3
      trace_properties_and_prototype_def trace_property_map_def)

text \<open>
  The entries of weak references and registries are traced without their own properties and prototype.
  In the sample heap, the object that the frame can still reach through a property is swept: after
  the collection the property refers to a vacant slot.
\<close>

lemma weakref_property_swept:
  "\<exists>m'. collect (\<lambda>_. 0) sample_machine = Ok m' \<and>
    mc_heap m' ! 0 = Entry_WeakRef None [(KeyNamed [120], PropertyData (slot_ref 1))] None \<and>
    runtime_slot m' (slot_ref 1) = Err (Error_InvalidRuntimeHeapReference 2)"
proof -
  have slots: "length (mc_heap sample_machine) = 3" by (simp add: sample_machine_def)
  from collect_ok [OF sample_ok, of "\<lambda>_. 0"] obtain m' where m': "collect (\<lambda>_. 0) sample_machine = Ok m'"
    and heap: "mc_heap m' = map (collected_entry (\<lambda>_. 0) sample_machine) [0..<3]"
    unfolding slots by blast
  have "\<not> kept_value sample_machine (slot_ref 2)" by (simp add: kept_value_def sample_reach sample_indices)
  then have "mc_heap m' ! 0 = Entry_WeakRef None [(KeyNamed [120], PropertyData (slot_ref 1))] None"
    by (simp add: heap collected_entry_def sample_reach) (simp add: sample_machine_def released_entry_def purged_entry_def)
  moreover have "mc_heap m' ! 1 = Entry_Vacant" "length (mc_heap m') = 3" by (simp_all add: heap collected_entry_def sample_reach)
  then have "runtime_slot m' (slot_ref 1) = Err (Error_InvalidRuntimeHeapReference 2)"
    by (simp add: runtime_slot_def decode_slot_ref is_vacant_def)
  ultimately show ?thesis using m' by blast
qed

section \<open>What a collection does, and what the ledger promises\<close>

text \<open>
  C10. A collection never fails or panics. It leaves in each slot what reachability prescribes: a slot that
  the roots do not reach becomes vacant; a reached entry stays as it was, except that a weak reference
  whose target dies is cleared, a registry moves the holdings of its dead targets to its pending list,
  in order, and a weak collection keeps, in order, exactly its live entries whose key survives, with the
  index rebuilt. Registries with holdings are queued once, the roots are unchanged, and the ledger stays exact.
\<close>

theorem collection_exact:
  assumes "ledger_ok m" and "contents_charged m"
  shows "\<exists>m'. collect hasher m = Ok m' \<and>
    mc_heap m' = map (\<lambda>i. if gc_reach (mc_heap m) (trace_roots m) i
      then purged_entry hasher m (kept_value m) (released_entry (kept_value m) (mc_heap m ! i)) else Entry_Vacant) [0..<length (mc_heap m)] \<and>
    mc_finalization_cleanup_queue m' = mc_finalization_cleanup_queue m @ map slot_ref (filter (\<lambda>i.
      gc_reach (mc_heap m) (trace_roots m) i \<and> newly_scheduled (kept_value m) (mc_heap m ! i)) [0..<length (mc_heap m)]) \<and>
    same_roots m m' \<and> \<not> gc_pending (mc_gc m') \<and> ledger_ok m' \<and> contents_charged m'"
  using collect_ok [OF assms, of hasher] unfolding collected_entry_def [abs_def] collected_queue_def by blast

theorem collection_exact_witness:
  "ledger_ok sample_machine \<and> contents_charged sample_machine \<and> (\<exists>m'. collect (\<lambda>_. 0) sample_machine = Ok m' \<and>
     mc_heap m' = [Entry_WeakRef None [(KeyNamed [120], PropertyData (slot_ref 1))] None, Entry_Vacant, Entry_Vacant])"
proof -
  have slots: "[0..<length (mc_heap sample_machine)] = [0, 1, 2]" by (simp add: sample_machine_def upt_rec)
  have "\<not> kept_value sample_machine (slot_ref 2)" by (simp add: kept_value_def sample_reach sample_indices)
  then have first: "purged_entry (\<lambda>_. 0) sample_machine (kept_value sample_machine)
      (released_entry (kept_value sample_machine) (mc_heap sample_machine ! 0)) =
      Entry_WeakRef None [(KeyNamed [120], PropertyData (slot_ref 1))] None"
    by (subst (3) sample_machine_def) (simp add: released_entry_def purged_entry_def)
  show ?thesis using collection_exact [OF sample_ok, of "\<lambda>_. 0"] sample_ok unfolding slots sample_reach by (auto simp: first)
qed



text \<open>
  C18. The heap ledger is exact through every sequence of allocations, charges, refunds, transfers, stores and
  collections of a machine that started empty: the byte total is the sum of the charges of the slots and
  of the machine and stays within its limit, the vacant count is the number of vacant slots and the live
  slots stay within theirs.
\<close>

theorem heap_ledger_exact:
  assumes "length heap < 2 ^ 32" and "max_bytes < 2 ^ 64" and "heap_steps hasher (Machine_new heap max_slots max_bytes roots jobs) m"
  shows "mc_heap_bytes m = mc_machine_bytes m + sum_list (mc_slot_bytes m) \<and> mc_heap_bytes m \<le> max_bytes \<and>
    mc_vacant_count m = length (filter is_vacant (drop (mc_intrinsic_slots m) (mc_heap m))) \<and>
    live_runtime_slots m \<le> max_slots \<and> length (mc_slot_bytes m) = length (mc_heap m)"
proof -
  from heap_steps_ledger [OF assms(3) Machine_new_ledger [OF assms(1,2)]] have "ledger_ok m" and
    "limits m = limits (Machine_new heap max_slots max_bytes roots jobs)" by simp_all
  then show ?thesis using ledger_okD [of m] by (simp add: vacant_slots_def limits_def Machine_new_def)
qed

theorem heap_ledger_exact_witness:
  "\<exists>v m. allocate (Entry_Object [] None None) (Machine_new [] 4 100 sample_roots sample_jobs) = Ok (v, m) \<and>
     mc_heap_bytes m = sum_list (mc_slot_bytes m) \<and> mc_heap_bytes m \<le> 100 \<and> live_runtime_slots m = 1"
proof -
  let ?m = "Machine_new [] 4 100 sample_roots sample_jobs"
  have ok: "ledger_ok ?m" by (rule Machine_new_ledger) simp_all
  obtain v m where m: "allocate (Entry_Object [] None None) ?m = Ok (v, m)" and live: "live_runtime_slots m = 1" "mc_machine_bytes m = 0"
  proof -
    have "initial_bytes (Entry_Object [] None None) \<le> 100" by (simp add: initial_bytes_def map_charge_bytes_def sat_add_def u64_saturating_def)
    then have "\<exists>m. allocate (Entry_Object [] None None) ?m = Ok (slot_ref 0, m) \<and> live_runtime_slots m = 1 \<and> mc_machine_bytes m = 0"
      unfolding allocate_eq [OF ok] by (auto simp: Machine_new_def live_runtime_slots_def)
    then show ?thesis using that by blast
  qed
  have "heap_steps (\<lambda>_. 0) ?m m" using m by (intro steps_step [OF steps_refl] step_allocate) (simp_all add: is_vacant_def)
  from heap_ledger_exact [OF _ _ this] m live show ?thesis by auto
qed

text \<open>
  Refunding what was charged to a slot restores the ledger exactly, the credits of start-up objects included:
  whatever part of a charge the credit of an intrinsic slot paid returns to that credit.
\<close>

theorem refund_undoes_charge:
  assumes "ledger_ok m" and "credits_exclusive m" and "i < length (mc_heap m)" and "charge_slot i bytes m = Ok m'"
  shows "refund_slot i bytes m' = Ok (m\<lparr>mc_gc := mc_gc m'\<rparr>)"
  using charge_then_refund [OF assms(1,3,2,4)] .

theorem refund_undoes_charge_witness:
  "\<exists>m'. charge_slot 0 8 sample_machine = Ok m' \<and> mc_heap_bytes m' = 21 \<and>
     refund_slot 0 8 m' = Ok (sample_machine\<lparr>mc_gc := mc_gc m'\<rparr>)"
proof -
  have i: "0 < length (mc_heap sample_machine)" and ex: "credits_exclusive sample_machine"
    by (simp_all add: sample_machine_def credits_exclusive_def)
  have "\<exists>m'. charge_slot 0 8 sample_machine = Ok m' \<and> mc_heap_bytes m' = 21"
    unfolding charge_slot_eq [OF sample_ok(1) i]
    by (auto simp: charged_slot_def charge_due_def credit_of_def slice_get_def sample_machine_def)
  then show ?thesis using refund_undoes_charge [OF sample_ok(1) ex i] by blast
qed

end
