(* ===== verification/Keyed_Collections.thy ===== *)
theory Keyed_Collections
  imports Gc_Safety
begin

text \<open>
  The keyed collections of the runtime (\<^verbatim>\<open>src/crates/bamts-runtime/src/builtins/collections.rs\<close>,
  \<^verbatim>\<open>map_set_edge.rs\<close> and the storage half of \<^verbatim>\<open>set_methods.rs\<close>): insertion-ordered entries with
  tombstones, found through a hash index, with the bytes of each entry charged to the ledger.
\<close>

section \<open>Failures\<close>

datatype EvalFailure =
    Fail_Throw ThrowOrigin
  | Fail_ThrowValue Value
  | Fail_Runtime RuntimeErrorKind
  | Fail_ThrowValueOrigin Value ThrowOrigin

definition type_error :: "string \<Rightarrow> EvalFailure" where
  "type_error operation = Fail_Throw (Origin_TypeError operation)"

section \<open>A collection in its slot\<close>

record CollectionData =
  co_kind :: CollectionKind
  co_entries :: "CollectionEntry list"
  co_index :: CollectionIndex
  co_size :: usize
  co_next_order :: u64
  co_properties :: PropertyMap
  co_prototype :: "Value option"

definition collection_of :: "HeapEntry \<Rightarrow> CollectionData option" where
  "collection_of e =
    (case e of
       Entry_Collection kind es index count next_order ps prototype \<Rightarrow>
         Some \<lparr>co_kind = kind, co_entries = es, co_index = index, co_size = count, co_next_order = next_order,
               co_properties = ps, co_prototype = prototype\<rparr>
     | _ \<Rightarrow> None)"

definition collection_entry :: "CollectionData \<Rightarrow> HeapEntry" where
  "collection_entry c =
    Entry_Collection (co_kind c) (co_entries c) (co_index c) (co_size c) (co_next_order c) (co_properties c) (co_prototype c)"

text \<open>The pattern \<open>let HeapEntry::Collection { .. } = machine.heap[slot] else { unreachable!() }\<close>.\<close>

definition with_collection :: "Machine \<Rightarrow> usize \<Rightarrow> (CollectionData \<Rightarrow> ('a, 'e) result) \<Rightarrow> ('a, 'e) result" where
  "with_collection m slot f =
    bind_result (slice_index (mc_heap m) slot) (\<lambda>e. case collection_of e of None \<Rightarrow> Panic | Some c \<Rightarrow> f c)"

definition store_collection :: "usize \<Rightarrow> CollectionData \<Rightarrow> Machine \<Rightarrow> Machine" where
  "store_collection slot c m = m\<lparr>mc_heap := (mc_heap m)[slot := collection_entry c]\<rparr>"

definition u64_checked_add :: "u64 \<Rightarrow> u64 \<Rightarrow> u64 option" where
  "u64_checked_add a b = (if unat a + unat b < 2 ^ 64 then Some (a + b) else None)"

definition first_arg :: "Value list \<Rightarrow> Value" where
  "first_arg args = (case slice_get args 0 of None \<Rightarrow> Value_UNDEFINED | Some v \<Rightarrow> v)"

definition second_arg :: "Value list \<Rightarrow> Value" where
  "second_arg args = (case slice_get args 1 of None \<Rightarrow> Value_UNDEFINED | Some v \<Rightarrow> v)"

section \<open>Receivers and keys\<close>

definition collection_slot :: "Machine \<Rightarrow> Value \<Rightarrow> CollectionKind \<Rightarrow> (usize, EvalFailure) result" where
  "collection_slot m object expected =
    bind_result (map_err Fail_Runtime (runtime_slot m object)) (\<lambda>slot.
      case slot of
        None \<Rightarrow> Err (type_error ''collection method called on incompatible receiver'')
      | Some index \<Rightarrow>
          bind_result (slice_index (mc_heap m) index) (\<lambda>e.
            case collection_of e of
              None \<Rightarrow> Err (type_error ''collection method called on incompatible receiver'')
            | Some c \<Rightarrow>
                if co_kind c = expected then Ok index
                else Err (type_error ''collection method called on incompatible receiver'')))"

definition weak_key_entry :: "Machine \<Rightarrow> Value \<Rightarrow> HeapEntry \<Rightarrow> bool" where
  "weak_key_entry m key e =
    (case e of
       Entry_Symbol description \<Rightarrow> map_of (mc_symbol_registry m) description \<noteq> Some key
     | Entry_Vacant \<Rightarrow> False
     | Entry_String s \<Rightarrow> False
     | Entry_BigInt s \<Rightarrow> False
     | Entry_PrivateName s \<Rightarrow> False
     | Entry_Iterator s \<Rightarrow> False
     | Entry_PromiseResolver v used \<Rightarrow> False
     | Entry_PromiseAll v w vs remaining settled \<Rightarrow> False
     | Entry_PromiseAllElement v i called \<Rightarrow> False
     | Entry_AsyncActivation a v r \<Rightarrow> False
     | _ \<Rightarrow> True)"

definition require_weak_key :: "Machine \<Rightarrow> Value \<Rightarrow> (unit, EvalFailure) result" where
  "require_weak_key m key =
    bind_result (map_err Fail_Runtime (runtime_slot m key)) (\<lambda>slot.
      case slot of
        None \<Rightarrow> Err (type_error ''Invalid value used as weak collection key'')
      | Some index \<Rightarrow>
          bind_result (slice_index (mc_heap m) index) (\<lambda>e.
            if weak_key_entry m key e then Ok ()
            else Err (type_error ''Invalid value used as weak collection key'')))"

text \<open>The key \<open>-0\<close> is stored as \<open>+0\<close>.\<close>

definition f64_is_sign_negative :: "f64_bits \<Rightarrow> bool" where
  "f64_is_sign_negative x \<longleftrightarrow> x AND 0x8000000000000000 \<noteq> 0"

definition canonical_collection_key :: "Value \<Rightarrow> Value" where
  "canonical_collection_key v =
    (case Value_decode v of
       Some (Dec_Number x) \<Rightarrow> if f64_is_zero x \<and> f64_is_sign_negative x then Value_number 0 else v
     | _ \<Rightarrow> v)"

definition canonicalize_key :: "Value \<Rightarrow> Value" where
  "canonicalize_key v =
    (case Value_decode v of
       Some (Dec_Number x) \<Rightarrow> if f64_is_zero x then Value_number 0 else v
     | _ \<Rightarrow> v)"

section \<open>Storing entries\<close>

definition ENTRY_CHARGE :: usize where
  "ENTRY_CHARGE = CollectionEntry_BYTES + CollectionIndex_ENTRY_BYTES"

definition compact_collection :: "(hash_input \<Rightarrow> u64) \<Rightarrow> usize \<Rightarrow> Machine \<Rightarrow> (Machine, EvalFailure) result" where
  "compact_collection hasher slot m =
    with_collection m slot (\<lambda>c.
      let retained = filter ce_live (co_entries c);
          rebuilt = rebuild_index hasher m retained
      in Ok (store_collection slot (c\<lparr>co_entries := retained, co_index := rebuilt\<rparr>) m))"

definition append_collection_entry ::
  "(hash_input \<Rightarrow> u64) \<Rightarrow> usize \<Rightarrow> Value \<Rightarrow> Value \<Rightarrow> Machine \<Rightarrow> (Machine, EvalFailure) result" where
  "append_collection_entry hasher slot key v m =
    with_collection m slot (\<lambda>c.
      let order = co_next_order c
      in bind_result (expect (u64_checked_add order 1)) (\<lambda>next_order.
         let hash = collection_key_hash hasher m key
         in bind_result (map_err Fail_Runtime (charge_slot slot ENTRY_CHARGE m)) (\<lambda>m.
            with_collection m slot (\<lambda>c.
              let es = co_entries c @ [\<lparr>ce_order = order, ce_key = key, ce_value = v, ce_live = True\<rparr>];
                  index = index_insert hash (length es - 1) (co_index c)
              in bind_result (usize_add (co_size c) 1) (\<lambda>count.
                 let m = store_collection slot (c\<lparr>co_entries := es, co_index := index, co_size := count, co_next_order := next_order\<rparr>) m
                 in if length es > sat_mul count 2 then compact_collection hasher slot m else Ok m)))))"

definition store_value :: "usize \<Rightarrow> usize \<Rightarrow> Value \<Rightarrow> Machine \<Rightarrow> (Machine, EvalFailure) result" where
  "store_value slot i v m =
    with_collection m slot (\<lambda>c.
      bind_result (slice_index (co_entries c) i) (\<lambda>e.
        Ok (store_collection slot (c\<lparr>co_entries := (co_entries c)[i := e\<lparr>ce_value := v\<rparr>]\<rparr>) m)))"

definition map_put ::
  "(hash_input \<Rightarrow> u64) \<Rightarrow> Value \<Rightarrow> Value \<Rightarrow> Value \<Rightarrow> CollectionKind \<Rightarrow> Machine \<Rightarrow> (Machine, EvalFailure) result" where
  "map_put hasher object key v expected m =
    bind_result (collection_slot m object expected) (\<lambda>slot.
      with_collection m slot (\<lambda>c.
        case index_get hasher m (co_index c) (co_entries c) key of
          Some i \<Rightarrow> store_value slot i v m
        | None \<Rightarrow> append_collection_entry hasher slot key v m))"

definition set_put ::
  "(hash_input \<Rightarrow> u64) \<Rightarrow> Value \<Rightarrow> Value \<Rightarrow> CollectionKind \<Rightarrow> Machine \<Rightarrow> (Machine, EvalFailure) result" where
  "set_put hasher object v expected m =
    bind_result (collection_slot m object expected) (\<lambda>slot.
      with_collection m slot (\<lambda>c.
        if index_get hasher m (co_index c) (co_entries c) v \<noteq> None then Ok m
        else append_collection_entry hasher slot v v m))"

text \<open>The methods \<open>Map.prototype.set\<close> and \<open>Set.prototype.add\<close>, which look for the key by scanning the entries.\<close>

definition iter_position :: "('a \<Rightarrow> bool) \<Rightarrow> 'a list \<Rightarrow> usize option" where
  "iter_position p xs = find (\<lambda>i. p (xs ! i)) [0..<length xs]"

definition put_strong_entry ::
  "(hash_input \<Rightarrow> u64) \<Rightarrow> Value \<Rightarrow> Value \<Rightarrow> Value \<Rightarrow> CollectionKind \<Rightarrow> Machine \<Rightarrow> (Machine, EvalFailure) result" where
  "put_strong_entry hasher object key v expected m =
    bind_result (collection_slot m object expected) (\<lambda>slot.
      with_collection m slot (\<lambda>c.
        case iter_position (key_matches m key) (co_entries c) of
          Some i \<Rightarrow> store_value slot i v m
        | None \<Rightarrow> append_collection_entry hasher slot key v m))"

definition strong_map_set ::
  "(hash_input \<Rightarrow> u64) \<Rightarrow> Value \<Rightarrow> Value list \<Rightarrow> Machine \<Rightarrow> (Value \<times> Machine, EvalFailure) result" where
  "strong_map_set hasher this args m =
    (let key = canonical_collection_key (first_arg args); v = second_arg args
     in bind_result (put_strong_entry hasher this key v Kind_Map m) (\<lambda>m. Ok (this, m)))"

definition strong_set_add ::
  "(hash_input \<Rightarrow> u64) \<Rightarrow> Value \<Rightarrow> Value list \<Rightarrow> Machine \<Rightarrow> (Value \<times> Machine, EvalFailure) result" where
  "strong_set_add hasher this args m =
    (let v = canonical_collection_key (first_arg args)
     in bind_result (put_strong_entry hasher this v v Kind_Set m) (\<lambda>m. Ok (this, m)))"

definition weak_map_set ::
  "(hash_input \<Rightarrow> u64) \<Rightarrow> Value \<Rightarrow> Value list \<Rightarrow> Machine \<Rightarrow> (Value \<times> Machine, EvalFailure) result" where
  "weak_map_set hasher this args m =
    bind_result (collection_slot m this Kind_WeakMap) (\<lambda>_.
      let key = first_arg args
      in bind_result (require_weak_key m key) (\<lambda>_.
         bind_result (map_put hasher this key (second_arg args) Kind_WeakMap m) (\<lambda>m. Ok (this, m))))"

definition weak_set_add ::
  "(hash_input \<Rightarrow> u64) \<Rightarrow> Value \<Rightarrow> Value list \<Rightarrow> Machine \<Rightarrow> (Value \<times> Machine, EvalFailure) result" where
  "weak_set_add hasher this args m =
    bind_result (collection_slot m this Kind_WeakSet) (\<lambda>_.
      let v = first_arg args
      in bind_result (require_weak_key m v) (\<lambda>_.
         bind_result (set_put hasher this v Kind_WeakSet m) (\<lambda>m. Ok (this, m))))"

section \<open>Looking up and removing\<close>

definition map_get_for :: "(hash_input \<Rightarrow> u64) \<Rightarrow> Value \<Rightarrow> Value list \<Rightarrow> CollectionKind \<Rightarrow> Machine \<Rightarrow> (Value, EvalFailure) result" where
  "map_get_for hasher this args expected m =
    bind_result (collection_slot m this expected) (\<lambda>slot.
      let key = first_arg args
      in with_collection m slot (\<lambda>c.
           case index_get hasher m (co_index c) (co_entries c) key of
             None \<Rightarrow> Ok Value_UNDEFINED
           | Some i \<Rightarrow> bind_result (slice_index (co_entries c) i) (\<lambda>e. Ok (ce_value e))))"

definition map_has_for :: "(hash_input \<Rightarrow> u64) \<Rightarrow> Value \<Rightarrow> Value list \<Rightarrow> CollectionKind \<Rightarrow> Machine \<Rightarrow> (Value, EvalFailure) result" where
  "map_has_for hasher this args expected m =
    bind_result (collection_slot m this expected) (\<lambda>slot.
      let key = first_arg args
      in with_collection m slot (\<lambda>c.
           Ok (Value_boolean (index_get hasher m (co_index c) (co_entries c) key \<noteq> None))))"

definition prune_bucket :: "u64 \<Rightarrow> usize \<Rightarrow> CollectionIndex \<Rightarrow> CollectionIndex" where
  "prune_bucket hash i index =
    (case index hash of
       None \<Rightarrow> index
     | Some bucket \<Rightarrow>
         let bucket = filter (\<lambda>j. j \<noteq> i) bucket
         in if bucket = [] then index(hash := None) else index(hash \<mapsto> bucket))"

definition map_delete_for ::
  "(hash_input \<Rightarrow> u64) \<Rightarrow> Value \<Rightarrow> Value list \<Rightarrow> CollectionKind \<Rightarrow> Machine \<Rightarrow> (Value \<times> Machine, EvalFailure) result" where
  "map_delete_for hasher this args expected m =
    bind_result (collection_slot m this expected) (\<lambda>slot.
      let key = first_arg args
      in with_collection m slot (\<lambda>c.
           case index_get hasher m (co_index c) (co_entries c) key of
             None \<Rightarrow> Ok (Value_boolean False, m)
           | Some i \<Rightarrow>
               bind_result (slice_index (co_entries c) i) (\<lambda>e.
               bind_result (usize_sub (co_size c) 1) (\<lambda>count.
                 let m = store_collection slot (c\<lparr>co_entries := (co_entries c)[i := e\<lparr>ce_live := False\<rparr>], co_size := count\<rparr>) m;
                     hash = collection_key_hash hasher m (ce_key e)
                 in with_collection m slot (\<lambda>c.
                    let m = store_collection slot (c\<lparr>co_index := prune_bucket hash i (co_index c)\<rparr>) m
                    in bind_result (map_err Fail_Runtime (refund_slot slot ENTRY_CHARGE m)) (\<lambda>m.
                         Ok (Value_boolean True, m)))))))"

definition collection_clear :: "Value \<Rightarrow> CollectionKind \<Rightarrow> Machine \<Rightarrow> (Value \<times> Machine, EvalFailure) result" where
  "collection_clear this expected m =
    bind_result (collection_slot m this expected) (\<lambda>slot.
      with_collection m slot (\<lambda>c.
        let removed = co_size c;
            m = store_collection slot (c\<lparr>co_entries := [], co_index := Map.empty, co_size := 0\<rparr>) m
        in bind_result (usize_mul removed ENTRY_CHARGE) (\<lambda>bytes.
           bind_result (map_err Fail_Runtime (refund_slot slot bytes m)) (\<lambda>m. Ok (Value_UNDEFINED, m)))))"

section \<open>Iteration\<close>

text \<open>
  \<open>partition_point\<close> of the standard library, on entries sorted by \<open>order\<close>; a debug build asserts the
  order first.
\<close>

definition partition_point :: "('a \<Rightarrow> bool) \<Rightarrow> 'a list \<Rightarrow> usize" where
  "partition_point p xs = length (takeWhile p xs)"

definition orders_ascend :: "CollectionEntry list \<Rightarrow> bool" where
  "orders_ascend es \<longleftrightarrow> sorted (map ce_order es)"

definition next_live :: "CollectionEntry list \<Rightarrow> u64 \<Rightarrow> ((u64 \<times> Value \<times> Value) option, EvalFailure) result" where
  "next_live es cursor =
    (case find ce_live (drop (partition_point (\<lambda>e. ce_order e < cursor) es) es) of
       None \<Rightarrow> Ok None
     | Some e \<Rightarrow> bind_result (expect (u64_checked_add (ce_order e) 1)) (\<lambda>next. Ok (Some (next, ce_key e, ce_value e))))"

definition collection_next ::
  "Machine \<Rightarrow> Value \<Rightarrow> CollectionKind \<Rightarrow> u64 \<Rightarrow> ((u64 \<times> Value \<times> Value) option, EvalFailure) result" where
  "collection_next m object expected cursor =
    bind_result (collection_slot m object expected) (\<lambda>slot.
      with_collection m slot (\<lambda>c.
        if orders_ascend (co_entries c) then next_live (co_entries c) cursor else Panic))"

definition Collection_new :: "CollectionKind \<Rightarrow> Value \<Rightarrow> CollectionData" where
  "Collection_new kind prototype =
    \<lparr>co_kind = kind, co_entries = [], co_index = Map.empty, co_size = 0, co_next_order = 0, co_properties = [],
     co_prototype = Some prototype\<rparr>"

definition new_collection :: "Value \<Rightarrow> CollectionKind \<Rightarrow> Machine \<Rightarrow> (Value \<times> Machine, EvalFailure) result" where
  "new_collection prototype kind m = map_err Fail_Runtime (allocate (collection_entry (Collection_new kind prototype)) m)"

section \<open>The invariant\<close>

text \<open>
  A collection is kept in order: entries ascend by \<open>order\<close>, no two live entries have equal keys, the size counts the
  live entries and the index lists every live entry in the bucket of its key.
\<close>

definition bucket_of :: "CollectionIndex \<Rightarrow> u64 \<Rightarrow> usize list" where
  "bucket_of index hash = (case index hash of None \<Rightarrow> [] | Some bucket \<Rightarrow> bucket)"

definition before :: "Machine \<Rightarrow> CollectionEntry \<Rightarrow> CollectionEntry \<Rightarrow> bool" where
  "before m a b \<longleftrightarrow> ce_order a < ce_order b \<and> \<not> (ce_live a \<and> ce_live b \<and> same_value_zero m (ce_key a) (ce_key b))"

definition index_complete :: "(hash_input \<Rightarrow> u64) \<Rightarrow> Machine \<Rightarrow> CollectionEntry list \<Rightarrow> CollectionIndex \<Rightarrow> bool" where
  "index_complete hasher m es index \<longleftrightarrow>
     (\<forall>i < length es. ce_live (es ! i) \<longrightarrow> i \<in> set (bucket_of index (collection_key_hash hasher m (ce_key (es ! i)))))"

definition collection_ok :: "(hash_input \<Rightarrow> u64) \<Rightarrow> Machine \<Rightarrow> CollectionData \<Rightarrow> bool" where
  "collection_ok hasher m c \<longleftrightarrow>
     sorted_wrt (before m) (co_entries c) \<and> (\<forall>e \<in> set (co_entries c). ce_order e < co_next_order c) \<and>
     co_size c = length (filter ce_live (co_entries c)) \<and> index_complete hasher m (co_entries c) (co_index c)"

definition store_ok :: "(hash_input \<Rightarrow> u64) \<Rightarrow> Machine \<Rightarrow> bool" where
  "store_ok hasher m \<longleftrightarrow> ledger_ok m \<and> contents_charged m \<and>
     (\<forall>i < length (mc_heap m). \<forall>c. collection_of (mc_heap m ! i) = Some c \<longrightarrow> collection_ok hasher m c \<and> mc_intrinsic_slots m \<le> i)"

text \<open>What a collection stands for: an insertion-ordered dictionary.\<close>

definition dict_of :: "CollectionData \<Rightarrow> (Value \<times> Value) list" where
  "dict_of c = map (\<lambda>e. (ce_key e, ce_value e)) (filter ce_live (co_entries c))"

definition dict_get :: "Machine \<Rightarrow> (Value \<times> Value) list \<Rightarrow> Value \<Rightarrow> Value option" where
  "dict_get m d key = map_option snd (find (\<lambda>p. same_value_zero m (fst p) key) d)"

definition dict_put :: "Machine \<Rightarrow> (Value \<times> Value) list \<Rightarrow> Value \<Rightarrow> Value \<Rightarrow> (Value \<times> Value) list" where
  "dict_put m d key v =
    (if dict_get m d key = None then d @ [(key, v)]
     else map (\<lambda>p. if same_value_zero m (fst p) key then (fst p, v) else p) d)"

definition dict_delete :: "Machine \<Rightarrow> (Value \<times> Value) list \<Rightarrow> Value \<Rightarrow> (Value \<times> Value) list" where
  "dict_delete m d key = filter (\<lambda>p. \<not> same_value_zero m (fst p) key) d"

section \<open>Slots and buckets\<close>

lemma collection_of_iff: "collection_of e = Some c \<longleftrightarrow> e = collection_entry c"
  by (cases e) (auto simp: collection_of_def collection_entry_def)

lemma collection_of_entry [simp]: "collection_of (collection_entry c) = Some c"
  by (simp add: collection_of_iff)

lemma collection_entry_inject [simp]: "collection_entry c = collection_entry d \<longleftrightarrow> c = d"
  using collection_of_entry [of c] collection_of_entry [of d] by (metis option.inject)

lemma with_collection_eq:
  "slot < length (mc_heap m) \<Longrightarrow> mc_heap m ! slot = collection_entry c \<Longrightarrow> with_collection m slot f = f c"
  by (simp add: with_collection_def slice_index_def)

lemma store_collection_simps [simp]:
  "mc_heap (store_collection slot c m) = (mc_heap m)[slot := collection_entry c]"
  "mc_slot_bytes (store_collection slot c m) = mc_slot_bytes m"
  "mc_intrinsic_slots (store_collection slot c m) = mc_intrinsic_slots m"
  "mc_heap_bytes (store_collection slot c m) = mc_heap_bytes m"
  by (simp_all add: store_collection_def)

lemma limits_stored: "limits (store_collection slot c m) = limits m"
  by (simp add: store_collection_def limits_def)

lemma collection_entry_vacant [simp]: "\<not> is_vacant (collection_entry c)"
  by (simp add: collection_entry_def is_vacant_def)

lemma collection_entry_text [simp]: "entry_text (collection_entry c) = None"
  by (simp add: collection_entry_def entry_text_def)

lemma same_value_zero_hash: "same_value_zero m a b \<Longrightarrow> collection_key_hash hasher m a = collection_key_hash hasher m b"
  by (simp add: same_value_zero_iff collection_key_hash_def)

lemma bucket_of_insert:
  "bucket_of (index_insert hash i index) h = bucket_of index h @ (if h = hash then [i] else [])"
  by (simp add: bucket_of_def index_insert_def)

lemma bucket_of_prune: "bucket_of (prune_bucket hash i index) h = (if h = hash then filter (\<lambda>j. j \<noteq> i) (bucket_of index h) else bucket_of index h)"
  by (auto simp: bucket_of_def prune_bucket_def Let_def split: option.split)

lemma bucket_of_rebuild_from:
  "set (bucket_of (fold (\<lambda>(i, e). index_insert (collection_key_hash hasher m (ce_key e)) i) (enumerate n es) index) h) =
   set (bucket_of index h) \<union> {n + i | i. i < length es \<and> collection_key_hash hasher m (ce_key (es ! i)) = h}"
proof (induction es arbitrary: n index)
  case (Cons e es)
  have split: "{n + i | i. i < length (e # es) \<and> collection_key_hash hasher m (ce_key ((e # es) ! i)) = h} =
      (if collection_key_hash hasher m (ce_key e) = h then {n} else {}) \<union>
      {Suc n + i | i. i < length es \<and> collection_key_hash hasher m (ce_key (es ! i)) = h}"
    by (auto simp: less_Suc_eq_0_disj)
  show ?case unfolding split by (simp add: Cons.IH bucket_of_insert)
qed simp

lemma rebuilt_complete: "index_complete hasher m es (rebuild_index hasher m es)"
  using bucket_of_rebuild_from [of hasher m 0 es Map.empty] by (simp add: index_complete_def rebuild_index_def)

section \<open>The index finds what a scan finds\<close>

lemma find_only:
  assumes "\<And>j. j \<in> set xs \<Longrightarrow> p j \<Longrightarrow> j = i"
  shows "find p xs = (if i \<in> set xs \<and> p i then Some i else None)"
  using assms by (induction xs) auto

lemma live_keys_unique:
  assumes "sorted_wrt (before m) es" and "i < length es" "j < length es" "key_matches m key (es ! i)" "key_matches m key (es ! j)"
  shows "i = j"
proof (rule ccontr)
  have "same_value_zero m (ce_key (es ! i)) (ce_key (es ! j))" and "ce_live (es ! i)" "ce_live (es ! j)"
    using assms(4,5) by (simp_all add: key_matches_def same_value_zero_iff)
  moreover assume "i \<noteq> j"
  then have "before m (es ! i) (es ! j) \<or> before m (es ! j) (es ! i)"
    using assms(1-3) by (metis linorder_neqE_nat sorted_wrt_nth_less)
  ultimately show False by (auto simp: before_def same_value_zero_iff)
qed

lemma index_get_position:
  assumes "sorted_wrt (before m) es" and "index_complete hasher m es index"
  shows "index_get hasher m index es key = iter_position (key_matches m key) es"
proof (cases "\<exists>i < length es. key_matches m key (es ! i)")
  case True
  then obtain i where i: "i < length es" "key_matches m key (es ! i)" by blast
  let ?hit = "\<lambda>i. case slice_get es i of None \<Rightarrow> False | Some e \<Rightarrow> key_matches m key e"
  have "i \<in> set (bucket_of index (collection_key_hash hasher m key))"
    using assms(2) i same_value_zero_hash by (auto simp: index_complete_def key_matches_def)
  moreover have "find ?hit (bucket_of index (collection_key_hash hasher m key)) =
      (if i \<in> set (bucket_of index (collection_key_hash hasher m key)) \<and> ?hit i then Some i else None)"
    using live_keys_unique [OF assms(1)] i by (intro find_only) (auto simp: slice_get_def split: if_splits)
  moreover have "index_get hasher m index es key = find ?hit (bucket_of index (collection_key_hash hasher m key))"
    by (simp add: index_get_def bucket_of_def split: option.split)
  moreover have "iter_position (key_matches m key) es = Some i"
    using find_only [of "[0..<length es]" "\<lambda>i. key_matches m key (es ! i)" i] live_keys_unique [OF assms(1)] i
    by (auto simp: iter_position_def)
  ultimately show ?thesis using i by (simp add: slice_get_def)
next
  case False
  then have "iter_position (key_matches m key) es = None" by (auto simp: iter_position_def find_None_iff)
  moreover have "index_get hasher m index es key = None"
    using False by (auto simp: index_get_def find_None_iff slice_get_def split: option.splits if_splits)
  ultimately show ?thesis by simp
qed

lemma position_Some:
  assumes "iter_position p xs = Some i"
  shows "i < length xs" "p (xs ! i)" "\<forall>j < i. \<not> p (xs ! j)"
  using assms by (auto simp: iter_position_def find_Some_iff)

lemma position_None: "iter_position p xs = None \<longleftrightarrow> (\<forall>x \<in> set xs. \<not> p x)"
  by (auto simp: iter_position_def find_None_iff all_set_conv_all_nth)

section \<open>Dictionary operations on the entries\<close>

lemma dict_get_position:
  "dict_get m (dict_of c) key = map_option (\<lambda>i. ce_value (co_entries c ! i)) (iter_position (key_matches m key) (co_entries c))"
proof -
  have "map_option snd (find (\<lambda>p. same_value_zero m (fst p) key) (map (\<lambda>e. (ce_key e, ce_value e)) (filter ce_live es))) =
      map_option ce_value (find (key_matches m key) es)" for es
    by (induction es) (auto simp: key_matches_def)
  moreover have "find (key_matches m key) es = map_option (\<lambda>i. es ! i) (iter_position (key_matches m key) es)" for es
  proof (cases "iter_position (key_matches m key) es")
    case None
    then have "find (key_matches m key) es = None" by (simp add: position_None find_None_iff)
    with None show ?thesis by simp
  next
    case (Some i)
    then show ?thesis using position_Some [OF Some] by (auto simp: find_Some_iff)
  qed
  ultimately show ?thesis by (simp add: dict_get_def dict_of_def option.map_comp comp_def)
qed

lemma update_matching:
  assumes "sorted_wrt (before m) es" and "iter_position (key_matches m key) es = Some i"
  shows "es[i := f (es ! i)] = map (\<lambda>e. if key_matches m key e then f e else e) es"
  using position_Some [OF assms(2)] live_keys_unique [OF assms(1)] by (intro nth_equalityI) (auto simp: nth_list_update)

lemma dict_of_map:
  assumes "\<And>e. ce_key (g e) = ce_key e" and "\<And>e. ce_live (g e) \<Longrightarrow> ce_live e"
  shows "dict_of (c\<lparr>co_entries := map g (co_entries c), co_size := n, co_index := ix\<rparr>) =
    map (\<lambda>e. (ce_key e, ce_value (g e))) (filter (\<lambda>e. ce_live (g e)) (co_entries c))"
  using assms by (simp add: dict_of_def filter_map comp_def)

lemma dict_put_existing:
  assumes "sorted_wrt (before m) (co_entries c)" and "iter_position (key_matches m key) (co_entries c) = Some i"
  shows "dict_of (c\<lparr>co_entries := (co_entries c)[i := (co_entries c ! i)\<lparr>ce_value := v\<rparr>]\<rparr>) = dict_put m (dict_of c) key v"
proof -
  have "dict_get m (dict_of c) key \<noteq> None" using assms(2) by (simp add: dict_get_position)
  then show ?thesis unfolding update_matching [OF assms, of "\<lambda>e. e\<lparr>ce_value := v\<rparr>"]
    by (auto simp: dict_put_def dict_of_def filter_map comp_def key_matches_def if_distrib intro!: filter_cong map_cong)
qed

lemma dict_delete_existing:
  assumes "sorted_wrt (before m) (co_entries c)" and "iter_position (key_matches m key) (co_entries c) = Some i"
  shows "dict_of (c\<lparr>co_entries := (co_entries c)[i := (co_entries c ! i)\<lparr>ce_live := False\<rparr>]\<rparr>) = dict_delete m (dict_of c) key"
  unfolding update_matching [OF assms, of "\<lambda>e. e\<lparr>ce_live := False\<rparr>"]
  by (auto simp: dict_delete_def dict_of_def filter_map comp_def key_matches_def if_distrib intro!: filter_cong map_cong)

lemma dict_absent: "iter_position (key_matches m key) (co_entries c) = None \<Longrightarrow> dict_put m (dict_of c) key v = dict_of c @ [(key, v)]"
  by (simp add: dict_put_def dict_get_position)

lemma dict_delete_absent: "iter_position (key_matches m key) (co_entries c) = None \<Longrightarrow> dict_delete m (dict_of c) key = dict_of c"
  by (auto simp: dict_delete_def dict_of_def position_None key_matches_def intro!: filter_True)

section \<open>Preserving the invariant\<close>

lemma collection_ok_cong: "key_hash_input m' = key_hash_input m \<Longrightarrow> collection_ok hasher m' c = collection_ok hasher m c"
  by (simp add: collection_ok_def before_def [abs_def] index_complete_def same_value_zero_iff collection_key_hash_def)

lemma updated_entries_sorted:
  assumes "sorted_wrt (before m) es" and "i < length es" and "ce_key e = ce_key (es ! i)" and "ce_order e = ce_order (es ! i)"
    and "ce_live e \<Longrightarrow> ce_live (es ! i)"
  shows "sorted_wrt (before m) (es[i := e])"
  unfolding sorted_wrt_iff_nth_less
proof (intro allI impI)
  fix j k
  assume jk: "j < k" "k < length (es[i := e])"
  then have "before m (es ! j) (es ! k)" using assms(1) by (simp add: sorted_wrt_iff_nth_less)
  with jk assms(2-5) show "before m (es[i := e] ! j) (es[i := e] ! k)" by (auto simp: nth_list_update before_def)
qed

lemma updated_orders:
  "\<forall>e \<in> set es. ce_order e < n \<Longrightarrow> i < length es \<Longrightarrow> ce_order e' = ce_order (es ! i) \<Longrightarrow> \<forall>e \<in> set (es[i := e']). ce_order e < n"
  using set_update_subset_insert [of es i e'] by fastforce

lemma value_collection_ok:
  assumes "collection_ok hasher m c" and "i < length (co_entries c)"
  shows "collection_ok hasher m (c\<lparr>co_entries := (co_entries c)[i := (co_entries c ! i)\<lparr>ce_value := v\<rparr>]\<rparr>)"
proof -
  let ?es = "co_entries c" and ?e = "(co_entries c ! i)\<lparr>ce_value := v\<rparr>"
  have "map ce_live (?es[i := ?e]) = map ce_live ?es" using assms(2) by (simp add: map_update list_update_same_conv)
  moreover have "length (filter ce_live es) = length (filter (\<lambda>b. b) (map ce_live es))" for es by (simp add: filter_map comp_def)
  ultimately have "length (filter ce_live (?es[i := ?e])) = length (filter ce_live ?es)" by metis
  then show ?thesis using assms updated_entries_sorted [of m ?es i ?e] updated_orders [of ?es "co_next_order c" i ?e]
    by (auto simp: collection_ok_def index_complete_def nth_list_update)
qed

lemma filter_live_update:
  assumes "i < length es" and "ce_live (es ! i)" and "\<not> ce_live e"
  shows "Suc (length (filter ce_live (es[i := e]))) = length (filter ce_live es)"
proof -
  have "es = take i es @ es ! i # drop (Suc i) es" and "es[i := e] = take i es @ e # drop (Suc i) es"
    using assms(1) by (simp_all add: id_take_nth_drop upd_conv_take_nth_drop)
  then have "length (filter ce_live es) = length (filter ce_live (take i es)) + Suc (length (filter ce_live (drop (Suc i) es)))"
    and "length (filter ce_live (es[i := e])) = length (filter ce_live (take i es)) + length (filter ce_live (drop (Suc i) es))"
    using assms(2,3) by (metis filter.simps(2) filter_append length_Cons length_append, metis filter.simps(2) filter_append length_append)
  then show ?thesis by simp
qed

lemma deleted_collection_ok:
  assumes ok: "collection_ok hasher m c" and i: "i < length (co_entries c)" "ce_live (co_entries c ! i)"
  shows "collection_ok hasher m (c\<lparr>co_entries := (co_entries c)[i := (co_entries c ! i)\<lparr>ce_live := False\<rparr>], co_size := co_size c - 1,
      co_index := prune_bucket hash i (co_index c)\<rparr>)"
proof -
  let ?es = "co_entries c" and ?e = "(co_entries c ! i)\<lparr>ce_live := False\<rparr>"
  have "index_complete hasher m (?es[i := ?e]) (prune_bucket hash i (co_index c))"
    using ok i by (auto simp: collection_ok_def index_complete_def bucket_of_prune nth_list_update)
  then show ?thesis using ok i updated_entries_sorted [of m ?es i ?e] updated_orders [of ?es "co_next_order c" i ?e]
      filter_live_update [of i ?es ?e]
    by (auto simp: collection_ok_def)
qed

lemma compacted_collection_ok:
  assumes "collection_ok hasher m c"
  shows "collection_ok hasher m (c\<lparr>co_entries := filter ce_live (co_entries c), co_index := rebuild_index hasher m (filter ce_live (co_entries c))\<rparr>)"
  using assms rebuilt_complete by (auto simp: collection_ok_def sorted_wrt_filter)

lemma appended_collection_ok:
  assumes "collection_ok hasher m c" and "iter_position (key_matches m key) (co_entries c) = None" and "co_next_order c < n"
  shows "collection_ok hasher m (c\<lparr>co_entries := co_entries c @ [\<lparr>ce_order = co_next_order c, ce_key = key, ce_value = v, ce_live = True\<rparr>],
      co_index := index_insert (collection_key_hash hasher m key) (length (co_entries c)) (co_index c),
      co_size := co_size c + 1, co_next_order := n\<rparr>)"
  using assms
  by (auto simp: collection_ok_def sorted_wrt_append before_def position_None key_matches_def index_complete_def bucket_of_insert nth_append
      less_Suc_eq dest: order_less_trans)

section \<open>Operations of the machine\<close>

lemma store_okD:
  assumes "store_ok hasher m"
  shows "ledger_ok m" "contents_charged m"
    "i < length (mc_heap m) \<Longrightarrow> mc_heap m ! i = collection_entry c \<Longrightarrow> collection_ok hasher m c"
    "i < length (mc_heap m) \<Longrightarrow> mc_heap m ! i = collection_entry c \<Longrightarrow> mc_intrinsic_slots m \<le> i"
  using assms by (auto simp: store_ok_def collection_of_iff)

lemma held_bytes_collection: "held_bytes (collection_entry c) = co_size c * ENTRY_CHARGE"
  by (simp add: held_bytes_def collection_entry_def ENTRY_CHARGE_def)

lemma counts_collection: "counts_entries (collection_entry c) \<longleftrightarrow> co_size c = length (filter ce_live (co_entries c))"
  by (simp add: counts_entries_def collection_entry_def)

text \<open>A change of one collection that keeps its invariant and its charge keeps the invariant of the machine.\<close>

lemma replaced_hash:
  assumes "slot < length (mc_heap m)" and "mc_heap m ! slot = collection_entry c" and "mc_heap m' = (mc_heap m)[slot := collection_entry c']"
  shows "key_hash_input m' = key_hash_input m"
proof (rule same_texts_hash)
  show "same_texts m m'" using assms by (auto simp: same_texts_def present_def nth_list_update)
qed

lemma rebuild_replaced:
  assumes "slot < length (mc_heap m)" and "mc_heap m ! slot = collection_entry c" and "mc_heap m' = (mc_heap m)[slot := collection_entry c']"
  shows "rebuild_index hasher m' = rebuild_index hasher m"
  using replaced_hash [OF assms] by (simp add: rebuild_index_def collection_key_hash_def [abs_def] fun_eq_iff)

lemma replaced_store_ok:
  assumes ok: "store_ok hasher m" and slot: "slot < length (mc_heap m)" "mc_heap m ! slot = collection_entry c"
    and m': "ledger_ok m'" "mc_heap m' = (mc_heap m)[slot := collection_entry c']" "mc_intrinsic_slots m' = mc_intrinsic_slots m"
    and bytes: "mc_slot_bytes m' = (mc_slot_bytes m)[slot := b]" "co_size c' * ENTRY_CHARGE \<le> b"
    and c': "collection_ok hasher m c'"
  shows "store_ok hasher m'"
proof -
  have hash: "key_hash_input m' = key_hash_input m" by (rule replaced_hash [OF slot m'(2)])
  have len: "length (mc_slot_bytes m) = length (mc_heap m)" by (rule ledger_okD(1) [OF store_okD(1) [OF ok]])
  have own: "mc_intrinsic_slots m \<le> slot" by (rule store_okD(4) [OF ok slot])
  have "contents_charged m'"
    using store_okD(2) [OF ok] c' bytes(2) own slot(1)
    by (auto simp: contents_charged_def m' bytes(1) len nth_list_update held_bytes_collection counts_collection collection_ok_def)
  moreover have "collection_ok hasher m d \<and> mc_intrinsic_slots m \<le> i"
    if "i < length (mc_heap m)" "(mc_heap m)[slot := collection_entry c'] ! i = collection_entry d" for i d
    using that c' own store_okD(3,4) [OF ok, of i d] by (cases "i = slot") (auto simp: collection_of_iff [symmetric])
  ultimately show ?thesis using m' by (auto simp: store_ok_def collection_of_iff collection_ok_cong [OF hash])
qed

lemma entry_held:
  assumes "store_ok hasher m" and "slot < length (mc_heap m)" and "mc_heap m ! slot = collection_entry c"
  shows "co_size c * ENTRY_CHARGE \<le> mc_slot_bytes m ! slot" "co_size c * ENTRY_CHARGE < 2 ^ 64"
proof -
  show held: "co_size c * ENTRY_CHARGE \<le> mc_slot_bytes m ! slot"
    using store_okD(2) [OF assms(1)] assms(2,3) by (auto simp: contents_charged_def simp flip: held_bytes_collection)
  note ok = store_okD(1) [OF assms(1)]
  show "co_size c * ENTRY_CHARGE < 2 ^ 64"
    using held slot_charge_le [OF ok assms(2)] ledger_okD(8,9) [OF ok] by linarith
qed

text \<open>Storing a collection of the same size leaves the ledger as it is; a refund gives back the bytes of removed entries.\<close>

lemma stored_ledger:
  "ledger_ok m \<Longrightarrow> mc_heap m ! slot = collection_entry c \<Longrightarrow> ledger_ok (store_collection slot c' m)"
  unfolding store_collection_def by (rule ledger_ok_heap_update) simp_all

lemma stored_store_ok:
  assumes ok: "store_ok hasher m" and slot: "slot < length (mc_heap m)" "mc_heap m ! slot = collection_entry c"
    and c': "collection_ok hasher m c'" "co_size c' \<le> co_size c"
  shows "store_ok hasher (store_collection slot c' m)"
proof (rule replaced_store_ok [OF ok slot stored_ledger [OF store_okD(1) [OF ok] slot(2)], where b = "mc_slot_bytes m ! slot"])
  have "co_size c' * ENTRY_CHARGE \<le> co_size c * ENTRY_CHARGE" using c'(2) by (rule mult_le_mono1)
  then show "co_size c' * ENTRY_CHARGE \<le> mc_slot_bytes m ! slot" using entry_held(1) [OF ok slot] by linarith
qed (simp_all add: c'(1))

lemma refund_entries:
  assumes ok: "store_ok hasher m" and slot: "slot < length (mc_heap m)" "mc_heap m ! slot = collection_entry c"
    and c': "collection_ok hasher m c'" "co_size c = co_size c' + k"
  shows "\<exists>m'. refund_slot slot (k * ENTRY_CHARGE) (store_collection slot c' m) = Ok m' \<and> store_ok hasher m' \<and>
    mc_heap m' = (mc_heap m)[slot := collection_entry c']"
proof -
  let ?m = "store_collection slot c' m"
  note ledger = stored_ledger [OF store_okD(1) [OF ok] slot(2), of c']
  have i: "slot < length (mc_heap ?m)" using slot(1) by simp
  have held: "co_size c' * ENTRY_CHARGE + k * ENTRY_CHARGE \<le> mc_slot_bytes m ! slot"
    using entry_held(1) [OF ok slot] c'(2) by (simp add: algebra_simps)
  moreover have own: "mc_intrinsic_slots m \<le> slot" by (rule store_okD(4) [OF ok slot])
  ultimately have able: "refundable slot (k * ENTRY_CHARGE) ?m" by (simp add: refundable_def)
  have "store_ok hasher (refunded_slot slot (k * ENTRY_CHARGE) ?m)"
  proof (rule replaced_store_ok [OF ok slot refunded_slot_ok [OF ledger i able], where b = "mc_slot_bytes m ! slot - k * ENTRY_CHARGE"])
    show "co_size c' * ENTRY_CHARGE \<le> mc_slot_bytes m ! slot - k * ENTRY_CHARGE" using held by linarith
  qed (use held c'(1) in \<open>simp_all add: refunded_slot_def Let_def min_def\<close>)
  then show ?thesis using able by (simp add: refund_slot_eq [OF ledger i] refunded_slot_def Let_def)
qed

text \<open>
  Appending an entry: the live entries get one more at the end, under the next order; the entries never exceed
  twice the live ones.
\<close>

definition appended :: "Value \<Rightarrow> Value \<Rightarrow> CollectionData \<Rightarrow> CollectionData \<Rightarrow> bool" where
  "appended key v c c' \<longleftrightarrow>
     filter ce_live (co_entries c') = filter ce_live (co_entries c) @ [\<lparr>ce_order = co_next_order c, ce_key = key, ce_value = v, ce_live = True\<rparr>] \<and>
     co_kind c' = co_kind c \<and> co_next_order c' = co_next_order c + 1 \<and> co_properties c' = co_properties c \<and>
     co_prototype c' = co_prototype c \<and> length (co_entries c') \<le> 2 * co_size c'"

lemma appended_dict: "appended key v c c' \<Longrightarrow> dict_of c' = dict_of c @ [(key, v)]"
  by (simp add: appended_def dict_of_def)

lemma charged_slot_simps [simp]:
  "mc_heap (charged_slot i b m) = mc_heap m"
  "mc_intrinsic_slots (charged_slot i b m) = mc_intrinsic_slots m"
  "mc_slot_bytes (charged_slot i b m) = (mc_slot_bytes m)[i := mc_slot_bytes m ! i + charge_due m i b]"
  by (simp_all add: charged_slot_def)

lemma charge_due_owned: "ledger_ok m \<Longrightarrow> mc_intrinsic_slots m \<le> i \<Longrightarrow> charge_due m i b = b"
  by (simp add: charge_due_def credit_of_other)

lemma append_fits:
  assumes ok: "store_ok hasher m" and slot: "slot < length (mc_heap m)" "mc_heap m ! slot = collection_entry c"
    and absent: "iter_position (key_matches m key) (co_entries c) = None" and order: "unat (co_next_order c) + 1 < 2 ^ 64"
    and room: "mc_heap_bytes m + ENTRY_CHARGE \<le> mc_max_heap_bytes m"
  shows "\<exists>m' c'. append_collection_entry hasher slot key v m = Ok m' \<and> store_ok hasher m' \<and>
    mc_heap m' = (mc_heap m)[slot := collection_entry c'] \<and> appended key v c c' \<and>
    mc_heap_bytes m' = mc_heap_bytes m + ENTRY_CHARGE \<and> limits m' = limits m"
proof -
  note ledger = store_okD(1) [OF ok]
  let ?m = "charged_slot slot ENTRY_CHARGE m" and ?h = "collection_key_hash hasher m key"
  let ?e = "\<lparr>ce_order = co_next_order c, ce_key = key, ce_value = v, ce_live = True\<rparr>"
  define c1 where "c1 = c\<lparr>co_entries := co_entries c @ [?e], co_index := index_insert ?h (length (co_entries c)) (co_index c),
    co_size := co_size c + 1, co_next_order := co_next_order c + 1\<rparr>"
  define c2 where "c2 = c1\<lparr>co_entries := filter ce_live (co_entries c1), co_index := rebuild_index hasher m (filter ce_live (co_entries c1))\<rparr>"
  define m1 where "m1 = store_collection slot c1 ?m"
  have due: "charge_due m slot ENTRY_CHARGE = ENTRY_CHARGE" by (rule charge_due_owned [OF ledger store_okD(4) [OF ok slot]])
  have charge: "charge_slot slot ENTRY_CHARGE m = Ok ?m" using room by (simp add: charge_slot_eq [OF ledger slot(1)] due)
  have ledger': "ledger_ok ?m" using room by (intro charged_slot_ok [OF ledger slot(1)]) (simp add: due)
  have held: "co_size c * ENTRY_CHARGE \<le> mc_slot_bytes m ! slot" "co_size c * ENTRY_CHARGE < 2 ^ 64"
    by (rule entry_held [OF ok slot])+
  then have count: "co_size c + 1 < 2 ^ 63" by (simp add: ENTRY_CHARGE_def CollectionEntry_BYTES_def CollectionIndex_ENTRY_BYTES_def)
  have next_order: "co_next_order c < co_next_order c + 1" "u64_checked_add (co_next_order c) 1 = Some (co_next_order c + 1)"
    using order by (simp_all add: u64_checked_add_def word_less_nat_alt unat_word_ariths)
  have c1_ok: "collection_ok hasher m c1" unfolding c1_def
    using appended_collection_ok [OF store_okD(3) [OF ok slot] absent next_order(1), of v] by simp
  have c2_ok: "collection_ok hasher m c2" unfolding c2_def by (rule compacted_collection_ok [OF c1_ok])
  have size: "co_size c1 = co_size c + 1" "co_size c2 = co_size c + 1" by (simp_all add: c1_def c2_def)
  have rebuild: "rebuild_index hasher m1 = rebuild_index hasher m"
    by (rule rebuild_replaced [OF slot]) (simp add: m1_def)
  have m1_slot: "slot < length (mc_heap m1)" "mc_heap m1 ! slot = collection_entry c1" using slot by (simp_all add: m1_def)
  have compact: "compact_collection hasher slot m1 = Ok (store_collection slot c2 m1)"
    by (simp add: compact_collection_def with_collection_eq [OF m1_slot] rebuild c2_def Let_def)
  have step: "append_collection_entry hasher slot key v m =
      (if length (co_entries c1) > 2 * co_size c1 then compact_collection hasher slot m1 else Ok m1)"
    using count slot
    by (simp add: append_collection_entry_def with_collection_eq [OF slot] with_collection_eq [of slot ?m c] Let_def next_order(2) expect_def
        charge usize_add_def usize_checked_add_def sat_mul_def u64_saturating_def c1_def m1_def mult.commute)
  have total: "mc_heap_bytes ?m = mc_heap_bytes m + ENTRY_CHARGE" "limits ?m = limits m"
    by (simp_all add: charged_slot_def due limits_def)
  have kept: "store_ok hasher (store_collection slot c' m2)" if "collection_ok hasher m c'" "co_size c' = co_size c + 1" "m2 = ?m \<or> m2 = m1" for c' m2
  proof (rule replaced_store_ok [OF ok slot, where b = "mc_slot_bytes m ! slot + ENTRY_CHARGE"])
    show "ledger_ok (store_collection slot c' m2)"
      using that(3) stored_ledger [OF ledger', of slot c] stored_ledger [of m1 slot c1 c'] m1_slot slot by (auto simp: m1_def)
  qed (use that held in \<open>auto simp: m1_def due\<close>)
  have "appended key v c c2" using c2_ok by (simp add: appended_def c2_def c1_def collection_ok_def)
  moreover have "appended key v c c1" if "\<not> length (co_entries c1) > 2 * co_size c1" using that by (simp add: appended_def c1_def)
  ultimately show ?thesis
    using kept [OF c2_ok size(2), of m1] kept [OF c1_ok size(1), of ?m] unfolding step compact
    by (cases "length (co_entries c1) > 2 * co_size c1") (auto simp: m1_def total limits_stored)
qed

lemma append_full:
  assumes "store_ok hasher m" and "slot < length (mc_heap m)" "mc_heap m ! slot = collection_entry c"
    and "unat (co_next_order c) + 1 < 2 ^ 64" and "mc_max_heap_bytes m < mc_heap_bytes m + ENTRY_CHARGE"
  shows "append_collection_entry hasher slot key v m = Err (Fail_Runtime (Error_HeapByteLimitExceeded (mc_max_heap_bytes m)))"
  using assms(4,5) charge_due_owned [OF store_okD(1) [OF assms(1)] store_okD(4) [OF assms(1-3)]]
  by (simp add: append_collection_entry_def with_collection_eq [OF assms(2,3)] u64_checked_add_def expect_def
      charge_slot_eq [OF store_okD(1) [OF assms(1)] assms(2)] Let_def)

section \<open>The operations are dictionary operations\<close>

text \<open>
  How a collection may change: entries keep their order and key, new ones come with fresh orders.
\<close>

definition evolves :: "CollectionData \<Rightarrow> CollectionData \<Rightarrow> bool" where
  "evolves c c' \<longleftrightarrow> co_kind c' = co_kind c \<and> co_next_order c \<le> co_next_order c' \<and>
     (\<forall>e' \<in> set (co_entries c'). ce_live e' \<longrightarrow>
        (\<exists>e \<in> set (co_entries c). ce_live e \<and> ce_order e = ce_order e' \<and> ce_key e = ce_key e') \<or> co_next_order c \<le> ce_order e')"

definition turned :: "(hash_input \<Rightarrow> u64) \<Rightarrow> usize \<Rightarrow> CollectionData \<Rightarrow> (Value \<times> Value) list \<Rightarrow> Machine \<Rightarrow> Machine \<Rightarrow> bool" where
  "turned hasher slot c d m m' \<longleftrightarrow> store_ok hasher m' \<and>
     (\<exists>c'. mc_heap m' = (mc_heap m)[slot := collection_entry c'] \<and> dict_of c' = d \<and> evolves c c')"

lemma turnedI:
  "store_ok hasher m' \<Longrightarrow> mc_heap m' = (mc_heap m)[slot := collection_entry c'] \<Longrightarrow> dict_of c' = d \<Longrightarrow> evolves c c' \<Longrightarrow> turned hasher slot c d m m'"
  by (auto simp: turned_def)

lemma evolves_refl: "evolves c c"
  by (auto simp: evolves_def)

lemma turned_refl: "store_ok hasher m \<Longrightarrow> mc_heap m ! slot = collection_entry c \<Longrightarrow> turned hasher slot c (dict_of c) m m"
  using list_update_id [of "mc_heap m" slot] by (intro turnedI [OF _ _ refl evolves_refl]) simp_all

lemma evolves_update:
  assumes "i < length (co_entries c)" and "ce_key e = ce_key (co_entries c ! i)" and "ce_order e = ce_order (co_entries c ! i)"
    and "ce_live e \<Longrightarrow> ce_live (co_entries c ! i)"
  shows "evolves c (c\<lparr>co_entries := (co_entries c)[i := e], co_size := n, co_index := ix\<rparr>)"
  using assms set_update_subset_insert [of "co_entries c" i e] nth_mem [of i "co_entries c"] by (fastforce simp: evolves_def)

lemma evolves_appended:
  assumes "appended key v c c'" and "unat (co_next_order c) + 1 < 2 ^ 64"
  shows "evolves c c'"
proof -
  have "co_next_order c \<le> co_next_order c + 1" using assms(2) by (simp add: word_le_nat_alt unat_word_ariths)
  moreover have "{e \<in> set (co_entries c'). ce_live e} =
      insert \<lparr>ce_order = co_next_order c, ce_key = key, ce_value = v, ce_live = True\<rparr> {e \<in> set (co_entries c). ce_live e}"
    using arg_cong [where f = set, OF assms(1) [unfolded appended_def, THEN conjunct1]] by simp
  then have "e' = \<lparr>ce_order = co_next_order c, ce_key = key, ce_value = v, ce_live = True\<rparr> \<or> e' \<in> set (co_entries c) \<and> ce_live e'"
    if "e' \<in> set (co_entries c')" "ce_live e'" for e' using that by blast
  ultimately show ?thesis using assms(1) by (fastforce simp: evolves_def appended_def)
qed

lemma collection_slot_iff:
  "collection_slot m this kind = Ok slot \<longleftrightarrow> runtime_index this = Some slot \<and> slot < length (mc_heap m) \<and>
    (\<exists>c. mc_heap m ! slot = collection_entry c \<and> co_kind c = kind)"
proof -
  have "runtime_slot m this = Ok (Some i) \<Longrightarrow> i < length (mc_heap m)" for i by (simp add: runtime_slot_iff present_def)
  then have "collection_slot m this kind = Ok slot \<longleftrightarrow> runtime_slot m this = Ok (Some slot) \<and>
      (\<exists>c. mc_heap m ! slot = collection_entry c \<and> co_kind c = kind)"
    by (cases "runtime_slot m this")
      (auto simp: collection_slot_def slice_index_def simp flip: collection_of_iff split: option.splits)
  then show ?thesis by (auto simp: runtime_slot_iff present_def)
qed

lemma collection_slotD:
  assumes "collection_slot m this kind = Ok slot" and "mc_heap m ! slot = collection_entry c"
  shows "slot < length (mc_heap m)" "co_kind c = kind"
  using assms by (auto simp: collection_slot_iff)

lemma index_get_ok:
  assumes "store_ok hasher m" and "slot < length (mc_heap m)" and "mc_heap m ! slot = collection_entry c"
  shows "index_get hasher m (co_index c) (co_entries c) key = iter_position (key_matches m key) (co_entries c)"
  using store_okD(3) [OF assms] by (intro index_get_position) (simp_all add: collection_ok_def)

lemma store_value_ok:
  assumes ok: "store_ok hasher m" and slot: "slot < length (mc_heap m)" "mc_heap m ! slot = collection_entry c"
    and i: "iter_position (key_matches m key) (co_entries c) = Some i"
  shows "\<exists>m'. store_value slot i v m = Ok m' \<and> turned hasher slot c (dict_put m (dict_of c) key v) m m'"
proof -
  let ?c = "c\<lparr>co_entries := (co_entries c)[i := (co_entries c ! i)\<lparr>ce_value := v\<rparr>]\<rparr>"
  note c_ok = store_okD(3) [OF ok slot] and i_less = position_Some(1) [OF i]
  have "store_ok hasher (store_collection slot ?c m)"
    by (rule stored_store_ok [OF ok slot value_collection_ok [OF c_ok i_less]]) simp
  moreover have "dict_of ?c = dict_put m (dict_of c) key v" using c_ok by (intro dict_put_existing [OF _ i]) (simp add: collection_ok_def)
  moreover have "evolves c ?c" using evolves_update [OF i_less, where e = "(co_entries c ! i)\<lparr>ce_value := v\<rparr>" and n = "co_size c" and ix = "co_index c"] by simp
  ultimately have "turned hasher slot c (dict_put m (dict_of c) key v) m (store_collection slot ?c m)" by (intro turnedI [where c' = ?c]) simp_all
  then show ?thesis using i_less by (simp add: store_value_def with_collection_eq [OF slot] slice_index_def)
qed

text \<open>The outcome of storing a value: the dictionary is updated, or the entry does not fit the heap and nothing happens.\<close>

definition put_outcome ::
  "(hash_input \<Rightarrow> u64) \<Rightarrow> usize \<Rightarrow> CollectionData \<Rightarrow> Value \<Rightarrow> (Value \<times> Value) list \<Rightarrow> Machine \<Rightarrow> (Machine, EvalFailure) result \<Rightarrow> bool" where
  "put_outcome hasher slot c key d m r \<longleftrightarrow>
    (if dict_get m (dict_of c) key = None \<and> mc_max_heap_bytes m < mc_heap_bytes m + ENTRY_CHARGE
     then r = Err (Fail_Runtime (Error_HeapByteLimitExceeded (mc_max_heap_bytes m)))
     else \<exists>m'. r = Ok m' \<and> turned hasher slot c d m m')"

lemma append_outcome:
  assumes "store_ok hasher m" and "slot < length (mc_heap m)" "mc_heap m ! slot = collection_entry c"
    and absent: "iter_position (key_matches m key) (co_entries c) = None" and order: "unat (co_next_order c) + 1 < 2 ^ 64"
  shows "put_outcome hasher slot c key (dict_put m (dict_of c) key v) m (append_collection_entry hasher slot key v m)"
proof (cases "mc_heap_bytes m + ENTRY_CHARGE \<le> mc_max_heap_bytes m")
  case True
  from append_fits [OF assms this, of v] obtain m' c' where m': "append_collection_entry hasher slot key v m = Ok m'" "store_ok hasher m'"
      "mc_heap m' = (mc_heap m)[slot := collection_entry c']" "appended key v c c'" by blast
  have "turned hasher slot c (dict_put m (dict_of c) key v) m m'"
    using appended_dict [OF m'(4)] evolves_appended [OF m'(4) order] dict_absent [OF absent] by (intro turnedI [OF m'(2,3)]) simp_all
  then show ?thesis using True m'(1) by (simp add: put_outcome_def)
next
  case False
  then show ?thesis using append_full [OF assms(1-3) order, of key v] dict_get_position [of m c key] absent by (simp add: put_outcome_def)
qed

lemma put_strong_refines:
  assumes ok: "store_ok hasher m" and recv: "collection_slot m this kind = Ok slot" "mc_heap m ! slot = collection_entry c"
    and order: "unat (co_next_order c) + 1 < 2 ^ 64"
  shows "put_outcome hasher slot c key (dict_put m (dict_of c) key v) m (put_strong_entry hasher this key v kind m)"
proof -
  note slot = collection_slotD(1) [OF recv] recv(2)
  have eq: "put_strong_entry hasher this key v kind m = (case iter_position (key_matches m key) (co_entries c) of
      Some i \<Rightarrow> store_value slot i v m | None \<Rightarrow> append_collection_entry hasher slot key v m)"
    by (simp add: put_strong_entry_def recv(1) with_collection_eq [OF slot])
  show ?thesis
  proof (cases "iter_position (key_matches m key) (co_entries c)")
    case None
    then show ?thesis using append_outcome [OF ok slot None order, of v] by (simp add: eq)
  next
    case (Some i)
    then show ?thesis using store_value_ok [OF ok slot Some, of v] dict_get_position [of m c key] by (simp add: eq put_outcome_def)
  qed
qed

lemma map_put_scans:
  assumes "store_ok hasher m"
  shows "map_put hasher this key v kind m = put_strong_entry hasher this key v kind m"
proof (cases "collection_slot m this kind")
  case (Ok slot)
  then obtain c where slot: "slot < length (mc_heap m)" "mc_heap m ! slot = collection_entry c" by (auto simp: collection_slot_iff)
  then show ?thesis by (simp add: map_put_def put_strong_entry_def Ok with_collection_eq index_get_ok [OF assms slot])
qed (simp_all add: map_put_def put_strong_entry_def)

lemma map_get_refines:
  assumes "store_ok hasher m" and recv: "collection_slot m this kind = Ok slot" "mc_heap m ! slot = collection_entry c"
  shows "map_get_for hasher this args kind m =
    Ok (case dict_get m (dict_of c) (first_arg args) of None \<Rightarrow> Value_UNDEFINED | Some v \<Rightarrow> v)"
proof -
  note slot = collection_slotD(1) [OF recv] recv(2)
  show ?thesis
    by (auto simp: map_get_for_def recv(1) with_collection_eq [OF slot] Let_def index_get_ok [OF assms(1) slot] dict_get_position
        slice_index_def dest: position_Some(1) split: option.split)
qed

lemma map_has_refines:
  assumes "store_ok hasher m" and recv: "collection_slot m this kind = Ok slot" "mc_heap m ! slot = collection_entry c"
  shows "map_has_for hasher this args kind m = Ok (Value_boolean (dict_get m (dict_of c) (first_arg args) \<noteq> None))"
proof -
  note slot = collection_slotD(1) [OF recv] recv(2)
  show ?thesis by (simp add: map_has_for_def recv(1) with_collection_eq [OF slot] index_get_ok [OF assms(1) slot] dict_get_position Let_def)
qed

lemma with_stored: "slot < length (mc_heap m) \<Longrightarrow> with_collection (store_collection slot c m) slot f = f c"
  by (simp add: with_collection_eq)

lemma store_collection_twice: "store_collection slot d (store_collection slot c m) = store_collection slot d m"
  by (simp add: store_collection_def)

lemma map_delete_refines:
  assumes ok: "store_ok hasher m" and recv: "collection_slot m this kind = Ok slot" "mc_heap m ! slot = collection_entry c"
  shows "\<exists>m'. map_delete_for hasher this args kind m = Ok (Value_boolean (dict_get m (dict_of c) (first_arg args) \<noteq> None), m') \<and>
    turned hasher slot c (dict_delete m (dict_of c) (first_arg args)) m m'"
proof (cases "iter_position (key_matches m (first_arg args)) (co_entries c)")
  case None
  note slot = collection_slotD(1) [OF recv] recv(2)
  from None show ?thesis using turned_refl [OF ok slot(2)] dict_delete_absent [OF None]
    by (simp add: map_delete_for_def recv(1) with_collection_eq [OF slot] index_get_ok [OF ok slot] dict_get_position)
next
  case (Some i)
  note slot = collection_slotD(1) [OF recv] recv(2) and c_ok = store_okD(3) [OF ok collection_slotD(1) [OF recv] recv(2)]
  let ?e = "co_entries c ! i"
  let ?c1 = "c\<lparr>co_entries := (co_entries c)[i := ?e\<lparr>ce_live := False\<rparr>], co_size := co_size c - 1\<rparr>"
  let ?hash = "collection_key_hash hasher (store_collection slot ?c1 m) (ce_key ?e)"
  let ?c2 = "?c1\<lparr>co_index := prune_bucket ?hash i (co_index c)\<rparr>"
  have i: "i < length (co_entries c)" "ce_live ?e" using position_Some(1,2) [OF Some] by (simp_all add: key_matches_def)
  then have "0 < length (filter ce_live (co_entries c))" using nth_mem by (fastforce simp: filter_empty_conv)
  then have size: "co_size c = co_size c - 1 + 1" using c_ok by (simp add: collection_ok_def)
  have ok2: "collection_ok hasher m ?c2" using deleted_collection_ok [OF c_ok i, of ?hash] by simp
  from refund_entries [OF ok slot ok2, of 1] size obtain m' where m': "refund_slot slot ENTRY_CHARGE (store_collection slot ?c2 m) = Ok m'"
      "store_ok hasher m'" "mc_heap m' = (mc_heap m)[slot := collection_entry ?c2]" by auto
  have "dict_of ?c2 = dict_delete m (dict_of c) (first_arg args)"
    using dict_delete_existing [OF _ Some] c_ok by (simp add: dict_of_def collection_ok_def)
  moreover have "evolves c ?c2"
    using evolves_update [OF i(1), where e = "?e\<lparr>ce_live := False\<rparr>" and n = "co_size c - 1"] by simp
  ultimately have "turned hasher slot c (dict_delete m (dict_of c) (first_arg args)) m m'" by (intro turnedI [OF m'(2,3)])
  moreover have "map_delete_for hasher this args kind m = Ok (Value_boolean True, m')"
    using Some i size slot m'(1)
    by (simp add: map_delete_for_def recv(1) with_collection_eq [OF slot] index_get_ok [OF ok slot] slice_index_def usize_sub_def Let_def
        with_stored store_collection_twice)
  ultimately show ?thesis using Some by (simp add: dict_get_position)
qed

lemma collection_clear_refines:
  assumes ok: "store_ok hasher m" and recv: "collection_slot m this kind = Ok slot" "mc_heap m ! slot = collection_entry c"
  shows "\<exists>m'. collection_clear this kind m = Ok (Value_UNDEFINED, m') \<and> turned hasher slot c [] m m'"
proof -
  note slot = collection_slotD(1) [OF recv] recv(2)
  let ?c = "c\<lparr>co_entries := [], co_index := Map.empty, co_size := 0\<rparr>"
  have "collection_ok hasher m ?c" by (simp add: collection_ok_def index_complete_def)
  from refund_entries [OF ok slot this, of "co_size c"] obtain m' where m': "refund_slot slot (co_size c * ENTRY_CHARGE) (store_collection slot ?c m) = Ok m'"
      "store_ok hasher m'" "mc_heap m' = (mc_heap m)[slot := collection_entry ?c]" by auto
  have "turned hasher slot c [] m m'" by (rule turnedI [OF m'(2,3)]) (simp_all add: dict_of_def evolves_def)
  then show ?thesis using m'(1) entry_held(2) [OF ok slot]
    by (simp add: collection_clear_def recv(1) with_collection_eq [OF slot] usize_mul_def Let_def)
qed

lemma set_put_refines:
  assumes ok: "store_ok hasher m" and recv: "collection_slot m this kind = Ok slot" "mc_heap m ! slot = collection_entry c"
    and order: "unat (co_next_order c) + 1 < 2 ^ 64"
  shows "put_outcome hasher slot c v (if dict_get m (dict_of c) v = None then dict_of c @ [(v, v)] else dict_of c) m (set_put hasher this v kind m)"
proof -
  note slot = collection_slotD(1) [OF recv] recv(2)
  have eq: "set_put hasher this v kind m = (case iter_position (key_matches m v) (co_entries c) of
      Some i \<Rightarrow> Ok m | None \<Rightarrow> append_collection_entry hasher slot v v m)"
    by (auto simp: set_put_def recv(1) with_collection_eq [OF slot] index_get_ok [OF ok slot] split: option.split)
  show ?thesis
  proof (cases "iter_position (key_matches m v) (co_entries c)")
    case None
    then show ?thesis using append_outcome [OF ok slot None order, of v] dict_absent [OF None] dict_get_position [of m c v] by (simp add: eq)
  next
    case (Some i)
    then show ?thesis using turned_refl [OF ok slot(2)] dict_get_position [of m c v] by (simp add: eq put_outcome_def)
  qed
qed

section \<open>Reading in insertion order\<close>

lemma dropWhile_orders:
  "sorted_wrt (before m) es \<Longrightarrow> dropWhile (\<lambda>e. ce_order e < cursor) es = filter (\<lambda>e. cursor \<le> ce_order e) es"
proof (induction es)
  case (Cons e es)
  then have "cursor \<le> ce_order e \<Longrightarrow> filter (\<lambda>e. cursor \<le> ce_order e) es = es"
    by (intro filter_True ballI) (auto simp: before_def dest: le_less_trans less_imp_le)
  with Cons show ?case by (cases "ce_order e < cursor") (auto simp: not_less)
qed simp

text \<open>The next entry is the first live one whose order has reached the cursor.\<close>

lemma next_live_eq:
  assumes "collection_ok hasher m c"
  shows "next_live (co_entries c) cursor =
    (case filter (\<lambda>e. ce_live e \<and> cursor \<le> ce_order e) (co_entries c) of
       [] \<Rightarrow> Ok None | e # es \<Rightarrow> Ok (Some (ce_order e + 1, ce_key e, ce_value e)))"
proof -
  let ?es = "co_entries c"
  let ?hits = "filter (\<lambda>e. ce_live e \<and> cursor \<le> ce_order e) ?es"
  have "drop (partition_point (\<lambda>e. ce_order e < cursor) ?es) ?es = filter (\<lambda>e. cursor \<le> ce_order e) ?es"
    using assms dropWhile_orders [of m ?es cursor] by (simp add: partition_point_def collection_ok_def dropWhile_eq_drop)
  moreover have "find ce_live (filter p xs) = (case filter (\<lambda>e. ce_live e \<and> p e) xs of [] \<Rightarrow> None | x # _ \<Rightarrow> Some x)" for p xs
    by (induction xs) auto
  from this [of "\<lambda>e. cursor \<le> ce_order e" ?es]
  have "find ce_live (filter (\<lambda>e. cursor \<le> ce_order e) ?es) = (case ?hits of [] \<Rightarrow> None | x # _ \<Rightarrow> Some x)" .
  moreover have "u64_checked_add (ce_order e) 1 = Some (ce_order e + 1)" if "?hits = e # es" for e es
  proof -
    from that have "e \<in> set ?es" by (auto dest: filter_eq_ConsD)
    then have "unat (ce_order e) < unat (co_next_order c)" using assms by (simp add: collection_ok_def word_less_nat_alt)
    moreover have "unat (co_next_order c) < 2 ^ 64" using unsigned_less [of "co_next_order c", where 'a = nat] by simp
    ultimately show ?thesis by (simp add: u64_checked_add_def)
  qed
  ultimately show ?thesis by (auto simp: next_live_def expect_def split: list.split)
qed

lemma ok_orders_ascend: "collection_ok hasher m c \<Longrightarrow> orders_ascend (co_entries c)"
  unfolding collection_ok_def orders_ascend_def sorted_map by (elim conjE sorted_wrt_mono_rel [rotated]) (simp add: before_def less_imp_le)

lemma collection_next_eq:
  assumes "store_ok hasher m" and recv: "collection_slot m this kind = Ok slot" "mc_heap m ! slot = collection_entry c"
  shows "collection_next m this kind cursor =
    (case filter (\<lambda>e. ce_live e \<and> cursor \<le> ce_order e) (co_entries c) of
       [] \<Rightarrow> Ok None | e # es \<Rightarrow> Ok (Some (ce_order e + 1, ce_key e, ce_value e)))"
proof -
  note slot = collection_slotD(1) [OF recv] recv(2)
  note c_ok = store_okD(3) [OF assms(1) slot]
  show ?thesis unfolding next_live_eq [OF c_ok, symmetric] using ok_orders_ascend [OF c_ok]
    by (simp add: collection_next_def recv(1) with_collection_eq [OF slot])
qed

section \<open>Other changes of the heap\<close>

lemma collection_ok_live_cong:
  assumes "collection_ok hasher m c" and "\<And>e. e \<in> set (co_entries c) \<Longrightarrow> ce_live e \<Longrightarrow> key_hash_input m' (ce_key e) = key_hash_input m (ce_key e)"
  shows "collection_ok hasher m' c"
proof -
  have "sorted_wrt (before m') (co_entries c)"
    using assms by (auto simp: collection_ok_def sorted_wrt_iff_nth_less before_def same_value_zero_iff)
  then show ?thesis using assms by (simp add: collection_ok_def index_complete_def collection_key_hash_def)
qed

text \<open>
  Whatever leaves the collections alone, creates only empty ones and keeps the texts of their keys keeps the invariant.
\<close>

lemma store_ok_transfer:
  assumes ok: "store_ok hasher m" and "ledger_ok m'" "contents_charged m'" "mc_intrinsic_slots m' = mc_intrinsic_slots m"
    and new: "\<And>i c. i < length (mc_heap m') \<Longrightarrow> mc_heap m' ! i = collection_entry c \<Longrightarrow>
      i < length (mc_heap m) \<and> mc_heap m ! i = collection_entry c \<or> co_entries c = [] \<and> co_size c = 0 \<and> mc_intrinsic_slots m \<le> i"
    and texts: "\<And>i c e. i < length (mc_heap m) \<Longrightarrow> mc_heap m ! i = collection_entry c \<Longrightarrow> e \<in> set (co_entries c) \<Longrightarrow> ce_live e \<Longrightarrow>
      key_hash_input m' (ce_key e) = key_hash_input m (ce_key e)"
  shows "store_ok hasher m'"
proof -
  have "collection_ok hasher m' c \<and> mc_intrinsic_slots m \<le> i" if i: "i < length (mc_heap m')" "mc_heap m' ! i = collection_entry c" for i c
    using new [OF i]
  proof
    assume old: "i < length (mc_heap m) \<and> mc_heap m ! i = collection_entry c"
    then show ?thesis using store_okD(3,4) [OF ok, of i c] texts [of i c] collection_ok_live_cong [of hasher m c m'] by blast
  qed (simp add: collection_ok_def index_complete_def)
  then show ?thesis using assms(2-4) by (auto simp: store_ok_def collection_of_iff)
qed

lemma allocate_textless_hash:
  assumes "ledger_ok m" and "\<not> is_vacant e" and "entry_text e = None" and "allocate e m = Ok (v, m')"
  shows "key_hash_input m' = key_hash_input m"
proof (rule ext)
  fix w
  have heap: "mc_heap m' = mc_heap m @ [e]" using allocate_ok [OF assms(1,2,4)] by blast
  have "ref_text m' w = ref_text m w" using assms(2,3) by (auto simp: ref_text_alt heap present_def nth_append split: option.split)
  then show "key_hash_input m' w = key_hash_input m w"
    by (cases "\<exists>sid. Value_decode w = Some (Dec_HeapRef sid)")
      (auto simp: ref_hash_input, auto simp: key_hash_input_def split: option.splits Decoded.splits)
qed

lemma new_collection_ok:
  assumes ok: "store_ok hasher m" and new: "new_collection prototype kind m = Ok (v, m')"
  shows "store_ok hasher m'" "mc_heap m' = mc_heap m @ [collection_entry (Collection_new kind prototype)]"
    "collection_slot m' v kind = Ok (length (mc_heap m))"
proof -
  let ?e = "collection_entry (Collection_new kind prototype)"
  note ledger = store_okD(1) [OF ok]
  from new have alloc: "allocate ?e m = Ok (v, m')" by (simp add: new_collection_def)
  from allocate_ok [OF ledger _ alloc] have m': "ledger_ok m'" and heap: "mc_heap m' = mc_heap m @ [?e]"
    and slot: "runtime_slot m' v = Ok (Some (length (mc_heap m)))" by simp_all
  from alloc have bytes: "mc_slot_bytes m' = mc_slot_bytes m @ [initial_bytes ?e]" and own: "mc_intrinsic_slots m' = mc_intrinsic_slots m"
    by (auto simp: allocate_eq [OF ledger] split: if_splits)
  show "mc_heap m' = mc_heap m @ [?e]" by (rule heap)
  have "contents_charged m'"
    using store_okD(2) [OF ok] ledger_okD(1,3) [OF ledger]
    by (auto simp: contents_charged_def heap bytes own nth_append counts_collection held_bytes_collection Collection_new_def less_Suc_eq)
  then show "store_ok hasher m'"
  proof (rule store_ok_transfer [OF ok m' _ own])
    fix i c
    assume "i < length (mc_heap m')" "mc_heap m' ! i = collection_entry c"
    then show "i < length (mc_heap m) \<and> mc_heap m ! i = collection_entry c \<or> co_entries c = [] \<and> co_size c = 0 \<and> mc_intrinsic_slots m \<le> i"
      using ledger_okD(3) [OF ledger] by (auto simp: heap nth_append Collection_new_def collection_of_iff [symmetric] split: if_splits)
  qed (use allocate_textless_hash [OF ledger _ _ alloc] in simp)
  show "collection_slot m' v kind = Ok (length (mc_heap m))"
    using slot by (auto simp: collection_slot_iff runtime_slot_iff heap Collection_new_def)
qed

end
