(* ===== verification/Set_Methods.thy ===== *)
theory Set_Methods
  imports Keyed_Collections
begin

text \<open>
  The storage operations behind the set methods (\<^verbatim>\<open>src/crates/bamts-runtime/src/builtins/set_methods.rs\<close>):
  membership, cursor reads, insertion, removal by shifting the entries, and copying a whole set.
\<close>

section \<open>Operations\<close>

definition require_set_slot :: "Machine \<Rightarrow> Value \<Rightarrow> (usize, EvalFailure) result" where
  "require_set_slot m object =
    bind_result (map_err Fail_Runtime (runtime_slot m object)) (\<lambda>slot.
      case slot of
        None \<Rightarrow> Err (type_error ''Set method called on incompatible receiver'')
      | Some index \<Rightarrow>
          bind_result (slice_index (mc_heap m) index) (\<lambda>e.
            case collection_of e of
              None \<Rightarrow> Err (type_error ''Set method called on incompatible receiver'')
            | Some c \<Rightarrow>
                if co_kind c = Kind_Set then Ok index
                else Err (type_error ''Set method called on incompatible receiver'')))"

definition set_data_size :: "Machine \<Rightarrow> Value \<Rightarrow> (usize, EvalFailure) result" where
  "set_data_size m object =
    bind_result (require_set_slot m object) (\<lambda>slot. with_collection m slot (\<lambda>c. Ok (co_size c)))"

definition set_data_has :: "(hash_input \<Rightarrow> u64) \<Rightarrow> Machine \<Rightarrow> Value \<Rightarrow> Value \<Rightarrow> (bool, EvalFailure) result" where
  "set_data_has hasher m object v =
    bind_result (require_set_slot m object) (\<lambda>slot.
      with_collection m slot (\<lambda>c. Ok (index_get hasher m (co_index c) (co_entries c) (canonicalize_key v) \<noteq> None)))"

definition next_set_value :: "Machine \<Rightarrow> Value \<Rightarrow> u64 \<Rightarrow> ((u64 \<times> Value) option, EvalFailure) result" where
  "next_set_value m object cursor =
    bind_result (require_set_slot m object) (\<lambda>slot.
      with_collection m slot (\<lambda>c.
        bind_result (next_live (co_entries c) cursor) (\<lambda>found. Ok (map_option (\<lambda>(next, key, v). (next, key)) found))))"

definition create_result_set :: "Value \<Rightarrow> Machine \<Rightarrow> (Value \<times> Machine, EvalFailure) result" where
  "create_result_set set_prototype m = new_collection set_prototype Kind_Set m"

definition add_to_set :: "(hash_input \<Rightarrow> u64) \<Rightarrow> Value \<Rightarrow> Value \<Rightarrow> Machine \<Rightarrow> (Machine, EvalFailure) result" where
  "add_to_set hasher object v m =
    (let v = canonicalize_key v
     in bind_result (require_set_slot m object) (\<lambda>slot.
        with_collection m slot (\<lambda>c.
          if index_get hasher m (co_index c) (co_entries c) v \<noteq> None then Ok m
          else append_collection_entry hasher slot v v m)))"

definition delete_from_set :: "(hash_input \<Rightarrow> u64) \<Rightarrow> Value \<Rightarrow> Value \<Rightarrow> Machine \<Rightarrow> (bool \<times> Machine, EvalFailure) result" where
  "delete_from_set hasher object v m =
    bind_result (require_set_slot m object) (\<lambda>slot.
      let v = canonicalize_key v
      in with_collection m slot (\<lambda>c.
           case index_get hasher m (co_index c) (co_entries c) v of
             None \<Rightarrow> Ok (False, m)
           | Some i \<Rightarrow>
               bind_result (slice_index (co_entries c) i) (\<lambda>_.
               bind_result (usize_sub (co_size c) 1) (\<lambda>count.
                 let m = store_collection slot (c\<lparr>co_entries := remove_nth i (co_entries c), co_size := count\<rparr>) m
                 in with_collection m slot (\<lambda>c.
                    let m = store_collection slot (c\<lparr>co_index := rebuild_index hasher m (co_entries c)\<rparr>) m
                    in bind_result (map_err Fail_Runtime (refund_slot slot ENTRY_CHARGE m)) (\<lambda>m. Ok (True, m)))))))"

text \<open>The copying loop reads the source through a cursor while it appends to the result.\<close>

partial_function (option) copy_set_loop ::
  "(hash_input \<Rightarrow> u64) \<Rightarrow> Value \<Rightarrow> usize \<Rightarrow> u64 \<Rightarrow> Machine \<Rightarrow> (Machine, EvalFailure) result option" where
  "copy_set_loop hasher source result_slot cursor m =
    (case next_set_value m source cursor of
       Ok (Some (next, v)) \<Rightarrow>
         (let v = canonicalize_key v
          in case append_collection_entry hasher result_slot v v m of
               Ok m' \<Rightarrow> copy_set_loop hasher source result_slot next m'
             | Err e \<Rightarrow> Some (Err e)
             | Panic \<Rightarrow> Some Panic)
     | Ok None \<Rightarrow> Some (Ok m)
     | Err e \<Rightarrow> Some (Err e)
     | Panic \<Rightarrow> Some Panic)"

definition copy_set_data ::
  "(hash_input \<Rightarrow> u64) \<Rightarrow> Value \<Rightarrow> Value \<Rightarrow> Machine \<Rightarrow> (Value \<times> Machine, EvalFailure) result option" where
  "copy_set_data hasher set_prototype source m =
    (case create_result_set set_prototype m of
       Ok (copy, m') \<Rightarrow>
         (case require_set_slot m' copy of
            Ok result_slot \<Rightarrow> map_option (\<lambda>r. bind_result r (\<lambda>m. Ok (copy, m))) (copy_set_loop hasher source result_slot 0 m')
          | Err e \<Rightarrow> Some (Err e)
          | Panic \<Rightarrow> Some Panic)
     | Err e \<Rightarrow> Some (Err e)
     | Panic \<Rightarrow> Some Panic)"

section \<open>Membership, insertion and removal\<close>

lemma require_set_slot_iff: "require_set_slot m object = Ok slot \<longleftrightarrow> collection_slot m object Kind_Set = Ok slot"
  by (cases "runtime_slot m object")
    (auto simp: require_set_slot_def collection_slot_def bind_result_Ok_iff slice_index_def split: option.splits)

lemma canonicalize_key_same: "same_value_zero m a (canonicalize_key v) \<longleftrightarrow> same_value_zero m a v"
proof -
  have "key_hash_input m (canonicalize_key v) = key_hash_input m v"
  proof (cases "\<exists>x. Value_decode v = Some (Dec_Number x) \<and> f64_is_zero x")
    case True
    then obtain x where x: "Value_decode v = Some (Dec_Number x)" "f64_is_zero x" by blast
    then have "\<not> f64_is_nan x" using f64_nan_nat [of x] by (auto simp: f64_is_zero_nat)
    moreover have "Value_number 0 = 0" "Value_decode (Value_number 0) = Some (Dec_Number 0)" "\<not> f64_is_nan 0" "f64_is_zero 0"
      using decode_number [of 0] by (simp_all add: Value_number_def f64_is_nan_def f64_is_zero_def)
    ultimately show ?thesis using x by (simp add: canonicalize_key_def key_hash_input_def)
  next
    case False
    then show ?thesis by (auto simp: canonicalize_key_def split: option.split Decoded.split)
  qed
  then show ?thesis by (simp add: same_value_zero_iff)
qed

lemma dict_canonical:
  "dict_get m d (canonicalize_key v) = dict_get m d v" "dict_delete m d (canonicalize_key v) = dict_delete m d v"
  by (simp_all add: dict_get_def dict_delete_def canonicalize_key_same)

lemma set_has_refines:
  assumes "store_ok hasher m" and recv: "collection_slot m object Kind_Set = Ok slot" "mc_heap m ! slot = collection_entry c"
  shows "set_data_has hasher m object v = Ok (dict_get m (dict_of c) v \<noteq> None)"
proof -
  note slot = collection_slotD(1) [OF recv] recv(2)
  show ?thesis using recv(1) dict_get_position [of m c "canonicalize_key v"]
    by (simp add: set_data_has_def require_set_slot_iff [symmetric] with_collection_eq [OF slot] index_get_ok [OF assms(1) slot] dict_canonical)
qed

lemma add_to_set_eq:
  assumes "collection_slot m object Kind_Set = Ok slot"
  shows "add_to_set hasher object v m = set_put hasher object (canonicalize_key v) Kind_Set m"
  using assms require_set_slot_iff [of m object slot] by (simp add: add_to_set_def set_put_def Let_def)

lemma add_to_set_refines:
  assumes ok: "store_ok hasher m" and recv: "collection_slot m object Kind_Set = Ok slot" "mc_heap m ! slot = collection_entry c"
    and order: "unat (co_next_order c) + 1 < 2 ^ 64"
  shows "put_outcome hasher slot c v (if dict_get m (dict_of c) v = None then dict_of c @ [(canonicalize_key v, canonicalize_key v)] else dict_of c) m
    (add_to_set hasher object v m)"
  using set_put_refines [OF assms, of "canonicalize_key v"] by (simp add: add_to_set_eq [OF recv(1)] put_outcome_def dict_canonical)

lemma remove_matching:
  assumes "sorted_wrt (before m) es" and "iter_position (key_matches m key) es = Some i"
  shows "remove_nth i es = filter (\<lambda>e. \<not> key_matches m key e) es"
proof -
  note i = position_Some [OF assms(2)]
  have es: "es = take i es @ es ! i # drop (Suc i) es" using i(1) by (rule id_take_nth_drop)
  have "\<not> key_matches m key e" if "e \<in> set (take i es) \<union> set (drop (Suc i) es)" for e
  proof
    assume match: "key_matches m key e"
    from that consider j where "j < i" "e = es ! j" | j where "j < length es - Suc i" "e = es ! (Suc i + j)"
      by (auto simp: in_set_conv_nth)
    then obtain j where "j < length es" "j \<noteq> i" "e = es ! j"
    proof cases
      case (1 j)
      then show ?thesis using that [of j] i(1) by simp
    next
      case (2 j)
      then show ?thesis using that [of "Suc i + j"] by simp
    qed
    with match live_keys_unique [OF assms(1) _ i(1) _ i(2)] show False by blast
  qed
  then have "filter (\<lambda>e. \<not> key_matches m key e) (take i es) = take i es" "filter (\<lambda>e. \<not> key_matches m key e) (drop (Suc i) es) = drop (Suc i) es"
    by (simp_all add: filter_id_conv)
  then show ?thesis using i(2) by (subst (2) es) (simp add: remove_nth_def)
qed

lemma delete_from_set_refines:
  assumes ok: "store_ok hasher m" and recv: "collection_slot m object Kind_Set = Ok slot" "mc_heap m ! slot = collection_entry c"
  shows "\<exists>m'. delete_from_set hasher object v m = Ok (dict_get m (dict_of c) v \<noteq> None, m') \<and>
    turned hasher slot c (dict_delete m (dict_of c) v) m m'"
proof (cases "iter_position (key_matches m (canonicalize_key v)) (co_entries c)")
  case None
  note slot = collection_slotD(1) [OF recv] recv(2)
  from None show ?thesis using turned_refl [OF ok slot(2)] dict_delete_absent [OF None] dict_get_position [of m c "canonicalize_key v"] recv(1)
    by (simp add: delete_from_set_def require_set_slot_iff [symmetric] with_collection_eq [OF slot] index_get_ok [OF ok slot] dict_canonical)
next
  case (Some i)
  note slot = collection_slotD(1) [OF recv] recv(2) and c_ok = store_okD(3) [OF ok collection_slotD(1) [OF recv] recv(2)]
  let ?es = "filter (\<lambda>e. \<not> key_matches m (canonicalize_key v) e) (co_entries c)"
  let ?c1 = "c\<lparr>co_entries := ?es, co_size := co_size c - 1\<rparr>"
  let ?c2 = "?c1\<lparr>co_index := rebuild_index hasher m ?es\<rparr>"
  have removed: "remove_nth i (co_entries c) = ?es" using c_ok by (intro remove_matching [OF _ Some]) (simp add: collection_ok_def)
  have i: "i < length (co_entries c)" "key_matches m (canonicalize_key v) (co_entries c ! i)" using position_Some(1,2) [OF Some] .
  have rebuild: "rebuild_index hasher (store_collection slot d m) = rebuild_index hasher m" for d
    by (rule rebuild_replaced [OF slot]) simp
  have "length (filter ce_live ?es) + 1 = length (filter ce_live (co_entries c))"
  proof -
    have "filter ce_live (remove_nth i (co_entries c)) = filter ce_live (take i (co_entries c)) @ filter ce_live (drop (Suc i) (co_entries c))"
      by (simp add: remove_nth_def)
    moreover have "filter ce_live (co_entries c) =
        filter ce_live (take i (co_entries c)) @ co_entries c ! i # filter ce_live (drop (Suc i) (co_entries c))"
      using i by (subst id_take_nth_drop [OF i(1)]) (simp add: key_matches_def)
    ultimately show ?thesis by (simp add: removed)
  qed
  then have size: "co_size c = length (filter ce_live ?es) + 1" using c_ok by (simp add: collection_ok_def)
  have ok2: "collection_ok hasher m ?c2" using c_ok size rebuilt_complete by (auto simp: collection_ok_def sorted_wrt_filter)
  from refund_entries [OF ok slot ok2, of 1] size obtain m' where m': "refund_slot slot ENTRY_CHARGE (store_collection slot ?c2 m) = Ok m'"
      "store_ok hasher m'" "mc_heap m' = (mc_heap m)[slot := collection_entry ?c2]" by auto
  have "dict_of ?c2 = dict_delete m (dict_of c) v"
    by (simp add: dict_of_def dict_delete_def filter_map comp_def key_matches_def canonicalize_key_same conj_commute cong: conj_cong)
  moreover have "evolves c ?c2" by (auto simp: evolves_def)
  ultimately have "turned hasher slot c (dict_delete m (dict_of c) v) m m'" by (intro turnedI [OF m'(2,3)])
  moreover have "delete_from_set hasher object v m = Ok (True, m')"
    using Some i size slot m'(1) recv(1)
    by (simp add: delete_from_set_def require_set_slot_iff [symmetric] with_collection_eq [OF slot] index_get_ok [OF ok slot] slice_index_def
        usize_sub_def Let_def with_stored store_collection_twice removed rebuild)
  ultimately show ?thesis using Some dict_get_position [of m c "canonicalize_key v"] by (simp add: dict_canonical)
qed

section \<open>Copying a set\<close>

lemma next_set_value_eq:
  assumes "store_ok hasher m" and recv: "collection_slot m object Kind_Set = Ok slot" "mc_heap m ! slot = collection_entry c"
  shows "next_set_value m object cursor =
    (case filter (\<lambda>e. ce_live e \<and> cursor \<le> ce_order e) (co_entries c) of [] \<Rightarrow> Ok None | e # es \<Rightarrow> Ok (Some (ce_order e + 1, ce_key e)))"
proof -
  note slot = collection_slotD(1) [OF recv] recv(2)
  show ?thesis using recv(1)
    by (simp add: next_set_value_def require_set_slot_iff [symmetric] with_collection_eq [OF slot] next_live_eq [OF store_okD(3) [OF assms(1) slot]]
        split: list.split)
qed

lemma word_succ_le:
  fixes x y z :: u64
  assumes "x < y"
  shows "x + 1 \<le> z \<longleftrightarrow> x < z"
proof -
  have "unat y < 2 ^ 64" using unsigned_less [of y, where 'a = nat] by simp
  with assms have "unat x + 1 < 2 ^ 64" by (simp add: word_less_nat_alt)
  then have "unat (x + 1) = unat x + 1" by (simp add: unat_word_ariths)
  then show ?thesis by (simp add: word_le_nat_alt word_less_nat_alt Suc_le_eq)
qed

lemma next_cursor:
  assumes "collection_ok hasher m c" and "filter (\<lambda>e. ce_live e \<and> cursor \<le> ce_order e) (co_entries c) = e # es"
  shows "filter (\<lambda>f. ce_live f \<and> ce_order e + 1 \<le> ce_order f) (co_entries c) = es"
    and "\<forall>f \<in> set es. \<not> same_value_zero m (ce_key e) (ce_key f)"
proof -
  let ?es = "co_entries c"
  have e: "e \<in> set ?es" "ce_live e" "cursor \<le> ce_order e" using assms(2) by (auto dest: filter_eq_ConsD)
  have "ce_order e < co_next_order c" using assms(1) e(1) by (simp add: collection_ok_def)
  then have above: "ce_order e + 1 \<le> ce_order f \<longleftrightarrow> ce_order e < ce_order f" for f by (rule word_succ_le)
  have sorted: "sorted_wrt (before m) (e # es)" using assms by (metis collection_ok_def sorted_wrt_filter)
  moreover have "set es \<subseteq> set (filter (\<lambda>e. ce_live e \<and> cursor \<le> ce_order e) ?es)" unfolding assms(2) by auto
  ultimately have later: "ce_live f \<and> ce_order e < ce_order f" if "f \<in> set es" for f using that by (auto simp: before_def)
  have "filter (\<lambda>f. ce_live f \<and> ce_order e + 1 \<le> ce_order f) ?es = filter (\<lambda>f. ce_order e < ce_order f) (e # es)"
    unfolding assms(2) [symmetric] filter_filter above by (rule filter_cong) (use e(3) in auto)
  also have "\<dots> = es" using later by (simp add: filter_id_conv)
  finally show "filter (\<lambda>f. ce_live f \<and> ce_order e + 1 \<le> ce_order f) ?es = es" .
  show "\<forall>f \<in> set es. \<not> same_value_zero m (ce_key e) (ce_key f)" using sorted later e(2) by (auto simp: before_def)
qed

text \<open>What the loop leaves: the result has taken the rest of the source, in order, or the heap was too small.\<close>

definition copied :: "CollectionEntry list \<Rightarrow> (Value \<times> Value) list" where
  "copied es = map (\<lambda>e. (canonicalize_key (ce_key e), canonicalize_key (ce_key e))) es"

definition copy_outcome ::
  "(hash_input \<Rightarrow> u64) \<Rightarrow> usize \<Rightarrow> CollectionData \<Rightarrow> CollectionEntry list \<Rightarrow> Machine \<Rightarrow> (Machine, EvalFailure) result \<Rightarrow> bool" where
  "copy_outcome hasher r d rest m res \<longleftrightarrow>
    (if mc_heap_bytes m + length rest * ENTRY_CHARGE \<le> mc_max_heap_bytes m
     then \<exists>m' d'. res = Ok m' \<and> store_ok hasher m' \<and> mc_heap m' = (mc_heap m)[r := collection_entry d'] \<and>
       dict_of d' = dict_of d @ copied rest \<and> co_kind d' = Kind_Set
     else res = Err (Fail_Runtime (Error_HeapByteLimitExceeded (mc_max_heap_bytes m))))"

lemma dict_get_append: "dict_get m (d @ d') k = (case dict_get m d k of None \<Rightarrow> dict_get m d' k | Some v \<Rightarrow> Some v)"
  by (induction d) (auto simp: dict_get_def)

lemma copy_set_loop_ok:
  assumes "store_ok hasher m" and "collection_slot m source Kind_Set = Ok s" "mc_heap m ! s = collection_entry c"
    and "r < length (mc_heap m)" "r \<noteq> s" "mc_heap m ! r = collection_entry d" "co_kind d = Kind_Set"
    and "filter (\<lambda>e. ce_live e \<and> cursor \<le> ce_order e) (co_entries c) = rest"
    and "\<forall>e \<in> set rest. dict_get m (dict_of d) (ce_key e) = None"
    and "unat (co_next_order d) + length rest < 2 ^ 64"
  shows "\<exists>res. copy_set_loop hasher source r cursor m = Some res \<and> copy_outcome hasher r d rest m res"
  using assms
proof (induction rest arbitrary: m d cursor)
  case Nil
  from list_update_id [of "mc_heap m" r] Nil.prems(6) have "mc_heap m = (mc_heap m)[r := collection_entry d]" by simp
  moreover have "mc_heap_bytes m \<le> mc_max_heap_bytes m" using ledger_okD(8) [OF store_okD(1) [OF Nil.prems(1)]] .
  ultimately show ?case using next_set_value_eq [OF Nil.prems(1-3), of cursor] Nil.prems
    by (subst copy_set_loop.simps) (auto simp: copy_outcome_def copied_def)
next
  case (Cons e rest)
  let ?k = "canonicalize_key (ce_key e)"
  note ok = Cons.prems(1) and source = Cons.prems(2,3) and r = Cons.prems(4,6) and rest = Cons.prems(8)
  note c_ok = store_okD(3) [OF ok collection_slotD(1) [OF source] source(2)]
  have absent: "iter_position (key_matches m ?k) (co_entries d) = None"
    using Cons.prems(9) dict_get_position [of m d ?k] by (simp add: dict_canonical)
  have order: "unat (co_next_order d) + 1 < 2 ^ 64" using Cons.prems(10) by simp
  have loop: "copy_set_loop hasher source r cursor m = (case append_collection_entry hasher r ?k ?k m of
      Ok m' \<Rightarrow> copy_set_loop hasher source r (ce_order e + 1) m' | Err e \<Rightarrow> Some (Err e) | Panic \<Rightarrow> Some Panic)"
    using next_set_value_eq [OF ok source, of cursor] by (subst copy_set_loop.simps) (simp add: rest Let_def)
  show ?case
  proof (cases "mc_heap_bytes m + ENTRY_CHARGE \<le> mc_max_heap_bytes m")
    case False
    then show ?thesis using append_full [OF ok r order, of ?k ?k] by (simp add: loop copy_outcome_def)
  next
    case True
    from append_fits [OF ok r absent order True, of ?k] obtain m' d' where m': "append_collection_entry hasher r ?k ?k m = Ok m'"
        "store_ok hasher m'" "mc_heap m' = (mc_heap m)[r := collection_entry d']" "appended ?k ?k d d'"
        "mc_heap_bytes m' = mc_heap_bytes m + ENTRY_CHARGE" "limits m' = limits m" by blast
    have hash: "key_hash_input m' = key_hash_input m" by (rule replaced_hash [OF r m'(3)])
    have source': "collection_slot m' source Kind_Set = Ok s" "mc_heap m' ! s = collection_entry c"
      using source Cons.prems(5) by (auto simp: collection_slot_iff m'(3))
    have dict: "dict_of d' = dict_of d @ [(?k, ?k)]" by (rule appended_dict [OF m'(4)])
    have "dict_get m' (dict_of d') (ce_key f) = None" if f: "f \<in> set rest" for f
    proof -
      have "\<not> same_value_zero m (ce_key f) (ce_key e)" using next_cursor(2) [OF c_ok rest] f by (auto simp: same_value_zero_iff)
      then have "\<not> same_value_zero m ?k (ce_key f)" using canonicalize_key_same [of m "ce_key f" "ce_key e"] by (auto simp: same_value_zero_iff)
      then have "dict_get m (dict_of d') (ce_key f) = None" using Cons.prems(9) f by (simp add: dict dict_get_append) (simp add: dict_get_def)
      then show ?thesis by (simp add: dict_get_def same_value_zero_iff hash)
    qed
    moreover have "unat (co_next_order d') + length rest < 2 ^ 64"
      using Cons.prems(10) m'(4) order by (simp add: appended_def unat_word_ariths)
    ultimately obtain res where res: "copy_set_loop hasher source r (ce_order e + 1) m' = Some res" "copy_outcome hasher r d' rest m' res"
      using Cons.IH [OF m'(2) source', of d' "ce_order e + 1"] r Cons.prems(5,7) m'(3,4) next_cursor(1) [OF c_ok rest]
      by (auto simp: appended_def)
    have "copy_outcome hasher r d (e # rest) m res"
      using res(2) m'(3,5,6) dict by (auto simp: copy_outcome_def copied_def limits_def algebra_simps split: if_splits)
    then show ?thesis using res(1) m'(1) by (simp add: loop)
  qed
qed

definition room_for_copy :: "Machine \<Rightarrow> CollectionData \<Rightarrow> bool" where
  "room_for_copy m c \<longleftrightarrow> live_runtime_slots m + 1 \<le> mc_max_heap_slots m \<and> length (mc_heap m) + 1 < 2 ^ 32 \<and>
     mc_heap_bytes m + 1 + co_size c * ENTRY_CHARGE \<le> mc_max_heap_bytes m"

lemma initial_bytes_collection: "initial_bytes (collection_entry (Collection_new kind prototype)) = 1"
  by (simp add: collection_entry_def Collection_new_def initial_bytes_def sat_mul_def sat_add_def u64_saturating_def)

lemma create_result_set_eq:
  assumes ok: "store_ok hasher m"
  shows "create_result_set prototype m =
    (if mc_max_heap_slots m < live_runtime_slots m + 1 \<or> 2 ^ 32 \<le> length (mc_heap m) + 1
     then Err (Fail_Runtime (Error_HeapSlotLimitExceeded (mc_max_heap_slots m)))
     else if mc_max_heap_bytes m < mc_heap_bytes m + 1 then Err (Fail_Runtime (Error_HeapByteLimitExceeded (mc_max_heap_bytes m)))
     else Ok (slot_ref (length (mc_heap m)), request_garbage_collection
       (m\<lparr>mc_heap := mc_heap m @ [collection_entry (Collection_new Kind_Set prototype)], mc_slot_bytes := mc_slot_bytes m @ [1],
          mc_heap_bytes := mc_heap_bytes m + 1\<rparr>)))"
  by (simp add: create_result_set_def new_collection_def allocate_eq [OF store_okD(1) [OF ok]] initial_bytes_collection)

lemma copy_set_data_ok:
  assumes ok: "store_ok hasher m" and source: "collection_slot m source Kind_Set = Ok s" "mc_heap m ! s = collection_entry c"
  shows "\<exists>res. copy_set_data hasher prototype source m = Some res \<and>
    (if room_for_copy m c
     then \<exists>copy m' d. res = Ok (copy, m') \<and> store_ok hasher m' \<and> mc_heap m' = mc_heap m @ [collection_entry d] \<and>
       collection_slot m' copy Kind_Set = Ok (length (mc_heap m)) \<and>
       dict_of d = map (\<lambda>p. (canonicalize_key (fst p), canonicalize_key (fst p))) (dict_of c)
     else \<exists>kind. res = Err (Fail_Runtime kind))"
proof (cases "create_result_set prototype m")
  case Panic
  then show ?thesis by (simp add: create_result_set_eq [OF ok] split: if_splits)
next
  case (Err e)
  then show ?thesis by (auto simp: create_result_set_eq [OF ok] copy_set_data_def room_for_copy_def split: if_splits)
next
  case (Ok p)
  obtain copy m1 where p: "p = (copy, m1)" by (cases p)
  let ?d = "Collection_new Kind_Set prototype" and ?n = "length (mc_heap m)"
  from Ok have new: "new_collection prototype Kind_Set m = Ok (copy, m1)" by (simp add: create_result_set_def p)
  note m1 = new_collection_ok [OF ok new]
  note c_ok = store_okD(3) [OF ok collection_slotD(1) [OF source] source(2)]
  have s: "s < ?n" by (rule collection_slotD(1) [OF source])
  have bytes: "mc_heap_bytes m1 = mc_heap_bytes m + 1" "limits m1 = limits m" "live_runtime_slots m + 1 \<le> mc_max_heap_slots m" "?n + 1 < 2 ^ 32"
    using Ok by (auto simp: create_result_set_eq [OF ok] p limits_def split: if_splits)
  have source1: "collection_slot m1 source Kind_Set = Ok s" "mc_heap m1 ! s = collection_entry c"
    using source s by (auto simp: collection_slot_iff m1(2) nth_append)
  have rest: "filter (\<lambda>e. ce_live e \<and> 0 \<le> ce_order e) (co_entries c) = filter ce_live (co_entries c)" by simp
  have size: "co_size c = length (filter ce_live (co_entries c))" using c_ok by (simp add: collection_ok_def)
  have "co_size c < 2 ^ 64" using entry_held(2) [OF ok s source(2)] by (simp add: ENTRY_CHARGE_def CollectionEntry_BYTES_def CollectionIndex_ENTRY_BYTES_def)
  then obtain res where res: "copy_set_loop hasher source ?n 0 m1 = Some res"
      "copy_outcome hasher ?n ?d (filter ce_live (co_entries c)) m1 res"
    using copy_set_loop_ok [OF m1(1) source1, of ?n ?d 0, OF _ _ _ _ rest] s by (auto simp: m1(2) Collection_new_def dict_of_def dict_get_def size)
  have "copy_set_data hasher prototype source m = Some (bind_result res (\<lambda>m. Ok (copy, m)))"
    using m1(3) by (simp add: copy_set_data_def Ok p require_set_slot_iff [symmetric] res(1))
  moreover have room: "room_for_copy m c \<longleftrightarrow> mc_heap_bytes m1 + length (filter ce_live (co_entries c)) * ENTRY_CHARGE \<le> mc_max_heap_bytes m1"
    using bytes by (simp add: room_for_copy_def limits_def size)
  moreover have "dict_of ?d @ copied (filter ce_live (co_entries c)) = map (\<lambda>p. (canonicalize_key (fst p), canonicalize_key (fst p))) (dict_of c)"
    by (simp add: dict_of_def copied_def Collection_new_def)
  ultimately show ?thesis using res(2) m1(3) by (auto simp: copy_outcome_def m1(2) collection_slot_iff split: if_splits)
qed

end
