(* ===== verification/Collection_Runs.thy ===== *)
theory Collection_Runs
  imports Set_Methods
begin

text \<open>
  Keyed collections over time: their invariant through every operation and through garbage collections, what an
  iteration by cursor visits while the collection changes under it, and which value a lookup returns after
  any sequence of updates.
\<close>

section \<open>Garbage collection\<close>

text \<open>What a collection leaves of a keyed collection that survives it.\<close>

definition collected_collection :: "(hash_input \<Rightarrow> u64) \<Rightarrow> Machine \<Rightarrow> CollectionData \<Rightarrow> CollectionData" where
  "collected_collection hasher m c =
    (if co_kind c = Kind_WeakMap \<or> co_kind c = Kind_WeakSet then
       let es = filter (\<lambda>e. ce_live e \<and> kept_value m (ce_key e)) (co_entries c)
       in c\<lparr>co_entries := es, co_index := rebuild_index hasher m es, co_size := length es\<rparr>
     else c)"

lemma collected_entry_collection:
  "purged_entry hasher m (kept_value m) (released_entry (kept_value m) (collection_entry c)) = collection_entry (collected_collection hasher m c)"
  by (simp add: collection_entry_def released_entry_def purged_entry_def collected_collection_def Let_def)

lemma collected_entry_collectionD:
  assumes "purged_entry hasher m (kept_value m) (released_entry (kept_value m) e) = collection_entry c'"
  shows "\<exists>c. e = collection_entry c \<and> c' = collected_collection hasher m c"
proof (cases "collection_of e")
  case None
  then show ?thesis using assms by (cases e) (simp_all add: collection_of_def collection_entry_def released_entry_def purged_entry_def Let_def)
next
  case (Some c)
  then show ?thesis using assms by (auto simp: collection_of_iff collected_entry_collection)
qed

lemma collected_text: "entry_text (purged_entry hasher m K (released_entry K e)) = entry_text e"
  by (cases e) (simp_all add: released_entry_def purged_entry_def entry_text_def Let_def)

lemma collected_hash:
  assumes heap: "mc_heap m' = map (collected_entry hasher m) [0..<length (mc_heap m)]"
    and kept: "\<And>i. runtime_index v = Some i \<Longrightarrow> present (mc_heap m) i \<Longrightarrow> gc_reach (mc_heap m) (trace_roots m) i"
  shows "key_hash_input m' v = key_hash_input m v"
proof (rule hash_input_cong)
  fix i
  assume i: "runtime_index v = Some i"
  show "present (mc_heap m') i = present (mc_heap m) i \<and>
     (present (mc_heap m) i \<longrightarrow> entry_text (mc_heap m' ! i) = entry_text (mc_heap m ! i))"
  proof (cases "present (mc_heap m) i")
    case True
    with kept [OF i] have "gc_reach (mc_heap m) (trace_roots m) i" and "i < length (mc_heap m)" by (auto simp: present_def)
    then show ?thesis using True present_collected [of i m hasher] by (simp add: heap collected_entry_def collected_text)
  next
    case False
    then have "\<not> gc_reach (mc_heap m) (trace_roots m) i" using reach_present by blast
    then have "\<not> present (mc_heap m') i" using present_collected [of i m hasher] by (auto simp: heap present_def)
    with False show ?thesis by simp
  qed
qed

lemma strong_keys_reached:
  assumes "gc_reach (mc_heap m) (trace_roots m) i" and "mc_heap m ! i = collection_entry c" and "co_kind c = Kind_Map \<or> co_kind c = Kind_Set"
    and "e \<in> set (co_entries c)" "ce_live e" and "runtime_index (ce_key e) = Some j" "present (mc_heap m) j"
  shows "gc_reach (mc_heap m) (trace_roots m) j"
proof (rule reach_edge [OF assms(1)])
  show "Visit_Value (ce_key e) \<in> set (entry_visits (mc_heap m ! i))"
    using assms(2-5) by (auto simp: collection_entry_def)
qed (use assms in simp_all)

lemma collected_collection_ok:
  assumes ok: "collection_ok hasher m c" and R: "gc_reach (mc_heap m) (trace_roots m) i" and e: "mc_heap m ! i = collection_entry c"
    and heap: "mc_heap m' = map (collected_entry hasher m) [0..<length (mc_heap m)]"
  shows "collection_ok hasher m' (collected_collection hasher m c)"
proof (cases "co_kind c = Kind_WeakMap \<or> co_kind c = Kind_WeakSet")
  case True
  let ?es = "filter (\<lambda>e. ce_live e \<and> kept_value m (ce_key e)) (co_entries c)"
  have "filter ce_live ?es = ?es" by (rule filter_True) simp
  then have "collection_ok hasher m (collected_collection hasher m c)"
    using ok True rebuilt_complete by (auto simp: collected_collection_def collection_ok_def sorted_wrt_filter Let_def)
  moreover have "key_hash_input m' (ce_key e) = key_hash_input m (ce_key e)" if "e \<in> set ?es" for e
    using that by (intro collected_hash [OF heap]) (auto simp: kept_value_def)
  ultimately show ?thesis using True by (elim collection_ok_live_cong) (auto simp: collected_collection_def Let_def)
next
  case False
  then have "co_kind c = Kind_Map \<or> co_kind c = Kind_Set" by (cases "co_kind c") simp_all
  then have "key_hash_input m' (ce_key f) = key_hash_input m (ce_key f)" if "f \<in> set (co_entries c)" "ce_live f" for f
    using that strong_keys_reached [OF R e] by (intro collected_hash [OF heap])
  then show ?thesis using False collection_ok_live_cong [OF ok] by (simp add: collected_collection_def)
qed

lemma collect_store_ok:
  assumes ok: "store_ok hasher m" and "collect hasher m = Ok m'"
  shows "store_ok hasher m'" and "mc_heap m' = map (collected_entry hasher m) [0..<length (mc_heap m)]"
proof -
  from collect_ok [OF store_okD(1,2) [OF ok], of hasher] assms(2) have m': "ledger_ok m'" "contents_charged m'" "same_roots m m'"
    and heap: "mc_heap m' = map (collected_entry hasher m) [0..<length (mc_heap m)]" by auto
  show "mc_heap m' = map (collected_entry hasher m) [0..<length (mc_heap m)]" by (rule heap)
  have "collection_ok hasher m' c' \<and> mc_intrinsic_slots m \<le> i"
    if i: "i < length (mc_heap m')" "mc_heap m' ! i = collection_entry c'" for i c'
  proof -
    have n: "i < length (mc_heap m)" using i(1) by (simp add: heap)
    then have "collected_entry hasher m i = collection_entry c'" using i(2) by (simp add: heap)
    then have R: "gc_reach (mc_heap m) (trace_roots m) i"
      and "purged_entry hasher m (kept_value m) (released_entry (kept_value m) (mc_heap m ! i)) = collection_entry c'"
      by (auto simp: collected_entry_def collection_entry_def split: if_splits)
    from collected_entry_collectionD [OF this(2)] obtain c where c: "mc_heap m ! i = collection_entry c" "c' = collected_collection hasher m c" by blast
    show ?thesis using collected_collection_ok [OF store_okD(3) [OF ok n c(1)] R c(1) heap] store_okD(4) [OF ok n c(1)] by (simp add: c(2))
  qed
  then show "store_ok hasher m'" using m' by (auto simp: store_ok_def collection_of_iff same_roots_def)
qed

section \<open>Runs\<close>

text \<open>
  What the rest of the machine does between two operations on collections: it keeps the ledger, leaves collections alone,
  creates only empty ones, and neither removes nor changes the texts that live keys refer to.
\<close>

definition undisturbed :: "Machine \<Rightarrow> Machine \<Rightarrow> bool" where
  "undisturbed m m' \<longleftrightarrow> ledger_ok m' \<and> contents_charged m' \<and> mc_intrinsic_slots m' = mc_intrinsic_slots m \<and>
     length (mc_heap m) \<le> length (mc_heap m') \<and>
     (\<forall>i < length (mc_heap m). \<forall>c. mc_heap m' ! i = collection_entry c \<longleftrightarrow> mc_heap m ! i = collection_entry c) \<and>
     (\<forall>i < length (mc_heap m'). \<forall>c. length (mc_heap m) \<le> i \<and> mc_heap m' ! i = collection_entry c \<longrightarrow> co_entries c = [] \<and> co_size c = 0) \<and>
     (\<forall>i < length (mc_heap m). \<forall>c. mc_heap m ! i = collection_entry c \<longrightarrow>
        (\<forall>e \<in> set (co_entries c). ce_live e \<longrightarrow> key_hash_input m' (ce_key e) = key_hash_input m (ce_key e)))"

inductive coll_step :: "(hash_input \<Rightarrow> u64) \<Rightarrow> Machine \<Rightarrow> Machine \<Rightarrow> bool" for hasher where
  step_put: "put_strong_entry hasher this key v kind m = Ok m' \<Longrightarrow> coll_step hasher m m'"
| step_map_put: "map_put hasher this key v kind m = Ok m' \<Longrightarrow> coll_step hasher m m'"
| step_set_put: "set_put hasher this v kind m = Ok m' \<Longrightarrow> coll_step hasher m m'"
| step_add: "add_to_set hasher this v m = Ok m' \<Longrightarrow> coll_step hasher m m'"
| step_delete: "map_delete_for hasher this args kind m = Ok (v, m') \<Longrightarrow> coll_step hasher m m'"
| step_remove: "delete_from_set hasher this v m = Ok (b, m') \<Longrightarrow> coll_step hasher m m'"
| step_clear: "collection_clear this kind m = Ok (v, m') \<Longrightarrow> coll_step hasher m m'"
| step_gc: "collect hasher m = Ok m' \<Longrightarrow> coll_step hasher m m'"
| step_machine: "undisturbed m m' \<Longrightarrow> coll_step hasher m m'"

definition evolved :: "Machine \<Rightarrow> Machine \<Rightarrow> bool" where
  "evolved m m' \<longleftrightarrow> length (mc_heap m) \<le> length (mc_heap m') \<and>
     (\<forall>i c'. i < length (mc_heap m) \<longrightarrow> mc_heap m' ! i = collection_entry c' \<longrightarrow>
        (\<exists>c. mc_heap m ! i = collection_entry c \<and> evolves c c'))"

lemma turned_evolved:
  assumes "turned hasher slot c d m m'" and "slot < length (mc_heap m)" "mc_heap m ! slot = collection_entry c"
  shows "store_ok hasher m' \<and> evolved m m'"
  using assms by (auto simp: turned_def evolved_def nth_list_update evolves_refl split: if_splits)

lemma put_outcome_evolved:
  assumes "put_outcome hasher slot c key d m (Ok m')" and "slot < length (mc_heap m)" "mc_heap m ! slot = collection_entry c"
  shows "store_ok hasher m' \<and> evolved m m'"
  using assms turned_evolved by (auto simp: put_outcome_def split: if_splits)

text \<open>An insertion that returns has not used up the orders, or stored in place.\<close>

lemma append_order:
  assumes "slot < length (mc_heap m)" "mc_heap m ! slot = collection_entry c" and "append_collection_entry hasher slot key v m = Ok m'"
  shows "unat (co_next_order c) + 1 < 2 ^ 64"
  using assms(3) by (auto simp: append_collection_entry_def with_collection_eq [OF assms(1,2)] u64_checked_add_def expect_def Let_def split: if_splits)

lemma put_strong_evolved:
  assumes ok: "store_ok hasher m" and "put_strong_entry hasher this key v kind m = Ok m'"
  shows "store_ok hasher m' \<and> evolved m m'"
proof -
  from assms(2) obtain slot where "collection_slot m this kind = Ok slot" by (auto simp: put_strong_entry_def bind_result_Ok_iff)
  then obtain c where recv: "collection_slot m this kind = Ok slot" "mc_heap m ! slot = collection_entry c" by (auto simp: collection_slot_iff)
  note slot = collection_slotD(1) [OF recv] recv(2)
  show ?thesis
  proof (cases "iter_position (key_matches m key) (co_entries c)")
    case None
    with assms(2) have a: "append_collection_entry hasher slot key v m = Ok m'"
      by (simp add: put_strong_entry_def recv(1) with_collection_eq [OF slot])
    from append_outcome [OF ok slot None append_order [OF slot a], of v] show ?thesis unfolding a by (rule put_outcome_evolved [OF _ slot])
  next
    case (Some i)
    with assms(2) have "store_value slot i v m = Ok m'" by (simp add: put_strong_entry_def recv(1) with_collection_eq [OF slot])
    with store_value_ok [OF ok slot Some, of v] show ?thesis using turned_evolved [OF _ slot] by auto
  qed
qed

lemma set_put_evolved:
  assumes ok: "store_ok hasher m" and "set_put hasher this v kind m = Ok m'"
  shows "store_ok hasher m' \<and> evolved m m'"
proof -
  from assms(2) obtain slot where "collection_slot m this kind = Ok slot" by (auto simp: set_put_def bind_result_Ok_iff)
  then obtain c where recv: "collection_slot m this kind = Ok slot" "mc_heap m ! slot = collection_entry c" by (auto simp: collection_slot_iff)
  note slot = collection_slotD(1) [OF recv] recv(2)
  have eq: "set_put hasher this v kind m = (if iter_position (key_matches m v) (co_entries c) \<noteq> None then Ok m else append_collection_entry hasher slot v v m)"
    by (simp add: set_put_def recv(1) with_collection_eq [OF slot] index_get_ok [OF ok slot])
  show ?thesis
  proof (cases "iter_position (key_matches m v) (co_entries c)")
    case None
    with assms(2) have a: "append_collection_entry hasher slot v v m = Ok m'" by (simp add: eq)
    from append_outcome [OF ok slot None append_order [OF slot a], of v] show ?thesis unfolding a by (rule put_outcome_evolved [OF _ slot])
  next
    case (Some i)
    with assms(2) have "m' = m" by (simp add: eq)
    then show ?thesis using ok by (auto simp: evolved_def evolves_refl)
  qed
qed

lemma collect_evolved:
  assumes "store_ok hasher m" and "collect hasher m = Ok m'"
  shows "evolved m m'"
proof -
  note heap = collect_store_ok(2) [OF assms]
  have "\<exists>c. mc_heap m ! i = collection_entry c \<and> evolves c c'" if i: "i < length (mc_heap m)" "mc_heap m' ! i = collection_entry c'" for i c'
  proof -
    from i have "purged_entry hasher m (kept_value m) (released_entry (kept_value m) (mc_heap m ! i)) = collection_entry c'"
      by (auto simp: heap collected_entry_def collection_entry_def split: if_splits)
    from collected_entry_collectionD [OF this] obtain c where "mc_heap m ! i = collection_entry c" "c' = collected_collection hasher m c" by blast
    then show ?thesis by (auto simp: evolves_def collected_collection_def Let_def)
  qed
  then show ?thesis by (simp add: evolved_def heap)
qed

lemma undisturbed_store_ok:
  assumes "store_ok hasher m" and "undisturbed m m'"
  shows "store_ok hasher m' \<and> evolved m m'"
proof
  note ledger = store_okD(1) [OF assms(1)]
  show "evolved m m'" using assms(2) by (auto simp: undisturbed_def evolved_def evolves_refl)
  show "store_ok hasher m'"
  proof (rule store_ok_transfer [OF assms(1)])
    fix i c
    assume i: "i < length (mc_heap m')" "mc_heap m' ! i = collection_entry c"
    show "i < length (mc_heap m) \<and> mc_heap m ! i = collection_entry c \<or> co_entries c = [] \<and> co_size c = 0 \<and> mc_intrinsic_slots m \<le> i"
      using assms(2) i ledger_okD(3) [OF ledger] by (cases "i < length (mc_heap m)") (auto simp: undisturbed_def)
  qed (use assms(2) in \<open>auto simp: undisturbed_def\<close>)
qed

lemma coll_step_ok: "coll_step hasher m m' \<Longrightarrow> store_ok hasher m \<Longrightarrow> store_ok hasher m' \<and> evolved m m'"
proof (induction rule: coll_step.induct)
  case (step_put this key v kind m m')
  then show ?case by (intro put_strong_evolved)
next
  case (step_map_put this key v kind m m')
  then show ?case by (intro put_strong_evolved) (simp_all add: map_put_scans)
next
  case (step_set_put this v kind m m')
  then show ?case by (intro set_put_evolved)
next
  case (step_add this v m m')
  then obtain slot where "collection_slot m this Kind_Set = Ok slot"
    by (auto simp: add_to_set_def Let_def bind_result_Ok_iff require_set_slot_iff)
  with step_add show ?case by (intro set_put_evolved) (simp_all add: add_to_set_eq)
next
  case (step_delete this args kind m v m')
  then obtain slot where "collection_slot m this kind = Ok slot" by (auto simp: map_delete_for_def bind_result_Ok_iff)
  then obtain c where recv: "collection_slot m this kind = Ok slot" "mc_heap m ! slot = collection_entry c" by (auto simp: collection_slot_iff)
  from map_delete_refines [OF step_delete.prems recv, of args] step_delete.hyps show ?case
    using turned_evolved [OF _ collection_slotD(1) [OF recv] recv(2)] by auto
next
  case (step_remove this v m b m')
  then obtain slot where "collection_slot m this Kind_Set = Ok slot" by (auto simp: delete_from_set_def bind_result_Ok_iff require_set_slot_iff)
  then obtain c where recv: "collection_slot m this Kind_Set = Ok slot" "mc_heap m ! slot = collection_entry c" by (auto simp: collection_slot_iff)
  from delete_from_set_refines [OF step_remove.prems recv, of v] step_remove.hyps show ?case
    using turned_evolved [OF _ collection_slotD(1) [OF recv] recv(2)] by auto
next
  case (step_clear this kind m v m')
  then obtain slot where "collection_slot m this kind = Ok slot" by (auto simp: collection_clear_def bind_result_Ok_iff)
  then obtain c where recv: "collection_slot m this kind = Ok slot" "mc_heap m ! slot = collection_entry c" by (auto simp: collection_slot_iff)
  from collection_clear_refines [OF step_clear.prems recv] step_clear.hyps show ?case
    using turned_evolved [OF _ collection_slotD(1) [OF recv] recv(2)] by auto
next
  case (step_gc m m')
  then show ?case using collect_store_ok(1) collect_evolved by blast
next
  case (step_machine m m')
  then show ?case by (intro undisturbed_store_ok)
qed

section \<open>Iterating while the collection changes\<close>

text \<open>
  An iteration of \<open>this\<close> with its cursor and the entries it has visited, each by its order and key, while any
  operations of the machine happen between two visits.
\<close>

inductive iteration :: "(hash_input \<Rightarrow> u64) \<Rightarrow> Value \<Rightarrow> CollectionKind \<Rightarrow> Machine \<Rightarrow> Machine \<Rightarrow> u64 \<Rightarrow> (u64 \<times> Value) list \<Rightarrow> bool"
  for hasher this kind m0 where
  iteration_start: "iteration hasher this kind m0 m0 0 []"
| iteration_visit: "iteration hasher this kind m0 m cursor visited \<Longrightarrow> collection_next m this kind cursor = Ok (Some (next_cursor, key, v)) \<Longrightarrow>
    iteration hasher this kind m0 m next_cursor (visited @ [(next_cursor - 1, key)])"
| iteration_step: "iteration hasher this kind m0 m cursor visited \<Longrightarrow> coll_step hasher m m' \<Longrightarrow>
    iteration hasher this kind m0 m' cursor visited"

text \<open>
  What holds at every point: visits are in ascending order below the cursor, and every live entry below the cursor has been visited.
\<close>

definition iteration_inv :: "(hash_input \<Rightarrow> u64) \<Rightarrow> Value \<Rightarrow> Machine \<Rightarrow> u64 \<Rightarrow> (u64 \<times> Value) list \<Rightarrow> bool" where
  "iteration_inv hasher this m cursor visited \<longleftrightarrow> store_ok hasher m \<and> sorted_wrt (<) (map fst visited) \<and> (\<forall>p \<in> set visited. fst p < cursor) \<and>
     (\<forall>slot. runtime_index this = Some slot \<longrightarrow>
        (cursor = 0 \<or> slot < length (mc_heap m)) \<and>
        (\<forall>c. slot < length (mc_heap m) \<longrightarrow> mc_heap m ! slot = collection_entry c \<longrightarrow> cursor \<le> co_next_order c \<and>
           (\<forall>e \<in> set (co_entries c). ce_live e \<longrightarrow> ce_order e < cursor \<longrightarrow> (ce_order e, ce_key e) \<in> set visited)))"

lemma visit_inv:
  assumes inv: "iteration_inv hasher this m cursor visited" and nxt: "collection_next m this kind cursor = Ok (Some (next_cursor, key, v))"
  shows "iteration_inv hasher this m next_cursor (visited @ [(next_cursor - 1, key)])"
proof -
  from inv have ok: "store_ok hasher m" by (simp add: iteration_inv_def)
  from nxt obtain slot where "collection_slot m this kind = Ok slot" by (auto simp: collection_next_def bind_result_Ok_iff)
  then obtain c where recv: "collection_slot m this kind = Ok slot" "mc_heap m ! slot = collection_entry c" by (auto simp: collection_slot_iff)
  note slot = collection_slotD(1) [OF recv] recv(2)
  note c_ok = store_okD(3) [OF ok slot]
  from nxt obtain e es where hits: "filter (\<lambda>e. ce_live e \<and> cursor \<le> ce_order e) (co_entries c) = e # es"
    and e: "next_cursor = ce_order e + 1" "key = ce_key e"
    by (auto simp: collection_next_eq [OF ok recv] split: list.splits)
  have mem: "e \<in> set (co_entries c)" "cursor \<le> ce_order e" using hits by (auto dest: filter_eq_ConsD)
  then have less: "ce_order e < co_next_order c" using c_ok by (simp add: collection_ok_def)
  then have above: "next_cursor \<le> z \<longleftrightarrow> ce_order e < z" for z unfolding e(1) by (rule word_succ_le)
  have "(ce_order f, ce_key f) \<in> set (visited @ [(ce_order e, ce_key e)])"
    if f: "f \<in> set (co_entries c)" "ce_live f" "ce_order f < next_cursor" for f
  proof (cases "ce_order f < cursor")
    case True
    then show ?thesis using inv f recv slot by (auto simp: iteration_inv_def collection_slot_iff)
  next
    case False
    with f have "f \<in> set (filter (\<lambda>e. ce_live e \<and> cursor \<le> ce_order e) (co_entries c))" by simp
    then have "f = e \<or> f \<in> set es" unfolding hits by simp
    moreover have "f \<notin> set es"
    proof
      assume "f \<in> set es"
      then have "f \<in> set (filter (\<lambda>f. ce_live f \<and> ce_order e + 1 \<le> ce_order f) (co_entries c))" by (simp only: next_cursor(1) [OF c_ok hits])
      with f(3) show False unfolding e(1) by auto
    qed
    ultimately show ?thesis by simp
  qed
  moreover have "\<forall>p \<in> set visited. fst p < ce_order e" using inv mem(2) by (auto simp: iteration_inv_def)
  moreover have "p < next_cursor" if "p \<le> ce_order e" for p using above [of p] that by (meson leI not_less)
  moreover have "runtime_index this = Some slot" using recv(1) by (simp add: collection_slot_iff)
  ultimately show ?thesis using inv slot above [of "co_next_order c"] less
    by (auto simp: iteration_inv_def sorted_wrt_append e)
qed

lemma step_inv:
  assumes inv: "iteration_inv hasher this m cursor visited" and "coll_step hasher m m'"
  shows "iteration_inv hasher this m' cursor visited"
proof -
  from inv have ok: "store_ok hasher m" by (simp add: iteration_inv_def)
  from coll_step_ok [OF assms(2) ok] have ok': "store_ok hasher m'" and ev: "evolved m m'" by simp_all
  have "cursor \<le> co_next_order c' \<and> (\<forall>e \<in> set (co_entries c'). ce_live e \<longrightarrow> ce_order e < cursor \<longrightarrow> (ce_order e, ce_key e) \<in> set visited)"
    if slot: "runtime_index this = Some slot" "slot < length (mc_heap m')" "mc_heap m' ! slot = collection_entry c'" for slot c'
  proof (cases "slot < length (mc_heap m)")
    case True
    with ev slot obtain c where c: "mc_heap m ! slot = collection_entry c" "evolves c c'" by (auto simp: evolved_def)
    with inv True slot(1) have bound: "cursor \<le> co_next_order c"
      and seen: "\<forall>e \<in> set (co_entries c). ce_live e \<longrightarrow> ce_order e < cursor \<longrightarrow> (ce_order e, ce_key e) \<in> set visited"
      by (auto simp: iteration_inv_def)
    have "(ce_order e', ce_key e') \<in> set visited" if e': "e' \<in> set (co_entries c')" "ce_live e'" "ce_order e' < cursor" for e'
    proof -
      have "\<not> co_next_order c \<le> ce_order e'" using bound e'(3) by simp
      with c(2) e' obtain e where "e \<in> set (co_entries c)" "ce_live e" "ce_order e = ce_order e'" "ce_key e = ce_key e'"
        by (auto simp: evolves_def)
      with seen e'(3) show ?thesis by metis
    qed
    then show ?thesis using bound c(2) by (auto simp: evolves_def)
  next
    case False
    with inv slot(1) have "cursor = 0" by (auto simp: iteration_inv_def)
    then show ?thesis by simp
  qed
  moreover have "cursor = 0 \<or> slot < length (mc_heap m')" if "runtime_index this = Some slot" for slot
    using inv ev that by (auto simp: iteration_inv_def evolved_def)
  ultimately show ?thesis using inv ok' by (simp add: iteration_inv_def)
qed

lemma iteration_keeps_inv:
  "iteration hasher this kind m0 m cursor visited \<Longrightarrow> store_ok hasher m0 \<Longrightarrow> iteration_inv hasher this m cursor visited"
  by (induction rule: iteration.induct) (auto intro: visit_inv step_inv simp: iteration_inv_def [of _ _ _ 0 "[]"])

section \<open>The last write wins\<close>

datatype ('k, 'v) update = Update_Put (update_key: 'k) 'v | Update_Delete (update_key: 'k)

text \<open>What any keyed dictionary promises its clients.\<close>

locale keyed_dict =
  fixes same :: "'k \<Rightarrow> 'k \<Rightarrow> bool" and get :: "'d \<Rightarrow> 'k \<Rightarrow> 'v option"
    and put :: "'d \<Rightarrow> 'k \<Rightarrow> 'v \<Rightarrow> 'd" and del :: "'d \<Rightarrow> 'k \<Rightarrow> 'd"
  assumes get_put: "get (put d k v) k' = (if same k k' then Some v else get d k')"
    and get_del: "get (del d k) k' = (if same k k' then None else get d k')"
begin

primrec apply_update :: "'d \<Rightarrow> ('k, 'v) update \<Rightarrow> 'd" where
  "apply_update d (Update_Put k v) = put d k v"
| "apply_update d (Update_Delete k) = del d k"

text \<open>A lookup after updates answers by the last one that concerns its key.\<close>

lemma last_write:
  "get (foldl apply_update d us) k =
    (case find (\<lambda>u. same (update_key u) k) (rev us) of
       None \<Rightarrow> get d k | Some (Update_Put k' v) \<Rightarrow> Some v | Some (Update_Delete k') \<Rightarrow> None)"
proof (induction us rule: rev_induct)
  case (snoc u us)
  then show ?case by (cases u) (simp_all add: get_put get_del)
qed simp

end

lemma dict_get_put:
  "dict_get m (dict_put m d k v) k' = (if same_value_zero m k k' then Some v else dict_get m d k')"
proof (cases "dict_get m d k")
  case None
  then have "same_value_zero m k k' \<Longrightarrow> dict_get m d k' = None" by (simp add: dict_get_def same_value_zero_iff)
  then show ?thesis using None by (auto simp: dict_put_def dict_get_append) (simp_all add: dict_get_def split: option.split)
next
  case (Some w)
  have "map_option snd (find (\<lambda>p. same_value_zero m (fst p) k') (map (\<lambda>p. if same_value_zero m (fst p) k then (fst p, v) else p) d)) =
      (if same_value_zero m k k' then map_option (\<lambda>_. v) (find (\<lambda>p. same_value_zero m (fst p) k) d)
       else map_option snd (find (\<lambda>p. same_value_zero m (fst p) k') d))"
    by (induction d) (auto simp: same_value_zero_iff)
  then show ?thesis using Some by (auto simp: dict_put_def dict_get_def)
qed

lemma dict_get_delete: "dict_get m (dict_delete m d k) k' = (if same_value_zero m k k' then None else dict_get m d k')"
  by (induction d) (auto simp: dict_get_def dict_delete_def same_value_zero_iff)

interpretation collection_dict: keyed_dict "same_value_zero m" "dict_get m" "dict_put m" "dict_delete m" for m
  by unfold_locales (rule dict_get_put, rule dict_get_delete)

text \<open>A sequence of \<open>set\<close> and \<open>delete\<close> calls on one collection.\<close>

definition run_update :: "(hash_input \<Rightarrow> u64) \<Rightarrow> Value \<Rightarrow> CollectionKind \<Rightarrow> Machine \<Rightarrow> (Value, Value) update \<Rightarrow> (Machine, EvalFailure) result" where
  "run_update hasher this kind m u =
    (case u of
       Update_Put k v \<Rightarrow> put_strong_entry hasher this k v kind m
     | Update_Delete k \<Rightarrow> bind_result (map_delete_for hasher this [k] kind m) (\<lambda>p. Ok (snd p)))"

lemma first_arg_single [simp]: "first_arg [k] = k"
  by (simp add: first_arg_def slice_get_def)

lemma run_update_turned:
  assumes ok: "store_ok hasher m" and recv: "collection_slot m this kind = Ok slot" "mc_heap m ! slot = collection_entry c"
    and run: "run_update hasher this kind m u = Ok m'"
  shows "turned hasher slot c (collection_dict.apply_update m (dict_of c) u) m m'"
proof (cases u)
  case (Update_Put k v)
  note slot = collection_slotD(1) [OF recv] recv(2)
  from run have put: "put_strong_entry hasher this k v kind m = Ok m'" by (simp add: run_update_def Update_Put)
  show ?thesis
  proof (cases "iter_position (key_matches m k) (co_entries c)")
    case None
    with put have a: "append_collection_entry hasher slot k v m = Ok m'"
      by (simp add: put_strong_entry_def recv(1) with_collection_eq [OF slot])
    from append_outcome [OF ok slot None append_order [OF slot a], of v] show ?thesis
      unfolding a by (simp add: put_outcome_def Update_Put split: if_splits)
  next
    case (Some i)
    with put store_value_ok [OF ok slot Some, of v] show ?thesis
      by (auto simp: put_strong_entry_def recv(1) with_collection_eq [OF slot] Update_Put)
  qed
next
  case (Update_Delete k)
  with run map_delete_refines [OF ok recv, of "[k]"] show ?thesis by (auto simp: run_update_def)
qed

lemma turned_collection:
  assumes "turned hasher slot c d m m'" and recv: "collection_slot m this kind = Ok slot" "mc_heap m ! slot = collection_entry c"
  obtains c' where "store_ok hasher m'" "collection_slot m' this kind = Ok slot" "mc_heap m' ! slot = collection_entry c'" "dict_of c' = d"
    "key_hash_input m' = key_hash_input m"
proof -
  from assms(1) obtain c' where c': "store_ok hasher m'" "mc_heap m' = (mc_heap m)[slot := collection_entry c']" "dict_of c' = d" "evolves c c'"
    by (auto simp: turned_def)
  note slot = collection_slotD [OF recv] recv(2)
  have "key_hash_input m' = key_hash_input m" by (rule replaced_hash [OF slot(1,3) c'(2)])
  then show thesis using that [of c'] c' slot recv(1) by (auto simp: collection_slot_iff evolves_def)
qed

lemma dict_ops_cong:
  "key_hash_input m' = key_hash_input m \<Longrightarrow> dict_get m' = dict_get m"
  "key_hash_input m' = key_hash_input m \<Longrightarrow> dict_put m' = dict_put m"
  "key_hash_input m' = key_hash_input m \<Longrightarrow> dict_delete m' = dict_delete m"
  by (simp_all add: fun_eq_iff dict_get_def dict_put_def dict_delete_def same_value_zero_iff)

lemma run_updates_dict:
  assumes "store_ok hasher m" and "collection_slot m this kind = Ok slot" "mc_heap m ! slot = collection_entry c"
    and "try_fold (run_update hasher this kind) m us = Ok m'"
  shows "\<exists>c'. store_ok hasher m' \<and> collection_slot m' this kind = Ok slot \<and> mc_heap m' ! slot = collection_entry c' \<and>
    key_hash_input m' = key_hash_input m \<and> dict_of c' = foldl (collection_dict.apply_update m) (dict_of c) us"
  using assms
proof (induction us arbitrary: m c)
  case (Cons u us)
  from Cons.prems(4) obtain m1 where m1: "run_update hasher this kind m u = Ok m1" "try_fold (run_update hasher this kind) m1 us = Ok m'"
    by (auto simp: bind_result_Ok_iff)
  from run_update_turned [OF Cons.prems(1-3) m1(1)] obtain c1 where c1: "store_ok hasher m1" "collection_slot m1 this kind = Ok slot"
      "mc_heap m1 ! slot = collection_entry c1" "dict_of c1 = collection_dict.apply_update m (dict_of c) u" "key_hash_input m1 = key_hash_input m"
    by (rule turned_collection [OF _ Cons.prems(2,3)])
  have "collection_dict.apply_update m1 d w = collection_dict.apply_update m d w" for d w
    by (cases w) (simp_all add: dict_ops_cong [OF c1(5)])
  then have "collection_dict.apply_update m1 = collection_dict.apply_update m" by (intro ext)
  then show ?case using Cons.IH [OF c1(1-3) m1(2)] c1(4,5) by simp
qed auto

section \<open>Properties\<close>

text \<open>A machine with one map that holds one entry.\<close>

definition sample_map :: CollectionData where
  "sample_map = \<lparr>co_kind = Kind_Map, co_entries = [\<lparr>ce_order = 0, ce_key = Value_UNDEFINED, ce_value = Value_NULL, ce_live = True\<rparr>],
     co_index = [0 \<mapsto> [0]], co_size = 1, co_next_order = 1, co_properties = [], co_prototype = None\<rparr>"

definition sample_store :: Machine where
  "sample_store = sample_machine\<lparr>mc_heap := [collection_entry sample_map], mc_slot_bytes := [ENTRY_CHARGE], mc_heap_bytes := ENTRY_CHARGE,
     mc_max_heap_bytes := 1000\<rparr>"

lemma sample_store_ok: "store_ok (\<lambda>_. 0) sample_store"
proof -
  have "ledger_ok sample_store" "contents_charged sample_store"
    by (simp_all add: sample_store_def sample_machine_def ledger_ok_def vacant_slots_def live_runtime_slots_def contents_charged_def
        counts_collection held_bytes_collection sample_map_def ENTRY_CHARGE_def CollectionEntry_BYTES_def CollectionIndex_ENTRY_BYTES_def)
  moreover have "collection_ok (\<lambda>_. 0) sample_store sample_map"
    by (simp add: collection_ok_def sample_map_def index_complete_def bucket_of_def collection_key_hash_def)
  ultimately show ?thesis by (auto simp: store_ok_def collection_of_iff) (simp_all add: sample_store_def sample_machine_def)
qed

lemma sample_receiver:
  "collection_slot sample_store (slot_ref 0) Kind_Map = Ok 0" "mc_heap sample_store ! 0 = collection_entry sample_map"
  by (simp_all add: collection_slot_iff sample_indices sample_store_def) (simp add: sample_map_def)

text \<open>
  C12. The invariant of the keyed collections holds in every machine that operations on collections, garbage collections and
  the rest of the machine lead to: in every collection the hash index finds exactly what a scan of the live entries
  finds, whatever the hash function, the size counts the live entries, and entries are in the order of insertion.
\<close>

theorem collections_stay_indexed:
  assumes "store_ok hasher m0" and "(coll_step hasher)\<^sup>*\<^sup>* m0 m"
    and "i < length (mc_heap m)" and "collection_of (mc_heap m ! i) = Some c"
  shows "index_get hasher m (co_index c) (co_entries c) key = iter_position (key_matches m key) (co_entries c) \<and>
    co_size c = length (filter ce_live (co_entries c)) \<and> sorted_wrt (<) (map ce_order (co_entries c))"
proof -
  from assms(2) have ok: "store_ok hasher m" by induction (use assms(1) coll_step_ok in blast)+
  have slot: "mc_heap m ! i = collection_entry c" using assms(4) by (simp add: collection_of_iff)
  have "sorted_wrt (<) (map ce_order (co_entries c))"
    using store_okD(3) [OF ok assms(3) slot] unfolding collection_ok_def sorted_wrt_map by (elim conjE sorted_wrt_mono_rel [rotated]) (simp add: before_def)
  then show ?thesis using index_get_ok [OF ok assms(3) slot] store_okD(3) [OF ok assms(3) slot] by (simp add: collection_ok_def)
qed

theorem collections_stay_indexed_witness:
  "store_ok (\<lambda>_. 0) sample_store \<and> (coll_step (\<lambda>_. 0))\<^sup>*\<^sup>* sample_store sample_store \<and>
   index_get (\<lambda>_. 0) sample_store (co_index sample_map) (co_entries sample_map) Value_UNDEFINED =
     iter_position (key_matches sample_store Value_UNDEFINED) (co_entries sample_map)"
  using collections_stay_indexed [OF sample_store_ok rtranclp.rtrancl_refl, of 0 sample_map Value_UNDEFINED] sample_store_ok
  by (simp add: sample_receiver(2)) (simp add: sample_store_def)

text \<open>
  C20. An iteration visits entries in the order of their insertion, none of them twice, whatever operations happen on the
  collection while it runs; and when it ends, it has visited every entry that the collection then holds.
\<close>

theorem iteration_complete:
  assumes "store_ok hasher m0" and "iteration hasher this kind m0 m cursor visited"
  shows "sorted_wrt (<) (map fst visited) \<and>
    (collection_next m this kind cursor = Ok None \<longrightarrow>
      (\<exists>slot c. collection_slot m this kind = Ok slot \<and> collection_of (mc_heap m ! slot) = Some c \<and>
        (\<forall>e \<in> set (co_entries c). ce_live e \<longrightarrow> (ce_order e, ce_key e) \<in> set visited)))"
proof -
  note inv = iteration_keeps_inv [OF assms(2,1)]
  then have ok: "store_ok hasher m" by (simp add: iteration_inv_def)
  have "\<exists>slot c. collection_slot m this kind = Ok slot \<and> collection_of (mc_heap m ! slot) = Some c \<and>
      (\<forall>e \<in> set (co_entries c). ce_live e \<longrightarrow> (ce_order e, ce_key e) \<in> set visited)" if fin: "collection_next m this kind cursor = Ok None"
  proof -
    from fin obtain slot where "collection_slot m this kind = Ok slot" by (auto simp: collection_next_def bind_result_Ok_iff)
    then obtain c where recv: "collection_slot m this kind = Ok slot" "mc_heap m ! slot = collection_entry c" by (auto simp: collection_slot_iff)
    from fin have "filter (\<lambda>e. ce_live e \<and> cursor \<le> ce_order e) (co_entries c) = []"
      by (auto simp: collection_next_eq [OF ok recv] split: list.splits)
    then have "ce_order e < cursor" if "e \<in> set (co_entries c)" "ce_live e" for e using that by (auto simp: filter_empty_conv not_le)
    then show ?thesis using inv recv by (auto simp: iteration_inv_def collection_slot_iff)
  qed
  then show ?thesis using inv by (simp add: iteration_inv_def)
qed

theorem iteration_complete_witness:
  "iteration (\<lambda>_. 0) (slot_ref 0) Kind_Map sample_store sample_store 1 [(0, Value_UNDEFINED)] \<and>
   collection_next sample_store (slot_ref 0) Kind_Map 1 = Ok None \<and>
   (\<exists>slot c. collection_slot sample_store (slot_ref 0) Kind_Map = Ok slot \<and> collection_of (mc_heap sample_store ! slot) = Some c)"
proof -
  have "collection_next sample_store (slot_ref 0) Kind_Map 0 = Ok (Some (1, Value_UNDEFINED, Value_NULL))"
    and fin: "collection_next sample_store (slot_ref 0) Kind_Map 1 = Ok None"
    by (simp_all add: collection_next_eq [OF sample_store_ok sample_receiver] sample_map_def)
  from iteration_visit [OF iteration_start this(1)]
  have it: "iteration (\<lambda>_. 0) (slot_ref 0) Kind_Map sample_store sample_store 1 [(0, Value_UNDEFINED)]" by simp
  from iteration_complete [OF sample_store_ok it] it fin show ?thesis by blast
qed

text \<open>
  C22. A keyed collection is an insertion-ordered dictionary under SameValueZero: get, has, set, delete and clear
  through the hash index, the tombstones and the compaction do to the live entries what the dictionary
  operations do, keep the invariant of the machine and its ledger and touch no other slot; setting a new key
  fails, without any effect, exactly when its entry does not fit the heap limit.
\<close>

theorem collections_are_dictionaries:
  assumes "store_ok hasher m" and "collection_slot m this kind = Ok slot" and "collection_of (mc_heap m ! slot) = Some c"
    and "unat (co_next_order c) + 1 < 2 ^ 64"
  shows "map_get_for hasher this [key] kind m = Ok (case dict_get m (dict_of c) key of None \<Rightarrow> Value_UNDEFINED | Some v \<Rightarrow> v) \<and>
    map_has_for hasher this [key] kind m = Ok (Value_boolean (dict_get m (dict_of c) key \<noteq> None)) \<and>
    put_outcome hasher slot c key (dict_put m (dict_of c) key v) m (put_strong_entry hasher this key v kind m) \<and>
    put_outcome hasher slot c key (dict_put m (dict_of c) key v) m (map_put hasher this key v kind m) \<and>
    (\<exists>m'. map_delete_for hasher this [key] kind m = Ok (Value_boolean (dict_get m (dict_of c) key \<noteq> None), m') \<and>
      turned hasher slot c (dict_delete m (dict_of c) key) m m') \<and>
    (\<exists>m'. collection_clear this kind m = Ok (Value_UNDEFINED, m') \<and> turned hasher slot c [] m m')"
proof -
  have recv: "collection_slot m this kind = Ok slot" "mc_heap m ! slot = collection_entry c" using assms(2,3) by (simp_all add: collection_of_iff)
  note ok = assms(1)
  show ?thesis using put_strong_refines [OF ok recv assms(4), of key v] map_delete_refines [OF ok recv, of "[key]"]
      collection_clear_refines [OF ok recv] by (simp add: map_get_refines [OF ok recv] map_has_refines [OF ok recv] map_put_scans [OF ok])
qed

lemma sample_absent: "iter_position (key_matches sample_store (Value_boolean True)) (co_entries sample_map) = None"
proof -
  have "Value_decode Value_UNDEFINED = Some Dec_Undefined" "Value_decode (Value_boolean True) = Some (Dec_Boolean True)"
    by (simp_all add: Value_decode_iff)
  moreover from this have "Value_UNDEFINED \<noteq> Value_boolean True" by auto
  ultimately show ?thesis by (simp add: position_None sample_map_def key_matches_def same_value_zero_iff key_hash_input_def)
qed

theorem collections_are_dictionaries_witness:
  "map_get_for (\<lambda>_. 0) (slot_ref 0) [Value_boolean True] Kind_Map sample_store = Ok Value_UNDEFINED \<and>
   (\<exists>m'. put_strong_entry (\<lambda>_. 0) (slot_ref 0) (Value_boolean True) Value_NULL Kind_Map sample_store = Ok m' \<and>
     turned (\<lambda>_. 0) 0 sample_map [(Value_UNDEFINED, Value_NULL), (Value_boolean True, Value_NULL)] sample_store m')"
proof -
  have recv: "collection_of (mc_heap sample_store ! 0) = Some sample_map" "unat (co_next_order sample_map) + 1 < 2 ^ 64"
    by (simp_all add: sample_receiver(2)) (simp add: sample_map_def)
  have absent: "dict_get sample_store (dict_of sample_map) (Value_boolean True) = None" using sample_absent by (simp add: dict_get_position)
  have "dict_put sample_store (dict_of sample_map) (Value_boolean True) Value_NULL = [(Value_UNDEFINED, Value_NULL), (Value_boolean True, Value_NULL)]"
    using dict_absent [OF sample_absent] by (simp add: dict_of_def sample_map_def)
  moreover have "mc_heap_bytes sample_store + ENTRY_CHARGE \<le> mc_max_heap_bytes sample_store"
    by (simp add: sample_store_def ENTRY_CHARGE_def CollectionEntry_BYTES_def CollectionIndex_ENTRY_BYTES_def)
  ultimately show ?thesis
    using collections_are_dictionaries [OF sample_store_ok sample_receiver(1) recv, of "Value_boolean True" Value_NULL] absent
    by (simp add: put_outcome_def)
qed

text \<open>
  After any sequence of \<open>set\<close> and \<open>delete\<close> calls on a collection, \<open>get\<close> answers by the last of them that named an
  equal key: the value it set, or undefined when it deleted the key.
\<close>

theorem lookup_returns_last_write:
  assumes "store_ok hasher m" and "collection_slot m this kind = Ok slot" and "collection_of (mc_heap m ! slot) = Some c"
    and "try_fold (run_update hasher this kind) m us = Ok m'"
  shows "map_get_for hasher this [key] kind m' =
    (case find (\<lambda>u. same_value_zero m (update_key u) key) (rev us) of
       None \<Rightarrow> map_get_for hasher this [key] kind m
     | Some (Update_Put k v) \<Rightarrow> Ok v
     | Some (Update_Delete k) \<Rightarrow> Ok Value_UNDEFINED)"
proof -
  have recv: "collection_slot m this kind = Ok slot" "mc_heap m ! slot = collection_entry c" using assms(2,3) by (simp_all add: collection_of_iff)
  from run_updates_dict [OF assms(1) recv assms(4)] obtain c' where c': "store_ok hasher m'" "collection_slot m' this kind = Ok slot"
      "mc_heap m' ! slot = collection_entry c'" "key_hash_input m' = key_hash_input m"
      "dict_of c' = foldl (collection_dict.apply_update m) (dict_of c) us" by blast
  show ?thesis
    by (simp add: map_get_refines [OF c'(1-3)] map_get_refines [OF assms(1) recv] dict_ops_cong(1) [OF c'(4)] c'(5)
        collection_dict.last_write split: option.split update.split)
qed

theorem lookup_returns_last_write_witness:
  "\<exists>m'. try_fold (run_update (\<lambda>_. 0) (slot_ref 0) Kind_Map) sample_store [Update_Put Value_UNDEFINED (Value_boolean True)] = Ok m' \<and>
     map_get_for (\<lambda>_. 0) (slot_ref 0) [Value_UNDEFINED] Kind_Map m' = Ok (Value_boolean True)"
proof -
  have recv: "collection_of (mc_heap sample_store ! 0) = Some sample_map" "unat (co_next_order sample_map) + 1 < 2 ^ 64"
    by (simp_all add: sample_receiver(2)) (simp add: sample_map_def)
  have "dict_get sample_store (dict_of sample_map) Value_UNDEFINED \<noteq> None"
    by (simp add: dict_get_def dict_of_def sample_map_def same_value_zero_iff)
  then obtain m' where m': "put_strong_entry (\<lambda>_. 0) (slot_ref 0) Value_UNDEFINED (Value_boolean True) Kind_Map sample_store = Ok m'"
    using put_strong_refines [OF sample_store_ok sample_receiver recv(2), of Value_UNDEFINED "Value_boolean True"] by (auto simp: put_outcome_def)
  then have run: "try_fold (run_update (\<lambda>_. 0) (slot_ref 0) Kind_Map) sample_store [Update_Put Value_UNDEFINED (Value_boolean True)] = Ok m'"
    by (simp add: run_update_def)
  from lookup_returns_last_write [OF sample_store_ok sample_receiver(1) recv(1) run, of Value_UNDEFINED] run show ?thesis
    by (simp add: same_value_zero_iff)
qed

text \<open>
  C16. Copying a set, whose loop reads the source by cursor while it appends to the copy, always ends. When the copy
  fits the limits it returns a new set with the elements of the source in their order, and the rest of the heap is
  untouched; otherwise it fails with the limit.
\<close>

theorem set_copy_exact:
  assumes "store_ok hasher m" and "collection_slot m source Kind_Set = Ok s" and "collection_of (mc_heap m ! s) = Some c"
  shows "\<exists>res. copy_set_data hasher prototype source m = Some res \<and>
    (if room_for_copy m c
     then \<exists>copy m' d. res = Ok (copy, m') \<and> store_ok hasher m' \<and> mc_heap m' = mc_heap m @ [collection_entry d] \<and>
       collection_slot m' copy Kind_Set = Ok (length (mc_heap m)) \<and>
       dict_of d = map (\<lambda>p. (canonicalize_key (fst p), canonicalize_key (fst p))) (dict_of c)
     else \<exists>kind. res = Err (Fail_Runtime kind))"
  using assms copy_set_data_ok [OF assms(1,2)] by (simp add: collection_of_iff)

definition sample_set_store :: Machine where
  "sample_set_store = sample_store\<lparr>mc_heap := [collection_entry (sample_map\<lparr>co_kind := Kind_Set\<rparr>)]\<rparr>"

lemma sample_set_ok: "store_ok (\<lambda>_. 0) sample_set_store"
  and sample_set_receiver: "collection_slot sample_set_store (slot_ref 0) Kind_Set = Ok 0"
    "collection_of (mc_heap sample_set_store ! 0) = Some (sample_map\<lparr>co_kind := Kind_Set\<rparr>)"
proof -
  have ledger: "ledger_ok sample_set_store" "contents_charged sample_set_store"
    by (simp_all add: sample_set_store_def sample_store_def sample_machine_def ledger_ok_def vacant_slots_def live_runtime_slots_def
        contents_charged_def counts_collection held_bytes_collection sample_map_def ENTRY_CHARGE_def CollectionEntry_BYTES_def
        CollectionIndex_ENTRY_BYTES_def)
  have "collection_ok (\<lambda>_. 0) sample_set_store (sample_map\<lparr>co_kind := Kind_Set\<rparr>)"
    by (simp add: collection_ok_def sample_map_def index_complete_def bucket_of_def collection_key_hash_def)
  then show "store_ok (\<lambda>_. 0) sample_set_store" using ledger
    by (auto simp: store_ok_def collection_of_iff) (simp_all add: sample_set_store_def sample_store_def sample_machine_def)
  show "collection_slot sample_set_store (slot_ref 0) Kind_Set = Ok 0"
    "collection_of (mc_heap sample_set_store ! 0) = Some (sample_map\<lparr>co_kind := Kind_Set\<rparr>)"
    by (simp_all add: collection_slot_iff sample_indices sample_set_store_def)
qed

theorem set_copy_exact_witness:
  "\<exists>copy m' d. copy_set_data (\<lambda>_. 0) Value_NULL (slot_ref 0) sample_set_store = Some (Ok (copy, m')) \<and>
     mc_heap m' = mc_heap sample_set_store @ [collection_entry d] \<and> length (dict_of d) = 1"
proof -
  have "room_for_copy sample_set_store (sample_map\<lparr>co_kind := Kind_Set\<rparr>)"
    by (simp add: room_for_copy_def sample_set_store_def sample_store_def sample_machine_def sample_map_def live_runtime_slots_def ENTRY_CHARGE_def
        CollectionEntry_BYTES_def CollectionIndex_ENTRY_BYTES_def)
  moreover have "length (dict_of (sample_map\<lparr>co_kind := Kind_Set\<rparr>)) = 1" by (simp add: dict_of_def sample_map_def)
  ultimately show ?thesis using set_copy_exact [OF sample_set_ok sample_set_receiver, of Value_NULL] by auto
qed

end
