(* ===== verification/Weak_Refs.thy ===== *)
theory Weak_Refs
  imports Collection_Runs "HOL-Library.Multiset"
begin

text \<open>
  Weak references and finalization registries
  (\<^verbatim>\<open>src/crates/bamts-runtime/src/builtins/weakref_finalization.rs\<close>): what a program holds weakly, what a job keeps alive,
  and the way of a holding from its registration to the cleanup callback. Calls into the interpreter
  are parameters: \<open>get_named_property\<close>, \<open>is_callable\<close>, \<open>call_value\<close> and \<open>materialize_engine_origin\<close>.
\<close>

section \<open>Operations\<close>

definition is_object :: "Machine \<Rightarrow> Value \<Rightarrow> bool" where
  "is_object m v =
    (case runtime_slot m v of
       Ok (Some index) \<Rightarrow>
         (case mc_heap m ! index of
            Entry_String s \<Rightarrow> False
          | Entry_BigInt s \<Rightarrow> False
          | Entry_PromiseResolver p used \<Rightarrow> False
          | Entry_PromiseAll p q vs remaining settled \<Rightarrow> False
          | Entry_AsyncActivation a p r \<Rightarrow> False
          | Entry_PromiseAllElement p i called \<Rightarrow> False
          | _ \<Rightarrow> True)
     | Ok None \<Rightarrow> (case Value_decode v of Some (Dec_HeapRef sid) \<Rightarrow> True | _ \<Rightarrow> False)
     | Err e \<Rightarrow> False
     | Panic \<Rightarrow> False)"

definition require_weakly_holdable :: "Machine \<Rightarrow> Value \<Rightarrow> string \<Rightarrow> (unit, EvalFailure) result" where
  "require_weakly_holdable m v operation =
    (if is_object m v then Ok ()
     else
       bind_result (map_err Fail_Runtime (runtime_slot m v)) (\<lambda>slot.
         case slot of
           None \<Rightarrow> Err (type_error operation)
         | Some index \<Rightarrow>
             bind_result (slice_index (mc_heap m) index) (\<lambda>e.
               if (case e of Entry_Symbol description \<Rightarrow> v \<notin> snd ` set (mc_symbol_registry m) | _ \<Rightarrow> False) then Ok ()
               else Err (type_error operation))))"

definition weak_ref_slot :: "Machine \<Rightarrow> Value \<Rightarrow> (usize, EvalFailure) result" where
  "weak_ref_slot m v =
    bind_result (map_err Fail_Runtime (runtime_slot m v)) (\<lambda>slot.
      case slot of
        None \<Rightarrow> Err (type_error ''WeakRef method called on incompatible receiver'')
      | Some index \<Rightarrow>
          bind_result (slice_index (mc_heap m) index) (\<lambda>e.
            case e of
              Entry_WeakRef target ps prototype \<Rightarrow> Ok index
            | _ \<Rightarrow> Err (type_error ''WeakRef method called on incompatible receiver'')))"

text \<open>The target is kept alive to the end of the job; \<open>reserves\<close> says whether the vector of kept targets can grow.\<close>

definition keep_alive_for_job :: "(usize \<Rightarrow> bool) \<Rightarrow> Value \<Rightarrow> Machine \<Rightarrow> (Machine, EvalFailure) result" where
  "keep_alive_for_job reserves target m =
    (if target \<in> set (mc_kept_alive m) then Ok m
     else
       bind_result (map_err Fail_Runtime (charge_machine VALUE_BYTES m)) (\<lambda>m.
         if \<not> reserves (length (mc_kept_alive m) + 1)
         then bind_result (map_err Fail_Runtime (refund_machine VALUE_BYTES m)) (\<lambda>m.
           Err (Fail_Runtime (Error_HeapByteLimitExceeded (mc_max_heap_bytes m))))
         else Ok (m\<lparr>mc_kept_alive := mc_kept_alive m @ [target]\<rparr>)))"

definition clear_kept_alive_for_job :: "Machine \<Rightarrow> (Machine, RuntimeErrorKind) result" where
  "clear_kept_alive_for_job m =
    bind_result (refund_machine (sat_mul (length (mc_kept_alive m)) VALUE_BYTES) m) (\<lambda>m. Ok (m\<lparr>mc_kept_alive := []\<rparr>))"

definition constructor_prototype ::
  "(Value \<Rightarrow> string \<Rightarrow> Machine \<Rightarrow> (Value \<times> Machine, EvalFailure) result) \<Rightarrow> Value \<Rightarrow> Machine \<Rightarrow> (Value \<times> Machine, EvalFailure) result" where
  "constructor_prototype get_named_property fallback m =
    (let new_target = rt_current_new_target (mc_roots m)
     in if new_target = Value_UNDEFINED then Ok (fallback, m)
        else bind_result (get_named_property new_target ''prototype'' m) (\<lambda>(candidate, m).
          Ok (if is_object m candidate then candidate else fallback, m)))"

definition weak_ref_constructor ::
  "(usize \<Rightarrow> bool) \<Rightarrow> (Value \<Rightarrow> string \<Rightarrow> Machine \<Rightarrow> (Value \<times> Machine, EvalFailure) result) \<Rightarrow> Value \<Rightarrow> Value list \<Rightarrow> bool \<Rightarrow> Machine \<Rightarrow>
   (Value \<times> Machine, EvalFailure) result" where
  "weak_ref_constructor reserves get_named_property fallback args constructing m =
    (if \<not> constructing then Err (type_error (''WeakRef constructor requires '' @ [CHR 0x27] @ ''new'' @ [CHR 0x27]))
     else
       let target = first_arg args
       in bind_result (require_weakly_holdable m target ''WeakRef target must be an object or symbol'') (\<lambda>_.
          bind_result (constructor_prototype get_named_property fallback m) (\<lambda>(prototype, m).
          bind_result (map_err Fail_Runtime (allocate (Entry_WeakRef (Some target) [] (Some prototype)) m)) (\<lambda>(weak_ref, m).
          bind_result (keep_alive_for_job reserves target m) (\<lambda>m. Ok (weak_ref, m))))))"

definition weak_ref_deref :: "(usize \<Rightarrow> bool) \<Rightarrow> Value \<Rightarrow> Machine \<Rightarrow> (Value \<times> Machine, EvalFailure) result" where
  "weak_ref_deref reserves this m =
    bind_result (weak_ref_slot m this) (\<lambda>slot.
      case mc_heap m ! slot of
        Entry_WeakRef None ps prototype \<Rightarrow> Ok (Value_UNDEFINED, m)
      | Entry_WeakRef (Some target) ps prototype \<Rightarrow> bind_result (keep_alive_for_job reserves target m) (\<lambda>m. Ok (target, m))
      | _ \<Rightarrow> Panic)"

section \<open>Registries\<close>

record RegistryData =
  rg_callback :: Value
  rg_cells :: "FinalizationCell list"
  rg_pending :: "Value list"
  rg_scheduled :: bool
  rg_properties :: PropertyMap
  rg_prototype :: "Value option"

definition registry_of :: "HeapEntry \<Rightarrow> RegistryData option" where
  "registry_of e =
    (case e of
       Entry_FinalizationRegistry cleanup_callback cells pending_holdings cleanup_scheduled ps prototype \<Rightarrow>
         Some \<lparr>rg_callback = cleanup_callback, rg_cells = cells, rg_pending = pending_holdings, rg_scheduled = cleanup_scheduled,
               rg_properties = ps, rg_prototype = prototype\<rparr>
     | _ \<Rightarrow> None)"

definition registry_entry :: "RegistryData \<Rightarrow> HeapEntry" where
  "registry_entry r = Entry_FinalizationRegistry (rg_callback r) (rg_cells r) (rg_pending r) (rg_scheduled r) (rg_properties r) (rg_prototype r)"

definition with_registry :: "'e \<Rightarrow> Machine \<Rightarrow> usize \<Rightarrow> (RegistryData \<Rightarrow> ('a, 'e) result) \<Rightarrow> ('a, 'e) result" where
  "with_registry e m slot f =
    bind_result (slice_index (mc_heap m) slot) (\<lambda>entry. case registry_of entry of None \<Rightarrow> Err e | Some r \<Rightarrow> f r)"

definition store_registry :: "usize \<Rightarrow> RegistryData \<Rightarrow> Machine \<Rightarrow> Machine" where
  "store_registry slot r m = m\<lparr>mc_heap := (mc_heap m)[slot := registry_entry r]\<rparr>"

definition finalization_registry_slot :: "Machine \<Rightarrow> Value \<Rightarrow> (usize, EvalFailure) result" where
  "finalization_registry_slot m v =
    bind_result (map_err Fail_Runtime (runtime_slot m v)) (\<lambda>slot.
      case slot of
        None \<Rightarrow> Err (type_error ''FinalizationRegistry method called on incompatible receiver'')
      | Some index \<Rightarrow>
          with_registry (type_error ''FinalizationRegistry method called on incompatible receiver'') m index (\<lambda>_. Ok index))"

definition finalization_registry_constructor ::
  "(Value \<Rightarrow> Machine \<Rightarrow> (bool, EvalFailure) result) \<Rightarrow> (Value \<Rightarrow> string \<Rightarrow> Machine \<Rightarrow> (Value \<times> Machine, EvalFailure) result) \<Rightarrow>
   Value \<Rightarrow> Value list \<Rightarrow> bool \<Rightarrow> Machine \<Rightarrow> (Value \<times> Machine, EvalFailure) result" where
  "finalization_registry_constructor is_callable get_named_property fallback args constructing m =
    (if \<not> constructing then Err (type_error (''FinalizationRegistry constructor requires '' @ [CHR 0x27] @ ''new'' @ [CHR 0x27]))
     else
       let cleanup_callback = first_arg args
       in bind_result (is_callable cleanup_callback m) (\<lambda>callable.
          if \<not> callable then Err (type_error ''FinalizationRegistry cleanup callback must be callable'')
          else
            bind_result (constructor_prototype get_named_property fallback m) (\<lambda>(prototype, m).
            map_err Fail_Runtime (allocate (Entry_FinalizationRegistry cleanup_callback [] [] False [] (Some prototype)) m))))"

definition third_arg :: "Value list \<Rightarrow> Value option" where
  "third_arg args = (case slice_get args 2 of None \<Rightarrow> None | Some v \<Rightarrow> if v = Value_UNDEFINED then None else Some v)"

definition finalization_registry_register :: "Value \<Rightarrow> Value list \<Rightarrow> Machine \<Rightarrow> (Value \<times> Machine, EvalFailure) result" where
  "finalization_registry_register this args m =
    bind_result (finalization_registry_slot m this) (\<lambda>slot.
      let target = first_arg args; held_value = second_arg args; unregister_token = third_arg args
      in bind_result (require_weakly_holdable m target ''FinalizationRegistry target must be an object or symbol'') (\<lambda>_.
         if target = held_value then Err (type_error ''FinalizationRegistry target and holdings must differ'')
         else
           bind_result (case unregister_token of None \<Rightarrow> Ok ()
             | Some token \<Rightarrow> require_weakly_holdable m token ''FinalizationRegistry unregister token must be an object or symbol'') (\<lambda>_.
           bind_result (map_err Fail_Runtime (charge_slot slot FinalizationCell_BYTES m)) (\<lambda>m.
           case registry_of (mc_heap m ! slot) of
             None \<Rightarrow> Panic
           | Some r \<Rightarrow>
               Ok (Value_UNDEFINED, store_registry slot (r\<lparr>rg_cells := rg_cells r @
                 [\<lparr>fc_target = target, fc_held_value = held_value, fc_unregister_token = unregister_token\<rparr>]\<rparr>) m)))))"

definition finalization_registry_unregister :: "Value \<Rightarrow> Value list \<Rightarrow> Machine \<Rightarrow> (Value \<times> Machine, EvalFailure) result" where
  "finalization_registry_unregister this args m =
    bind_result (finalization_registry_slot m this) (\<lambda>slot.
      let token = first_arg args
      in bind_result (require_weakly_holdable m token ''FinalizationRegistry unregister token must be an object or symbol'') (\<lambda>_.
         case registry_of (mc_heap m ! slot) of
           None \<Rightarrow> Panic
         | Some r \<Rightarrow>
             let cells = filter (\<lambda>c. fc_unregister_token c \<noteq> Some token) (rg_cells r);
                 removed = length (rg_cells r) - length cells;
                 m = store_registry slot (r\<lparr>rg_cells := cells\<rparr>) m
             in bind_result (if removed \<noteq> 0 then map_err Fail_Runtime (refund_slot slot (sat_mul removed FinalizationCell_BYTES) m) else Ok m) (\<lambda>m.
                Ok (Value_boolean (removed \<noteq> 0), m))))"

section \<open>Cleanup jobs\<close>

definition uncharged :: "MicrotaskJob \<Rightarrow> QueuedMicrotask" where
  "uncharged job = \<lparr>qm_job = job, qm_retained_bytes = 0\<rparr>"

definition ensure_microtask_capacity :: "(usize \<Rightarrow> bool) \<Rightarrow> usize \<Rightarrow> Machine \<Rightarrow> (unit, RuntimeErrorKind) result" where
  "ensure_microtask_capacity reserves additional m =
    (if \<not> fits (length (rt_microtasks (mc_roots m))) additional (jc_max_microtasks (mc_jobs m))
     then Err (Error_MicrotaskQueueLimitExceeded (jc_max_microtasks (mc_jobs m)))
     else if \<not> reserves additional then Err (Error_HeapByteLimitExceeded (mc_max_heap_bytes m))
     else Ok ())"

definition push_microtasks :: "QueuedMicrotask list \<Rightarrow> Machine \<Rightarrow> Machine" where
  "push_microtasks qs m = m\<lparr>mc_roots := (mc_roots m)\<lparr>rt_microtasks := rt_microtasks (mc_roots m) @ qs\<rparr>\<rparr>"

definition schedule_finalization_cleanup_jobs :: "(usize \<Rightarrow> bool) \<Rightarrow> Machine \<Rightarrow> (usize \<times> Machine, RuntimeErrorKind) result" where
  "schedule_finalization_cleanup_jobs reserves m =
    (let count = length (mc_finalization_cleanup_queue m)
     in bind_result (ensure_microtask_capacity reserves count m) (\<lambda>_.
        let jobs = map (\<lambda>registry. uncharged (Job_FinalizationCleanup registry (rt_context_global (mc_roots m)))) (mc_finalization_cleanup_queue m)
        in Ok (count, push_microtasks jobs (m\<lparr>mc_finalization_cleanup_queue := []\<rparr>))))"

definition queue_finalization_cleanup_candidate :: "Value \<Rightarrow> Machine \<Rightarrow> Machine" where
  "queue_finalization_cleanup_candidate registry m =
    (case runtime_slot m registry of
       Ok (Some slot) \<Rightarrow>
         (case registry_of (mc_heap m ! slot) of
            None \<Rightarrow> m
          | Some r \<Rightarrow>
              if \<not> rg_scheduled r
              then (store_registry slot (r\<lparr>rg_scheduled := True\<rparr>) m)
                \<lparr>mc_finalization_cleanup_queue := mc_finalization_cleanup_queue m @ [registry]\<rparr>
              else m)
     | _ \<Rightarrow> m)"

text \<open>The start of one round of the cleanup loop: take the next holding, if there is one, and refund it.\<close>

definition take_holding :: "Value \<Rightarrow> usize \<Rightarrow> Machine \<Rightarrow> ((Value \<times> bool) option \<times> Machine, RuntimeErrorKind) result" where
  "take_holding registry slot m =
    with_registry (Error_InvalidValue registry) m slot (\<lambda>r.
      case rg_pending r of
        [] \<Rightarrow> Ok (None, m)
      | held_value # rest \<Rightarrow>
          bind_result (refund_slot slot VALUE_BYTES (store_registry slot (r\<lparr>rg_pending := rest\<rparr>) m)) (\<lambda>m.
            Ok (Some (held_value, rest \<noteq> []), m)))"

text \<open>The value that an abrupt call stands for; engine errors are materialised by the interpreter.\<close>

fun promise_rejection_value ::
  "(ThrowOrigin \<Rightarrow> Machine \<Rightarrow> (Value, RuntimeErrorKind) result \<times> Machine) \<Rightarrow> EvalFailure \<Rightarrow> Machine \<Rightarrow>
   (Value \<times> ThrowOrigin, EvalFailure) result \<times> Machine" where
  "promise_rejection_value materialize_engine_origin (Fail_ThrowValue v) m = (Ok (v, Origin_Bytecode), m)"
| "promise_rejection_value materialize_engine_origin (Fail_ThrowValueOrigin v origin) m = (Ok (v, origin), m)"
| "promise_rejection_value materialize_engine_origin (Fail_Throw Origin_Bytecode) m = (Ok (Value_UNDEFINED, Origin_Bytecode), m)"
| "promise_rejection_value materialize_engine_origin (Fail_Throw origin) m =
     (case materialize_engine_origin origin m of (r, m) \<Rightarrow> (bind_result (map_err Fail_Runtime r) (\<lambda>v. Ok (v, origin)), m))"
| "promise_rejection_value materialize_engine_origin (Fail_Runtime kind) m = (Err (Fail_Runtime kind), m)"

definition failure_kind :: "Value \<Rightarrow> EvalFailure \<Rightarrow> RuntimeErrorKind" where
  "failure_kind callback failure = (case failure of Fail_Runtime kind \<Rightarrow> kind | _ \<Rightarrow> Error_InvalidValue callback)"

partial_function (option) cleanup_loop ::
  "(Value \<Rightarrow> Value \<Rightarrow> Value list \<Rightarrow> Machine \<Rightarrow> (Value, EvalFailure) result \<times> Machine) \<Rightarrow>
   (ThrowOrigin \<Rightarrow> Machine \<Rightarrow> (Value, RuntimeErrorKind) result \<times> Machine) \<Rightarrow>
   Value \<Rightarrow> Value \<Rightarrow> usize \<Rightarrow> Machine \<Rightarrow> (((Value \<times> ThrowOrigin) option, RuntimeErrorKind) result \<times> Machine) option" where
  "cleanup_loop call_value materialize_engine_origin registry callback slot m =
    (case take_holding registry slot m of
       Err e \<Rightarrow> Some (Err e, m)
     | Panic \<Rightarrow> Some (Panic, m)
     | Ok (None, m) \<Rightarrow> Some (Ok None, m)
     | Ok (Some (held_value, has_more), m) \<Rightarrow>
         (case call_value callback Value_UNDEFINED [held_value] m of
            (Ok v, m) \<Rightarrow> cleanup_loop call_value materialize_engine_origin registry callback slot m
          | (Panic, m) \<Rightarrow> Some (Panic, m)
          | (Err (Fail_Runtime e), m) \<Rightarrow>
              Some (Err e, if has_more then queue_finalization_cleanup_candidate registry m else m)
          | (Err failure, m) \<Rightarrow>
              let m = (if has_more then queue_finalization_cleanup_candidate registry m else m)
              in case promise_rejection_value materialize_engine_origin failure m of
                   (r, m) \<Rightarrow> Some (bind_result (map_err (failure_kind callback) r) (\<lambda>exception. Ok (Some exception)), m)))"

definition execute_finalization_cleanup_job ::
  "(Value \<Rightarrow> Value \<Rightarrow> Value list \<Rightarrow> Machine \<Rightarrow> (Value, EvalFailure) result \<times> Machine) \<Rightarrow>
   (ThrowOrigin \<Rightarrow> Machine \<Rightarrow> (Value, RuntimeErrorKind) result \<times> Machine) \<Rightarrow>
   Value \<Rightarrow> Machine \<Rightarrow> (((Value \<times> ThrowOrigin) option, RuntimeErrorKind) result \<times> Machine) option" where
  "execute_finalization_cleanup_job call_value materialize_engine_origin registry m =
    (case runtime_slot m registry of
       Err e \<Rightarrow> Some (Err e, m)
     | Panic \<Rightarrow> Some (Panic, m)
     | Ok None \<Rightarrow> Some (Err (Error_InvalidValue registry), m)
     | Ok (Some slot) \<Rightarrow>
         (case registry_of (mc_heap m ! slot) of
            None \<Rightarrow> Some (Err (Error_InvalidValue registry), m)
          | Some r \<Rightarrow>
              cleanup_loop call_value materialize_engine_origin registry (rg_callback r) slot
                (store_registry slot (r\<lparr>rg_scheduled := False\<rparr>) m)))"

section \<open>Entries in their slots\<close>

lemma registry_of_iff: "registry_of e = Some r \<longleftrightarrow> e = registry_entry r"
  by (cases e) (auto simp: registry_of_def registry_entry_def)

lemma registry_of_entry [simp]: "registry_of (registry_entry r) = Some r"
  by (simp add: registry_of_iff)

lemma with_registry_eq: "slot < length (mc_heap m) \<Longrightarrow> registry_of (mc_heap m ! slot) = Some r \<Longrightarrow> with_registry e m slot f = f r"
  by (simp add: with_registry_def slice_index_def)

lemma store_registry_heap [simp]: "mc_heap (store_registry slot r m) = (mc_heap m)[slot := registry_entry r]"
  by (simp add: store_registry_def)

lemma charge_slot_heap: "charge_slot i b m = Ok m' \<Longrightarrow> mc_heap m' = mc_heap m"
  by (auto simp: charge_slot_def Let_def bind_result_Ok_iff sync_slot_ledger_def)

lemma refund_slot_heap: "refund_slot i b m = Ok m' \<Longrightarrow> mc_heap m' = mc_heap m"
  by (auto simp: refund_slot_def Let_def bind_result_Ok_iff sync_slot_ledger_def split: option.splits)

lemma finalization_registry_slot_iff:
  "finalization_registry_slot m v = Ok slot \<longleftrightarrow> runtime_index v = Some slot \<and> slot < length (mc_heap m) \<and> (\<exists>r. registry_of (mc_heap m ! slot) = Some r)"
proof -
  have "runtime_slot m v = Ok (Some i) \<Longrightarrow> i < length (mc_heap m)" for i by (simp add: runtime_slot_iff present_def)
  then have "finalization_registry_slot m v = Ok slot \<longleftrightarrow> runtime_slot m v = Ok (Some slot) \<and> (\<exists>r. registry_of (mc_heap m ! slot) = Some r)"
    by (cases "runtime_slot m v") (auto simp: finalization_registry_slot_def with_registry_def slice_index_def split: option.splits)
  moreover have "registry_of e = Some r \<Longrightarrow> \<not> is_vacant e" for e r by (auto simp: registry_of_iff registry_entry_def is_vacant_def)
  ultimately show ?thesis by (auto simp: runtime_slot_iff present_def)
qed

lemma weak_ref_slot_iff:
  "weak_ref_slot m v = Ok slot \<longleftrightarrow> runtime_index v = Some slot \<and> slot < length (mc_heap m) \<and>
    (\<exists>target ps prototype. mc_heap m ! slot = Entry_WeakRef target ps prototype)"
proof -
  have "runtime_slot m v = Ok (Some i) \<Longrightarrow> i < length (mc_heap m)" for i by (simp add: runtime_slot_iff present_def)
  then have "weak_ref_slot m v = Ok slot \<longleftrightarrow> runtime_slot m v = Ok (Some slot) \<and> (\<exists>target ps prototype. mc_heap m ! slot = Entry_WeakRef target ps prototype)"
    by (cases "runtime_slot m v") (auto simp: weak_ref_slot_def slice_index_def split: option.splits HeapEntry.splits)
  then show ?thesis by (auto simp: runtime_slot_iff present_def is_vacant_def)
qed

section \<open>A dereferenced target lives to the end of the job\<close>

text \<open>
  The state between a dereference and the end of the job: the weak reference is a root, its target is kept alive.
\<close>

definition holds_target :: "Value \<Rightarrow> Value \<Rightarrow> Machine \<Rightarrow> bool" where
  "holds_target this target m \<longleftrightarrow> ledger_ok m \<and> contents_charged m \<and> refs_valid m \<and>
     Visit_Value this \<in> set (trace_roots m) \<and> target \<in> set (mc_kept_alive m) \<and> runtime_index target \<noteq> None \<and>
     (\<exists>slot ps prototype. runtime_index this = Some slot \<and> slot < length (mc_heap m) \<and> mc_heap m ! slot = Entry_WeakRef (Some target) ps prototype)"

lemma holds_target_deref:
  assumes "holds_target this target m"
  shows "weak_ref_deref reserves this m = Ok (target, m)"
proof -
  from assms obtain slot ps prototype where slot: "runtime_index this = Some slot" "slot < length (mc_heap m)"
      "mc_heap m ! slot = Entry_WeakRef (Some target) ps prototype" by (auto simp: holds_target_def)
  then have "weak_ref_slot m this = Ok slot" by (simp add: weak_ref_slot_iff)
  then show ?thesis using assms slot(3) by (simp add: weak_ref_deref_def keep_alive_for_job_def holds_target_def)
qed

lemma root_reached:
  "refs_valid m \<Longrightarrow> Visit_Value v \<in> set (trace_roots m) \<Longrightarrow> runtime_index v = Some i \<Longrightarrow> gc_reach (mc_heap m) (trace_roots m) i"
  by (intro reach_root [of "Visit_Value v"]) (auto simp: refs_valid_def visits_valid_iff)

lemma kept_alive_root: "v \<in> set (mc_kept_alive m) \<Longrightarrow> Visit_Value v \<in> set (trace_roots m)"
  by (simp add: trace_roots_def trace_values_def Let_def)

lemma roots_grow:
  assumes "same_roots m m'" and "length (mc_heap m') = length (mc_heap m)" and "mc_finalization_cleanup_queue m' = mc_finalization_cleanup_queue m @ q"
  shows "set (trace_roots m) \<subseteq> set (trace_roots m')"
  using assms by (auto simp: trace_roots_def Let_def same_roots_def trace_values_def)

lemma holds_target_collect:
  assumes hold: "holds_target this target m" and "collect hasher m = Ok m'"
  shows "holds_target this target m'"
proof -
  from hold have ok: "ledger_ok m" "contents_charged m" "refs_valid m" and root: "Visit_Value this \<in> set (trace_roots m)"
    and kept: "target \<in> set (mc_kept_alive m)" by (auto simp: holds_target_def)
  from hold obtain slot ps prototype where slot: "runtime_index this = Some slot" "slot < length (mc_heap m)"
      "mc_heap m ! slot = Entry_WeakRef (Some target) ps prototype" by (auto simp: holds_target_def)
  from collect_ok [OF ok(1,2), of hasher] assms(2) have m': "ledger_ok m'" "contents_charged m'" "same_roots m m'"
      "mc_heap m' = map (collected_entry hasher m) [0..<length (mc_heap m)]" "mc_finalization_cleanup_queue m' = collected_queue m" by auto
  have "kept_value m target" using hold root_reached [OF ok(3) kept_alive_root [OF kept]] by (auto simp: kept_value_def holds_target_def)
  moreover have "gc_reach (mc_heap m) (trace_roots m) slot" by (rule root_reached [OF ok(3) root slot(1)])
  ultimately have "mc_heap m' ! slot = Entry_WeakRef (Some target) ps prototype"
    using slot by (simp add: m'(4) collected_entry_def released_entry_def purged_entry_def)
  moreover have "set (trace_roots m) \<subseteq> set (trace_roots m')" using m' by (intro roots_grow) (simp_all add: collected_queue_def)
  ultimately show ?thesis
    using m' slot root hold collect_refs_valid [OF ok assms(2)] by (auto simp: holds_target_def same_roots_def)
qed

lemma charge_machine_fields:
  assumes "charge_machine b m = Ok m'"
  shows "mc_heap m' = mc_heap m" "mc_slot_bytes m' = mc_slot_bytes m" "mc_intrinsic_slots m' = mc_intrinsic_slots m"
    "mc_kept_alive m' = mc_kept_alive m" "trace_roots m' = trace_roots m"
  using assms by (auto simp: charge_machine_def bind_result_Ok_iff Let_def request_garbage_collection_def trace_roots_def)

lemma ledger_ok_kept_alive:
  "ledger_ok (m\<lparr>mc_kept_alive := ks\<rparr>) \<longleftrightarrow> ledger_ok m" "ledger_ok (m\<lparr>mc_finalization_cleanup_queue := q\<rparr>) \<longleftrightarrow> ledger_ok m"
  by (simp_all add: ledger_ok_def vacant_slots_def live_runtime_slots_def)

lemma deref_holds_target:
  assumes ok: "ledger_ok m" "contents_charged m" "refs_valid m" and root: "Visit_Value this \<in> set (trace_roots m)"
    and deref: "weak_ref_deref reserves this m = Ok (v, m')" and v: "runtime_index v \<noteq> None"
  shows "holds_target this v m'"
proof -
  from deref obtain slot where "weak_ref_slot m this = Ok slot" by (auto simp: weak_ref_deref_def bind_result_Ok_iff)
  then obtain target ps prototype where slot: "weak_ref_slot m this = Ok slot" "runtime_index this = Some slot" "slot < length (mc_heap m)"
      "mc_heap m ! slot = Entry_WeakRef target ps prototype" by (auto simp: weak_ref_slot_iff)
  have "target = Some v" and keep: "keep_alive_for_job reserves v m = Ok m'"
    using deref v slot by (auto simp: weak_ref_deref_def bind_result_Ok_iff split: option.splits)
  then have entry: "mc_heap m ! slot = Entry_WeakRef (Some v) ps prototype" using slot(4) by simp
  from ok(3) slot(3) entry have "visits_valid (mc_heap m) [Visit_Value v]" by (auto simp: refs_valid_def visits_valid_def weak_visits_def dest!: spec)
  show ?thesis
  proof (cases "v \<in> set (mc_kept_alive m)")
    case True
    with keep have "m' = m" by (simp add: keep_alive_for_job_def)
    then show ?thesis using ok root v True slot entry by (auto simp: holds_target_def)
  next
    case False
    with keep obtain m1 where m1: "charge_machine VALUE_BYTES m = Ok m1" "m' = m1\<lparr>mc_kept_alive := mc_kept_alive m1 @ [v]\<rparr>"
      by (auto simp: keep_alive_for_job_def bind_result_Ok_iff split: if_splits)
    note same = charge_machine_fields [OF m1(1)]
    have "ledger_ok m'" using charge_machine_ok [OF ok(1) m1(1)] by (simp add: m1(2) ledger_ok_kept_alive)
    moreover have heap: "mc_heap m' = mc_heap m" by (simp add: m1(2) same)
    moreover have "contents_charged m'" using ok(2) by (simp add: contents_charged_def m1(2) same)
    moreover have roots: "set (trace_roots m') = insert (Visit_Value v) (set (trace_roots m))"
      unfolding same(5) [symmetric] m1(2) by (auto simp: trace_roots_def trace_values_def Let_def)
    moreover have "refs_valid m'"
      using ok(3) \<open>visits_valid (mc_heap m) [Visit_Value v]\<close> unfolding refs_valid_def visits_valid_def roots heap by simp
    ultimately show ?thesis using root v slot entry by (auto simp: holds_target_def m1(2) same)
  qed
qed


lemma sample_deref:
  "\<exists>m1. weak_ref_deref (\<lambda>_. True) (slot_ref 0) sample_machine = Ok (slot_ref 2, m1) \<and> ledger_ok m1 \<and> contents_charged m1 \<and> mc_kept_alive m1 = [slot_ref 2]"
proof -
  let ?d = "weak_ref_deref (\<lambda>_. True) (slot_ref 0) sample_machine"
  have "weak_ref_slot sample_machine (slot_ref 0) = Ok 0" by (simp add: weak_ref_slot_iff sample_indices) (simp add: sample_machine_def)
  moreover have "\<exists>m1. charge_machine VALUE_BYTES sample_machine = Ok m1"
    by (simp add: charge_machine_def sample_machine_def VALUE_BYTES_def ensure_allocation_capacity_def live_runtime_slots_def fits_def
        usize_add_def usize_checked_add_def expect_def Let_def request_garbage_collection_def)
  moreover have "mc_heap sample_machine ! 0 = Entry_WeakRef (Some (slot_ref 2)) [(KeyNamed [120], PropertyData (slot_ref 1))] None"
    and "mc_kept_alive sample_machine = []" by (simp_all add: sample_machine_def)
  ultimately obtain m1 where d: "?d = Ok (slot_ref 2, m1)" "mc_kept_alive m1 = [slot_ref 2]"
    using charge_machine_fields(4) [of VALUE_BYTES sample_machine] by (auto simp: weak_ref_deref_def keep_alive_for_job_def)
  moreover have "holds_target (slot_ref 0) (slot_ref 2) m1"
    by (rule deref_holds_target [OF sample_ok sample_refs _ d(1)]) (simp_all add: sample_trace sample_indices)
  ultimately show ?thesis by (auto simp: holds_target_def)
qed


section \<open>A registry through the operations\<close>

definition registry_at :: "usize \<Rightarrow> RegistryData \<Rightarrow> Machine \<Rightarrow> bool" where
  "registry_at slot r m \<longleftrightarrow> ledger_ok m \<and> contents_charged m \<and> mc_intrinsic_slots m \<le> slot \<and> slot < length (mc_heap m) \<and>
     mc_heap m ! slot = registry_entry r"

lemma registry_atD:
  assumes "registry_at slot r m"
  shows "ledger_ok m" "contents_charged m" "mc_intrinsic_slots m \<le> slot" "slot < length (mc_heap m)" "mc_heap m ! slot = registry_entry r"
  using assms by (auto simp: registry_at_def)

lemma registry_bytes:
  "held_bytes (registry_entry r) = length (rg_cells r) * FinalizationCell_BYTES + length (rg_pending r) * VALUE_BYTES"
  "counts_entries (registry_entry r)" "\<not> is_vacant (registry_entry r)"
  by (simp_all add: registry_entry_def held_bytes_def counts_entries_def is_vacant_def)

lemma registry_charged:
  assumes "registry_at slot r m"
  shows "held_bytes (registry_entry r) \<le> mc_slot_bytes m ! slot"
  using registry_atD [OF assms] by (auto simp: contents_charged_def)

lemma registry_replaced:
  assumes at: "registry_at slot r m"
    and m': "ledger_ok m'" "mc_heap m' = (mc_heap m)[slot := registry_entry r']" "mc_intrinsic_slots m' = mc_intrinsic_slots m"
    and bytes: "mc_slot_bytes m' = (mc_slot_bytes m)[slot := b]" "held_bytes (registry_entry r') \<le> b"
  shows "registry_at slot r' m'"
proof -
  have "contents_charged m'"
    using registry_atD(2,3,4) [OF at] bytes(2) ledger_okD(1) [OF registry_atD(1) [OF at]]
    by (auto simp: contents_charged_def m' bytes(1) nth_list_update registry_bytes(2))
  with m' registry_atD(3,4) [OF at] show ?thesis by (simp add: registry_at_def)
qed

lemma register_at:
  assumes at: "registry_at slot r m" and reg: "runtime_index reg = Some slot"
    and "finalization_registry_register reg args m = Ok (v, m')"
  shows "registry_at slot (r\<lparr>rg_cells := rg_cells r @ [\<lparr>fc_target = first_arg args, fc_held_value = second_arg args,
    fc_unregister_token = third_arg args\<rparr>]\<rparr>) m'" (is "registry_at slot ?r m'")
proof -
  note m = registry_atD [OF at]
  have slot: "finalization_registry_slot m reg = Ok slot" using reg m by (auto simp: finalization_registry_slot_iff)
  with assms(3) obtain m1 where m1: "charge_slot slot FinalizationCell_BYTES m = Ok m1"
    and "(case registry_of (mc_heap m1 ! slot) of None \<Rightarrow> Panic | Some r \<Rightarrow> Ok (Value_UNDEFINED, store_registry slot (r\<lparr>rg_cells := rg_cells r @
      [\<lparr>fc_target = first_arg args, fc_held_value = second_arg args, fc_unregister_token = third_arg args\<rparr>]\<rparr>) m1)) = (Ok (v, m') :: (Value \<times> Machine, EvalFailure) result)"
    by (auto simp: finalization_registry_register_def Let_def bind_result_Ok_iff split: if_splits)
  then have m': "m' = store_registry slot ?r m1" using m(5) charge_slot_heap [OF m1] by simp
  have charged: "m1 = charged_slot slot FinalizationCell_BYTES m" using m1 m(4) by (simp add: charge_slot_eq [OF m(1)] split: if_splits)
  have "ledger_ok m'" using charge_slot_ok [OF m(1,4) m1] m(5) charge_slot_heap [OF m1]
    unfolding m' store_registry_def by (intro ledger_ok_heap_update) (simp_all add: registry_bytes)
  then show ?thesis
  proof (rule registry_replaced [OF at, where b = "mc_slot_bytes m ! slot + FinalizationCell_BYTES"])
    show "mc_slot_bytes m' = (mc_slot_bytes m)[slot := mc_slot_bytes m ! slot + FinalizationCell_BYTES]"
      by (simp add: m' store_registry_def charged charge_due_owned [OF m(1,3)])
  qed (use registry_charged [OF at] in \<open>simp_all add: m' store_registry_def charged registry_bytes algebra_simps\<close>)
qed

text \<open>Taking contents out of a registry and refunding exactly their bytes never fails.\<close>

lemma refund_registry:
  assumes at: "registry_at slot r m" and b: "held_bytes (registry_entry r') + b \<le> held_bytes (registry_entry r)"
  shows "\<exists>m'. refund_slot slot b (store_registry slot r' m) = Ok m' \<and> registry_at slot r' m' \<and> other_fields m m' \<and>
    mc_finalization_cleanup_queue m' = mc_finalization_cleanup_queue m"
proof -
  note m = registry_atD [OF at]
  have le: "b \<le> mc_slot_bytes m ! slot" using b registry_charged [OF at] by linarith
  have "is_vacant (registry_entry r') = is_vacant (mc_heap m ! slot)" by (simp add: m(5) registry_bytes)
  from replace_and_refund [OF m(1,4) this le] obtain m' where m': "refund_slot slot b (store_registry slot r' m) = Ok m'" "ledger_ok m'"
      "slot_step slot (registry_entry r') (mc_slot_bytes m ! slot - b) [] m m'"
    by (auto simp: store_registry_def)
  have "registry_at slot r' m'"
    by (rule registry_replaced [OF at m'(2), where b = "mc_slot_bytes m ! slot - b"])
      (use m'(3) b registry_charged [OF at] in \<open>auto simp: slot_step_def other_fields_def\<close>)
  with m' show ?thesis by (auto simp: slot_step_def)
qed

lemma sat_mul_exact: "a * b < 2 ^ 64 \<Longrightarrow> sat_mul a b = a * b"
  by (simp add: sat_mul_def u64_saturating_def)

lemma unregister_at:
  assumes at: "registry_at slot r m" and reg: "runtime_index reg = Some slot"
    and "finalization_registry_unregister reg args m = Ok (v, m')"
  shows "registry_at slot (r\<lparr>rg_cells := filter (\<lambda>c. fc_unregister_token c \<noteq> Some (first_arg args)) (rg_cells r)\<rparr>) m'"
    (is "registry_at slot ?r m'") and "v = Value_boolean (\<exists>c \<in> set (rg_cells r). fc_unregister_token c = Some (first_arg args))"
proof -
  note m = registry_atD [OF at]
  let ?n = "length (rg_cells r) - length (rg_cells ?r)"
  have slot: "finalization_registry_slot m reg = Ok slot" using reg m by (auto simp: finalization_registry_slot_iff)
  have le: "length (rg_cells ?r) \<le> length (rg_cells r)" by simp
  have some: "?n \<noteq> 0 \<longleftrightarrow> (\<exists>c \<in> set (rg_cells r). fc_unregister_token c = Some (first_arg args))"
    using le length_filter_less [of _ "rg_cells r" "\<lambda>c. fc_unregister_token c \<noteq> Some (first_arg args)"]
      filter_id_conv [of "\<lambda>c. fc_unregister_token c \<noteq> Some (first_arg args)" "rg_cells r"] by (auto simp flip: not_less)
  have held: "held_bytes (registry_entry ?r) + ?n * FinalizationCell_BYTES = held_bytes (registry_entry r)"
    using le unfolding registry_bytes by (simp add: add_mult_distrib [symmetric])
  have "held_bytes (registry_entry r) < 2 ^ 64"
    using registry_charged [OF at] slot_charge_le [OF m(1,4)] ledger_okD(8,9) [OF m(1)] by linarith
  then have "sat_mul ?n FinalizationCell_BYTES = ?n * FinalizationCell_BYTES" using held by (intro sat_mul_exact) linarith
  with refund_registry [OF at, of ?r "?n * FinalizationCell_BYTES"] held obtain m2 where
    m2: "refund_slot slot (sat_mul ?n FinalizationCell_BYTES) (store_registry slot ?r m) = Ok m2" "registry_at slot ?r m2" by auto
  have "(if ?n \<noteq> 0 then map_err Fail_Runtime (refund_slot slot (sat_mul ?n FinalizationCell_BYTES) (store_registry slot ?r m))
      else Ok (store_registry slot ?r m)) = Ok m'" and v: "v = Value_boolean (?n \<noteq> 0)"
    using assms(3) slot m(5) by (auto simp: finalization_registry_unregister_def Let_def bind_result_Ok_iff not_le)
  then have "if ?n = 0 then m' = store_registry slot ?r m else m' = m2" using m2(1) by (simp split: if_splits)
  moreover have "?n = 0 \<Longrightarrow> ?r = r" using some by (auto simp: filter_id_conv)
  moreover have "store_registry slot r m = m" using m(4,5) by (simp add: store_registry_def list_update_same_conv)
  ultimately show "registry_at slot ?r m'" using m2(2) at by (simp split: if_splits)
  show "v = Value_boolean (\<exists>c \<in> set (rg_cells r). fc_unregister_token c = Some (first_arg args))" using v some by simp
qed

lemma take_holding_at:
  assumes at: "registry_at slot r m"
  shows "take_holding reg slot m = Ok (None, m) \<and> rg_pending r = [] \<or>
    (\<exists>h rest m'. rg_pending r = h # rest \<and> take_holding reg slot m = Ok (Some (h, rest \<noteq> []), m') \<and>
       registry_at slot (r\<lparr>rg_pending := rest\<rparr>) m' \<and> other_fields m m')"
proof (cases "rg_pending r")
  case Nil
  then show ?thesis using registry_atD [OF at] by (simp add: take_holding_def with_registry_eq)
next
  case (Cons h rest)
  then have "held_bytes (registry_entry (r\<lparr>rg_pending := rest\<rparr>)) + VALUE_BYTES \<le> held_bytes (registry_entry r)" by (simp add: registry_bytes)
  from refund_registry [OF at this] show ?thesis using Cons registry_atD [OF at] by (auto simp: take_holding_def with_registry_eq)
qed

lemma collect_at:
  assumes at: "registry_at slot r m" and "collect hasher m = Ok m'" and "gc_reach (mc_heap m) (trace_roots m) slot"
  shows "registry_at slot (r\<lparr>rg_cells := filter (\<lambda>c. kept_value m (fc_target c)) (rg_cells r),
    rg_pending := rg_pending r @ map fc_held_value (filter (\<lambda>c. \<not> kept_value m (fc_target c)) (rg_cells r)),
    rg_scheduled := rg_scheduled r \<or> rg_pending r @ map fc_held_value (filter (\<lambda>c. \<not> kept_value m (fc_target c)) (rg_cells r)) \<noteq> []\<rparr>) m'"
proof -
  note m = registry_atD [OF at]
  from collect_ok [OF m(1,2), of hasher] assms(2) have m': "ledger_ok m'" "contents_charged m'" "same_roots m m'"
      "mc_heap m' = map (collected_entry hasher m) [0..<length (mc_heap m)]" by auto
  then show ?thesis using m assms(3)
    by (simp add: registry_at_def same_roots_def collected_entry_def released_entry_def purged_entry_def registry_entry_def Let_def)
qed

section \<open>Every registered holding is accounted for\<close>

text \<open>
  The life of a registry: calls of its methods, collections that keep it, holdings taken for its callback, and whatever the rest of
  the machine does without touching its cells and pending holdings. The lists record the holdings registered, unregistered and delivered.
\<close>

inductive registry_run :: "(hash_input \<Rightarrow> u64) \<Rightarrow> usize \<Rightarrow> Value list \<Rightarrow> Value list \<Rightarrow> Value list \<Rightarrow> Machine \<Rightarrow> bool" for hasher slot where
  run_start: "registry_at slot r m \<Longrightarrow> rg_cells r = [] \<Longrightarrow> rg_pending r = [] \<Longrightarrow> registry_run hasher slot [] [] [] m"
| run_register: "registry_run hasher slot hs us ds m \<Longrightarrow> runtime_index reg = Some slot \<Longrightarrow>
    finalization_registry_register reg args m = Ok (v, m') \<Longrightarrow> registry_run hasher slot (hs @ [second_arg args]) us ds m'"
| run_unregister: "registry_run hasher slot hs us ds m \<Longrightarrow> runtime_index reg = Some slot \<Longrightarrow> registry_of (mc_heap m ! slot) = Some r \<Longrightarrow>
    finalization_registry_unregister reg args m = Ok (v, m') \<Longrightarrow>
    registry_run hasher slot hs (us @ map fc_held_value (filter (\<lambda>c. fc_unregister_token c = Some (first_arg args)) (rg_cells r))) ds m'"
| run_collect: "registry_run hasher slot hs us ds m \<Longrightarrow> gc_reach (mc_heap m) (trace_roots m) slot \<Longrightarrow> collect hasher m = Ok m' \<Longrightarrow>
    registry_run hasher slot hs us ds m'"
| run_deliver: "registry_run hasher slot hs us ds m \<Longrightarrow> take_holding reg slot m = Ok (Some (h, has_more), m') \<Longrightarrow>
    registry_run hasher slot hs us (ds @ [h]) m'"
| run_machine: "registry_run hasher slot hs us ds m \<Longrightarrow> registry_at slot r m \<Longrightarrow> registry_at slot r' m' \<Longrightarrow>
    rg_cells r' = rg_cells r \<Longrightarrow> rg_pending r' = rg_pending r \<Longrightarrow> registry_run hasher slot hs us ds m'"

lemma holdings_split: "mset (map f (filter P xs)) + mset (map f (filter (\<lambda>x. \<not> P x) xs)) = mset (map f xs)"
  by (induction xs) auto

lemma registry_at_unique: "registry_at slot r m \<Longrightarrow> registry_at slot r' m \<Longrightarrow> r' = r"
  by (auto simp: registry_at_def simp flip: registry_of_iff)

definition holdings_balance :: "Value list \<Rightarrow> Value list \<Rightarrow> Value list \<Rightarrow> RegistryData \<Rightarrow> bool" where
  "holdings_balance hs us ds r \<longleftrightarrow> mset hs = mset us + mset ds + mset (rg_pending r) + mset (map fc_held_value (rg_cells r))"

lemma registry_run_balance:
  "registry_run hasher slot hs us ds m \<Longrightarrow> \<exists>r. registry_at slot r m \<and> holdings_balance hs us ds r"
proof (induction rule: registry_run.induct)
  case (run_start r m)
  then show ?case by (auto simp: holdings_balance_def)
next
  case (run_register hs us ds m reg args v m')
  then obtain r where r: "registry_at slot r m" "holdings_balance hs us ds r" by blast
  show ?case by (intro exI conjI, rule register_at [OF r(1) run_register.hyps(2,3)]) (use r(2) in \<open>simp add: holdings_balance_def\<close>)
next
  case (run_unregister hs us ds m reg r args v m')
  then obtain r0 where r: "registry_at slot r0 m" "holdings_balance hs us ds r0" by blast
  then have "r0 = r" using run_unregister.hyps by (auto simp: registry_at_def)
  then show ?case using r unregister_at(1) [OF r(1) run_unregister.hyps(2,4)]
      holdings_split [of fc_held_value "\<lambda>c. fc_unregister_token c = Some (first_arg args)" "rg_cells r"]
    by (auto simp: holdings_balance_def ac_simps)
next
  case (run_collect hs us ds m m')
  then obtain r where r: "registry_at slot r m" "holdings_balance hs us ds r" by blast
  show ?case
    by (intro exI conjI, rule collect_at [OF r(1) run_collect.hyps(3,2)])
      (use r(2) holdings_split [of fc_held_value "\<lambda>c. kept_value m (fc_target c)" "rg_cells r"] in \<open>simp add: holdings_balance_def ac_simps\<close>)
next
  case (run_deliver hs us ds m reg h has_more m')
  then obtain r where r: "registry_at slot r m" "holdings_balance hs us ds r" by blast
  from take_holding_at [OF r(1), of reg] run_deliver.hyps(2) r(2) show ?case by (auto simp: holdings_balance_def)
next
  case (run_machine hs us ds m r r' m')
  then show ?case using registry_at_unique by (fastforce simp: holdings_balance_def)
qed

text \<open>
  C27. No holding is lost and none is delivered twice: through every sequence of \<open>register\<close>, \<open>unregister\<close>, collections and deliveries,
  the holdings registered with a registry are exactly those unregistered, those handed to the callback, those pending and those in its cells.
\<close>

theorem holdings_conserved:
  assumes "registry_run hasher slot registered unregistered delivered m"
  shows "\<exists>r. mc_heap m ! slot = registry_entry r \<and>
    mset registered = mset unregistered + mset delivered + mset (rg_pending r) + mset (map fc_held_value (rg_cells r))"
  using registry_run_balance [OF assms] by (auto simp: holdings_balance_def registry_at_def)

section \<open>A cleanup job\<close>

text \<open>The calls of the callback on successive holdings, each of which returns.\<close>

inductive delivers for call_value callback registry slot where
  delivers_none: "delivers call_value callback registry slot [] m m"
| delivers_next: "take_holding registry slot m = Ok (Some (h, has_more), m1) \<Longrightarrow> call_value callback Value_UNDEFINED [h] m1 = (Ok v, m2) \<Longrightarrow>
    delivers call_value callback registry slot hs m2 m3 \<Longrightarrow> delivers call_value callback registry slot (h # hs) m m3"

text \<open>What a callback leaves of its registry: its pending holdings and its place on the queue.\<close>

definition keeps_pending :: "usize \<Rightarrow> Machine \<Rightarrow> Machine \<Rightarrow> bool" where
  "keeps_pending slot m m' \<longleftrightarrow> set (mc_finalization_cleanup_queue m) \<subseteq> set (mc_finalization_cleanup_queue m') \<and>
     (\<forall>r. registry_at slot r m \<longrightarrow> (\<exists>r'. registry_at slot r' m' \<and> rg_pending r' = rg_pending r \<and> rg_scheduled r' = rg_scheduled r))"

lemma queue_candidate_at:
  assumes at: "registry_at slot r m" and reg: "runtime_index registry = Some slot"
  shows "\<exists>r'. registry_at slot r' (queue_finalization_cleanup_candidate registry m) \<and> rg_pending r' = rg_pending r \<and> rg_scheduled r'"
    and "\<not> rg_scheduled r \<Longrightarrow> registry \<in> set (mc_finalization_cleanup_queue (queue_finalization_cleanup_candidate registry m))"
proof -
  note m = registry_atD [OF at]
  have slot: "runtime_slot m registry = Ok (Some slot)" using m(4,5) reg by (simp add: runtime_slot_iff present_def registry_bytes)
  let ?m = "(store_registry slot (r\<lparr>rg_scheduled := True\<rparr>) m)\<lparr>mc_finalization_cleanup_queue := mc_finalization_cleanup_queue m @ [registry]\<rparr>"
  have "ledger_ok (store_registry slot (r\<lparr>rg_scheduled := True\<rparr>) m)"
    unfolding store_registry_def by (rule ledger_ok_heap_update [OF m(1)]) (simp add: m(5) registry_bytes)
  then have "ledger_ok ?m" by (simp add: ledger_ok_kept_alive)
  then have "registry_at slot (r\<lparr>rg_scheduled := True\<rparr>) ?m"
    by (rule registry_replaced [OF at, where b = "mc_slot_bytes m ! slot"])
      (use registry_charged [OF at] in \<open>simp_all add: store_registry_def registry_bytes\<close>)
  then show "\<exists>r'. registry_at slot r' (queue_finalization_cleanup_candidate registry m) \<and> rg_pending r' = rg_pending r \<and> rg_scheduled r'"
    using at by (auto simp: queue_finalization_cleanup_candidate_def slot m(5))
  show "\<not> rg_scheduled r \<Longrightarrow> registry \<in> set (mc_finalization_cleanup_queue (queue_finalization_cleanup_candidate registry m))"
    by (simp add: queue_finalization_cleanup_candidate_def slot m(5))
qed

text \<open>A job that a callback ends: the other holdings stay pending, in order, and the registry is queued again for them.\<close>

definition stopped_at ::
  "(Value \<Rightarrow> Value \<Rightarrow> Value list \<Rightarrow> Machine \<Rightarrow> (Value, EvalFailure) result \<times> Machine) \<Rightarrow> Value \<Rightarrow> Value \<Rightarrow> usize \<Rightarrow>
   Value list \<Rightarrow> Value \<Rightarrow> Value list \<Rightarrow> Machine \<Rightarrow> Machine \<Rightarrow> bool" where
  "stopped_at call_value callback registry slot hs h rest m m' \<longleftrightarrow>
     (\<exists>m0 m1 m2 failure. delivers call_value callback registry slot hs m m0 \<and> take_holding registry slot m0 = Ok (Some (h, rest \<noteq> []), m1) \<and>
        call_value callback Value_UNDEFINED [h] m1 = (Err failure, m2)) \<and>
     (\<exists>r'. registry_at slot r' m' \<and> rg_pending r' = rest \<and> (rest \<noteq> [] \<longrightarrow> rg_scheduled r' \<and> registry \<in> set (mc_finalization_cleanup_queue m')))"

lemma stopped_at_Cons:
  assumes "take_holding registry slot m = Ok (Some (h0, has_more), m1)" and "call_value callback Value_UNDEFINED [h0] m1 = (Ok v, m2)"
    and "stopped_at call_value callback registry slot hs h rest m2 m'"
  shows "stopped_at call_value callback registry slot (h0 # hs) h rest m m'"
  using assms(3) delivers_next [where call_value = call_value and callback = callback, OF assms(1,2)] unfolding stopped_at_def by blast

lemma cleanup_stops:
  assumes call: "take_holding registry slot m = Ok (Some (h, rest \<noteq> []), m1)" "call_value callback Value_UNDEFINED [h] m1 = (Err failure, m2)"
    and at: "registry_at slot r m2" "rg_pending r = rest" "\<not> rg_scheduled r" and reg: "runtime_index registry = Some slot"
    and engine: "\<And>origin s res s'. materialize_engine_origin origin s = (res, s') \<Longrightarrow> keeps_pending slot s s'"
  shows "\<exists>outcome m'. cleanup_loop call_value materialize_engine_origin registry callback slot m = Some (outcome, m') \<and>
    stopped_at call_value callback registry slot [] h rest m m'"
proof -
  let ?q = "if rest \<noteq> [] then queue_finalization_cleanup_candidate registry m2 else m2"
  obtain r1 where r1: "registry_at slot r1 ?q" "rg_pending r1 = rest" "rest \<noteq> [] \<longrightarrow> rg_scheduled r1 \<and> registry \<in> set (mc_finalization_cleanup_queue ?q)"
    using queue_candidate_at [OF at(1) reg] at by (cases "rest = []") auto
  have stop: "stopped_at call_value callback registry slot [] h rest m s" if "keeps_pending slot ?q s" for s
  proof -
    from that r1 obtain r2 where "registry_at slot r2 s" "rg_pending r2 = rest" "rest \<noteq> [] \<longrightarrow> rg_scheduled r2 \<and> registry \<in> set (mc_finalization_cleanup_queue s)"
      unfolding keeps_pending_def by blast
    then show ?thesis using call delivers_none [of call_value callback registry slot m] unfolding stopped_at_def by blast
  qed
  have idle: "keeps_pending slot ?q ?q" by (auto simp: keeps_pending_def)
  show ?thesis
  proof (cases "\<exists>e. failure = Fail_Runtime e")
    case True
    then show ?thesis using call stop [OF idle] by (subst cleanup_loop.simps) auto
  next
    case False
    obtain res s where s: "promise_rejection_value materialize_engine_origin failure ?q = (res, s)" by fastforce
    then have "keeps_pending slot ?q s" using idle engine
      by (cases "(materialize_engine_origin, failure, ?q)" rule: promise_rejection_value.cases) (auto split: prod.splits)
    then show ?thesis using call s stop False by (subst cleanup_loop.simps) (auto simp: Let_def split: EvalFailure.split)
  qed
qed

lemma cleanup_loop_ends:
  assumes reg: "runtime_index registry = Some slot"
    and calls: "\<And>h s res s'. call_value callback Value_UNDEFINED [h] s = (res, s') \<Longrightarrow> res \<noteq> Panic \<and> keeps_pending slot s s'"
    and engine: "\<And>origin s res s'. materialize_engine_origin origin s = (res, s') \<Longrightarrow> keeps_pending slot s s'"
  shows "registry_at slot r m \<Longrightarrow> rg_pending r = hs \<Longrightarrow> \<not> rg_scheduled r \<Longrightarrow>
    \<exists>outcome m'. cleanup_loop call_value materialize_engine_origin registry callback slot m = Some (outcome, m') \<and>
      (outcome = Ok None \<and> delivers call_value callback registry slot hs m m' \<and> (\<exists>r'. registry_at slot r' m' \<and> rg_pending r' = []) \<or>
       (\<exists>xs h rest. hs = xs @ h # rest \<and> stopped_at call_value callback registry slot xs h rest m m'))"
proof (induction hs arbitrary: r m)
  case Nil
  then have "take_holding registry slot m = Ok (None, m)" using take_holding_at [OF Nil.prems(1), of registry] by auto
  then show ?case using Nil.prems by (subst cleanup_loop.simps) (auto intro: delivers_none)
next
  case (Cons h hs)
  from take_holding_at [OF Cons.prems(1), of registry] Cons.prems(2) obtain m1 where
    m1: "take_holding registry slot m = Ok (Some (h, hs \<noteq> []), m1)" "registry_at slot (r\<lparr>rg_pending := hs\<rparr>) m1" by auto
  obtain res m2 where m2: "call_value callback Value_UNDEFINED [h] m1 = (res, m2)" by fastforce
  from calls [OF m2] m1(2) obtain r2 where r2: "registry_at slot r2 m2" "rg_pending r2 = hs" "\<not> rg_scheduled r2" and res: "res \<noteq> Panic"
    using Cons.prems(3) by (auto simp: keeps_pending_def)
  show ?case
  proof (cases res)
    case (Ok v)
    note step = m1(1) m2 [unfolded Ok]
    have eq: "cleanup_loop call_value materialize_engine_origin registry callback slot m = cleanup_loop call_value materialize_engine_origin registry callback slot m2"
      by (subst cleanup_loop.simps) (simp add: step)
    from Cons.IH [OF r2] obtain outcome m' where m': "cleanup_loop call_value materialize_engine_origin registry callback slot m2 = Some (outcome, m')"
      and "outcome = Ok None \<and> delivers call_value callback registry slot hs m2 m' \<and> (\<exists>r'. registry_at slot r' m' \<and> rg_pending r' = []) \<or>
       (\<exists>xs h rest. hs = xs @ h # rest \<and> stopped_at call_value callback registry slot xs h rest m2 m')" by blast
    then have "outcome = Ok None \<and> delivers call_value callback registry slot (h # hs) m m' \<and> (\<exists>r'. registry_at slot r' m' \<and> rg_pending r' = []) \<or>
       (\<exists>xs g rest. h # hs = xs @ g # rest \<and> stopped_at call_value callback registry slot xs g rest m m')"
      using delivers_next [where call_value = call_value and callback = callback, OF step] stopped_at_Cons [where call_value = call_value and callback = callback, OF step]
      by (metis append_Cons)
    with m' show ?thesis unfolding eq by blast
  next
    case (Err failure)
    from cleanup_stops [where call_value = call_value and callback = callback, OF m1(1) m2 [unfolded Err] r2 reg engine] show ?thesis by fastforce
  qed (use res in simp)
qed


section \<open>A concrete registry\<close>

definition sample_registry :: "FinalizationCell list \<Rightarrow> Value list \<Rightarrow> RegistryData" where
  "sample_registry cells pending = \<lparr>rg_callback = slot_ref 1, rg_cells = cells, rg_pending = pending, rg_scheduled = False, rg_properties = [],
     rg_prototype = None\<rparr>"

definition registry_machine :: "RegistryData \<Rightarrow> Machine" where
  "registry_machine r = sample_machine\<lparr>mc_heap := [registry_entry r, Entry_Object [] None None, Entry_Object [] None None],
     mc_slot_bytes := [held_bytes (registry_entry r) + 1, 1, 1], mc_heap_bytes := held_bytes (registry_entry r) + 3, mc_max_heap_bytes := 1000\<rparr>"

lemma registry_machine_at: "held_bytes (registry_entry r) \<le> 900 \<Longrightarrow> registry_at 0 r (registry_machine r)"
  by (simp add: registry_at_def registry_machine_def sample_machine_def ledger_ok_def vacant_slots_def live_runtime_slots_def contents_charged_def
      registry_bytes(2,3) All_less_Suc numeral_3_eq_3) (simp add: is_vacant_def counts_entries_def held_bytes_def)


lemma sample_register:
  "\<exists>v m'. finalization_registry_register (slot_ref 0) [slot_ref 2, Value_boolean True, slot_ref 1] (registry_machine (sample_registry [] [])) = Ok (v, m') \<and>
     trace_roots m' = trace_roots sample_machine"
proof -
  let ?m = "registry_machine (sample_registry [] [])"
  have at: "registry_at 0 (sample_registry [] []) ?m" by (rule registry_machine_at) (simp add: registry_bytes sample_registry_def)
  note m = registry_atD [OF at]
  have reg: "finalization_registry_slot ?m (slot_ref 0) = Ok 0" using m sample_indices(1) by (auto simp: finalization_registry_slot_iff)
  have "runtime_slot ?m (slot_ref 2) = Ok (Some 2)" "runtime_slot ?m (slot_ref 1) = Ok (Some 1)"
    unfolding runtime_slot_iff using sample_indices by (simp_all add: registry_machine_def present_def is_vacant_def)
  then have holdable: "require_weakly_holdable ?m (slot_ref 2) op = Ok ()" "require_weakly_holdable ?m (slot_ref 1) op = Ok ()" for op
    by (simp_all add: require_weakly_holdable_def is_object_def registry_machine_def)
  have "Value_decode (Value_boolean True) = Some (Dec_Boolean True)" "Value_decode Value_UNDEFINED = Some Dec_Undefined"
    by (simp_all add: Value_decode_iff)
  then have "slot_ref 2 \<noteq> Value_boolean True" "slot_ref 1 \<noteq> Value_UNDEFINED"
    using decode_slot_ref [of 2] decode_slot_ref [of 1] by auto
  then have args: "first_arg [slot_ref 2, Value_boolean True, slot_ref 1] \<noteq> second_arg [slot_ref 2, Value_boolean True, slot_ref 1]"
    "third_arg [slot_ref 2, Value_boolean True, slot_ref 1] = Some (slot_ref 1)"
    "first_arg [slot_ref 2, Value_boolean True, slot_ref 1] = slot_ref 2"
    by (simp_all add: first_arg_def second_arg_def third_arg_def slice_get_def)
  have charge: "charge_slot 0 FinalizationCell_BYTES ?m = Ok (charged_slot 0 FinalizationCell_BYTES ?m)"
    using charge_slot_eq [OF m(1,4), of FinalizationCell_BYTES] charge_due_owned [OF m(1,3), of FinalizationCell_BYTES]
    by (simp add: registry_machine_def registry_bytes sample_registry_def FinalizationCell_BYTES_def)
  show ?thesis
    using reg holdable args charge m(5)
    by (simp add: finalization_registry_register_def Let_def)
      (simp add: trace_roots_def store_registry_def charged_slot_def registry_machine_def request_garbage_collection_def sample_machine_def)
qed

theorem holdings_conserved_witness:
  "\<exists>m. registry_run (\<lambda>_. 0) 0 [Value_boolean True] [] [] m \<and> (\<exists>r. mc_heap m ! 0 = registry_entry r \<and>
     mset [Value_boolean True] = mset (rg_pending r) + mset (map fc_held_value (rg_cells r)))"
proof -
  let ?m = "registry_machine (sample_registry [] [])" and ?args = "[slot_ref 2, Value_boolean True, slot_ref 1]"
  have at: "registry_at 0 (sample_registry [] []) ?m" by (rule registry_machine_at) (simp add: registry_bytes sample_registry_def)
  from sample_register obtain v m1 where m1: "finalization_registry_register (slot_ref 0) ?args ?m = Ok (v, m1)"
    and roots: "trace_roots m1 = trace_roots sample_machine" by blast
  have "registry_run (\<lambda>_. 0) 0 [] [] [] ?m" by (rule run_start [OF at]) (simp_all add: sample_registry_def)
  from run_register [OF this sample_indices(1) m1] have run: "registry_run (\<lambda>_. 0) 0 [Value_boolean True] [] [] m1"
    by (simp add: second_arg_def slice_get_def)
  note at1 = registry_atD [OF register_at [OF at sample_indices(1) m1]]
  have "gc_reach (mc_heap m1) (trace_roots m1) 0"
    by (rule reach_root [of "Visit_Value (slot_ref 0)"]) (use at1 sample_indices(1) in \<open>auto simp: roots sample_trace present_def registry_bytes\<close>)
  moreover obtain m2 where "collect (\<lambda>_. 0) m1 = Ok m2" using collect_ok [OF at1(1,2), of "\<lambda>_. 0"] by blast
  ultimately have "registry_run (\<lambda>_. 0) 0 [Value_boolean True] [] [] m2" using run by (blast intro: run_collect)
  with holdings_conserved [OF this] show ?thesis by auto
qed

section \<open>What the code does not do\<close>

text \<open>
  Symbols count as objects for \<open>is_object\<close>, so the check of the symbol registry in \<open>require_weakly_holdable\<close> is never reached and a
  registered symbol can be held weakly, although the keys of weak collections must not be registered.
\<close>

lemma registered_symbol_held:
  assumes "runtime_slot m v = Ok (Some i)" and "mc_heap m ! i = Entry_Symbol description" and "map_of (mc_symbol_registry m) description = Some v"
  shows "require_weakly_holdable m v operation = Ok ()" and "\<exists>e. require_weak_key m v = Err e"
proof -
  have "i < length (mc_heap m)" using assms(1) by (simp add: runtime_slot_iff present_def)
  with assms show "require_weakly_holdable m v operation = Ok ()" "\<exists>e. require_weak_key m v = Err e"
    by (simp_all add: require_weakly_holdable_def is_object_def require_weak_key_def slice_index_def weak_key_entry_def)
qed

text \<open>
  During a cleanup job nothing roots its registry: the job has left the queue, and the native frame that runs it keeps only a local. When the registry
  is otherwise unreachable and the callback collects garbage, the registry is swept under the job, which then fails with an invalid value.
\<close>

definition collecting_callback :: "Value \<Rightarrow> Value \<Rightarrow> Value list \<Rightarrow> Machine \<Rightarrow> (Value, EvalFailure) result \<times> Machine" where
  "collecting_callback callback this args m =
    (case collect (\<lambda>_. 0) m of Ok m' \<Rightarrow> (Ok Value_UNDEFINED, m') | Err e \<Rightarrow> (Err (Fail_Runtime e), m) | Panic \<Rightarrow> (Panic, m))"

lemma cleanup_loses_registry:
  assumes at: "registry_at slot r m" and "rg_pending r = h # rest"
    and unrooted: "\<And>m1. take_holding registry slot m = Ok (Some (h, rest \<noteq> []), m1) \<Longrightarrow> \<not> gc_reach (mc_heap m1) (trace_roots m1) slot"
  shows "\<exists>m'. cleanup_loop collecting_callback materialize_engine_origin registry callback slot m = Some (Err (Error_InvalidValue registry), m')"
proof -
  from take_holding_at [OF at, of registry] assms(2) obtain m1 where
    m1: "take_holding registry slot m = Ok (Some (h, rest \<noteq> []), m1)" "registry_at slot (r\<lparr>rg_pending := rest\<rparr>) m1" by auto
  note m = registry_atD [OF m1(2)]
  from collect_ok [OF m(1,2), of "\<lambda>_. 0"] obtain m2 where m2: "collect (\<lambda>_. 0) m1 = Ok m2"
      "mc_heap m2 = map (collected_entry (\<lambda>_. 0) m1) [0..<length (mc_heap m1)]" by blast
  have "slot < length (mc_heap m2)" "mc_heap m2 ! slot = Entry_Vacant"
    using m(4) unrooted [OF m1(1)] by (simp_all add: m2(2) collected_entry_def)
  then have "take_holding registry slot m2 = Err (Error_InvalidValue registry)"
    by (simp add: take_holding_def with_registry_def slice_index_def registry_of_def)
  then have "cleanup_loop collecting_callback materialize_engine_origin registry callback slot m2 = Some (Err (Error_InvalidValue registry), m2)"
    by (subst cleanup_loop.simps) simp
  then show ?thesis by (subst cleanup_loop.simps) (simp add: m1(1) collecting_callback_def m2(1))
qed

end
