(* ===== verification/Eval_State.thy ===== *)
theory Eval_State
  imports Heap_Ledger
begin

text \<open>
  Computations of the runtime machine that fail with the state they have reached: a Rust method on
  \<open>&mut self\<close> that returns a \<open>Result\<close> leaves its changes behind when it returns an error. The combinators
  stand for \<open>?\<close> and for the reads and writes of fields; \<open>runs_ok P f\<close> says that \<open>f\<close> keeps an
  invariant whatever it returns, and never panics where the invariant holds.
\<close>

type_synonym ('a, 'e) eval = "Machine \<Rightarrow> ('a, 'e) result \<times> Machine"

definition eval_ok :: "'a \<Rightarrow> ('a, 'e) eval" where
  "eval_ok a m = (Ok a, m)"

definition eval_err :: "'e \<Rightarrow> ('a, 'e) eval" where
  "eval_err e m = (Err e, m)"

definition eval_panic :: "('a, 'e) eval" where
  "eval_panic m = (Panic, m)"

definition eval_bind :: "('a, 'e) eval \<Rightarrow> ('a \<Rightarrow> ('b, 'e) eval) \<Rightarrow> ('b, 'e) eval" where
  "eval_bind f g m = (case f m of (Ok a, m') \<Rightarrow> g a m' | (Err e, m') \<Rightarrow> (Err e, m') | (Panic, m') \<Rightarrow> (Panic, m'))"

definition eval_map_err :: "('e \<Rightarrow> 'f) \<Rightarrow> ('a, 'e) eval \<Rightarrow> ('a, 'f) eval" where
  "eval_map_err h f m = (case f m of (r, m') \<Rightarrow> (map_err h r, m'))"

text \<open>A \<open>match\<close> on the outcome of a call that handles errors; a panic unwinds.\<close>

definition eval_match :: "('a, 'e) eval \<Rightarrow> ('a \<Rightarrow> ('b, 'f) eval) \<Rightarrow> ('e \<Rightarrow> ('b, 'f) eval) \<Rightarrow> ('b, 'f) eval" where
  "eval_match f g h m = (case f m of (Ok a, m') \<Rightarrow> g a m' | (Err e, m') \<Rightarrow> h e m' | (Panic, m') \<Rightarrow> (Panic, m'))"

definition reads :: "(Machine \<Rightarrow> ('a, 'e) result) \<Rightarrow> ('a, 'e) eval" where
  "reads f m = (f m, m)"

definition modifies :: "(Machine \<Rightarrow> Machine) \<Rightarrow> (unit, 'e) eval" where
  "modifies f m = (Ok (), f m)"

definition updates :: "(Machine \<Rightarrow> (Machine, 'e) result) \<Rightarrow> (unit, 'e) eval" where
  "updates f m = (case f m of Ok m' \<Rightarrow> (Ok (), m') | Err e \<Rightarrow> (Err e, m) | Panic \<Rightarrow> (Panic, m))"

definition produces :: "(Machine \<Rightarrow> ('a \<times> Machine, 'e) result) \<Rightarrow> ('a, 'e) eval" where
  "produces f m = (case f m of Ok (a, m') \<Rightarrow> (Ok a, m') | Err e \<Rightarrow> (Err e, m) | Panic \<Rightarrow> (Panic, m))"

lemmas eval_defs = eval_ok_def eval_err_def eval_panic_def eval_bind_def eval_map_err_def eval_match_def reads_def modifies_def updates_def produces_def

lemma eval_bind_simps [simp]:
  "f m = (Ok a, m') \<Longrightarrow> eval_bind f g m = g a m'"
  "f m = (Err e, m') \<Longrightarrow> eval_bind f g m = (Err e, m')"
  "f m = (Panic, m') \<Longrightarrow> eval_bind f g m = (Panic, m')"
  by (simp_all add: eval_bind_def)

section \<open>Invariants of computations\<close>

definition runs_ok :: "(Machine \<Rightarrow> bool) \<Rightarrow> ('a, 'e) eval \<Rightarrow> bool" where
  "runs_ok P f \<longleftrightarrow> (\<forall>m. P m \<longrightarrow> fst (f m) \<noteq> Panic \<and> P (snd (f m)))"

lemma runs_okI: "(\<And>m. P m \<Longrightarrow> fst (f m) \<noteq> Panic \<and> P (snd (f m))) \<Longrightarrow> runs_ok P f"
  by (simp add: runs_ok_def)

lemma runs_okD: "runs_ok P f \<Longrightarrow> P m \<Longrightarrow> f m = (r, m') \<Longrightarrow> r \<noteq> Panic \<and> P m'"
  by (metis runs_ok_def fst_conv snd_conv)

named_theorems runs

lemma runs_ok_simple [runs]: "runs_ok P (eval_ok a)" "runs_ok P (eval_err e)"
  by (simp_all add: runs_ok_def eval_ok_def eval_err_def)

lemma runs_ok_bind [runs]: "runs_ok P f \<Longrightarrow> (\<And>a. runs_ok P (g a)) \<Longrightarrow> runs_ok P (eval_bind f g)"
  by (auto simp: runs_ok_def eval_bind_def split: result.splits prod.splits)

lemma runs_ok_match [runs]: "runs_ok P f \<Longrightarrow> (\<And>a. runs_ok P (g a)) \<Longrightarrow> (\<And>e. runs_ok P (h e)) \<Longrightarrow> runs_ok P (eval_match f g h)"
  by (auto simp: runs_ok_def eval_match_def split: result.splits prod.splits)

lemma runs_ok_map_err [runs]: "runs_ok P f \<Longrightarrow> runs_ok P (eval_map_err h f)"
proof (rule runs_okI)
  fix m
  assume "runs_ok P f" and "P m"
  then have "fst (f m) \<noteq> Panic \<and> P (snd (f m))" by (simp add: runs_ok_def)
  then show "fst (eval_map_err h f m) \<noteq> Panic \<and> P (snd (eval_map_err h f m))"
    by (cases "f m"; cases "fst (f m)") (auto simp: eval_map_err_def)
qed

lemma runs_ok_reads [runs]: "(\<And>m. f m \<noteq> Panic) \<Longrightarrow> runs_ok P (reads f)"
  by (simp add: runs_ok_def reads_def)

lemma runs_ok_modifies [runs]: "(\<And>m. P m \<Longrightarrow> P (f m)) \<Longrightarrow> runs_ok P (modifies f)"
  by (simp add: runs_ok_def modifies_def)

lemma runs_ok_updates: "(\<And>m. P m \<Longrightarrow> f m \<noteq> Panic) \<Longrightarrow> (\<And>m m'. P m \<Longrightarrow> f m = Ok m' \<Longrightarrow> P m') \<Longrightarrow> runs_ok P (updates f)"
  by (rule runs_okI) (auto simp: updates_def split: result.splits)

lemma runs_ok_produces:
  "(\<And>m. P m \<Longrightarrow> f m \<noteq> Panic) \<Longrightarrow> (\<And>m a m'. P m \<Longrightarrow> f m = Ok (a, m') \<Longrightarrow> P m') \<Longrightarrow> runs_ok P (produces f)"
  by (rule runs_okI) (auto simp: produces_def split: result.splits)

lemma runs_ok_if [runs]: "(c \<Longrightarrow> runs_ok P f) \<Longrightarrow> (\<not> c \<Longrightarrow> runs_ok P g) \<Longrightarrow> runs_ok P (if c then f else g)"
  by simp

lemma runs_ok_option [runs]: "(x = None \<Longrightarrow> runs_ok P f) \<Longrightarrow> (\<And>a. x = Some a \<Longrightarrow> runs_ok P (g a)) \<Longrightarrow> runs_ok P (case x of None \<Rightarrow> f | Some a \<Rightarrow> g a)"
  by (simp split: option.split)

lemma runs_ok_prod [runs]: "(\<And>a b. x = (a, b) \<Longrightarrow> runs_ok P (g a b)) \<Longrightarrow> runs_ok P (case x of (a, b) \<Rightarrow> g a b)"
  by (simp split: prod.split)

lemma runs_ok_choose [runs]: "runs_ok P f \<Longrightarrow> runs_ok P g \<Longrightarrow> runs_ok P (\<lambda>m. if c m then f m else g m)"
  by (simp add: runs_ok_def)

end
