(* ===== verification/Promises.thy ===== *)
theory Promises
  imports Weak_Refs Eval_State
begin

text \<open>
  Promises (\<^verbatim>\<open>src/crates/bamts-runtime/src/lib.rs\<close>): creation, resolvers, resolution with adoption of
  thenables, settlement, and the functions that attach reactions to a promise. Settling moves the bytes
  of the queued reactions from the promise's slot to the machine, job by job, and refunds the rest. What the
  interpreter does (calls, property reads, resumption of activations) is the parameter \<open>Interpreter\<close>.
\<close>

section \<open>The interpreter as seen from jobs\<close>

record Interpreter =
  it_call_value :: "Value \<Rightarrow> Value \<Rightarrow> Value list \<Rightarrow> (Value, EvalFailure) eval"
  it_get_named_property :: "Value \<Rightarrow> string \<Rightarrow> (Value, EvalFailure) eval"
  it_is_callable :: "Value \<Rightarrow> Machine \<Rightarrow> (bool, EvalFailure) result"
  it_materialize_engine_origin :: "ThrowOrigin \<Rightarrow> (Value, RuntimeErrorKind) eval"
  it_reserves :: "usize \<Rightarrow> bool"
  it_promise_prototype :: Value
  it_promise_resolver_targets :: "Value \<times> Value"
  it_resume_async_function :: "Value \<Rightarrow> Value \<Rightarrow> ThrowOrigin option \<Rightarrow> (unit, RuntimeErrorKind) eval"
  it_resume_async_generator :: "Value \<Rightarrow> Value \<Rightarrow> ThrowOrigin option \<Rightarrow> (unit, RuntimeErrorKind) eval"
  it_on_module_dep_fulfilled :: "u32 \<Rightarrow> (unit, RuntimeErrorKind) eval"
  it_on_module_dep_rejected :: "u32 \<Rightarrow> Value \<Rightarrow> ThrowOrigin \<Rightarrow> (unit, RuntimeErrorKind) eval"
  it_iterator_result :: "Value \<Rightarrow> bool \<Rightarrow> (Value, EvalFailure) eval"
  it_continue_async_disposal :: "Value \<Rightarrow> Value option \<Rightarrow> Value option \<Rightarrow> Value \<Rightarrow> (unit, EvalFailure) eval"
  it_module_namespace :: "u32 \<Rightarrow> u32 \<Rightarrow> (Value, RuntimeErrorKind) eval"
  it_create_iterator :: "Value \<Rightarrow> (Value, EvalFailure) eval"
  it_iterator_next :: "Value \<Rightarrow> (bool \<times> Value, EvalFailure) eval"
  it_array_prototype :: Value
  it_promise_all_target :: Value

section \<open>Creating promises and resolvers\<close>

definition context_global :: "Machine \<Rightarrow> Value option" where
  "context_global m = rt_context_global (mc_roots m)"

definition enqueue_microtask_callback :: "Interpreter \<Rightarrow> Value \<Rightarrow> (unit, EvalFailure) eval" where
  "enqueue_microtask_callback I callback =
    eval_bind (reads (\<lambda>m. map_err Fail_Runtime (ensure_microtask_capacity (it_reserves I) 1 m))) (\<lambda>_.
      modifies (\<lambda>m. push_microtasks [uncharged (Job_Callback callback (context_global m))] m))"

definition create_promise :: "Interpreter \<Rightarrow> (Value, EvalFailure) eval" where
  "create_promise I =
    eval_map_err Fail_Runtime (produces (allocate (Entry_Promise (Promise_Pending [] []) [] (Some (it_promise_prototype I)))))"

definition create_promise_resolver :: "Value \<Rightarrow> (Value, EvalFailure) eval" where
  "create_promise_resolver promise = eval_map_err Fail_Runtime (produces (allocate (Entry_PromiseResolver promise False)))"

definition create_promise_resolver_function :: "Value \<Rightarrow> Value \<Rightarrow> (Value, EvalFailure) eval" where
  "create_promise_resolver_function target rec =
    eval_map_err Fail_Runtime (produces (allocate (Entry_NativeFunction (Callable_Bound target Value_UNDEFINED [rec]) [] None)))"

definition promise_slot :: "Value \<Rightarrow> Machine \<Rightarrow> (usize, RuntimeErrorKind) result" where
  "promise_slot promise m = bind_result (runtime_slot m promise) (\<lambda>slot. ok_or slot (Error_InvalidValue promise))"

definition slot_or_throw :: "string \<Rightarrow> Value \<Rightarrow> Machine \<Rightarrow> (usize, EvalFailure) result" where
  "slot_or_throw operation v m = bind_result (map_err Fail_Runtime (runtime_slot m v)) (\<lambda>slot. ok_or slot (type_error operation))"

definition promise_is_settled :: "Value \<Rightarrow> Machine \<Rightarrow> (bool, RuntimeErrorKind) result" where
  "promise_is_settled promise m =
    bind_result (promise_slot promise m) (\<lambda>index.
      case mc_heap m ! index of
        Entry_Promise (Promise_Pending fs rs) ps prototype \<Rightarrow> Ok False
      | Entry_Promise state ps prototype \<Rightarrow> Ok True
      | _ \<Rightarrow> Err (Error_InvalidValue promise))"

definition use_promise_resolver :: "Value \<Rightarrow> (Value option, EvalFailure) eval" where
  "use_promise_resolver rec =
    eval_bind (reads (slot_or_throw ''Promise resolver'' rec)) (\<lambda>index m.
      case mc_heap m ! index of
        Entry_PromiseResolver promise used \<Rightarrow>
          if used then (Ok None, m)
          else (Ok (Some promise), m\<lparr>mc_heap := (mc_heap m)[index := Entry_PromiseResolver promise True]\<rparr>)
      | _ \<Rightarrow> (Err (type_error ''Promise resolver''), m))"

definition charge_promise_reactions :: "usize \<Rightarrow> usize \<Rightarrow> (unit, EvalFailure) eval" where
  "charge_promise_reactions index n m =
    (if PromiseReaction_BYTES * n < 2 ^ 64
     then eval_map_err Fail_Runtime (updates (charge_slot index (PromiseReaction_BYTES * n))) m
     else (Err (Fail_Runtime (Error_HeapByteLimitExceeded (mc_max_heap_bytes m))), m))"

section \<open>Settlement\<close>

fun taken_reactions :: "PromiseState \<Rightarrow> PromiseReaction list \<Rightarrow> PromiseReaction list \<Rightarrow> PromiseReaction list option" where
  "taken_reactions (Promise_Fulfilled v) fs rs = Some fs"
| "taken_reactions (Promise_Rejected reason origin) fs rs = Some rs"
| "taken_reactions (Promise_Pending fs' rs') fs rs = None"

fun settled_value :: "PromiseState \<Rightarrow> Value \<times> ThrowOrigin" where
  "settled_value (Promise_Fulfilled v) = (v, Origin_Bytecode)"
| "settled_value (Promise_Rejected reason origin) = (reason, origin)"
| "settled_value (Promise_Pending fs rs) = (Value_UNDEFINED, Origin_Bytecode)"

definition reaction_job :: "PromiseState \<Rightarrow> PromiseReaction \<Rightarrow> MicrotaskJob" where
  "reaction_job terminal reaction = (case settled_value terminal of (v, origin) \<Rightarrow> Job_Reaction reaction v origin)"

definition settle_promise :: "Interpreter \<Rightarrow> Value \<Rightarrow> PromiseState \<Rightarrow> (unit, RuntimeErrorKind) eval" where
  "settle_promise I promise terminal =
    eval_bind (reads (promise_slot promise)) (\<lambda>index m.
      case mc_heap m ! index of
        Entry_Promise (Promise_Pending fs rs) ps prototype \<Rightarrow>
          (case taken_reactions terminal fs rs of
             None \<Rightarrow> (Panic, m)
           | Some reactions \<Rightarrow>
               let pending_charge = sat_mul (sat_add (length fs) (length rs)) PromiseReaction_BYTES;
                   queued_charge = sat_mul (length reactions) PromiseReaction_BYTES
               in eval_bind (reads (ensure_microtask_capacity (it_reserves I) (length reactions))) (\<lambda>_.
                  eval_bind (modifies (\<lambda>m. m\<lparr>mc_heap := (mc_heap m)[index := Entry_Promise terminal ps prototype]\<rparr>)) (\<lambda>_.
                  eval_bind (updates (transfer_slot_to_machine index queued_charge)) (\<lambda>_.
                  eval_bind (updates (refund_slot index (pending_charge - queued_charge))) (\<lambda>_.
                  modifies (push_microtasks (map (\<lambda>reaction.
                    \<lparr>qm_job = reaction_job terminal reaction, qm_retained_bytes = PromiseReaction_BYTES\<rparr>) reactions)))))) m)
      | Entry_Promise state ps prototype \<Rightarrow> (Ok (), m)
      | _ \<Rightarrow> (Err (Error_InvalidValue promise), m))"

definition fulfill_promise :: "Interpreter \<Rightarrow> Value \<Rightarrow> Value \<Rightarrow> (unit, RuntimeErrorKind) eval" where
  "fulfill_promise I promise v = settle_promise I promise (Promise_Fulfilled v)"

definition catch_value_needs_materialization :: "Value \<Rightarrow> ThrowOrigin \<Rightarrow> bool" where
  "catch_value_needs_materialization v origin \<longleftrightarrow> origin \<noteq> Origin_Bytecode \<and> v = Value_UNDEFINED"

definition reject_promise :: "Interpreter \<Rightarrow> Value \<Rightarrow> Value \<Rightarrow> ThrowOrigin \<Rightarrow> (unit, RuntimeErrorKind) eval" where
  "reject_promise I promise reason origin =
    (if catch_value_needs_materialization reason origin then
       eval_bind (reads (promise_is_settled promise)) (\<lambda>settled.
         if settled then eval_ok ()
         else eval_bind (it_materialize_engine_origin I origin) (\<lambda>reason.
           settle_promise I promise (Promise_Rejected reason origin)))
     else settle_promise I promise (Promise_Rejected reason origin))"

definition reject_promise_failure :: "Interpreter \<Rightarrow> Value \<Rightarrow> EvalFailure \<Rightarrow> (unit, EvalFailure) eval" where
  "reject_promise_failure I promise failure =
    eval_bind (promise_rejection_value (it_materialize_engine_origin I) failure) (\<lambda>(reason, origin).
      eval_map_err Fail_Runtime (reject_promise I promise reason origin))"

text \<open>Outside an expression, a failure that is not the machine's own becomes an invalid value.\<close>

definition resolve_promise :: "Interpreter \<Rightarrow> Value \<Rightarrow> Value \<Rightarrow> (unit, RuntimeErrorKind) eval" where
  "resolve_promise I promise v m =
    (if promise = v
     then eval_map_err (failure_kind promise) (reject_promise_failure I promise (type_error ''Promise cannot resolve itself'')) m
     else if \<not> is_object m v then fulfill_promise I promise v m
     else
       eval_match (it_get_named_property I v ''then'')
         (\<lambda>then_method.
            eval_bind (reads (\<lambda>m. map_err (failure_kind then_method) (it_is_callable I then_method m))) (\<lambda>callable.
              if \<not> callable then fulfill_promise I promise v
              else
                eval_bind (reads (ensure_microtask_capacity (it_reserves I) 1)) (\<lambda>_.
                  modifies (\<lambda>m. push_microtasks [uncharged (Job_Thenable promise v then_method (context_global m))] m))))
         (\<lambda>failure. case failure of
            Fail_Runtime kind \<Rightarrow> eval_err kind
          | _ \<Rightarrow> eval_map_err (failure_kind promise) (reject_promise_failure I promise failure)) m)"

definition resolve_promise_resolver :: "Interpreter \<Rightarrow> Value \<Rightarrow> Value \<Rightarrow> (unit, EvalFailure) eval" where
  "resolve_promise_resolver I rec v =
    eval_bind (use_promise_resolver rec) (\<lambda>promise.
      case promise of None \<Rightarrow> eval_ok () | Some promise \<Rightarrow> eval_map_err Fail_Runtime (resolve_promise I promise v))"

definition reject_promise_resolver :: "Interpreter \<Rightarrow> Value \<Rightarrow> Value \<Rightarrow> (unit, EvalFailure) eval" where
  "reject_promise_resolver I rec reason =
    eval_bind (use_promise_resolver rec) (\<lambda>promise.
      case promise of None \<Rightarrow> eval_ok () | Some promise \<Rightarrow> eval_map_err Fail_Runtime (reject_promise I promise reason Origin_Bytecode))"

definition reject_promise_resolver_failure :: "Interpreter \<Rightarrow> Value \<Rightarrow> EvalFailure \<Rightarrow> (unit, EvalFailure) eval" where
  "reject_promise_resolver_failure I rec failure =
    eval_bind (use_promise_resolver rec) (\<lambda>promise.
      case promise of None \<Rightarrow> eval_ok () | Some promise \<Rightarrow> reject_promise_failure I promise failure)"

section \<open>Attaching reactions\<close>

text \<open>
  Every function that reacts to a promise reads its state, queues the matching reaction when it is settled, and otherwise charges two reactions
  to the promise's slot and appends one to each list. The state that was read, the entry's slot and the two reactions are the arguments.
\<close>

definition promise_state :: "(usize, EvalFailure) result \<Rightarrow> EvalFailure \<Rightarrow> Machine \<Rightarrow> (usize \<times> PromiseState, EvalFailure) result" where
  "promise_state slot e m =
    bind_result slot (\<lambda>index. case mc_heap m ! index of Entry_Promise state ps prototype \<Rightarrow> Ok (index, state) | _ \<Rightarrow> Err e)"

fun chosen_reaction :: "PromiseState \<Rightarrow> PromiseReaction \<Rightarrow> PromiseReaction \<Rightarrow> PromiseReaction" where
  "chosen_reaction (Promise_Rejected reason origin) on_fulfilled on_rejected = on_rejected"
| "chosen_reaction state on_fulfilled on_rejected = on_fulfilled"

definition react :: "Interpreter \<Rightarrow> usize \<Rightarrow> PromiseState \<Rightarrow> (Value option \<Rightarrow> PromiseReaction) \<Rightarrow> (Value option \<Rightarrow> PromiseReaction) \<Rightarrow> (unit, EvalFailure) eval" where
  "react I index state on_fulfilled on_rejected =
    (case state of
       Promise_Pending _ _ \<Rightarrow>
         eval_bind (charge_promise_reactions index 2) (\<lambda>_ m.
           case mc_heap m ! index of
             Entry_Promise (Promise_Pending fs rs) ps prototype \<Rightarrow>
               (Ok (), m\<lparr>mc_heap := (mc_heap m)[index := Entry_Promise
                 (Promise_Pending (fs @ [on_fulfilled (context_global m)]) (rs @ [on_rejected (context_global m)])) ps prototype]\<rparr>)
           | _ \<Rightarrow> (Panic, m))
     | _ \<Rightarrow>
         eval_bind (reads (\<lambda>m. map_err Fail_Runtime (ensure_microtask_capacity (it_reserves I) 1 m))) (\<lambda>_.
           modifies (\<lambda>m. push_microtasks [uncharged (reaction_job state
             (chosen_reaction state (on_fulfilled (context_global m)) (on_rejected (context_global m))))] m)))"

definition promise_then :: "Interpreter \<Rightarrow> Value \<Rightarrow> Value \<Rightarrow> Value \<Rightarrow> (Value, EvalFailure) eval" where
  "promise_then I promise on_fulfilled on_rejected =
    eval_bind (reads (\<lambda>m. promise_state (slot_or_throw ''Promise.prototype.then'' promise m) (type_error ''Promise.prototype.then'') m)) (\<lambda>(index, state).
      eval_bind (create_promise I) (\<lambda>derived.
        eval_bind (react I index state (Reaction_Fulfilled on_fulfilled derived) (Reaction_Rejected on_rejected derived)) (\<lambda>_.
          eval_ok derived)))"

definition promise_resolve :: "Interpreter \<Rightarrow> Value \<Rightarrow> (Value, EvalFailure) eval" where
  "promise_resolve I v =
    eval_bind (reads (\<lambda>m. map_err Fail_Runtime (runtime_slot m v))) (\<lambda>slot m.
      if (case slot of None \<Rightarrow> False | Some index \<Rightarrow> (case mc_heap m ! index of Entry_Promise state ps prototype \<Rightarrow> True | _ \<Rightarrow> False))
      then (Ok v, m)
      else
        eval_bind (create_promise I) (\<lambda>promise.
          eval_bind (eval_map_err Fail_Runtime (resolve_promise I promise v)) (\<lambda>_. eval_ok promise)) m)"

definition promise_state_or_invalid :: "Value \<Rightarrow> Machine \<Rightarrow> (usize \<times> PromiseState, EvalFailure) result" where
  "promise_state_or_invalid promise m =
    promise_state (map_err Fail_Runtime (promise_slot promise m)) (Fail_Runtime (Error_InvalidValue promise)) m"

definition attach_module_reactions :: "Interpreter \<Rightarrow> u32 \<Rightarrow> Value \<Rightarrow> (unit, EvalFailure) eval" where
  "attach_module_reactions I parent promise =
    eval_bind (reads (promise_state_or_invalid promise)) (\<lambda>(index, state).
      react I index state (Reaction_ModuleDepFulfill parent) (Reaction_ModuleDepReject parent))"

definition await_promise :: "Interpreter \<Rightarrow> Value \<Rightarrow> Value \<Rightarrow> (unit, EvalFailure) eval" where
  "await_promise I awaited activation =
    eval_bind (promise_resolve I awaited) (\<lambda>promise.
      eval_bind (reads (promise_state_or_invalid promise)) (\<lambda>(index, state).
        react I index state (Reaction_AsyncFulfill activation) (Reaction_AsyncReject activation)))"

definition await_promise_for_generator :: "Interpreter \<Rightarrow> Value \<Rightarrow> Value \<Rightarrow> (unit, EvalFailure) eval" where
  "await_promise_for_generator I awaited generator =
    eval_bind (promise_resolve I awaited) (\<lambda>promise.
      eval_bind (reads (promise_state_or_invalid promise)) (\<lambda>(index, state).
        react I index state (Reaction_AsyncGeneratorFulfill generator) (Reaction_AsyncGeneratorReject generator)))"

definition attach_async_from_sync_reactions :: "Interpreter \<Rightarrow> Value \<Rightarrow> Value \<Rightarrow> bool \<Rightarrow> Value \<Rightarrow> (unit, EvalFailure) eval" where
  "attach_async_from_sync_reactions I derived resolved is_done sync_iterator =
    eval_bind (reads (promise_state_or_invalid resolved)) (\<lambda>(index, state).
      react I index state (Reaction_AsyncFromSyncFulfill derived is_done) (Reaction_AsyncFromSyncReject derived sync_iterator))"

definition attach_dynamic_import_reactions :: "Interpreter \<Rightarrow> Value \<Rightarrow> Value \<Rightarrow> u32 \<Rightarrow> (unit, EvalFailure) eval" where
  "attach_dynamic_import_reactions I evaluation promise target =
    eval_bind (reads (\<lambda>m. promise_state (slot_or_throw ''dynamic import evaluation promise'' evaluation m)
      (type_error ''dynamic import evaluation promise'') m)) (\<lambda>(index, state).
      case state of
        Promise_Pending fs rs \<Rightarrow> react I index state (Reaction_DynamicImportFulfill promise target) (Reaction_DynamicImportReject promise)
      | Promise_Fulfilled v \<Rightarrow>
          eval_bind (eval_map_err Fail_Runtime (it_module_namespace I target target)) (\<lambda>namespace.
            eval_map_err Fail_Runtime (resolve_promise I promise namespace))
      | Promise_Rejected reason origin \<Rightarrow> eval_map_err Fail_Runtime (reject_promise I promise reason origin))"

definition arm_async_disposal_reaction :: "Interpreter \<Rightarrow> Value \<Rightarrow> Value \<Rightarrow> Value option \<Rightarrow> Value \<Rightarrow> (unit, EvalFailure) eval" where
  "arm_async_disposal_reaction I promise stack pending_error capability =
    eval_bind (reads (\<lambda>m. promise_state (slot_or_throw ''async disposer did not produce a Promise'' promise m)
      (type_error ''async disposer did not produce a Promise'') m)) (\<lambda>(index, state).
      react I index state (Reaction_AsyncDisposeStep stack pending_error capability False)
        (Reaction_AsyncDisposeStep stack pending_error capability True))"

end
