(* ===== verification/Promise_Runs.thy ===== *)
theory Promise_Runs
  imports Promises
begin

text \<open>
  The invariant of promises and jobs, kept by every operation of \<open>Promises\<close>: the bytes of reactions, of queued
  jobs and of kept targets are covered by the charges of their slots and of the machine, so that no refund or transfer panics. A promise
  evolves one way only: its lists of reactions grow until it is settled, and then its state stays.
\<close>

section \<open>The invariant\<close>

definition microtasks_of :: "Machine \<Rightarrow> QueuedMicrotask list" where
  "microtasks_of m = rt_microtasks (mc_roots m)"

definition retained_bytes :: "Machine \<Rightarrow> nat" where
  "retained_bytes m = length (mc_kept_alive m) * VALUE_BYTES + sum_list (map qm_retained_bytes (microtasks_of m))"

definition is_promise_entry :: "HeapEntry \<Rightarrow> bool" where
  "is_promise_entry e = (case e of Entry_Promise state ps prototype \<Rightarrow> True | Entry_PromiseAll resolve reject vs remaining settled \<Rightarrow> True | _ \<Rightarrow> False)"

definition jobs_ok :: "Machine \<Rightarrow> bool" where
  "jobs_ok m \<longleftrightarrow> ledger_ok m \<and> contents_charged m \<and> retained_bytes m \<le> mc_machine_bytes m \<and>
     (\<forall>i < mc_intrinsic_slots m. \<not> is_promise_entry (mc_heap m ! i))"

lemma jobs_okD:
  assumes "jobs_ok m"
  shows "ledger_ok m" "contents_charged m" "retained_bytes m \<le> mc_machine_bytes m"
    "i < length (mc_heap m) \<Longrightarrow> is_promise_entry (mc_heap m ! i) \<Longrightarrow> mc_intrinsic_slots m \<le> i"
    "i < length (mc_heap m) \<Longrightarrow> held_bytes (mc_heap m ! i) \<le> mc_slot_bytes m ! i"
    "i < mc_intrinsic_slots m \<Longrightarrow> held_bytes (mc_heap m ! i) = 0"
  using assms ledger_okD(3) [of m] by (auto simp: jobs_ok_def contents_charged_def not_le [symmetric])

fun is_settled :: "PromiseState \<Rightarrow> bool" where
  "is_settled (Promise_Pending fs rs) = False"
| "is_settled (Promise_Fulfilled v) = True"
| "is_settled (Promise_Rejected reason origin) = True"

text \<open>What may become of an entry: a slot once vacant stays so, a promise is settled at most once, a resolver is used at most once.\<close>

definition entry_evolves :: "HeapEntry \<Rightarrow> HeapEntry \<Rightarrow> bool" where
  "entry_evolves e e' \<longleftrightarrow>
    (case e of
       Entry_Vacant \<Rightarrow> e' = Entry_Vacant
     | Entry_Promise (Promise_Pending fs rs) ps prototype \<Rightarrow>
         e' = Entry_Vacant \<or>
         (\<exists>state ps prototype. e' = Entry_Promise state ps prototype \<and>
           (is_settled state \<or> (\<exists>fs' rs'. state = Promise_Pending (fs @ fs') (rs @ rs'))))
     | Entry_Promise state ps prototype \<Rightarrow> e' = Entry_Vacant \<or> (\<exists>ps prototype. e' = Entry_Promise state ps prototype)
     | Entry_PromiseResolver promise used \<Rightarrow> e' = Entry_Vacant \<or> (\<exists>used'. e' = Entry_PromiseResolver promise used' \<and> (used \<longrightarrow> used'))
     | _ \<Rightarrow> True)"

definition machine_evolves :: "Machine \<Rightarrow> Machine \<Rightarrow> bool" where
  "machine_evolves m m' \<longleftrightarrow>
     length (mc_heap m) \<le> length (mc_heap m') \<and> (\<forall>i < length (mc_heap m). entry_evolves (mc_heap m ! i) (mc_heap m' ! i)) \<and>
     (\<exists>qs. microtasks_of m' = microtasks_of m @ qs) \<and> jc_fuel (mc_jobs m') \<le> jc_fuel (mc_jobs m)"

lemma entry_evolves_refl [simp]: "entry_evolves e e"
  by (auto simp: entry_evolves_def split: HeapEntry.split PromiseState.split)

lemma entry_evolves_vacant: "entry_evolves e Entry_Vacant"
  by (auto simp: entry_evolves_def split: HeapEntry.split PromiseState.split)

lemma entry_evolves_settled: "is_settled state \<Longrightarrow> entry_evolves (Entry_Promise state ps pr) e \<longleftrightarrow> e = Entry_Vacant \<or> (\<exists>ps pr. e = Entry_Promise state ps pr)"
  by (cases state) (auto simp: entry_evolves_def)

lemma entry_evolves_other:
  "\<not> is_vacant e \<Longrightarrow> (\<And>st ps pr. e \<noteq> Entry_Promise st ps pr) \<Longrightarrow> (\<And>p used. e \<noteq> Entry_PromiseResolver p used) \<Longrightarrow> entry_evolves e e'"
  by (cases e) (auto simp: entry_evolves_def is_vacant_def)

lemma entry_evolves_trans:
  assumes ab: "entry_evolves a b" and bc: "entry_evolves b c"
  shows "entry_evolves a c"
proof (cases "\<exists>st ps pr. a = Entry_Promise st ps pr")
  case True
  then obtain st ps pr where a: "a = Entry_Promise st ps pr" by blast
  show ?thesis
  proof (cases st)
    case (Promise_Pending fs rs)
    with ab a have "b = Entry_Vacant \<or> (\<exists>st' ps pr. b = Entry_Promise st' ps pr \<and> (is_settled st' \<or> (\<exists>fs' rs'. st' = Promise_Pending (fs @ fs') (rs @ rs'))))"
      by (simp add: entry_evolves_def)
    then show ?thesis using bc a Promise_Pending by (auto simp: entry_evolves_settled) (auto simp: entry_evolves_def)
  qed (use ab bc a in \<open>auto simp: entry_evolves_def\<close>)
next
  case False
  then show ?thesis using ab bc by (cases a) (auto simp: entry_evolves_def)
qed

lemma machine_evolves_refl [simp]: "machine_evolves m m"
  by (simp add: machine_evolves_def)

lemma machine_evolves_trans: "machine_evolves a b \<Longrightarrow> machine_evolves b c \<Longrightarrow> machine_evolves a c"
  by (auto simp: machine_evolves_def intro: entry_evolves_trans order_trans)

text \<open>The invariant of a run that starts in \<open>m0\<close>.\<close>

definition well_run :: "Machine \<Rightarrow> Machine \<Rightarrow> bool" where
  "well_run m0 m \<longleftrightarrow> jobs_ok m \<and> machine_evolves m0 m"

lemma well_run_step: "well_run m0 m \<Longrightarrow> jobs_ok m' \<Longrightarrow> machine_evolves m m' \<Longrightarrow> well_run m0 m'"
  by (auto simp: well_run_def intro: machine_evolves_trans)

section \<open>Changes of one slot\<close>

lemma slot_changed:
  assumes ok: "jobs_ok m" and i: "i < length (mc_heap m)" and ledger: "ledger_ok m'" and heap: "mc_heap m' = (mc_heap m)[i := e]"
    and same: "mc_intrinsic_slots m' = mc_intrinsic_slots m" "mc_kept_alive m' = mc_kept_alive m" "mc_jobs m' = mc_jobs m"
    and bytes: "mc_slot_bytes m' = (mc_slot_bytes m)[i := b]" "held_bytes e \<le> b" "counts_entries e"
    and own: "is_promise_entry e \<Longrightarrow> mc_intrinsic_slots m \<le> i" "i < mc_intrinsic_slots m \<Longrightarrow> held_bytes e = 0"
    and queue: "microtasks_of m' = microtasks_of m @ qs"
    and paid: "mc_machine_bytes m + sum_list (map qm_retained_bytes qs) \<le> mc_machine_bytes m'"
    and entry: "entry_evolves (mc_heap m ! i) e"
  shows "jobs_ok m' \<and> machine_evolves m m'"
proof -
  have len: "length (mc_slot_bytes m) = length (mc_heap m)" by (rule ledger_okD(1) [OF jobs_okD(1) [OF ok]])
  have "contents_charged m'"
    using jobs_okD(2) [OF ok] i own(2) bytes(2,3) by (auto simp: contents_charged_def heap same bytes(1) len nth_list_update)
  moreover have "\<not> is_promise_entry (mc_heap m' ! j)" if "j < mc_intrinsic_slots m" for j
    using that ok i own(1) ledger_okD(3) [OF jobs_okD(1) [OF ok]] by (auto simp: heap nth_list_update jobs_ok_def)
  moreover have "retained_bytes m' \<le> mc_machine_bytes m'" using jobs_okD(3) [OF ok] paid by (simp add: retained_bytes_def queue same)
  ultimately have "jobs_ok m'" using ledger by (simp add: jobs_ok_def same)
  moreover have "machine_evolves m m'" using entry i by (auto simp: machine_evolves_def heap nth_list_update queue same)
  ultimately show ?thesis ..
qed

lemma jobs_pushed:
  assumes "jobs_ok m"
  shows "jobs_ok (push_microtasks [uncharged job] m) \<and> machine_evolves m (push_microtasks [uncharged job] m)"
proof -
  have "ledger_ok (push_microtasks [uncharged job] m) \<longleftrightarrow> ledger_ok m"
    by (simp add: push_microtasks_def ledger_ok_def vacant_slots_def live_runtime_slots_def)
  then show ?thesis using assms
    by (auto simp: jobs_ok_def contents_charged_def machine_evolves_def retained_bytes_def microtasks_of_def push_microtasks_def uncharged_def)
qed

lemma jobs_allocated:
  assumes ok: "jobs_ok m" and "allocate e m = Ok (v, m')" and e: "\<not> is_vacant e" "held_bytes e = 0" "counts_entries e"
  shows "jobs_ok m' \<and> machine_evolves m m' \<and> mc_heap m' = mc_heap m @ [e] \<and> runtime_slot m' v = Ok (Some (length (mc_heap m)))"
proof -
  note m = jobs_okD [OF ok]
  from allocate_ok [OF m(1) e(1) assms(2)] have new: "ledger_ok m'" "mc_heap m' = mc_heap m @ [e]" "runtime_slot m' v = Ok (Some (length (mc_heap m)))" by auto
  from assms(2) have m': "m' = request_garbage_collection (m\<lparr>mc_heap := mc_heap m @ [e], mc_slot_bytes := mc_slot_bytes m @ [initial_bytes e],
      mc_heap_bytes := mc_heap_bytes m + initial_bytes e\<rparr>)"
    by (auto simp: allocate_eq [OF m(1)] split: if_splits)
  have "contents_charged m'" using m(2) e ledger_okD(1) [OF m(1)] ledger_okD(3) [OF m(1)]
    by (auto simp: contents_charged_def m' nth_append less_Suc_eq)
  moreover have "\<not> is_promise_entry (mc_heap m' ! j)" if "j < mc_intrinsic_slots m" for j
    using that ok ledger_okD(3) [OF m(1)] by (auto simp: new(2) nth_append jobs_ok_def)
  ultimately have "jobs_ok m'" using new(1) m(3) by (simp add: jobs_ok_def m' retained_bytes_def microtasks_of_def)
  moreover have "machine_evolves m m'" by (auto simp: machine_evolves_def m' nth_append microtasks_of_def)
  ultimately show ?thesis using new by blast
qed

lemma allocate_no_Panic: "ledger_ok m \<Longrightarrow> allocate e m \<noteq> Panic"
  by (simp add: allocate_eq)

lemma run_allocate [runs]:
  assumes "\<not> is_vacant e" "held_bytes e = 0" "counts_entries e"
  shows "runs_ok (well_run m0) (produces (allocate e))"
proof (rule runs_ok_produces)
  show "well_run m0 m \<Longrightarrow> allocate e m \<noteq> Panic" for m by (auto simp: well_run_def allocate_no_Panic jobs_okD(1))
  show "well_run m0 m \<Longrightarrow> allocate e m = Ok (a, m') \<Longrightarrow> well_run m0 m'" for m a m'
    using jobs_allocated [OF _ _ assms] by (blast intro: well_run_step dest: well_run_def [THEN iffD1])
qed

lemma run_push [runs]: "runs_ok (well_run m0) (modifies (\<lambda>m. push_microtasks [uncharged (job m)] m))"
  by (rule runs_ok_modifies) (use jobs_pushed in \<open>blast intro: well_run_step dest: well_run_def [THEN iffD1]\<close>)

lemma capacity_no_Panic [simp]: "ensure_microtask_capacity reserves n m \<noteq> Panic"
  by (simp add: ensure_microtask_capacity_def)

lemma promise_slot_no_Panic [simp]: "promise_slot p m \<noteq> Panic" "slot_or_throw operation p m \<noteq> Panic"
  using runtime_slot_no_Panic [of m p]
  by (auto simp: promise_slot_def slot_or_throw_def bind_result_iffs map_err_iffs ok_or_def split: option.splits)

lemma promise_slot_iff: "promise_slot p m = Ok i \<longleftrightarrow> runtime_slot m p = Ok (Some i)" "slot_or_throw operation p m = Ok i \<longleftrightarrow> runtime_slot m p = Ok (Some i)"
  by (auto simp: promise_slot_def slot_or_throw_def bind_result_iffs map_err_iffs ok_or_def split: option.splits)

lemma runtime_slot_bound: "runtime_slot m v = Ok (Some i) \<Longrightarrow> i < length (mc_heap m)"
  by (simp add: runtime_slot_iff present_def)

section \<open>Settling a promise\<close>

lemma promise_entry_facts [simp]:
  "\<not> is_vacant (Entry_Promise st ps pr)" "counts_entries (Entry_Promise st ps pr)" "is_promise_entry (Entry_Promise st ps pr)"
  "held_bytes (Entry_Promise (Promise_Pending fs rs) ps pr) = (length fs + length rs) * PromiseReaction_BYTES"
  "is_settled st \<Longrightarrow> held_bytes (Entry_Promise st ps pr) = 0"
  by (cases st; simp add: is_vacant_def counts_entries_def held_bytes_def is_promise_entry_def)+

lemma held_small:
  assumes "jobs_ok m" and "i < length (mc_heap m)" and "b \<le> held_bytes (mc_heap m ! i)"
  shows "b \<le> mc_slot_bytes m ! i" "b < 2 ^ 64"
  using jobs_okD(5) [OF assms(1,2)] assms(3) slot_charge_le [OF jobs_okD(1) [OF assms(1)] assms(2)] ledger_okD(8,9) [OF jobs_okD(1) [OF assms(1)]]
  by linarith+

text \<open>Bytes of a slot that move to the machine, and bytes that are given back, while the slot's entry changes.\<close>

lemma transfer_and_refund:
  assumes ok: "ledger_ok m" and i: "i < length (mc_heap m)" and e: "is_vacant e = is_vacant (mc_heap m ! i)" and own: "mc_intrinsic_slots m \<le> i"
    and b: "a + b \<le> mc_slot_bytes m ! i"
  shows "\<exists>m1 m2. transfer_slot_to_machine i a (m\<lparr>mc_heap := (mc_heap m)[i := e]\<rparr>) = Ok m1 \<and> refund_slot i b m1 = Ok m2 \<and> ledger_ok m2 \<and>
    m2 = m\<lparr>mc_heap := (mc_heap m)[i := e], mc_slot_bytes := (mc_slot_bytes m)[i := mc_slot_bytes m ! i - (a + b)],
      mc_machine_bytes := mc_machine_bytes m + a, mc_heap_bytes := mc_heap_bytes m - b\<rparr>"
proof -
  let ?m = "m\<lparr>mc_heap := (mc_heap m)[i := e]\<rparr>"
  let ?m1 = "?m\<lparr>mc_slot_bytes := (mc_slot_bytes m)[i := mc_slot_bytes m ! i - a], mc_machine_bytes := mc_machine_bytes m + a\<rparr>"
  have ok0: "ledger_ok ?m" by (rule ledger_ok_heap_update [OF ok e])
  have len: "length (mc_slot_bytes m) = length (mc_heap m)" by (rule ledger_okD(1) [OF ok])
  have "mc_slot_bytes m ! i \<le> sum_list (mc_slot_bytes m)" using i len by (intro elem_le_sum_list) simp
  then have "mc_machine_bytes m + a < 2 ^ 64" using b ledger_okD(7,8,9) [OF ok] by linarith
  then have t: "transfer_slot_to_machine i a ?m = Ok ?m1"
    using b i len by (simp add: transfer_slot_to_machine_def sync_idle [OF ok0] Let_def slice_index_def usize_sub_def usize_add_def usize_checked_add_def expect_def)
  have ok1: "ledger_ok ?m1" by (rule transfer_slot_to_machine_ok [OF ok0 t])
  have i1: "i < length (mc_heap ?m1)" using i by simp
  have able: "refundable i b ?m1" using own b i len by (simp add: refundable_def)
  have ledger: "ledger_ok (refunded_slot i b ?m1)" by (rule refunded_slot_ok [OF ok1 i1 able])
  have "(mc_intrinsic_slot_credits m)[i := c] = mc_intrinsic_slot_credits m" for c
    using own ledger_okD(2) [OF ok] by (simp add: list_update_beyond)
  moreover have "min (mc_slot_bytes m ! i - a) b = b" using b by simp
  ultimately have r: "refund_slot i b ?m1 = Ok (refunded_slot i b ?m1)"
      "refunded_slot i b ?m1 = m\<lparr>mc_heap := (mc_heap m)[i := e], mc_slot_bytes := (mc_slot_bytes m)[i := mc_slot_bytes m ! i - (a + b)],
      mc_machine_bytes := mc_machine_bytes m + a, mc_heap_bytes := mc_heap_bytes m - b\<rparr>"
    using i len able by (simp_all add: refund_slot_eq [OF ok1 i1] refunded_slot_def Let_def)
  show ?thesis using t r(1) ledger unfolding r(2) by blast
qed

definition queued_reactions :: "PromiseState \<Rightarrow> PromiseReaction list \<Rightarrow> QueuedMicrotask list" where
  "queued_reactions terminal reactions =
    map (\<lambda>reaction. \<lparr>qm_job = reaction_job terminal reaction, qm_retained_bytes = PromiseReaction_BYTES\<rparr>) reactions"

lemma settled_taken:
  assumes "is_settled terminal"
  obtains reactions where "taken_reactions terminal fs rs = Some reactions" "length reactions \<le> length fs + length rs"
  using assms by (cases terminal) auto

lemma settle_pending:
  assumes ok: "jobs_ok m" and slot: "runtime_slot m promise = Ok (Some i)" and pending: "mc_heap m ! i = Entry_Promise (Promise_Pending fs rs) ps pr"
    and taken: "is_settled terminal" "taken_reactions terminal fs rs = Some reactions"
  shows "settle_promise I promise terminal m =
    (case ensure_microtask_capacity (it_reserves I) (length reactions) m of
       Ok _ \<Rightarrow> (Ok (), push_microtasks (queued_reactions terminal reactions)
         (m\<lparr>mc_heap := (mc_heap m)[i := Entry_Promise terminal ps pr],
            mc_slot_bytes := (mc_slot_bytes m)[i := mc_slot_bytes m ! i - (length fs + length rs) * PromiseReaction_BYTES],
            mc_machine_bytes := mc_machine_bytes m + length reactions * PromiseReaction_BYTES,
            mc_heap_bytes := mc_heap_bytes m - (length fs + length rs - length reactions) * PromiseReaction_BYTES\<rparr>))
     | Err e \<Rightarrow> (Err e, m) | Panic \<Rightarrow> (Panic, m))" (is "_ = ?r")
    and "ensure_microtask_capacity (it_reserves I) (length reactions) m = Ok u \<Longrightarrow>
      jobs_ok (snd (settle_promise I promise terminal m)) \<and> machine_evolves m (snd (settle_promise I promise terminal m))"
proof -
  let ?l = "settle_promise I promise terminal m"
  note m = jobs_okD [OF ok]
  have i: "i < length (mc_heap m)" by (rule runtime_slot_bound [OF slot])
  have own: "mc_intrinsic_slots m \<le> i" using m(4) [OF i] by (simp add: pending)
  have le: "length reactions \<le> length fs + length rs" using taken by (cases terminal) auto
  let ?p = "(length fs + length rs) * PromiseReaction_BYTES" and ?q = "length reactions * PromiseReaction_BYTES"
  have held: "?p \<le> mc_slot_bytes m ! i" "?p < 2 ^ 64" using held_small [OF ok i, of ?p] by (simp_all add: pending)
  have qp: "?q \<le> ?p" using le by (rule mult_le_mono1)
  have n: "length fs + length rs < 2 ^ 64" using held(2) by (simp add: PromiseReaction_BYTES_def)
  then have charges: "sat_mul (sat_add (length fs) (length rs)) PromiseReaction_BYTES = ?p" "sat_mul (length reactions) PromiseReaction_BYTES = ?q"
    using held(2) order_le_less_trans [OF qp held(2)] by (simp_all add: sat_mul_def sat_add_def u64_saturating_def)
  have diff: "?p - ?q = (length fs + length rs - length reactions) * PromiseReaction_BYTES" by (simp add: diff_mult_distrib)
  from transfer_and_refund [OF m(1) i _ own, of "Entry_Promise terminal ps pr" ?q "?p - ?q"] held(1) qp obtain m1 m2 where
    m2: "transfer_slot_to_machine i ?q (m\<lparr>mc_heap := (mc_heap m)[i := Entry_Promise terminal ps pr]\<rparr>) = Ok m1" "refund_slot i (?p - ?q) m1 = Ok m2" "ledger_ok m2"
      "m2 = m\<lparr>mc_heap := (mc_heap m)[i := Entry_Promise terminal ps pr], mc_slot_bytes := (mc_slot_bytes m)[i := mc_slot_bytes m ! i - ?p],
        mc_machine_bytes := mc_machine_bytes m + ?q, mc_heap_bytes := mc_heap_bytes m - (?p - ?q)\<rparr>"
    by (auto simp: pending)
  have "promise_slot promise m = Ok i" by (simp add: promise_slot_iff slot)
  then show eq: "?l = ?r"
    using m2(1,2) taken(2) pending unfolding m2(4) [symmetric]
    by (cases "ensure_microtask_capacity (it_reserves I) (length reactions) m")
      (simp_all add: settle_promise_def reads_def Let_def charges diff eval_bind_def modifies_def updates_def queued_reactions_def m2(4))
  assume "ensure_microtask_capacity (it_reserves I) (length reactions) m = Ok u"
  then have l: "snd ?l = push_microtasks (queued_reactions terminal reactions) m2" unfolding eq by (simp add: m2(4) diff)
  have "ledger_ok (push_microtasks qs m2) \<longleftrightarrow> ledger_ok m2" for qs
    by (simp add: push_microtasks_def ledger_ok_def vacant_slots_def live_runtime_slots_def)
  then have "ledger_ok (snd ?l)" using m2(3) by (simp add: l)
  moreover have "sum_list (map qm_retained_bytes (queued_reactions terminal reactions)) = ?q"
    by (simp add: queued_reactions_def comp_def sum_list_triv)
  ultimately show "jobs_ok (snd ?l) \<and> machine_evolves m (snd ?l)"
    by (intro slot_changed [OF ok i, where b = "mc_slot_bytes m ! i - ?p" and e = "Entry_Promise terminal ps pr" and qs = "queued_reactions terminal reactions"])
      (simp_all add: l m2(4) push_microtasks_def microtasks_of_def taken(1) own, simp_all add: pending entry_evolves_def taken(1))
qed

lemma run_settle [runs]:
  assumes "is_settled terminal"
  shows "runs_ok (well_run m0) (settle_promise I promise terminal)"
proof (rule runs_okI)
  fix m
  assume run: "well_run m0 m"
  then have ok: "jobs_ok m" by (simp add: well_run_def)
  show "fst (settle_promise I promise terminal m) \<noteq> Panic \<and> well_run m0 (snd (settle_promise I promise terminal m))"
  proof (cases "promise_slot promise m")
    case (Ok i)
    then have slot: "runtime_slot m promise = Ok (Some i)" by (simp add: promise_slot_iff)
    show ?thesis
    proof (cases "\<exists>fs rs ps pr. mc_heap m ! i = Entry_Promise (Promise_Pending fs rs) ps pr")
      case True
      then obtain fs rs ps pr where pending: "mc_heap m ! i = Entry_Promise (Promise_Pending fs rs) ps pr" by blast
      from assms obtain reactions where taken: "taken_reactions terminal fs rs = Some reactions" by (rule settled_taken)
      note settle = settle_pending [OF ok slot pending assms taken, of I]
      show ?thesis
      proof (cases "ensure_microtask_capacity (it_reserves I) (length reactions) m")
        case (Ok u)
        then have "fst (settle_promise I promise terminal m) \<noteq> Panic" unfolding settle(1) by simp
        then show ?thesis using settle(2) [OF Ok] run by (blast intro: well_run_step)
      qed (use run settle(1) in simp_all)
    next
      case False
      then show ?thesis using Ok run
        by (auto simp: settle_promise_def reads_def split: HeapEntry.split PromiseState.split)
    qed
  qed (use run in \<open>simp_all add: settle_promise_def reads_def\<close>)
qed

section \<open>Attaching reactions\<close>

lemma react_ok:
  assumes run: "well_run m0 m" and i: "i < length (mc_heap m)" and entry: "mc_heap m ! i = Entry_Promise state ps pr"
  shows "fst (react I i state f r m) \<noteq> Panic \<and> well_run m0 (snd (react I i state f r m))"
proof (cases "is_settled state")
  case True
  then have "react I i state f r = eval_bind (reads (\<lambda>m. map_err Fail_Runtime (ensure_microtask_capacity (it_reserves I) 1 m)))
      (\<lambda>_. modifies (\<lambda>m. push_microtasks [uncharged (reaction_job state (chosen_reaction state (f (context_global m)) (r (context_global m))))] m))"
    by (cases state) (simp_all add: react_def)
  moreover have "runs_ok (well_run m0) \<dots>" by (intro runs) simp
  ultimately show ?thesis using run by (simp add: runs_ok_def)
next
  case False
  then obtain fs rs where state: "state = Promise_Pending fs rs" by (cases state) auto
  from run have ok: "jobs_ok m" by (simp add: well_run_def)
  note m = jobs_okD [OF ok]
  have own: "mc_intrinsic_slots m \<le> i" using m(4) [OF i] by (simp add: entry)
  let ?b = "PromiseReaction_BYTES * 2" and ?c = "context_global m"
  let ?m1 = "charged_slot i ?b m"
  let ?e = "Entry_Promise (Promise_Pending (fs @ [f ?c]) (rs @ [r ?c])) ps pr"
  let ?m2 = "?m1\<lparr>mc_heap := (mc_heap m)[i := ?e]\<rparr>"
  show ?thesis
  proof (cases "mc_heap_bytes m + charge_due m i ?b \<le> mc_max_heap_bytes m")
    case True
    have ctx: "context_global ?m1 = ?c" by (simp add: context_global_def charged_slot_def)
    have c: "charge_slot i ?b m = Ok ?m1" using True by (simp add: charge_slot_eq [OF m(1) i])
    have "charge_promise_reactions i 2 m = (Ok (), ?m1)"
      using c by (simp add: charge_promise_reactions_def PromiseReaction_BYTES_def eval_map_err_def updates_def)
    then have eq: "react I i state f r m = (Ok (), ?m2)" using entry state ctx by (simp add: react_def)
    have "ledger_ok ?m1" by (rule charge_slot_ok [OF m(1) i c])
    then have "ledger_ok (?m1\<lparr>mc_heap := (mc_heap ?m1)[i := ?e]\<rparr>)" by (rule ledger_ok_heap_update) (simp add: entry)
    then have "ledger_ok ?m2" by simp
    then have "jobs_ok ?m2 \<and> machine_evolves m ?m2"
      by (rule slot_changed [OF ok i, where b = "mc_slot_bytes m ! i + ?b" and e = ?e and qs = "[]"])
        (use own held_small(1) [OF ok i order_refl] in \<open>simp_all add: charged_slot_def charge_due_owned [OF m(1) own] microtasks_of_def
          entry state entry_evolves_def algebra_simps\<close>)
    then show ?thesis using run unfolding eq by (auto intro: well_run_step)
  next
    case False
    then have "charge_promise_reactions i 2 m = (Err (Fail_Runtime (Error_HeapByteLimitExceeded (mc_max_heap_bytes m))), m)"
      using charge_slot_eq [OF m(1) i, of ?b] by (simp add: charge_promise_reactions_def PromiseReaction_BYTES_def eval_map_err_def updates_def)
    then show ?thesis using run state by (simp add: react_def)
  qed
qed

lemma promise_state_iff: "promise_state slot e m = Ok (i, st) \<longleftrightarrow> slot = Ok i \<and> (\<exists>ps pr. mc_heap m ! i = Entry_Promise st ps pr)"
proof -
  have "(case x of Entry_Promise state ps prototype \<Rightarrow> Ok (j, state) | _ \<Rightarrow> Err e) = Ok (i, st) \<longleftrightarrow> j = i \<and> (\<exists>ps pr. x = Entry_Promise st ps pr)" for j x
    by (cases x) auto
  then show ?thesis by (auto simp: promise_state_def bind_result_iffs)
qed

lemma promise_state_no_Panic: "slot \<noteq> Panic \<Longrightarrow> promise_state slot e m \<noteq> Panic"
proof -
  have "(case x of Entry_Promise state ps prototype \<Rightarrow> Ok (j, state) | _ \<Rightarrow> Err e) \<noteq> Panic" for j :: usize and x by (cases x) simp_all
  then show "slot \<noteq> Panic \<Longrightarrow> promise_state slot e m \<noteq> Panic" by (auto simp: promise_state_def bind_result_iffs)
qed

text \<open>Reading the state of a promise and continuing with it.\<close>

lemma run_state_bind:
  assumes "\<And>m. slot m \<noteq> Panic" and "\<And>m i. slot m = Ok i \<Longrightarrow> i < length (mc_heap m)"
    and "\<And>m i st ps pr. well_run m0 m \<Longrightarrow> i < length (mc_heap m) \<Longrightarrow> mc_heap m ! i = Entry_Promise st ps pr \<Longrightarrow>
      fst (g i st m) \<noteq> Panic \<and> well_run m0 (snd (g i st m))"
  shows "runs_ok (well_run m0) (eval_bind (reads (\<lambda>m. promise_state (slot m) e m)) (\<lambda>(i, st). g i st))"
proof (rule runs_okI)
  fix m
  assume run: "well_run m0 m"
  show "fst (eval_bind (reads (\<lambda>m. promise_state (slot m) e m)) (\<lambda>(i, st). g i st) m) \<noteq> Panic \<and>
    well_run m0 (snd (eval_bind (reads (\<lambda>m. promise_state (slot m) e m)) (\<lambda>(i, st). g i st) m))"
  proof (cases "promise_state (slot m) e m")
    case (Ok x)
    obtain i st where x: "x = (i, st)" by fastforce
    with Ok obtain ps pr where "slot m = Ok i" "mc_heap m ! i = Entry_Promise st ps pr" by (auto simp: promise_state_iff)
    with assms(3) [OF run assms(2)] show ?thesis using Ok x by (simp add: reads_def)
  next
    case Panic
    then show ?thesis using promise_state_no_Panic [OF assms(1)] by simp
  qed (use run in \<open>simp add: reads_def\<close>)
qed

lemma slot_laws:
  "slot_or_throw operation p m = Ok i \<Longrightarrow> i < length (mc_heap m)" "map_err Fail_Runtime (promise_slot p m) = Ok i \<Longrightarrow> i < length (mc_heap m)"
  by (auto simp: promise_slot_iff intro: runtime_slot_bound)

lemma run_create_promise [runs]: "runs_ok (well_run m0) (create_promise I)"
  unfolding create_promise_def by (intro runs) simp_all

lemma created_promise_keeps:
  assumes run: "well_run m0 m" and "create_promise I m = (Ok v, m')"
  shows "well_run m0 m'" "\<exists>e. mc_heap m' = mc_heap m @ [e]"
proof -
  show "well_run m0 m'" using runs_okD [OF run_create_promise run assms(2)] by simp
  from assms(2) have "allocate (Entry_Promise (Promise_Pending [] []) [] (Some (it_promise_prototype I))) m = Ok (v, m')"
    by (auto simp: create_promise_def eval_map_err_def produces_def split: result.splits prod.splits)
  then show "\<exists>e. mc_heap m' = mc_heap m @ [e]" using allocate_ok [OF jobs_okD(1) promise_entry_facts(1)] run by (auto simp: well_run_def)
qed

lemma run_promise_then [runs]: "runs_ok (well_run m0) (promise_then I promise on_fulfilled on_rejected)"
  unfolding promise_then_def
proof (rule run_state_bind)
  fix m i st ps pr
  assume run: "well_run m0 m" and i: "i < length (mc_heap m)" and entry: "mc_heap m ! i = Entry_Promise st ps pr"
  let ?k = "\<lambda>derived. eval_bind (react I i st (Reaction_Fulfilled on_fulfilled derived) (Reaction_Rejected on_rejected derived)) (\<lambda>_. eval_ok derived)"
  obtain r m1 where c: "create_promise I m = (r, m1)" by fastforce
  show "fst (eval_bind (create_promise I) ?k m) \<noteq> Panic \<and> well_run m0 (snd (eval_bind (create_promise I) ?k m))"
  proof (cases r)
    case (Ok derived)
    from created_promise_keeps [OF run c [unfolded Ok]] obtain e where m1: "well_run m0 m1" "mc_heap m1 = mc_heap m @ [e]" by blast
    have "fst (react I i st f g m1) \<noteq> Panic \<and> well_run m0 (snd (react I i st f g m1))" for f g
      using i entry by (intro react_ok [OF m1(1)]) (simp_all add: m1(2) nth_append)
    then show ?thesis using c Ok by (auto simp: eval_bind_def eval_ok_def split: result.split prod.split) (metis fst_conv snd_conv)+
  qed (use c runs_okD [OF run_create_promise run c] in auto)
qed (simp_all add: slot_laws)

section \<open>The other operations\<close>

text \<open>
  What is assumed of the interpreter: whatever it does when it calls functions, reads properties, makes error objects or resumes
  activations, it keeps the invariant and does not panic.
\<close>

definition interpreter_ok :: "Interpreter \<Rightarrow> bool" where
  "interpreter_ok I \<longleftrightarrow> (\<forall>m0.
     (\<forall>f this args. runs_ok (well_run m0) (it_call_value I f this args)) \<and>
     (\<forall>v name. runs_ok (well_run m0) (it_get_named_property I v name)) \<and>
     (\<forall>v m. it_is_callable I v m \<noteq> Panic) \<and>
     (\<forall>origin. runs_ok (well_run m0) (it_materialize_engine_origin I origin)) \<and>
     (\<forall>a v origin. runs_ok (well_run m0) (it_resume_async_function I a v origin)) \<and>
     (\<forall>g v origin. runs_ok (well_run m0) (it_resume_async_generator I g v origin)) \<and>
     (\<forall>parent. runs_ok (well_run m0) (it_on_module_dep_fulfilled I parent)) \<and>
     (\<forall>parent v origin. runs_ok (well_run m0) (it_on_module_dep_rejected I parent v origin)) \<and>
     (\<forall>v is_done. runs_ok (well_run m0) (it_iterator_result I v is_done)) \<and>
     (\<forall>stack e s c. runs_ok (well_run m0) (it_continue_async_disposal I stack e s c)) \<and>
     (\<forall>a b. runs_ok (well_run m0) (it_module_namespace I a b)))"

lemma interpreter_runs:
  assumes "interpreter_ok I"
  shows "runs_ok (well_run m0) (it_call_value I f this args)" "runs_ok (well_run m0) (it_get_named_property I v name)" "it_is_callable I v m \<noteq> Panic"
    "runs_ok (well_run m0) (it_materialize_engine_origin I origin)" "runs_ok (well_run m0) (it_resume_async_function I a v w)"
    "runs_ok (well_run m0) (it_resume_async_generator I a v w)" "runs_ok (well_run m0) (it_on_module_dep_fulfilled I parent)"
    "runs_ok (well_run m0) (it_on_module_dep_rejected I parent v origin)" "runs_ok (well_run m0) (it_iterator_result I v is_done)"
    "runs_ok (well_run m0) (it_continue_async_disposal I stack e t c)" "runs_ok (well_run m0) (it_module_namespace I parent parent')"
  using assms by (simp_all add: interpreter_ok_def)

lemma run_rejection_value:
  assumes "\<And>origin. runs_ok P (mat origin)"
  shows "runs_ok P (promise_rejection_value mat failure)"
proof (rule runs_okI)
  fix m
  assume "P m"
  then have mat: "fst (mat origin m) \<noteq> Panic \<and> P (snd (mat origin m))" for origin using assms by (simp add: runs_ok_def)
  show "fst (promise_rejection_value mat failure m) \<noteq> Panic \<and> P (snd (promise_rejection_value mat failure m))"
    using \<open>P m\<close> mat [of "case failure of Fail_Throw origin \<Rightarrow> origin"]
    by (cases "(mat, failure, m)" rule: promise_rejection_value.cases) (auto simp: bind_result_iffs split: prod.split)
qed

lemma promise_is_settled_no_Panic: "promise_is_settled promise m \<noteq> Panic"
proof -
  have "(case x of Entry_Promise (Promise_Pending fs rs) ps prototype \<Rightarrow> Ok False | Entry_Promise state ps prototype \<Rightarrow> Ok True
      | _ \<Rightarrow> Err (Error_InvalidValue promise)) \<noteq> Panic" for x
    by (cases x) (auto split: PromiseState.split)
  then show ?thesis by (auto simp: promise_is_settled_def bind_result_iffs)
qed

lemma run_use_resolver [runs]: "runs_ok (well_run m0) (use_promise_resolver rec)"
proof (rule runs_okI)
  fix m
  assume run: "well_run m0 m"
  then have ok: "jobs_ok m" by (simp add: well_run_def)
  note m = jobs_okD [OF ok]
  show "fst (use_promise_resolver rec m) \<noteq> Panic \<and> well_run m0 (snd (use_promise_resolver rec m))"
  proof (cases "slot_or_throw ''Promise resolver'' rec m")
    case (Ok i)
    show ?thesis
    proof (cases "\<exists>p. mc_heap m ! i = Entry_PromiseResolver p False")
      case True
      then obtain p where e: "mc_heap m ! i = Entry_PromiseResolver p False" by blast
      have i: "i < length (mc_heap m)" using Ok by (rule slot_laws)
      let ?m = "m\<lparr>mc_heap := (mc_heap m)[i := Entry_PromiseResolver p True]\<rparr>"
      have "ledger_ok ?m" by (rule ledger_ok_heap_update [OF m(1)]) (simp add: e is_vacant_def)
      then have "jobs_ok ?m \<and> machine_evolves m ?m"
        by (rule slot_changed [OF ok i, where b = "mc_slot_bytes m ! i" and e = "Entry_PromiseResolver p True" and qs = "[]"])
          (use e in \<open>auto simp: held_bytes_def counts_entries_def is_promise_entry_def entry_evolves_def microtasks_of_def\<close>)
      then show ?thesis using Ok e run by (auto simp: use_promise_resolver_def reads_def intro: well_run_step)
    next
      case False
      then show ?thesis using Ok run by (auto simp: use_promise_resolver_def reads_def split: HeapEntry.split)
    qed
  qed (use run in \<open>simp_all add: use_promise_resolver_def reads_def\<close>)
qed

lemma run_enqueue_callback [runs]: "runs_ok (well_run m0) (enqueue_microtask_callback I callback)"
  unfolding enqueue_microtask_callback_def by (intro runs) simp

lemma run_create_resolver [runs]:
  "runs_ok (well_run m0) (create_promise_resolver promise)" "runs_ok (well_run m0) (create_promise_resolver_function target rec)"
  unfolding create_promise_resolver_def create_promise_resolver_function_def
  by (intro runs; simp add: is_vacant_def held_bytes_def counts_entries_def)+

lemma run_reject [runs]: "interpreter_ok I \<Longrightarrow> runs_ok (well_run m0) (reject_promise I promise reason origin)"
  unfolding reject_promise_def by (intro runs interpreter_runs promise_is_settled_no_Panic) simp_all

lemma run_reject_failure [runs]: "interpreter_ok I \<Longrightarrow> runs_ok (well_run m0) (reject_promise_failure I promise failure)"
  unfolding reject_promise_failure_def by (intro runs run_rejection_value interpreter_runs)

lemma run_fulfill [runs]: "runs_ok (well_run m0) (fulfill_promise I promise v)"
  unfolding fulfill_promise_def by (intro runs) simp

lemma run_resolve [runs]:
  assumes "interpreter_ok I"
  shows "runs_ok (well_run m0) (resolve_promise I promise v)"
proof -
  let ?self = "eval_map_err (failure_kind promise) (reject_promise_failure I promise (type_error ''Promise cannot resolve itself''))"
  let ?adopt = "eval_match (it_get_named_property I v ''then'')
         (\<lambda>then_method.
            eval_bind (reads (\<lambda>m. map_err (failure_kind then_method) (it_is_callable I then_method m))) (\<lambda>callable.
              if \<not> callable then fulfill_promise I promise v
              else
                eval_bind (reads (ensure_microtask_capacity (it_reserves I) 1)) (\<lambda>_.
                  modifies (\<lambda>m. push_microtasks [uncharged (Job_Thenable promise v then_method (context_global m))] m))))
         (\<lambda>failure. case failure of
            Fail_Runtime kind \<Rightarrow> eval_err kind
          | _ \<Rightarrow> eval_map_err (failure_kind promise) (reject_promise_failure I promise failure))"
  have "runs_ok (well_run m0) ?self" by (intro runs assms)
  moreover have "runs_ok (well_run m0) (fulfill_promise I promise v)" by (rule runs)
  moreover have "runs_ok (well_run m0) (case failure of Fail_Runtime kind \<Rightarrow> eval_err kind
      | _ \<Rightarrow> eval_map_err (failure_kind promise) (reject_promise_failure I promise failure))" for failure
    by (cases failure) (auto intro!: runs assms)
  then have "runs_ok (well_run m0) ?adopt" by (intro runs interpreter_runs assms) (simp_all add: interpreter_runs [OF assms])
  ultimately show ?thesis unfolding resolve_promise_def [abs_def] by (intro runs_ok_choose) simp_all
qed

lemma run_resolvers [runs]:
  assumes "interpreter_ok I"
  shows "runs_ok (well_run m0) (resolve_promise_resolver I rec v)" "runs_ok (well_run m0) (reject_promise_resolver I rec v)"
    "runs_ok (well_run m0) (reject_promise_resolver_failure I rec failure)"
  unfolding resolve_promise_resolver_def reject_promise_resolver_def reject_promise_resolver_failure_def by (intro runs assms)+

lemma run_promise_resolve [runs]:
  assumes "interpreter_ok I"
  shows "runs_ok (well_run m0) (promise_resolve I v)"
proof -
  let ?new = "eval_bind (create_promise I) (\<lambda>promise. eval_bind (eval_map_err Fail_Runtime (resolve_promise I promise v)) (\<lambda>_. eval_ok promise))"
  have new: "runs_ok (well_run m0) ?new" by (intro runs assms)
  show ?thesis unfolding promise_resolve_def
  proof (intro runs_ok_bind runs_ok_reads)
    show "runs_ok (well_run m0) (\<lambda>m. if (case slot of None \<Rightarrow> False | Some index \<Rightarrow> (case mc_heap m ! index of Entry_Promise state ps prototype \<Rightarrow> True | _ \<Rightarrow> False))
      then (Ok v, m) else ?new m)" for slot
      using new by (simp add: runs_ok_def)
  qed (simp add: runtime_slot_no_Panic)
qed

lemma run_attach [runs]:
  assumes "interpreter_ok I"
  shows "runs_ok (well_run m0) (attach_module_reactions I parent promise)" "runs_ok (well_run m0) (await_promise I v activation)"
    "runs_ok (well_run m0) (await_promise_for_generator I v generator)" "runs_ok (well_run m0) (attach_async_from_sync_reactions I d v is_done it)"
    "runs_ok (well_run m0) (arm_async_disposal_reaction I promise stack e capability)"
  unfolding attach_module_reactions_def await_promise_def await_promise_for_generator_def attach_async_from_sync_reactions_def
    arm_async_disposal_reaction_def promise_state_or_invalid_def
  by (intro runs_ok_bind [OF run_promise_resolve [OF assms]] run_state_bind; simp add: slot_laws react_ok)+

lemma run_dynamic_import [runs]:
  assumes "interpreter_ok I"
  shows "runs_ok (well_run m0) (attach_dynamic_import_reactions I evaluation promise target)"
  unfolding attach_dynamic_import_reactions_def
proof (rule run_state_bind)
  fix m i st ps pr
  assume run: "well_run m0 m" and i: "i < length (mc_heap m)" and entry: "mc_heap m ! i = Entry_Promise st ps pr"
  let ?g = "case st of
        Promise_Pending fs rs \<Rightarrow> react I i st (Reaction_DynamicImportFulfill promise target) (Reaction_DynamicImportReject promise)
      | Promise_Fulfilled v \<Rightarrow>
          eval_bind (eval_map_err Fail_Runtime (it_module_namespace I target target)) (\<lambda>namespace.
            eval_map_err Fail_Runtime (resolve_promise I promise namespace))
      | Promise_Rejected reason origin \<Rightarrow> eval_map_err Fail_Runtime (reject_promise I promise reason origin)"
  have "runs_ok (well_run m0) (eval_bind (eval_map_err Fail_Runtime (it_module_namespace I target target)) (\<lambda>namespace.
            eval_map_err Fail_Runtime (resolve_promise I promise namespace)))"
    by (intro runs interpreter_runs assms)
  moreover have "runs_ok (well_run m0) (eval_map_err Fail_Runtime (reject_promise I promise reason origin))" for reason origin
    by (intro runs assms)
  ultimately show "fst (?g m) \<noteq> Panic \<and> well_run m0 (snd (?g m))"
    using react_ok [OF run i entry] run by (cases st) (simp_all add: runs_ok_def)
qed (simp_all add: slot_laws)

end
