(* ===== verification/Promise_Jobs.thy ===== *)
theory Promise_Jobs
  imports Promise_Runs
begin

text \<open>
  Jobs and the microtask checkpoint (\<^verbatim>\<open>drain_microtasks_core\<close> and the functions it calls in
  \<^verbatim>\<open>src/crates/bamts-runtime/src/lib.rs\<close>). The drain is a partial function because a cleanup job may run forever; it ends by the
  fuel it consumes before every job. An error is its kind: the location that \<open>checkpoint_error\<close> adds (always the module's
  entry) is left out.
\<close>

section \<open>Running one job\<close>

datatype PromiseCompletion = Completion_Fulfilled | Completion_Rejected

definition execute_promise_handler ::
  "Interpreter \<Rightarrow> Value \<Rightarrow> Value \<Rightarrow> Value \<Rightarrow> ThrowOrigin \<Rightarrow> PromiseCompletion \<Rightarrow> (unit, RuntimeErrorKind) eval" where
  "execute_promise_handler I handler derived v origin completion =
    eval_bind (reads (\<lambda>m. map_err (failure_kind handler) (it_is_callable I handler m))) (\<lambda>callable.
      if \<not> callable then
        (case completion of
           Completion_Fulfilled \<Rightarrow> resolve_promise I derived v
         | Completion_Rejected \<Rightarrow> reject_promise I derived v origin)
      else
        eval_match (it_call_value I handler Value_UNDEFINED [v])
          (\<lambda>res. resolve_promise I derived res)
          (\<lambda>failure. case failure of
             Fail_Runtime kind \<Rightarrow> eval_err kind
           | _ \<Rightarrow> eval_map_err (failure_kind derived) (reject_promise_failure I derived failure)))"

definition close_protocol_iterator :: "Interpreter \<Rightarrow> Value \<Rightarrow> (unit, EvalFailure) eval" where
  "close_protocol_iterator I iterator =
    eval_bind (it_get_named_property I iterator ''return'') (\<lambda>close.
      eval_bind (reads (it_is_callable I close)) (\<lambda>callable.
        if callable then eval_bind (it_call_value I close iterator []) (\<lambda>_. eval_ok ()) else eval_ok ()))"

definition close_protocol_iterator_preserving_abrupt :: "Interpreter \<Rightarrow> Value \<Rightarrow> (unit, RuntimeErrorKind) eval" where
  "close_protocol_iterator_preserving_abrupt I iterator =
    eval_match (close_protocol_iterator I iterator) eval_ok (\<lambda>failure. case failure of Fail_Runtime kind \<Rightarrow> eval_err kind | _ \<Rightarrow> eval_ok ())"

text \<open>A step that settles a promise with a failure that is not the machine's own.\<close>

definition or_reject :: "Interpreter \<Rightarrow> Value \<Rightarrow> ('a, EvalFailure) eval \<Rightarrow> ('a \<Rightarrow> (unit, RuntimeErrorKind) eval) \<Rightarrow> (unit, RuntimeErrorKind) eval" where
  "or_reject I promise f g =
    eval_match f g (\<lambda>failure. case failure of
      Fail_Runtime kind \<Rightarrow> eval_err kind
    | _ \<Rightarrow> eval_map_err (failure_kind promise) (reject_promise_failure I promise failure))"

fun execute_promise_reaction :: "Interpreter \<Rightarrow> PromiseReaction \<Rightarrow> Value \<Rightarrow> ThrowOrigin \<Rightarrow> (unit, RuntimeErrorKind) eval" where
  "execute_promise_reaction I (Reaction_Fulfilled handler derived c) v origin = execute_promise_handler I handler derived v origin Completion_Fulfilled"
| "execute_promise_reaction I (Reaction_Rejected handler derived c) v origin = execute_promise_handler I handler derived v origin Completion_Rejected"
| "execute_promise_reaction I (Reaction_AsyncFulfill activation c) v origin = it_resume_async_function I activation v None"
| "execute_promise_reaction I (Reaction_AsyncReject activation c) v origin = it_resume_async_function I activation v (Some origin)"
| "execute_promise_reaction I (Reaction_AsyncGeneratorFulfill generator c) v origin = it_resume_async_generator I generator v None"
| "execute_promise_reaction I (Reaction_AsyncGeneratorReject generator c) v origin = it_resume_async_generator I generator v (Some origin)"
| "execute_promise_reaction I (Reaction_ModuleDepFulfill parent c) v origin = it_on_module_dep_fulfilled I parent"
| "execute_promise_reaction I (Reaction_ModuleDepReject parent c) v origin = it_on_module_dep_rejected I parent v origin"
| "execute_promise_reaction I (Reaction_AsyncFromSyncFulfill derived is_done c) v origin =
     or_reject I derived (it_iterator_result I v is_done) (fulfill_promise I derived)"
| "execute_promise_reaction I (Reaction_AsyncFromSyncReject derived sync_iterator c) v origin =
     eval_bind (close_protocol_iterator_preserving_abrupt I sync_iterator) (\<lambda>_. reject_promise I derived v origin)"
| "execute_promise_reaction I (Reaction_AsyncDisposeStep stack pending_error capability rejected c) v origin =
     or_reject I capability (it_continue_async_disposal I stack pending_error (if rejected then Some v else None) capability) eval_ok"
| "execute_promise_reaction I (Reaction_DynamicImportFulfill promise target c) v origin =
     eval_bind (it_module_namespace I target target) (\<lambda>namespace. resolve_promise I promise namespace)"
| "execute_promise_reaction I (Reaction_DynamicImportReject promise c) v origin = reject_promise I promise v origin"

definition execute_thenable_job :: "Interpreter \<Rightarrow> Value \<Rightarrow> Value \<Rightarrow> Value \<Rightarrow> (unit, RuntimeErrorKind) eval" where
  "execute_thenable_job I promise thenable then_method =
    eval_bind (eval_map_err (failure_kind promise) (create_promise_resolver promise)) (\<lambda>rec.
      case it_promise_resolver_targets I of (resolve_target, reject_target) \<Rightarrow>
        eval_bind (eval_map_err (failure_kind rec) (create_promise_resolver_function resolve_target rec)) (\<lambda>resolve.
        eval_bind (eval_map_err (failure_kind rec) (create_promise_resolver_function reject_target rec)) (\<lambda>reject.
          eval_match (it_call_value I then_method thenable [resolve, reject])
            (\<lambda>_. eval_ok ())
            (\<lambda>failure. case failure of
               Fail_Runtime kind \<Rightarrow> eval_err kind
             | _ \<Rightarrow> eval_map_err (failure_kind rec) (reject_promise_resolver_failure I rec failure)))))"

definition execute_callback_microtask :: "Interpreter \<Rightarrow> Value \<Rightarrow> ((Value \<times> ThrowOrigin) option, RuntimeErrorKind) eval" where
  "execute_callback_microtask I callback =
    eval_match (it_call_value I callback Value_UNDEFINED [])
      (\<lambda>_. eval_ok None)
      (\<lambda>failure. case failure of
         Fail_Runtime kind \<Rightarrow> eval_err kind
       | _ \<Rightarrow> eval_bind (eval_map_err (failure_kind callback) (promise_rejection_value (it_materialize_engine_origin I) failure)) (\<lambda>exception.
           eval_ok (Some exception)))"

primrec reaction_context :: "PromiseReaction \<Rightarrow> Value option" where
  "reaction_context (Reaction_Fulfilled handler derived c) = c"
| "reaction_context (Reaction_Rejected handler derived c) = c"
| "reaction_context (Reaction_AsyncFulfill activation c) = c"
| "reaction_context (Reaction_AsyncReject activation c) = c"
| "reaction_context (Reaction_AsyncGeneratorFulfill generator c) = c"
| "reaction_context (Reaction_AsyncGeneratorReject generator c) = c"
| "reaction_context (Reaction_ModuleDepFulfill parent c) = c"
| "reaction_context (Reaction_ModuleDepReject parent c) = c"
| "reaction_context (Reaction_AsyncFromSyncFulfill derived is_done c) = c"
| "reaction_context (Reaction_AsyncFromSyncReject derived sync_iterator c) = c"
| "reaction_context (Reaction_AsyncDisposeStep stack pending_error capability rejected c) = c"
| "reaction_context (Reaction_DynamicImportFulfill promise target c) = c"
| "reaction_context (Reaction_DynamicImportReject promise c) = c"

definition set_context :: "Value option \<Rightarrow> Machine \<Rightarrow> Machine" where
  "set_context c m = m\<lparr>mc_roots := (mc_roots m)\<lparr>rt_context_global := c\<rparr>\<rparr>"

text \<open>The operation runs with another context; the previous one is restored, whatever the outcome. \<open>None\<close> stands for an operation that does not return.\<close>

definition with_active_context ::
  "Value option \<Rightarrow> (Machine \<Rightarrow> (('a, 'e) result \<times> Machine) option) \<Rightarrow> Machine \<Rightarrow> (('a, 'e) result \<times> Machine) option" where
  "with_active_context c operation m =
    (case operation (set_context c m) of None \<Rightarrow> None | Some (r, m') \<Rightarrow> Some (r, set_context (context_global m) m'))"

definition execute_microtask_job ::
  "Interpreter \<Rightarrow> MicrotaskJob \<Rightarrow> Machine \<Rightarrow> (((Value \<times> ThrowOrigin) option, RuntimeErrorKind) result \<times> Machine) option" where
  "execute_microtask_job I job =
    (case job of
       Job_Reaction reaction v origin \<Rightarrow>
         with_active_context (reaction_context reaction) (\<lambda>m.
           Some (eval_bind (execute_promise_reaction I reaction v origin) (\<lambda>_. eval_ok None) m))
     | Job_Thenable promise thenable then_method c \<Rightarrow>
         with_active_context c (\<lambda>m. Some (eval_bind (execute_thenable_job I promise thenable then_method) (\<lambda>_. eval_ok None) m))
     | Job_Callback callback c \<Rightarrow> with_active_context c (\<lambda>m. Some (execute_callback_microtask I callback m))
     | Job_FinalizationCleanup registry c \<Rightarrow>
         with_active_context c (execute_finalization_cleanup_job (it_call_value I) (it_materialize_engine_origin I) registry))"

section \<open>The checkpoint\<close>

datatype MicrotaskExceptionPolicy = CollectAndContinue | StopAtFirst

record MicrotaskDrain =
  md_executed :: usize
  md_uncaught :: "(Value \<times> ThrowOrigin) list"

definition consume_fuel :: "u64 \<Rightarrow> (unit, RuntimeErrorKind) eval" where
  "consume_fuel amount m =
    (if jc_cancelled (mc_jobs m) then (Err Error_Cancelled, m)
     else if jc_fuel (mc_jobs m) < amount
     then (Err (Error_FuelExhausted (jc_fuel_limit (mc_jobs m))), m\<lparr>mc_jobs := (mc_jobs m)\<lparr>jc_fuel := 0\<rparr>\<rparr>)
     else (Ok (), m\<lparr>mc_jobs := (mc_jobs m)\<lparr>jc_fuel := jc_fuel (mc_jobs m) - amount\<rparr>\<rparr>))"

definition pop_microtask :: "(QueuedMicrotask, 'e) eval" where
  "pop_microtask m =
    (case microtasks_of m of
       [] \<Rightarrow> (Panic, m)
     | q # qs \<Rightarrow> (Ok q, m\<lparr>mc_roots := (mc_roots m)\<lparr>rt_microtasks := qs\<rparr>\<rparr>))"

text \<open>The part of a round that precedes the job: schedule cleanup jobs, stop on an empty queue, pay, collect garbage and take the first job.\<close>

definition next_microtask :: "Interpreter \<Rightarrow> (hash_input \<Rightarrow> u64) \<Rightarrow> (MicrotaskJob option, RuntimeErrorKind) eval" where
  "next_microtask I hasher =
    eval_bind (produces (schedule_finalization_cleanup_jobs (it_reserves I))) (\<lambda>_ m.
      if microtasks_of m = [] then (Ok None, m)
      else
        eval_bind (consume_fuel 1) (\<lambda>_.
        eval_bind (updates (collect_if_pending hasher)) (\<lambda>_.
        eval_bind pop_microtask (\<lambda>queued.
        eval_bind (updates (refund_machine (qm_retained_bytes queued))) (\<lambda>_.
        eval_ok (Some (qm_job queued)))))) m)"

definition is_finalization_cleanup :: "MicrotaskJob \<Rightarrow> bool" where
  "is_finalization_cleanup job = (case job of Job_FinalizationCleanup registry c \<Rightarrow> True | _ \<Rightarrow> False)"

partial_function (option) drain_loop ::
  "Interpreter \<Rightarrow> (hash_input \<Rightarrow> u64) \<Rightarrow> MicrotaskExceptionPolicy \<Rightarrow> MicrotaskDrain \<Rightarrow> Machine \<Rightarrow>
   ((MicrotaskDrain, RuntimeErrorKind) result \<times> Machine) option" where
  "drain_loop I hasher policy report m =
    (case next_microtask I hasher m of
       (Err e, m) \<Rightarrow> Some (Err e, m)
     | (Panic, m) \<Rightarrow> Some (Panic, m)
     | (Ok None, m) \<Rightarrow> Some (Ok report, m)
     | (Ok (Some job), m) \<Rightarrow>
         let report = report\<lparr>md_executed := sat_add (md_executed report) 1\<rparr>
         in case execute_microtask_job I job m of
              None \<Rightarrow> None
            | Some (job_result, m) \<Rightarrow>
                (case updates clear_kept_alive_for_job m of
                   (Err e, m) \<Rightarrow> Some (Err e, m)
                 | (Panic, m) \<Rightarrow> Some (Panic, m)
                 | (Ok _, m) \<Rightarrow>
                     (case job_result of
                        Err e \<Rightarrow> Some (Err e, m)
                      | Panic \<Rightarrow> Some (Panic, m)
                      | Ok None \<Rightarrow> drain_loop I hasher policy report m
                      | Ok (Some exception) \<Rightarrow>
                          if \<not> it_reserves I (length (md_uncaught report) + 1)
                          then Some (Err (Error_HeapByteLimitExceeded (mc_max_heap_bytes m)), m)
                          else
                            let report = report\<lparr>md_uncaught := md_uncaught report @ [exception]\<rparr>
                            in if is_finalization_cleanup job \<or> policy = StopAtFirst then Some (Ok report, m)
                               else drain_loop I hasher policy report m)))"

definition set_drain_active :: "bool \<Rightarrow> Machine \<Rightarrow> Machine" where
  "set_drain_active active m = m\<lparr>mc_jobs := (mc_jobs m)\<lparr>jc_drain_active := active\<rparr>\<rparr>"

definition drain_microtasks_core ::
  "Interpreter \<Rightarrow> (hash_input \<Rightarrow> u64) \<Rightarrow> MicrotaskExceptionPolicy \<Rightarrow> Machine \<Rightarrow> ((MicrotaskDrain, RuntimeErrorKind) result \<times> Machine) option" where
  "drain_microtasks_core I hasher policy m =
    (if jc_drain_active (mc_jobs m) then Some (Err Error_MicrotaskDrainReentry, m)
     else
       case drain_loop I hasher policy \<lparr>md_executed = 0, md_uncaught = []\<rparr> (set_drain_active True m) of
         None \<Rightarrow> None
       | Some (Panic, m) \<Rightarrow> Some (Panic, m)
       | Some (r, m) \<Rightarrow> Some (r, set_drain_active False m))"

definition drain_microtasks_automatic ::
  "Interpreter \<Rightarrow> (hash_input \<Rightarrow> u64) \<Rightarrow> Machine \<Rightarrow> ((unit, RuntimeErrorKind) result \<times> Machine) option" where
  "drain_microtasks_automatic I hasher m =
    (case drain_microtasks_core I hasher StopAtFirst m of
       None \<Rightarrow> None
     | Some (r, m) \<Rightarrow>
         Some (bind_result r (\<lambda>report.
           case md_uncaught report of
             [] \<Rightarrow> Ok ()
           | (v, origin) # rest \<Rightarrow> Err (Error_UncaughtThrow v origin None)), m))"

section \<open>Jobs keep the invariant\<close>

lemma failure_cases [runs]:
  "(\<And>kind. runs_ok P (f kind)) \<Longrightarrow> (\<And>failure. runs_ok P (g failure)) \<Longrightarrow>
    runs_ok P (case failure of Fail_Runtime kind \<Rightarrow> f kind | _ \<Rightarrow> g failure)"
  by (cases failure) simp_all

lemma run_or_reject [runs]:
  "interpreter_ok I \<Longrightarrow> runs_ok (well_run m0) f \<Longrightarrow> (\<And>a. runs_ok (well_run m0) (g a)) \<Longrightarrow> runs_ok (well_run m0) (or_reject I promise f g)"
  unfolding or_reject_def by (intro runs)

lemma run_handler [runs]:
  assumes "interpreter_ok I"
  shows "runs_ok (well_run m0) (execute_promise_handler I handler derived v origin completion)"
proof -
  have "runs_ok (well_run m0) (case completion of Completion_Fulfilled \<Rightarrow> resolve_promise I derived v | Completion_Rejected \<Rightarrow> reject_promise I derived v origin)"
    by (cases completion) (simp_all add: run_resolve run_reject assms)
  then show ?thesis unfolding execute_promise_handler_def
    by (intro runs interpreter_runs assms) (simp_all add: interpreter_runs [OF assms])
qed

lemma run_close_iterator [runs]:
  assumes "interpreter_ok I"
  shows "runs_ok (well_run m0) (close_protocol_iterator_preserving_abrupt I iterator)"
  unfolding close_protocol_iterator_preserving_abrupt_def close_protocol_iterator_def by (intro runs interpreter_runs assms)

lemma run_reaction [runs]:
  assumes "interpreter_ok I"
  shows "runs_ok (well_run m0) (execute_promise_reaction I reaction v origin)"
  by (cases reaction; simp only: execute_promise_reaction.simps; intro runs interpreter_runs assms)

lemma run_thenable [runs]:
  assumes "interpreter_ok I"
  shows "runs_ok (well_run m0) (execute_thenable_job I promise thenable then_method)"
  unfolding execute_thenable_job_def by (intro runs interpreter_runs assms)

lemma run_callback [runs]:
  assumes "interpreter_ok I"
  shows "runs_ok (well_run m0) (execute_callback_microtask I callback)"
  unfolding execute_callback_microtask_def by (intro runs run_rejection_value interpreter_runs assms)

section \<open>Cleanup jobs keep the invariant\<close>

lemma registry_changed:
  assumes ok: "jobs_ok m" and i: "i < length (mc_heap m)" and entry: "mc_heap m ! i = registry_entry r"
    and held: "held_bytes (registry_entry r') + b \<le> held_bytes (registry_entry r)"
  shows "\<exists>m'. refund_slot i b (store_registry i r' m) = Ok m' \<and> jobs_ok m' \<and> machine_evolves m m'"
proof -
  note m = jobs_okD [OF ok]
  have vac: "is_vacant (registry_entry r') = is_vacant (mc_heap m ! i)" by (simp add: entry registry_bytes)
  have "b \<le> mc_slot_bytes m ! i" using m(5) [OF i] held by (simp add: entry)
  from replace_and_refund [OF m(1) i vac this] obtain m' where m': "refund_slot i b (store_registry i r' m) = Ok m'" "ledger_ok m'"
      "slot_step i (registry_entry r') (mc_slot_bytes m ! i - b) [] m m'" by (auto simp: store_registry_def)
  have "i < mc_intrinsic_slots m \<Longrightarrow> held_bytes (registry_entry r') = 0" using m(6) [of i] held by (simp add: entry)
  moreover have "\<not> is_promise_entry (registry_entry r')" by (simp add: registry_entry_def is_promise_entry_def)
  moreover have "entry_evolves (mc_heap m ! i) (registry_entry r')" by (simp add: entry registry_entry_def entry_evolves_def)
  moreover have "held_bytes (registry_entry r') \<le> mc_slot_bytes m ! i - b" using m(5) [OF i] held by (simp add: entry)
  ultimately have "jobs_ok m' \<and> machine_evolves m m'"
    using m'(3) registry_bytes(2) [of r']
    by (intro slot_changed [OF ok i m'(2), where b = "mc_slot_bytes m ! i - b" and e = "registry_entry r'" and qs = "[]"])
      (simp_all add: slot_step_def other_fields_def microtasks_of_def)
  with m'(1) show ?thesis by blast
qed

lemma registry_stored:
  assumes ok: "jobs_ok m" and i: "i < length (mc_heap m)" and entry: "mc_heap m ! i = registry_entry r"
  shows "jobs_ok (store_registry i (r\<lparr>rg_scheduled := s\<rparr>) m) \<and> machine_evolves m (store_registry i (r\<lparr>rg_scheduled := s\<rparr>) m)"
proof -
  note m = jobs_okD [OF ok]
  let ?m = "store_registry i (r\<lparr>rg_scheduled := s\<rparr>) m"
  have "ledger_ok ?m" unfolding store_registry_def by (rule ledger_ok_heap_update [OF m(1)]) (simp add: entry registry_bytes)
  then show ?thesis
    by (rule slot_changed [OF ok i, where b = "mc_slot_bytes m ! i" and e = "registry_entry (r\<lparr>rg_scheduled := s\<rparr>)" and qs = "[]"])
      (use m(5) [OF i] m(6) [of i] entry in \<open>simp_all add: store_registry_def microtasks_of_def registry_bytes\<close>,
       simp_all add: registry_entry_def is_promise_entry_def entry_evolves_def)
qed

lemma jobs_ok_queue:
  "jobs_ok (m\<lparr>mc_finalization_cleanup_queue := q\<rparr>) \<longleftrightarrow> jobs_ok m"
  "machine_evolves a (m\<lparr>mc_finalization_cleanup_queue := q\<rparr>) \<longleftrightarrow> machine_evolves a m"
  by (simp_all add: jobs_ok_def ledger_ok_kept_alive contents_charged_def retained_bytes_def microtasks_of_def machine_evolves_def)

lemma run_candidate: "well_run m0 m \<Longrightarrow> well_run m0 (queue_finalization_cleanup_candidate registry m)"
proof -
  assume run: "well_run m0 m"
  then have ok: "jobs_ok m" by (simp add: well_run_def)
  show ?thesis
  proof (cases "\<exists>i r. runtime_slot m registry = Ok (Some i) \<and> mc_heap m ! i = registry_entry r \<and> \<not> rg_scheduled r")
    case True
    then obtain i r where i: "runtime_slot m registry = Ok (Some i)" "mc_heap m ! i = registry_entry r" "\<not> rg_scheduled r" by blast
    then show ?thesis using registry_stored [OF ok runtime_slot_bound [OF i(1)] i(2), of True] run
      by (auto simp: queue_finalization_cleanup_candidate_def well_run_def jobs_ok_queue intro: machine_evolves_trans)
  next
    case False
    then show ?thesis using run
      by (auto simp: queue_finalization_cleanup_candidate_def registry_of_iff split: result.split option.split)
  qed
qed

lemma run_take_holding:
  assumes run: "well_run m0 m" and slot: "slot < length (mc_heap m0)"
  shows "case take_holding registry slot m of Ok (x, m') \<Rightarrow> well_run m0 m' | Err e \<Rightarrow> True | Panic \<Rightarrow> False"
proof -
  from run have ok: "jobs_ok m" and i: "slot < length (mc_heap m)" using slot by (auto simp: well_run_def machine_evolves_def)
  show ?thesis
  proof (cases "\<exists>r h rest. mc_heap m ! slot = registry_entry r \<and> rg_pending r = h # rest")
    case True
    then obtain r h rest where r: "mc_heap m ! slot = registry_entry r" "rg_pending r = h # rest" by blast
    then have "held_bytes (registry_entry (r\<lparr>rg_pending := rest\<rparr>)) + VALUE_BYTES \<le> held_bytes (registry_entry r)" by (simp add: registry_bytes)
    from registry_changed [OF ok i r(1) this] obtain m' where "refund_slot slot VALUE_BYTES (store_registry slot (r\<lparr>rg_pending := rest\<rparr>) m) = Ok m'"
        "jobs_ok m'" "machine_evolves m m'" by blast
    with r i run show ?thesis by (auto simp: take_holding_def with_registry_eq intro: well_run_step)
  next
    case False
    then show ?thesis using run i
      by (auto simp: take_holding_def with_registry_def slice_index_def registry_of_iff split: option.split list.split)
  qed
qed

lemma run_failed_cleanup:
  assumes I: "interpreter_ok I" and run: "well_run m0 m" and "failure \<noteq> Fail_Runtime kind"
    and "promise_rejection_value (it_materialize_engine_origin I) failure (if c then queue_finalization_cleanup_candidate registry m else m) = (r, m')"
  shows "r \<noteq> Panic \<and> well_run m0 m'"
proof -
  have "well_run m0 (if c then queue_finalization_cleanup_candidate registry m else m)" using run run_candidate [OF run] by simp
  then show ?thesis by (rule runs_okD [OF run_rejection_value [OF interpreter_runs(4) [OF I]] _ assms(4)])
qed

lemma run_cleanup_loop:
  assumes I: "interpreter_ok I" and slot: "slot < length (mc_heap m0)"
    and "cleanup_loop (it_call_value I) (it_materialize_engine_origin I) registry callback slot m = Some y" and "well_run m0 m"
  shows "fst y \<noteq> Panic \<and> well_run m0 (snd y)"
proof -
  let ?P = "\<lambda>cv mat (reg :: Value) (cb :: Value) sl m (y :: ((Value \<times> ThrowOrigin) option, RuntimeErrorKind) result \<times> Machine).
    cv = it_call_value I \<longrightarrow> mat = it_materialize_engine_origin I \<longrightarrow> sl = slot \<longrightarrow> well_run m0 m \<longrightarrow> fst y \<noteq> Panic \<and> well_run m0 (snd y)"
  have "?P (it_call_value I) (it_materialize_engine_origin I) registry callback slot m y"
  proof (rule cleanup_loop.raw_induct [of ?P, OF _ assms(3)], goal_cases)
    case (1 f cv mat reg cb sl m y)
    show ?case
    proof (intro impI)
      assume eqs: "cv = it_call_value I" "mat = it_materialize_engine_origin I" "sl = slot" and run: "well_run m0 m"
      note body = 1(2) [unfolded eqs] and IH = 1(1) [rule_format, OF _ refl refl refl]
      show "fst y \<noteq> Panic \<and> well_run m0 (snd y)"
      proof (cases "\<exists>p m1. take_holding reg slot m = Ok (Some p, m1)")
        case True
        then obtain h has_more m1 where t: "take_holding reg slot m = Ok (Some (h, has_more), m1)" by fastforce
        then have m1: "well_run m0 m1" using run_take_holding [OF run slot, of reg] by simp
        obtain res m2 where c: "it_call_value I cb Value_UNDEFINED [h] m1 = (res, m2)" by fastforce
        from runs_okD [OF interpreter_runs(1) [OF I] m1 c] have m2: "res \<noteq> Panic" "well_run m0 m2" by simp_all
        show ?thesis
        proof (cases res)
          case (Ok v)
          then have "f (it_call_value I) (it_materialize_engine_origin I) reg cb slot m2 = Some y" using body t c by simp
          then show ?thesis using IH m2(2) by blast
        next
          case (Err failure)
          then show ?thesis
          proof (cases failure)
            case (Fail_Runtime e)
            then show ?thesis using body t c Err m2(2) run_candidate [OF m2(2), of reg] by auto
          qed (use body t c Err run_failed_cleanup [OF I m2(2), of failure] in
              \<open>force simp: Let_def bind_result_iffs split: prod.splits\<close>)+
        qed (use m2 in simp)
      next
        case False
        then show ?thesis
        proof (cases "take_holding reg slot m")
          case (Ok a)
          with False have "a = (None, snd a)" by (cases "fst a"; cases a) auto
          then show ?thesis using body Ok run_take_holding [OF run slot, of reg] by (cases a) auto
        qed (use body run run_take_holding [OF run slot, of reg] in auto)
      qed
    qed
  qed
  then show ?thesis using assms(4) by simp
qed

lemma run_cleanup_job:
  assumes I: "interpreter_ok I" and ok: "jobs_ok m"
    and "execute_finalization_cleanup_job (it_call_value I) (it_materialize_engine_origin I) registry m = Some y"
  shows "fst y \<noteq> Panic \<and> well_run m (snd y)"
proof -
  have here: "well_run m m" using ok by (simp add: well_run_def)
  show ?thesis
  proof (cases "\<exists>i r. runtime_slot m registry = Ok (Some i) \<and> mc_heap m ! i = registry_entry r")
    case True
    then obtain i r where i: "runtime_slot m registry = Ok (Some i)" "mc_heap m ! i = registry_entry r" by blast
    let ?m = "store_registry i (r\<lparr>rg_scheduled := False\<rparr>) m"
    have "well_run m ?m" using registry_stored [OF ok runtime_slot_bound [OF i(1)] i(2), of False] by (simp add: well_run_def)
    moreover have "cleanup_loop (it_call_value I) (it_materialize_engine_origin I) registry (rg_callback r) i ?m = Some y"
      using assms(3) i by (simp add: execute_finalization_cleanup_job_def)
    ultimately show ?thesis using run_cleanup_loop [OF I runtime_slot_bound [OF i(1)]] by blast
  next
    case False
    then show ?thesis using assms(3) here runtime_slot_no_Panic [of m registry]
      by (auto simp: execute_finalization_cleanup_job_def registry_of_iff split: result.splits option.splits)
  qed
qed

lemma context_neutral [simp]:
  "jobs_ok (set_context c m) \<longleftrightarrow> jobs_ok m" "machine_evolves (set_context c a) b \<longleftrightarrow> machine_evolves a b" "machine_evolves a (set_context c b) \<longleftrightarrow> machine_evolves a b"
proof -
  have "ledger_ok (set_context c m) \<longleftrightarrow> ledger_ok m" by (simp add: set_context_def ledger_ok_def vacant_slots_def live_runtime_slots_def)
  then show "jobs_ok (set_context c m) \<longleftrightarrow> jobs_ok m" by (simp add: jobs_ok_def contents_charged_def retained_bytes_def microtasks_of_def set_context_def)
qed (simp_all add: machine_evolves_def microtasks_of_def set_context_def)

lemma run_in_context:
  assumes "with_active_context c f m = Some y" and "jobs_ok m" and "\<And>y. f (set_context c m) = Some y \<Longrightarrow> fst y \<noteq> Panic \<and> well_run (set_context c m) (snd y)"
  shows "fst y \<noteq> Panic \<and> well_run m (snd y)"
  using assms by (auto simp: with_active_context_def well_run_def split: option.splits prod.splits)

lemma run_eval_in_context:
  assumes "with_active_context c (\<lambda>m. Some (f m)) m = Some y" and ok: "jobs_ok m" and "\<And>m0. runs_ok (well_run m0) f"
  shows "fst y \<noteq> Panic \<and> well_run m (snd y)"
proof (rule run_in_context [OF assms(1) ok])
  have "well_run (set_context c m) (set_context c m)" using ok by (simp add: well_run_def)
  then show "Some (f (set_context c m)) = Some y \<Longrightarrow> fst y \<noteq> Panic \<and> well_run (set_context c m) (snd y)" for y
    using assms(3) by (auto simp: runs_ok_def)
qed

lemma run_job:
  assumes I: "interpreter_ok I" and ok: "jobs_ok m" and "execute_microtask_job I job m = Some y"
  shows "fst y \<noteq> Panic \<and> well_run m (snd y)"
proof (cases job)
  case (Job_Reaction reaction v origin)
  with assms(3) have "with_active_context (reaction_context reaction) (\<lambda>m. Some (eval_bind (execute_promise_reaction I reaction v origin) (\<lambda>_. eval_ok None) m)) m = Some y"
    by (simp add: execute_microtask_job_def)
  then show ?thesis by (rule run_eval_in_context [OF _ ok]) (intro runs I)
next
  case (Job_Thenable p t f c)
  with assms(3) have "with_active_context c (\<lambda>m. Some (eval_bind (execute_thenable_job I p t f) (\<lambda>_. eval_ok None) m)) m = Some y"
    by (simp add: execute_microtask_job_def)
  then show ?thesis by (rule run_eval_in_context [OF _ ok]) (intro runs I)
next
  case (Job_Callback cb c)
  with assms(3) have "with_active_context c (\<lambda>m. Some (execute_callback_microtask I cb m)) m = Some y" by (simp add: execute_microtask_job_def)
  then show ?thesis by (rule run_eval_in_context [OF _ ok]) (intro runs I)
next
  case (Job_FinalizationCleanup registry c)
  with assms(3) have "with_active_context c (execute_finalization_cleanup_job (it_call_value I) (it_materialize_engine_origin I) registry) m = Some y"
    by (simp add: execute_microtask_job_def)
  then show ?thesis by (rule run_in_context [OF _ ok]) (rule run_cleanup_job [OF I], simp_all add: ok)
qed

section \<open>The checkpoint\<close>

lemma collected_evolves: "entry_evolves (mc_heap m ! i) (collected_entry hasher m i)"
proof -
  have "entry_evolves e (purged_entry hasher m K (released_entry K e))" for e K
    by (cases e) (auto simp: purged_entry_def released_entry_def Let_def entry_evolves_def split: PromiseState.split)
  then show ?thesis by (auto simp: collected_entry_def entry_evolves_vacant)
qed

lemma collect_jobs:
  assumes ok: "jobs_ok m"
  shows "\<exists>m'. collect_if_pending hasher m = Ok m' \<and> jobs_ok m' \<and> machine_evolves m m'"
proof (cases "gc_pending (mc_gc m)")
  case True
  note m = jobs_okD [OF ok]
  from collect_ok [OF m(1,2), of hasher] obtain m' where m': "collect hasher m = Ok m'" "ledger_ok m'" "contents_charged m'" "same_roots m m'"
      "mc_heap m' = map (collected_entry hasher m) [0..<length (mc_heap m)]" by blast
  have "is_promise_entry (purged_entry hasher m K (released_entry K e)) = is_promise_entry e" for e K
    by (cases e) (simp_all add: purged_entry_def released_entry_def Let_def is_promise_entry_def)
  then have "\<not> is_promise_entry (mc_heap m' ! i)" if "i < mc_intrinsic_slots m" for i
    using that ok ledger_okD(3) [OF m(1)] by (simp add: m'(5) collected_entry_def jobs_ok_def is_promise_entry_def [of Entry_Vacant])
  then have "jobs_ok m'" using m' m(3) by (simp add: jobs_ok_def same_roots_def retained_bytes_def microtasks_of_def)
  moreover have "machine_evolves m m'" using m'(4) by (simp add: machine_evolves_def m'(5) collected_evolves microtasks_of_def same_roots_def)
  ultimately show ?thesis using m'(1) True by (simp add: collect_if_pending_def)
qed (use ok in \<open>simp add: collect_if_pending_def\<close>)

text \<open>The evolution of the heap and the fuel over a checkpoint, which also takes jobs off the queue.\<close>

definition checkpoint_evolves :: "Machine \<Rightarrow> Machine \<Rightarrow> bool" where
  "checkpoint_evolves m m' \<longleftrightarrow> length (mc_heap m) \<le> length (mc_heap m') \<and>
     (\<forall>i < length (mc_heap m). entry_evolves (mc_heap m ! i) (mc_heap m' ! i)) \<and> jc_fuel (mc_jobs m') \<le> jc_fuel (mc_jobs m)"

lemma machine_checkpoint: "machine_evolves m m' \<longleftrightarrow> checkpoint_evolves m m' \<and> (\<exists>qs. microtasks_of m' = microtasks_of m @ qs)"
  by (auto simp: machine_evolves_def checkpoint_evolves_def)

lemma checkpoint_refl [simp]: "checkpoint_evolves m m"
  by (simp add: checkpoint_evolves_def)

lemma checkpoint_trans: "checkpoint_evolves a b \<Longrightarrow> checkpoint_evolves b c \<Longrightarrow> checkpoint_evolves a c"
  by (auto simp: checkpoint_evolves_def intro: entry_evolves_trans order_trans)

lemma scheduled_jobs:
  assumes ok: "jobs_ok m" and "schedule_finalization_cleanup_jobs reserves m = Ok (n, m')"
  shows "jobs_ok m' \<and> machine_evolves m m' \<and> mc_finalization_cleanup_queue m' = [] \<and> (n = 0 \<longrightarrow> microtasks_of m' = microtasks_of m)"
proof -
  let ?jobs = "map (\<lambda>registry. uncharged (Job_FinalizationCleanup registry (rt_context_global (mc_roots m)))) (mc_finalization_cleanup_queue m)"
  from assms(2) have m': "m' = push_microtasks ?jobs (m\<lparr>mc_finalization_cleanup_queue := []\<rparr>)" and n: "n = length (mc_finalization_cleanup_queue m)"
    by (auto simp: schedule_finalization_cleanup_jobs_def Let_def bind_result_Ok_iff)
  have "ledger_ok m' \<longleftrightarrow> ledger_ok m" by (simp add: m' push_microtasks_def ledger_ok_def vacant_slots_def live_runtime_slots_def)
  then have "jobs_ok m'" using ok
    by (simp add: jobs_ok_def m' push_microtasks_def contents_charged_def retained_bytes_def microtasks_of_def comp_def uncharged_def)
  then show ?thesis using n by (simp add: m' push_microtasks_def machine_evolves_def microtasks_of_def)
qed

lemma schedule_no_Panic: "schedule_finalization_cleanup_jobs reserves m \<noteq> Panic"
  by (simp add: schedule_finalization_cleanup_jobs_def Let_def bind_result_iffs)

lemma fuel_neutral:
  assumes "jobs_ok m" and "f \<le> jc_fuel (mc_jobs m)"
  shows "jobs_ok (m\<lparr>mc_jobs := (mc_jobs m)\<lparr>jc_fuel := f\<rparr>\<rparr>) \<and> machine_evolves m (m\<lparr>mc_jobs := (mc_jobs m)\<lparr>jc_fuel := f\<rparr>\<rparr>)"
proof -
  have "ledger_ok (m\<lparr>mc_jobs := j\<rparr>) \<longleftrightarrow> ledger_ok m" for j by (simp add: ledger_ok_def vacant_slots_def live_runtime_slots_def)
  then show ?thesis using assms by (simp add: jobs_ok_def contents_charged_def retained_bytes_def microtasks_of_def machine_evolves_def)
qed

text \<open>Taking the first job and refunding what the queue paid for it.\<close>

lemma popped:
  assumes ok: "jobs_ok m" and q: "microtasks_of m = q # qs"
  shows "\<exists>m'. refund_machine (qm_retained_bytes q) (m\<lparr>mc_roots := (mc_roots m)\<lparr>rt_microtasks := qs\<rparr>\<rparr>) = Ok m' \<and> jobs_ok m' \<and>
    checkpoint_evolves m m' \<and> microtasks_of m' = qs \<and> mc_jobs m' = mc_jobs m"
proof -
  note m = jobs_okD [OF ok]
  let ?m = "m\<lparr>mc_roots := (mc_roots m)\<lparr>rt_microtasks := qs\<rparr>\<rparr>" and ?b = "qm_retained_bytes q"
  let ?m' = "?m\<lparr>mc_machine_bytes := mc_machine_bytes m - ?b, mc_heap_bytes := mc_heap_bytes m - ?b\<rparr>"
  have paid: "retained_bytes m = length (mc_kept_alive m) * VALUE_BYTES + ?b + sum_list (map qm_retained_bytes qs)" by (simp add: retained_bytes_def q)
  then have b: "?b \<le> mc_machine_bytes m" "?b \<le> mc_heap_bytes m" using m(3) ledger_okD(7) [OF m(1)] by linarith+
  then have r: "refund_machine ?b ?m = Ok ?m'" by (simp add: refund_machine_def usize_sub_def)
  have "ledger_ok ?m \<longleftrightarrow> ledger_ok m" by (simp add: ledger_ok_def vacant_slots_def live_runtime_slots_def)
  then have "ledger_ok ?m'" using refund_machine_ok [OF _ r] m(1) by simp
  moreover have "retained_bytes ?m' \<le> mc_machine_bytes ?m'" using paid m(3) b by (simp add: retained_bytes_def microtasks_of_def)
  ultimately have "jobs_ok ?m'" using ok by (simp add: jobs_ok_def contents_charged_def)
  with r show ?thesis by (simp add: checkpoint_evolves_def microtasks_of_def)
qed

lemma fuel_paid: "\<not> f < (1 :: u64) \<Longrightarrow> f - 1 < f"
  by (metis word_less_1 not_less word_not_simps(1) word_sub_less_iff measure_unat order_le_less unat_gt_0)

lemma next_microtask_ok:
  assumes ok: "jobs_ok m" and step: "next_microtask I hasher m = (r, m')"
  shows "r \<noteq> Panic \<and> jobs_ok m' \<and> checkpoint_evolves m m' \<and>
    (case r of
       Ok (Some job) \<Rightarrow> (\<exists>q new. microtasks_of m @ new = q # microtasks_of m' \<and> qm_job q = job) \<and> jc_fuel (mc_jobs m') < jc_fuel (mc_jobs m)
     | Ok None \<Rightarrow> microtasks_of m = [] \<and> microtasks_of m' = [] \<and> mc_finalization_cleanup_queue m' = []
     | _ \<Rightarrow> (\<exists>new. microtasks_of m' = microtasks_of m @ new))"
proof (cases "schedule_finalization_cleanup_jobs (it_reserves I) m")
  case (Ok x)
  obtain n m1 where x: "x = (n, m1)" by fastforce
  note Ok = Ok [unfolded x]
  from scheduled_jobs [OF ok Ok] have m1: "jobs_ok m1" "machine_evolves m m1" "mc_finalization_cleanup_queue m1 = []" by auto
  then obtain new1 where new1: "microtasks_of m1 = microtasks_of m @ new1" and e1: "checkpoint_evolves m m1" by (auto simp: machine_checkpoint)
  show ?thesis
  proof (cases "microtasks_of m1 = []")
    case True
    then show ?thesis using step Ok m1 e1 new1 by (auto simp: next_microtask_def produces_def)
  next
    case False
    let ?set = "\<lambda>f. m1\<lparr>mc_jobs := (mc_jobs m1)\<lparr>jc_fuel := f\<rparr>\<rparr>"
    show ?thesis
    proof (cases "jc_cancelled (mc_jobs m1) \<or> jc_fuel (mc_jobs m1) < 1")
      case True
      then have "consume_fuel 1 m1 = (Err Error_Cancelled, m1) \<or> consume_fuel 1 m1 = (Err (Error_FuelExhausted (jc_fuel_limit (mc_jobs m1))), ?set 0)"
        by (auto simp: consume_fuel_def)
      then obtain e m2 where c: "consume_fuel 1 m1 = (Err e, m2)" "m2 = m1 \<or> m2 = ?set 0" by blast
      then have r: "r = Err e" "m' = m2" using step Ok False by (simp_all add: next_microtask_def produces_def)
      have "jobs_ok m2 \<and> machine_evolves m1 m2" using c(2) m1(1) fuel_neutral [OF m1(1), of 0] by auto
      then show ?thesis using r e1 new1 by (auto simp: machine_checkpoint intro: checkpoint_trans)
    next
      case paid: False
      let ?m2 = "?set (jc_fuel (mc_jobs m1) - 1)"
      have less: "jc_fuel (mc_jobs m1) - 1 < jc_fuel (mc_jobs m1)" using paid by (intro fuel_paid) simp
      from fuel_neutral [OF m1(1) less_imp_le [OF less]] have m2: "jobs_ok ?m2" "checkpoint_evolves m1 ?m2" by (auto simp: machine_checkpoint)
      from collect_jobs [OF m2(1), of hasher] obtain m3 where m3: "collect_if_pending hasher ?m2 = Ok m3" "jobs_ok m3" "machine_evolves ?m2 m3" by blast
      then obtain new3 where new3: "microtasks_of m3 = microtasks_of m1 @ new3" and e3: "checkpoint_evolves ?m2 m3"
        by (auto simp: machine_checkpoint microtasks_of_def)
      then obtain q qs where q: "microtasks_of m3 = q # qs" using False by (cases "microtasks_of m1") auto
      from popped [OF m3(2) q] obtain m4 where m4: "refund_machine (qm_retained_bytes q) (m3\<lparr>mc_roots := (mc_roots m3)\<lparr>rt_microtasks := qs\<rparr>\<rparr>) = Ok m4"
          "jobs_ok m4" "checkpoint_evolves m3 m4" "microtasks_of m4 = qs" "mc_jobs m4 = mc_jobs m3" by blast
      have "next_microtask I hasher m = (Ok (Some (qm_job q)), m4)"
        using Ok False paid m3(1) q m4(1) by (simp add: next_microtask_def produces_def consume_fuel_def updates_def pop_microtask_def eval_ok_def)
      then have r: "r = Ok (Some (qm_job q))" "m' = m4" using step by simp_all
      have "checkpoint_evolves m m4" using e1 m2(2) e3 m4(3) by (blast intro: checkpoint_trans)
      moreover have "jc_fuel (mc_jobs m4) < jc_fuel (mc_jobs m)"
        using e1 e3 less m4(5) by (auto simp: checkpoint_evolves_def)
      moreover have "microtasks_of m @ (new1 @ new3) = q # microtasks_of m4" using new1 new3 q m4(4) by simp
      ultimately show ?thesis using r m4(2) by auto
    qed
  qed
qed (use step ok schedule_no_Panic in \<open>auto simp: next_microtask_def produces_def\<close>)

lemma cleared:
  assumes ok: "jobs_ok m"
  shows "\<exists>m'. clear_kept_alive_for_job m = Ok m' \<and> jobs_ok m' \<and> machine_evolves m m' \<and> microtasks_of m' = microtasks_of m \<and>
    mc_finalization_cleanup_queue m' = mc_finalization_cleanup_queue m"
proof -
  note m = jobs_okD [OF ok]
  let ?b = "length (mc_kept_alive m) * VALUE_BYTES"
  let ?m1 = "m\<lparr>mc_machine_bytes := mc_machine_bytes m - ?b, mc_heap_bytes := mc_heap_bytes m - ?b\<rparr>"
  have b: "?b \<le> mc_machine_bytes m" "?b \<le> mc_heap_bytes m" using m(3) ledger_okD(7) [OF m(1)] by (simp_all add: retained_bytes_def)
  then have "?b < 2 ^ 64" using ledger_okD(8,9) [OF m(1)] by linarith
  then have r: "refund_machine (sat_mul (length (mc_kept_alive m)) VALUE_BYTES) m = Ok ?m1"
    using b by (simp add: sat_mul_exact refund_machine_def usize_sub_def)
  have "ledger_ok (?m1\<lparr>mc_kept_alive := []\<rparr>)" unfolding ledger_ok_kept_alive by (rule refund_machine_ok [OF m(1) r])
  moreover have "retained_bytes (?m1\<lparr>mc_kept_alive := []\<rparr>) \<le> mc_machine_bytes ?m1" using m(3) b by (simp add: retained_bytes_def microtasks_of_def)
  ultimately have "jobs_ok (?m1\<lparr>mc_kept_alive := []\<rparr>)" using ok by (simp add: jobs_ok_def contents_charged_def)
  then show ?thesis by (simp add: clear_kept_alive_for_job_def r machine_evolves_def microtasks_of_def)
qed

text \<open>The jobs that a checkpoint runs, in order.\<close>

inductive drain_run :: "Interpreter \<Rightarrow> (hash_input \<Rightarrow> u64) \<Rightarrow> MicrotaskJob list \<Rightarrow> Machine \<Rightarrow> Machine \<Rightarrow> bool" for I hasher where
  drain_none: "drain_run I hasher [] m m"
| drain_job: "next_microtask I hasher m = (Ok (Some job), m1) \<Longrightarrow> execute_microtask_job I job m1 = Some (r, m2) \<Longrightarrow>
    clear_kept_alive_for_job m2 = Ok m3 \<Longrightarrow> drain_run I hasher jobs m3 m4 \<Longrightarrow> drain_run I hasher (job # jobs) m m4"

definition jobs_of :: "Machine \<Rightarrow> MicrotaskJob list" where
  "jobs_of m = map qm_job (microtasks_of m)"

text \<open>What a drain that starts with a report in \<open>m\<close> does when it returns.\<close>

definition drained ::
  "Interpreter \<Rightarrow> (hash_input \<Rightarrow> u64) \<Rightarrow> MicrotaskDrain \<Rightarrow> Machine \<Rightarrow> (MicrotaskDrain, RuntimeErrorKind) result \<Rightarrow> Machine \<Rightarrow> bool" where
  "drained I hasher report m r m' \<longleftrightarrow> r \<noteq> Panic \<and> jobs_ok m' \<and> checkpoint_evolves m m' \<and>
     (\<exists>jobs new m1. drain_run I hasher jobs m m1 \<and> jobs_of m @ new = jobs @ jobs_of m' \<and>
        (\<forall>rep. r = Ok rep \<longrightarrow> md_executed rep = u64_saturating (md_executed report + length jobs) \<and> (\<exists>es. md_uncaught rep = md_uncaught report @ es))) \<and>
     (\<forall>rep. r = Ok rep \<longrightarrow> md_uncaught rep = md_uncaught report \<longrightarrow> microtasks_of m' = [] \<and> mc_finalization_cleanup_queue m' = [])"

lemma job_round:
  assumes I: "interpreter_ok I" and ok: "jobs_ok m" and step: "next_microtask I hasher m = (Ok (Some job), m1)" "execute_microtask_job I job m1 = Some (res, m2)"
  shows "\<exists>m3 new. clear_kept_alive_for_job m2 = Ok m3 \<and> res \<noteq> Panic \<and> jobs_ok m3 \<and> checkpoint_evolves m m3 \<and>
    jc_fuel (mc_jobs m3) < jc_fuel (mc_jobs m) \<and> jobs_of m @ new = job # jobs_of m3"
proof -
  from next_microtask_ok [OF ok step(1)] obtain q new1 where m1: "jobs_ok m1" "checkpoint_evolves m m1" "jc_fuel (mc_jobs m1) < jc_fuel (mc_jobs m)"
      "microtasks_of m @ new1 = q # microtasks_of m1" "qm_job q = job" by auto
  from run_job [OF I m1(1) step(2)] have m2: "res \<noteq> Panic" "jobs_ok m2" "machine_evolves m1 m2" by (auto simp: well_run_def)
  then obtain new2 where new2: "microtasks_of m2 = microtasks_of m1 @ new2" and e2: "checkpoint_evolves m1 m2" by (auto simp: machine_checkpoint)
  from cleared [OF m2(2)] obtain m3 where m3: "clear_kept_alive_for_job m2 = Ok m3" "jobs_ok m3" "checkpoint_evolves m2 m3" "microtasks_of m3 = microtasks_of m2"
    by (auto simp: machine_checkpoint)
  have "checkpoint_evolves m m3" using m1(2) e2 m3(3) by (blast intro: checkpoint_trans)
  moreover have "jc_fuel (mc_jobs m3) < jc_fuel (mc_jobs m)" using m1(3) e2 m3(3) by (auto simp: checkpoint_evolves_def)
  moreover have "jobs_of m @ map qm_job (new1 @ new2) = job # jobs_of m3"
    using arg_cong [OF m1(4), of "map qm_job"] m1(5) new2 m3(4) by (simp add: jobs_of_def)
  ultimately show ?thesis using m3 m2(1) by blast
qed

lemma drained_now:
  assumes "next_microtask I hasher m = (r, m')" and ok: "jobs_ok m" and "r = Ok None \<or> (\<exists>e. r = Err e)" and "md_executed report < 2 ^ 64"
  shows "drained I hasher report m (bind_result r (\<lambda>_. Ok report)) m'"
  using next_microtask_ok [OF ok assms(1)] assms(3,4) drain_none [of I hasher m]
  by (fastforce simp: drained_def jobs_of_def u64_saturating_def)

lemma executed_once: "u64_saturating (sat_add a 1 + n) = u64_saturating (a + Suc n)"
  by (simp add: u64_saturating_def sat_add_def)

lemma drained_last:
  assumes step: "next_microtask I hasher m = (Ok (Some job), m1)" "execute_microtask_job I job m1 = Some (res, m2)" "clear_kept_alive_for_job m2 = Ok m3"
    and m3: "jobs_ok m3" "checkpoint_evolves m m3" "jobs_of m @ new = job # jobs_of m3"
    and r: "(\<exists>e. r = Err e) \<or> (\<exists>rep x. r = Ok rep \<and> md_executed rep = sat_add (md_executed report) 1 \<and> md_uncaught rep = md_uncaught report @ [x])"
  shows "drained I hasher report m r m3"
proof -
  have "drain_run I hasher [job] m m3" by (rule drain_job [OF step drain_none])
  moreover have "jobs_of m @ new = [job] @ jobs_of m3" using m3(3) by simp
  moreover have "\<forall>rep. r = Ok rep \<longrightarrow> md_executed rep = u64_saturating (md_executed report + length [job]) \<and> (\<exists>es. md_uncaught rep = md_uncaught report @ es)"
    using r by (auto simp: sat_add_def)
  moreover have "r \<noteq> Panic" "\<forall>rep. r = Ok rep \<longrightarrow> md_uncaught rep \<noteq> md_uncaught report" using r by auto
  ultimately show ?thesis using m3 unfolding drained_def by blast
qed

lemma drained_next:
  assumes step: "next_microtask I hasher m = (Ok (Some job), m1)" "execute_microtask_job I job m1 = Some (res, m2)" "clear_kept_alive_for_job m2 = Ok m3"
    and m3: "checkpoint_evolves m m3" "jobs_of m @ new = job # jobs_of m3"
    and rest: "drained I hasher report' m3 r m'" "md_executed report' = sat_add (md_executed report) 1" "md_uncaught report' = md_uncaught report @ xs"
  shows "drained I hasher report m r m'"
proof -
  from rest(1) obtain jobs new' m4 where d: "r \<noteq> Panic" "jobs_ok m'" "checkpoint_evolves m3 m'" "drain_run I hasher jobs m3 m4" "jobs_of m3 @ new' = jobs @ jobs_of m'"
      "\<forall>rep. r = Ok rep \<longrightarrow> md_executed rep = u64_saturating (md_executed report' + length jobs) \<and> (\<exists>es. md_uncaught rep = md_uncaught report' @ es)"
      "\<forall>rep. r = Ok rep \<longrightarrow> md_uncaught rep = md_uncaught report' \<longrightarrow> microtasks_of m' = [] \<and> mc_finalization_cleanup_queue m' = []"
    unfolding drained_def by blast
  have "drain_run I hasher (job # jobs) m m4" by (rule drain_job [OF step d(4)])
  moreover have "jobs_of m @ (new @ new') = (job # jobs) @ jobs_of m'" using arg_cong [OF m3(2), of "\<lambda>xs. xs @ new'"] d(5) by simp
  moreover have "md_executed rep = u64_saturating (md_executed report + length (job # jobs)) \<and> (\<exists>es. md_uncaught rep = md_uncaught report @ es)"
    if "r = Ok rep" for rep using d(6) that executed_once [of "md_executed report" "length jobs"] by (auto simp: rest(2,3))
  moreover have "microtasks_of m' = [] \<and> mc_finalization_cleanup_queue m' = []" if "r = Ok rep" "md_uncaught rep = md_uncaught report" for rep
    using d(6,7) that by (auto simp: rest(3))
  ultimately show ?thesis using d(1,2) checkpoint_trans [OF m3(1) d(3)] unfolding drained_def by blast
qed

lemma drain_loop_complete:
  assumes I: "interpreter_ok I" and cleanups: "\<And>registry c m. jobs_ok m \<Longrightarrow> execute_microtask_job I (Job_FinalizationCleanup registry c) m \<noteq> None"
  shows "jobs_ok m \<Longrightarrow> md_executed report < 2 ^ 64 \<Longrightarrow> \<exists>r m'. drain_loop I hasher policy report m = Some (r, m') \<and> drained I hasher report m r m'"
proof (induction "unat (jc_fuel (mc_jobs m))" arbitrary: m report rule: less_induct)
  case less
  let ?D = "\<lambda>y. \<exists>r m'. y = Some (r, m') \<and> drained I hasher report m r m'"
  obtain r m1 where nx: "next_microtask I hasher m = (r, m1)" by fastforce
  note ok = less.prems
  show ?case
  proof (cases "\<exists>job. r = Ok (Some job)")
    case False
    then have "r = Ok None \<or> (\<exists>e. r = Err e)" using next_microtask_ok [OF ok(1) nx] by (cases r) (auto split: option.splits)
    then show ?thesis using drained_now [OF nx ok(1) _ ok(2)] nx by (subst drain_loop.simps) auto
  next
    case True
    then obtain job where job: "r = Ok (Some job)" by blast
    obtain res m2 where exec: "execute_microtask_job I job m1 = Some (res, m2)"
      using cleanups [of m1] next_microtask_ok [OF ok(1) nx]
      by (cases job) (fastforce simp: execute_microtask_job_def with_active_context_def split: prod.splits)+
    note step = nx [unfolded job] exec
    from job_round [OF I ok(1) step] obtain m3 new where m3: "clear_kept_alive_for_job m2 = Ok m3" "res \<noteq> Panic" "jobs_ok m3" "checkpoint_evolves m m3"
      "jc_fuel (mc_jobs m3) < jc_fuel (mc_jobs m)" "jobs_of m @ new = job # jobs_of m3" by blast
    let ?report = "report\<lparr>md_executed := sat_add (md_executed report) 1\<rparr>"
    have again: "\<exists>r m'. drain_loop I hasher policy rep m3 = Some (r, m') \<and> drained I hasher report m r m'"
      if "md_executed rep = sat_add (md_executed report) 1" "md_uncaught rep = md_uncaught report @ xs" for rep xs
    proof -
      have "md_executed rep < 2 ^ 64" by (simp add: that(1) sat_add_def u64_saturating_def)
      with less.hyps [of m3 rep] m3(3,5) obtain r m' where "drain_loop I hasher policy rep m3 = Some (r, m')" "drained I hasher rep m3 r m'"
        by (auto simp: word_less_nat_alt)
      with drained_next [OF step m3(1,4,6) _ that] show ?thesis by blast
    qed
    note last = drained_last [OF step m3(1,3,4,6)]
    show ?thesis
    proof (cases res)
      case (Ok outcome)
      then show ?thesis
      proof (cases outcome)
        case None
        then show ?thesis using Ok step m3(1) again [of ?report "[]"] by (subst drain_loop.simps) (auto simp: updates_def Let_def)
      next
        case (Some x)
        then show ?thesis using Ok step m3(1) again [of "?report\<lparr>md_uncaught := md_uncaught report @ [x]\<rparr>" "[x]"] last
          by (subst drain_loop.simps) (auto simp: updates_def Let_def)
      qed
    next
      case (Err e)
      then show ?thesis using step m3(1) last by (subst drain_loop.simps) (auto simp: updates_def Let_def)
    qed (use m3(2) in simp)
  qed
qed

lemma active_neutral [simp]:
  "jobs_ok (set_drain_active b m) \<longleftrightarrow> jobs_ok m" "jobs_of (set_drain_active b m) = jobs_of m" "microtasks_of (set_drain_active b m) = microtasks_of m"
  "mc_finalization_cleanup_queue (set_drain_active b m) = mc_finalization_cleanup_queue m" "mc_heap (set_drain_active b m) = mc_heap m"
proof -
  have "ledger_ok (m\<lparr>mc_jobs := j\<rparr>) \<longleftrightarrow> ledger_ok m" for j by (simp add: ledger_ok_def vacant_slots_def live_runtime_slots_def)
  then show "jobs_ok (set_drain_active b m) \<longleftrightarrow> jobs_ok m"
    by (simp add: set_drain_active_def jobs_ok_def contents_charged_def retained_bytes_def microtasks_of_def)
qed (simp_all add: set_drain_active_def jobs_of_def microtasks_of_def)

lemma core_complete:
  assumes I: "interpreter_ok I" and cleanups: "\<And>registry c m. jobs_ok m \<Longrightarrow> execute_microtask_job I (Job_FinalizationCleanup registry c) m \<noteq> None"
    and ok: "jobs_ok m" and idle: "\<not> jc_drain_active (mc_jobs m)"
  shows "\<exists>r m'. drain_microtasks_core I hasher policy m = Some (r, set_drain_active False m') \<and>
    drained I hasher \<lparr>md_executed = 0, md_uncaught = []\<rparr> (set_drain_active True m) r m'"
proof -
  from drain_loop_complete [OF I cleanups, of "set_drain_active True m" "\<lparr>md_executed = 0, md_uncaught = []\<rparr>" hasher policy] ok
  obtain r m' where d: "drain_loop I hasher policy \<lparr>md_executed = 0, md_uncaught = []\<rparr> (set_drain_active True m) = Some (r, m')"
      "drained I hasher \<lparr>md_executed = 0, md_uncaught = []\<rparr> (set_drain_active True m) r m'" by auto
  moreover from d(2) have "r \<noteq> Panic" by (simp add: drained_def)
  ultimately show ?thesis using idle by (cases r) (auto simp: drain_microtasks_core_def)
qed

end
