(* ===== verification/Promise_Safety.thy ===== *)
theory Promise_Safety
  imports Promise_Jobs
begin

text \<open>
  What promises and jobs promise a program: a promise is settled at most once and its reactions are queued in the order they were
  attached, exactly one of each pair; a checkpoint runs jobs in order and ends.
\<close>

section \<open>What the interpreter does to promises\<close>

text \<open>
  The state of a promise and the mark of a resolver are written only by \<open>settle_promise\<close>, by the functions that attach reactions and by
  \<open>use_promise_resolver\<close>. So the code of the interpreter acts on promises through these operations; whatever else it does leaves
  the states of promises alone, keeps the ledger exact, queues jobs at the end and does not refill the fuel.
\<close>

definition same_promise :: "HeapEntry \<Rightarrow> HeapEntry \<Rightarrow> bool" where
  "same_promise e e' =
    (case e of
       Entry_Vacant \<Rightarrow> e' = Entry_Vacant
     | Entry_Promise state ps prototype \<Rightarrow> e' = Entry_Vacant \<or> (case e' of Entry_Promise state' ps' prototype' \<Rightarrow> state' = state | _ \<Rightarrow> False)
     | Entry_PromiseResolver promise used \<Rightarrow> e' = Entry_Vacant \<or> e' = e
     | _ \<Rightarrow> True)"

definition other_change :: "Machine \<Rightarrow> Machine \<Rightarrow> bool" where
  "other_change m m' \<longleftrightarrow> (jobs_ok m \<longrightarrow> jobs_ok m') \<and> length (mc_heap m) \<le> length (mc_heap m') \<and>
     (\<forall>i < length (mc_heap m). same_promise (mc_heap m ! i) (mc_heap m' ! i)) \<and>
     (\<exists>qs. microtasks_of m' = microtasks_of m @ qs) \<and> jc_fuel (mc_jobs m') \<le> jc_fuel (mc_jobs m)"

inductive interpreter_run :: "Interpreter \<Rightarrow> Machine \<Rightarrow> Machine \<Rightarrow> bool" for I where
  act_none: "interpreter_run I m m"
| act_settle: "interpreter_run I m m1 \<Longrightarrow> is_settled terminal \<Longrightarrow> settle_promise I p terminal m1 = (r, m2) \<Longrightarrow> interpreter_run I m m2"
| act_react: "interpreter_run I m m1 \<Longrightarrow> i < length (mc_heap m1) \<Longrightarrow> mc_heap m1 ! i = Entry_Promise state ps prototype \<Longrightarrow>
    react I i state f g m1 = (w, m2) \<Longrightarrow> interpreter_run I m m2"
| act_resolver: "interpreter_run I m m1 \<Longrightarrow> use_promise_resolver rec m1 = (x, m2) \<Longrightarrow> interpreter_run I m m2"
| act_other: "interpreter_run I m m1 \<Longrightarrow> other_change m1 m2 \<Longrightarrow> interpreter_run I m m2"

definition acts :: "Interpreter \<Rightarrow> ('a, 'e) eval \<Rightarrow> bool" where
  "acts I f \<longleftrightarrow> (\<forall>m. jobs_ok m \<longrightarrow> fst (f m) \<noteq> Panic \<and> interpreter_run I m (snd (f m)))"

definition interpreter_acts :: "Interpreter \<Rightarrow> bool" where
  "interpreter_acts I \<longleftrightarrow>
     (\<forall>f this args. acts I (it_call_value I f this args)) \<and> (\<forall>v name. acts I (it_get_named_property I v name)) \<and>
     (\<forall>v m. it_is_callable I v m \<noteq> Panic) \<and> (\<forall>origin. acts I (it_materialize_engine_origin I origin)) \<and>
     (\<forall>a v origin. acts I (it_resume_async_function I a v origin)) \<and> (\<forall>g v origin. acts I (it_resume_async_generator I g v origin)) \<and>
     (\<forall>parent. acts I (it_on_module_dep_fulfilled I parent)) \<and> (\<forall>parent v origin. acts I (it_on_module_dep_rejected I parent v origin)) \<and>
     (\<forall>v is_done. acts I (it_iterator_result I v is_done)) \<and> (\<forall>stack e s c. acts I (it_continue_async_disposal I stack e s c)) \<and>
     (\<forall>a b. acts I (it_module_namespace I a b))"

lemma same_promise_evolves: "same_promise e e' \<Longrightarrow> entry_evolves e e'"
proof (cases e)
  case (Entry_Promise state ps prototype)
  moreover assume "same_promise e e'"
  ultimately have "e' = Entry_Vacant \<or> (\<exists>ps prototype. e' = Entry_Promise state ps prototype)" by (cases e') (simp_all add: same_promise_def)
  then show ?thesis using Entry_Promise by (cases state) (auto simp: entry_evolves_def)
qed (simp_all add: same_promise_def entry_evolves_def, auto)

lemma interpreter_run_ok: "interpreter_run I m m' \<Longrightarrow> well_run m0 m \<Longrightarrow> well_run m0 m'"
proof (induction rule: interpreter_run.induct)
  case (act_settle m m1 terminal p r m2)
  then show ?case using runs_okD [OF run_settle] by blast
next
  case (act_react m m1 i state ps prototype f g w m2)
  then show ?case using react_ok [of m0 m1 i state ps prototype I f g] by simp
next
  case (act_resolver m m1 rec x m2)
  then show ?case using runs_okD [OF run_use_resolver] by blast
next
  case (act_other m m1 m2)
  then have "jobs_ok m2 \<and> machine_evolves m1 m2"
    by (auto simp: other_change_def machine_evolves_def well_run_def intro: same_promise_evolves)
  then show ?case using act_other by (blast intro: well_run_step)
qed

lemma acts_ok: "acts I f \<Longrightarrow> runs_ok (well_run m0) f"
  by (rule runs_okI) (auto simp: acts_def well_run_def [THEN iffD1] intro: interpreter_run_ok dest: well_run_def [THEN iffD1])

lemma interpreter_acts_ok: "interpreter_acts I \<Longrightarrow> interpreter_ok I"
  unfolding interpreter_acts_def interpreter_ok_def by (intro allI conjI acts_ok [of I]) simp_all

section \<open>Runs\<close>

text \<open>
  One operation on promises, a part of a round of the checkpoint (take a job, run a job, release what it kept alive), a collection, or a call
  of a function; an operation that fails leaves the state it has reached.
\<close>

inductive promise_step :: "Interpreter \<Rightarrow> (hash_input \<Rightarrow> u64) \<Rightarrow> Machine \<Rightarrow> Machine \<Rightarrow> bool" for I hasher where
  step_create: "create_promise I m = (r, m') \<Longrightarrow> promise_step I hasher m m'"
| step_then: "promise_then I p f g m = (r', m') \<Longrightarrow> promise_step I hasher m m'"
| step_resolve: "resolve_promise I p v m = (u, m') \<Longrightarrow> promise_step I hasher m m'"
| step_reject: "reject_promise I p v origin m = (u, m') \<Longrightarrow> promise_step I hasher m m'"
| step_promise_resolve: "promise_resolve I v m = (r', m') \<Longrightarrow> promise_step I hasher m m'"
| step_use_resolve: "resolve_promise_resolver I rec v m = (w, m') \<Longrightarrow> promise_step I hasher m m'"
| step_use_reject: "reject_promise_resolver I rec v m = (w, m') \<Longrightarrow> promise_step I hasher m m'"
| step_use_failure: "reject_promise_resolver_failure I rec failure m = (w, m') \<Longrightarrow> promise_step I hasher m m'"
| step_module: "attach_module_reactions I parent p m = (w, m') \<Longrightarrow> promise_step I hasher m m'"
| step_await: "await_promise I v activation m = (w, m') \<Longrightarrow> promise_step I hasher m m'"
| step_generator: "await_promise_for_generator I v generator m = (w, m') \<Longrightarrow> promise_step I hasher m m'"
| step_from_sync: "attach_async_from_sync_reactions I d v is_done iterator m = (w, m') \<Longrightarrow> promise_step I hasher m m'"
| step_dispose: "arm_async_disposal_reaction I p stack e capability m = (w, m') \<Longrightarrow> promise_step I hasher m m'"
| step_import: "attach_dynamic_import_reactions I evaluation p target m = (w, m') \<Longrightarrow> promise_step I hasher m m'"
| step_callback: "enqueue_microtask_callback I callback m = (w, m') \<Longrightarrow> promise_step I hasher m m'"
| step_job: "execute_microtask_job I job m = Some (x, m') \<Longrightarrow> promise_step I hasher m m'"
| step_next: "next_microtask I hasher m = (y, m') \<Longrightarrow> promise_step I hasher m m'"
| step_clear: "clear_kept_alive_for_job m = Ok m' \<Longrightarrow> promise_step I hasher m m'"
| step_collect: "collect_if_pending hasher m = Ok m' \<Longrightarrow> promise_step I hasher m m'"
| step_call: "it_call_value I f this args m = (r', m') \<Longrightarrow> promise_step I hasher m m'"

lemma promise_step_ok:
  assumes I: "interpreter_ok I" and "promise_step I hasher m m'" and ok: "jobs_ok m"
  shows "jobs_ok m' \<and> checkpoint_evolves m m'"
proof -
  have here: "well_run m m" using ok by (simp add: well_run_def)
  have run: "jobs_ok s \<and> checkpoint_evolves m s" if "runs_ok (well_run m) f" "f m = (r, s)" for f :: "('a, 'e) eval" and r s
    using runs_okD [OF that(1) here that(2)] by (simp add: well_run_def machine_checkpoint)
  from assms(2) show ?thesis
  proof cases
    case (step_job job x)
    then show ?thesis using run_job [OF I ok] by (fastforce simp: well_run_def machine_checkpoint)
  next
    case (step_next y)
    then show ?thesis using next_microtask_ok [OF ok] by blast
  next
    case step_clear
    then show ?thesis using cleared [OF ok] by (auto simp: machine_checkpoint)
  next
    case step_collect
    then show ?thesis using collect_jobs [OF ok, of hasher] by (auto simp: machine_checkpoint)
  qed (erule run [rotated], (intro runs interpreter_runs I)?)+
qed

lemma promise_steps_ok:
  assumes I: "interpreter_ok I" and "(promise_step I hasher)\<^sup>*\<^sup>* m m'" and ok: "jobs_ok m"
  shows "jobs_ok m' \<and> checkpoint_evolves m m'"
  using assms(2)
proof (induction rule: rtranclp_induct)
  case (step a b)
  then show ?case using promise_step_ok [OF I step.hyps(2)] by (blast intro: checkpoint_trans)
qed (simp add: ok)

text \<open>The rounds of a checkpoint are such steps.\<close>

lemma drain_run_steps: "drain_run I hasher jobs m m' \<Longrightarrow> (promise_step I hasher)\<^sup>*\<^sup>* m m'"
proof (induction rule: drain_run.induct)
  case (drain_job m job m1 r m2 m3 jobs m4)
  then have "(promise_step I hasher)\<^sup>*\<^sup>* m m3"
    by (meson step_next step_job step_clear rtranclp.rtrancl_refl rtranclp.rtrancl_into_rtrancl)
  then show ?case using drain_job.IH by (rule rtranclp_trans)
qed simp

text \<open>
  C35. A promise is settled at most once: whatever operations on promises, rounds of the checkpoint, collections and calls of functions follow, a promise that is fulfilled
  or rejected keeps its value for as long as it is in the heap. The interpreter is any code that acts on promises through their operations.
\<close>

theorem promise_settles_once:
  assumes "interpreter_acts I" and "jobs_ok m" and "(promise_step I hasher)\<^sup>*\<^sup>* m m'"
    and "i < length (mc_heap m)" and "mc_heap m ! i = Entry_Promise state ps prototype" and "is_settled state"
  shows "mc_heap m' ! i = Entry_Vacant \<or> (\<exists>ps prototype. mc_heap m' ! i = Entry_Promise state ps prototype)"
proof -
  have "entry_evolves (mc_heap m ! i) (mc_heap m' ! i)"
    using promise_steps_ok [OF interpreter_acts_ok [OF assms(1)] assms(3,2)] assms(4) by (simp add: checkpoint_evolves_def)
  then show ?thesis using assms(5,6) by (simp add: entry_evolves_settled)
qed

section \<open>Settling\<close>

text \<open>
  C24. Settling a pending promise is exact. When the queue has room, the promise takes the outcome, precisely the reactions of the matching list are queued, in the
  order in which they were attached, each with the value and its own share of the bytes; the bytes of the other list are given back to the heap's ledger.
  When it has not, nothing changes.
\<close>

theorem settlement_exact:
  assumes "jobs_ok m" and "runtime_slot m promise = Ok (Some i)" and "mc_heap m ! i = Entry_Promise (Promise_Pending fs rs) ps prototype"
    and outcome: "terminal = Promise_Fulfilled v \<and> origin = Origin_Bytecode \<and> reactions = fs \<or> terminal = Promise_Rejected v origin \<and> reactions = rs"
  shows "settle_promise I promise terminal m =
    (case ensure_microtask_capacity (it_reserves I) (length reactions) m of
       Ok _ \<Rightarrow> (Ok (), push_microtasks
         (map (\<lambda>reaction. \<lparr>qm_job = Job_Reaction reaction v origin, qm_retained_bytes = PromiseReaction_BYTES\<rparr>) reactions)
         (m\<lparr>mc_heap := (mc_heap m)[i := Entry_Promise terminal ps prototype],
            mc_slot_bytes := (mc_slot_bytes m)[i := mc_slot_bytes m ! i - (length fs + length rs) * PromiseReaction_BYTES],
            mc_machine_bytes := mc_machine_bytes m + length reactions * PromiseReaction_BYTES,
            mc_heap_bytes := mc_heap_bytes m - (length fs + length rs - length reactions) * PromiseReaction_BYTES\<rparr>))
     | Err e \<Rightarrow> (Err e, m) | Panic \<Rightarrow> (Panic, m))"
proof -
  have taken: "taken_reactions terminal fs rs = Some reactions" "is_settled terminal" "reaction_job terminal = (\<lambda>reaction. Job_Reaction reaction v origin)"
    using outcome by (auto simp: reaction_job_def)
  from settle_pending(1) [OF assms(1-3) taken(2,1), of I] show ?thesis unfolding queued_reactions_def taken(3) .
qed

section \<open>The checkpoint\<close>



section \<open>A concrete machine\<close>

text \<open>An interpreter whose functions return \<open>undefined\<close> at once, and a machine with one promise, held by a frame.\<close>

definition idle_interpreter :: Interpreter where
  "idle_interpreter =
    \<lparr>it_call_value = (\<lambda>_ _ _. eval_ok Value_UNDEFINED), it_get_named_property = (\<lambda>_ _. eval_ok Value_UNDEFINED), it_is_callable = (\<lambda>_ _. Ok False),
     it_materialize_engine_origin = (\<lambda>_. eval_ok Value_NULL), it_reserves = (\<lambda>_. True), it_promise_prototype = Value_UNDEFINED,
     it_promise_resolver_targets = (Value_UNDEFINED, Value_UNDEFINED), it_resume_async_function = (\<lambda>_ _ _. eval_ok ()),
     it_resume_async_generator = (\<lambda>_ _ _. eval_ok ()), it_on_module_dep_fulfilled = (\<lambda>_. eval_ok ()), it_on_module_dep_rejected = (\<lambda>_ _ _. eval_ok ()),
     it_iterator_result = (\<lambda>v _. eval_ok v), it_continue_async_disposal = (\<lambda>_ _ _ _. eval_ok ()), it_module_namespace = (\<lambda>_ _. eval_ok Value_UNDEFINED),
     it_create_iterator = (\<lambda>v. eval_ok v), it_iterator_next = (\<lambda>_. eval_ok (True, Value_UNDEFINED)), it_array_prototype = Value_UNDEFINED,
     it_promise_all_target = Value_UNDEFINED\<rparr>"

definition promise_machine :: "PromiseState \<Rightarrow> Machine" where
  "promise_machine state = sample_machine\<lparr>mc_heap := [Entry_Promise state [] None, Entry_Object [] None None, Entry_Object [] None None],
     mc_slot_bytes := [200, 1, 1], mc_heap_bytes := 202, mc_max_heap_bytes := 1000\<rparr>"

lemma idle_ok: "interpreter_acts idle_interpreter"
  by (simp add: interpreter_acts_def idle_interpreter_def acts_def eval_ok_def act_none)

lemma idle_cleanup_loop:
  "slot < length (mc_heap m) \<Longrightarrow> mc_heap m ! slot = registry_entry r \<Longrightarrow> rg_pending r = hs \<Longrightarrow>
    cleanup_loop (\<lambda>_ _ _. eval_ok Value_UNDEFINED) mat registry callback slot m \<noteq> None"
proof (induction hs arbitrary: m r)
  case Nil
  then show ?case by (subst cleanup_loop.simps) (simp add: take_holding_def with_registry_eq)
next
  case (Cons h hs)
  let ?m = "store_registry slot (r\<lparr>rg_pending := hs\<rparr>) m"
  show ?case
  proof (cases "refund_slot slot VALUE_BYTES ?m")
    case (Ok m1)
    have "cleanup_loop (\<lambda>_ _ _. eval_ok Value_UNDEFINED) mat registry callback slot m1 \<noteq> None"
      by (rule Cons.IH [of m1 "r\<lparr>rg_pending := hs\<rparr>"]) (use refund_slot_heap [OF Ok] Cons.prems in simp_all)
    then show ?thesis using Ok Cons.prems by (subst cleanup_loop.simps) (simp add: take_holding_def with_registry_eq eval_ok_def)
  qed (use Cons.prems in \<open>(subst cleanup_loop.simps, simp add: take_holding_def with_registry_eq)+\<close>)
qed

lemma idle_cleanups: "execute_microtask_job idle_interpreter (Job_FinalizationCleanup registry c) m \<noteq> None"
proof -
  let ?m = "set_context c m"
  have "execute_finalization_cleanup_job (\<lambda>_ _ _. eval_ok Value_UNDEFINED) mat registry ?m \<noteq> None" for mat
  proof (cases "\<exists>i r. runtime_slot ?m registry = Ok (Some i) \<and> mc_heap ?m ! i = registry_entry r")
    case True
    then obtain i r where i: "runtime_slot ?m registry = Ok (Some i)" "mc_heap ?m ! i = registry_entry r" by blast
    have "cleanup_loop (\<lambda>_ _ _. eval_ok Value_UNDEFINED) mat registry (rg_callback r) i (store_registry i (r\<lparr>rg_scheduled := False\<rparr>) ?m) \<noteq> None"
      by (rule idle_cleanup_loop [of _ _ "r\<lparr>rg_scheduled := False\<rparr>"]) (use runtime_slot_bound [OF i(1)] in simp_all)
    then show ?thesis using i by (simp add: execute_finalization_cleanup_job_def)
  qed (auto simp: execute_finalization_cleanup_job_def registry_of_iff split: result.split option.split)
  then show ?thesis by (auto simp: execute_microtask_job_def with_active_context_def idle_interpreter_def split: option.split)
qed

lemma promise_machine_ok:
  assumes "held_bytes (Entry_Promise state [] None) \<le> 200"
  shows "jobs_ok (promise_machine state)"
proof -
  let ?m = "promise_machine state"
  have "ledger_ok ?m"
    by (simp add: promise_machine_def sample_machine_def ledger_ok_def vacant_slots_def live_runtime_slots_def) (simp add: is_vacant_def)
  moreover have "contents_charged ?m" using assms
    by (simp add: contents_charged_def promise_machine_def sample_machine_def All_less_Suc numeral_3_eq_3) (simp add: counts_entries_def held_bytes_def)
  ultimately show ?thesis by (simp add: jobs_ok_def promise_machine_def sample_machine_def retained_bytes_def microtasks_of_def sample_roots_def)
qed

lemma promise_machine_slot: "runtime_slot (promise_machine state) (slot_ref 0) = Ok (Some 0)"
  using sample_indices(1) by (simp add: runtime_slot_iff promise_machine_def present_def)

theorem promise_settles_once_witness:
  "\<exists>m'. (promise_step idle_interpreter (\<lambda>_. 0))\<^sup>*\<^sup>* (promise_machine (Promise_Fulfilled Value_NULL)) m' \<and>
     promise_step idle_interpreter (\<lambda>_. 0) (promise_machine (Promise_Fulfilled Value_NULL)) m' \<and>
     (mc_heap m' ! 0 = Entry_Vacant \<or> (\<exists>ps prototype. mc_heap m' ! 0 = Entry_Promise (Promise_Fulfilled Value_NULL) ps prototype))"
proof -
  let ?m = "promise_machine (Promise_Fulfilled Value_NULL)"
  obtain r m' where "reject_promise idle_interpreter (slot_ref 0) Value_UNDEFINED Origin_Bytecode ?m = (r, m')" by fastforce
  then have step: "promise_step idle_interpreter (\<lambda>_. 0) ?m m'" by (rule step_reject)
  have ok: "jobs_ok ?m" by (rule promise_machine_ok) simp
  have "mc_heap m' ! 0 = Entry_Vacant \<or> (\<exists>ps prototype. mc_heap m' ! 0 = Entry_Promise (Promise_Fulfilled Value_NULL) ps prototype)"
    by (rule promise_settles_once [OF idle_ok ok r_into_rtranclp [of "promise_step idle_interpreter (\<lambda>_. 0)", OF step]])
      (simp_all add: promise_machine_def)
  with step show ?thesis by blast
qed

theorem settlement_exact_witness:
  "\<exists>m'. settle_promise idle_interpreter (slot_ref 0) (Promise_Fulfilled Value_NULL)
      (promise_machine (Promise_Pending [Reaction_AsyncFulfill (slot_ref 1) None] [Reaction_AsyncReject (slot_ref 1) None])) = (Ok (), m') \<and>
     mc_heap m' ! 0 = Entry_Promise (Promise_Fulfilled Value_NULL) [] None \<and>
     jobs_of m' = [Job_Reaction (Reaction_AsyncFulfill (slot_ref 1) None) Value_NULL Origin_Bytecode] \<and>
     mc_slot_bytes m' ! 0 = 88 \<and> mc_machine_bytes m' = 56 \<and> mc_heap_bytes m' = 146"
proof -
  let ?state = "Promise_Pending [Reaction_AsyncFulfill (slot_ref 1) None] [Reaction_AsyncReject (slot_ref 1) None]"
  let ?m = "promise_machine ?state"
  have ok: "jobs_ok ?m" by (rule promise_machine_ok) (simp add: PromiseReaction_BYTES_def)
  have "ensure_microtask_capacity (it_reserves idle_interpreter) 1 ?m = Ok ()"
    by (simp add: ensure_microtask_capacity_def idle_interpreter_def promise_machine_def sample_machine_def sample_roots_def sample_jobs_def fits_def usize_checked_add_def)
  then show ?thesis
    using settlement_exact [OF ok promise_machine_slot, of "[Reaction_AsyncFulfill (slot_ref 1) None]" "[Reaction_AsyncReject (slot_ref 1) None]" "[]" None
      "Promise_Fulfilled Value_NULL" Value_NULL Origin_Bytecode "[Reaction_AsyncFulfill (slot_ref 1) None]" idle_interpreter]
    by (simp add: promise_machine_def push_microtasks_def jobs_of_def microtasks_of_def reaction_job_def PromiseReaction_BYTES_def sample_machine_def sample_roots_def)
qed


end
