(* ===== verification/Promise_All.thy ===== *)
theory Promise_All
  imports Promise_Safety
begin

text \<open>
  \<^verbatim>\<open>Promise.all\<close> (\<^verbatim>\<open>src/crates/bamts-runtime/src/lib.rs\<close>): an aggregate entry holds the values delivered so far and counts what is
  outstanding, one for each element and one for the iteration itself. Elements deliver in any order, also while the iteration goes on. The
  specification is a table of deliveries; the counter and the array are shown to implement it, without underflow or an index out of range.
\<close>

section \<open>Operations on the aggregate\<close>

abbreviation promise_all_slot :: "Value \<Rightarrow> Machine \<Rightarrow> (usize, EvalFailure) result" where
  "promise_all_slot \<equiv> slot_or_throw ''Promise.all target''"

definition mark_promise_all_settled :: "Value \<Rightarrow> (bool, EvalFailure) eval" where
  "mark_promise_all_settled aggregate =
    eval_bind (reads (promise_all_slot aggregate)) (\<lambda>index m.
      case mc_heap m ! index of
        Entry_PromiseAll resolve reject vs remaining settled \<Rightarrow>
          (Ok (\<not> settled), m\<lparr>mc_heap := (mc_heap m)[index := Entry_PromiseAll resolve reject vs remaining True]\<rparr>)
      | _ \<Rightarrow> (Err (type_error ''Promise.all target''), m))"

definition add_promise_all_element :: "Interpreter \<Rightarrow> Value \<Rightarrow> (usize, EvalFailure) eval" where
  "add_promise_all_element I aggregate =
    eval_bind (reads (promise_all_slot aggregate)) (\<lambda>index m.
      case mc_heap m ! index of
        Entry_PromiseAll resolve reject vs remaining False \<Rightarrow>
          if \<not> remaining + 1 < 2 ^ 64 then (Err (Fail_Runtime (Error_HeapByteLimitExceeded (mc_max_heap_bytes m))), m)
          else
            eval_bind (reads (\<lambda>m. map_err Fail_Runtime (ensure_allocation_capacity m 0 VALUE_BYTES))) (\<lambda>_ m.
              if \<not> it_reserves I (length vs + 1) then (Err (Fail_Runtime (Error_HeapByteLimitExceeded (mc_max_heap_bytes m))), m)
              else
                eval_bind (eval_map_err Fail_Runtime (updates (charge_slot index VALUE_BYTES))) (\<lambda>_ m.
                  (Ok (length vs), m\<lparr>mc_heap := (mc_heap m)[index :=
                     Entry_PromiseAll resolve reject (vs @ [Value_UNDEFINED]) (remaining + 1) False]\<rparr>)) m) m
      | _ \<Rightarrow> (Err (type_error ''Promise.all target''), m))"

definition finish_promise_all :: "Value \<Rightarrow> (bool, EvalFailure) eval" where
  "finish_promise_all aggregate =
    eval_bind (reads (promise_all_slot aggregate)) (\<lambda>index m.
      case mc_heap m ! index of
        Entry_PromiseAll resolve reject vs remaining settled \<Rightarrow>
          if settled then (Ok False, m)
          else if remaining = 0 then (Panic, m)
          else (Ok (remaining = 1), m\<lparr>mc_heap := (mc_heap m)[index := Entry_PromiseAll resolve reject vs (remaining - 1) (remaining = 1)]\<rparr>)
      | _ \<Rightarrow> (Err (type_error ''Promise.all target''), m))"

definition create_array :: "Interpreter \<Rightarrow> Value list \<Rightarrow> (Value, EvalFailure) eval" where
  "create_array I elements = eval_map_err Fail_Runtime (produces (allocate (Entry_Array elements [] (Some (it_array_prototype I)))))"

definition move_promise_all_values_to_array :: "Interpreter \<Rightarrow> Value \<Rightarrow> (Value, EvalFailure) eval" where
  "move_promise_all_values_to_array I aggregate =
    eval_bind (reads (promise_all_slot aggregate)) (\<lambda>aggregate_index m.
      case mc_heap m ! aggregate_index of
        Entry_PromiseAll resolve reject vs remaining settled \<Rightarrow>
          eval_bind (create_array I []) (\<lambda>array.
          eval_bind (reads (\<lambda>m. bind_result (map_err Fail_Runtime (runtime_slot m array)) expect)) (\<lambda>array_index m.
            case mc_heap m ! array_index of
              Entry_Array elements ps prototype \<Rightarrow>
                eval_bind (modifies (\<lambda>m. m\<lparr>mc_heap := (mc_heap m)[aggregate_index := Entry_PromiseAll resolve reject [] remaining settled,
                    array_index := Entry_Array vs ps prototype]\<rparr>)) (\<lambda>_.
                eval_bind (eval_map_err Fail_Runtime (updates (transfer_slot_charge aggregate_index array_index (sat_mul (length vs) VALUE_BYTES)))) (\<lambda>_.
                eval_ok array)) m
            | _ \<Rightarrow> (Panic, m))) m
      | _ \<Rightarrow> (Err (type_error ''Promise.all target''), m))"

text \<open>The first part of \<open>resolve_promise_all_element\<close>: the value is stored and the outstanding element counted. The result is the aggregate,
  its resolving function and whether this delivery was the last one; \<open>None\<close> when the call has no effect.\<close>

definition record_promise_all_value :: "Value \<Rightarrow> Value \<Rightarrow> ((Value \<times> Value \<times> bool) option, EvalFailure) eval" where
  "record_promise_all_value element v =
    eval_bind (reads (promise_all_slot element)) (\<lambda>index m.
      case mc_heap m ! index of
        Entry_PromiseAllElement aggregate output_index called \<Rightarrow>
          if called then (Ok None, m)
          else
            eval_bind (modifies (\<lambda>m. m\<lparr>mc_heap := (mc_heap m)[index := Entry_PromiseAllElement aggregate output_index True]\<rparr>)) (\<lambda>_.
            eval_bind (reads (promise_all_slot aggregate)) (\<lambda>aggregate_index m.
              case mc_heap m ! aggregate_index of
                Entry_PromiseAll resolve reject vs remaining settled \<Rightarrow>
                  if settled then (Ok None, m)
                  else if \<not> output_index < length vs \<or> remaining = 0 then (Panic, m)
                  else (Ok (Some (aggregate, resolve, remaining = 1)), m\<lparr>mc_heap := (mc_heap m)[aggregate_index :=
                    Entry_PromiseAll resolve reject (vs[output_index := v]) (remaining - 1) (remaining = 1)]\<rparr>)
              | _ \<Rightarrow> (Err (type_error ''Promise.all target''), m))) m
      | _ \<Rightarrow> (Err (type_error ''Promise.all target''), m))"

definition resolve_promise_all_element :: "Interpreter \<Rightarrow> Value \<Rightarrow> Value \<Rightarrow> (unit, EvalFailure) eval" where
  "resolve_promise_all_element I element v =
    eval_bind (record_promise_all_value element v) (\<lambda>outcome.
      case outcome of
        None \<Rightarrow> eval_ok ()
      | Some (aggregate, resolve, completed) \<Rightarrow>
          if completed then
            eval_bind (move_promise_all_values_to_array I aggregate) (\<lambda>array.
              eval_bind (it_call_value I resolve Value_UNDEFINED [array]) (\<lambda>_. eval_ok ()))
          else eval_ok ())"

section \<open>The iteration\<close>

definition call_promise_reject :: "Interpreter \<Rightarrow> Value \<Rightarrow> EvalFailure \<Rightarrow> (unit, EvalFailure) eval" where
  "call_promise_reject I reject failure =
    eval_bind (promise_rejection_value (it_materialize_engine_origin I) failure) (\<lambda>(reason, origin).
      eval_bind (it_call_value I reject Value_UNDEFINED [reason]) (\<lambda>_. eval_ok ()))"

definition iterator_close_target :: "Value \<Rightarrow> Machine \<Rightarrow> (Value option, EvalFailure) result" where
  "iterator_close_target iterator m =
    bind_result (map_err Fail_Runtime (runtime_slot m iterator)) (\<lambda>slot.
      case slot of
        None \<Rightarrow> Ok None
      | Some index \<Rightarrow>
          (case mc_heap m ! index of
             Entry_Iterator (Iterator_Protocol iterator next_method) \<Rightarrow> Ok (Some iterator)
           | Entry_AsyncFromSync iterator next_method ps prototype \<Rightarrow> Ok (Some iterator)
           | _ \<Rightarrow> Ok None))"

text \<open>Closing an iterator; the second component tells whether its \<open>return\<close> method was called.\<close>

definition close_iterator_raw :: "Interpreter \<Rightarrow> Value \<Rightarrow> (Value \<times> bool, EvalFailure \<times> bool) eval" where
  "close_iterator_raw I iterator =
    eval_bind (eval_map_err (\<lambda>failure. (failure, False)) (reads (iterator_close_target iterator))) (\<lambda>target.
      case target of
        None \<Rightarrow> eval_ok (Value_UNDEFINED, False)
      | Some target \<Rightarrow>
          eval_bind (eval_map_err (\<lambda>failure. (failure, False)) (it_get_named_property I target ''return'')) (\<lambda>close.
            if Value_decode close = Some Dec_Undefined \<or> Value_decode close = Some Dec_Null then eval_ok (Value_UNDEFINED, False)
            else
              eval_bind (eval_map_err (\<lambda>failure. (failure, False)) (reads (it_is_callable I close))) (\<lambda>callable.
                if callable
                then eval_bind (eval_map_err (\<lambda>failure. (failure, True)) (it_call_value I close target [])) (\<lambda>v. eval_ok (v, True))
                else eval_err (type_error ''iterator return method is not callable'', False))))"

definition close_iterator :: "Interpreter \<Rightarrow> Value \<Rightarrow> (unit, EvalFailure) eval" where
  "close_iterator I iterator = eval_bind (eval_map_err fst (close_iterator_raw I iterator)) (\<lambda>_. eval_ok ())"

definition reject_promise_all_abrupt :: "Interpreter \<Rightarrow> Value \<Rightarrow> Value \<Rightarrow> Value \<Rightarrow> EvalFailure \<Rightarrow> (unit, EvalFailure) eval" where
  "reject_promise_all_abrupt I aggregate reject iterator failure =
    eval_bind (mark_promise_all_settled aggregate) (\<lambda>_.
      eval_match (close_iterator I iterator)
        (\<lambda>_. call_promise_reject I reject failure)
        (\<lambda>closing. case closing of Fail_Runtime kind \<Rightarrow> eval_err (Fail_Runtime kind) | _ \<Rightarrow> call_promise_reject I reject failure))"

text \<open>One round of the iteration; \<open>False\<close> when the iterator is exhausted, an error is the failure that ends it.\<close>

definition promise_all_round :: "Interpreter \<Rightarrow> Value \<Rightarrow> Value \<Rightarrow> Value \<Rightarrow> Value \<Rightarrow> Value \<Rightarrow> (bool, EvalFailure) eval" where
  "promise_all_round I aggregate iterator resolve_method receiver capability_reject =
    eval_bind (it_iterator_next I iterator) (\<lambda>(is_done, v).
      if is_done then eval_ok False
      else
        eval_bind (add_promise_all_element I aggregate) (\<lambda>index.
        eval_bind (eval_map_err Fail_Runtime (produces (allocate (Entry_PromiseAllElement aggregate index False)))) (\<lambda>element.
        eval_bind (create_promise_resolver_function (it_promise_all_target I) element) (\<lambda>on_fulfilled.
        eval_bind (it_call_value I resolve_method receiver [v]) (\<lambda>resolved.
        eval_bind (it_get_named_property I resolved ''then'') (\<lambda>then_method.
        eval_bind (it_call_value I then_method resolved [on_fulfilled, capability_reject]) (\<lambda>_. eval_ok True)))))))"

partial_function (option) promise_all_loop ::
  "Interpreter \<Rightarrow> Value \<Rightarrow> Value \<Rightarrow> Value \<Rightarrow> Value \<Rightarrow> Value \<Rightarrow> Machine \<Rightarrow> ((bool, EvalFailure) result \<times> Machine) option" where
  "promise_all_loop I aggregate iterator resolve_method receiver capability_reject m =
    (case promise_all_round I aggregate iterator resolve_method receiver capability_reject m of
       (Err e, m) \<Rightarrow> Some (Err e, m)
     | (Panic, m) \<Rightarrow> Some (Panic, m)
     | (Ok again, m) \<Rightarrow>
         if again then promise_all_loop I aggregate iterator resolve_method receiver capability_reject m else Some (Ok again, m))"

definition promise_all_with_resolve ::
  "Interpreter \<Rightarrow> Value \<Rightarrow> Value \<Rightarrow> Value \<Rightarrow> Value \<Rightarrow> Value \<Rightarrow> Machine \<Rightarrow> ((unit, EvalFailure) result \<times> Machine) option" where
  "promise_all_with_resolve I iterable resolve_method receiver capability_resolve capability_reject m =
    (case eval_map_err Fail_Runtime (produces (allocate (Entry_PromiseAll capability_resolve capability_reject [] 1 False))) m of
       (Err e, m) \<Rightarrow> Some (Err e, m)
     | (Panic, m) \<Rightarrow> Some (Panic, m)
     | (Ok aggregate, m) \<Rightarrow>
         (case it_create_iterator I iterable m of
            (Panic, m) \<Rightarrow> Some (Panic, m)
          | (Err failure, m) \<Rightarrow>
              Some (eval_bind (mark_promise_all_settled aggregate) (\<lambda>_. call_promise_reject I capability_reject failure) m)
          | (Ok iterator, m) \<Rightarrow>
              (case promise_all_loop I aggregate iterator resolve_method receiver capability_reject m of
                 None \<Rightarrow> None
               | Some (Panic, m) \<Rightarrow> Some (Panic, m)
               | Some (Err failure, m) \<Rightarrow> Some (reject_promise_all_abrupt I aggregate capability_reject iterator failure m)
               | Some (Ok _, m) \<Rightarrow>
                   Some (eval_bind (finish_promise_all aggregate) (\<lambda>completed.
                     if completed then
                       eval_bind (move_promise_all_values_to_array I aggregate) (\<lambda>array.
                         eval_match (it_call_value I capability_resolve Value_UNDEFINED [array])
                           (\<lambda>_. eval_ok ())
                           (call_promise_reject I capability_reject))
                     else eval_ok ()) m))))"

section \<open>Specification\<close>

text \<open>What an aggregate stands for: how many elements there are, which value each has delivered, and whether the iteration is over.\<close>

record AllState =
  al_count :: nat
  al_values :: "nat \<rightharpoonup> Value"
  al_finished :: bool
  al_settled :: bool

definition all_start :: AllState where
  "all_start = \<lparr>al_count = 0, al_values = Map.empty, al_finished = False, al_settled = False\<rparr>"

definition all_complete :: "AllState \<Rightarrow> bool" where
  "all_complete s \<longleftrightarrow> al_finished s \<and> dom (al_values s) = {..<al_count s}"

definition all_add :: "AllState \<Rightarrow> AllState" where
  "all_add s = s\<lparr>al_count := al_count s + 1\<rparr>"

definition all_checked :: "AllState \<Rightarrow> AllState" where
  "all_checked s = s\<lparr>al_settled := all_complete s\<rparr>"

definition all_deliver :: "nat \<Rightarrow> Value \<Rightarrow> AllState \<Rightarrow> AllState" where
  "all_deliver k v s = (if al_settled s \<or> k \<in> dom (al_values s) then s else all_checked (s\<lparr>al_values := (al_values s)(k \<mapsto> v)\<rparr>))"

definition all_finish :: "AllState \<Rightarrow> AllState" where
  "all_finish s = (if al_settled s then s else all_checked (s\<lparr>al_finished := True\<rparr>))"

definition all_mark :: "AllState \<Rightarrow> AllState" where
  "all_mark s = s\<lparr>al_settled := True\<rparr>"

definition all_results :: "AllState \<Rightarrow> Value list" where
  "all_results s = map (\<lambda>k. the (al_values s k)) [0..<al_count s]"

lemmas all_defs = all_complete_def all_add_def all_checked_def all_deliver_def all_finish_def all_mark_def

text \<open>The elements of the aggregate in slot \<open>i\<close>: number and whether it was called.\<close>

definition element_of :: "HeapEntry list \<Rightarrow> usize \<Rightarrow> usize \<Rightarrow> (nat \<times> bool) option" where
  "element_of h i j =
    (if j < length h then
       (case h ! j of Entry_PromiseAllElement a k called \<Rightarrow> if runtime_index a = Some i then Some (k, called) else None | _ \<Rightarrow> None)
     else None)"

definition outstanding :: "AllState \<Rightarrow> nat" where
  "outstanding s = al_count s - card (dom (al_values s)) + (if al_finished s then 0 else 1)"

definition all_tally :: "AllState \<Rightarrow> Value list \<Rightarrow> usize \<Rightarrow> bool" where
  "all_tally s vs remaining \<longleftrightarrow> length vs = al_count s \<and> remaining = outstanding s \<and>
     (\<forall>k < al_count s. vs ! k = (case al_values s k of None \<Rightarrow> Value_UNDEFINED | Some v \<Rightarrow> v))"

definition elements_agree :: "usize \<Rightarrow> AllState \<Rightarrow> HeapEntry list \<Rightarrow> bool" where
  "elements_agree i s h \<longleftrightarrow>
     (\<forall>j k called. element_of h i j = Some (k, called) \<longrightarrow> k < al_count s \<and> (called \<longleftrightarrow> k \<in> dom (al_values s))) \<and>
     (\<forall>j j' k c c'. element_of h i j = Some (k, c) \<longrightarrow> element_of h i j' = Some (k, c') \<longrightarrow> j = j')"

definition all_rel :: "usize \<Rightarrow> AllState \<Rightarrow> HeapEntry list \<Rightarrow> bool" where
  "all_rel i s h \<longleftrightarrow> i < length h \<and>
     (h ! i = Entry_Vacant \<or> (\<exists>resolve reject vs remaining. h ! i = Entry_PromiseAll resolve reject vs remaining (al_settled s) \<and>
        (\<not> al_settled s \<longrightarrow> all_tally s vs remaining))) \<and>
     (\<not> al_settled s \<longrightarrow> \<not> all_complete s \<and> dom (al_values s) \<subseteq> {..<al_count s} \<and> elements_agree i s h)"

lemma outstanding_zero:
  assumes "dom (al_values s) \<subseteq> {..<al_count s}"
  shows "outstanding s = 0 \<longleftrightarrow> all_complete s"
proof -
  have "card (dom (al_values s)) \<le> al_count s" using card_mono [OF _ assms] by simp
  moreover have "dom (al_values s) = {..<al_count s} \<longleftrightarrow> card (dom (al_values s)) = al_count s"
    using card_subset_eq [OF _ assms] by (metis card_lessThan finite_lessThan)
  ultimately show ?thesis unfolding outstanding_def all_complete_def by auto
qed

lemma outstanding_deliver:
  assumes "dom (al_values s) \<subseteq> {..<al_count s}" and "k < al_count s" and "k \<notin> dom (al_values s)"
  shows "outstanding (s\<lparr>al_values := (al_values s)(k \<mapsto> v)\<rparr>) = outstanding s - 1" "outstanding s \<noteq> 0"
proof -
  have fin: "finite (dom (al_values s))" using assms(1) by (rule finite_subset) simp
  have "insert k (dom (al_values s)) \<subseteq> {..<al_count s}" using assms(1,2) by simp
  from card_mono [OF _ this] have "Suc (card (dom (al_values s))) \<le> al_count s" using fin assms(3) by simp
  then show "outstanding (s\<lparr>al_values := (al_values s)(k \<mapsto> v)\<rparr>) = outstanding s - 1" "outstanding s \<noteq> 0"
    using fin assms(3) by (auto simp: outstanding_def)
qed

lemma outstanding_add: "dom (al_values s) \<subseteq> {..<al_count s} \<Longrightarrow> outstanding (all_add s) = outstanding s + 1"
  using card_mono [of "{..<al_count s}" "dom (al_values s)"] by (auto simp: outstanding_def all_add_def)

lemma tally_results: "all_tally s vs remaining \<Longrightarrow> all_complete s \<Longrightarrow> vs = all_results s"
  by (rule nth_equalityI) (auto simp: all_tally_def all_results_def all_complete_def split: option.split)

lemma element_of_append: "element_of (h @ [e]) i j = (if j = length h then (case e of Entry_PromiseAllElement a k called \<Rightarrow> if runtime_index a = Some i then Some (k, called) else None | _ \<Rightarrow> None) else element_of h i j)"
  by (auto simp: element_of_def nth_append)

lemma element_of_update:
  assumes "j' < length h"
  shows "element_of (h[j' := e]) i j = (if j = j' then element_of (h[j' := e]) i j' else element_of h i j)"
  using assms by (auto simp: element_of_def)

lemma element_of_other [simp]: "h ! j = Entry_PromiseAll resolve reject vs remaining settled \<Longrightarrow> element_of h i j = None" "h ! j = Entry_Vacant \<Longrightarrow> element_of h i j = None"
  by (simp_all add: element_of_def)

lemma element_of_all_update:
  assumes "h ! i = Entry_PromiseAll resolve reject vs remaining settled"
  shows "element_of (h[i := Entry_PromiseAll resolve' reject' vs' remaining' settled']) i' j = element_of h i' j"
  using assms by (cases "j = i") (simp_all add: element_of_def)

section \<open>The operations implement the specification\<close>

lemma all_slot_present: "runtime_index a = Some i \<Longrightarrow> present (mc_heap m) i \<Longrightarrow> slot_or_throw operation a m = Ok i"
  using runtime_slot_iff [of m a i] by (simp add: slot_or_throw_def)

lemma all_slot_absent: "runtime_index a = Some i \<Longrightarrow> \<not> present (mc_heap m) i \<Longrightarrow> \<exists>e. slot_or_throw operation a m = Err e"
  using runtime_slot_iff [of m a] runtime_slot_no_Panic [of m a]
  by (cases "runtime_slot m a") (auto simp: slot_or_throw_def ok_or_def split: option.split)

lemma all_present: "i < length h \<Longrightarrow> present h i \<longleftrightarrow> h ! i \<noteq> Entry_Vacant"
  by (auto simp: present_def is_vacant_def split: HeapEntry.splits)

lemma rel_entry:
  assumes i: "i < length h" and "h ! i = Entry_PromiseAll resolve reject vs remaining st"
    and "dom (al_values s') \<subseteq> {..<al_count s'}" and "all_tally s' vs' remaining'" and "\<not> al_settled s' \<Longrightarrow> elements_agree i s' h"
    and "al_settled s' = all_complete s'" and "st' = al_settled s'"
  shows "all_rel i s' (h[i := Entry_PromiseAll resolve reject vs' remaining' st'])"
proof -
  let ?h = "h[i := Entry_PromiseAll resolve reject vs' remaining' st']"
  have "element_of ?h i j = element_of h i j" for j by (rule element_of_all_update [OF assms(2)])
  then have "elements_agree i s' ?h = elements_agree i s' h" unfolding elements_agree_def by simp
  moreover have "?h ! i = Entry_PromiseAll resolve reject vs' remaining' (al_settled s')" "i < length ?h" using i assms(7) by simp_all
  ultimately show ?thesis using assms(3-6) unfolding all_rel_def by blast
qed

lemma rel_vacant:
  assumes "all_rel i s h" and "h ! i = Entry_Vacant" and "dom (al_values s') \<subseteq> {..<al_count s'}"
    and "\<not> al_settled s' \<Longrightarrow> \<not> all_complete s' \<and> elements_agree i s' h"
  shows "all_rel i s' h"
  using assms by (simp add: all_rel_def)

lemma rel_settled: "all_rel i s h \<Longrightarrow> al_settled s \<Longrightarrow> al_settled s' \<Longrightarrow> all_rel i s' h"
  by (simp add: all_rel_def)

lemma rel_open:
  assumes "all_rel i s h" and "\<not> al_settled s"
  shows "dom (al_values s) \<subseteq> {..<al_count s}" "elements_agree i s h" "\<not> all_complete s" "outstanding s \<noteq> 0"
  using assms outstanding_zero [of s] by (simp_all add: all_rel_def)

lemma rel_present:
  assumes "all_rel i s h" and "h ! i = Entry_PromiseAll resolve reject vs remaining st"
  shows "st = al_settled s" "\<not> al_settled s \<Longrightarrow> all_tally s vs remaining"
  using assms by (auto simp: all_rel_def)

lemma rel_cases:
  assumes "all_rel i s h"
  obtains "h ! i = Entry_Vacant" "\<not> present h i" "i < length h"
    | resolve reject vs remaining where "h ! i = Entry_PromiseAll resolve reject vs remaining (al_settled s)" "present h i" "i < length h"
  using assms by (auto simp: all_rel_def all_present)

text \<open>The end of the iteration.\<close>

lemma finish_present:
  assumes a: "runtime_index a = Some i" and rel: "all_rel i s (mc_heap m)" and fin: "\<not> al_finished s"
    and entry: "mc_heap m ! i = Entry_PromiseAll resolve reject vs remaining st"
  shows "\<exists>h. finish_promise_all a m = (Ok (\<not> al_settled s \<and> al_settled (all_finish s)), m\<lparr>mc_heap := h\<rparr>) \<and> all_rel i (all_finish s) h \<and>
    (\<not> al_settled s \<and> al_settled (all_finish s) \<longrightarrow> h ! i = Entry_PromiseAll resolve reject (all_results s) 0 True)"
proof -
  have i: "i < length (mc_heap m)" using rel by (simp add: all_rel_def)
  have slot: "promise_all_slot a m = Ok i" using all_slot_present [OF a] all_present [OF i] entry by simp
  show ?thesis
  proof (cases "al_settled s")
    case True
    then show ?thesis using slot entry rel rel_present(1) [OF rel entry]
      by (intro exI [of _ "mc_heap m"]) (simp add: finish_promise_all_def reads_def all_finish_def)
  next
    case False
    let ?s = "s\<lparr>al_finished := True\<rparr>" and ?h = "(mc_heap m)[i := Entry_PromiseAll resolve reject vs (remaining - 1) (remaining = 1)]"
    note t = rel_present(2) [OF rel entry False] and o = rel_open [OF rel False]
    have rem: "outstanding ?s = remaining - 1" "remaining \<noteq> 0" "remaining = outstanding s" using t o(4) fin by (auto simp: all_tally_def outstanding_def)
    have one: "(remaining = 1) = all_complete ?s" using outstanding_zero [of ?s] o(1) rem(1,2) by auto
    have t': "all_tally ?s vs (remaining - 1)" using t by (simp add: all_tally_def rem(1))
    have fs: "all_finish s = all_checked ?s" "al_settled (all_finish s) = (remaining = 1)" using False one by (simp_all add: all_finish_def all_checked_def)
    have "all_tally (all_finish s) vs (remaining - 1)" using t' by (simp add: fs(1) all_tally_def all_checked_def outstanding_def)
    moreover have "elements_agree i (all_finish s) (mc_heap m)" "dom (al_values (all_finish s)) \<subseteq> {..<al_count (all_finish s)}"
        "al_settled (all_finish s) = all_complete (all_finish s)"
      using o(1,2) by (simp_all add: fs(1) all_checked_def all_complete_def elements_agree_def)
    ultimately have rel': "all_rel i (all_finish s) ?h" by (intro rel_entry [OF i entry]) (simp_all add: fs(2))
    have results: "?h ! i = Entry_PromiseAll resolve reject (all_results s) 0 True" if "remaining = 1"
    proof -
      have "all_complete ?s" using that one by simp
      from tally_results [OF t' this] have "vs = all_results s" by (simp add: all_results_def)
      then show ?thesis using that i by simp
    qed
    have "finish_promise_all a m = (Ok (remaining = 1), m\<lparr>mc_heap := ?h\<rparr>)"
      using slot entry False rem(2) rel_present(1) [OF rel entry] by (simp add: finish_promise_all_def reads_def)
    then show ?thesis by (intro exI [of _ ?h]) (use rel' results False i in \<open>simp add: fs(2)\<close>)
  qed
qed

lemma finish_absent:
  assumes a: "runtime_index a = Some i" and rel: "all_rel i s (mc_heap m)" and entry: "mc_heap m ! i = Entry_Vacant"
  shows "\<exists>e. finish_promise_all a m = (Err e, m)" "all_rel i (all_finish s) (mc_heap m)"
proof -
  have "\<not> present (mc_heap m) i" using entry all_present rel by (simp add: all_rel_def)
  from all_slot_absent [OF a this] obtain e where "promise_all_slot a m = Err e" by blast
  then have "finish_promise_all a m = (Err e, m)" by (simp add: finish_promise_all_def reads_def)
  then show "\<exists>e. finish_promise_all a m = (Err e, m)" ..
  show "all_rel i (all_finish s) (mc_heap m)"
  proof (cases "al_settled s")
    case False
    show ?thesis by (rule rel_vacant [OF rel entry]) (use rel_open [OF rel False] in \<open>auto simp: all_defs elements_agree_def\<close>)
  qed (use rel in \<open>simp add: all_finish_def\<close>)
qed

text \<open>A delivery.\<close>

lemma element_at:
  assumes "element_of h i j = Some (k, c)"
  obtains a where "j < length h" "h ! j = Entry_PromiseAllElement a k c" "runtime_index a = Some i"
  using assms by (cases "h ! j") (auto simp: element_of_def split: if_splits)

lemma called_element:
  assumes j: "element_of h i j = Some (k, False)" and agree: "elements_agree i s h" and e: "e = Entry_PromiseAllElement a k True" "runtime_index a = Some i"
  shows "elements_agree i (s\<lparr>al_values := (al_values s)(k \<mapsto> v)\<rparr>) (h[j := e])"
proof -
  have bound: "j < length h" using j by (rule element_at)
  have upd: "element_of (h[j := e]) i x = (if x = j then Some (k, True) else element_of h i x)" for x
    using bound e by (subst element_of_update) (simp_all add: element_of_def)
  have uniq: "x = j" if "element_of h i x = Some (k, c)" for x c using agree j that unfolding elements_agree_def by blast
  have all: "k' < al_count s \<and> (c \<longleftrightarrow> k' \<in> dom (al_values s))" if "element_of h i x = Some (k', c)" for x k' c
    using agree that unfolding elements_agree_def by blast
  have inj: "x = y" if "element_of h i x = Some (k', c)" "element_of h i y = Some (k', c')" for x y k' c c'
    using agree that unfolding elements_agree_def by blast
  show ?thesis unfolding elements_agree_def
  proof (intro conjI allI impI)
    fix x k' c
    assume "element_of (h[j := e]) i x = Some (k', c)"
    then have x: "x = j \<and> k' = k \<and> c \<or> x \<noteq> j \<and> element_of h i x = Some (k', c)" by (auto simp: upd split: if_splits)
    then show "k' < al_count (s\<lparr>al_values := (al_values s)(k \<mapsto> v)\<rparr>)" using all [OF j] all by auto
    from x have "x \<noteq> j \<Longrightarrow> k' \<noteq> k" using uniq by auto
    with x show "c \<longleftrightarrow> k' \<in> dom (al_values (s\<lparr>al_values := (al_values s)(k \<mapsto> v)\<rparr>))" using all [of x k' c] by auto
  next
    fix x y k' c c'
    assume "element_of (h[j := e]) i x = Some (k', c)" "element_of (h[j := e]) i y = Some (k', c')"
    then show "x = y" using inj [of x k' c y c'] uniq by (auto simp: upd split: if_splits)
  qed
qed

lemma deliver_called:
  assumes el: "runtime_index element = Some j" "element_of (mc_heap m) i j = Some (k, True)"
  shows "record_promise_all_value element v m = (Ok None, m)"
proof -
  from el(2) obtain a where j: "j < length (mc_heap m)" "mc_heap m ! j = Entry_PromiseAllElement a k True" by (rule element_at)
  have "promise_all_slot element m = Ok j" using all_slot_present [OF el(1)] all_present [OF j(1)] j(2) by simp
  then show ?thesis using j(2) by (simp add: record_promise_all_value_def reads_def)
qed

lemma deliver_present:
  assumes el: "runtime_index element = Some j" "j < length (mc_heap m)" "mc_heap m ! j = Entry_PromiseAllElement a k False" "runtime_index a = Some i"
    and rel: "all_rel i s (mc_heap m)" and entry: "mc_heap m ! i = Entry_PromiseAll resolve reject vs remaining st"
  shows "\<exists>h. record_promise_all_value element v m =
      (Ok (if al_settled s then None else Some (a, resolve, al_settled (all_deliver k v s))), m\<lparr>mc_heap := h\<rparr>) \<and> all_rel i (all_deliver k v s) h \<and>
    (\<not> al_settled s \<and> al_settled (all_deliver k v s) \<longrightarrow> h ! i = Entry_PromiseAll resolve reject (all_results (all_deliver k v s)) 0 True)"
proof -
  let ?e = "Entry_PromiseAllElement a k True"
  let ?h1 = "(mc_heap m)[j := ?e]"
  let ?m1 = "m\<lparr>mc_heap := ?h1\<rparr>"
  have i: "i < length ?h1" using rel by (simp add: all_rel_def)
  have ij: "?h1 ! i = Entry_PromiseAll resolve reject vs remaining st" using entry el(3) by (cases "i = j") simp_all
  have "promise_all_slot element m = Ok j" using all_slot_present [OF el(1)] all_present [OF el(2)] el(3) by simp
  moreover have "promise_all_slot a ?m1 = Ok i" using all_slot_present [OF el(4), of ?m1] all_present [OF i] ij by simp
  ultimately have eq: "record_promise_all_value element v m =
      (if st then (Ok None, ?m1) else if \<not> k < length vs \<or> remaining = 0 then (Panic, ?m1)
       else (Ok (Some (a, resolve, remaining = 1)), m\<lparr>mc_heap := ?h1[i := Entry_PromiseAll resolve reject (vs[k := v]) (remaining - 1) (remaining = 1)]\<rparr>))"
    using el(3) ij by (simp add: record_promise_all_value_def reads_def modifies_def)
  note st = rel_present(1) [OF rel entry]
  show ?thesis
  proof (cases "al_settled s")
    case True
    have "all_rel i s ?h1" using True ij i st by (simp add: all_rel_def)
    then show ?thesis using eq True st by (intro exI [of _ ?h1]) (simp add: all_deliver_def)
  next
    case False
    let ?s = "s\<lparr>al_values := (al_values s)(k \<mapsto> v)\<rparr>" and ?h = "?h1[i := Entry_PromiseAll resolve reject (vs[k := v]) (remaining - 1) (remaining = 1)]"
    note t = rel_present(2) [OF rel entry False] and o = rel_open [OF rel False]
    have j: "element_of (mc_heap m) i j = Some (k, False)" using el by (simp add: element_of_def)
    have k: "k < al_count s" "k \<notin> dom (al_values s)" using o(2) j unfolding elements_agree_def by blast+
    have rem: "outstanding ?s = remaining - 1" "remaining \<noteq> 0" using outstanding_deliver [OF o(1) k] t by (simp_all add: all_tally_def)
    have dom: "dom (al_values ?s) \<subseteq> {..<al_count ?s}" using o(1) k(1) by simp
    have one: "(remaining = 1) = all_complete ?s" using outstanding_zero [OF dom] rem by auto
    have ds: "all_deliver k v s = all_checked ?s" "al_settled (all_deliver k v s) = (remaining = 1)"
      using False k(2) one by (simp_all add: all_deliver_def all_checked_def)
    have t': "all_tally ?s (vs[k := v]) (remaining - 1)" using t k(1) by (auto simp: all_tally_def rem(1) nth_list_update)
    then have "all_tally (all_deliver k v s) (vs[k := v]) (remaining - 1)" by (simp add: ds(1) all_tally_def all_checked_def outstanding_def)
    moreover have "elements_agree i (all_deliver k v s) ?h1"
      using called_element [OF j o(2) refl el(4), of v] unfolding ds(1) elements_agree_def by (simp add: all_checked_def)
    moreover have "dom (al_values (all_deliver k v s)) \<subseteq> {..<al_count (all_deliver k v s)}" "al_settled (all_deliver k v s) = all_complete (all_deliver k v s)"
      using dom by (simp_all add: ds(1) all_checked_def all_complete_def)
    ultimately have rel': "all_rel i (all_deliver k v s) ?h" by (intro rel_entry [OF i ij]) (simp_all add: ds(2))
    have results: "vs[k := v] = all_results (all_deliver k v s)" if "remaining = 1"
    proof -
      have "all_complete ?s" using that one by simp
      from tally_results [OF t' this] show ?thesis by (simp add: all_results_def ds(1) all_checked_def)
    qed
    have "k < length vs" using t k(1) by (simp add: all_tally_def)
    then have "record_promise_all_value element v m = (Ok (Some (a, resolve, remaining = 1)), m\<lparr>mc_heap := ?h\<rparr>)" using eq st False rem(2) by simp
    then show ?thesis by (intro exI [of _ ?h]) (use rel' results False i in \<open>simp add: ds(2)\<close>)
  qed
qed

lemma deliver_absent:
  assumes el: "runtime_index element = Some j" "j < length (mc_heap m)" "mc_heap m ! j = Entry_PromiseAllElement a k False" "runtime_index a = Some i"
    and rel: "all_rel i s (mc_heap m)" and entry: "mc_heap m ! i = Entry_Vacant"
  shows "\<exists>e h. record_promise_all_value element v m = (Err e, m\<lparr>mc_heap := h\<rparr>) \<and> all_rel i (all_deliver k v s) h"
proof -
  let ?e = "Entry_PromiseAllElement a k True"
  let ?h1 = "(mc_heap m)[j := ?e]"
  let ?m1 = "m\<lparr>mc_heap := ?h1\<rparr>"
  have i: "i < length ?h1" using rel by (simp add: all_rel_def)
  have ij: "?h1 ! i = Entry_Vacant" using entry el(3) by (cases "i = j") simp_all
  have j: "promise_all_slot element m = Ok j" using all_slot_present [OF el(1)] all_present [OF el(2)] el(3) by simp
  from all_slot_absent [OF el(4), of ?m1] all_present [OF i] ij obtain e where "promise_all_slot a ?m1 = Err e" by auto
  with j have "record_promise_all_value element v m = (Err e, ?m1)" using el(3) by (simp add: record_promise_all_value_def reads_def modifies_def)
  moreover have "all_rel i (all_deliver k v s) ?h1"
  proof (cases "al_settled s")
    case True
    then show ?thesis using ij i by (simp add: all_rel_def all_deliver_def)
  next
    case False
    let ?s = "s\<lparr>al_values := (al_values s)(k \<mapsto> v)\<rparr>"
    note o = rel_open [OF rel False]
    have j: "element_of (mc_heap m) i j = Some (k, False)" using el by (simp add: element_of_def)
    have k: "k < al_count s" "k \<notin> dom (al_values s)" using o(2) j unfolding elements_agree_def by blast+
    have "elements_agree i ?s ?h1" by (rule called_element [OF j o(2) refl el(4)])
    then have "elements_agree i (all_deliver k v s) ?h1" using False k(2) by (simp add: elements_agree_def all_deliver_def all_checked_def)
    moreover have "dom (al_values (all_deliver k v s)) \<subseteq> {..<al_count (all_deliver k v s)}" "al_settled (all_deliver k v s) = all_complete (all_deliver k v s)"
      using o(1) k False by (simp_all add: all_deliver_def all_checked_def all_complete_def)
    ultimately show ?thesis using ij i unfolding all_rel_def by blast
  qed
  ultimately show ?thesis by blast
qed

text \<open>Failed aggregates.\<close>

lemma mark_step:
  assumes a: "runtime_index a = Some i" and rel: "all_rel i s (mc_heap m)"
  shows "\<exists>r h. mark_promise_all_settled a m = (r, m\<lparr>mc_heap := h\<rparr>) \<and> r \<noteq> Panic \<and> all_rel i (all_mark s) h"
  using rel
proof (cases rule: rel_cases)
  case 1
  from all_slot_absent [OF a 1(2)] obtain e where "promise_all_slot a m = Err e" by blast
  then show ?thesis using 1(1,3) by (intro exI [of _ "Err e"] exI [of _ "mc_heap m"]) (simp add: mark_promise_all_settled_def reads_def all_rel_def all_mark_def)
next
  case (2 resolve reject vs remaining)
  then show ?thesis using all_slot_present [OF a 2(2)]
    by (intro exI [of _ "Ok (\<not> al_settled s)"] exI [of _ "(mc_heap m)[i := Entry_PromiseAll resolve reject vs remaining True]"])
      (simp add: mark_promise_all_settled_def reads_def all_rel_def all_mark_def)
qed

text \<open>The ledger is not affected by these operations.\<close>

lemma slot_rewritten:
  assumes ok: "jobs_ok m" and i: "i < length (mc_heap m)"
    and e: "held_bytes e = held_bytes (mc_heap m ! i)" "is_promise_entry e = is_promise_entry (mc_heap m ! i)" "is_vacant e = is_vacant (mc_heap m ! i)" "counts_entries e"
  shows "jobs_ok (m\<lparr>mc_heap := (mc_heap m)[i := e]\<rparr>)"
proof -
  have "contents_charged (m\<lparr>mc_heap := (mc_heap m)[i := e]\<rparr>)" using jobs_okD(2) [OF ok] e(1,4) i by (auto simp: contents_charged_def nth_list_update)
  moreover have "\<not> is_promise_entry ((mc_heap m)[i := e] ! j)" if "j < mc_intrinsic_slots m" for j
    using ok that e(2) i by (cases "j = i") (auto simp: jobs_ok_def)
  ultimately show ?thesis using ok ledger_ok_heap_update [OF jobs_okD(1) [OF ok] e(3)]
    by (simp add: jobs_ok_def retained_bytes_def microtasks_of_def)
qed

lemma all_entry_facts [simp]:
  "held_bytes (Entry_PromiseAll resolve reject vs remaining st) = length vs * VALUE_BYTES" "held_bytes (Entry_PromiseAllElement a k c) = 0"
  "held_bytes (Entry_Array vs ps prototype) = 0"
  "is_promise_entry (Entry_PromiseAll resolve reject vs remaining st)" "\<not> is_promise_entry (Entry_PromiseAllElement a k c)" "\<not> is_promise_entry (Entry_Array vs ps prototype)"
  "\<not> is_vacant (Entry_PromiseAll resolve reject vs remaining st)" "\<not> is_vacant (Entry_PromiseAllElement a k c)" "\<not> is_vacant (Entry_Array vs ps prototype)"
  "counts_entries (Entry_PromiseAll resolve reject vs remaining st)" "counts_entries (Entry_PromiseAllElement a k c)" "counts_entries (Entry_Array vs ps prototype)"
  by (simp_all add: held_bytes_def is_promise_entry_def is_vacant_def counts_entries_def)

lemma slot_or_throw_Ok: "slot_or_throw operation a m = Ok i \<Longrightarrow> i < length (mc_heap m) \<and> runtime_index a = Some i \<and> present (mc_heap m) i"
  using runtime_slot_iff [of m a i] by (cases "runtime_slot m a") (auto simp: slot_or_throw_def ok_or_def present_def split: option.splits)

lemma finish_keeps: "jobs_ok m \<Longrightarrow> jobs_ok (snd (finish_promise_all a m))"
proof (cases "promise_all_slot a m")
  case (Ok i)
  assume "jobs_ok m"
  with slot_or_throw_Ok [OF Ok] Ok show ?thesis
    by (cases "mc_heap m ! i") (simp_all add: finish_promise_all_def reads_def slot_rewritten)
qed (simp_all add: finish_promise_all_def reads_def)

lemma mark_keeps: "jobs_ok m \<Longrightarrow> jobs_ok (snd (mark_promise_all_settled a m))"
proof (cases "promise_all_slot a m")
  case (Ok i)
  assume "jobs_ok m"
  with slot_or_throw_Ok [OF Ok] Ok show ?thesis
    by (cases "mc_heap m ! i") (simp_all add: mark_promise_all_settled_def reads_def slot_rewritten)
qed (simp_all add: mark_promise_all_settled_def reads_def)

lemma record_keeps:
  assumes "jobs_ok m"
  shows "jobs_ok (snd (record_promise_all_value element v m))"
proof (cases "promise_all_slot element m")
  case (Ok j)
  note j = slot_or_throw_Ok [OF Ok]
  show ?thesis
  proof (cases "\<exists>a k. mc_heap m ! j = Entry_PromiseAllElement a k False")
    case True
    then obtain a k where e: "mc_heap m ! j = Entry_PromiseAllElement a k False" by blast
    let ?m1 = "m\<lparr>mc_heap := (mc_heap m)[j := Entry_PromiseAllElement a k True]\<rparr>"
    have ok: "jobs_ok ?m1" by (rule slot_rewritten) (use assms j e in simp_all)
    show ?thesis
    proof (cases "promise_all_slot a ?m1")
      case (Ok i)
      note i = slot_or_throw_Ok [OF Ok]
      show ?thesis using Ok \<open>promise_all_slot element m = Ok j\<close> e i slot_rewritten [OF ok, of i] ok
        by (cases "mc_heap ?m1 ! i") (simp_all add: record_promise_all_value_def reads_def modifies_def)
    qed (use Ok e ok in \<open>simp_all add: record_promise_all_value_def reads_def modifies_def\<close>)
  next
    case False
    then show ?thesis using Ok assms by (cases "mc_heap m ! j") (auto simp: record_promise_all_value_def reads_def)
  qed
qed (use assms in \<open>simp_all add: record_promise_all_value_def reads_def\<close>)

text \<open>A new element.\<close>

lemma add_step:
  assumes ok: "jobs_ok m" and a: "runtime_index a = Some i" and rel: "all_rel i s (mc_heap m)" and add: "add_promise_all_element I a m = (Ok k, m')"
  shows "\<not> al_settled s \<and> k = al_count s \<and> jobs_ok m' \<and> all_rel i (all_add s) (mc_heap m') \<and> elements_agree i s (mc_heap m')"
  using rel
proof (cases rule: rel_cases)
  case 1
  from all_slot_absent [OF a 1(2)] obtain e where "promise_all_slot a m = Err e" by blast
  then have "add_promise_all_element I a m = (Err e, m)" by (simp add: add_promise_all_element_def reads_def)
  then show ?thesis using add by simp
next
  case (2 resolve reject vs remaining)
  note m = jobs_okD [OF ok]
  let ?e = "Entry_PromiseAll resolve reject (vs @ [Value_UNDEFINED]) (remaining + 1) False" and ?m1 = "charged_slot i VALUE_BYTES m"
  have own: "mc_intrinsic_slots m \<le> i" using m(4) [OF 2(3)] by (simp add: 2(1))
  have slot: "promise_all_slot a m = Ok i" by (rule all_slot_present [OF a 2(2)])
  have open_: "\<not> al_settled s" using add slot 2(1) by (cases "al_settled s") (simp_all add: add_promise_all_element_def reads_def)
  have charge: "charge_slot i VALUE_BYTES m = Ok ?m1 \<and> k = length vs \<and> m' = ?m1\<lparr>mc_heap := (mc_heap m)[i := ?e]\<rparr>"
    using add slot 2(1) open_ charge_slot_eq [OF m(1) 2(3), of VALUE_BYTES]
    by (auto simp: add_promise_all_element_def reads_def eval_bind_def eval_map_err_def updates_def split: if_splits result.splits)
  note t = rel_present(2) [OF rel 2(1) open_] and o = rel_open [OF rel open_]
  have "ledger_ok ?m1" by (rule charge_slot_ok [OF m(1) 2(3) conjunct1 [OF charge]])
  then have "ledger_ok (?m1\<lparr>mc_heap := (mc_heap ?m1)[i := ?e]\<rparr>)" by (rule ledger_ok_heap_update) (simp add: 2(1))
  then have "ledger_ok m'" using charge by simp
  then have "jobs_ok m' \<and> machine_evolves m m'"
    by (rule slot_changed [OF ok 2(3), where b = "mc_slot_bytes m ! i + VALUE_BYTES" and e = ?e and qs = "[]"])
      (use own held_small(1) [OF ok 2(3) order_refl] charge in \<open>simp_all add: charged_slot_def charge_due_owned [OF m(1) own] microtasks_of_def
        2(1) entry_evolves_def algebra_simps\<close>)
  moreover have "all_tally (all_add s) (vs @ [Value_UNDEFINED]) (remaining + 1)"
    using t outstanding_add [OF o(1)] o(1) by (auto simp: all_tally_def all_add_def nth_append less_Suc_eq split: option.split)
  moreover have agree: "elements_agree i s ((mc_heap m)[i := ?e])"
  proof -
    have "element_of ((mc_heap m)[i := ?e]) i j = element_of (mc_heap m) i j" for j by (rule element_of_all_update [OF 2(1)])
    then show ?thesis using o(2) unfolding elements_agree_def by simp
  qed
  moreover have "elements_agree i (all_add s) ((mc_heap m)[i := ?e])" using agree by (fastforce simp: elements_agree_def all_add_def)
  moreover have "\<not> all_complete (all_add s)" "dom (al_values (all_add s)) \<subseteq> {..<al_count (all_add s)}" "\<not> al_settled (all_add s)"
    using o(1) open_ by (auto simp: all_complete_def all_add_def)
  ultimately show ?thesis using open_ charge t 2(3) unfolding all_rel_def by (simp add: all_tally_def)
qed

lemma rel_appended:
  assumes "all_rel i s h" and "\<not> al_settled s \<Longrightarrow> elements_agree i s (h @ [e])"
  shows "all_rel i s (h @ [e])"
  using assms by (auto simp: all_rel_def nth_append)

lemma new_element:
  assumes agree: "elements_agree i s h" and dom: "dom (al_values s) \<subseteq> {..<al_count s}" and a: "runtime_index a = Some i"
  shows "elements_agree i (all_add s) (h @ [Entry_PromiseAllElement a (al_count s) False])"
proof -
  have all: "k < al_count s \<and> (c \<longleftrightarrow> k \<in> dom (al_values s))" if "element_of h i x = Some (k, c)" for x k c
    using agree that unfolding elements_agree_def by blast
  have inj: "x = y" if "element_of h i x = Some (k, c)" "element_of h i y = Some (k, c')" for x y k c c'
    using agree that unfolding elements_agree_def by blast
  have new: "al_count s \<notin> dom (al_values s)" using dom by auto
  show ?thesis unfolding elements_agree_def element_of_append
  proof (intro conjI allI impI)
    fix x k c
    assume "(if x = length h then case Entry_PromiseAllElement a (al_count s) False of Entry_PromiseAllElement a k called \<Rightarrow>
      if runtime_index a = Some i then Some (k, called) else None | _ \<Rightarrow> None else element_of h i x) = Some (k, c)"
    then have "k = al_count s \<and> \<not> c \<or> element_of h i x = Some (k, c)" using a by (auto split: if_splits)
    then show "k < al_count (all_add s)" "c \<longleftrightarrow> k \<in> dom (al_values (all_add s))" using all [of x k c] new by (auto simp: all_add_def)
  next
    fix x y k c c'
    assume "(if x = length h then case Entry_PromiseAllElement a (al_count s) False of Entry_PromiseAllElement a k called \<Rightarrow>
      if runtime_index a = Some i then Some (k, called) else None | _ \<Rightarrow> None else element_of h i x) = Some (k, c)"
     "(if y = length h then case Entry_PromiseAllElement a (al_count s) False of Entry_PromiseAllElement a k called \<Rightarrow>
      if runtime_index a = Some i then Some (k, called) else None | _ \<Rightarrow> None else element_of h i y) = Some (k, c')"
    then show "x = y" using a all [of x k c] all [of y k c'] inj [of x k c y c'] by (auto split: if_splits)
  qed
qed

section \<open>Runs of an aggregate\<close>

text \<open>
  Whatever else the program does: other entries change, new ones appear, and a collection may remove the aggregate or its elements. The list of a
  settled aggregate may be taken away.
\<close>

definition all_other :: "usize \<Rightarrow> Machine \<Rightarrow> Machine \<Rightarrow> bool" where
  "all_other i m m' \<longleftrightarrow> jobs_ok m' \<and> length (mc_heap m) \<le> length (mc_heap m') \<and>
     (mc_heap m' ! i = mc_heap m ! i \<or> mc_heap m' ! i = Entry_Vacant \<or>
      (\<exists>resolve reject vs vs' remaining. mc_heap m ! i = Entry_PromiseAll resolve reject vs remaining True \<and>
         mc_heap m' ! i = Entry_PromiseAll resolve reject vs' remaining True)) \<and>
     (\<forall>j k c. element_of (mc_heap m') i j = Some (k, c) \<longrightarrow> element_of (mc_heap m) i j = Some (k, c))"

text \<open>The life of the aggregate in slot \<open>i\<close>, with what it stands for.\<close>

inductive all_run :: "Interpreter \<Rightarrow> usize \<Rightarrow> AllState \<Rightarrow> Machine \<Rightarrow> bool" for I i where
  run_start: "jobs_ok m \<Longrightarrow> i = length (mc_heap m) \<Longrightarrow> (\<And>j. element_of (mc_heap m) i j = None) \<Longrightarrow>
    allocate (Entry_PromiseAll resolve reject [] 1 False) m = Ok (a, m') \<Longrightarrow> all_run I i all_start m'"
| run_add: "all_run I i s m \<Longrightarrow> runtime_index a = Some i \<Longrightarrow> add_promise_all_element I a m = (Ok k, m1) \<Longrightarrow>
    allocate (Entry_PromiseAllElement a k False) m1 = Ok (element, m2) \<Longrightarrow> all_run I i (all_add s) m2"
| run_add_lost: "all_run I i s m \<Longrightarrow> runtime_index a = Some i \<Longrightarrow> add_promise_all_element I a m = (Ok k, m1) \<Longrightarrow>
    allocate (Entry_PromiseAllElement a k False) m1 = Err e \<Longrightarrow> all_run I i (all_add s) m1"
| run_deliver: "all_run I i s m \<Longrightarrow> runtime_index element = Some j \<Longrightarrow> element_of (mc_heap m) i j = Some (k, c) \<Longrightarrow>
    record_promise_all_value element v m = (r, m') \<Longrightarrow> all_run I i (if c then s else all_deliver k v s) m'"
| run_finish: "all_run I i s m \<Longrightarrow> runtime_index a = Some i \<Longrightarrow> \<not> al_finished s \<Longrightarrow> finish_promise_all a m = (b, m') \<Longrightarrow> all_run I i (all_finish s) m'"
| run_mark: "all_run I i s m \<Longrightarrow> runtime_index a = Some i \<Longrightarrow> mark_promise_all_settled a m = (b, m') \<Longrightarrow> all_run I i (all_mark s) m'"
| run_other: "all_run I i s m \<Longrightarrow> all_other i m m' \<Longrightarrow> all_run I i s m'"

lemma rel_other:
  assumes rel: "all_rel i s (mc_heap m)" and other: "all_other i m m'"
  shows "all_rel i s (mc_heap m')"
proof -
  have "elements_agree i s (mc_heap m) \<Longrightarrow> elements_agree i s (mc_heap m')" using other unfolding elements_agree_def all_other_def by blast
  moreover have "mc_heap m' ! i = Entry_Vacant \<or> (\<exists>resolve reject vs remaining. mc_heap m' ! i = Entry_PromiseAll resolve reject vs remaining (al_settled s) \<and>
      (\<not> al_settled s \<longrightarrow> all_tally s vs remaining))"
    using rel other by (auto simp: all_rel_def all_other_def)
  ultimately show ?thesis using rel other unfolding all_rel_def all_other_def by (meson order_less_le_trans)
qed

text \<open>A garbage collection is such a change.\<close>

lemma collect_other:
  assumes "jobs_ok m" and "collect_if_pending hasher m = Ok m'" and "i < length (mc_heap m)" and "mc_heap m ! i = Entry_PromiseAll resolve reject vs remaining st"
  shows "all_other i m m'"
proof (cases "gc_pending (mc_gc m)")
  case True
  have "jobs_ok m'" using collect_jobs [OF assms(1), of hasher] assms(2) by simp
  moreover from collect_ok [OF jobs_okD(1,2) [OF assms(1)], of hasher] assms(2) True have h: "mc_heap m' = map (collected_entry hasher m) [0..<length (mc_heap m)]"
    by (auto simp: collect_if_pending_def)
  have same: "collected_entry hasher m j = Entry_PromiseAllElement a k c \<Longrightarrow> mc_heap m ! j = Entry_PromiseAllElement a k c" for j a k c
    by (cases "mc_heap m ! j") (auto simp: collected_entry_def purged_entry_def released_entry_def Let_def split: if_splits)
  have "element_of (mc_heap m') i j = Some (k, c) \<Longrightarrow> element_of (mc_heap m) i j = Some (k, c)" for j k c
    by (erule element_at) (simp add: h element_of_def same)
  ultimately show ?thesis using assms(3,4)
    by (simp add: all_other_def h collected_entry_def purged_entry_def released_entry_def Let_def)
qed (use assms in \<open>simp add: collect_if_pending_def all_other_def\<close>)

lemma deliver_step:
  assumes el: "runtime_index element = Some j" "element_of (mc_heap m) i j = Some (k, False)" and rel: "all_rel i s (mc_heap m)"
    and "record_promise_all_value element v m = (r, m')"
  shows "r \<noteq> Panic \<and> all_rel i (all_deliver k v s) (mc_heap m')"
proof -
  from el(2) obtain a where a: "j < length (mc_heap m)" "mc_heap m ! j = Entry_PromiseAllElement a k False" "runtime_index a = Some i" by (rule element_at)
  from rel show ?thesis
  proof (cases rule: rel_cases)
    case 1
    from deliver_absent [OF el(1) a rel 1(1), of v] assms(4) show ?thesis by auto
  next
    case (2 resolve reject vs remaining)
    from deliver_present [OF el(1) a rel 2(1), of v] assms(4) show ?thesis by auto
  qed
qed

lemma all_run_ok: "all_run I i s m \<Longrightarrow> jobs_ok m \<and> all_rel i s (mc_heap m)"
proof (induction rule: all_run.induct)
  case (run_start m resolve reject a m')
  from jobs_allocated [OF run_start(1,4)] have m': "jobs_ok m'" "mc_heap m' = mc_heap m @ [Entry_PromiseAll resolve reject [] 1 False]" by auto
  have "element_of (mc_heap m') i j = None" for j using run_start(3) by (simp add: m'(2) element_of_append)
  then have "elements_agree i all_start (mc_heap m')" by (simp add: elements_agree_def)
  then show ?case using m' run_start(2) by (simp add: all_rel_def all_start_def all_tally_def outstanding_def all_complete_def)
next
  case (run_add s m a k m1 element m2)
  from add_step [OF _ run_add(2) _ run_add(3)] run_add.IH have st: "\<not> al_settled s" "k = al_count s" "jobs_ok m1"
    "all_rel i (all_add s) (mc_heap m1)" "elements_agree i s (mc_heap m1)" by auto
  from jobs_allocated [OF st(3) run_add(4)] have m2: "jobs_ok m2" "mc_heap m2 = mc_heap m1 @ [Entry_PromiseAllElement a k False]" by auto
  have "all_rel i (all_add s) (mc_heap m2)" unfolding m2(2) st(2)
    by (rule rel_appended [OF st(4)]) (rule new_element [OF st(5) _ run_add(2)], use rel_open(1) st(1) run_add.IH in blast)
  then show ?case using m2(1) by simp
next
  case (run_add_lost s m a k m1 e)
  then show ?case using add_step by blast
next
  case (run_deliver s m element j k c v r m')
  then show ?case using deliver_called [of element j m i k v] deliver_step [of element j m i k s v r m'] record_keeps [of m element v] by (cases c) auto
next
  case (run_finish s m a b m')
  have rel: "all_rel i s (mc_heap m)" and ok: "jobs_ok m" using run_finish.IH by auto
  from rel have "all_rel i (all_finish s) (mc_heap m')"
  proof (cases rule: rel_cases)
    case 1
    then show ?thesis using finish_absent [OF run_finish(2) rel 1(1)] run_finish(4) by auto
  next
    case (2 resolve reject vs remaining)
    then show ?thesis using finish_present [OF run_finish(2) rel run_finish(3) 2(1)] run_finish(4) by auto
  qed
  then show ?case using finish_keeps [OF ok, of a] run_finish(4) by simp
next
  case (run_mark s m a b m')
  then show ?case using mark_step [of a i s m] mark_keeps [of m a] by auto
next
  case (run_other s m m')
  then show ?case using rel_other by (auto simp: all_other_def)
qed

section \<open>The array of results\<close>

lemma transfer_fits:
  assumes ok: "ledger_ok m" and i: "i < length (mc_heap m)" "n < length (mc_heap m)" "i \<noteq> n" and b: "b \<le> mc_slot_bytes m ! i"
  shows "transfer_slot_charge i n b m = Ok (m\<lparr>mc_slot_bytes := (mc_slot_bytes m)[i := mc_slot_bytes m ! i - b, n := mc_slot_bytes m ! n + b]\<rparr>)"
proof -
  let ?sb = "(mc_slot_bytes m)[i := mc_slot_bytes m ! i - b]"
  have len: "length (mc_slot_bytes m) = length (mc_heap m)" by (rule ledger_okD(1) [OF ok])
  have "mc_slot_bytes m ! n + b \<le> sum_list (mc_slot_bytes m)"
    using sum_list_replace [of i "mc_slot_bytes m" "mc_slot_bytes m ! i - b"] elem_le_sum_list [of n ?sb] i b by (simp add: len)
  also have "\<dots> \<le> mc_heap_bytes m" using ledger_okD [OF ok] by simp
  also have "\<dots> < 2 ^ 64" using ledger_okD(8,9) [OF ok] by linarith
  finally show ?thesis using i b
    by (simp add: transfer_slot_charge_def sync_idle [OF ok] Let_def slice_index_def len usize_sub_def usize_add_def usize_checked_add_def expect_def)
qed

lemma move_step:
  assumes ok: "jobs_ok m" and a: "runtime_index a = Some i" and i: "i < length (mc_heap m)"
    and entry: "mc_heap m ! i = Entry_PromiseAll resolve reject vs remaining True"
    and array: "allocate (Entry_Array [] [] (Some (it_array_prototype I))) m = Ok (v, m1)"
  shows "\<exists>m'. move_promise_all_values_to_array I a m = (Ok v, m') \<and> runtime_slot m' v = Ok (Some (length (mc_heap m))) \<and>
    mc_heap m' ! length (mc_heap m) = Entry_Array vs [] (Some (it_array_prototype I)) \<and> all_other i m m'"
proof -
  let ?n = "length (mc_heap m)" and ?e = "Entry_Array vs [] (Some (it_array_prototype I))" and ?b = "length vs * VALUE_BYTES"
  from jobs_allocated [OF ok array] have m1: "jobs_ok m1" "mc_heap m1 = mc_heap m @ [Entry_Array [] [] (Some (it_array_prototype I))]"
    "runtime_slot m1 v = Ok (Some ?n)" by auto
  let ?h = "(mc_heap m1)[i := Entry_PromiseAll resolve reject [] remaining True, ?n := ?e]"
  let ?m2 = "m1\<lparr>mc_heap := ?h\<rparr>"
  have at: "i < length (mc_heap m1)" "?n < length (mc_heap m1)" "i \<noteq> ?n" "mc_heap m1 ! i = Entry_PromiseAll resolve reject vs remaining True"
    "mc_heap m1 ! ?n = Entry_Array [] [] (Some (it_array_prototype I))" using i entry by (simp_all add: m1(2) nth_append)
  have b: "?b \<le> mc_slot_bytes m1 ! i" "?b < 2 ^ 64" using held_small [OF m1(1) at(1), of ?b] at(4) by simp_all
  have "ledger_ok (m1\<lparr>mc_heap := (mc_heap m1)[i := Entry_PromiseAll resolve reject [] remaining True]\<rparr>)"
    by (rule ledger_ok_heap_update [OF jobs_okD(1) [OF m1(1)]]) (simp add: at(4))
  from ledger_ok_heap_update [OF this, of ?e ?n] have m2: "ledger_ok ?m2" using at by simp
  have t: "transfer_slot_charge i ?n ?b ?m2 =
      Ok (?m2\<lparr>mc_slot_bytes := (mc_slot_bytes m1)[i := mc_slot_bytes m1 ! i - ?b, ?n := mc_slot_bytes m1 ! ?n + ?b]\<rparr>)" (is "_ = Ok ?m3")
    using transfer_fits [OF m2, of i ?n ?b] at b(1) by simp
  have len: "length (mc_slot_bytes m1) = length (mc_heap m1)" by (rule ledger_okD(1) [OF jobs_okD(1) [OF m1(1)]])
  have own: "mc_intrinsic_slots m1 \<le> i" using jobs_okD(4) [OF m1(1) at(1)] at(4) by simp
  have "contents_charged ?m3"
    using jobs_okD(2) [OF m1(1)] at own len by (auto simp: contents_charged_def nth_list_update)
  moreover have "\<not> is_promise_entry (?h ! j)" if "j < mc_intrinsic_slots m1" for j
    using m1(1) that own i by (simp add: jobs_ok_def)
  ultimately have m3: "jobs_ok ?m3" using transfer_slot_charge_ok [OF m2 t] m1(1) by (simp add: jobs_ok_def retained_bytes_def microtasks_of_def)
  have "element_of (mc_heap m1) i' j = element_of (mc_heap m) i' j" for i' j by (simp add: m1(2) element_of_append) (simp add: element_of_def)
  moreover have "element_of ?h i' j = element_of (mc_heap m1) i' j" for i' j
    using at by (cases "j = ?n"; cases "j = i") (simp_all add: element_of_def)
  ultimately have "all_other i m ?m3" using m3 entry at by (auto simp: all_other_def m1(2) nth_append)
  moreover have "runtime_slot ?m3 v = Ok (Some ?n)" using m1(3) at by (simp add: runtime_slot_iff present_def)
  moreover have "move_promise_all_values_to_array I a m = (Ok v, ?m3)"
  proof -
    have "promise_all_slot a m = Ok i" using all_slot_present [OF a] all_present [OF i] entry by simp
    moreover have "sat_mul (length vs) VALUE_BYTES = ?b" using b(2) by (simp add: sat_mul_def u64_saturating_def)
    ultimately show ?thesis using entry array m1(3) at(5) t
      by (simp add: move_promise_all_values_to_array_def create_array_def reads_def modifies_def updates_def produces_def eval_map_err_def expect_def eval_ok_def)
  qed
  ultimately show ?thesis using at by (intro exI [of _ ?m3]) simp
qed

lemma move_fails:
  assumes "runtime_index a = Some i" and "i < length (mc_heap m)" and "mc_heap m ! i = Entry_PromiseAll resolve reject vs remaining st"
    and "allocate (Entry_Array [] [] (Some (it_array_prototype I))) m = Err e"
  shows "move_promise_all_values_to_array I a m = (Err (Fail_Runtime e), m)"
  using assms all_slot_present [of a i m] all_present [of i "mc_heap m"]
  by (simp add: move_promise_all_values_to_array_def create_array_def reads_def produces_def eval_map_err_def)

lemma array_of_results:
  assumes run: "all_run I i s m" and entry: "mc_heap m ! i = Entry_PromiseAll resolve reject vs remaining True" and a: "runtime_index a = Some i"
  shows "case allocate (Entry_Array [] [] (Some (it_array_prototype I))) m of
      Ok (array, _) \<Rightarrow> \<exists>m2 slot. runtime_slot m2 array = Ok (Some slot) \<and> mc_heap m2 ! slot = Entry_Array vs [] (Some (it_array_prototype I)) \<and>
        all_run I i s m2 \<and> eval_bind (move_promise_all_values_to_array I a) g m = g array m2
    | Err e \<Rightarrow> eval_bind (move_promise_all_values_to_array I a) g m = (Err (Fail_Runtime e), m)
    | Panic \<Rightarrow> False"
proof -
  have ok: "jobs_ok m" and i: "i < length (mc_heap m)" using all_run_ok [OF run] by (simp_all add: all_rel_def)
  show ?thesis
  proof (cases "allocate (Entry_Array [] [] (Some (it_array_prototype I))) m")
    case (Ok x)
    obtain array m1 where x: "x = (array, m1)" by fastforce
    from move_step [OF ok a i entry Ok [unfolded x]] obtain m2 where "move_promise_all_values_to_array I a m = (Ok array, m2)"
      "runtime_slot m2 array = Ok (Some (length (mc_heap m)))" "mc_heap m2 ! length (mc_heap m) = Entry_Array vs [] (Some (it_array_prototype I))" "all_other i m m2"
      by blast
    with run_other [OF run] show ?thesis using Ok x by auto
  next
    case (Err e)
    with move_fails [OF a i entry Err] show ?thesis by simp
  qed (use allocate_no_Panic [OF jobs_okD(1) [OF ok]] in simp)
qed

section \<open>Delivery\<close>

text \<open>
  C28. \<^verbatim>\<open>Promise.all\<close> is exact. In whatever order its elements deliver, during the iteration or after it, and whatever else happens in the heap, the first delivery of an
  element resolves the capability exactly when it is the last one outstanding: the iteration is over and every element has delivered. It then calls the
  resolving function once, with a new array that holds the first value of each element in the order of the iteration (unless the array does not fit
  into the heap). Every other delivery, a repeated one or one after the aggregate was settled included, returns without calling anything. No delivery underflows the counter
  or writes outside the list.
\<close>

theorem promise_all_exact:
  assumes "all_run I i s m" and "mc_heap m ! i = Entry_PromiseAll resolve reject vs remaining st"
    and "runtime_index element = Some j" and "j < length (mc_heap m)" and "mc_heap m ! j = Entry_PromiseAllElement a k called" and "runtime_index a = Some i"
    and "s' = (if called then s else all_deliver k v s)"
  shows "if \<not> al_settled s \<and> al_settled s'
    then al_finished s \<and> dom (al_values s') = {..<al_count s} \<and>
      (\<exists>m1. record_promise_all_value element v m = (Ok (Some (a, resolve, True)), m1) \<and>
       (case allocate (Entry_Array [] [] (Some (it_array_prototype I))) m1 of
         Ok (array, _) \<Rightarrow>
           \<exists>m2 slot. runtime_slot m2 array = Ok (Some slot) \<and> mc_heap m2 ! slot = Entry_Array (all_results s') [] (Some (it_array_prototype I)) \<and>
             all_run I i s' m2 \<and>
             resolve_promise_all_element I element v m = eval_bind (it_call_value I resolve Value_UNDEFINED [array]) (\<lambda>_. eval_ok ()) m2
       | Err e \<Rightarrow> resolve_promise_all_element I element v m = (Err (Fail_Runtime e), m1)
       | Panic \<Rightarrow> False))
    else \<exists>m2. resolve_promise_all_element I element v m = (Ok (), m2) \<and> all_run I i s' m2"
proof -
  note rel = conjunct2 [OF all_run_ok [OF assms(1)]]
  have el: "element_of (mc_heap m) i j = Some (k, called)" using assms(4-6) by (simp add: element_of_def)
  show ?thesis
  proof (cases called)
    case True
    then show ?thesis using run_deliver [OF assms(1,3) el, of v] deliver_called [OF assms(3), of m i k v] el assms(7)
      by (auto simp: resolve_promise_all_element_def eval_ok_def)
  next
    case False
    have s': "s' = all_deliver k v s" using assms(7) False by simp
    have free: "mc_heap m ! j = Entry_PromiseAllElement a k False" using assms(5) False by simp
    from deliver_present [OF assms(3,4) free assms(6) rel assms(2), of v] obtain h where h:
      "record_promise_all_value element v m = (Ok (if al_settled s then None else Some (a, resolve, al_settled s')), m\<lparr>mc_heap := h\<rparr>)"
      "\<not> al_settled s \<and> al_settled s' \<longrightarrow> h ! i = Entry_PromiseAll resolve reject (all_results s') 0 True" unfolding s' by auto
    have run: "all_run I i s' (m\<lparr>mc_heap := h\<rparr>)" using run_deliver [OF assms(1,3) el h(1)] False s' by simp
    show ?thesis
    proof (cases "\<not> al_settled s \<and> al_settled s'")
      case True
      let ?m1 = "m\<lparr>mc_heap := h\<rparr>" and ?g = "\<lambda>array. eval_bind (it_call_value I resolve Value_UNDEFINED [array]) (\<lambda>_. eval_ok ())"
      have record_eq: "record_promise_all_value element v m = (Ok (Some (a, resolve, True)), ?m1)" using h(1) True by simp
      then have eq: "resolve_promise_all_element I element v m = eval_bind (move_promise_all_values_to_array I a) ?g ?m1"
        by (simp add: resolve_promise_all_element_def)
      have entry: "mc_heap ?m1 ! i = Entry_PromiseAll resolve reject (all_results s') 0 True" using h(2) True by simp
      have "al_finished s \<and> dom (al_values s') = {..<al_count s}"
        using True by (auto simp: s' all_deliver_def all_checked_def all_complete_def split: if_splits)
      then show ?thesis unfolding if_P [OF True] eq using record_eq array_of_results [OF run entry assms(6), of ?g] by blast
    next
      case F: False
      then have "resolve_promise_all_element I element v m = (Ok (), m\<lparr>mc_heap := h\<rparr>)"
        using h(1) by (auto simp: resolve_promise_all_element_def eval_ok_def)
      then show ?thesis using run F by auto
    qed
  qed
qed

section \<open>A concrete aggregate\<close>

lemma allocate_small:
  assumes "ledger_ok m" and "length (mc_heap m) < mc_max_heap_slots m" "length (mc_heap m) + 1 < 2 ^ 32" "mc_heap_bytes m + initial_bytes e \<le> mc_max_heap_bytes m"
  shows "\<exists>m'. allocate e m = Ok (slot_ref (length (mc_heap m)), m') \<and> mc_heap m' = mc_heap m @ [e] \<and> mc_heap_bytes m' = mc_heap_bytes m + initial_bytes e \<and>
    mc_max_heap_bytes m' = mc_max_heap_bytes m \<and> mc_max_heap_slots m' = mc_max_heap_slots m"
  using assms by (simp add: allocate_eq live_runtime_slots_def)

lemma add_small:
  assumes ok: "jobs_ok m" and a: "runtime_index a = Some i" and i: "i < length (mc_heap m)"
    and entry: "mc_heap m ! i = Entry_PromiseAll resolve reject vs remaining False" and "remaining + 1 < 2 ^ 64" "it_reserves I (length vs + 1)"
    and room: "mc_heap_bytes m + VALUE_BYTES \<le> mc_max_heap_bytes m"
  shows "add_promise_all_element I a m = (Ok (length vs), (charged_slot i VALUE_BYTES m)\<lparr>mc_heap := (mc_heap m)[i :=
    Entry_PromiseAll resolve reject (vs @ [Value_UNDEFINED]) (remaining + 1) False]\<rparr>)"
proof -
  note m = jobs_okD [OF ok]
  have own: "mc_intrinsic_slots m \<le> i" using m(4) [OF i] by (simp add: entry)
  have "promise_all_slot a m = Ok i" using all_slot_present [OF a] all_present [OF i] entry by simp
  moreover have "charge_slot i VALUE_BYTES m = Ok (charged_slot i VALUE_BYTES m)"
    using room by (simp add: charge_slot_eq [OF m(1) i] charge_due_owned [OF m(1) own])
  moreover have "ensure_allocation_capacity m 0 VALUE_BYTES = Ok ()"
    using room by (simp add: no_slot_capacity [OF m(1)])
  ultimately show ?thesis using assms(4-6) by (simp add: add_promise_all_element_def reads_def updates_def eval_map_err_def)
qed

theorem promise_all_exact_witness:
  "\<exists>m element m1. all_run idle_interpreter 3 (all_finish (all_add all_start)) m \<and>
     record_promise_all_value element Value_NULL m = (Ok (Some (slot_ref 3, Value_UNDEFINED, True)), m1)"
proof -
  let ?m = "promise_machine (Promise_Fulfilled Value_NULL)" and ?a = "slot_ref 3" and ?I = idle_interpreter and ?u = Value_UNDEFINED
  have m: "jobs_ok ?m" "length (mc_heap ?m) = 3" "mc_heap_bytes ?m = 202" "mc_max_heap_bytes ?m = 1000" "mc_max_heap_slots ?m = 8"
    using promise_machine_ok [of "Promise_Fulfilled Value_NULL"] by (simp_all add: promise_machine_def sample_machine_def)
  have a: "runtime_index ?a = Some 3" "runtime_index (slot_ref 4) = Some 4" by (simp_all add: runtime_index_slot_ref)
  from allocate_small [OF jobs_okD(1) [OF m(1)], of "Entry_PromiseAll ?u ?u [] 1 False"] m obtain m1 where
    m1: "allocate (Entry_PromiseAll ?u ?u [] 1 False) ?m = Ok (?a, m1)" "mc_heap m1 = mc_heap ?m @ [Entry_PromiseAll ?u ?u [] 1 False]"
      "mc_heap_bytes m1 = 203" "mc_max_heap_bytes m1 = 1000" "mc_max_heap_slots m1 = 8" by (auto simp: initial_bytes_def)
  have "element_of (mc_heap ?m) 3 j = None" for j by (simp add: element_of_def promise_machine_def nth_Cons split: nat.split)
  then have run1: "all_run ?I 3 all_start m1" using run_start [OF m(1) _ _ m1(1)] m(2) by simp
  let ?m2 = "(charged_slot 3 VALUE_BYTES m1)\<lparr>mc_heap := (mc_heap m1)[3 := Entry_PromiseAll ?u ?u [?u] 2 False]\<rparr>"
  have ok1: "jobs_ok m1" using all_run_ok [OF run1] by simp
  have h1: "3 < length (mc_heap m1)" "mc_heap m1 ! 3 = Entry_PromiseAll ?u ?u [] 1 False" using m1(2) m(2) by (simp_all add: nth_append)
  have "it_reserves ?I n" "mc_heap_bytes m1 + VALUE_BYTES \<le> mc_max_heap_bytes m1" for n
    using m1(3,4) by (simp_all add: idle_interpreter_def VALUE_BYTES_def)
  from add_small [OF ok1 a(1) h1 _ this] have add: "add_promise_all_element ?I ?a m1 = (Ok 0, ?m2)" by (simp add: numeral_2_eq_2 [symmetric])
  have ok2: "jobs_ok ?m2" using add_step [OF ok1 a(1) _ add] all_run_ok [OF run1] by blast
  have own: "charge_due m1 3 VALUE_BYTES \<le> 8" by (simp add: charge_due_def VALUE_BYTES_def)
  from allocate_small [OF jobs_okD(1) [OF ok2], of "Entry_PromiseAllElement ?a 0 False"] m1 m(2) own obtain m3 where
    m3: "allocate (Entry_PromiseAllElement ?a 0 False) ?m2 = Ok (slot_ref 4, m3)" "mc_heap m3 = mc_heap ?m2 @ [Entry_PromiseAllElement ?a 0 False]"
    by (auto simp: initial_bytes_def charged_slot_def request_garbage_collection_def)
  have run3: "all_run ?I 3 (all_add all_start) m3" by (rule run_add [OF run1 a(1) add m3(1)])
  have h3: "length (mc_heap m3) = 5" "mc_heap m3 ! 3 = Entry_PromiseAll ?u ?u [?u] 2 False" "mc_heap m3 ! 4 = Entry_PromiseAllElement ?a 0 False"
    using m3(2) m1(2) m(2) by (simp_all add: nth_append)
  let ?m4 = "m3\<lparr>mc_heap := (mc_heap m3)[3 := Entry_PromiseAll ?u ?u [?u] 1 False]\<rparr>"
  have "finish_promise_all ?a m3 = (Ok False, ?m4)"
    using all_slot_present [OF a(1), of m3] all_present [of 3 "mc_heap m3"] h3 by (simp add: finish_promise_all_def reads_def)
  with run_finish [OF run3 a(1)] have run4: "all_run ?I 3 (all_finish (all_add all_start)) ?m4" by (simp add: all_add_def all_start_def)
  have h4: "mc_heap ?m4 ! 3 = Entry_PromiseAll ?u ?u [?u] 1 False" "4 < length (mc_heap ?m4)" "mc_heap ?m4 ! 4 = Entry_PromiseAllElement ?a 0 False" using h3 by simp_all
  have "\<not> al_settled (all_finish (all_add all_start)) \<and>
      al_settled (if False then all_finish (all_add all_start) else all_deliver 0 Value_NULL (all_finish (all_add all_start)))"
    by (simp add: all_defs all_start_def lessThan_Suc)
  with promise_all_exact [OF run4 h4(1) a(2) h4(2,3) a(1) refl, of Value_NULL] show ?thesis using run4 by (auto simp only: if_True simp_thms)
qed

end
