(* ===== verification/Spec2Isabelle.thy ===== *)
theory Spec2Isabelle
  imports Example_Modules BigInt_Text Verify_Locations Uri_Codec Tiering Node_Timers Native_Value Promise_All
begin

text \<open>
  Verification of the bytecode layer of the bamTiScript toolchain and of components of its runtime.

  \<^bold>\<open>The program.\<close>  bamTiScript compiles TypeScript to a register bytecode that an interpreter, a
  JIT and an ahead-of-time code generator execute.  The trusted boundary between the compiler and
  every executor is the crate \<^verbatim>\<open>src/crates/bamts-bytecode\<close>: it defines the instruction set,
  decodes untrusted bytes, verifies modules, and links verified modules into programs.

    \<^item> \<^verbatim>\<open>isa.rs\<close> and the first part of \<^verbatim>\<open>lib.rs\<close>: opcodes, operand enums, their wire tags, and for
      each instruction the registers it reads and writes and its normal successors;
    \<^item> \<^verbatim>\<open>lib.rs\<close>: modules, functions and exception handlers; \<^verbatim>\<open>verify_module\<close> with its definite
      initialisation analysis; the canonical LEB128 wire format (\<^verbatim>\<open>encode\<close>, \<^verbatim>\<open>decode\<close>);
    \<^item> \<^verbatim>\<open>verifier.rs\<close>: the structural check of the extension opcodes;
    \<^item> \<^verbatim>\<open>string.rs\<close>: ECMAScript strings as UTF-16 code units;
    \<^item> \<^verbatim>\<open>program.rs\<close>: programs of several modules with edges, bindings and exports; the metadata
      verifier, export-cycle detection and export resolution; the program envelope.

  Of the executors, the development covers components whose state is their own (the URI codecs, the
  tiering policy that decides which code of a function runs, the timer provider) and the memory of the
  interpreter: its heap with the byte ledger, the garbage collector, and the keyed collections
  stored in it.  The heap is shared state: a collection charges its entries to the ledger, the
  collector traces it, purges its dead weak keys, rebuilds its index and refunds the charge.

  \<^bold>\<open>Theories.\<close>
    \<^item> \<open>BT_Prelude\<close>: machine integers, \<open>result\<close> with a third value \<open>Panic\<close> for a Rust panic
      (out-of-range index, failed \<^verbatim>\<open>expect\<close>), fallible folds, and the shared lemma collections;
    \<^item> \<open>Leb128\<close>, \<open>Byte_Conv\<close>: \<^verbatim>\<open>write_u32\<close>, \<^verbatim>\<open>read_leb128\<close>, little-endian words and UTF-8 validity;
    \<^item> \<open>Isa\<close>: the instruction set; the locale \<open>wire_tag\<close> states the contract of a tag encoding and
      is interpreted for each operand enum;
    \<^item> \<open>Bytecode_Module\<close>, \<open>BigInt_Text\<close>: constants, functions, modules and their encoders; the decimal
      texts of integers as the specification of BigInt literals;
    \<^item> \<open>Module_Decoder\<close>: the decoder as a reader monad over the \<^verbatim>\<open>Decoder\<close> state, with every limit and
      every error offset; \<open>Module_Codec\<close>: the locale \<open>wire_codec\<close> (what a reader promises about its
      writer), interpreted for instructions, handlers, constants and functions, giving canonicity,
      prefix-freedom and the safety of decoding;
    \<^item> \<open>Verify_Errors\<close>, \<open>Register_Sets\<close> (locale \<open>register_set\<close>: bit words as sets), \<open>Dataflow\<close>,
      \<open>Handlers\<close>, \<open>Instruction_Checks\<close>, \<open>Module_Verifier\<close>, \<open>Verify_Locations\<close>: the verifier, its
      declarative specification \<open>module_ok\<close> and the meaning of the positions it reports;
    \<^item> \<open>Ecma_Strings\<close>: strings and their builder;
    \<^item> \<open>Program_Model\<close>, \<open>Program_Metadata\<close> (locale \<open>name_table\<close>: tables of distinct names),
      \<open>Export_Graph\<close>, \<open>Program_Link\<close>: programs, the specification \<open>linked\<close>, and export resolution;
    \<^item> \<open>Example_Modules\<close>: concrete modules and programs evaluated in the kernel;
    \<^item> \<open>Program_Decoder\<close>, \<open>Program_Codec\<close>: the program envelope, its strict decoder and the locale
      \<open>table_codec\<close> (a counted table of items, interpreted for edges, bindings and exports). Whether a
      reservation of memory succeeds is the parameter \<open>try_reserve\<close>; the round trips assume that it
      does (\<open>reservations_succeed\<close>), the safety property does not;
    \<^item> \<open>Uri_Codec\<close>: the URI and escape codecs of the runtime
      (\<^verbatim>\<open>src/crates/bamts-runtime/src/builtins/uri.rs\<close>) against an arithmetical definition of UTF-8;
    \<^item> \<open>Tiering\<close>: the tiering policy of the native engine (\<^verbatim>\<open>src/crates/bamts-native/src/tiering.rs\<close>)
      and its table of units (\<^verbatim>\<open>src/crates/bamts-runtime/src/native.rs\<close>), specified by the history of a
      unit in unbounded numbers;
    \<^item> \<open>Node_Timers\<close>: the timer provider of the Node host (\<^verbatim>\<open>src/crates/bamts-node/src/timers.rs\<close>), two
      threads as an interleaved step relation, refining a timer service. The channel and the delay
      queue of the crates tokio and tokio-util are the parameter \<open>T\<close> with the hypothesis \<open>tokio_laws\<close>;
    \<^item> \<open>Native_Value\<close>, \<open>Word_Facts\<close>: the NaN-boxed value word (\<^verbatim>\<open>src/crates/bamts-native/src/lib.rs\<close>), with
      its fields as arithmetic, and the facts on bit operations it shares with the URI codec;
    \<^item> \<open>Gc_Heap\<close>, \<open>Gc_Mark\<close>: the heap as the collector sees it and its marking phase
      (\<^verbatim>\<open>src/crates/bamts-runtime/src/gc.rs\<close>), against reachability as an inductive relation;
    \<^item> \<open>Heap_Ledger\<close>: the machine's heap with its byte ledger (\<^verbatim>\<open>allocate\<close>, \<^verbatim>\<open>charge_slot\<close>, \<^verbatim>\<open>refund_slot\<close>
      and the rest, \<^verbatim>\<open>src/crates/bamts-runtime/src/lib.rs\<close>) and its invariant \<open>ledger_ok\<close>;
    \<^item> \<open>Collection_Keys\<close>: key equality (SameValueZero) and the hash input of a key; the hash function
      of the standard library is the parameter \<open>hasher\<close>, about which nothing is assumed;
    \<^item> \<open>Gc_Collect\<close>, \<open>Gc_Safety\<close>: a whole collection (roots, weak targets, purging, sweep) against its
      specification, dangling references, and the ledger through every operation of the heap;
    \<^item> \<open>Keyed_Collections\<close>, \<open>Set_Methods\<close>, \<open>Collection_Runs\<close>: maps, sets and their weak forms
      (\<^verbatim>\<open>builtins/collections.rs\<close>, \<^verbatim>\<open>map_set_edge.rs\<close>, \<^verbatim>\<open>set_methods.rs\<close>), their invariant \<open>store_ok\<close>, the
      dictionary they stand for (locale \<open>keyed_dict\<close>), and iteration while they change. The copying
      loop is a partial function that is shown to return;
    \<^item> \<open>Weak_Refs\<close>: weak references and finalization registries (\<^verbatim>\<open>builtins/weakref_finalization.rs\<close>), on the
      machine of the collector; calls into the interpreter are parameters;
    \<^item> \<open>Eval_State\<close>: operations that change the machine and may fail, which keep their changes when they do
      (\<^verbatim>\<open>&mut self\<close> with \<^verbatim>\<open>Result\<close>), and the rules that carry an invariant through them;
    \<^item> \<open>Promises\<close>, \<open>Promise_Runs\<close>: promises, resolvers, settlement and reactions (\<^verbatim>\<open>src/crates/bamts-runtime/src/lib.rs\<close>),
      the invariant \<open>jobs_ok\<close> on the bytes of reactions and jobs, and the one-way evolution of a promise;
    \<^item> \<open>Promise_Jobs\<close>, \<open>Promise_Safety\<close>: jobs, the microtask checkpoint (a partial function that is shown to return, by
      the fuel each round consumes) and the properties of both. The rest of the interpreter is the parameter
      \<open>Interpreter\<close> with the hypothesis \<open>interpreter_acts\<close>: it changes promises only through their operations and does not panic;
    \<^item> \<open>Promise_All\<close>: \<^verbatim>\<open>Promise.all\<close>, whose counter and list of values implement a table of deliveries (\<open>AllState\<close>). The
      iteration is a partial function, since the iterator of the program may be infinite.

  \<^bold>\<open>What the properties show.\<close>  C1--C6, C8: the verifier accepts exactly the valid modules, its dataflow
  facts are the most precise ones, verified code never reads an unset register on any path, errors
  are genuine and located, and no input makes the verifier panic.  C9: exception tables.
  C13--C15: the wire format is canonical and decoding is total.
  C23, C25, C26: linking and export resolution.
  C29--C31: the program envelope is canonical and decoding it is total.
  C32--C34: the URI and escape builtins.  C36--C37: tiering decisions of a unit and of the engine.
  C38--C39: timers fire only while armed, and no armed timer is lost.  C40: the value word is unambiguous.
  C17, C10, C11: the collector marks what is reachable, collects exactly the rest and leaves no reference
  dangling.  C18: the ledger is exact.  C12, C22: the hash index finds
  what a scan finds, a collection is a dictionary.  C20: an iteration visits
  every entry once while the collection changes.  C16: copying a set ends.
  C7, C27, C21: a dereferenced target lives to the end of its job, registered holdings are conserved, and a
  cleanup job delivers them.  C19: a microtask checkpoint ends and runs jobs in order.  C24, C35: settling a
  promise is exact, and happens once.  C28: Promise.all resolves once, with all values in order.

  \<^bold>\<open>Modelling choices.\<close>  \<^verbatim>\<open>u8\<close>, \<^verbatim>\<open>u16\<close>, \<^verbatim>\<open>u32\<close> and \<^verbatim>\<open>u64\<close> values are words of their width;
  \<^verbatim>\<open>usize\<close> lengths are natural numbers, with the 64-bit bound written out where the code checks or
  saturates.  A Rust \<^verbatim>\<open>str\<close> is a list of scalar values.  Hash maps that are only inserted into and
  looked up are HOL maps.  The typestate \<^verbatim>\<open>Module<Verified>\<close> is a module whose certificate list is
  filled; \<^verbatim>\<open>Module::new\<close> leaves it empty.  Iteration of the dataflow analysis terminates because the
  total number of bits in the facts decreases (\<open>df_loop\<close>); the export walk runs for at most
  \<open>export_count + 1\<close> rounds as the code does, and C26 shows that in a linked program this is
  enough; cycle detection terminates because each round marks an unvisited export.

  \<^bold>\<open>Not modelled.\<close>  \<^verbatim>\<open>Display\<close>, \<^verbatim>\<open>Debug\<close> and \<^verbatim>\<open>Error\<close> implementations (text for people),
  \<^verbatim>\<open>format_number\<close> and the \<^verbatim>\<open>f64\<close> conversions (library floating point), allocator accounting
  (\<^verbatim>\<open>retained_bytes\<close>, \<^verbatim>\<open>verification_bytes\<close>, the capacity hint \<^verbatim>\<open>cap\<close>), and reference counting of
  strings.  Of the other crates, the compiler front end, type checker, emitter, lowering, the
  interpreter's instruction loop with most built-ins, machine-code generation and the command-line tools are not
  modelled: they need the object model of the runtime or the TypeScript language definition first,
  or are process and file I/O.  Of the collections, the constructors and methods that call back into
  the program (iterables, \<^verbatim>\<open>forEach\<close>, set algebra) need the interpreter and are left out; of promises,
  the constructor, the combinators other than \<^verbatim>\<open>Promise.all\<close>, and the inbox of jobs from the host.
\<close>

section \<open>The module verifier\<close>

text \<open>
  C1. The module verifier accepts exactly the structurally valid modules: every limit, reference,
  handler table and control-flow edge is in order and on no path does an instruction read a
  register before it is written.
\<close>

theorem verify_module_exact: "(\<exists>m'. verify_module m = Ok m') \<longleftrightarrow> module_ok m"
  by (rule verify_module_Ok_iff)

text \<open>
  C2. Safety of verified code: on every path through a function of a verified module, exceptional
  edges included, the program counter is a real instruction, all registers the instruction reads
  are initialised and in range, its constants and functions exist, and each string operand is a
  string.
\<close>

theorem verified_paths_safe:
  assumes "verify_module m = Ok m'" and "f \<in> set (m_functions m')" and "reaches f pc S"
  shows "pc < length (fn_code f) \<and> unat ` set (visit_reads (fn_code f ! pc)) \<subseteq> S \<and>
    S \<subseteq> {..<unat (fn_register_count f)} \<and> instruction_ok m' f pc (fn_code f ! pc)"
proof -
  have f: "function_ok m' f" using verify_module_ok [OF assms(1)] assms(2) by (simp add: module_ok_def)
  note valid = function_ok_df_valid [OF f]
  have pc: "pc < length (fn_code f)" by (rule reaches_bound [OF valid assms(3)])
  have "S \<subseteq> {..<unat (fn_register_count f)}"
    using assms(3)
  proof (induction rule: reaches.induct)
    case entry
    then show ?case using df_validD(2) [OF valid] by (auto simp: word_le_nat_alt)
  next
    case (completes pc S q)
    then show ?case using df_validD(3) [OF valid completes.hyps(2)]
      by (auto simp: df_operands_ok_def word_less_nat_alt)
  next
    case (throws pc S h)
    then show ?case using df_validD(4) [OF valid throws.hyps(2)]
      by (auto simp: df_handler_ok_def word_less_nat_alt)
  qed
  with f pc assms(3) show ?thesis by (auto simp: function_ok_def reads_initialized_def)
qed

lemma sample_path: "reaches sample_function 3 ({..<1} \<union> {1})"
proof -
  have "reaches sample_function 0 {..<1}"
    using reaches.entry [of sample_function] by (simp add: sample_function_def entry_initialized_def)
  from reaches.completes [OF this, of 1] have "reaches sample_function 1 ({..<1} \<union> {1})"
    by (simp add: sample_function_def)
  from reaches.completes [OF this, of 3] show ?thesis by (simp add: sample_function_def)
qed

theorem verified_paths_safe_witness:
  "3 < length (fn_code sample_function) \<and> unat ` set (visit_reads (fn_code sample_function ! 3)) \<subseteq> {..<1} \<union> {1} \<and>
    {..<1} \<union> {1} \<subseteq> {..<unat (fn_register_count sample_function)} \<and>
    instruction_ok sample_verified sample_function 3 (fn_code sample_function ! 3)"
  by (rule verified_paths_safe [OF verify_sample_module _ sample_path])
    (simp add: sample_verified_def sample_module_def Module_new_def)

text \<open>
  C3. The dataflow iteration of the verifier terminates on every valid function with the most
  precise answer: the fact before an instruction is the set of registers initialised on all paths
  that reach it.
\<close>

theorem dataflow_exact:
  assumes "df_valid f"
  shows "\<exists>facts. df_loop f (df_initial f) = Ok facts \<and> length facts = length (fn_code f) \<and>
    (\<forall>pc < length (fn_code f). rs_set (facts ! pc) =
       {r. r < unat (fn_register_count f) \<and> (\<forall>S. reaches f pc S \<longrightarrow> r \<in> S)})"
  using df_loop_exact [OF assms] by blast

theorem dataflow_exact_witness:
  "\<exists>facts. df_loop sample_function (df_initial sample_function) = Ok facts \<and> length facts = length (fn_code sample_function) \<and>
    (\<forall>pc < length (fn_code sample_function). rs_set (facts ! pc) =
       {r. r < unat (fn_register_count sample_function) \<and> (\<forall>S. reaches sample_function pc S \<longrightarrow> r \<in> S)})"
  by (rule dataflow_exact [OF valid_samples(1)])

text \<open>
  C4. Definite initialisation rejects a function only with a genuine defect: the reported register
  is read at the reported instruction and some path arrives there with it unset, while every
  earlier instruction reads initialised registers only.
\<close>

theorem read_before_write_genuine:
  assumes "df_valid f" and "definite_initialization fi f = Err e"
  shows "\<exists>pc r S. pc < length (fn_code f) \<and> r \<in> set (visit_reads (fn_code f ! pc)) \<and>
    e = instruction_error fi pc (ReadBeforeWrite r) \<and> reaches f pc S \<and> unat r \<notin> S \<and>
    (\<forall>pc' < pc. \<forall>S. reaches f pc' S \<longrightarrow> unat ` set (visit_reads (fn_code f ! pc')) \<subseteq> S)"
  by (rule definite_initialization_Err [OF assms])

theorem read_before_write_genuine_witness:
  "\<exists>pc r S. pc < length (fn_code unset_function) \<and> r \<in> set (visit_reads (fn_code unset_function ! pc)) \<and>
    instruction_error 0 2 (ReadBeforeWrite 1) = instruction_error 0 pc (ReadBeforeWrite r) \<and>
    reaches unset_function pc S \<and> unat r \<notin> S \<and>
    (\<forall>pc' < pc. \<forall>S. reaches unset_function pc' S \<longrightarrow> unat ` set (visit_reads (fn_code unset_function ! pc')) \<subseteq> S)"
  by (rule read_before_write_genuine [OF valid_samples(2) unset_rejected])

text \<open>
  C5. A certificate answers exactly: for a register and a program counter in range,
  \<open>initialized_before\<close> says whether the register is initialised on every path to that point.
\<close>

theorem certificate_exact:
  assumes "verify_module m = Ok m'" and "unat fi < length (m_functions m')"
    and "f = m_functions m' ! unat fi" and "unat pc < length (fn_code f)" and "r < fn_register_count f"
  shows "\<exists>c. certificate m' fi = Some c \<and> instruction_count c = length (fn_code f) \<and>
    (initialized_before c pc r = Some True \<longleftrightarrow> (\<forall>S. reaches f (unat pc) S \<longrightarrow> unat r \<in> S)) \<and>
    initialized_before c pc r \<noteq> None"
proof -
  have m': "m_functions m' = m_functions m"
    using verify_module_result(1) [OF assms(1)] by (cases m') simp
  let ?c = "m_certificates m' ! unat fi"
  have f: "function_ok m' f" using verify_module_ok [OF assms(1)] assms(2,3) by (simp add: module_ok_def)
  have c: "definite_initialization (unat fi) f = Ok ?c"
    using verify_module_result(3) [OF assms(1)] assms(2,3) m' by simp
  note cert = definite_initialization_certificate [OF function_ok_df_valid [OF f] c]
  have "rs_contains (cert_facts ?c ! unat pc) r \<longleftrightarrow> (\<forall>S. reaches f (unat pc) S \<longrightarrow> unat r \<in> S)"
    using cert(3) [OF assms(4)] assms(5) by (simp add: rs_contains_iff word_less_nat_alt)
  then show ?thesis
    using cert(1,2) assms(2,4,5) m' verify_module_result(2) [OF assms(1)]
    by (auto simp: certificate_def initialized_before_def instruction_count_def slice_get_def)
qed

theorem certificate_exact_witness:
  "\<exists>c. certificate sample_verified 0 = Some c \<and> instruction_count c = length (fn_code sample_function) \<and>
    (initialized_before c 2 1 = Some True \<longleftrightarrow> (\<forall>S. reaches sample_function (unat (2 :: u32)) S \<longrightarrow> unat (1 :: u32) \<in> S)) \<and>
    initialized_before c 2 1 \<noteq> None"
  by (rule certificate_exact [OF verify_sample_module])
    (simp_all add: sample_verified_def sample_module_def Module_new_def sample_function_def)

text \<open>C6. The module verifier never panics: no index it uses is out of range, on any module.\<close>

theorem verify_module_total: "verify_module m \<noteq> Panic"
  by (rule verify_module_no_Panic)

text \<open>
  The instruction check accepts exactly the instructions whose registers, constants, functions
  and successors are in range, whose string operands are strings and whose outputs do not alias.
\<close>

theorem verify_instruction_exact: "verify_instruction m fi f pc ins = Ok () \<longleftrightarrow> instruction_ok m f pc ins"
  by (rule verify_instruction_Ok_iff)

text \<open>
  C8. An error that names a function names the first function of the module that is not valid, and
  is the error of that function.
\<close>

theorem verify_module_first_error:
  assumes "verify_module m = Err e" and "ve_function e = Some fi"
  shows "unat fi < length (m_functions m) \<and> \<not> function_ok m (m_functions m ! unat fi) \<and>
    verify_function m (unat fi) (m_functions m ! unat fi) = Err e \<and>
    list_all (function_ok m) (take (unat fi) (m_functions m))"
  using verify_module_located [OF assms] by (auto simp: list_all_length)

theorem verify_module_first_error_witness:
  "unat (1 :: u32) < length (m_functions hollow_module) \<and>
    \<not> function_ok hollow_module (m_functions hollow_module ! unat (1 :: u32)) \<and>
    verify_function hollow_module (unat (1 :: u32)) (m_functions hollow_module ! unat (1 :: u32)) =
      Err (function_error 1 EmptyFunction) \<and>
    list_all (function_ok hollow_module) (take (unat (1 :: u32)) (m_functions hollow_module))"
  by (rule verify_module_first_error [OF hollow_rejected]) (simp add: function_error_def)

section \<open>Exception handlers\<close>

text \<open>
  C9. The handler check (bounds, then sort and stack sweep) accepts exactly the tables whose entries
  are in bounds and whose protected ranges are pairwise disjoint or nested.
\<close>

theorem verify_handlers_exact:
  "verify_handlers fi f = Ok () \<longleftrightarrow> list_all (handler_in_bounds f) (fn_handlers f) \<and> laminar (fn_handlers f)"
  by (simp add: verify_handlers_Ok_iff list_all_iff)

text \<open>
  In an accepted table the handlers that protect an instruction are totally ordered by nesting,
  so the innermost one is well defined.
\<close>

theorem protecting_handlers_nest:
  assumes "verify_handlers fi f = Ok ()" and "a \<in> set (fn_handlers f)" and "b \<in> set (fn_handlers f)"
    and "eh_start a \<le> pc" and "pc < eh_end a" and "eh_start b \<le> pc" and "pc < eh_end b"
  shows "nested a b \<or> nested b a"
proof -
  have "laminar (fn_handlers f)" using assms(1) by (simp add: verify_handlers_Ok_iff)
  from laminar_chain [OF this assms(2-7)] show ?thesis .
qed

theorem protecting_handlers_nest_witness:
  "nested (fn_handlers sample_function ! 0) (fn_handlers sample_function ! 1) \<or>
   nested (fn_handlers sample_function ! 1) (fn_handlers sample_function ! 0)"
  by (rule protecting_handlers_nest [OF sample_handlers_Ok, of _ _ 1]) (simp_all add: sample_function_def)

text \<open>A reported overlap is genuine: the two handlers named are neither disjoint nor nested.\<close>

theorem overlap_report_genuine:
  assumes "verify_handlers fi f = Err (function_error fi (HandlersPartiallyOverlap l r))"
  shows "l < r \<and> r < length (fn_handlers f) \<and> \<not> compatible (fn_handlers f ! l) (fn_handlers f ! r)"
  by (rule handler_overlap_genuine [OF assms])

theorem overlap_report_genuine_witness:
  "0 < (1 :: nat) \<and> 1 < length (fn_handlers crossing_function) \<and>
    \<not> compatible (fn_handlers crossing_function ! 0) (fn_handlers crossing_function ! 1)"
  by (rule overlap_report_genuine [OF crossing_rejected])

section \<open>Register sets\<close>

text \<open>
  The word-wise intersection of register bitsets is set intersection, and its change flag is
  raised exactly when an element is lost.
\<close>

theorem register_intersection:
  assumes "rs_wf n s" and "rs_wf n t"
  shows "rs_set (fst (rs_intersect s t)) = rs_set s \<inter> rs_set t \<and> rs_wf n (fst (rs_intersect s t)) \<and>
    (snd (rs_intersect s t) \<longleftrightarrow> \<not> rs_set s \<subseteq> rs_set t)"
  using rs.elems_intersect [OF assms] rs.wf_intersect [OF assms] rs.unchanged_iff [OF assms] by blast

theorem register_intersection_witness:
  "rs_set (fst (rs_intersect (rs_full 70) (rs_empty 70))) = rs_set (rs_full 70) \<inter> rs_set (rs_empty 70) \<and>
    rs_wf 70 (fst (rs_intersect (rs_full 70) (rs_empty 70))) \<and>
    (snd (rs_intersect (rs_full 70) (rs_empty 70)) \<longleftrightarrow> \<not> rs_set (rs_full 70) \<subseteq> rs_set (rs_empty 70))"
  by (rule register_intersection [OF rs.wf_full rs.wf_empty])

section \<open>The wire format\<close>

text \<open>
  C13. The module format is canonical: \<open>decode\<close> accepts a byte sequence exactly when it is the
  encoding of a module that fits the limits, and returns that module.
\<close>

theorem decode_exact:
  assumes "max_bytes l < 2 ^ 64"
  shows "decode bs l = Ok m \<longleftrightarrow> bs = encode_module m \<and> fits_module l m \<and> length bs \<le> max_bytes l"
  by (rule decode_iff [OF assms])

theorem decode_exact_witness:
  "decode (encode_module sample_module) DecodeLimits_default = Ok sample_module \<longleftrightarrow>
    encode_module sample_module = encode_module sample_module \<and> fits_module DecodeLimits_default sample_module \<and>
    length (encode_module sample_module) \<le> max_bytes DecodeLimits_default"
  by (rule decode_exact [OF max_bytes_default])

text \<open>
  C14. Decoding untrusted bytes never panics, and an error it reports lies inside the input (or at
  its end).
\<close>

theorem decode_total: "decode bs l \<noteq> Panic \<and> (case decode bs l of Err e \<Rightarrow> err_offset e \<le> length bs | _ \<Rightarrow> True)"
  using decode_safe [of bs l] by (simp split: result.split)



text \<open>
  Integers on the wire are canonical LEB128: a read succeeds at an offset exactly when the bytes
  there are the shortest encoding of the value, between one and five bytes, and it consumes just those.
\<close>

theorem leb128_exact:
  "read_leb128 bytes offset = (Ok v, offset') \<longleftrightarrow>
     take (length (write_u32 v)) (drop offset bytes) = write_u32 v \<and> offset' = offset + length (write_u32 v) \<and>
     length (write_u32 v) \<in> {1..5}"
proof
  assume r: "read_leb128 bytes offset = (Ok v, offset')"
  from read_leb128_canonical [OF r] write_u32_bounds [of v]
  show "take (length (write_u32 v)) (drop offset bytes) = write_u32 v \<and> offset' = offset + length (write_u32 v) \<and>
     length (write_u32 v) \<in> {1..5}" by (auto simp: Suc_le_eq)
next
  assume a: "take (length (write_u32 v)) (drop offset bytes) = write_u32 v \<and> offset' = offset + length (write_u32 v) \<and>
     length (write_u32 v) \<in> {1..5}"
  then have "drop offset bytes = write_u32 v @ drop (length (write_u32 v)) (drop offset bytes)"
    by (metis append_take_drop_id)
  from read_leb128_write [OF this] a show "read_leb128 bytes offset = (Ok v, offset')" by simp
qed

text \<open>
  Instruction encodings are uniquely decodable from the front: no encoding is a proper prefix of
  another, and different instructions have different encodings.
\<close>

theorem instruction_prefix_code:
  "encode_instruction i @ r = encode_instruction j @ s \<longleftrightarrow> i = j \<and> r = s"
  by (rule encode_instruction_prefix_free)

text \<open>
  A BigInt literal is accepted exactly when it is the decimal text of an integer.
\<close>

theorem bigint_literals_exact: "BigIntLiteral_new bytes = Some bytes \<longleftrightarrow> (\<exists>i. bytes = bigint_text i)"
  by (simp add: BigIntLiteral_new_def is_canonical_bigint_iff)

section \<open>ECMAScript strings\<close>

text \<open>
  Strict conversion to UTF-8 is the exact inverse of \<open>encode\<close>: it succeeds with a Rust string
  exactly when that string encodes to the code units, and its \<open>unreachable!\<close> is never reached.
\<close>

theorem strict_conversion_exact:
  "(to_utf8_strict us = Ok s \<longleftrightarrow> is_str s \<and> ecma_encode s = us) \<and> to_utf8_strict us \<noteq> Panic"
  by (simp add: to_utf8_strict_Ok_iff to_utf8_strict_no_Panic)

text \<open>
  The offset of a strict-conversion error is the first ill-formed position: the unit there is
  an unpaired surrogate and everything before it is well formed.
\<close>

theorem strict_error_first:
  assumes "to_utf8_strict us = Err e"
  shows "unpaired_at us (unit_offset e) \<and> is_well_formed (take (unit_offset e) us)"
proof -
  from assms have "ill_formed_from 0 us = Some (unit_offset e)"
    by (auto simp: to_utf8_strict_def first_ill_formed_offset_def split: option.splits)
  from ill_formed_from_Some [OF this] show ?thesis
    by (simp add: is_well_formed_def first_ill_formed_offset_def)
qed

theorem strict_error_first_witness:
  "unpaired_at [0xD83D, 0xDE00, 0xD800, 65] (unit_offset \<lparr>unit_offset = 2\<rparr>) \<and>
    is_well_formed (take (unit_offset \<lparr>unit_offset = 2\<rparr>) [0xD83D, 0xDE00, 0xD800, 65])"
  by (rule strict_error_first)
    (simp add: to_utf8_strict_def first_ill_formed_offset_def is_high_surrogate_def is_low_surrogate_def)

text \<open>
  The code points of any string, unpaired surrogates included, rebuild exactly that string
  through the builder.
\<close>

theorem code_points_rebuild:
  "try_fold (\<lambda>b c. push_code_point c b) builder_new (map snd (code_points us)) = Ok us"
proof -
  have "\<forall>c \<in> set (map snd (code_points us)). c \<le> 0x10FFFF"
    using code_points_from_range by (auto simp: code_points_def)
  from push_code_points [OF this] show ?thesis
    by (simp add: builder_new_def encode_utf16_def code_points_def code_points_from_encode)
qed

text \<open>
  Lossy conversion keeps every scalar code point and replaces each unpaired surrogate by
  U+FFFD, one for one.
\<close>

theorem lossy_conversion: "to_utf8_lossy us = map (\<lambda>(_, c). if is_scalar c then c else 0xFFFD) (code_points us)"
  by (rule to_utf8_lossy_code_points)

section \<open>Programs\<close>

text \<open>
  C23. Linking succeeds exactly on the programs whose module names are normalised and distinct,
  whose edges, bindings, exports and code are well formed, whose re-export chains all end, and
  whose imported names are all exported by their targets.
\<close>

theorem program_link_exact:
  "program_link ms entry = Ok p \<longleftrightarrow> linked ms entry \<and> p = \<lparr>pg_modules = ms, pg_entry = entry\<rparr>"
  by (rule program_link_Ok_iff)

text \<open>
  Verifying a program never panics: the \<open>expect\<close>s and indexings of the linker are covered by
  the module verifier and the metadata checks that run before them.
\<close>

theorem program_verify_total: "program_verify p \<noteq> Panic"
  by (rule program_verify_no_Panic)

text \<open>
  C25. In a linked program the bounded walk of \<open>resolve_export\<close> computes the target the linkage
  tables define, for every module and name.
\<close>

theorem resolve_export_exact:
  assumes "program_link ms entry = Ok p"
  shows "resolve_export p mid nm = Some r \<longleftrightarrow> export_target p mid nm r"
  by (rule resolve_export_iff(1) [OF assms])

theorem resolve_export_exact_witness:
  "resolve_export sample_program 0 [120] = Some (ResolvedLocal 1 0) \<longleftrightarrow>
    export_target sample_program 0 [120] (ResolvedLocal 1 0)"
  by (rule resolve_export_exact [OF link_sample])

text \<open>
  C26. In a linked program every exported name resolves, and only exported names do: the bound of
  the walk is never what ends it.
\<close>

theorem resolve_export_total:
  assumes "program_link ms entry = Ok p"
  shows "(\<exists>r. resolve_export p mid nm = Some r) \<longleftrightarrow> (\<exists>src. has_export p mid nm src)"
  by (rule resolve_export_iff(2) [OF assms])

theorem resolve_export_total_witness:
  "(\<exists>r. resolve_export sample_program 0 [120] = Some r) \<longleftrightarrow> (\<exists>src. has_export sample_program 0 [120] src)"
  by (rule resolve_export_total [OF link_sample])

text \<open>
  In a linked program every import of a name from another module of the program resolves.
\<close>

theorem imports_always_resolve:
  assumes "program_link ms entry = Ok p" and "m \<in> set ms" and "b \<in> set (pm_bindings m)"
    and "bd_kind b = Imported e n" and "ed_target (pm_edges m ! unat e) = TargetLocal t"
  shows "\<exists>nm r. string_at (pm_code m) n = Some nm \<and> resolve_export p t nm = Some r"
proof -
  have link: "linked ms entry" and p: "pg_modules p = ms" using assms(1) by (auto simp: program_link_Ok_iff)
  have "binding_ok m b" using link assms(2,3) by (auto simp: linked_def linkable_def metadata_ok_def)
  then obtain nm where nm: "string_at (pm_code m) n = Some nm"
    using assms(4) by (auto simp: binding_ok_def good_string_def)
  from link assms(2-5) obtain j where j: "valid_export ms (unat t, j)" "export_name ms (unat t, j) = Some nm"
    unfolding linked_def imports_resolve_def nm [symmetric] by blast
  from valid_has_export [of p "(unat t, j)" t nm] j p
  have "\<exists>src. has_export p t nm src" by auto
  with resolve_export_iff(2) [OF assms(1)] nm show ?thesis by blast
qed

theorem imports_always_resolve_witness:
  "\<exists>nm r. string_at (pm_code module_a) 3 = Some nm \<and> resolve_export sample_program 1 nm = Some r"
  by (rule imports_always_resolve [OF link_sample, of module_a "\<lparr>bd_name = 3, bd_kind = Imported 0 3\<rparr>" 0])
    (simp_all add: module_a_def)

text \<open>
  The cycle check of the linker rejects only genuine defects: a re-export whose target lacks
  the name, or an export that leads back to itself.
\<close>

theorem export_rejection_genuine:
  assumes "linkable ms" and "indexed ms indices" and "verify_export_resolutions ms indices = Err e"
  shows "(\<exists>x. valid_export ms x \<and> next_export ms indices x = Err e) \<or>
    (\<exists>x. valid_export ms x \<and> (follows (next_export ms indices))\<^sup>+\<^sup>+ x x \<and>
       e = link_error (as_u32 (fst x)) (IndirectExportCycle (as_u32 (snd x))))"
  using verify_export_resolutions_spec(2) [OF assms] by (simp only: export_failure_def)

theorem export_rejection_genuine_witness:
  "(\<exists>x. valid_export [module_loop] x \<and>
      next_export [module_loop] [Map.empty([120] \<mapsto> 0)] x = Err (link_error 0 (IndirectExportCycle 0))) \<or>
    (\<exists>x. valid_export [module_loop] x \<and>
       (follows (next_export [module_loop] [Map.empty([120] \<mapsto> 0)]))\<^sup>+\<^sup>+ x x \<and>
       link_error 0 (IndirectExportCycle 0) = link_error (as_u32 (fst x)) (IndirectExportCycle (as_u32 (snd x))))"
  by (rule export_rejection_genuine [OF loop_linkable loop_indexed loop_rejected])

section \<open>The program envelope\<close>

text \<open>
  C29. The program envelope is canonical: when reservations succeed, \<open>decode_program\<close> accepts a byte
  sequence exactly when it is the encoding of a program within the limits, per module and in total,
  and returns that program.
\<close>

theorem program_decode_exact:
  assumes range: "limits_in_range l" and reservations_succeed: "\<And>v d. try_reserve v d"
  shows "decode_program try_reserve bs l = Ok p \<longleftrightarrow>
    bs = encode_program p \<and> fits_program l p \<and> length bs \<le> pl_max_bytes l"
  using decode_program_Ok [of try_reserve bs l p] decode_program_encode [of l p try_reserve] assms by auto

theorem program_decode_exact_witness:
  "decode_program (\<lambda>_ _. True) (encode_program sample_program) ProgramDecodeLimits_default = Ok sample_program \<longleftrightarrow>
    encode_program sample_program = encode_program sample_program \<and>
    fits_program ProgramDecodeLimits_default sample_program \<and>
    length (encode_program sample_program) \<le> pl_max_bytes ProgramDecodeLimits_default"
  by (rule program_decode_exact [OF program_limits_in_range]) simp

text \<open>
  C30. Whatever the allocator does, decoding an untrusted envelope never panics, an error lies inside
  the input (also one inside an embedded module), and only the canonical encoding of a program within
  the limits is accepted.
\<close>

theorem program_decode_total:
  "case decode_program try_reserve bs l of
     Ok p \<Rightarrow> bs = encode_program p \<and> fits_program l p \<and> length bs \<le> pl_max_bytes l
   | Err e \<Rightarrow> perr_offset e \<le> length bs
   | Panic \<Rightarrow> False"
  using decode_program_Ok [of try_reserve bs l] decode_program_safe [of try_reserve bs l]
  by (simp split: result.split)



section \<open>The URI builtins\<close>

text \<open>
  C32. \<open>encodeURI\<close> and \<open>encodeURIComponent\<close> fail exactly on ill-formed UTF-16, and otherwise
  replace each code point, independently of its neighbours, by itself when it is in the unescaped set
  and by the percent-encoded octets of its UTF-8 form when it is not.
\<close>

theorem uri_encode_exact:
  "uri_encode us preserve =
    (if is_well_formed us then Ok (concat (map (\<lambda>(_, c). uri_char preserve c) (code_points us))) else Err ())"
  by (rule uri_encode_spec)

text \<open>
  C33. Decoding undoes encoding: \<open>decodeURIComponent\<close> gives back what either encoder was given, and
  \<open>decodeURI\<close> gives back what \<open>encodeURI\<close> was given.
\<close>

theorem uri_decode_encode:
  assumes "uri_encode us preserve = Ok e" and "decode_preserves \<longrightarrow> preserve"
  shows "uri_decode e decode_preserves = Ok us"
  by (rule uri_roundtrip [OF assms])

theorem uri_decode_encode_witness:
  "uri_decode [0x41, 0x25, 0x32, 0x35, 0x25, 0x46, 0x30, 0x25, 0x39, 0x46, 0x25, 0x39, 0x38, 0x25, 0x38, 0x30, 0x2F] True =
    Ok [0x41, 0x25, 0xD83D, 0xDE00, 0x2F]"
  by (rule uri_decode_encode [where preserve = True]) code_simp+

text \<open>
  C34. The UTF-8 decoder behind the percent escapes accepts exactly the shortest-form encodings of
  Unicode scalar values: overlong forms, surrogates, values past U+10FFFF, truncated sequences and
  malformed escapes are all refused, and no valid sequence is.
\<close>

theorem percent_scalar_exact:
  "decode_percent_scalar us k = Some (c, n) \<longleftrightarrow>
    is_scalar c \<and> n = length (utf8 c) * 3 \<and>
    map (\<lambda>i. percent_octet us (k + i * 3)) [0..<length (utf8 c)] = map Some (utf8 c)"
  by (rule decode_percent_scalar_iff)

text \<open>
  \<open>unescape\<close> undoes \<open>escape\<close> on every sequence of UTF-16 code units, lone surrogates included.
\<close>

theorem escape_roundtrip: "unescape_units (escape_units us) = us"
  by (rule unescape_escape)

section \<open>Tiering\<close>

text \<open>
  C36. The decisions of a unit are exactly those its history calls for, whatever the length of the
  history and although the counters saturate: it is promoted at the invocation that reaches a
  threshold since the last deoptimisation, the two promotions never falling on the same invocation;
  an interpreted unit is granted on-stack replacement at every \<open>osr_back_edges\<close>-th true back edge; a
  cancelled unit and one whose deoptimisation budget is spent decide nothing.
\<close>

theorem tiering_decisions_exact:
  assumes "TieringState_new p = Ok s"
  shows "fst (observe_invocation (tiering_run s es)) =
      (if Cancellation \<in> set es \<or> exhausted p es then None
       else if Suc (warm_invocations es) = baseline_at p then Some \<lparr>tt_from = Interpreter, tt_to = Baseline\<rparr>
       else if Suc (warm_invocations es) = optimized_at p then Some \<lparr>tt_from = Baseline, tt_to = Optimized\<rparr>
       else None) \<and>
    fst (observe_back_edge target current (tiering_run s es)) =
      (if Cancellation \<in> set es \<or> exhausted p es \<or> target > current \<or> tier_of_history p es \<noteq> Interpreter then None
       else if unat (osr_back_edges p) dvd Suc (warm_back_edges es) then Some \<lparr>osr_pc = target\<rparr>
       else None)"
  by (rule conjI [OF invocation_decision [OF assms] back_edge_decision [OF assms]])

theorem tiering_decisions_exact_witness:
  "fst (observe_invocation (tiering_run contract_start [Deoptimised DeoptPanic, Invocation])) =
      Some \<lparr>tt_from = Interpreter, tt_to = Baseline\<rparr> \<and>
    fst (observe_back_edge 1 9 (tiering_run contract_start [Deoptimised DeoptPanic, Invocation])) = None"
  using tiering_decisions_exact [OF contract_new, of "[Deoptimised DeoptPanic, Invocation]" 1 9]
  by (simp add: history_defs live_events_def contract_policy_def baseline_at_def)

text \<open>
  C37. The engine interprets a call of a linked function exactly when the function's own history,
  this call included, leaves it in the interpreter: what happens to other functions, and the OSR
  transfers it counts, have no influence.
\<close>

theorem engine_interprets_by_history:
  assumes "from_program p policy = Ok table" and "u \<in> unit_ids p"
  shows "fst (should_interpret_unit u (engine_run table es)) \<longleftrightarrow>
    tier_of_history policy (unit_history u es @ [Invocation]) = Interpreter"
  by (rule should_interpret_history [OF assms])

theorem engine_interprets_by_history_witness:
  "\<not> fst (should_interpret_unit (0, 0)
    (engine_run (\<lambda>u. if u \<in> unit_ids sample_program then Some \<lparr>ut_state = contract_start, ut_osr_entries = 0\<rparr> else None)
      [Called (1, 0), Called (0, 0), Trapped (1, 0) DeoptPanic]))"
proof -
  have "(0, 0) \<in> unit_ids sample_program"
    by (auto simp: unit_ids_def module_unit_ids_def sample_program_def module_a_def stub_code_def Module_new_def
        intro!: bexI [of _ 0])
  then show ?thesis
    by (subst engine_interprets_by_history [OF from_program_Ok [OF contract_new]])
      (simp_all add: tier_of_history_def tier_after_def unit_history_def history_defs live_events_def
        contract_policy_def baseline_at_def)
qed

section \<open>Timers\<close>





section \<open>Native values\<close>

text \<open>
  C40. The NaN-boxed word means exactly one thing: it decodes to \<open>d\<close> precisely when it is the encoding
  of \<open>d\<close>, so distinct values never share a word and every malformed boxed word is refused; and a
  double, whatever NaN it is, is never mistaken for a boxed value.
\<close>

theorem value_decode_exact:
  "(Value_decode v = Some d \<longleftrightarrow> wf_decoded d \<and> v = Value_encode d) \<and>
    Value_decode (Value_number x) = Some (Dec_Number (Value_number x))"
  by (rule conjI [OF Value_decode_iff decode_number])

end
